(* ===== verification/Prelude.thy ===== *)
theory Prelude
  imports Main "HOL-Library.Word" "HOL-Library.AList" "HOL-Library.Char_ord" "HOL-Library.List_Lexorder"
begin

text \<open>
  Shared vocabulary of the development.

  \<^item> Types: a byte (\<^verbatim>\<open>u8\<close>) is a \<^typ>\<open>char\<close>, so a \<^verbatim>\<open>Vec<u8>\<close> is a \<^typ>\<open>string\<close>; the orders of
    \<open>HOL-Library.Char_ord\<close> and \<open>HOL-Library.List_Lexorder\<close> are the orders of \<^verbatim>\<open>u8\<close> and \<^verbatim>\<open>Vec<u8>\<close>.
    \<^verbatim>\<open>i64\<close>, \<^verbatim>\<open>u64\<close>, the atomic \<^verbatim>\<open>usize\<close> counters and \<^verbatim>\<open>f64\<close> bit patterns are 64-bit words, so their
    arithmetic wraps the way the release build does; lengths and indices of in-memory containers,
    which Rust bounds by \<^verbatim>\<open>isize::MAX\<close>, are natural numbers; \<^verbatim>\<open>isize\<close> arguments are integers.
  \<^item> Hash maps are association lists with distinct keys (\<open>AList.update\<close>, \<open>AList.delete\<close>,
    \<open>map_of\<close>), hash sets are distinct lists; the list order stands for the unspecified iteration
    order, and no theorem depends on it except where the source sorts first.
  \<^item> Outcomes: a Rust call returns, returns an error or panics; \<open>result\<close> keeps the three apart.
  \<^item> Generic lemmas on association lists, sorted lists and words used by several components.
\<close>

section \<open>Automation collections\<close>

named_theorems wf_intros \<open>preservation of the well-formedness invariants\<close>
named_theorems op_defs \<open>definitions of the operations of the storage engine\<close>

section \<open>Machine types\<close>

type_synonym bytes = string
type_synonym u64 = "64 word"
type_synonym i64 = "64 word"
type_synonym f64 = "64 word"

abbreviation CR :: char where "CR \<equiv> CHR 0x0D"
abbreviation LF :: char where "LF \<equiv> CHR 0x0A"

abbreviation isize_max :: int where "isize_max \<equiv> 9223372036854775807"
abbreviation usize_max :: nat where "usize_max \<equiv> 18446744073709551615"

definition in_i64 :: "int \<Rightarrow> bool" where
  "in_i64 n \<longleftrightarrow> - 9223372036854775808 \<le> n \<and> n \<le> 9223372036854775807"

text \<open>\<^verbatim>\<open>i64::checked_add\<close>.\<close>

definition checked_add_i64 :: "i64 \<Rightarrow> i64 \<Rightarrow> i64 option" where
  "checked_add_i64 a b = (if in_i64 (sint a + sint b) then Some (a + b) else None)"

lemma sint_in_i64 [simp]: "in_i64 (sint (x :: i64))"
  using sint_ge [of x] sint_lt [of x] by (simp add: in_i64_def)

lemma sint_word_of_int: "in_i64 n \<Longrightarrow> sint (word_of_int n :: i64) = n"
  by (simp add: in_i64_def sint_sbintrunc' signed_take_bit_int_eq_self)

lemma sint_add_in_i64: "in_i64 (sint a + sint b) \<Longrightarrow> sint (a + b :: i64) = sint a + sint b"
  by (simp add: in_i64_def sint_word_ariths signed_take_bit_int_eq_self)

lemma unat_lt2p_64: "unat (x :: 64 word) < 18446744073709551616"
  using unsigned_less [of x, where ?'a = nat] by simp

lemma checked_add_i64_Some:
  "checked_add_i64 a b = Some c \<longleftrightarrow> in_i64 (sint a + sint b) \<and> c = a + b"
  by (auto simp: checked_add_i64_def)

lemma checked_add_i64_None:
  "checked_add_i64 a b = None \<longleftrightarrow> \<not> in_i64 (sint a + sint b)"
  by (auto simp: checked_add_i64_def)

section \<open>Association lists as hash maps\<close>

lemma map_of_update [simp]:
  "map_of (AList.update k v al) k' = (if k' = k then Some v else map_of al k')"
  by (simp add: update_conv')

lemma map_of_delete [simp]:
  "map_of (AList.delete k al) k' = (if k' = k then None else map_of al k')"
  by (simp add: delete_conv')

lemma delete_update_same [simp]: "AList.delete k (AList.update k v al) = AList.delete k al"
  by (induction al) (auto simp: AList.delete_eq)

lemma map_fst_delete: "map fst (AList.delete k al) = filter (\<lambda>x. x \<noteq> k) (map fst al)"
  by (induction al) (auto simp: AList.delete_eq)

lemma distinct_delete [simp]: "distinct (map fst al) \<Longrightarrow> distinct (map fst (AList.delete k al))"
  by (simp add: map_fst_delete)

lemma set_keys_update [simp]: "fst ` set (AList.update k v al) = insert k (fst ` set al)"
  using dom_update [of k v al] by (simp add: dom_map_of_conv_image_fst)

lemma set_keys_delete [simp]: "fst ` set (AList.delete k al) = fst ` set al - {k}"
  using map_fst_delete [of k al] by (metis Diff_cancel filter_True image_set set_minus_filter_out)

lemma map_of_Some_in_set: "distinct (map fst al) \<Longrightarrow> map_of al k = Some v \<longleftrightarrow> (k, v) \<in> set al"
  by (rule map_of_eq_Some_iff)

lemma map_entry_conv: "map_of (AList.map_entry k f al) k' = (if k' = k then map_option f (map_of al k) else map_of al k')"
  by (simp add: map_of_map_entry split: option.split)

lemma length_delete: "distinct (map fst al) \<Longrightarrow> k \<in> fst ` set al \<Longrightarrow> Suc (length (AList.delete k al)) = length al"
  by (induction al) (auto simp: AList.delete_eq filter_id_conv rev_image_eqI intro!: arg_cong [of _ _ length])

lemma length_update_new: "k \<notin> fst ` set al \<Longrightarrow> length (AList.update k v al) = Suc (length al)"
  by (induction al) auto

lemma map_fst_map_entry [simp]: "map fst (AList.map_entry k f al) = map fst al"
  by (induction al) auto

lemma length_map_entry [simp]: "length (AList.map_entry k f al) = length al"
  by (induction al) auto

section \<open>Sorted association lists as B-tree maps\<close>

fun btree_insert :: "'k::linorder \<Rightarrow> 'v \<Rightarrow> ('k \<times> 'v) list \<Rightarrow> ('k \<times> 'v) list" where
  "btree_insert k v [] = [(k, v)]"
| "btree_insert k v (e # es) =
     (if k < fst e then (k, v) # e # es
      else if k = fst e then (k, v) # es
      else e # btree_insert k v es)"

lemma set_keys_btree_insert [simp]: "fst ` set (btree_insert k v m) = insert k (fst ` set m)"
  by (induction m) auto

lemma map_of_btree_insert [simp]:
  "sorted_wrt (<) (map fst m) \<Longrightarrow> map_of (btree_insert k v m) k' = (if k' = k then Some v else map_of m k')"
  by (induction m) (auto simp: map_of_eq_None_iff)

lemma sorted_btree_insert [simp]:
  "sorted_wrt (<) (map fst m) \<Longrightarrow> sorted_wrt (<) (map fst (btree_insert k v m))"
  by (induction m) auto

lemma length_btree_insert: "sorted_wrt (<) (map fst m) \<Longrightarrow> k \<notin> fst ` set m \<Longrightarrow>
    length (btree_insert k v m) = Suc (length m)"
  by (induction m) auto

lemma sorted_delete [simp]:
  "sorted_wrt (<) (map fst m) \<Longrightarrow> sorted_wrt (<) (map fst (AList.delete k m))"
  by (simp add: map_fst_delete sorted_wrt_filter)

lemma sorted_distinct: "sorted_wrt (<) (xs :: 'a::linorder list) \<Longrightarrow> distinct xs"
  by (simp add: strict_sorted_iff)

end
