(* ===== verification/Ferrous_Error.thy ===== *)
theory Ferrous_Error
  imports Prelude
begin

text \<open>
  \<^verbatim>\<open>src/error.rs\<close>: the error enumerations, their \<^verbatim>\<open>Display\<close> texts (which become the RESP error
  replies), and the outcome type of every fallible operation of the model: \<open>Ok\<close>, \<open>Err\<close> with a
  \<open>ferrous_error\<close>, or \<open>Panic\<close> (a Rust panic: index out of range, capacity overflow, instant
  overflow).
\<close>

datatype command_error =
    UnknownCommand string
  | WrongNumberOfArgs string
  | SyntaxError string
  | CommandWrongType
  | IntegerOverflow
  | NotInteger
  | IndexOutOfRange
  | NoSuchKey
  | InvalidState string
  | InvalidArgument string
  | InvalidStreamId
  | StreamIdTooSmall
  | StreamEmpty
  | ConsumerGroupExists
  | NoSuchConsumerGroup
  | NoSuchConsumer
  | StreamIdExists
  | Generic string
  | EmptyCommand
  | WrongNumberOfArguments string
  | InvalidCommandFormat
  | InvalidArgumentType
  | InvalidUtf8
  | InvalidIntegerValue
  | InvalidFloatValue
  | NotImplemented

datatype storage_error = OutOfMemory | KeyNotFound | WrongType | InvalidDatabase | WouldBlock

datatype script_error =
    ScriptNotFound
  | ExecutionError string
  | CompilationError string
  | ScriptTimeout
  | ScriptKilled

datatype ferrous_error =
    Protocol string
  | Command command_error
  | Storage storage_error
  | Io string
  | Config string
  | Connection string
  | Script script_error
  | LuaError string
  | Internal string

datatype 'a result = Ok 'a | Err ferrous_error | Panic

fun display_command_error :: "command_error \<Rightarrow> string" where
  "display_command_error (UnknownCommand cmd) = ''ERR unknown command '' @ [CHR 0x27] @ cmd @ [CHR 0x27]"
| "display_command_error (WrongNumberOfArgs cmd) =
     ''ERR wrong number of arguments for '' @ [CHR 0x27] @ cmd @ [CHR 0x27] @ '' command''"
| "display_command_error (SyntaxError msg) = ''ERR syntax error: '' @ msg"
| "display_command_error CommandWrongType =
     ''WRONGTYPE Operation against a key holding the wrong kind of value''"
| "display_command_error IntegerOverflow = ''ERR increment or decrement would overflow''"
| "display_command_error NotInteger = ''ERR value is not an integer or out of range''"
| "display_command_error IndexOutOfRange = ''ERR index out of range''"
| "display_command_error NoSuchKey = ''ERR no such key''"
| "display_command_error (InvalidState msg) = ''ERR '' @ msg"
| "display_command_error (InvalidArgument msg) = ''ERR invalid argument: '' @ msg"
| "display_command_error InvalidStreamId =
     ''ERR Invalid stream ID specified as stream command argument''"
| "display_command_error StreamIdTooSmall =
     ''ERR The ID specified in XADD is equal or smaller than the target stream top item''"
| "display_command_error StreamEmpty = ''ERR stream is empty''"
| "display_command_error ConsumerGroupExists = ''BUSYGROUP Consumer Group name already exists''"
| "display_command_error NoSuchConsumerGroup = ''NOGROUP No such key or consumer group''"
| "display_command_error NoSuchConsumer = ''ERR no such consumer''"
| "display_command_error StreamIdExists = ''ERR stream ID already exists''"
| "display_command_error (Generic msg) = ''ERR '' @ msg"
| "display_command_error EmptyCommand = ''ERR empty command''"
| "display_command_error (WrongNumberOfArguments cmd) =
     ''ERR wrong number of arguments for '' @ [CHR 0x27] @ cmd @ [CHR 0x27] @ '' command''"
| "display_command_error InvalidCommandFormat = ''ERR invalid command format''"
| "display_command_error InvalidArgumentType = ''ERR invalid argument type''"
| "display_command_error InvalidUtf8 = ''ERR invalid UTF-8 in argument''"
| "display_command_error InvalidIntegerValue = ''ERR invalid integer value''"
| "display_command_error InvalidFloatValue = ''ERR invalid floating point value''"
| "display_command_error NotImplemented = ''ERR command not implemented''"

fun display_storage_error :: "storage_error \<Rightarrow> string" where
  "display_storage_error OutOfMemory =
     ''OOM command not allowed when used memory > '' @ [CHR 0x27] @ ''maxmemory'' @ [CHR 0x27]"
| "display_storage_error KeyNotFound = ''Key not found''"
| "display_storage_error WrongType = ''Wrong data type''"
| "display_storage_error InvalidDatabase = ''ERR invalid DB index''"
| "display_storage_error WouldBlock = ''Would block''"

fun display_script_error :: "script_error \<Rightarrow> string" where
  "display_script_error ScriptNotFound = ''NOSCRIPT No matching script. Please use EVAL.''"
| "display_script_error (ExecutionError msg) = ''ERR '' @ msg"
| "display_script_error (CompilationError msg) = ''ERR Error compiling script: '' @ msg"
| "display_script_error ScriptTimeout = ''ERR Script execution time limit exceeded''"
| "display_script_error ScriptKilled = ''ERR Script killed by user''"

fun display_ferrous_error :: "ferrous_error \<Rightarrow> string" where
  "display_ferrous_error (Protocol msg) = ''Protocol error: '' @ msg"
| "display_ferrous_error (Command err) = display_command_error err"
| "display_ferrous_error (Storage err) = display_storage_error err"
| "display_ferrous_error (Io msg) = ''I/O error: '' @ msg"
| "display_ferrous_error (Config msg) = ''Configuration error: '' @ msg"
| "display_ferrous_error (Connection msg) = ''Connection error: '' @ msg"
| "display_ferrous_error (Script err) = display_script_error err"
| "display_ferrous_error (LuaError msg) =
     (if take 4 msg = ''ERR '' then msg else ''ERR '' @ msg)"
| "display_ferrous_error (Internal msg) = ''Internal error: '' @ msg"

text \<open>The \<^verbatim>\<open>?\<close> operator.\<close>

definition bind_result :: "'a result \<Rightarrow> ('a \<Rightarrow> 'b result) \<Rightarrow> 'b result" where
  "bind_result r f = (case r of Ok x \<Rightarrow> f x | Err e \<Rightarrow> Err e | Panic \<Rightarrow> Panic)"

lemma bind_result_simps [simp]:
  "bind_result (Ok x) f = f x"
  "bind_result (Err e) f = Err e"
  "bind_result Panic f = Panic"
  by (simp_all add: bind_result_def)

lemma bind_result_Ok_iff:
  "bind_result r f = Ok y \<longleftrightarrow> (\<exists>x. r = Ok x \<and> f x = Ok y)"
  by (cases r) auto

lemma bind_result_Panic_iff:
  "bind_result r f = Panic \<longleftrightarrow> r = Panic \<or> (\<exists>x. r = Ok x \<and> f x = Panic)"
  by (cases r) auto

end
