(* ===== verification/Steps.thy ===== *)
theory Steps
  imports Ferrous_Error
begin

text \<open>
  Calls that change a state and may fail: a step maps a state to the state it leaves and an outcome.
  \<open>and_then\<close> is the \<^verbatim>\<open>?\<close> operator on such calls (an error or a panic ends the sequence and keeps the
  state reached so far), \<open>steps\<close> runs a list of them in order.
\<close>

type_synonym ('s, 'a) step = "'s \<Rightarrow> 's \<times> 'a result"

definition and_then :: "'s \<times> 'a result \<Rightarrow> ('s \<Rightarrow> 'a \<Rightarrow> 's \<times> 'b result) \<Rightarrow> 's \<times> 'b result" where
  "and_then p k = (case snd p of Ok x \<Rightarrow> k (fst p) x | Err e \<Rightarrow> (fst p, Err e) | Panic \<Rightarrow> (fst p, Panic))"

primrec steps :: "('s, unit) step list \<Rightarrow> ('s, unit) step" where
  "steps [] s = (s, Ok ())"
| "steps (f # fs) s = and_then (f s) (\<lambda>s _. steps fs s)"

lemma and_then_simps [simp]:
  "and_then (s, Ok x) k = k s x" "and_then (s, Err e) k = (s, Err e)" "and_then (s, Panic) k = (s, Panic)"
  by (simp_all add: and_then_def)

lemma and_then_Ok:
  "and_then p k = (s', Ok y) \<longleftrightarrow> (\<exists>s x. p = (s, Ok x) \<and> k s x = (s', Ok y))"
  by (cases p; cases "snd p") (auto simp: and_then_def)

lemma and_then_cong [fundef_cong]:
  "p = p' \<Longrightarrow> (\<And>s x. p' = (s, Ok x) \<Longrightarrow> k s x = k' s x) \<Longrightarrow> and_then p k = and_then p' k'"
  by (cases p'; cases "snd p'") (auto simp: and_then_def)

lemma steps_append: "steps (fs @ gs) s = and_then (steps fs s) (\<lambda>s _. steps gs s)"
proof (induction fs arbitrary: s)
  case (Cons f fs)
  then show ?case by (cases "f s"; cases "snd (f s)") auto
qed simp

text \<open>A property of the state that every call keeps is kept by the sequence.\<close>

lemma and_then_keeps:
  assumes "P (fst p)" "\<And>s x. p = (s, Ok x) \<Longrightarrow> P (fst (k s x))"
  shows "P (fst (and_then p k))"
  using assms by (cases p; cases "snd p") auto

lemma steps_keeps:
  assumes "\<And>f s. f \<in> set fs \<Longrightarrow> P s \<Longrightarrow> P (fst (f s))" "P s"
  shows "P (fst (steps fs s))"
  using assms
proof (induction fs arbitrary: s)
  case (Cons f fs)
  show ?case unfolding steps.simps
  proof (rule and_then_keeps)
    show f: "P (fst (f s))" using Cons.prems by simp
    fix s' x assume "f s = (s', Ok x)"
    then show "P (fst (steps fs s'))" using Cons.IH [of s'] Cons.prems f by simp
  qed
qed simp

end
