(* ===== verification/Text.thy ===== *)
theory Text
  imports Ferrous_Error
begin

text \<open>
  The parts of the Rust standard library that turn text into numbers and back:
  decimal \<^verbatim>\<open>to_string\<close> and \<^verbatim>\<open>parse\<close> for \<^verbatim>\<open>i64\<close>, \<^verbatim>\<open>u64\<close> and \<^verbatim>\<open>usize\<close>, the UTF-8 check of
  \<^verbatim>\<open>std::str::from_utf8\<close> and the decoding of \<^verbatim>\<open>String::from_utf8_lossy\<close> (every maximal ill-formed
  prefix becomes U+FFFD). The main facts are the round trips between printing and parsing.
\<close>

section \<open>Decimal numbers\<close>

definition digit_char :: "nat \<Rightarrow> char" where
  "digit_char d = char_of (48 + d)"

definition is_digit :: "char \<Rightarrow> bool" where
  "is_digit c \<longleftrightarrow> 48 \<le> (of_char c :: nat) \<and> (of_char c :: nat) \<le> 57"

definition digit_val :: "char \<Rightarrow> nat" where
  "digit_val c = of_char c - 48"

fun nat_to_string :: "nat \<Rightarrow> string" where
  "nat_to_string n = (if n < 10 then [digit_char n]
     else nat_to_string (n div 10) @ [digit_char (n mod 10)])"

declare nat_to_string.simps [simp del]

text \<open>The digit loop of \<^verbatim>\<open>from_str_radix\<close>, on unbounded naturals; the callers check the range.\<close>

fun parse_digits :: "nat \<Rightarrow> string \<Rightarrow> nat option" where
  "parse_digits acc [] = Some acc"
| "parse_digits acc (c # cs) =
     (if is_digit c then parse_digits (10 * acc + digit_val c) cs else None)"

definition parse_nat :: "string \<Rightarrow> nat option" where
  "parse_nat s = (if s = [] then None else parse_digits 0 s)"

definition parse_usize :: "string \<Rightarrow> nat option" where
  "parse_usize s =
     (let ds = (case s of c # cs \<Rightarrow> if c = CHR ''+'' then cs else s | [] \<Rightarrow> s)
      in case parse_nat ds of
           None \<Rightarrow> None
         | Some n \<Rightarrow> if n \<le> usize_max then Some n else None)"

definition parse_u64 :: "string \<Rightarrow> u64 option" where
  "parse_u64 s = map_option word_of_nat (parse_usize s)"

definition parse_int :: "string \<Rightarrow> int option" where
  "parse_int s =
     (case s of
        [] \<Rightarrow> None
      | c # cs \<Rightarrow>
          if c = CHR ''-'' then map_option (\<lambda>n. - int n) (parse_nat cs)
          else if c = CHR ''+'' then map_option int (parse_nat cs)
          else map_option int (parse_nat s))"

definition parse_isize :: "string \<Rightarrow> int option" where
  "parse_isize s =
     (case parse_int s of None \<Rightarrow> None | Some n \<Rightarrow> if in_i64 n then Some n else None)"

definition parse_i64 :: "string \<Rightarrow> i64 option" where
  "parse_i64 s = map_option word_of_int (parse_isize s)"

definition int_to_string :: "int \<Rightarrow> string" where
  "int_to_string n = (if n < 0 then CHR ''-'' # nat_to_string (nat (- n)) else nat_to_string (nat n))"

definition i64_to_string :: "i64 \<Rightarrow> string" where
  "i64_to_string x = int_to_string (sint x)"

definition u64_to_string :: "u64 \<Rightarrow> string" where
  "u64_to_string x = nat_to_string (unat x)"

lemma of_char_digit_char [simp]: "d < 10 \<Longrightarrow> (of_char (digit_char d) :: nat) = 48 + d"
  by (simp add: digit_char_def)

lemma is_digit_digit_char [simp]: "d < 10 \<Longrightarrow> is_digit (digit_char d)"
  by (simp add: is_digit_def)

lemma digit_val_digit_char [simp]: "d < 10 \<Longrightarrow> digit_val (digit_char d) = d"
  by (simp add: digit_val_def)

lemma nat_to_string_nonempty [simp]: "nat_to_string n \<noteq> []"
  by (subst nat_to_string.simps) simp

lemma nat_to_string_digits: "\<forall>c \<in> set (nat_to_string n). is_digit c"
proof (induction n rule: nat_to_string.induct)
  case (1 n)
  show ?case
  proof (cases "n < 10")
    case True
    then show ?thesis by (subst nat_to_string.simps) simp
  next
    case False
    then show ?thesis using "1.IH" by (subst nat_to_string.simps) auto
  qed
qed

lemma parse_digits_snoc:
  "is_digit d \<Longrightarrow> parse_digits acc (cs @ [d]) =
     map_option (\<lambda>n. 10 * n + digit_val d) (parse_digits acc cs)"
  by (induction cs arbitrary: acc) auto

lemma parse_digits_nat_to_string: "parse_digits 0 (nat_to_string n) = Some n"
proof (induction n rule: nat_to_string.induct)
  case (1 n)
  show ?case
  proof (cases "n < 10")
    case True
    then show ?thesis by (subst nat_to_string.simps) simp
  next
    case False
    then have "parse_digits 0 (nat_to_string n) = Some (10 * (n div 10) + n mod 10)"
      using "1.IH" by (subst nat_to_string.simps) (simp add: parse_digits_snoc)
    then show ?thesis by simp
  qed
qed

lemma parse_nat_to_string [simp]: "parse_nat (nat_to_string n) = Some n"
  by (simp add: parse_nat_def parse_digits_nat_to_string)

lemma nat_to_string_hd: "\<exists>c cs. nat_to_string n = c # cs \<and> is_digit c"
  using nat_to_string_digits [of n] nat_to_string_nonempty [of n]
  by (cases "nat_to_string n") auto

lemma not_digit [simp]: "\<not> is_digit (CHR ''+'')" "\<not> is_digit (CHR ''-'')" "\<not> is_digit CR" "\<not> is_digit LF"
  by (simp_all add: is_digit_def)

lemma parse_usize_nat_to_string: "n \<le> usize_max \<Longrightarrow> parse_usize (nat_to_string n) = Some n"
  using nat_to_string_hd [of n] parse_nat_to_string [of n]
  by (auto simp: parse_usize_def Let_def simp del: parse_nat_to_string)

lemma parse_int_to_string [simp]: "parse_int (int_to_string n) = Some n"
proof (cases "n < 0")
  case True
  then show ?thesis by (simp add: parse_int_def int_to_string_def)
next
  case False
  then show ?thesis
    using nat_to_string_hd [of "nat n"] parse_nat_to_string [of "nat n"]
    by (auto simp: parse_int_def int_to_string_def simp del: parse_nat_to_string)
qed

lemma parse_isize_to_string: "in_i64 n \<Longrightarrow> parse_isize (int_to_string n) = Some n"
  by (simp add: parse_isize_def)

lemma parse_i64_to_string [simp]: "parse_i64 (i64_to_string x) = Some x"
  by (simp add: parse_i64_def i64_to_string_def parse_isize_to_string)

lemma parse_u64_to_string [simp]: "parse_u64 (u64_to_string x) = Some x"
proof -
  have "unat x \<le> usize_max" using unat_lt2p_64 [of x] by simp
  then show ?thesis by (simp add: parse_u64_def u64_to_string_def parse_usize_nat_to_string)
qed

lemma int_to_string_chars: "c \<in> set (int_to_string n) \<Longrightarrow> c = CHR ''-'' \<or> is_digit c"
  using nat_to_string_digits by (auto simp: int_to_string_def split: if_splits)

lemma parse_i64_in_range: "parse_i64 s = Some x \<Longrightarrow> \<exists>n. parse_int s = Some n \<and> in_i64 n \<and> sint x = n"
  by (auto simp: parse_i64_def parse_isize_def sint_word_of_int split: option.splits if_splits)

section \<open>UTF-8\<close>

definition cont_byte :: "nat \<Rightarrow> bool" where
  "cont_byte b \<longleftrightarrow> 0x80 \<le> b \<and> b \<le> 0xBF"

text \<open>Is \<open>b2\<close> an allowed second byte after the lead byte \<open>b1\<close> of a three or four byte sequence?\<close>

definition second_ok :: "nat \<Rightarrow> nat \<Rightarrow> bool" where
  "second_ok b1 b2 =
     (if b1 = 0xE0 then 0xA0 \<le> b2 \<and> b2 \<le> 0xBF
      else if b1 = 0xED then 0x80 \<le> b2 \<and> b2 \<le> 0x9F
      else if b1 = 0xF0 then 0x90 \<le> b2 \<and> b2 \<le> 0xBF
      else if b1 = 0xF4 then 0x80 \<le> b2 \<and> b2 \<le> 0x8F
      else cont_byte b2)"

text \<open>
  One step of the decoder on a non-empty input given as byte values: the code point, or
  \<open>None\<close> for an ill-formed prefix, and the number of bytes the step consumes.
\<close>

fun utf8_next :: "nat list \<Rightarrow> nat option \<times> nat" where
  "utf8_next [] = (None, 0)"
| "utf8_next (b1 # bs) =
     (if b1 < 0x80 then (Some b1, 1)
      else if 0xC2 \<le> b1 \<and> b1 \<le> 0xDF then
        (case bs of b2 # _ \<Rightarrow> if cont_byte b2 then (Some ((b1 - 0xC0) * 64 + (b2 - 0x80)), 2) else (None, 1)
         | [] \<Rightarrow> (None, 1))
      else if 0xE0 \<le> b1 \<and> b1 \<le> 0xEF then
        (case bs of
           b2 # bs' \<Rightarrow>
             if second_ok b1 b2 then
               (case bs' of
                  b3 # _ \<Rightarrow>
                    if cont_byte b3
                    then (Some ((b1 - 0xE0) * 4096 + (b2 - 0x80) * 64 + (b3 - 0x80)), 3)
                    else (None, 2)
                | [] \<Rightarrow> (None, 2))
             else (None, 1)
         | [] \<Rightarrow> (None, 1))
      else if 0xF0 \<le> b1 \<and> b1 \<le> 0xF4 then
        (case bs of
           b2 # bs' \<Rightarrow>
             if second_ok b1 b2 then
               (case bs' of
                  b3 # bs'' \<Rightarrow>
                    if cont_byte b3 then
                      (case bs'' of
                         b4 # _ \<Rightarrow>
                           if cont_byte b4
                           then (Some ((b1 - 0xF0) * 262144 + (b2 - 0x80) * 4096
                                       + (b3 - 0x80) * 64 + (b4 - 0x80)), 4)
                           else (None, 3)
                       | [] \<Rightarrow> (None, 3))
                    else (None, 2)
                | [] \<Rightarrow> (None, 2))
             else (None, 1)
         | [] \<Rightarrow> (None, 1))
      else (None, 1))"

lemma utf8_next_pos: "bs \<noteq> [] \<Longrightarrow> 0 < snd (utf8_next bs)"
  by (cases bs) (auto split: list.splits)

function utf8_decode :: "nat list \<Rightarrow> nat option list" where
  "utf8_decode bs =
     (if bs = [] then [] else fst (utf8_next bs) # utf8_decode (drop (snd (utf8_next bs)) bs))"
  by pat_completeness auto
termination
  by (relation "measure length") (auto simp: utf8_next_pos simp del: utf8_next.simps)

declare utf8_decode.simps [simp del]
declare utf8_next.simps [simp del]

definition utf8_valid :: "bytes \<Rightarrow> bool" where
  "utf8_valid s \<longleftrightarrow> None \<notin> set (utf8_decode (map of_char s))"

text \<open>The code points of \<^verbatim>\<open>String::from_utf8_lossy(s)\<close>.\<close>

definition from_utf8_lossy :: "bytes \<Rightarrow> nat list" where
  "from_utf8_lossy s = map (\<lambda>c. case c of Some cp \<Rightarrow> cp | None \<Rightarrow> 0xFFFD) (utf8_decode (map of_char s))"

definition is_ascii :: "bytes \<Rightarrow> bool" where
  "is_ascii s \<longleftrightarrow> (\<forall>c \<in> set s. (of_char c :: nat) < 128)"

lemma utf8_decode_ascii:
  "is_ascii s \<Longrightarrow> utf8_decode (map of_char s) = map (\<lambda>c. Some (of_char c)) s"
proof (induction s)
  case Nil
  then show ?case by (simp add: utf8_decode.simps)
next
  case (Cons c s)
  then have c: "(of_char c :: nat) < 128" and s: "is_ascii s" by (auto simp: is_ascii_def)
  have "utf8_decode (map of_char (c # s)) = Some (of_char c) # utf8_decode (map of_char s)"
    using c by (subst utf8_decode.simps) (simp add: utf8_next.simps)
  then show ?case using Cons.IH [OF s] by simp
qed

lemma utf8_valid_ascii: "is_ascii s \<Longrightarrow> utf8_valid s"
  by (auto simp: utf8_valid_def utf8_decode_ascii)

lemma from_utf8_lossy_ascii: "is_ascii s \<Longrightarrow> from_utf8_lossy s = map of_char s"
  by (simp add: from_utf8_lossy_def utf8_decode_ascii)

lemma is_digit_ascii: "is_digit c \<Longrightarrow> (of_char c :: nat) < 128"
  by (simp add: is_digit_def)

lemma int_to_string_ascii: "is_ascii (int_to_string n)"
  using int_to_string_chars is_digit_ascii by (fastforce simp: is_ascii_def)

lemma nat_to_string_ascii: "is_ascii (nat_to_string n)"
  using nat_to_string_digits is_digit_ascii by (fastforce simp: is_ascii_def)

text \<open>\<^verbatim>\<open>data[0] as char\<close> shown as UTF-8.\<close>

definition latin1_utf8 :: "char \<Rightarrow> string" where
  "latin1_utf8 c =
     (if (of_char c :: nat) < 128 then [c]
      else [char_of (0xC0 + (of_char c :: nat) div 64), char_of (0x80 + (of_char c :: nat) mod 64)])"

end
