(* ===== verification/Rdb_Format.thy ===== *)
theory Rdb_Format
  imports Steps Text
begin

text \<open>
  The primitive encodings of the snapshot file (\<^verbatim>\<open>src/storage/rdb.rs\<close>): variable-length lengths,
  length-prefixed strings, fixed-width integers and floats; how \<^verbatim>\<open>RdbWriter\<close> writes them and \<^verbatim>\<open>RdbReader\<close>
  reads them back.  A writer may meet a full or failing file at any byte (\<open>capacity\<close>); a reader may
  meet the end of the file at any byte.  \<open>appends\<close> says what a writing call adds to the file,
  \<open>decodes\<close> which bytes a reading call takes and what it returns; both compose along \<open>and_then\<close>.
\<close>

unbundle bit_operations_syntax

section \<open>Opcodes\<close>

datatype rdb_opcode =
    OpEof | OpSelectDb | OpExpireTimeS | OpExpireTimeMs | OpResizeDb | OpAux
  | OpString | OpList | OpSet | OpZSet | OpHash | OpZSet2

fun opcode :: "rdb_opcode \<Rightarrow> char" where
  "opcode OpEof = CHR 0xFF"
| "opcode OpSelectDb = CHR 0xFE"
| "opcode OpExpireTimeS = CHR 0xFD"
| "opcode OpExpireTimeMs = CHR 0xFC"
| "opcode OpResizeDb = CHR 0xFB"
| "opcode OpAux = CHR 0xFA"
| "opcode OpString = CHR 0x00"
| "opcode OpList = CHR 0x01"
| "opcode OpSet = CHR 0x02"
| "opcode OpZSet = CHR 0x03"
| "opcode OpHash = CHR 0x04"
| "opcode OpZSet2 = CHR 0x05"

section \<open>Fixed-width integers\<close>

primrec le_bytes :: "nat \<Rightarrow> nat \<Rightarrow> bytes" where
  "le_bytes 0 n = []"
| "le_bytes (Suc k) n = char_of (n mod 256) # le_bytes k (n div 256)"

primrec of_le_bytes :: "bytes \<Rightarrow> nat" where
  "of_le_bytes [] = 0"
| "of_le_bytes (c # cs) = of_char c + 256 * of_le_bytes cs"

definition u64_to_le_bytes :: "u64 \<Rightarrow> bytes" where
  "u64_to_le_bytes n = le_bytes 8 (unat n)"

definition u32_to_be_bytes :: "32 word \<Rightarrow> bytes" where
  "u32_to_be_bytes n = rev (le_bytes 4 (unat n))"

lemma length_le_bytes [simp]: "length (le_bytes k n) = k"
  by (induction k arbitrary: n) auto

lemma of_le_bytes_le_bytes: "n < 256 ^ k \<Longrightarrow> of_le_bytes (le_bytes k n) = n"
proof (induction k arbitrary: n)
  case (Suc k)
  then have "n div 256 < 256 ^ k" by (simp add: less_mult_imp_div_less mult.commute)
  then show ?case using Suc.IH [of "n div 256"] by simp
qed simp

lemma u64_le_bytes [simp]: "word_of_nat (of_le_bytes (u64_to_le_bytes n)) = n" "length (u64_to_le_bytes n) = 8"
  using of_le_bytes_le_bytes [of "unat n" 8] unat_lt2p_64 [of n] by (simp_all add: u64_to_le_bytes_def)

lemma u32_be_bytes [simp]: "of_le_bytes (rev (u32_to_be_bytes n)) = unat n" "length (u32_to_be_bytes n) = 4"
  using of_le_bytes_le_bytes [of "unat n" 4] unsigned_less [of n, where ?'a = nat] by (simp_all add: u32_to_be_bytes_def)

section \<open>Writing\<close>

text \<open>
  \<open>capacity\<close> is the number of bytes the file takes before a write fails with the text \<open>sink_error\<close>.
\<close>

record rdb_writer =
  written :: bytes
  bytes_written :: u64
  crc :: u64
  capacity :: "nat option"
  sink_error :: string

definition new_writer :: "nat option \<Rightarrow> string \<Rightarrow> rdb_writer" where
  "new_writer cap err = \<lparr>written = [], bytes_written = 0, crc = 0, capacity = cap, sink_error = err\<rparr>"

definition emit :: "bytes \<Rightarrow> rdb_writer \<Rightarrow> rdb_writer" where
  "emit bs w = w\<lparr>written := written w @ bs, bytes_written := bytes_written w + word_of_nat (length bs),
     crc := fold (\<lambda>b c. c + word_of_nat (of_char b)) bs (crc w)\<rparr>"

definition write_raw :: "bytes \<Rightarrow> (rdb_writer, unit) step" where
  "write_raw bs w =
     (case capacity w of
        Some n \<Rightarrow>
          if length (written w) + length bs \<le> n then (emit bs w, Ok ())
          else (w\<lparr>written := take n (written w @ bs)\<rparr>, Err (Io (sink_error w)))
      | None \<Rightarrow> (emit bs w, Ok ()))"

definition write_byte :: "char \<Rightarrow> (rdb_writer, unit) step" where
  "write_byte b = write_raw [b]"

definition write_u32_be :: "32 word \<Rightarrow> (rdb_writer, unit) step" where
  "write_u32_be n = write_raw (u32_to_be_bytes n)"

definition write_u64_le :: "u64 \<Rightarrow> (rdb_writer, unit) step" where
  "write_u64_le n = write_raw (u64_to_le_bytes n)"

definition write_f64 :: "f64 \<Rightarrow> (rdb_writer, unit) step" where
  "write_f64 x = write_raw (u64_to_le_bytes x)"

definition write_length :: "nat \<Rightarrow> (rdb_writer, unit) step" where
  "write_length len =
     (if len \<le> 63 then write_byte (char_of len)
      else if len \<le> 16383 then
        steps [write_byte (char_of ((drop_bit 8 len AND 0x3F) OR 0x40)), write_byte (char_of (len AND 0xFF))]
      else steps [write_byte (CHR 0x80), write_u32_be (word_of_nat len)])"

definition write_string :: "bytes \<Rightarrow> (rdb_writer, unit) step" where
  "write_string s = steps [write_length (length s), write_raw s]"

section \<open>Reading\<close>

text \<open>
  The reader with the file it still has to read and the number of bytes read; \<open>target\<close> is the engine
  the snapshot is loaded into, which the primitives do not touch.
\<close>

record 'e rdb_reader =
  unread :: bytes
  position :: nat
  target :: 'e

definition read_exact :: "nat \<Rightarrow> ('e rdb_reader, bytes) step" where
  "read_exact n s =
     (if n \<le> length (unread s) then
        (s\<lparr>unread := drop n (unread s), position := position s + n\<rparr>, Ok (take n (unread s)))
      else (s\<lparr>unread := [], position := position s + length (unread s)\<rparr>, Err (Io ''failed to fill whole buffer'')))"

definition read_byte :: "('e rdb_reader, char) step" where
  "read_byte s = and_then (read_exact 1 s) (\<lambda>s buf. (s, Ok (hd buf)))"

definition read_u32_be :: "('e rdb_reader, nat) step" where
  "read_u32_be s = and_then (read_exact 4 s) (\<lambda>s buf. (s, Ok (of_le_bytes (rev buf))))"

definition read_u32_le :: "('e rdb_reader, nat) step" where
  "read_u32_le s = and_then (read_exact 4 s) (\<lambda>s buf. (s, Ok (of_le_bytes buf)))"

definition read_u64_le :: "('e rdb_reader, u64) step" where
  "read_u64_le s = and_then (read_exact 8 s) (\<lambda>s buf. (s, Ok (word_of_nat (of_le_bytes buf))))"

definition read_f64 :: "('e rdb_reader, f64) step" where
  "read_f64 s = and_then (read_exact 8 s) (\<lambda>s buf. (s, Ok (word_of_nat (of_le_bytes buf))))"

definition read_length :: "('e rdb_reader, nat) step" where
  "read_length s = and_then (read_byte s) (\<lambda>s first.
     let b = (of_char first :: nat)
     in if drop_bit 6 b = 0 then (s, Ok b)
        else if drop_bit 6 b = 1 then
          and_then (read_byte s) (\<lambda>s second. (s, Ok (push_bit 8 (b AND 0x3F) OR of_char second)))
        else if drop_bit 6 b = 2 then read_u32_be s
        else (s, Err (Io ''Invalid length encoding'')))"

definition read_string :: "('e rdb_reader, bytes) step" where
  "read_string s = and_then (read_length s) (\<lambda>s len. read_exact len s)"

section \<open>What a writing call adds to the file\<close>

definition appends :: "(rdb_writer, unit) step \<Rightarrow> bytes \<Rightarrow> bool" where
  "appends f bs \<longleftrightarrow> (\<forall>w. capacity w = None \<longrightarrow> f w = (emit bs w, Ok ()))"

lemma emit_simps [simp]:
  "written (emit bs w) = written w @ bs" "capacity (emit bs w) = capacity w" "sink_error (emit bs w) = sink_error w"
  "emit cs (emit bs w) = emit (bs @ cs) w" "emit [] w = w"
  by (simp_all add: emit_def)

lemma appends_raw [intro]: "appends (write_raw bs) bs"
  by (simp add: appends_def write_raw_def)

lemma appends_nothing [intro]: "appends (steps []) []"
  by (simp add: appends_def)

lemma appends_Cons [intro]: "appends f bs \<Longrightarrow> appends (steps fs) cs \<Longrightarrow> appends (steps (f # fs)) (bs @ cs)"
  by (simp add: appends_def)

lemma appends_append: "appends (steps fs) bs \<Longrightarrow> appends (steps gs) cs \<Longrightarrow> appends (steps (fs @ gs)) (bs @ cs)"
  by (simp add: appends_def steps_append)

lemma appends_map: "(\<And>x. x \<in> set xs \<Longrightarrow> appends (f x) (g x)) \<Longrightarrow> appends (steps (map f xs)) (concat (map g xs))"
  by (induction xs) auto

definition length_bytes :: "nat \<Rightarrow> bytes" where
  "length_bytes len =
     (if len \<le> 63 then [char_of len]
      else if len \<le> 16383 then [char_of (64 + len div 256), char_of (len mod 256)]
      else CHR 0x80 # u32_to_be_bytes (word_of_nat len))"

definition string_bytes :: "bytes \<Rightarrow> bytes" where
  "string_bytes s = length_bytes (length s) @ s"

lemma and_255: "(n :: nat) AND 0xFF = n mod 256"
proof -
  have "n AND mask 8 = n mod 2 ^ 8" by (simp add: take_bit_eq_mask [symmetric] take_bit_eq_mod)
  then show ?thesis by (simp add: mask_eq_exp_minus_1)
qed

lemma and_63: "(n :: nat) AND 0x3F = n mod 64"
proof -
  have "n AND mask 6 = n mod 2 ^ 6" by (simp add: take_bit_eq_mask [symmetric] take_bit_eq_mod)
  then show ?thesis by (simp add: mask_eq_exp_minus_1)
qed

text \<open>Bits above and below a position do not interfere, so \<^verbatim>\<open>|\<close> is addition.\<close>

lemma or_low_bits: "(b :: nat) < 2 ^ k \<Longrightarrow> push_bit k a OR b = 2 ^ k * a + b"
proof -
  assume "b < 2 ^ k"
  then have "push_bit k a AND b = 0"
    by (auto simp: bit_eq_iff bit_and_iff bit_push_bit_iff) (metis bit_take_bit_iff leD take_bit_nat_eq_self_iff)
  then have "push_bit k a OR b = push_bit k a + b" by (simp add: disjunctive_add_eq_or)
  then show ?thesis by (simp add: push_bit_eq_mult mult.commute)
qed

lemma appends_length [intro]: "appends (write_length len) (length_bytes len)"
proof -
  have "((drop_bit 8 len AND 63) OR 64) = 64 + len div 256" if "len \<le> 16383"
    using or_low_bits [of "drop_bit 8 len AND 63" 6 1] that
    by (simp add: and_63 drop_bit_eq_div or.commute push_bit_eq_mult)
  then show ?thesis
    by (auto simp: write_length_def length_bytes_def write_byte_def write_u32_be_def appends_def write_raw_def and_255)
qed

lemma appends_string [intro]: "appends (write_string s) (string_bytes s)"
  unfolding write_string_def string_bytes_def
  using appends_Cons [OF appends_length appends_Cons [OF appends_raw appends_nothing]] by simp

lemma appends_primitive [intro]:
  "appends (write_byte b) [b]" "appends (write_u64_le n) (u64_to_le_bytes n)" "appends (write_f64 x) (u64_to_le_bytes x)"
  by (auto simp: write_byte_def write_u64_le_def write_f64_def)

section \<open>What a reading call takes from the file\<close>

definition take_input :: "bytes \<Rightarrow> bytes \<Rightarrow> 'e rdb_reader \<Rightarrow> 'e rdb_reader" where
  "take_input bs rest s = s\<lparr>unread := rest, position := position s + length bs\<rparr>"

definition decodes :: "('e rdb_reader, 'a) step \<Rightarrow> bytes \<Rightarrow> 'a \<Rightarrow> bool" where
  "decodes f bs x \<longleftrightarrow> (\<forall>s rest. unread s = bs @ rest \<longrightarrow> f s = (take_input bs rest s, Ok x))"

lemma take_input_simps [simp]:
  "unread (take_input bs rest s) = rest" "target (take_input bs rest s) = target s"
  "position (take_input bs rest s) = position s + length bs"
  "take_input cs rest' (take_input bs rest s) = take_input (bs @ cs) rest' s"
  by (simp_all add: take_input_def)

lemma decodesD: "decodes f bs x \<Longrightarrow> unread s = bs @ rest \<Longrightarrow> f s = (take_input bs rest s, Ok x)"
  by (simp add: decodes_def)

lemma decodes_exact: "length bs = n \<Longrightarrow> decodes (read_exact n) bs bs"
  by (auto simp: decodes_def read_exact_def take_input_def)

lemma decodes_then:
  assumes "decodes f bs x" "decodes (\<lambda>s. g s x) cs y"
  shows "decodes (\<lambda>s. and_then (f s) g) (bs @ cs) y"
  using assms by (simp add: decodes_def)

lemma decodes_return: "decodes f bs x \<Longrightarrow> decodes (\<lambda>s. and_then (f s) (\<lambda>s x. (s, Ok (g x)))) bs (g x)"
  by (simp add: decodes_def)

lemma decodes_byte [intro]: "decodes read_byte [b] b"
  using decodes_return [OF decodes_exact [of "[b]" 1], of hd] by (simp add: read_byte_def [abs_def])

lemma decodes_fixed [intro]:
  "decodes read_u32_be (u32_to_be_bytes n) (unat n)" "decodes read_u64_le (u64_to_le_bytes m) m"
  "decodes read_f64 (u64_to_le_bytes m) m"
  using decodes_return [OF decodes_exact [of "u32_to_be_bytes n" 4], of "\<lambda>b. of_le_bytes (rev b)"]
    decodes_return [OF decodes_exact [of "u64_to_le_bytes m" 8], of "\<lambda>b. word_of_nat (of_le_bytes b) :: u64"]
  by (simp_all add: read_u32_be_def [abs_def] read_u64_le_def [abs_def] read_f64_def [abs_def])

lemma decodes_length [intro]:
  assumes "len < 4294967296"
  shows "decodes read_length (length_bytes len) len"
proof -
  consider "len \<le> 63" | "63 < len" "len \<le> 16383" | "16383 < len" by linarith
  then show ?thesis
  proof cases
    case 1
    then show ?thesis
      by (auto simp: decodes_def read_length_def length_bytes_def decodesD [OF decodes_byte] drop_bit_eq_div)
  next
    case 2
    then have b: "len div 256 < 64" by simp
    then have "push_bit 8 ((64 + len div 256) AND 63) OR len mod 256 = len"
      using or_low_bits [of "len mod 256" 8 "len div 256"] by (simp add: and_63)
    then show ?thesis using 2 b
      by (auto simp: decodes_def read_length_def length_bytes_def decodesD [OF decodes_byte] drop_bit_eq_div Let_def)
  next
    case 3
    have "unat (word_of_nat len :: 32 word) = len" using assms by (simp add: unat_of_nat)
    then show ?thesis using 3
      by (auto simp: decodes_def read_length_def length_bytes_def decodesD [OF decodes_byte]
          decodesD [OF decodes_fixed(1) [of "word_of_nat len"]] drop_bit_eq_div Let_def)
  qed
qed

lemma decodes_string [intro]:
  assumes "length s < 4294967296"
  shows "decodes read_string (string_bytes s) s"
  unfolding read_string_def string_bytes_def
  by (rule decodes_then [OF decodes_length [OF assms]]) (rule decodes_exact, rule refl)

section \<open>Reading a longer file\<close>

text \<open>
  Bytes after those a successful call takes do not matter to it, and it never puts bytes back.
\<close>

definition longer :: "bytes \<Rightarrow> 'e rdb_reader \<Rightarrow> 'e rdb_reader" where
  "longer bs s = s\<lparr>unread := unread s @ bs\<rparr>"

definition incremental :: "('e rdb_reader, 'a) step \<Rightarrow> bool" where
  "incremental f \<longleftrightarrow> (\<forall>s s' x. f s = (s', Ok x) \<longrightarrow>
     length (unread s') \<le> length (unread s) \<and> (\<forall>bs. f (longer bs s) = (longer bs s', Ok x)))"

lemma incrementalD:
  "incremental f \<Longrightarrow> f s = (s', Ok x) \<Longrightarrow> length (unread s') \<le> length (unread s)"
  "incremental f \<Longrightarrow> f s = (s', Ok x) \<Longrightarrow> f (longer bs s) = (longer bs s', Ok x)"
  by (auto simp: incremental_def)

lemma longer_simps [simp]:
  "unread (longer bs s) = unread s @ bs" "position (longer bs s) = position s" "target (longer bs s) = target s"
  by (simp_all add: longer_def)

lemma incremental_return: "incremental (\<lambda>s. (s, Ok x))" "incremental (\<lambda>s. (s, Err e))" "incremental (\<lambda>s. (s, Panic))"
  by (simp_all add: incremental_def)

lemma incremental_then:
  assumes "incremental f" "\<And>x. incremental (\<lambda>s. g s x)"
  shows "incremental (\<lambda>s. and_then (f s) g)"
  using assms unfolding incremental_def by (fastforce simp: and_then_Ok intro: order_trans)

lemma incremental_if: "incremental f \<Longrightarrow> incremental g \<Longrightarrow> incremental (\<lambda>s. if b then f s else g s)"
  by (cases b) simp_all

lemma incremental_exact: "incremental (read_exact n)"
  by (auto simp: incremental_def read_exact_def longer_def)

lemma incremental_byte: "incremental read_byte"
  unfolding read_byte_def by (intro incremental_then incremental_exact incremental_return)

lemma incremental_fixed: "incremental read_u32_be" "incremental read_u32_le" "incremental read_u64_le" "incremental read_f64"
  unfolding read_u32_be_def read_u32_le_def read_u64_le_def read_f64_def
  by (intro incremental_then incremental_exact incremental_return)+

lemma incremental_length: "incremental read_length"
  unfolding read_length_def Let_def
  by (intro incremental_then incremental_byte incremental_if incremental_return incremental_fixed)

lemma incremental_string: "incremental read_string"
  unfolding read_string_def by (intro incremental_then incremental_length incremental_exact)

lemmas incremental_reads = incremental_return incremental_if incremental_exact incremental_byte incremental_fixed
  incremental_length incremental_string

lemma read_byte_shorter: "read_byte s = (s', Ok b) \<Longrightarrow> length (unread s') < length (unread s)"
  by (auto simp: read_byte_def and_then_Ok read_exact_def split: if_splits)

end
