(* ===== verification/Binary_Search.thy ===== *)
theory Binary_Search
  imports Prelude
begin

text \<open>
  \<^verbatim>\<open>slice::binary_search_by\<close>, as streams use it on their sorted entry vectors: the contract that the
  standard library documents as a locale, what it gives on strictly sorted vectors, and an
  executable search that satisfies it.
\<close>

datatype search_result = Found nat | NotFound nat

text \<open>\<^verbatim>\<open>.unwrap_or_else(|idx| idx)\<close>: the position found or the insertion point.\<close>

fun search_index :: "search_result \<Rightarrow> nat" where
  "search_index (Found i) = i"
| "search_index (NotFound i) = i"

abbreviation sorted_by :: "('a \<Rightarrow> 'k::linorder) \<Rightarrow> 'a list \<Rightarrow> bool" where
  "sorted_by key xs \<equiv> sorted_wrt (<) (map key xs)"

section \<open>Contract\<close>

locale slice_search =
  fixes search :: "('a \<Rightarrow> 'k::linorder) \<Rightarrow> 'a list \<Rightarrow> 'k \<Rightarrow> search_result"
  assumes found: "sorted_by key xs \<Longrightarrow> search key xs k = Found i \<Longrightarrow> i < length xs \<and> key (xs ! i) = k"
    and not_found: "sorted_by key xs \<Longrightarrow> search key xs k = NotFound i \<Longrightarrow>
      i \<le> length xs \<and> (\<forall>j < i. key (xs ! j) < k) \<and> (\<forall>j < length xs. i \<le> j \<longrightarrow> k < key (xs ! j))"
begin

lemma index_split:
  fixes k
  assumes s: "sorted_by key xs"
  defines "i \<equiv> search_index (search key xs k)"
  shows "i \<le> length xs \<and> (\<forall>j < i. key (xs ! j) < k) \<and> (\<forall>j < length xs. i \<le> j \<longrightarrow> k \<le> key (xs ! j))"
proof (cases "search key xs k")
  case (Found n)
  from found [OF s this] have n: "n < length xs" "key (xs ! n) = k" by auto
  have "key (xs ! j) < key (xs ! n)" if "j < n" for j
    using sorted_wrt_nth_less [OF s, of j n] that n by simp
  moreover have "key (xs ! n) \<le> key (xs ! j)" if "n \<le> j" "j < length xs" for j
    using sorted_wrt_nth_less [OF s, of n j] that by (cases "n = j") auto
  ultimately show ?thesis using n Found by (auto simp: i_def)
next
  case (NotFound n)
  then show ?thesis using not_found [OF s NotFound] by (auto simp: i_def less_imp_le)
qed

lemma take_index:
  assumes s: "sorted_by key xs"
  shows "take (search_index (search key xs k)) xs = filter (\<lambda>x. key x < k) xs"
    and "drop (search_index (search key xs k)) xs = filter (\<lambda>x. k \<le> key x) xs"
proof -
  define i where "i = search_index (search key xs k)"
  have i: "i \<le> length xs" "\<forall>x \<in> set (take i xs). key x < k" "\<forall>x \<in> set (drop i xs). k \<le> key x"
    using index_split [OF s, of k] unfolding i_def [symmetric]
    by (auto simp: in_set_conv_nth)
  have "filter (\<lambda>x. key x < k) (take i xs @ drop i xs) = take i xs"
    "filter (\<lambda>x. k \<le> key x) (take i xs @ drop i xs) = drop i xs"
    using i(2,3) by (auto simp: filter_id_conv filter_empty_conv simp del: append_take_drop_id)
  then show "take i xs = filter (\<lambda>x. key x < k) xs" "drop i xs = filter (\<lambda>x. k \<le> key x) xs" by simp_all
qed

lemma search_Found_iff:
  assumes s: "sorted_by key xs"
  shows "(\<exists>i. search key xs k = Found i) \<longleftrightarrow> k \<in> key ` set xs"
proof
  show "\<exists>i. search key xs k = Found i \<Longrightarrow> k \<in> key ` set xs" using found [OF s] by fastforce
  assume "k \<in> key ` set xs"
  then obtain j where j: "j < length xs" "key (xs ! j) = k" by (auto simp: in_set_conv_nth)
  show "\<exists>i. search key xs k = Found i"
  proof (cases "search key xs k")
    case (NotFound i)
    from not_found [OF s this] j show ?thesis by (metis less_irrefl not_le_imp_less)
  qed simp
qed

end

section \<open>Implementation\<close>

function bsearch :: "('a \<Rightarrow> 'k::linorder) \<Rightarrow> 'a list \<Rightarrow> 'k \<Rightarrow> nat \<Rightarrow> nat \<Rightarrow> search_result" where
  "bsearch key xs k lo hi =
     (if lo < hi then
        let mid = (lo + hi) div 2 in
        if key (xs ! mid) = k then Found mid
        else if key (xs ! mid) < k then bsearch key xs k (mid + 1) hi
        else bsearch key xs k lo mid
      else NotFound lo)"
  by pat_completeness auto
termination
  by (relation "measure (\<lambda>(key, xs, k, lo, hi). hi - lo)") auto

declare bsearch.simps [simp del]

definition binary_search :: "('a \<Rightarrow> 'k::linorder) \<Rightarrow> 'a list \<Rightarrow> 'k \<Rightarrow> search_result" where
  "binary_search key xs k = bsearch key xs k 0 (length xs)"

lemma bsearch_contract:
  assumes "sorted_by key xs" "lo \<le> hi" "hi \<le> length xs"
    and "\<forall>j < lo. key (xs ! j) < k" "\<forall>j < length xs. hi \<le> j \<longrightarrow> k < key (xs ! j)"
  shows "case bsearch key xs k lo hi of
      Found i \<Rightarrow> i < length xs \<and> key (xs ! i) = k
    | NotFound i \<Rightarrow> i \<le> length xs \<and> (\<forall>j < i. key (xs ! j) < k) \<and>
        (\<forall>j < length xs. i \<le> j \<longrightarrow> k < key (xs ! j))"
  using assms
proof (induction key xs k lo hi rule: bsearch.induct)
  case (1 key xs k lo hi)
  define mid where "mid = (lo + hi) div 2"
  show ?case
  proof (cases "lo < hi")
    case lt: True
    then have mid: "lo \<le> mid" "mid < hi" by (auto simp: mid_def)
    have sorted: "key (xs ! i) < key (xs ! j)" if "i < j" "j < length xs" for i j
      using sorted_wrt_nth_less [OF "1.prems"(1), of i j] that by simp
    consider "key (xs ! mid) = k" | "key (xs ! mid) < k" | "k < key (xs ! mid)" by fastforce
    then show ?thesis
    proof cases
      case 1
      then show ?thesis using lt mid "1.prems" by (simp add: bsearch.simps [of key xs k lo hi] flip: mid_def)
    next
      case 2
      have "key (xs ! j) < k" if "j < mid + 1" for j
        using sorted [of j mid] that mid "1.prems" 2 by (cases "j = mid") (auto intro: less_trans)
      with 2 lt mid "1.prems" "1.IH"(1) [OF lt mid_def] show ?thesis
        by (auto simp: bsearch.simps [of key xs k lo hi] simp flip: mid_def)
    next
      case 3
      have "k < key (xs ! j)" if "mid \<le> j" "j < length xs" for j
        using sorted [of mid j] that 3 by (cases "j = mid") (auto intro: less_trans)
      moreover have "\<not> key (xs ! mid) < k" "key (xs ! mid) \<noteq> k" using 3 by auto
      ultimately show ?thesis using lt mid "1.prems" "1.IH"(2) [OF lt mid_def]
        by (auto simp: bsearch.simps [of key xs k lo hi] simp flip: mid_def)
    qed
  next
    case False
    then show ?thesis using "1.prems" by (subst bsearch.simps) simp
  qed
qed

interpretation bs: slice_search binary_search
proof
  fix key :: "'a \<Rightarrow> 'b::linorder" and xs k i
  assume s: "sorted_by key xs"
  note c = bsearch_contract [OF s, of 0 "length xs" k]
  show "binary_search key xs k = Found i \<Longrightarrow> i < length xs \<and> key (xs ! i) = k"
    using c by (simp add: binary_search_def)
  show "binary_search key xs k = NotFound i \<Longrightarrow>
      i \<le> length xs \<and> (\<forall>j < i. key (xs ! j) < k) \<and> (\<forall>j < length xs. i \<le> j \<longrightarrow> k < key (xs ! j))"
    using c by (simp add: binary_search_def)
qed

end
