(* ===== verification/Stream_Id.thy ===== *)
theory Stream_Id
  imports Text
begin

text \<open>
  Stream identifiers (\<^verbatim>\<open>StreamId\<close> in \<^verbatim>\<open>src/storage/stream.rs\<close>): a millisecond time and a sequence
  number packed into 128 bits, their order, text form and the generator of new identifiers.
\<close>

unbundle bit_operations_syntax

datatype stream_id = StreamId (packed: "128 word")

definition new_id :: "u64 \<Rightarrow> u64 \<Rightarrow> stream_id" where
  "new_id millis seq = StreamId (push_bit 64 (ucast millis) OR ucast seq)"

definition millis :: "stream_id \<Rightarrow> u64" where
  "millis i = ucast (drop_bit 64 (packed i))"

definition seq :: "stream_id \<Rightarrow> u64" where
  "seq i = ucast (packed i)"

definition min_id :: stream_id where
  "min_id = StreamId 0"

definition max_id :: stream_id where
  "max_id = StreamId (- 1)"

text \<open>The order is the order of the packed words.\<close>

instantiation stream_id :: linorder
begin

definition less_eq_stream_id :: "stream_id \<Rightarrow> stream_id \<Rightarrow> bool" where
  "less_eq_stream_id a b \<longleftrightarrow> packed a \<le> packed b"

definition less_stream_id :: "stream_id \<Rightarrow> stream_id \<Rightarrow> bool" where
  "less_stream_id a b \<longleftrightarrow> packed a < packed b"

instance
  by standard (auto simp: less_eq_stream_id_def less_stream_id_def stream_id.expand)

end

fun parse_u64_loop :: "u64 \<Rightarrow> bytes \<Rightarrow> u64 option" where
  "parse_u64_loop result [] = Some result"
| "parse_u64_loop result (b # bs) =
     (if is_digit b then parse_u64_loop (result * 10 + word_of_nat (digit_val b)) bs else None)"

definition parse_u64_fast :: "bytes \<Rightarrow> u64 option" where
  "parse_u64_fast bs = parse_u64_loop 0 bs"

definition from_string :: "string \<Rightarrow> stream_id option" where
  "from_string s =
     (if CHR ''-'' \<in> set s then
        (let millis_str = takeWhile (\<lambda>c. c \<noteq> CHR ''-'') s;
             seq_str = drop (length millis_str + 1) s
         in case parse_u64_fast millis_str of
              None \<Rightarrow> None
            | Some m \<Rightarrow> (case parse_u64_fast seq_str of None \<Rightarrow> None | Some q \<Rightarrow> Some (new_id m q)))
      else None)"

definition id_to_string :: "stream_id \<Rightarrow> string" where
  "id_to_string i = u64_to_string (millis i) @ ''-'' @ u64_to_string (seq i)"

text \<open>
  The cached clock: a millisecond value and the instant (in nanoseconds since the epoch) it was
  taken at; it is renewed when a whole millisecond has passed.
\<close>

definition get_cached_millis :: "u64 \<times> nat \<Rightarrow> nat \<Rightarrow> u64 \<times> (u64 \<times> nat)" where
  "get_cached_millis cached now =
     (if (now - snd cached) div 1000000 > 0
      then let m = word_of_nat (now div 1000000) in (m, (m, now))
      else (fst cached, cached))"

text \<open>
  The generator runs under the stream's lock, so no other thread changes the two counters between
  its steps; \<^verbatim>\<open>compare_exchange_weak\<close> may still fail spuriously, which the flags \<open>ok1\<close> and \<open>ok2\<close> say.
\<close>

definition generate_next_atomic ::
  "u64 \<Rightarrow> bool \<Rightarrow> bool \<Rightarrow> u64 \<times> u64 \<Rightarrow> stream_id \<times> (u64 \<times> u64)" where
  "generate_next_atomic now_millis ok1 ok2 counters =
     (let (prev_millis, last_seq) = counters in
      if now_millis > prev_millis \<and> (ok1 \<or> ok2) then (new_id now_millis 0, (now_millis, 0))
      else (new_id prev_millis (last_seq + 1), (prev_millis, last_seq + 1)))"

section \<open>Packing and order\<close>

lemma uint_new_id: "uint (packed (new_id m s)) = uint m * 2 ^ 64 + uint s"
proof -
  have "push_bit 64 (ucast m :: 128 word) AND ucast s = 0"
    by (rule bit_word_eqI) (auto simp: bit_simps dest: bit_imp_le_length)
  then have p: "packed (new_id m s) = push_bit 64 (ucast m) + ucast s"
    by (simp add: new_id_def disjunctive_add_eq_or)
  have m: "uint m < 2 ^ 64" and s: "uint s < 2 ^ 64"
    using uint_bounded [of m] uint_bounded [of s] by simp_all
  then have "uint m * 2 ^ 64 + uint s < 2 ^ 128" by simp
  moreover have "uint (push_bit 64 (ucast m :: 128 word)) = uint m * 2 ^ 64"
    using m by (simp add: push_bit_eq_mult uint_word_ariths unsigned_ucast_eq take_bit_int_eq_self)
  ultimately show ?thesis unfolding p using s
    by (simp add: uint_word_ariths unsigned_ucast_eq take_bit_int_eq_self)
qed

lemma millis_new_id [simp]: "millis (new_id m s) = m"
  by (rule bit_word_eqI) (auto simp: millis_def new_id_def bit_simps dest: bit_imp_le_length)

lemma seq_new_id [simp]: "seq (new_id m s) = s"
  by (rule bit_word_eqI) (simp add: seq_def new_id_def bit_simps)

lemma new_id_millis_seq [simp]: "new_id (millis i) (seq i) = i"
proof -
  have "push_bit 64 (ucast (millis i)) OR ucast (seq i) = packed i"
    by (rule bit_word_eqI) (auto simp: millis_def seq_def bit_simps)
  then show ?thesis by (simp add: new_id_def)
qed

lemma lexicographic_pack:
  fixes a b c d :: int
  assumes "0 \<le> b" "b < 18446744073709551616" "0 \<le> d" "d < 18446744073709551616"
  shows "a * 18446744073709551616 + b < c * 18446744073709551616 + d \<longleftrightarrow> a < c \<or> (a = c \<and> b < d)"
proof (cases a c rule: linorder_cases)
  case less
  then have "(a + 1) * 18446744073709551616 \<le> c * 18446744073709551616" by simp
  then show ?thesis using less assms by (simp add: algebra_simps)
next
  case greater
  then have "(c + 1) * 18446744073709551616 \<le> a * 18446744073709551616" by simp
  then show ?thesis using greater assms by (simp add: algebra_simps)
qed simp

lemma new_id_less: "new_id m s < new_id m' s' \<longleftrightarrow> m < m' \<or> (m = m' \<and> s < s')"
proof -
  have b: "0 \<le> uint s" "uint s < 2 ^ 64" "0 \<le> uint s'" "uint s' < 2 ^ 64"
    using uint_bounded [of s] uint_bounded [of s'] by simp_all
  have "new_id m s < new_id m' s' \<longleftrightarrow> uint m * 2 ^ 64 + uint s < uint m' * 2 ^ 64 + uint s'"
    by (simp only: less_stream_id_def word_less_def uint_new_id)
  also have "\<dots> \<longleftrightarrow> uint m < uint m' \<or> (uint m = uint m' \<and> uint s < uint s')"
    using b by (simp add: lexicographic_pack)
  finally show ?thesis by (simp add: word_less_def word_uint_eq_iff)
qed

lemma less_id_iff: "i < j \<longleftrightarrow> millis i < millis j \<or> (millis i = millis j \<and> seq i < seq j)"
  using new_id_less [of "millis i" "seq i" "millis j" "seq j"] by simp

lemma min_max_id [simp]: "min_id \<le> i" "i \<le> max_id"
  by (simp_all add: min_id_def max_id_def less_eq_stream_id_def)

section \<open>Text form\<close>

lemma parse_u64_loop_digits:
  "parse_digits n s = Some k \<Longrightarrow> parse_u64_loop (word_of_nat n) s = Some (word_of_nat k)"
proof (induction s arbitrary: n)
  case (Cons c s)
  then have p: "parse_digits (10 * n + digit_val c) s = Some k" and d: "is_digit c"
    by (auto split: if_splits)
  show ?case using Cons.IH [OF p] d by (simp add: mult.commute)
qed simp

lemma parse_u64_fast_to_string [simp]: "parse_u64_fast (u64_to_string x) = Some x"
  using parse_u64_loop_digits [OF parse_digits_nat_to_string [of "unat x"]]
  by (simp add: parse_u64_fast_def u64_to_string_def)

lemma takeWhile_dash:
  "takeWhile (\<lambda>c. c \<noteq> CHR ''-'') (nat_to_string n @ CHR ''-'' # r) = nat_to_string n"
proof -
  have "\<forall>c \<in> set (nat_to_string n). c \<noteq> CHR ''-''" using nat_to_string_digits [of n] not_digit(2) by blast
  then show ?thesis by (simp add: takeWhile_append2)
qed

lemma from_string_to_string: "from_string (id_to_string i) = Some i"
proof -
  let ?m = "nat_to_string (unat (millis i))" and ?q = "nat_to_string (unat (seq i))"
  have "drop (length ?m + 1) (?m @ CHR ''-'' # ?q) = ?q" by simp
  then show ?thesis using parse_u64_fast_to_string [of "millis i"] parse_u64_fast_to_string [of "seq i"]
    by (simp add: from_string_def id_to_string_def u64_to_string_def takeWhile_dash Let_def)
qed

section \<open>Generated identifiers grow\<close>

lemma generate_next_greater:
  assumes "generate_next_atomic now ok1 ok2 (m, s) = (i, (m', s'))" and "s \<noteq> - 1"
  shows "new_id m s < i" and "i = new_id m' s'"
proof -
  have "s < s + 1" using assms(2) by (metis inc_less_eq_triv_imp not_le)
  then show "new_id m s < i" "i = new_id m' s'" using assms
    by (auto simp: generate_next_atomic_def new_id_less split: if_splits)
qed

end
