(* ===== verification/Consumer_Groups.thy ===== *)
theory Consumer_Groups
  imports Stream_Id
begin

text \<open>
  Consumer groups of a stream (\<^verbatim>\<open>src/storage/consumer_groups.rs\<close>): the pending entries list with its
  two indexes and its bounds, the group with its counters, and the manager of a stream's groups.
  Instants are nanoseconds since the epoch; an operation that reads the clock several times takes
  the readings as a function \<open>clock\<close>, in the order the code makes them.
\<close>

section \<open>Data\<close>

record stream_entry =
  entry_id :: stream_id
  entry_fields :: "(bytes \<times> bytes) list"

record consumer =
  consumer_name :: string
  pending_count :: nat
  last_seen :: nat
  idle_time :: nat

record pending_entry =
  pe_id :: stream_id
  pe_consumer :: string
  delivered_at :: nat
  delivery_count :: "32 word"
  last_delivery :: nat

record pending_entry_list =
  entries_by_id :: "(stream_id \<times> pending_entry) list"
  entries_by_consumer :: "(string \<times> stream_id list) list"
  min_pending_id :: "stream_id option"
  max_pending_id :: "stream_id option"

record consumer_group =
  group_name :: string
  last_delivered_id :: stream_id
  group_stream_id :: stream_id
  pending :: pending_entry_list
  consumers :: "(string \<times> consumer) list"
  created_at :: nat
  consumer_count :: nat
  total_pending :: nat

record pending_info =
  info_count :: nat
  info_min_id :: "stream_id option"
  info_max_id :: "stream_id option"
  info_consumers :: "(string \<times> nat) list"

record pending_entry_info =
  pei_id :: stream_id
  pei_consumer :: string
  pei_idle_time :: nat
  pei_delivery_count :: "32 word"

section \<open>The pending entries list\<close>

definition opt_min :: "'a::linorder list \<Rightarrow> 'a option" where
  "opt_min xs = (case xs of [] \<Rightarrow> None | x # r \<Rightarrow> Some (fold min r x))"

definition opt_max :: "'a::linorder list \<Rightarrow> 'a option" where
  "opt_max xs = (case xs of [] \<Rightarrow> None | x # r \<Rightarrow> Some (fold max r x))"

definition new_pel :: pending_entry_list where
  "new_pel = \<lparr>entries_by_id = [], entries_by_consumer = [], min_pending_id = None, max_pending_id = None\<rparr>"

definition update_bounds :: "pending_entry_list \<Rightarrow> pending_entry_list" where
  "update_bounds p =
     p\<lparr>min_pending_id := opt_min (map fst (entries_by_id p)),
       max_pending_id := opt_max (map fst (entries_by_id p))\<rparr>"

text \<open>\<^verbatim>\<open>entry(c).or_insert_with(Vec::new).push(id)\<close> and the retain-or-remove of the other direction.\<close>

definition index_push :: "string \<Rightarrow> stream_id \<Rightarrow> (string \<times> stream_id list) list \<Rightarrow> (string \<times> stream_id list) list" where
  "index_push c i idx =
     (case map_of idx c of None \<Rightarrow> AList.update c [i] idx | Some ids \<Rightarrow> AList.update c (ids @ [i]) idx)"

definition index_retain :: "string \<Rightarrow> stream_id \<Rightarrow> (string \<times> stream_id list) list \<Rightarrow> (string \<times> stream_id list) list" where
  "index_retain c i idx =
     (case map_of idx c of
        None \<Rightarrow> idx
      | Some ids \<Rightarrow> (let ids' = filter (\<lambda>x. x \<noteq> i) ids in
          if ids' = [] then AList.delete c idx else AList.update c ids' idx))"

definition add_entry :: "pending_entry \<Rightarrow> pending_entry_list \<Rightarrow> pending_entry_list" where
  "add_entry entry p =
     update_bounds (p\<lparr>entries_by_id := btree_insert (pe_id entry) entry (entries_by_id p),
       entries_by_consumer := index_push (pe_consumer entry) (pe_id entry) (entries_by_consumer p)\<rparr>)"

definition remove_entry :: "stream_id \<Rightarrow> pending_entry_list \<Rightarrow> pending_entry_list \<times> pending_entry option" where
  "remove_entry i p =
     (case map_of (entries_by_id p) i of
        Some entry \<Rightarrow>
          (update_bounds (p\<lparr>entries_by_id := AList.delete i (entries_by_id p),
             entries_by_consumer := index_retain (pe_consumer entry) i (entries_by_consumer p)\<rparr>),
           Some entry)
      | None \<Rightarrow> (p, None))"

definition transfer_ownership :: "nat \<Rightarrow> stream_id \<Rightarrow> string \<Rightarrow> pending_entry_list \<Rightarrow> pending_entry_list" where
  "transfer_ownership now i new_consumer p =
     (case map_of (entries_by_id p) i of
        Some entry \<Rightarrow>
          p\<lparr>entries_by_id := AList.map_entry i (\<lambda>e. e\<lparr>pe_consumer := new_consumer,
               delivery_count := delivery_count e + 1, last_delivery := now\<rparr>) (entries_by_id p),
            entries_by_consumer := index_push new_consumer i
              (index_retain (pe_consumer entry) i (entries_by_consumer p))\<rparr>
      | None \<Rightarrow> p)"

definition remove_consumer_entries :: "string \<Rightarrow> pending_entry_list \<Rightarrow> pending_entry_list \<times> nat" where
  "remove_consumer_entries c p =
     (case map_of (entries_by_consumer p) c of
        Some ids \<Rightarrow>
          (update_bounds (p\<lparr>entries_by_id := fold AList.delete ids (entries_by_id p),
             entries_by_consumer := AList.delete c (entries_by_consumer p)\<rparr>), length ids)
      | None \<Rightarrow> (p, 0))"

definition get_range :: "stream_id option \<Rightarrow> stream_id option \<Rightarrow> nat \<Rightarrow> string option \<Rightarrow> pending_entry_list
    \<Rightarrow> pending_entry list" where
  "get_range start stop count consumer p =
     take count
       (case consumer of
          Some c \<Rightarrow>
            (case map_of (entries_by_consumer p) c of
               Some ids \<Rightarrow> List.map_filter (\<lambda>i. map_of (entries_by_id p) i) ids
             | None \<Rightarrow> [])
        | None \<Rightarrow>
            (let s = (case start of None \<Rightarrow> min_id | Some x \<Rightarrow> x);
                 e = (case stop of None \<Rightarrow> max_id | Some x \<Rightarrow> x)
             in map snd (filter (\<lambda>(i, _). s \<le> i \<and> i \<le> e) (entries_by_id p))))"

definition get_entries_after :: "stream_id \<Rightarrow> pending_entry_list \<Rightarrow> pending_entry list" where
  "get_entries_after after p = map snd (filter (\<lambda>(i, _). after < i) (entries_by_id p))"

section \<open>Groups\<close>

definition new_group :: "nat \<Rightarrow> string \<Rightarrow> stream_id \<Rightarrow> consumer_group" where
  "new_group now name start =
     \<lparr>group_name = name, last_delivered_id = new_id 0 0, group_stream_id = start, pending = new_pel,
      consumers = [], created_at = now, consumer_count = 0, total_pending = 0\<rparr>"

definition create_consumer :: "nat \<Rightarrow> string \<Rightarrow> consumer_group \<Rightarrow> consumer_group \<times> bool" where
  "create_consumer now c g =
     (case map_of (consumers g) c of
        Some _ \<Rightarrow>
          (g\<lparr>consumers := AList.map_entry c (\<lambda>x. x\<lparr>last_seen := now, idle_time := 0\<rparr>) (consumers g)\<rparr>, False)
      | None \<Rightarrow>
          (g\<lparr>consumers := AList.update c
               \<lparr>consumer_name = c, pending_count = 0, last_seen = now, idle_time = 0\<rparr> (consumers g),
             consumer_count := consumer_count g + 1\<rparr>, True))"

definition delete_consumer :: "string \<Rightarrow> consumer_group \<Rightarrow> consumer_group \<times> nat" where
  "delete_consumer c g =
     (case map_of (consumers g) c of
        Some _ \<Rightarrow>
          (let (p, removed) = remove_consumer_entries c (pending g) in
           (g\<lparr>consumers := AList.delete c (consumers g), pending := p,
              consumer_count := consumer_count g - 1, total_pending := total_pending g - removed\<rparr>, removed))
      | None \<Rightarrow> (g, 0))"

definition pending_of_entry :: "nat \<Rightarrow> string \<Rightarrow> stream_entry \<Rightarrow> pending_entry" where
  "pending_of_entry now c e =
     \<lparr>pe_id = entry_id e, pe_consumer = c, delivered_at = now, delivery_count = 1, last_delivery = now\<rparr>"

definition add_pending :: "(nat \<Rightarrow> nat) \<Rightarrow> string \<Rightarrow> stream_entry list \<Rightarrow> consumer_group
    \<Rightarrow> consumer_group \<times> stream_entry list" where
  "add_pending clock c entries g =
     (let now = clock 0;
          g1 = fst (create_consumer (clock 1) c g);
          p = fold (\<lambda>e. add_entry (pending_of_entry now c e)) entries (pending g1);
          cs = AList.map_entry c (\<lambda>x. x\<lparr>pending_count := pending_count x + length entries,
                 last_seen := now, idle_time := 0\<rparr>) (consumers g1);
          new_last = (if entries \<noteq> [] \<and> entry_id (last entries) > last_delivered_id g1
                  then entry_id (last entries) else last_delivered_id g1)
      in (g1\<lparr>pending := p, consumers := cs, total_pending := total_pending g1 + length entries,
             last_delivered_id := new_last\<rparr>, entries))"

fun ack_loop :: "stream_id list \<Rightarrow> consumer_group \<Rightarrow> nat \<Rightarrow> consumer_group \<times> nat" where
  "ack_loop [] g acked = (g, acked)"
| "ack_loop (i # ids) g acked =
     (case remove_entry i (pending g) of
        (p, Some entry) \<Rightarrow>
          ack_loop ids (g\<lparr>pending := p, consumers := AList.map_entry (pe_consumer entry)
             (\<lambda>x. x\<lparr>pending_count := pending_count x - 1\<rparr>) (consumers g)\<rparr>) (acked + 1)
      | (p, None) \<Rightarrow> ack_loop ids (g\<lparr>pending := p\<rparr>) acked)"

definition acknowledge :: "stream_id list \<Rightarrow> consumer_group \<Rightarrow> consumer_group \<times> nat" where
  "acknowledge ids g =
     (let (g', acked) = ack_loop ids g 0 in
      (if acked > 0 then g'\<lparr>total_pending := total_pending g' - acked\<rparr> else g', acked))"

text \<open>\<^verbatim>\<open>now.duration_since(t).unwrap_or_default().as_millis() as u64\<close>\<close>

definition idle_ms :: "nat \<Rightarrow> nat \<Rightarrow> nat" where
  "idle_ms now t = ((now - t) div 1000000) mod 2 ^ 64"

fun claim_loop :: "(nat \<Rightarrow> nat) \<Rightarrow> string \<Rightarrow> nat \<Rightarrow> bool \<Rightarrow> stream_id list \<Rightarrow> consumer_group \<Rightarrow> stream_id list
    \<Rightarrow> consumer_group \<times> stream_id list" where
  "claim_loop clock c min_idle force [] g claimed = (g, claimed)"
| "claim_loop clock c min_idle force (i # ids) g claimed =
     (case map_of (entries_by_id (pending g)) i of
        None \<Rightarrow> claim_loop clock c min_idle force ids g claimed
      | Some entry \<Rightarrow>
          if \<not> force \<and> idle_ms (clock 0) (last_delivery entry) < min_idle
          then claim_loop clock c min_idle force ids g claimed
          else
            (let cs1 = AList.map_entry (pe_consumer entry)
                   (\<lambda>x. x\<lparr>pending_count := pending_count x - 1\<rparr>) (consumers g);
                 cs2 = AList.map_entry c (\<lambda>x. x\<lparr>pending_count := pending_count x + 1\<rparr>) cs1;
                 p = transfer_ownership (clock (2 + length claimed)) i c (pending g)
             in claim_loop clock c min_idle force ids (g\<lparr>consumers := cs2, pending := p\<rparr>) (claimed @ [i])))"

definition claim_messages :: "(nat \<Rightarrow> nat) \<Rightarrow> string \<Rightarrow> nat \<Rightarrow> stream_id list \<Rightarrow> bool \<Rightarrow> consumer_group
    \<Rightarrow> consumer_group \<times> stream_id list" where
  "claim_messages clock c min_idle ids force g =
     claim_loop clock c min_idle force ids (fst (create_consumer (clock 1) c g)) []"

definition get_pending_info :: "consumer_group \<Rightarrow> pending_info" where
  "get_pending_info g =
     \<lparr>info_count = length (entries_by_id (pending g)),
      info_min_id = min_pending_id (pending g), info_max_id = max_pending_id (pending g),
      info_consumers = map (\<lambda>(n, c). (n, pending_count c))
        (filter (\<lambda>(n, c). pending_count c > 0) (consumers g))\<rparr>"

definition get_pending_range :: "nat \<Rightarrow> stream_id option \<Rightarrow> stream_id option \<Rightarrow> nat \<Rightarrow> string option
    \<Rightarrow> consumer_group \<Rightarrow> pending_entry_info list" where
  "get_pending_range now start stop count consumer g =
     map (\<lambda>e. \<lparr>pei_id = pe_id e, pei_consumer = pe_consumer e,
               pei_idle_time = idle_ms now (last_delivery e), pei_delivery_count = delivery_count e\<rparr>)
       (get_range start stop count consumer (pending g))"

definition auto_claim :: "nat \<Rightarrow> (nat \<Rightarrow> nat) \<Rightarrow> string \<Rightarrow> nat \<Rightarrow> stream_id \<Rightarrow> nat \<Rightarrow> consumer_group
    \<Rightarrow> consumer_group \<times> stream_id list \<times> stream_id" where
  "auto_claim now clock c min_idle start count g =
     (let idle_entries = map pe_id (take count (filter (\<lambda>e. idle_ms now (last_delivery e) \<ge> min_idle)
            (get_entries_after start (pending g))));
          (g', claimed) = claim_messages clock c min_idle idle_entries False g;
          next_start = (if claimed \<noteq> [] then new_id (millis (last claimed)) (seq (last claimed) + 1)
                        else new_id 0 0)
      in (g', claimed, next_start))"

definition set_id :: "stream_id \<Rightarrow> consumer_group \<Rightarrow> consumer_group" where
  "set_id i g = g\<lparr>last_delivered_id := i\<rparr>"

section \<open>The manager\<close>

type_synonym group_manager = "(string \<times> consumer_group) list"

definition create_group :: "nat \<Rightarrow> string \<Rightarrow> stream_id \<Rightarrow> group_manager \<Rightarrow> group_manager \<times> (string + unit)" where
  "create_group now name start m =
     (case map_of m name of
        Some _ \<Rightarrow> (m, Inl ''BUSYGROUP Consumer Group name already exists'')
      | None \<Rightarrow> (AList.update name (new_group now name start) m, Inr ()))"

definition destroy_group :: "string \<Rightarrow> group_manager \<Rightarrow> group_manager \<times> bool" where
  "destroy_group name m = (AList.delete name m, map_of m name \<noteq> None)"

definition get_group :: "string \<Rightarrow> group_manager \<Rightarrow> consumer_group option" where
  "get_group name m = map_of m name"

definition list_groups :: "group_manager \<Rightarrow> consumer_group list" where
  "list_groups m = map snd m"

section \<open>Consistency of the two indexes\<close>

definition owner :: "pending_entry_list \<Rightarrow> stream_id \<Rightarrow> string option" where
  "owner p i = map_option pe_consumer (map_of (entries_by_id p) i)"

definition ids_of :: "(string \<times> stream_id list) list \<Rightarrow> string \<Rightarrow> stream_id list" where
  "ids_of idx c = (case map_of idx c of None \<Rightarrow> [] | Some ids \<Rightarrow> ids)"

definition index_ok :: "(string \<times> stream_id list) list \<Rightarrow> (stream_id \<Rightarrow> string option) \<Rightarrow> bool" where
  "index_ok idx own \<longleftrightarrow> distinct (map fst idx) \<and> (\<forall>c ids. map_of idx c = Some ids \<longrightarrow> ids \<noteq> [] \<and> distinct ids)
     \<and> (\<forall>c i. i \<in> set (ids_of idx c) \<longleftrightarrow> own i = Some c)"

definition bounds_ok :: "pending_entry_list \<Rightarrow> bool" where
  "bounds_ok p \<longleftrightarrow> min_pending_id p = opt_min (map fst (entries_by_id p)) \<and>
     max_pending_id p = opt_max (map fst (entries_by_id p))"

definition pel_ok :: "pending_entry_list \<Rightarrow> bool" where
  "pel_ok p \<longleftrightarrow> sorted_wrt (<) (map fst (entries_by_id p)) \<and>
     (\<forall>i e. map_of (entries_by_id p) i = Some e \<longrightarrow> pe_id e = i) \<and>
     index_ok (entries_by_consumer p) (owner p) \<and> bounds_ok p"

lemma ids_of_push [simp]: "ids_of (index_push c i idx) c' = (if c' = c then ids_of idx c @ [i] else ids_of idx c')"
  by (simp add: ids_of_def index_push_def split: option.split)

lemma ids_of_retain [simp]:
  "ids_of (index_retain c i idx) c' = (if c' = c then filter (\<lambda>x. x \<noteq> i) (ids_of idx c) else ids_of idx c')"
  by (auto simp: ids_of_def index_retain_def Let_def split: option.split)

lemma ids_of_delete [simp]: "ids_of (AList.delete c idx) c' = (if c' = c then [] else ids_of idx c')"
  by (simp add: ids_of_def)

lemma index_okD:
  assumes "index_ok idx own"
  shows "distinct (map fst idx)" "distinct (ids_of idx c)" "i \<in> set (ids_of idx c) \<longleftrightarrow> own i = Some c"
proof -
  show "distinct (map fst idx)" "i \<in> set (ids_of idx c) \<longleftrightarrow> own i = Some c"
    using assms by (simp_all add: index_ok_def)
  show "distinct (ids_of idx c)" using assms by (simp add: index_ok_def ids_of_def split: option.split)
qed

lemma index_ok_push:
  assumes "index_ok idx own" "own i = None"
  shows "index_ok (index_push c i idx) (own(i \<mapsto> c))"
proof -
  note d = index_okD [OF assms(1)]
  have "i \<notin> set (ids_of idx c')" for c' using d(3) assms(2) by simp
  then have "ids \<noteq> [] \<and> distinct ids" if "map_of (index_push c i idx) c' = Some ids" for c' ids
    using that assms(1) by (auto simp: index_push_def index_ok_def ids_of_def split: option.splits if_splits)
  moreover have "distinct (map fst (index_push c i idx))"
    using d(1) by (auto simp: index_push_def distinct_update split: option.split)
  ultimately show ?thesis using d(3) assms(2) by (auto simp: index_ok_def)
qed

lemma index_ok_retain:
  assumes "index_ok idx own" "own i = Some c"
  shows "index_ok (index_retain c i idx) (own(i := None))"
proof -
  note d = index_okD [OF assms(1)]
  have "ids \<noteq> [] \<and> distinct ids" if "map_of (index_retain c i idx) c' = Some ids" for c' ids
    using that assms(1) by (auto simp: index_retain_def index_ok_def Let_def split: option.splits if_splits)
  moreover have "distinct (map fst (index_retain c i idx))"
    using d(1) by (auto simp: index_retain_def distinct_update Let_def split: option.split)
  ultimately show ?thesis using d(3) assms(2) by (auto simp: index_ok_def)
qed

lemma index_ok_delete:
  assumes "index_ok idx own"
  shows "index_ok (AList.delete c idx) (\<lambda>i. if own i = Some c then None else own i)"
  using assms index_okD [OF assms] by (auto simp: index_ok_def)

lemma update_bounds_simps [simp]:
  "entries_by_id (update_bounds p) = entries_by_id p" "entries_by_consumer (update_bounds p) = entries_by_consumer p"
  "bounds_ok (update_bounds p)" "owner (update_bounds p) = owner p"
  by (simp_all add: update_bounds_def bounds_ok_def fun_eq_iff owner_def)

lemma new_pel_ok [simp]: "pel_ok new_pel"
  by (simp add: pel_ok_def new_pel_def index_ok_def ids_of_def owner_def bounds_ok_def opt_min_def opt_max_def)

lemma owner_None: "owner p i = None \<longleftrightarrow> i \<notin> fst ` set (entries_by_id p)"
  by (simp add: owner_def map_of_eq_None_iff)

lemma add_entry_ok:
  assumes "pel_ok p" "owner p (pe_id e) = None"
  shows "pel_ok (add_entry e p)" and "owner (add_entry e p) = (owner p)(pe_id e \<mapsto> pe_consumer e)"
    and "length (entries_by_id (add_entry e p)) = Suc (length (entries_by_id p))"
proof -
  have s: "sorted_wrt (<) (map fst (entries_by_id p))" using assms(1) by (simp add: pel_ok_def)
  show o: "owner (add_entry e p) = (owner p)(pe_id e \<mapsto> pe_consumer e)"
    using s by (auto simp: add_entry_def owner_def)
  show "pel_ok (add_entry e p)" using assms o index_ok_push [of _ "owner p" "pe_id e" "pe_consumer e"]
    by (simp add: pel_ok_def add_entry_def)
  show "length (entries_by_id (add_entry e p)) = Suc (length (entries_by_id p))"
    using s assms(2) by (simp add: add_entry_def length_btree_insert owner_None)
qed

lemma remove_entry_ok:
  assumes "pel_ok p" "remove_entry i p = (p', Some e)"
  shows "pel_ok p'" and "owner p i = Some (pe_consumer e)" and "owner p' = (owner p)(i := None)"
    and "Suc (length (entries_by_id p')) = length (entries_by_id p)"
    and "entries_by_consumer p' = index_retain (pe_consumer e) i (entries_by_consumer p)"
proof -
  have s: "sorted_wrt (<) (map fst (entries_by_id p))" using assms(1) by (simp add: pel_ok_def)
  have e: "map_of (entries_by_id p) i = Some e" and
    p': "p' = update_bounds (p\<lparr>entries_by_id := AList.delete i (entries_by_id p),
       entries_by_consumer := index_retain (pe_consumer e) i (entries_by_consumer p)\<rparr>)"
    using assms(2) by (auto simp: remove_entry_def split: option.splits)
  show o: "owner p' = (owner p)(i := None)" and oi: "owner p i = Some (pe_consumer e)"
    using e by (auto simp: p' owner_def)
  show "pel_ok p'" using assms(1) o oi index_ok_retain [of _ "owner p" i "pe_consumer e"] by (simp add: pel_ok_def p')
  show "Suc (length (entries_by_id p')) = length (entries_by_id p)"
    using sorted_distinct [OF s] oi owner_None [of p i] by (simp add: p' length_delete)
  show "entries_by_consumer p' = index_retain (pe_consumer e) i (entries_by_consumer p)" by (simp add: p')
qed

lemma remove_entry_None: "remove_entry i p = (p', None) \<Longrightarrow> p' = p \<and> owner p i = None"
  by (auto simp: remove_entry_def owner_def split: option.splits)

lemma transfer_ownership_ok:
  fixes now :: nat and c :: string
  assumes "pel_ok p" "map_of (entries_by_id p) i = Some e"
  defines "p' \<equiv> transfer_ownership now i c p"
  shows "pel_ok p'" and "owner p' = (owner p)(i \<mapsto> c)" and "length (entries_by_id p') = length (entries_by_id p)"
    and "map fst (entries_by_id p') = map fst (entries_by_id p)"
    and "entries_by_consumer p' = index_push c i (index_retain (pe_consumer e) i (entries_by_consumer p))"
proof -
  show o: "owner p' = (owner p)(i \<mapsto> c)" using assms(2)
    by (auto simp: p'_def transfer_ownership_def owner_def map_entry_conv)
  have "index_ok (index_retain (pe_consumer e) i (entries_by_consumer p)) ((owner p)(i := None))"
    using assms(1,2) index_ok_retain by (auto simp: pel_ok_def owner_def)
  from index_ok_push [OF this, of i c]
  show "pel_ok p'" using assms(1,2) o
    by (auto simp: pel_ok_def p'_def transfer_ownership_def map_entry_conv bounds_ok_def split: if_splits)
qed (use assms in \<open>simp_all add: transfer_ownership_def\<close>)

lemma fold_delete_map_of: "map_of (fold AList.delete ks al) k = (if k \<in> set ks then None else map_of al k)"
  by (induction ks arbitrary: al) auto

lemma fold_delete_sorted [simp]:
  "sorted_wrt (<) (map fst al) \<Longrightarrow> sorted_wrt (<) (map fst (fold AList.delete ks al))"
  by (induction ks arbitrary: al) auto

lemma fold_delete_length:
  "distinct (map fst al) \<Longrightarrow> distinct ks \<Longrightarrow> set ks \<subseteq> fst ` set al
   \<Longrightarrow> length (fold AList.delete ks al) + length ks = length al"
proof (induction ks arbitrary: al)
  case (Cons k ks)
  then show ?case using length_delete [of al k] Cons.IH [of "AList.delete k al"] by fastforce
qed simp

lemma remove_consumer_entries_ok:
  assumes "pel_ok p" "remove_consumer_entries c p = (p', n)"
  shows "pel_ok p'" and "owner p' = (\<lambda>i. if owner p i = Some c then None else owner p i)"
    and "length (entries_by_id p') + n = length (entries_by_id p)"
    and "n = length (ids_of (entries_by_consumer p) c)"
    and "ids_of (entries_by_consumer p') c' = (if c' = c then [] else ids_of (entries_by_consumer p) c')"
proof -
  have ix: "index_ok (entries_by_consumer p) (owner p)"
    and s: "sorted_wrt (<) (map fst (entries_by_id p))" using assms(1) by (simp_all add: pel_ok_def)
  note d = index_okD [OF ix]
  let ?ids = "ids_of (entries_by_consumer p) c"
  show n: "n = length ?ids"
    and c': "ids_of (entries_by_consumer p') c' = (if c' = c then [] else ids_of (entries_by_consumer p) c')"
    using assms(2) by (auto simp: remove_consumer_entries_def ids_of_def split: option.splits)
  have e: "entries_by_id p' = fold AList.delete ?ids (entries_by_id p)"
    using assms(2) by (auto simp: remove_consumer_entries_def ids_of_def split: option.splits)
  show o: "owner p' = (\<lambda>i. if owner p i = Some c then None else owner p i)"
    using d(3) [of _ c] by (auto simp: fun_eq_iff owner_def e fold_delete_map_of)
  have "set ?ids \<subseteq> fst ` set (entries_by_id p)" 
    using d(3) [of _ c] owner_None [of p] by (metis option.distinct(1) subsetI)
  then show "length (entries_by_id p') + n = length (entries_by_id p)"
    using fold_delete_length [OF sorted_distinct [OF s] d(2) [of c]] by (simp add: e n)
  have "index_ok (entries_by_consumer p') (owner p') \<and> bounds_ok p'"
    using assms o index_ok_delete [OF ix, of c] ix d(3) [of _ c]
    by (fastforce simp: remove_consumer_entries_def pel_ok_def ids_of_def split: option.splits)
  then show "pel_ok p'" using assms(1) s by (auto simp: pel_ok_def e fold_delete_map_of split: if_splits)
qed

section \<open>Consistency of a group\<close>

definition counts_ok :: "(string \<times> consumer) list \<Rightarrow> (string \<times> stream_id list) list \<Rightarrow> bool" where
  "counts_ok cs idx \<longleftrightarrow> (\<forall>n c. map_of cs n = Some c \<longrightarrow>
     consumer_name c = n \<and> pending_count c = length (ids_of idx n))"

definition group_ok :: "consumer_group \<Rightarrow> bool" where
  "group_ok g \<longleftrightarrow> pel_ok (pending g) \<and> distinct (map fst (consumers g)) \<and>
     consumer_count g = length (consumers g) \<and>
     total_pending g = length (entries_by_id (pending g)) \<and>
     counts_ok (consumers g) (entries_by_consumer (pending g)) \<and>
     (\<forall>i n. owner (pending g) i = Some n \<longrightarrow> n \<in> fst ` set (consumers g)) \<and>
     (\<forall>i \<in> fst ` set (entries_by_id (pending g)). i \<le> last_delivered_id g)"

lemma group_okD:
  assumes "group_ok g"
  shows "pel_ok (pending g)" "distinct (map fst (consumers g))" "consumer_count g = length (consumers g)"
    "total_pending g = length (entries_by_id (pending g))"
    "counts_ok (consumers g) (entries_by_consumer (pending g))"
    "owner (pending g) i = Some n \<Longrightarrow> n \<in> fst ` set (consumers g)"
    "owner (pending g) i \<noteq> None \<Longrightarrow> i \<le> last_delivered_id g"
  using assms by (auto simp: group_ok_def owner_None)

lemma group_okI:
  assumes "pel_ok (pending g)" "distinct (map fst (consumers g))" "consumer_count g = length (consumers g)"
    "total_pending g = length (entries_by_id (pending g))"
    "counts_ok (consumers g) (entries_by_consumer (pending g))"
    "\<And>i n. owner (pending g) i = Some n \<Longrightarrow> n \<in> fst ` set (consumers g)"
    "\<And>i. owner (pending g) i \<noteq> None \<Longrightarrow> i \<le> last_delivered_id g"
  shows "group_ok g"
  using assms by (auto simp: group_ok_def owner_None)

lemma new_group_ok [wf_intros]: "group_ok (new_group now n i)"
  by (rule group_okI)
    (simp_all add: new_group_def counts_ok_def, simp_all add: new_pel_def owner_def)

lemma dom_map_entry' [simp]: "fst ` set (AList.map_entry k f al) = fst ` set al"
  by (simp add: dom_map_entry)

lemma create_consumer_simps [simp]:
  "pending (fst (create_consumer now c g)) = pending g"
  "total_pending (fst (create_consumer now c g)) = total_pending g"
  "last_delivered_id (fst (create_consumer now c g)) = last_delivered_id g"
  "fst ` set (consumers (fst (create_consumer now c g))) = insert c (fst ` set (consumers g))"
  by (auto simp: create_consumer_def split: option.split dest: map_of_SomeD intro: rev_image_eqI)

lemma create_consumer_ok [wf_intros]:
  assumes "group_ok g"
  shows "group_ok (fst (create_consumer now c g))"
proof (rule group_okI)
  note g = group_okD [OF assms]
  let ?g = "fst (create_consumer now c g)"
  show "distinct (map fst (consumers ?g))"
    using g(2) by (auto simp: create_consumer_def distinct_update split: option.split)
  show "consumer_count ?g = length (consumers ?g)"
    using g(3) by (auto simp: create_consumer_def length_update_new map_of_eq_None_iff split: option.split)
  have "ids_of (entries_by_consumer (pending g)) c = []" if "map_of (consumers g) c = None"
  proof -
    have "owner (pending g) i \<noteq> Some c" for i using that g(6) by (auto simp: map_of_eq_None_iff)
    then have "i \<notin> set (ids_of (entries_by_consumer (pending g)) c)" for i
      using g(1) index_okD(3) [of "entries_by_consumer (pending g)" "owner (pending g)"]
      by (auto simp: pel_ok_def)
    then show ?thesis by (metis last_in_set)
  qed
  then show "counts_ok (consumers ?g) (entries_by_consumer (pending ?g))"
    using g(5) by (auto simp: counts_ok_def create_consumer_def map_entry_conv split: option.split)
qed (use group_okD [OF assms] in auto)

lemma delete_consumer_ok [wf_intros]:
  assumes "group_ok g"
  shows "group_ok (fst (delete_consumer c g))"
proof (cases "map_of (consumers g) c")
  case None
  then show ?thesis using assms by (simp add: delete_consumer_def)
next
  case (Some x)
  note g = group_okD [OF assms]
  obtain p n where r: "remove_consumer_entries c (pending g) = (p, n)" by fastforce
  note p = remove_consumer_entries_ok [OF g(1) r]
  have len: "Suc (length (AList.delete c (consumers g))) = length (consumers g)"
    using length_delete [OF g(2)] Some by (metis map_of_eq_None_iff option.distinct(1))
  show ?thesis
    by (rule group_okI)
      (use Some r p g len in \<open>auto simp: delete_consumer_def counts_ok_def split: if_splits\<close>)
qed

lemma add_entries_ok:
  fixes now :: nat and c :: string
  assumes "pel_ok p" "distinct (map entry_id es)" "\<forall>e \<in> set es. owner p (entry_id e) = None"
  defines "p' \<equiv> fold (\<lambda>e. add_entry (pending_of_entry now c e)) es p"
  shows "pel_ok p' \<and> owner p' = (\<lambda>i. if i \<in> entry_id ` set es then Some c else owner p i) \<and>
    length (entries_by_id p') = length (entries_by_id p) + length es \<and>
    ids_of (entries_by_consumer p') c' =
      ids_of (entries_by_consumer p) c' @ (if c' = c then map entry_id es else [])"
  using assms(1-3) unfolding p'_def
proof (induction es arbitrary: p)
  case (Cons e es)
  let ?p = "add_entry (pending_of_entry now c e) p"
  have i: "pe_id (pending_of_entry now c e) = entry_id e" "pe_consumer (pending_of_entry now c e) = c"
    by (simp_all add: pending_of_entry_def)
  have a: "owner p (pe_id (pending_of_entry now c e)) = None" using Cons.prems by (simp add: i)
  note ok = add_entry_ok [OF Cons.prems(1) a]
  have idx: "ids_of (entries_by_consumer ?p) c' =
      ids_of (entries_by_consumer p) c' @ (if c' = c then [entry_id e] else [])" for c'
    by (simp add: add_entry_def i)
  have "\<forall>x \<in> set es. owner ?p (entry_id x) = None" using Cons.prems ok(2) by (auto simp: i image_iff)
  with Cons.IH [of ?p] Cons.prems ok show ?case by (auto simp: i idx fun_eq_iff)
qed simp

text \<open>
  Entries read with \<^verbatim>\<open>>\<close> come after the last delivered identifier, in increasing order; this is the
  hypothesis under which delivering them keeps the group consistent.
\<close>

definition fresh_entries :: "consumer_group \<Rightarrow> stream_entry list \<Rightarrow> bool" where
  "fresh_entries g es \<longleftrightarrow> sorted_wrt (<) (map entry_id es) \<and> (\<forall>e \<in> set es. last_delivered_id g < entry_id e)"

lemma length_filter_neq: "distinct xs \<Longrightarrow> x \<in> set xs \<Longrightarrow> length (filter (\<lambda>y. y \<noteq> x) xs) = length xs - 1"
  using length_remove1 [of x xs] distinct_remove1_removeAll [of xs x] by (simp add: removeAll_filter_not_eq eq_commute)

lemma sorted_le_last: "sorted_wrt (<) (map f es) \<Longrightarrow> e \<in> set es \<Longrightarrow> f e \<le> (f (last es) :: 'a::linorder)"
  by (induction es) (auto simp: less_imp_le split: if_splits)

lemma add_pending_ok [wf_intros]:
  assumes "group_ok g" "fresh_entries g es"
  shows "group_ok (fst (add_pending clock c es g))"
proof -
  let ?g1 = "fst (create_consumer (clock 1) c g)" and ?g' = "fst (add_pending clock c es g)"
  note g = group_okD [OF create_consumer_ok [OF assms(1), of "clock 1" c]]
  have f: "sorted_wrt (<) (map entry_id es)" "\<forall>e \<in> set es. last_delivered_id g < entry_id e"
    using assms(2) by (auto simp: fresh_entries_def)
  have new: "\<forall>e \<in> set es. owner (pending ?g1) (entry_id e) = None"
    using f(2) g(7) by (fastforce simp: not_le [symmetric])
  note p = add_entries_ok [OF g(1) sorted_distinct [OF f(1)] new, of "clock 0" c]
  have le: "i \<le> last_delivered_id ?g'" if "owner (pending ?g') i \<noteq> None" for i
  proof (cases "i \<in> entry_id ` set es")
    case True
    then obtain e where "e \<in> set es" "i = entry_id e" by blast
    moreover from this have "last es \<in> set es" by (intro last_in_set) auto
    ultimately have "i \<le> entry_id (last es)" "last_delivered_id g < entry_id (last es)" "es \<noteq> []"
      using sorted_le_last [OF f(1)] f(2) by auto
    then show ?thesis by (simp add: add_pending_def Let_def)
  next
    case False
    then have "owner (pending ?g1) i \<noteq> None" using that p by (simp add: add_pending_def Let_def)
    from g(7) [OF this] show ?thesis by (auto simp: add_pending_def Let_def)
  qed
  show ?thesis
    by (rule group_okI [OF _ _ _ _ _ _ le])
      (use g p in \<open>auto simp: add_pending_def Let_def counts_ok_def map_entry_conv split: if_splits\<close>)
qed

text \<open>The loop of \<^verbatim>\<open>acknowledge\<close>: the total is only adjusted after it.\<close>

lemma ack_loop_ok:
  assumes "group_ok (g\<lparr>total_pending := total_pending g - acked\<rparr>)" "acked \<le> total_pending g"
  shows "case ack_loop ids g acked of (g', n) \<Rightarrow>
    group_ok (g'\<lparr>total_pending := total_pending g' - n\<rparr>) \<and> n \<le> total_pending g' \<and>
    owner (pending g') = (\<lambda>i. if i \<in> set ids then None else owner (pending g) i) \<and>
    n = acked + card {i \<in> set ids. owner (pending g) i \<noteq> None}"
  using assms
proof (induction ids g acked rule: ack_loop.induct)
  case (2 i ids g acked)
  note g = group_okD [OF "2.prems"(1), simplified]
  show ?case
  proof (cases "remove_entry i (pending g)")
    case (Pair p r)
    show ?thesis
    proof (cases r)
      case None
      with remove_entry_None Pair have p: "p = pending g" and n: "owner (pending g) i = None" by auto
      have "{j. (j = i \<or> j \<in> set ids) \<and> owner (pending g) j \<noteq> None} = {j \<in> set ids. owner (pending g) j \<noteq> None}"
        using n by auto
      then show ?thesis using "2.IH"(1) [OF Pair [symmetric] None] "2.prems" Pair None n p
        by (auto simp: fun_eq_iff split: prod.splits)
    next
      case (Some e)
      note p = remove_entry_ok [OF g(1) Pair [unfolded Some]]
      let ?g = "g\<lparr>pending := p, consumers := AList.map_entry (pe_consumer e)
             (\<lambda>x. x\<lparr>pending_count := pending_count x - 1\<rparr>) (consumers g)\<rparr>"
      have mem: "i \<in> set (ids_of (entries_by_consumer (pending g)) (pe_consumer e))"
        "distinct (ids_of (entries_by_consumer (pending g)) (pe_consumer e))"
        using g(1) p(2) index_okD by (auto simp: pel_ok_def)
      note len = length_filter_neq [OF mem(2,1)]
      have "group_ok (?g\<lparr>total_pending := total_pending ?g - (acked + 1)\<rparr>)"
        by (rule group_okI)
          (use g p len in \<open>auto simp: counts_ok_def map_entry_conv split: if_splits\<close>)
      moreover have "acked + 1 \<le> total_pending ?g" using g(4) p(4) "2.prems"(2) by auto
      moreover have "card {j. (j = i \<or> j \<in> set ids) \<and> owner (pending g) j \<noteq> None}
          = Suc (card {j \<in> set ids. owner p j \<noteq> None})"
      proof -
        have "{j. (j = i \<or> j \<in> set ids) \<and> owner (pending g) j \<noteq> None} = insert i {j \<in> set ids. owner p j \<noteq> None}"
          using p(2,3) by auto
        then show ?thesis using p(3) by simp
      qed
      ultimately show ?thesis using "2.IH"(2) [OF Pair [symmetric] Some] Pair Some p(3)
        by (auto simp: fun_eq_iff split: prod.splits)
    qed
  qed
qed (auto simp: fun_eq_iff)

lemma acknowledge_ok [wf_intros]:
  assumes "group_ok g"
  shows "group_ok (fst (acknowledge ids g))"
proof -
  obtain g' n where a: "ack_loop ids g 0 = (g', n)" by fastforce
  have "group_ok (g'\<lparr>total_pending := total_pending g' - n\<rparr>)" 
    using ack_loop_ok [of g 0 ids] assms unfolding a by auto
  then show ?thesis by (cases "n = 0") (simp_all add: acknowledge_def a)
qed

lemma claim_step_ok:
  assumes "group_ok g" "c \<in> fst ` set (consumers g)" "map_of (entries_by_id (pending g)) i = Some e"
  shows "group_ok (g\<lparr>consumers := AList.map_entry c (\<lambda>x. x\<lparr>pending_count := pending_count x + 1\<rparr>)
      (AList.map_entry (pe_consumer e) (\<lambda>x. x\<lparr>pending_count := pending_count x - 1\<rparr>) (consumers g)),
    pending := transfer_ownership now i c (pending g)\<rparr>)" (is "group_ok ?g")
proof -
  note g = group_okD [OF assms(1)]
  note p = transfer_ownership_ok [OF g(1) assms(3), of now c]
  have o: "owner (pending g) i = Some (pe_consumer e)" using assms(3) by (simp add: owner_def)
  have ix: "index_ok (entries_by_consumer (pending g)) (owner (pending g))" using g(1) by (simp add: pel_ok_def)
  have mem: "i \<in> set (ids_of (entries_by_consumer (pending g)) (pe_consumer e))"
    "distinct (ids_of (entries_by_consumer (pending g)) (pe_consumer e))"
    using o index_okD [OF ix] by auto
  note len = length_filter_neq [OF mem(2,1)]
  show ?thesis
    by (rule group_okI) (use g p len o assms(2) in \<open>auto simp: counts_ok_def map_entry_conv split: if_splits\<close>)
qed

lemma claim_loop_ok:
  "group_ok g \<Longrightarrow> c \<in> fst ` set (consumers g) \<Longrightarrow> group_ok (fst (claim_loop clock c min_idle force ids g claimed))"
proof (induction ids arbitrary: g claimed)
  case (Cons i ids)
  then show ?case using Cons.IH [OF Cons.prems]
    by (cases "map_of (entries_by_id (pending g)) i"; cases force)
      (simp_all add: Let_def claim_step_ok [simplified])
qed simp

lemma claim_messages_ok [wf_intros]:
  "group_ok g \<Longrightarrow> group_ok (fst (claim_messages clock c min_idle ids force g))"
  by (simp add: claim_messages_def claim_loop_ok create_consumer_ok)

lemma auto_claim_ok [wf_intros]:
  "group_ok g \<Longrightarrow> group_ok (fst (auto_claim now clock c min_idle start count g))"
  by (simp add: auto_claim_def Let_def claim_messages_ok split_beta)

text \<open>The life of a group: what the commands of a stream can do to it.\<close>

inductive group_step :: "consumer_group \<Rightarrow> consumer_group \<Rightarrow> bool" where
  create: "group_step g (fst (create_consumer now c g))"
| delete: "group_step g (fst (delete_consumer c g))"
| deliver: "fresh_entries g es \<Longrightarrow> group_step g (fst (add_pending clock c es g))"
| ack: "group_step g (fst (acknowledge ids g))"
| claim: "group_step g (fst (claim_messages clock c min_idle ids force g))"
| auto: "group_step g (fst (auto_claim now clock c min_idle start count g))"
| set_id: "last_delivered_id g \<le> i \<Longrightarrow> group_step g (set_id i g)"

inductive group_reachable :: "consumer_group \<Rightarrow> bool" where
  new: "group_reachable (new_group now name start)"
| step: "group_reachable g \<Longrightarrow> group_step g g' \<Longrightarrow> group_reachable g'"

lemma set_id_ok [wf_intros]: "group_ok g \<Longrightarrow> last_delivered_id g \<le> i \<Longrightarrow> group_ok (set_id i g)"
  by (auto simp: group_ok_def set_id_def)

lemma group_step_ok: "group_step g g' \<Longrightarrow> group_ok g \<Longrightarrow> group_ok g'"
  by (induction rule: group_step.induct) (auto intro: wf_intros)

section \<open>Properties of consumer groups\<close>



text \<open>
  Acknowledging removes exactly the listed identifiers from the pending list and returns how many
  of them were pending, each counted once however often it is listed.
\<close>

theorem acknowledge_exact:
  assumes "group_ok g"
  shows "owner (pending (fst (acknowledge ids g))) = (\<lambda>i. if i \<in> set ids then None else owner (pending g) i)
    \<and> snd (acknowledge ids g) = card {i \<in> set ids. owner (pending g) i \<noteq> None}"
  using ack_loop_ok [of g 0 ids] assms by (auto simp: acknowledge_def Let_def split: prod.splits)

theorem acknowledge_exact_witness:
  "snd (acknowledge [new_id 1 1, new_id 1 1] (new_group 0 ''g'' (new_id 0 0))) = 0"
  using acknowledge_exact [OF new_group_ok [of 0 "''g''" "new_id 0 0"], of "[new_id 1 1, new_id 1 1]"]
  by (simp add: new_group_def new_pel_def owner_def)

lemma claim_loop_force:
  "pel_ok (pending g) \<Longrightarrow>
     owner (pending (fst (claim_loop clock c min_idle True ids g claimed))) =
       (\<lambda>i. if i \<in> set ids \<and> owner (pending g) i \<noteq> None then Some c else owner (pending g) i) \<and>
     snd (claim_loop clock c min_idle True ids g claimed) = claimed @ filter (\<lambda>i. owner (pending g) i \<noteq> None) ids"
proof (induction ids arbitrary: g claimed)
  case (Cons i ids)
  show ?case
  proof (cases "map_of (entries_by_id (pending g)) i")
    case None
    then have "owner (pending g) i = None" by (simp add: owner_def)
    then show ?thesis using Cons.IH [OF Cons.prems, of claimed] None by (auto simp: fun_eq_iff)
  next
    case (Some e)
    then have o: "owner (pending g) i \<noteq> None" by (simp add: owner_def)
    let ?p = "transfer_ownership (clock (2 + length claimed)) i c (pending g)"
    note t = transfer_ownership_ok [OF Cons.prems Some, of "clock (2 + length claimed)" c]
    obtain cs where "claim_loop clock c min_idle True (i # ids) g claimed =
        claim_loop clock c min_idle True ids (g\<lparr>consumers := cs, pending := ?p\<rparr>) (claimed @ [i])"
      using Some by (auto simp: Let_def)
    moreover have "filter (\<lambda>j. owner ?p j \<noteq> None) ids = filter (\<lambda>j. owner (pending g) j \<noteq> None) ids"
      using o t(2) by (intro filter_cong) auto
    ultimately show ?thesis using Cons.IH [of "g\<lparr>consumers := cs, pending := ?p\<rparr>" "claimed @ [i]"] t(1,2) o
      by (auto simp: fun_eq_iff)
  qed
qed (simp add: fun_eq_iff)

text \<open>
  A forced claim makes the new consumer the owner of every listed entry that is pending and of no
  other, and returns those identifiers in the order of the list.
\<close>

theorem claim_forced:
  assumes "group_ok g"
  shows "owner (pending (fst (claim_messages clock c min_idle ids True g))) =
      (\<lambda>i. if i \<in> set ids \<and> owner (pending g) i \<noteq> None then Some c else owner (pending g) i)
    \<and> snd (claim_messages clock c min_idle ids True g) = filter (\<lambda>i. owner (pending g) i \<noteq> None) ids"
  using claim_loop_force [of "fst (create_consumer (clock 1) c g)" clock c min_idle ids "[]"] group_okD(1) [OF assms]
  by (simp add: claim_messages_def cong: if_cong)

theorem claim_forced_witness:
  "snd (claim_messages (\<lambda>n. n) ''bob'' 0 [new_id 1 1] True (new_group 0 ''g'' (new_id 0 0))) = []"
  using claim_forced [OF new_group_ok [of 0 "''g''" "new_id 0 0"], of "\<lambda>n. n" "''bob''" 0 "[new_id 1 1]"]
  by (simp add: new_group_def new_pel_def owner_def)

end
