(* ===== verification/Streams.thy ===== *)
theory Streams
  imports Binary_Search Consumer_Groups
begin

text \<open>
  Streams (\<^verbatim>\<open>Stream\<close> and \<^verbatim>\<open>StreamData\<close> in \<^verbatim>\<open>src/storage/stream.rs\<close>): an append-only vector of entries
  sorted by identifier, mirrored by atomic counters, and the consumer groups of the stream.
  The counters are 64-bit words, as the code updates them with wrapping atomics.
\<close>

section \<open>Data\<close>

record stream_data =
  entries :: "stream_entry list"
  last_id :: stream_id
  data_memory :: u64

record stream =
  data :: stream_data
  last_id_millis :: u64
  last_id_seq :: u64
  stream_length :: u64
  stream_memory :: u64
  consumer_groups :: group_manager

text \<open>
  The sizes of the structures on a 64-bit target: an identifier takes 16 bytes, a hash map 48, a
  vector 24, a mutex adds 16 in front of 16-aligned data.
\<close>

definition size_of_stream_entry :: u64 where "size_of_stream_entry = 16 + 48"
definition size_of_stream_data :: u64 where "size_of_stream_data = 24 + 16 + 8"
definition size_of_stream :: u64 where "size_of_stream = (16 + 48) + 64 + 16 + 48 + 16 + 8 + 8"

definition calculate_entry_size :: "stream_entry \<Rightarrow> u64" where
  "calculate_entry_size e =
     fold (\<lambda>(k, v) size. size + word_of_nat (length k + length v + 48)) (entry_fields e)
       (16 + size_of_stream_entry)"

definition new_stream_data :: stream_data where
  "new_stream_data = \<lparr>entries = [], last_id = new_id 0 0, data_memory = size_of_stream_data\<rparr>"

definition new_stream :: stream where
  "new_stream = \<lparr>data = new_stream_data, last_id_millis = 0, last_id_seq = 0, stream_length = 0,
     stream_memory = size_of_stream, consumer_groups = []\<rparr>"

section \<open>Adding entries\<close>

definition add_auto :: "u64 \<Rightarrow> bool \<Rightarrow> bool \<Rightarrow> (bytes \<times> bytes) list \<Rightarrow> stream \<Rightarrow> stream \<times> stream_id" where
  "add_auto now_millis ok1 ok2 fvs s =
     (let (i, (m, q)) = generate_next_atomic now_millis ok1 ok2 (last_id_millis s, last_id_seq s);
          fields_size = sum_list (map (\<lambda>(k, v). word_of_nat (length k + length v + 48)) fvs);
          entry_size = 16 + size_of_stream_entry + fields_size;
          d = (data s)\<lparr>entries := entries (data s) @ [\<lparr>entry_id = i, entry_fields = fvs\<rparr>],
                last_id := i, data_memory := data_memory (data s) + entry_size\<rparr>
      in (s\<lparr>data := d, last_id_millis := m, last_id_seq := q, stream_length := stream_length s + 1,
            stream_memory := stream_memory s + entry_size\<rparr>, i))"

definition add_with_id :: "stream_id \<Rightarrow> (bytes \<times> bytes) list \<Rightarrow> stream \<Rightarrow> stream \<times> (string + unit)" where
  "add_with_id i fvs s =
     (if i \<le> last_id (data s)
      then (s, Inl ''The ID specified in XADD is equal or smaller than the target stream top item'')
      else (case binary_search entry_id (entries (data s)) i of
              Found _ \<Rightarrow> (s, Inl ''The ID specified in XADD already exists'')
            | NotFound _ \<Rightarrow>
                (let entry = \<lparr>entry_id = i, entry_fields = fvs\<rparr>;
                     entry_size = calculate_entry_size entry;
                     d = (data s)\<lparr>entries := entries (data s) @ [entry], last_id := i,
                           data_memory := data_memory (data s) + entry_size\<rparr>
                 in (s\<lparr>data := d, last_id_millis := millis i, last_id_seq := seq i,
                       stream_length := stream_length s + 1, stream_memory := stream_memory s + entry_size\<rparr>, Inr ()))))"

section \<open>Queries\<close>

fun collect_range :: "stream_entry list \<Rightarrow> nat option \<Rightarrow> nat list \<Rightarrow> stream_entry list \<Rightarrow> stream_entry list" where
  "collect_range es count [] result = result"
| "collect_range es count (i # is) result =
     (if (case count of Some c \<Rightarrow> length result \<ge> c | None \<Rightarrow> False) then result
      else collect_range es count is (if i < length es then result @ [es ! i] else result))"

definition range_data :: "stream_id \<Rightarrow> stream_id \<Rightarrow> nat option \<Rightarrow> bool \<Rightarrow> stream_data \<Rightarrow> stream_entry list" where
  "range_data start stop count reverse d =
     (let es = entries d;
          start_idx = search_index (binary_search entry_id es start);
          end_idx = (case binary_search entry_id es stop of
                       Found idx \<Rightarrow> idx | NotFound idx \<Rightarrow> if idx > 0 then idx - 1 else 0);
          idxs = [start_idx..<Suc (min end_idx (length es - 1))]
      in collect_range es count (if reverse then rev idxs else idxs) [])"

fun collect_after :: "stream_entry list \<Rightarrow> nat \<Rightarrow> nat list \<Rightarrow> stream_entry list \<Rightarrow> stream_entry list" where
  "collect_after es max_count [] result = result"
| "collect_after es max_count (i # is) result =
     (if length result \<ge> max_count then result else collect_after es max_count is (result @ [es ! i]))"

definition range_after_data :: "stream_id \<Rightarrow> nat option \<Rightarrow> stream_data \<Rightarrow> stream_entry list" where
  "range_after_data after count d =
     (let es = entries d;
          start_idx = (case binary_search entry_id es after of Found idx \<Rightarrow> idx + 1 | NotFound idx \<Rightarrow> idx);
          max_count = (case count of Some c \<Rightarrow> c | None \<Rightarrow> length es)
      in collect_after es max_count [start_idx..<length es] [])"

definition stream_range :: "stream_id \<Rightarrow> stream_id \<Rightarrow> nat option \<Rightarrow> bool \<Rightarrow> stream \<Rightarrow> stream_entry list" where
  "stream_range start stop count reverse s = range_data start stop count reverse (data s)"

definition stream_range_after :: "stream_id \<Rightarrow> nat option \<Rightarrow> stream \<Rightarrow> stream_entry list" where
  "stream_range_after after count s = range_after_data after count (data s)"

definition stream_len :: "stream \<Rightarrow> u64" where
  "stream_len s = stream_length s"

definition first_entry :: "stream \<Rightarrow> stream_entry option" where
  "first_entry s = (case entries (data s) of [] \<Rightarrow> None | e # _ \<Rightarrow> Some e)"

definition last_entry :: "stream \<Rightarrow> stream_entry option" where
  "last_entry s = (if entries (data s) = [] then None else Some (last (entries (data s))))"

definition find_entry :: "stream \<Rightarrow> stream_id \<Rightarrow> stream_entry option" where
  "find_entry s i = (case binary_search entry_id (entries (data s)) i of
     Found idx \<Rightarrow> Some (entries (data s) ! idx) | NotFound _ \<Rightarrow> None)"

definition get_entries :: "stream_id list \<Rightarrow> stream \<Rightarrow> stream_entry option list" where
  "get_entries ids s = map (find_entry s) ids"

section \<open>Removing entries\<close>

text \<open>Dropping the first \<open>n\<close> entries, with the counters: the common tail of the two trims.\<close>

definition drain_front :: "nat \<Rightarrow> stream \<Rightarrow> stream" where
  "drain_front n s =
     (let memory_to_free = sum_list (map calculate_entry_size (take n (entries (data s))))
      in s\<lparr>data := (data s)\<lparr>entries := drop n (entries (data s)),
             data_memory := data_memory (data s) - memory_to_free\<rparr>,
           stream_length := stream_length s - word_of_nat n,
           stream_memory := stream_memory s - memory_to_free\<rparr>)"

definition trim_by_count :: "nat \<Rightarrow> stream \<Rightarrow> stream \<times> nat" where
  "trim_by_count max_count s =
     (if length (entries (data s)) \<le> max_count then (s, 0)
      else let to_remove = length (entries (data s)) - max_count in (drain_front to_remove s, to_remove))"

definition trim_by_min_id :: "stream_id \<Rightarrow> stream \<Rightarrow> stream \<times> nat" where
  "trim_by_min_id i s =
     (let split_idx = search_index (binary_search entry_id (entries (data s)) i)
      in if split_idx = 0 then (s, 0) else (drain_front split_idx s, split_idx))"

fun delete_loop :: "stream_id list \<Rightarrow> stream_entry list \<Rightarrow> nat \<Rightarrow> u64 \<Rightarrow> stream_entry list \<times> nat \<times> u64" where
  "delete_loop [] es deleted memory_freed = (es, deleted, memory_freed)"
| "delete_loop (i # ids) es deleted memory_freed =
     (case binary_search entry_id es i of
        Found idx \<Rightarrow> delete_loop ids (take idx es @ drop (Suc idx) es) (deleted + 1)
                       (memory_freed + calculate_entry_size (es ! idx))
      | NotFound _ \<Rightarrow> delete_loop ids es deleted memory_freed)"

definition stream_delete :: "stream_id list \<Rightarrow> stream \<Rightarrow> stream \<times> nat" where
  "stream_delete ids s =
     (let sorted_ids = remdups_adj (sort ids);
          (es, deleted, memory_freed) = delete_loop (rev sorted_ids) (entries (data s)) 0 0;
          s1 = s\<lparr>data := (data s)\<lparr>entries := es\<rparr>\<rparr>
      in (if deleted > 0
          then s1\<lparr>data := (data s1)\<lparr>data_memory := data_memory (data s1) - memory_freed\<rparr>,
                 stream_length := stream_length s1 - word_of_nat deleted,
                 stream_memory := stream_memory s1 - memory_freed\<rparr>
          else s1, deleted))"

definition clear_stream :: "stream \<Rightarrow> stream" where
  "clear_stream s = s\<lparr>data := new_stream_data, stream_length := 0, last_id_millis := 0, last_id_seq := 0,
     stream_memory := size_of_stream\<rparr>"

section \<open>Consumer groups of a stream\<close>

definition create_consumer_group :: "nat \<Rightarrow> string \<Rightarrow> stream_id \<Rightarrow> stream \<Rightarrow> stream \<times> (string + unit)" where
  "create_consumer_group now name start s =
     (let (m, r) = create_group now name start (consumer_groups s) in (s\<lparr>consumer_groups := m\<rparr>, r))"

definition destroy_consumer_group :: "string \<Rightarrow> stream \<Rightarrow> stream \<times> bool" where
  "destroy_consumer_group name s =
     (let (m, r) = destroy_group name (consumer_groups s) in (s\<lparr>consumer_groups := m\<rparr>, r))"

definition put_group :: "string \<Rightarrow> consumer_group \<Rightarrow> stream \<Rightarrow> stream" where
  "put_group name g s = s\<lparr>consumer_groups := AList.update name g (consumer_groups s)\<rparr>"

definition no_group :: "string \<Rightarrow> string" where
  "no_group name = ''NOGROUP No such consumer group '' @ name @ '' for stream''"

definition read_group :: "(nat \<Rightarrow> nat) \<Rightarrow> string \<Rightarrow> string \<Rightarrow> stream_id \<Rightarrow> nat option \<Rightarrow> bool \<Rightarrow> stream
    \<Rightarrow> stream \<times> (string + stream_entry list)" where
  "read_group clock name consumer after count noack s =
     (case get_group name (consumer_groups s) of
        None \<Rightarrow> (s, Inl (no_group name))
      | Some g \<Rightarrow>
          (let es = (if after = max_id then range_after_data (last_delivered_id g) count (data s)
                     else range_after_data after count (data s))
           in if \<not> noack \<and> es \<noteq> []
              then (let (g', pending_entries) = add_pending clock consumer es g
                    in (put_group name g' s, Inr pending_entries))
              else (s, Inr es)))"

definition acknowledge_messages :: "string \<Rightarrow> stream_id list \<Rightarrow> stream \<Rightarrow> stream \<times> (string + nat)" where
  "acknowledge_messages name ids s =
     (case get_group name (consumer_groups s) of
        None \<Rightarrow> (s, Inl (no_group name))
      | Some g \<Rightarrow> (let (g', n) = acknowledge ids g in (put_group name g' s, Inr n)))"

definition claim_stream_messages :: "(nat \<Rightarrow> nat) \<Rightarrow> string \<Rightarrow> string \<Rightarrow> nat \<Rightarrow> stream_id list \<Rightarrow> bool \<Rightarrow> stream
    \<Rightarrow> stream \<times> (string + stream_entry list)" where
  "claim_stream_messages clock name consumer min_idle ids force s =
     (case get_group name (consumer_groups s) of
        None \<Rightarrow> (s, Inl (no_group name))
      | Some g \<Rightarrow>
          (let (g', claimed) = claim_messages clock consumer min_idle ids force g
           in (put_group name g' s, Inr (List.map_filter (find_entry s) claimed))))"

definition auto_claim_messages :: "nat \<Rightarrow> (nat \<Rightarrow> nat) \<Rightarrow> string \<Rightarrow> string \<Rightarrow> nat \<Rightarrow> stream_id \<Rightarrow> nat \<Rightarrow> stream
    \<Rightarrow> stream \<times> (string + stream_entry list \<times> stream_id)" where
  "auto_claim_messages now clock name consumer min_idle start count s =
     (case get_group name (consumer_groups s) of
        None \<Rightarrow> (s, Inl (no_group name))
      | Some g \<Rightarrow>
          (let (g', claimed, next_start) = auto_claim now clock consumer min_idle start count g
           in (put_group name g' s, Inr (List.map_filter (find_entry s) claimed, next_start))))"

section \<open>Invariant\<close>

definition entries_size :: "stream_entry list \<Rightarrow> u64" where
  "entries_size es = sum_list (map calculate_entry_size es)"

definition stream_ok :: "stream \<Rightarrow> bool" where
  "stream_ok s \<longleftrightarrow> sorted_by entry_id (entries (data s)) \<and>
     (\<forall>e \<in> set (entries (data s)). entry_id e \<le> last_id (data s)) \<and>
     last_id (data s) = new_id (last_id_millis s) (last_id_seq s) \<and>
     stream_length s = word_of_nat (length (entries (data s))) \<and>
     data_memory (data s) = size_of_stream_data + entries_size (entries (data s)) \<and>
     stream_memory s = size_of_stream + entries_size (entries (data s))"

lemma stream_okD:
  assumes "stream_ok s"
  shows "sorted_by entry_id (entries (data s))" "e \<in> set (entries (data s)) \<Longrightarrow> entry_id e \<le> last_id (data s)"
    "last_id (data s) = new_id (last_id_millis s) (last_id_seq s)"
  using assms by (auto simp: stream_ok_def)

lemma fold_entry_size: "fold (\<lambda>(k, v) size. size + word_of_nat (length k + length v + 48)) fvs (n :: u64)
    = n + sum_list (map (\<lambda>(k, v). word_of_nat (length k + length v + 48)) fvs)"
  by (induction fvs arbitrary: n) (auto simp: algebra_simps)

lemma entry_size_sum: "calculate_entry_size \<lparr>entry_id = i, entry_fields = fvs\<rparr>
    = 16 + size_of_stream_entry + sum_list (map (\<lambda>(k, v). word_of_nat (length k + length v + 48)) fvs)"
  by (simp only: calculate_entry_size_def fold_entry_size stream_entry.select_convs)

lemma new_stream_ok [wf_intros]: "stream_ok new_stream"
  by (simp add: stream_ok_def new_stream_def new_stream_data_def entries_size_def)

text \<open>Appending an entry above all others.\<close>

lemma append_entry_ok:
  assumes "stream_ok s" "last_id (data s) < i" "i = new_id m q"
    and "e = \<lparr>entry_id = i, entry_fields = fvs\<rparr>" "n = calculate_entry_size e"
  shows "stream_ok (s\<lparr>data := (data s)\<lparr>entries := entries (data s) @ [e], last_id := i,
      data_memory := data_memory (data s) + n\<rparr>, last_id_millis := m, last_id_seq := q,
      stream_length := stream_length s + 1, stream_memory := stream_memory s + n\<rparr>)"
proof -
  have "entry_id x < i" if "x \<in> set (entries (data s))" for x
    using stream_okD(2) [OF assms(1) that] assms(2) by (rule le_less_trans)
  then show ?thesis using assms
    by (auto simp: stream_ok_def sorted_wrt_append entries_size_def algebra_simps less_imp_le)
qed

lemma add_auto_ok [wf_intros]:
  assumes "stream_ok s" "last_id_seq s \<noteq> - 1"
  shows "stream_ok (fst (add_auto now ok1 ok2 fvs s))"
    and "last_id (data s) < snd (add_auto now ok1 ok2 fvs s)"
proof -
  obtain i m q where g: "generate_next_atomic now ok1 ok2 (last_id_millis s, last_id_seq s) = (i, (m, q))"
    by (metis prod.exhaust)
  note n = generate_next_greater [OF g assms(2)] and l = stream_okD(3) [OF assms(1)]
  show "last_id (data s) < snd (add_auto now ok1 ok2 fvs s)" using n l
    by (simp add: add_auto_def g Let_def)
  show "stream_ok (fst (add_auto now ok1 ok2 fvs s))"
    using append_entry_ok [OF assms(1) _ n(2) refl refl, of fvs] n(1) l
    by (simp add: add_auto_def g Let_def entry_size_sum)
qed

lemma add_with_id_not_found:
  assumes "stream_ok s" "last_id (data s) < i"
  obtains idx where "binary_search entry_id (entries (data s)) i = NotFound idx"
proof (cases "binary_search entry_id (entries (data s)) i")
  case (Found idx)
  from bs.found [OF stream_okD(1) [OF assms(1)] this] have "i \<in> entry_id ` set (entries (data s))" by auto
  then have "i \<le> last_id (data s)" using stream_okD(2) [OF assms(1)] by auto
  with assms(2) show ?thesis by simp
qed (rule that)

lemma add_with_id_ok [wf_intros]:
  assumes "stream_ok s"
  shows "stream_ok (fst (add_with_id i fvs s))"
proof (cases "last_id (data s) < i")
  case True
  then obtain idx where "binary_search entry_id (entries (data s)) i = NotFound idx"
    using add_with_id_not_found [OF assms] by blast
  then show ?thesis using True append_entry_ok [OF assms True _ refl refl, of "millis i" "seq i" fvs]
    by (simp add: add_with_id_def Let_def not_le [symmetric])
next
  case False
  then show ?thesis using assms by (simp add: add_with_id_def not_less)
qed

lemma drain_front_ok: "stream_ok s \<Longrightarrow> n \<le> length (entries (data s)) \<Longrightarrow> stream_ok (drain_front n s)"
proof -
  assume s: "stream_ok s" and n: "n \<le> length (entries (data s))"
  let ?es = "entries (data s)"
  have "entries_size ?es = entries_size (take n ?es) + entries_size (drop n ?es)"
    unfolding entries_size_def by (metis append_take_drop_id map_append sum_list_append)
  moreover have "sorted_by entry_id (drop n ?es)"
    using stream_okD(1) [OF s] by (simp add: drop_map [symmetric] sorted_wrt_drop)
  moreover have "\<forall>e \<in> set (drop n ?es). entry_id e \<le> last_id (data s)"
    using stream_okD(2) [OF s] in_set_dropD by fast
  ultimately show ?thesis using s n
    by (simp add: stream_ok_def drain_front_def Let_def entries_size_def of_nat_diff)
qed

lemma trim_by_count_ok [wf_intros]: "stream_ok s \<Longrightarrow> stream_ok (fst (trim_by_count n s))"
  by (simp add: trim_by_count_def Let_def drain_front_ok)

lemma trim_by_min_id_ok [wf_intros]: "stream_ok s \<Longrightarrow> stream_ok (fst (trim_by_min_id i s))"
  using bs.index_split [OF stream_okD(1), of s i] by (simp add: trim_by_min_id_def Let_def drain_front_ok)

lemma clear_stream_ok [wf_intros]: "stream_ok (clear_stream s)"
  by (simp add: stream_ok_def clear_stream_def new_stream_data_def entries_size_def)

section \<open>Deletion\<close>

lemma sorted_at:
  assumes "sorted_by key xs" "i < length xs"
  shows "\<forall>x \<in> set (take i xs @ drop (Suc i) xs). key x \<noteq> key (xs ! i)"
proof -
  have "map key xs = map key (take i xs @ xs ! i # drop (Suc i) xs)"
    using id_take_nth_drop [OF assms(2)] by metis
  then have "distinct (map key (take i xs @ xs ! i # drop (Suc i) xs))"
    using sorted_distinct [OF assms(1)] by metis
  then have "key (xs ! i) \<notin> key ` set (take i xs)" "key (xs ! i) \<notin> key ` set (drop (Suc i) xs)" by simp_all
  then show ?thesis by (metis UnE imageI set_append)
qed

lemma entries_size_append [simp]: "entries_size (xs @ ys) = entries_size xs + entries_size ys"
  "entries_size (x # ys) = calculate_entry_size x + entries_size ys" "entries_size [] = 0"
  by (simp_all add: entries_size_def)

lemma delete_loop_spec:
  assumes "sorted_by entry_id es" "distinct ids"
  shows "delete_loop ids es n m = (filter (\<lambda>e. entry_id e \<notin> set ids) es,
      n + length (filter (\<lambda>e. entry_id e \<in> set ids) es),
      m + entries_size (filter (\<lambda>e. entry_id e \<in> set ids) es))"
  using assms
proof (induction ids arbitrary: es n m)
  case (Cons i ids)
  show ?case
  proof (cases "binary_search entry_id es i")
    case (NotFound idx)
    then have "i \<notin> entry_id ` set es" using bs.search_Found_iff [OF Cons.prems(1), of i] by simp
    then have "filter (\<lambda>e. entry_id e \<notin> set (i # ids)) es = filter (\<lambda>e. entry_id e \<notin> set ids) es"
      "filter (\<lambda>e. entry_id e \<in> set (i # ids)) es = filter (\<lambda>e. entry_id e \<in> set ids) es"
      by (auto intro!: filter_cong)
    then show ?thesis using Cons NotFound by simp
  next
    case (Found idx)
    from bs.found [OF Cons.prems(1) this] have idx: "idx < length es" "entry_id (es ! idx) = i" by auto
    let ?A = "take idx es" and ?B = "drop (Suc idx) es"
    have es: "es = ?A @ es ! idx # ?B" using id_take_nth_drop [OF idx(1)] .
    have ne: "\<forall>e \<in> set (?A @ ?B). entry_id e \<noteq> i" using sorted_at [OF Cons.prems(1) idx(1)] idx(2) by simp
    have other: "filter (\<lambda>e. entry_id e \<notin> set (i # ids)) xs = filter (\<lambda>e. entry_id e \<notin> set ids) xs"
      "filter (\<lambda>e. entry_id e \<in> set (i # ids)) xs = filter (\<lambda>e. entry_id e \<in> set ids) xs"
      if "\<forall>e \<in> set xs. entry_id e \<noteq> i" for xs using that by (auto intro: filter_cong)
    have keep: "filter (\<lambda>e. entry_id e \<notin> set (i # ids)) (?A @ es ! idx # ?B) = filter (\<lambda>e. entry_id e \<notin> set ids) (?A @ ?B)"
      and gone: "filter (\<lambda>e. entry_id e \<in> set (i # ids)) (?A @ es ! idx # ?B)
        = filter (\<lambda>e. entry_id e \<in> set ids) ?A @ es ! idx # filter (\<lambda>e. entry_id e \<in> set ids) ?B"
      using other [of ?A] other [of ?B] ne idx(2) by simp_all
    have s: "sorted_by entry_id (?A @ ?B)"
    proof -
      have "sorted_wrt (<) (map entry_id ?A @ entry_id (es ! idx) # map entry_id ?B)"
        using Cons.prems(1) es by (metis list.simps(9) map_append)
      then show ?thesis by (simp add: sorted_wrt_append)
    qed
    have "delete_loop (i # ids) es n m = delete_loop ids (?A @ ?B) (n + 1) (m + calculate_entry_size (es ! idx))"
      using Found by simp
    also have "\<dots> = (filter (\<lambda>e. entry_id e \<notin> set (i # ids)) (?A @ es ! idx # ?B),
      n + length (filter (\<lambda>e. entry_id e \<in> set (i # ids)) (?A @ es ! idx # ?B)),
      m + entries_size (filter (\<lambda>e. entry_id e \<in> set (i # ids)) (?A @ es ! idx # ?B)))"
      unfolding keep gone using Cons.IH [OF s] Cons.prems(2) by simp
    finally show ?thesis using es by simp
  qed
qed simp

lemma set_sorted_ids [simp]: "set (rev (remdups_adj (sort ids))) = set ids"
  by simp

lemma distinct_sorted_ids: "distinct (rev (remdups_adj (sort (ids :: 'a::linorder list))))"
proof -
  have "distinct (remdups_adj xs)" if "sorted xs" for xs :: "'a list"
    using that by (induction xs rule: remdups_adj.induct) (auto dest: antisym)
  then show ?thesis by simp
qed

lemma entries_size_partition:
  "entries_size es = entries_size (filter P es) + entries_size (filter (\<lambda>e. \<not> P e) es)"
  by (induction es) (simp_all add: algebra_simps)

lemma stream_delete_spec:
  assumes "stream_ok s"
  shows "entries (data (fst (stream_delete ids s))) = filter (\<lambda>e. entry_id e \<notin> set ids) (entries (data s))"
    and "snd (stream_delete ids s) = length (filter (\<lambda>e. entry_id e \<in> set ids) (entries (data s)))"
    and "stream_ok (fst (stream_delete ids s))"
proof -
  let ?es = "entries (data s)"
  let ?in = "filter (\<lambda>e. entry_id e \<in> set ids) ?es" and ?out = "filter (\<lambda>e. entry_id e \<notin> set ids) ?es"
  note loop = delete_loop_spec [OF stream_okD(1) [OF assms] distinct_sorted_ids [of ids], of 0 0,
      unfolded set_sorted_ids]
  show "entries (data (fst (stream_delete ids s))) = ?out" "snd (stream_delete ids s) = length ?in"
    by (simp_all add: stream_delete_def Let_def loop)
  have size: "entries_size ?es = entries_size ?in + entries_size ?out"
    by (rule entries_size_partition)
  have len: "length ?es = length ?in + length ?out" by (simp add: sum_length_filter_compl)
  have none: "?in = [] \<Longrightarrow> ?out = ?es" by (simp add: filter_empty_conv filter_id_conv)
  have "sorted_by entry_id ?out" "\<forall>e \<in> set ?out. entry_id e \<le> last_id (data s)"
    using stream_okD [OF assms] by (simp_all add: sorted_wrt_map sorted_wrt_filter)
  then have ok: "stream_ok (s\<lparr>data := (data s)\<lparr>entries := ?out, data_memory := data_memory (data s) - entries_size ?in\<rparr>,
      stream_length := stream_length s - word_of_nat (length ?in), stream_memory := stream_memory s - entries_size ?in\<rparr>)"
    using assms size len by (simp add: stream_ok_def)
  show "stream_ok (fst (stream_delete ids s))"
  proof (cases "?in = []")
    case True
    then show ?thesis using none assms by (simp add: stream_delete_def Let_def loop)
  next
    case False
    then show ?thesis using ok by (simp add: stream_delete_def Let_def loop del: filter_empty_conv)
  qed
qed

section \<open>Ranges\<close>

text \<open>\<open>limit\<close> is the optional \<^verbatim>\<open>COUNT\<close> argument.\<close>

definition limit :: "nat option \<Rightarrow> 'a list \<Rightarrow> 'a list" where
  "limit count xs = (case count of None \<Rightarrow> xs | Some c \<Rightarrow> take c xs)"

text \<open>
  What the range query returns before the limit.  The second line is the intended answer; the first
  is the case of a range that ends before the first entry, where the code returns that entry.
\<close>

definition range_spec :: "stream_id \<Rightarrow> stream_id \<Rightarrow> stream_entry list \<Rightarrow> stream_entry list" where
  "range_spec start stop es =
     (if es \<noteq> [] \<and> start \<le> entry_id (hd es) \<and> stop < entry_id (hd es) then [hd es]
      else filter (\<lambda>e. start \<le> entry_id e \<and> entry_id e \<le> stop) es)"

lemma collect_range_spec:
  "\<forall>i \<in> set is. i < length es \<Longrightarrow>
   collect_range es count is result =
     result @ (case count of None \<Rightarrow> map ((!) es) is | Some c \<Rightarrow> take (c - length result) (map ((!) es) is))"
proof (induction "is" arbitrary: result)
  case (Cons i "is")
  show ?case
  proof (cases count)
    case None
    then show ?thesis using Cons by simp
  next
    case (Some c)
    show ?thesis
    proof (cases "c \<le> length result")
      case True
      then show ?thesis using Some by simp
    next
      case False
      then have "c - length result = Suc (c - Suc (length result))" by simp
      then show ?thesis using Cons False Some by simp
    qed
  qed
qed (simp split: option.split)

lemma map_nth_upt: "b \<le> length xs \<Longrightarrow> map ((!) xs) [a..<b] = drop a (take b xs)"
  by (rule nth_equalityI) (auto simp: nth_append)

lemma drop_take_filter:
  assumes "take a xs = filter (\<lambda>x. \<not> P x) xs" "drop a xs = filter P xs" "take b xs = filter Q xs"
  shows "drop a (take b xs) = filter (\<lambda>x. P x \<and> Q x) xs"
proof -
  have "filter P (take a xs) = []" "filter P (drop a xs) = drop a xs" using assms(1,2) by simp_all
  then have n: "\<forall>x \<in> set (take a xs). \<not> P x" and p: "\<forall>x \<in> set (drop a xs). P x"
    by (simp_all add: filter_empty_conv filter_id_conv)
  have "take b xs = take b (take a xs) @ take (b - a) (drop a xs)"
    by (metis append_take_drop_id length_take min.commute take_append take_take drop_take
        append_Nil2 diff_is_0_eq' nat_le_linear take_add)
  then have "filter P (take b xs) = filter P (take b (take a xs)) @ filter P (take (b - a) (drop a xs))"
    by (metis filter_append)
  also have "filter P (take b (take a xs)) = []" 
    using n set_take_subset [of b "take a xs"] by (auto simp: filter_empty_conv simp del: take_take)
  also have "filter P (take (b - a) (drop a xs)) = take (b - a) (drop a xs)"
    using p by (auto simp: filter_id_conv dest: in_set_takeD)
  finally have "drop a (take b xs) = filter P (take b xs)" by (simp add: drop_take)
  then show ?thesis using assms(3) by (simp add: conj_commute)
qed

lemma sorted_around:
  assumes "sorted_by key xs" "i < length xs"
  shows "\<forall>x \<in> set (take (Suc i) xs). key x \<le> key (xs ! i)" "\<forall>x \<in> set (drop (Suc i) xs). key (xs ! i) < key x"
proof -
  have s: "key (xs ! a) < key (xs ! b)" if "a < b" "b < length xs" for a b
    using sorted_wrt_nth_less [OF assms(1), of a b] that by simp
  show "\<forall>x \<in> set (take (Suc i) xs). key x \<le> key (xs ! i)"
    using s [of _ i] assms(2) by (fastforce simp: in_set_conv_nth less_Suc_eq less_imp_le)
  show "\<forall>x \<in> set (drop (Suc i) xs). key (xs ! i) < key x"
    using s [of i] by (auto simp: in_set_conv_nth)
qed

lemma end_index:
  fixes stop :: stream_id
  assumes "sorted_by entry_id es" "es \<noteq> []"
  defines "j \<equiv> (case binary_search entry_id es stop of
      Found idx \<Rightarrow> idx | NotFound idx \<Rightarrow> if idx > 0 then idx - 1 else 0)"
  shows "j < length es" "entry_id (hd es) \<le> stop \<Longrightarrow> take (Suc j) es = filter (\<lambda>e. entry_id e \<le> stop) es"
    "stop < entry_id (hd es) \<Longrightarrow> j = 0"
proof -
  have hd: "entry_id (hd es) \<le> entry_id e" if "e \<in> set es" for e
    using assms(1,2) that by (cases es) (auto simp: less_imp_le)
  have "j < length es \<and> (entry_id (hd es) \<le> stop \<longrightarrow> take (Suc j) es = filter (\<lambda>e. entry_id e \<le> stop) es)
      \<and> (stop < entry_id (hd es) \<longrightarrow> j = 0)"
  proof (cases "binary_search entry_id es stop")
    case (Found i)
    from bs.found [OF assms(1) this] have i: "i < length es" "entry_id (es ! i) = stop" by auto
    have "take (Suc i) es = filter (\<lambda>e. entry_id e \<le> stop) (take (Suc i) es @ drop (Suc i) es)"
      using sorted_around [OF assms(1) i(1)] i(2)
      by (simp add: filter_id_conv filter_empty_conv not_le del: append_take_drop_id)
    moreover have "entry_id (hd es) \<le> stop" using hd [of "es ! i"] i by auto
    ultimately show ?thesis using Found i(1) by (auto simp: j_def)
  next
    case (NotFound i)
    from bs.not_found [OF assms(1) this] have i: "i \<le> length es"
      and b: "\<forall>k < i. entry_id (es ! k) < stop" "\<forall>k < length es. i \<le> k \<longrightarrow> stop < entry_id (es ! k)" by auto
    have "\<forall>e \<in> set (take i es). entry_id e \<le> stop" "\<forall>e \<in> set (drop i es). \<not> entry_id e \<le> stop"
      using b i by (auto simp: in_set_conv_nth less_imp_le not_le)
    then have "filter (\<lambda>e. entry_id e \<le> stop) (take i es @ drop i es) = take i es"
      by (simp add: filter_id_conv filter_empty_conv del: append_take_drop_id)
    moreover have "i = 0 \<longleftrightarrow> stop < entry_id (hd es)"
      using b assms(2) by (metis hd_conv_nth length_greater_0_conv less_asym neq0_conv zero_le)
    ultimately show ?thesis using NotFound i assms(2)
      by (cases i) (auto simp: j_def not_less [symmetric])
  qed
  then show "j < length es" "entry_id (hd es) \<le> stop \<Longrightarrow> take (Suc j) es = filter (\<lambda>e. entry_id e \<le> stop) es"
    "stop < entry_id (hd es) \<Longrightarrow> j = 0" by blast+
qed

lemma range_data_spec:
  assumes "sorted_by entry_id (entries d)"
  shows "range_data start stop count reverse d =
    limit count ((if reverse then rev else (\<lambda>xs. xs)) (range_spec start stop (entries d)))"
proof (cases "entries d = []")
  case True
  have "collect_range [] count is [] = []" for "is" by (induction "is") auto
  then show ?thesis using True by (simp add: range_data_def Let_def limit_def range_spec_def split: option.split)
next
  case False
  let ?es = "entries d"
  define a where "a = search_index (binary_search entry_id ?es start)"
  define j where "j = (case binary_search entry_id ?es stop of
      Found idx \<Rightarrow> idx | NotFound idx \<Rightarrow> if idx > 0 then idx - 1 else 0)"
  note j = end_index [OF assms False, of stop, folded j_def]
  have ta: "take a ?es = filter (\<lambda>e. \<not> start \<le> entry_id e) ?es" "drop a ?es = filter (\<lambda>e. start \<le> entry_id e) ?es"
    using bs.take_index [OF assms, of start] by (simp_all add: a_def not_le)
  have "drop a (take (Suc j) ?es) = range_spec start stop ?es"
  proof (cases "entry_id (hd ?es) \<le> stop")
    case True
    then show ?thesis using drop_take_filter [OF ta j(2)] by (simp add: range_spec_def not_less [symmetric])
  next
    case gt: False
    then have "j = 0" using j(3) by simp
    moreover have "a = 0 \<longleftrightarrow> start \<le> entry_id (hd ?es)"
      using ta(1) False by (cases ?es; cases a) (auto simp: Cons_eq_filter_iff split: if_splits)
    moreover have "\<not> entry_id e \<le> stop" if "e \<in> set ?es" for e
      using that assms False gt by (cases ?es) (auto dest!: less_imp_le)
    ultimately show ?thesis using gt False
      by (cases ?es; cases a) (auto simp: range_spec_def filter_empty_conv not_le [symmetric])
  qed
  then have idxs: "map ((!) ?es) [a..<Suc j] = range_spec start stop ?es" using j(1) by (simp add: map_nth_upt del: upt_Suc)
  have "min j (length ?es - 1) = j" using j(1) by simp
  then have "range_data start stop count reverse d = collect_range ?es count (if reverse then rev [a..<Suc j] else [a..<Suc j]) []"
    by (simp add: range_data_def Let_def a_def [symmetric] j_def [symmetric] del: upt_Suc)
  also have "\<dots> = limit count (map ((!) ?es) (if reverse then rev [a..<Suc j] else [a..<Suc j]))"
    using j(1) by (subst collect_range_spec) (auto simp: limit_def simp del: upt_Suc split: option.split)
  finally show ?thesis by (simp add: idxs rev_map [symmetric] del: upt_Suc)
qed

lemma collect_after_spec:
  "collect_after es c is result = result @ take (c - length result) (map ((!) es) is)"
proof (induction "is" arbitrary: result)
  case (Cons i "is")
  show ?case
  proof (cases "c \<le> length result")
    case False
    then have "c - length result = Suc (c - Suc (length result))" by simp
    then show ?thesis using Cons False by simp
  qed simp
qed simp

lemma range_after_spec:
  assumes "sorted_by entry_id (entries d)"
  shows "range_after_data after count d = limit count (filter (\<lambda>e. after < entry_id e) (entries d))"
proof -
  let ?es = "entries d"
  define a where "a = (case binary_search entry_id ?es after of Found idx \<Rightarrow> idx + 1 | NotFound idx \<Rightarrow> idx)"
  have "drop a ?es = filter (\<lambda>e. after < entry_id e) ?es"
  proof (cases "binary_search entry_id ?es after")
    case (Found i)
    from bs.found [OF assms this] have i: "i < length ?es" "entry_id (?es ! i) = after" by auto
    have "filter (\<lambda>e. after < entry_id e) (take (Suc i) ?es @ drop (Suc i) ?es) = drop (Suc i) ?es"
      using sorted_around [OF assms i(1)] i(2)
      by (simp add: filter_id_conv filter_empty_conv not_less del: append_take_drop_id)
    then show ?thesis using Found by (simp add: a_def)
  next
    case (NotFound i)
    then have "drop a ?es = filter (\<lambda>e. after \<le> entry_id e) ?es"
      using bs.take_index [OF assms, of after] by (simp add: a_def)
    moreover have "after \<notin> entry_id ` set ?es" using bs.search_Found_iff [OF assms, of after] NotFound by simp
    ultimately show ?thesis by (auto intro: filter_cong simp: order.order_iff_strict)
  qed
  moreover have "map ((!) ?es) [a..<length ?es] = drop a ?es" by (simp add: map_nth_upt)
  ultimately show ?thesis
    by (auto simp: range_after_data_def Let_def a_def [symmetric] collect_after_spec limit_def
        split: option.split intro!: take_all le_trans [OF length_filter_le])
qed

lemma find_entry_spec:
  assumes "stream_ok s"
  shows "find_entry s i = List.find (\<lambda>e. entry_id e = i) (entries (data s))"
proof (cases "binary_search entry_id (entries (data s)) i")
  case (NotFound idx)
  then have "i \<notin> entry_id ` set (entries (data s))"
    using bs.search_Found_iff [OF stream_okD(1) [OF assms], of i] by simp
  then show ?thesis using NotFound by (auto simp: find_entry_def find_None_iff2)
next
  case (Found idx)
  from bs.found [OF stream_okD(1) [OF assms] this]
  have i: "idx < length (entries (data s))" "entry_id (entries (data s) ! idx) = i" by auto
  have "entry_id (entries (data s) ! k) \<noteq> i" if "k < idx" for k
    using sorted_wrt_nth_less [OF stream_okD(1) [OF assms], of k idx] that i by simp
  then have "List.find (\<lambda>e. entry_id e = i) (entries (data s)) = Some (entries (data s) ! idx)"
    using i unfolding find_Some_iff by (intro exI [of _ idx]) auto
  then show ?thesis using Found by (simp add: find_entry_def)
qed

section \<open>Reading through a group\<close>

lemma range_after_fresh:
  assumes "stream_ok s"
  shows "fresh_entries g (range_after_data (last_delivered_id g) count (data s))"
proof -
  let ?es = "filter (\<lambda>e. last_delivered_id g < entry_id e) (entries (data s))"
  have "sorted_by entry_id ?es" using stream_okD(1) [OF assms] by (simp add: sorted_wrt_map sorted_wrt_filter)
  then have "sorted_by entry_id (limit count ?es)"
    by (cases count) (simp_all only: limit_def option.case take_map [symmetric] sorted_wrt_take)
  moreover have "\<forall>e \<in> set (limit count ?es). last_delivered_id g < entry_id e"
    by (cases count) (auto simp: limit_def dest: in_set_takeD)
  ultimately show ?thesis unfolding fresh_entries_def range_after_spec [OF stream_okD(1) [OF assms]] by blast
qed

definition groups_ok :: "stream \<Rightarrow> bool" where
  "groups_ok s \<longleftrightarrow> (\<forall>n g. map_of (consumer_groups s) n = Some g \<longrightarrow> group_ok g)"

lemma groups_ok_put [wf_intros]: "groups_ok s \<Longrightarrow> group_ok g \<Longrightarrow> groups_ok (put_group n g s)"
  by (simp add: groups_ok_def put_group_def)

lemma stream_ok_put [simp]: "stream_ok (put_group n g s) = stream_ok s"
  by (simp add: stream_ok_def put_group_def)

lemma stream_ok_groups [simp]: "stream_ok (s\<lparr>consumer_groups := m\<rparr>) = stream_ok s"
  by (simp add: stream_ok_def)

lemma add_pending_entries [simp]: "snd (add_pending clock c es g) = es"
  by (simp add: add_pending_def Let_def)

section \<open>Properties of streams\<close>

text \<open>The operations that change a stream's entries.\<close>

inductive stream_step :: "stream \<Rightarrow> stream \<Rightarrow> bool" where
  add_auto: "last_id_seq s \<noteq> - 1 \<Longrightarrow> stream_step s (fst (add_auto now ok1 ok2 fvs s))"
| add_with_id: "stream_step s (fst (add_with_id i fvs s))"
| trim_count: "stream_step s (fst (trim_by_count n s))"
| trim_min: "stream_step s (fst (trim_by_min_id i s))"
| delete: "stream_step s (fst (stream_delete ids s))"
| clear: "stream_step s (clear_stream s)"

inductive stream_reachable :: "stream \<Rightarrow> bool" where
  new: "stream_reachable new_stream"
| step: "stream_reachable s \<Longrightarrow> stream_step s s' \<Longrightarrow> stream_reachable s'"

lemma stream_step_ok: "stream_step s s' \<Longrightarrow> stream_ok s \<Longrightarrow> stream_ok s'"
  by (induction rule: stream_step.induct) (auto intro: wf_intros stream_delete_spec)



text \<open>
  An entry added with an automatic identifier gets one greater than every identifier the stream
  ever issued, however often the clock stands still or the weak compare-exchange fails; the new entry
  is the last one and nothing else changes in the vector.
\<close>

theorem add_auto_monotonic:
  assumes "stream_ok s" and "last_id_seq s \<noteq> - 1" and "add_auto now ok1 ok2 fvs s = (s', i)"
  shows "last_id (data s) < i \<and> (\<forall>e \<in> set (entries (data s)). entry_id e < i) \<and> last_id (data s') = i \<and>
    entries (data s') = entries (data s) @ [\<lparr>entry_id = i, entry_fields = fvs\<rparr>]"
proof -
  have "last_id (data s) < i" using add_auto_ok(2) [OF assms(1,2), of now ok1 ok2 fvs] assms(3) by simp
  then show ?thesis using assms(3) stream_okD(2) [OF assms(1)] le_less_trans
    by (auto simp: add_auto_def Let_def split: prod.splits)
qed

theorem add_auto_monotonic_witness:
  "last_id (data new_stream) < new_id 5 0 \<and>
   last_id (data (fst (add_auto 5 True True [] new_stream))) = new_id 5 0 \<and>
   entries (data (fst (add_auto 5 True True [] new_stream)))
     = entries (data new_stream) @ [\<lparr>entry_id = new_id 5 0, entry_fields = []\<rparr>]"
proof -
  have "add_auto 5 True True [] new_stream = (fst (add_auto 5 True True [] new_stream), new_id 5 0)"
    by (simp add: add_auto_def new_stream_def generate_next_atomic_def Let_def)
  from add_auto_monotonic [OF new_stream_ok _ this] show ?thesis by (simp add: new_stream_def)
qed

text \<open>
  An explicit identifier is accepted exactly when it is greater than the last one; a rejected
  addition changes nothing.
\<close>

theorem add_with_id_exact:
  assumes "stream_ok s"
  shows "if last_id (data s) < i
    then snd (add_with_id i fvs s) = Inr () \<and> last_id (data (fst (add_with_id i fvs s))) = i \<and>
      entries (data (fst (add_with_id i fvs s))) = entries (data s) @ [\<lparr>entry_id = i, entry_fields = fvs\<rparr>]
    else fst (add_with_id i fvs s) = s \<and> isl (snd (add_with_id i fvs s))"
proof (cases "last_id (data s) < i")
  case True
  then obtain idx where "binary_search entry_id (entries (data s)) i = NotFound idx"
    using add_with_id_not_found [OF assms] by blast
  then show ?thesis using True by (simp add: add_with_id_def Let_def not_le [symmetric])
next
  case False
  then show ?thesis by (simp add: add_with_id_def not_less)
qed

theorem add_with_id_exact_witness: "snd (add_with_id (new_id 3 4) [] new_stream) = Inr ()"
  using add_with_id_exact [OF new_stream_ok, of "new_id 3 4" "[]"]
  by (simp add: new_stream_def new_stream_data_def new_id_less)

text \<open>
  The binary-search based range query returns, forwards or backwards and cut to the count, the
  entries with identifiers between the two bounds, with one exception: a range that starts at or
  before the first entry and ends before it returns the first entry instead of nothing.
\<close>

theorem stream_range_exact:
  assumes "stream_ok s"
  shows "stream_range start stop count reverse s =
    limit count ((if reverse then rev else (\<lambda>xs. xs)) (range_spec start stop (entries (data s))))"
  unfolding stream_range_def by (rule range_data_spec [OF stream_okD(1) [OF assms]])

theorem stream_range_exact_witness:
  "stream_range (new_id 1 0) (new_id 2 0) None False (fst (add_with_id (new_id 5 0) [] new_stream))
     = [\<lparr>entry_id = new_id 5 0, entry_fields = []\<rparr>]"
proof -
  have "stream_ok (fst (add_with_id (new_id 5 0) [] new_stream))" by (intro wf_intros)
  moreover have "entries (data (fst (add_with_id (new_id 5 0) [] new_stream)))
      = [\<lparr>entry_id = new_id 5 0, entry_fields = []\<rparr>]" by code_simp
  ultimately show ?thesis using stream_range_exact
    by (simp add: range_spec_def limit_def new_id_less less_imp_le)
qed

text \<open>
  The entries after an identifier, which is what \<^verbatim>\<open>XREAD\<close> and group reads use, are exactly
  the ones with a greater identifier, oldest first, cut to the count.
\<close>

theorem stream_range_after_exact:
  assumes "stream_ok s"
  shows "stream_range_after after count s = limit count (filter (\<lambda>e. after < entry_id e) (entries (data s)))"
  unfolding stream_range_after_def by (rule range_after_spec [OF stream_okD(1) [OF assms]])

theorem stream_range_after_exact_witness: "stream_range_after (new_id 1 0) None new_stream = []"
  using stream_range_after_exact [OF new_stream_ok, of "new_id 1 0" None]
  by (simp add: new_stream_def new_stream_data_def limit_def)

text \<open>
  Deletion removes exactly the entries with the listed identifiers, whatever the order and the
  repetitions of the list, and returns their number; trimming by count keeps the newest entries and
  trimming by identifier keeps the entries not below it.
\<close>

theorem removals_exact:
  assumes "stream_ok s"
  shows "entries (data (fst (stream_delete ids s))) = filter (\<lambda>e. entry_id e \<notin> set ids) (entries (data s)) \<and>
    snd (stream_delete ids s) = length (filter (\<lambda>e. entry_id e \<in> set ids) (entries (data s))) \<and>
    entries (data (fst (trim_by_count n s))) = drop (length (entries (data s)) - n) (entries (data s)) \<and>
    entries (data (fst (trim_by_min_id i s))) = filter (\<lambda>e. i \<le> entry_id e) (entries (data s))"
proof -
  have "entries (data (fst (trim_by_min_id i s))) = filter (\<lambda>e. i \<le> entry_id e) (entries (data s))"
    using bs.take_index(2) [OF stream_okD(1) [OF assms], of i]
    by (auto simp: trim_by_min_id_def Let_def drain_front_def)
  then show ?thesis using stream_delete_spec [OF assms]
    by (simp add: trim_by_count_def Let_def drain_front_def)
qed

theorem removals_exact_witness: "snd (stream_delete [new_id 1 1] new_stream) = 0"
  using removals_exact [OF new_stream_ok, of "[new_id 1 1]"] by (simp add: new_stream_def new_stream_data_def)

text \<open>
  A group read of new entries hands over the entries beyond the group's last delivered
  identifier and records each of them as pending for the consumer, keeping the group consistent.
\<close>

theorem read_group_new:
  assumes "stream_ok s" and "groups_ok s" and "get_group name (consumer_groups s) = Some g"
    and "read_group clock name c max_id count False s = (s', r)"
  shows "r = Inr (limit count (filter (\<lambda>e. last_delivered_id g < entry_id e) (entries (data s)))) \<and>
    groups_ok s' \<and> stream_ok s'"
proof -
  let ?es = "range_after_data (last_delivered_id g) count (data s)"
  have g: "group_ok g" using assms(2,3) by (simp add: groups_ok_def get_group_def)
  have es: "?es = limit count (filter (\<lambda>e. last_delivered_id g < entry_id e) (entries (data s)))"
    by (rule range_after_spec [OF stream_okD(1) [OF assms(1)]])
  note ok = add_pending_ok [OF g range_after_fresh [OF assms(1)], of clock c count]
  show ?thesis using assms ok add_pending_entries [of clock c ?es g]
    by (auto simp: read_group_def Let_def es [symmetric] split_beta intro!: wf_intros split: if_splits)
qed

theorem read_group_new_witness:
  "\<exists>s' r. read_group (\<lambda>n. n) ''g'' ''c'' max_id None False (fst (create_consumer_group 0 ''g'' (new_id 0 0) new_stream))
     = (s', r) \<and> r = Inr [] \<and> groups_ok s'"
proof -
  let ?s = "fst (create_consumer_group 0 ''g'' (new_id 0 0) new_stream)"
  have s: "?s = new_stream\<lparr>consumer_groups := [(''g'', new_group 0 ''g'' (new_id 0 0))]\<rparr>"
    by (simp add: create_consumer_group_def create_group_def new_stream_def)
  obtain s' r where e: "read_group (\<lambda>n. n) ''g'' ''c'' max_id None False ?s = (s', r)" by fastforce
  have "stream_ok ?s" by (simp add: s new_stream_ok)
  moreover have "groups_ok ?s" by (simp add: s groups_ok_def new_group_ok)
  moreover have "get_group ''g'' (consumer_groups ?s) = Some (new_group 0 ''g'' (new_id 0 0))"
    "entries (data ?s) = []" unfolding s by (simp_all add: get_group_def new_stream_def new_stream_data_def)
  ultimately show ?thesis using read_group_new [OF _ _ _ e] e by (auto simp: limit_def)
qed

text \<open>
  Reading with \<^verbatim>\<open>NOACK\<close> leaves the stream and its groups as they were, so the same entries are
  handed out again by the next such read: the group's position does not advance.
\<close>

theorem read_group_noack_repeats:
  "fst (read_group clock name c after count True s) = s"
  by (simp add: read_group_def Let_def split: option.split)

text \<open>
  When the sequence counter is at its maximum and the clock does not move on, the next automatic
  identifier wraps to sequence 0 and is smaller than the last one.
\<close>

theorem sequence_overflow_goes_back:
  "now \<le> m \<Longrightarrow> fst (generate_next_atomic now ok1 ok2 (m, - 1)) = new_id m 0 \<and>
     fst (generate_next_atomic now ok1 ok2 (m, - 1)) < new_id m (- 1)"
  by (simp add: generate_next_atomic_def new_id_less word_gt_0 not_less [symmetric])

theorem sequence_overflow_goes_back_witness:
  "fst (generate_next_atomic 3 True True (7, - 1)) < new_id 7 (- 1)"
  by (rule conjunct2 [OF sequence_overflow_goes_back]) simp

end
