(* ===== verification/Floats.thy ===== *)
theory Floats
  imports Prelude
begin

text \<open>
  The comparison of \<^verbatim>\<open>f64\<close> values, exactly, on their bit patterns: a value is a NaN or has a place on
  the number line, given by its sign bit and the remaining 63 bits read as a magnitude (IEEE 754
  formats are ordered that way; the two zeros have the same place).  Arithmetic and the text form
  of \<^verbatim>\<open>f64\<close> are parameters of the definitions that use them.
\<close>

datatype ordering = Less | Equal | Greater

definition cmp :: "'a::linorder \<Rightarrow> 'a \<Rightarrow> ordering" where
  "cmp a b = (if a < b then Less else if a = b then Equal else Greater)"

definition f64_magnitude :: "f64 \<Rightarrow> int" where
  "f64_magnitude x = uint x mod 9223372036854775808"

definition f64_negative :: "f64 \<Rightarrow> bool" where
  "f64_negative x \<longleftrightarrow> 9223372036854775808 \<le> uint x"

text \<open>Exponent all ones and a non-zero fraction: above the magnitude of infinity.\<close>

definition is_nan_f64 :: "f64 \<Rightarrow> bool" where
  "is_nan_f64 x \<longleftrightarrow> f64_magnitude x > 0x7FF0000000000000"

definition f64_place :: "f64 \<Rightarrow> int" where
  "f64_place x = (if f64_negative x then - f64_magnitude x else f64_magnitude x)"

definition partial_cmp :: "f64 \<Rightarrow> f64 \<Rightarrow> ordering option" where
  "partial_cmp a b = (if is_nan_f64 a \<or> is_nan_f64 b then None else Some (cmp (f64_place a) (f64_place b)))"

definition f64_lt :: "f64 \<Rightarrow> f64 \<Rightarrow> bool" where
  "f64_lt a b \<longleftrightarrow> partial_cmp a b = Some Less"

definition f64_le :: "f64 \<Rightarrow> f64 \<Rightarrow> bool" where
  "f64_le a b \<longleftrightarrow> partial_cmp a b = Some Less \<or> partial_cmp a b = Some Equal"

definition f64_eq :: "f64 \<Rightarrow> f64 \<Rightarrow> bool" where
  "f64_eq a b \<longleftrightarrow> partial_cmp a b = Some Equal"

lemma cmp_simps [simp]: "cmp a b = Less \<longleftrightarrow> a < b" "cmp a b = Equal \<longleftrightarrow> a = b" "cmp a b = Greater \<longleftrightarrow> b < a"
  by (auto simp: cmp_def)

lemma cmp_cases: "(case cmp a b of Less \<Rightarrow> x | Equal \<Rightarrow> y | Greater \<Rightarrow> z) = (if a < b then x else if a = b then y else z)"
  by (simp add: cmp_def)

text \<open>
  The order of the sorted sets: NaN values are placed after all others.
\<close>

definition f64_rank :: "f64 \<Rightarrow> int" where
  "f64_rank x = (if is_nan_f64 x then 9223372036854775808 else f64_place x)"

lemma f64_place_bound: "f64_place x < 9223372036854775808"
proof -
  have "0 \<le> f64_magnitude x" "f64_magnitude x < 9223372036854775808" by (simp_all add: f64_magnitude_def)
  then show ?thesis by (simp add: f64_place_def)
qed

lemma f64_rank_nan: "\<not> is_nan_f64 x \<Longrightarrow> f64_rank x < 9223372036854775808"
  by (simp add: f64_rank_def f64_place_bound)

lemma f64_compare:
  "\<not> is_nan_f64 a \<Longrightarrow> \<not> is_nan_f64 b \<Longrightarrow> f64_lt a b \<longleftrightarrow> f64_rank a < f64_rank b"
  "\<not> is_nan_f64 a \<Longrightarrow> \<not> is_nan_f64 b \<Longrightarrow> f64_le a b \<longleftrightarrow> f64_rank a \<le> f64_rank b"
  "\<not> is_nan_f64 a \<Longrightarrow> \<not> is_nan_f64 b \<Longrightarrow> f64_eq a b \<longleftrightarrow> f64_rank a = f64_rank b"
  by (auto simp: f64_lt_def f64_le_def f64_eq_def partial_cmp_def f64_rank_def)

lemma f64_nan_incomparable:
  "is_nan_f64 a \<or> is_nan_f64 b \<Longrightarrow> \<not> f64_lt a b \<and> \<not> f64_le a b \<and> \<not> f64_eq a b"
  by (auto simp: f64_lt_def f64_le_def f64_eq_def partial_cmp_def)

end
