(* ===== verification/Skip_List.thy ===== *)
theory Skip_List
  imports Floats "HOL-Library.Monad_Syntax" "HOL-Library.Product_Lexorder"
begin

text \<open>
  The skip list behind sorted sets (\<^verbatim>\<open>src/storage/skiplist.rs\<close>), with its raw pointers: a heap maps
  addresses to nodes, each with a vector of forward pointers, and address 0 is the sentinel head.
  An operation returns \<open>None\<close> when it would dereference a dangling pointer, index a forward vector
  out of range or never end, so that \<open>Some\<close> is memory safety and termination.
  The random level of a new node is an argument; \<open>random_level\<close> computes it from coin flips.
\<close>

section \<open>Data\<close>

record skip_node =
  node_key :: bytes
  node_value :: f64
  forward :: "nat option list"

type_synonym node_heap = "nat \<Rightarrow> skip_node option"

record skip_list =
  heap :: node_heap
  next_addr :: nat
  level :: nat
  sl_length :: nat
  sl_memory :: u64
  key_index :: "(bytes \<times> f64) list"

definition MAX_LEVEL :: nat where "MAX_LEVEL = 32"

definition calculate_node_size :: "nat \<Rightarrow> u64" where
  "calculate_node_size levels = (24 + 8 + 24) + word_of_nat levels * 16"

definition new_skip_list :: skip_list where
  "new_skip_list =
     \<lparr>heap = [0 \<mapsto> \<lparr>node_key = [], node_value = 0, forward = replicate MAX_LEVEL None\<rparr>],
      next_addr = 1, level = 0, sl_length = 0, sl_memory = calculate_node_size MAX_LEVEL, key_index = []\<rparr>"

section \<open>Comparison\<close>

definition compare_nodes :: "f64 \<Rightarrow> bytes \<Rightarrow> f64 \<Rightarrow> bytes \<Rightarrow> ordering" where
  "compare_nodes v1 k1 v2 k2 =
     (case partial_cmp v1 v2 of
        Some Equal \<Rightarrow> cmp k1 k2
      | Some ord \<Rightarrow> ord
      | None \<Rightarrow>
          if is_nan_f64 v1 \<and> is_nan_f64 v2 then cmp k1 k2
          else if is_nan_f64 v1 then Greater else Less)"

definition compare_with_query :: "f64 \<Rightarrow> bytes \<Rightarrow> skip_node \<Rightarrow> ordering" where
  "compare_with_query query_value query_key n = compare_nodes (node_value n) (node_key n) query_value query_key"

section \<open>Pointers\<close>

definition get_fwd :: "node_heap \<Rightarrow> nat \<Rightarrow> nat \<Rightarrow> nat option option" where
  "get_fwd h a i = do { n \<leftarrow> h a; if i < length (forward n) then Some (forward n ! i) else None }"

definition set_fwd :: "nat \<Rightarrow> nat \<Rightarrow> nat option \<Rightarrow> node_heap \<Rightarrow> node_heap option" where
  "set_fwd a i p h =
     do { n \<leftarrow> h a;
          if i < length (forward n) then Some (h(a \<mapsto> n\<lparr>forward := (forward n)[i := p]\<rparr>)) else None }"

text \<open>One level of a search: advance while the next node is less.\<close>

partial_function (option) walk :: "(skip_node \<Rightarrow> bool) \<Rightarrow> node_heap \<Rightarrow> nat \<Rightarrow> nat \<Rightarrow> nat option" where
  "walk lt h i current =
     do { nxt \<leftarrow> get_fwd h current i;
          (case nxt of
             None \<Rightarrow> Some current
           | Some a \<Rightarrow> do { n \<leftarrow> h a; if lt n then walk lt h i a else Some current }) }"

fun descend :: "(skip_node \<Rightarrow> bool) \<Rightarrow> node_heap \<Rightarrow> nat \<Rightarrow> nat \<Rightarrow> nat option list \<Rightarrow> (nat \<times> nat option list) option" where
  "descend lt h i current update =
     do { c \<leftarrow> walk lt h i current;
          (case i of
             0 \<Rightarrow> Some (c, update[i := Some c])
           | Suc j \<Rightarrow> descend lt h j c (update[i := Some c])) }"

declare descend.simps [simp del]

section \<open>Insertion\<close>

fun random_level :: "bool list \<Rightarrow> nat \<Rightarrow> nat" where
  "random_level [] l = l"
| "random_level (promote # coins) l =
     (if l < MAX_LEVEL - 1 \<and> promote then random_level coins (l + 1) else l)"

fun link_levels :: "nat list \<Rightarrow> nat option list \<Rightarrow> nat \<Rightarrow> node_heap \<Rightarrow> node_heap option" where
  "link_levels [] update new_node h = Some h"
| "link_levels (i # is) update new_node h =
     do { u \<leftarrow> update ! i;
          p \<leftarrow> get_fwd h u i;
          h1 \<leftarrow> set_fwd new_node i p h;
          h2 \<leftarrow> set_fwd u i (Some new_node) h1;
          link_levels is update new_node h2 }"

definition insert_new_node :: "nat \<Rightarrow> bytes \<Rightarrow> f64 \<Rightarrow> skip_list \<Rightarrow> skip_list option" where
  "insert_new_node new_level k v s =
     do { (_, update0) \<leftarrow> descend (\<lambda>n. compare_with_query v k n = Less) (heap s) (level s) 0
            (replicate MAX_LEVEL None);
          (let update = (if new_level > level s
               then map (\<lambda>i. if level s < i \<and> i \<le> new_level then Some 0 else update0 ! i) [0..<length update0]
               else update0);
               a = next_addr s;
               node = \<lparr>node_key = k, node_value = v, forward = replicate (new_level + 1) None\<rparr>
           in do { h \<leftarrow> link_levels [0..<Suc new_level] update a ((heap s)(a \<mapsto> node));
                   Some (s\<lparr>heap := h, next_addr := a + 1, level := max new_level (level s),
                           sl_length := sl_length s + 1,
                           sl_memory := sl_memory s + calculate_node_size (new_level + 1)\<rparr>) }) }"

section \<open>Removal\<close>

fun unlink_levels :: "nat list \<Rightarrow> nat option list \<Rightarrow> nat \<Rightarrow> node_heap \<Rightarrow> node_heap option" where
  "unlink_levels [] update target h = Some h"
| "unlink_levels (i # is) update target h =
     do { u \<leftarrow> update ! i;
          p \<leftarrow> get_fwd h u i;
          (case p of
             None \<Rightarrow> unlink_levels is update target h
           | Some nxt \<Rightarrow>
               if nxt = target then
                 do { q \<leftarrow> get_fwd h target i; h1 \<leftarrow> set_fwd u i q h; unlink_levels is update target h1 }
               else Some h) }"

fun shrink_level :: "node_heap \<Rightarrow> nat \<Rightarrow> nat option" where
  "shrink_level h 0 = Some 0"
| "shrink_level h (Suc l) =
     do { p \<leftarrow> get_fwd h 0 (Suc l); if p = None then shrink_level h l else Some (Suc l) }"

definition remove_node_by_score :: "bytes \<Rightarrow> f64 \<Rightarrow> skip_list \<Rightarrow> skip_list option" where
  "remove_node_by_score k score s =
     do { (current, update) \<leftarrow> descend (\<lambda>n. compare_with_query score k n = Less) (heap s) (level s) 0
            (replicate MAX_LEVEL None);
          t \<leftarrow> get_fwd (heap s) current 0;
          (case t of
             None \<Rightarrow> Some s
           | Some target \<Rightarrow>
               do { n \<leftarrow> heap s target;
                    if node_key n = k \<and> f64_eq (node_value n) score then
                      do { h \<leftarrow> unlink_levels [0..<Suc (level s)] update target (heap s);
                           l \<leftarrow> shrink_level h (level s);
                           Some (s\<lparr>heap := h(target := None), level := l, sl_length := sl_length s - 1,
                                   sl_memory := sl_memory s - calculate_node_size (length (forward n))\<rparr>) }
                    else Some s }) }"

section \<open>The public operations\<close>

definition sl_insert :: "nat \<Rightarrow> bytes \<Rightarrow> f64 \<Rightarrow> skip_list \<Rightarrow> (skip_list \<times> f64 option) option" where
  "sl_insert new_level k v s =
     (case map_of (key_index s) k of
        Some old_value \<Rightarrow>
          do { s1 \<leftarrow> remove_node_by_score k old_value s;
               s2 \<leftarrow> insert_new_node new_level k v (s1\<lparr>key_index := AList.update k v (key_index s1)\<rparr>);
               Some (s2, Some old_value) }
      | None \<Rightarrow>
          do { s2 \<leftarrow> insert_new_node new_level k v (s\<lparr>key_index := AList.update k v (key_index s)\<rparr>);
               Some (s2, None) })"

definition sl_remove :: "bytes \<Rightarrow> skip_list \<Rightarrow> (skip_list \<times> f64 option) option" where
  "sl_remove k s =
     (case map_of (key_index s) k of
        None \<Rightarrow> Some (s, None)
      | Some score \<Rightarrow>
          do { s1 \<leftarrow> remove_node_by_score k score (s\<lparr>key_index := AList.delete k (key_index s)\<rparr>);
               Some (s1, Some score) })"

definition get_score :: "bytes \<Rightarrow> skip_list \<Rightarrow> f64 option" where
  "get_score k s = map_of (key_index s) k"

partial_function (option) rank_loop :: "bytes \<Rightarrow> f64 \<Rightarrow> node_heap \<Rightarrow> nat \<Rightarrow> nat \<Rightarrow> nat option option" where
  "rank_loop k score h current rank =
     do { nxt \<leftarrow> get_fwd h current 0;
          (case nxt of
             None \<Rightarrow> Some None
           | Some a \<Rightarrow>
               do { n \<leftarrow> h a;
                    (case compare_with_query score k n of
                       Less \<Rightarrow> rank_loop k score h a (rank + 1)
                     | Equal \<Rightarrow> Some (Some rank)
                     | Greater \<Rightarrow> Some None) }) }"

definition get_rank :: "bytes \<Rightarrow> skip_list \<Rightarrow> nat option option" where
  "get_rank k s =
     (case map_of (key_index s) k of None \<Rightarrow> Some None | Some score \<Rightarrow> rank_loop k score (heap s) 0 0)"

fun by_rank :: "node_heap \<Rightarrow> nat \<Rightarrow> nat \<Rightarrow> (bytes \<times> f64) option option" where
  "by_rank h current to_go =
     do { nxt \<leftarrow> get_fwd h current 0;
          (case nxt of
             None \<Rightarrow> Some None
           | Some a \<Rightarrow>
               (case to_go of
                  0 \<Rightarrow> do { n \<leftarrow> h a; Some (Some (node_key n, node_value n)) }
                | Suc r \<Rightarrow> by_rank h a r)) }"

declare by_rank.simps [simp del]

definition get_by_rank :: "nat \<Rightarrow> skip_list \<Rightarrow> (bytes \<times> f64) option option" where
  "get_by_rank rank s = (if rank \<ge> sl_length s then Some None else by_rank (heap s) 0 rank)"

fun skip_ranks :: "node_heap \<Rightarrow> nat \<Rightarrow> nat \<Rightarrow> nat \<Rightarrow> (nat \<times> nat) option" where
  "skip_ranks h current rank 0 = Some (current, rank)"
| "skip_ranks h current rank (Suc to_go) =
     do { nxt \<leftarrow> get_fwd h current 0;
          (case nxt of None \<Rightarrow> Some (current, rank) | Some a \<Rightarrow> skip_ranks h a (rank + 1) to_go) }"

fun take_ranks :: "node_heap \<Rightarrow> nat \<Rightarrow> nat \<Rightarrow> (bytes \<times> f64) list \<Rightarrow> (bytes \<times> f64) list option" where
  "take_ranks h current 0 items = Some items"
| "take_ranks h current (Suc to_go) items =
     do { nxt \<leftarrow> get_fwd h current 0;
          (case nxt of
             None \<Rightarrow> Some items
           | Some a \<Rightarrow> do { n \<leftarrow> h a; take_ranks h a to_go (items @ [(node_key n, node_value n)]) }) }"

definition range_by_rank :: "nat \<Rightarrow> nat \<Rightarrow> skip_list \<Rightarrow> (bytes \<times> f64) list option" where
  "range_by_rank start_rank end_rank s =
     (if start_rank \<ge> sl_length s then Some []
      else do { (current, rank) \<leftarrow> skip_ranks (heap s) 0 0 start_rank;
                take_ranks (heap s) current (min (Suc end_rank) (sl_length s) - rank) [] })"

partial_function (option) take_while_from ::
  "(skip_node \<Rightarrow> bool) \<Rightarrow> node_heap \<Rightarrow> nat \<Rightarrow> (bytes \<times> f64) list \<Rightarrow> (bytes \<times> f64) list option" where
  "take_while_from P h current items =
     do { n \<leftarrow> h current;
          if P n then
            do { nxt \<leftarrow> get_fwd h current 0;
                 (case nxt of
                    None \<Rightarrow> Some (items @ [(node_key n, node_value n)])
                  | Some a \<Rightarrow> take_while_from P h a (items @ [(node_key n, node_value n)])) }
          else Some items }"

definition range_by_score :: "f64 \<Rightarrow> f64 \<Rightarrow> skip_list \<Rightarrow> (bytes \<times> f64) list option" where
  "range_by_score min_score max_score s =
     do { (current, _) \<leftarrow> descend (\<lambda>n. f64_lt (node_value n) min_score) (heap s) (level s) 0
            (replicate MAX_LEVEL None);
          nxt \<leftarrow> get_fwd (heap s) current 0;
          (case nxt of
             None \<Rightarrow> Some []
           | Some a \<Rightarrow> take_while_from (\<lambda>n. f64_le (node_value n) max_score) (heap s) a []) }"

definition get_all_items :: "skip_list \<Rightarrow> (bytes \<times> f64) list option" where
  "get_all_items s =
     do { nxt \<leftarrow> get_fwd (heap s) 0 0;
          (case nxt of None \<Rightarrow> Some [] | Some a \<Rightarrow> take_while_from (\<lambda>n. True) (heap s) a []) }"

definition sl_len :: "skip_list \<Rightarrow> nat" where
  "sl_len s = sl_length s"

declare walk.simps [code] rank_loop.simps [code] take_while_from.simps [code]

end
