(* ===== verification/Skip_List_Correct.thy ===== *)
theory Skip_List_Correct
  imports Skip_List
begin

text \<open>
  The skip list refines a list of members sorted by score and name.  The invariant says, for every
  level, that the chain of forward pointers runs through exactly the nodes of that height, in the
  order of the list; from it follow memory safety, termination and the result of every operation.
\<close>

section \<open>Chains\<close>

definition next_ptr :: "node_heap \<Rightarrow> nat \<Rightarrow> nat \<Rightarrow> nat option" where
  "next_ptr h i a = (case h a of None \<Rightarrow> None | Some n \<Rightarrow> if i < length (forward n) then forward n ! i else None)"

definition height :: "node_heap \<Rightarrow> nat \<Rightarrow> nat" where
  "height h a = (case h a of None \<Rightarrow> 0 | Some n \<Rightarrow> length (forward n))"

definition content :: "node_heap \<Rightarrow> nat \<Rightarrow> bytes \<times> f64" where
  "content h a = (case h a of None \<Rightarrow> ([], 0) | Some n \<Rightarrow> (node_key n, node_value n))"

fun chain :: "(nat \<Rightarrow> nat option) \<Rightarrow> nat option \<Rightarrow> nat list \<Rightarrow> bool" where
  "chain f p [] = (p = None)"
| "chain f p (a # as) = (p = Some a \<and> chain f (f a) as)"

lemma chain_cong: "(\<And>a. a \<in> set as \<Longrightarrow> f a = g a) \<Longrightarrow> chain f p as = chain g p as"
  by (induction as arbitrary: p) auto

lemma chain_suffix: "chain f p (xs @ a # ys) \<Longrightarrow> chain f (f a) ys"
  by (induction xs arbitrary: p) auto

lemma chain_last: "chain f (f z) (A @ B) \<Longrightarrow> chain f (f (last (z # A))) B"
  by (induction A arbitrary: z) auto

lemma chain_insert:
  assumes "chain f (f z) (A @ B)" "distinct (z # A @ B)" "new \<notin> set (z # A @ B)"
  shows "chain (f(new := f (last (z # A)), last (z # A) := Some new)) ((f(new := f (last (z # A)), last (z # A) := Some new)) z) (A @ new # B)"
  using assms
proof (induction A arbitrary: z)
  case Nil
  then show ?case by (auto intro!: chain_cong [THEN iffD1, of B f])
next
  case (Cons a A)
  then have "z \<noteq> last (a # A)" by (metis Un_iff distinct.simps(2) last_in_set list.distinct(1) set_append append_Cons)
  with Cons show ?case by auto
qed

lemma chain_remove:
  assumes "chain f (f z) (A @ t # B)" "distinct (z # A @ t # B)"
  shows "chain (f(last (z # A) := f t)) ((f(last (z # A) := f t)) z) (A @ B)"
  using assms
proof (induction A arbitrary: z)
  case Nil
  then show ?case by (auto intro!: chain_cong [THEN iffD1, of B f])
next
  case (Cons a A)
  then have "z \<noteq> last (a # A)" by (metis Un_iff distinct.simps(2) last_in_set list.distinct(1) set_append append_Cons)
  with Cons show ?case by auto
qed

section \<open>Reading and writing pointers\<close>

lemma get_fwd_Some: "i < height h a \<Longrightarrow> get_fwd h a i = Some (next_ptr h i a)"
  by (auto simp: get_fwd_def height_def next_ptr_def split: option.splits)

lemma height_pos: "i < height h a \<Longrightarrow> \<exists>n. h a = Some n \<and> i < length (forward n)"
  by (auto simp: height_def split: option.splits)

lemma set_fwd_Some:
  assumes "i < height h a"
  shows "\<exists>h'. set_fwd a i p h = Some h' \<and> height h' = height h \<and> content h' = content h \<and>
    (\<forall>b. h' b = None \<longleftrightarrow> h b = None) \<and>
    (\<forall>j. next_ptr h' j = (if j = i then (next_ptr h i)(a := p) else next_ptr h j))"
proof -
  obtain n where n: "h a = Some n" "i < length (forward n)" using height_pos [OF assms] by blast
  then show ?thesis
    by (intro exI [of _ "h(a \<mapsto> n\<lparr>forward := (forward n)[i := p]\<rparr>)"])
      (auto simp: set_fwd_def height_def content_def next_ptr_def fun_eq_iff nth_list_update)
qed

lemma walk_chain:
  assumes "i < height h cur" "chain (next_ptr h i) (next_ptr h i cur) (us @ vs)"
    and "\<forall>a \<in> set us. i < height h a \<and> lt (the (h a))"
    and "vs \<noteq> [] \<Longrightarrow> 0 < height h (hd vs) \<and> \<not> lt (the (h (hd vs)))"
  shows "walk lt h i cur = Some (last (cur # us))"
  using assms
proof (induction us arbitrary: cur)
  case Nil
  then show ?case
    by (cases vs) (auto simp: walk.simps [of lt h i cur] get_fwd_Some dest: height_pos)
next
  case (Cons a us)
  then have "i < height h a" "lt (the (h a))" by auto
  moreover from this obtain n where "h a = Some n" using height_pos by blast
  ultimately show ?case using Cons by (simp add: walk.simps [of lt h i cur] get_fwd_Some)
qed

section \<open>The level structure\<close>

definition at_level :: "node_heap \<Rightarrow> nat \<Rightarrow> nat list \<Rightarrow> nat list" where
  "at_level h i ns = filter (\<lambda>a. i < height h a) ns"

definition lists_ok :: "node_heap \<Rightarrow> nat list \<Rightarrow> bool" where
  "lists_ok h ns \<longleftrightarrow> height h 0 = MAX_LEVEL \<and> distinct (0 # ns) \<and> (\<forall>a \<in> set ns. 0 < height h a) \<and>
     (\<forall>i < MAX_LEVEL. chain (next_ptr h i) (next_ptr h i 0) (at_level h i ns))"

lemma at_level_append [simp]:
  "at_level h i (xs @ ys) = at_level h i xs @ at_level h i ys"
  "at_level h i [] = []"
  "at_level h i (a # xs) = (if i < height h a then a # at_level h i xs else at_level h i xs)"
  by (simp_all add: at_level_def)

lemma at_level_0: "\<forall>a \<in> set ns. 0 < height h a \<Longrightarrow> at_level h 0 ns = ns"
  by (simp add: at_level_def filter_id_conv)

lemma set_at_level [simp]: "set (at_level h i ns) = {a \<in> set ns. i < height h a}"
  by (auto simp: at_level_def)

lemma walk_level:
  assumes ok: "lists_ok h (L @ R)" and i: "i < MAX_LEVEL"
    and L: "\<forall>a \<in> set L. lt (the (h a))" and R: "\<forall>a \<in> set R. \<not> lt (the (h a))"
    and cur: "cur \<in> set (0 # at_level h i L)"
  shows "walk lt h i cur = Some (last (0 # at_level h i L))"
proof -
  have c: "chain (next_ptr h i) (next_ptr h i 0) (at_level h i L @ at_level h i R)"
    and pos: "\<forall>a \<in> set (L @ R). 0 < height h a" and h0: "i < height h 0"
    using ok i by (simp_all add: lists_ok_def)
  have R': "at_level h i R \<noteq> [] \<Longrightarrow> 0 < height h (hd (at_level h i R)) \<and> \<not> lt (the (h (hd (at_level h i R))))"
    using R hd_in_set [of "at_level h i R"] by auto
  show ?thesis
  proof (cases "cur = 0")
    case True
    then show ?thesis 
      using walk_chain [of i h 0 "at_level h i L" "at_level h i R" lt] h0 c R' L by auto
  next
    case False
    then obtain pre us where s: "at_level h i L = pre @ cur # us" using cur by (auto dest: split_list)
    have "chain (next_ptr h i) (next_ptr h i cur) (us @ at_level h i R)"
      using chain_suffix [of "next_ptr h i" _ pre cur "us @ at_level h i R"] c s by simp
    moreover have "set (pre @ cur # us) = {a \<in> set L. i < height h a}" using s set_at_level [of h i L] by simp
    ultimately have "walk lt h i cur = Some (last (cur # us))"
      using L R' by (intro walk_chain [where vs = "at_level h i R"]) auto
    then show ?thesis using s by simp
  qed
qed

lemma descend_spec:
  assumes ok: "lists_ok h (L @ R)"
    and L: "\<forall>a \<in> set L. lt (the (h a))" and R: "\<forall>a \<in> set R. \<not> lt (the (h a))"
  shows "i < MAX_LEVEL \<Longrightarrow> cur \<in> set (0 # at_level h i L) \<Longrightarrow> length upd = MAX_LEVEL \<Longrightarrow>
    \<exists>upd'. descend lt h i cur upd = Some (last (0 # L), upd') \<and> length upd' = MAX_LEVEL \<and>
      (\<forall>j < MAX_LEVEL. upd' ! j = (if j \<le> i then Some (last (0 # at_level h j L)) else upd ! j))"
proof (induction i arbitrary: cur upd)
  case 0
  have "at_level h 0 L = L" using ok by (intro at_level_0) (simp add: lists_ok_def)
  then show ?case using walk_level [OF ok 0(1) L R 0(2)] 0(3)
    by (simp add: descend.simps [of lt h 0] nth_list_update)
next
  case (Suc i)
  let ?c = "last (0 # at_level h (Suc i) L)"
  have "?c \<in> set (0 # at_level h (Suc i) L)" by (rule last_in_set) simp
  then have "?c \<in> set (0 # at_level h i L)" by (auto simp: Suc_lessD)
  from Suc.IH [OF _ this, of "upd[Suc i := Some ?c]"] Suc.prems
  obtain upd' where u: "descend lt h i ?c (upd[Suc i := Some ?c]) = Some (last (0 # L), upd')"
    "length upd' = MAX_LEVEL"
    "\<forall>j < MAX_LEVEL. upd' ! j = (if j \<le> i then Some (last (0 # at_level h j L)) else upd[Suc i := Some ?c] ! j)"
    by auto
  have "descend lt h (Suc i) cur upd = descend lt h i ?c (upd[Suc i := Some ?c])"
    using walk_level [OF ok Suc.prems(1) L R Suc.prems(2)] by (simp add: descend.simps [of lt h "Suc i"])
  moreover have "upd' ! j = (if j \<le> Suc i then Some (last (0 # at_level h j L)) else upd ! j)" if "j < MAX_LEVEL" for j
    using u(3) that Suc.prems(3) by (auto simp: nth_list_update le_Suc_eq)
  ultimately show ?case using u(1,2) by auto
qed

section \<open>Linking and unlinking a node\<close>

lemma link_levels_spec:
  assumes "distinct is" "\<forall>i \<in> set is. upd ! i = Some (u i) \<and> u i \<noteq> new \<and> i < height h (u i) \<and> i < height h new"
  shows "\<exists>h'. link_levels is upd new h = Some h' \<and> height h' = height h \<and> content h' = content h \<and>
    (\<forall>b. h' b = None \<longleftrightarrow> h b = None) \<and>
    (\<forall>i. next_ptr h' i = (if i \<in> set is then (next_ptr h i)(new := next_ptr h i (u i), u i := Some new)
                      else next_ptr h i))"
  using assms
proof (induction "is" arbitrary: h)
  case (Cons i "is")
  then have i: "upd ! i = Some (u i)" "u i \<noteq> new" "i < height h (u i)" "i < height h new" "i \<notin> set is" by auto
  obtain h1 where h1: "set_fwd new i (next_ptr h i (u i)) h = Some h1" "height h1 = height h" "content h1 = content h"
    "\<forall>b. h1 b = None \<longleftrightarrow> h b = None"
    "\<forall>j. next_ptr h1 j = (if j = i then (next_ptr h i)(new := next_ptr h i (u i)) else next_ptr h j)"
    using set_fwd_Some [OF i(4), of "next_ptr h i (u i)"] by blast
  have i': "i < height h1 (u i)" using i(3) h1(2) by simp
  obtain h2 where h2: "set_fwd (u i) i (Some new) h1 = Some h2" "height h2 = height h1" "content h2 = content h1"
    "\<forall>b. h2 b = None \<longleftrightarrow> h1 b = None"
    "\<forall>j. next_ptr h2 j = (if j = i then (next_ptr h1 i)(u i := Some new) else next_ptr h1 j)"
    using set_fwd_Some [OF i', of "Some new"] by blast
  have "\<forall>j \<in> set is. upd ! j = Some (u j) \<and> u j \<noteq> new \<and> j < height h2 (u j) \<and> j < height h2 new"
    using Cons.prems(2) h1(2) h2(2) by auto
  from Cons.IH [OF _ this] Cons.prems(1) obtain h' where h': "link_levels is upd new h2 = Some h'"
    "height h' = height h2" "content h' = content h2" "\<forall>b. h' b = None \<longleftrightarrow> h2 b = None"
    "\<forall>j. next_ptr h' j = (if j \<in> set is then (next_ptr h2 j)(new := next_ptr h2 j (u j), u j := Some new) else next_ptr h2 j)"
    by auto
  have "link_levels (i # is) upd new h = Some h'" using i h1(1) h2(1) h'(1) by (simp add: get_fwd_Some)
  moreover have "next_ptr h' j = (if j \<in> set (i # is) then (next_ptr h j)(new := next_ptr h j (u j), u j := Some new)
      else next_ptr h j)" for j
    using h'(5) h2(5) h1(5) i(5) by (cases "j = i") auto
  ultimately show ?case using h1 h2 h' by (intro exI [of _ h']) simp
qed auto

lemma unlink_levels_spec:
  assumes "sorted is" "distinct is"
    "\<forall>i \<in> set is. upd ! i = Some (u i) \<and> i < height h (u i) \<and> (next_ptr h i (u i) = Some t \<longleftrightarrow> i < height h t)"
  shows "\<exists>h'. unlink_levels is upd t h = Some h' \<and> height h' = height h \<and> content h' = content h \<and>
    (\<forall>b. h' b = None \<longleftrightarrow> h b = None) \<and>
    (\<forall>i. next_ptr h' i = (if i \<in> set is \<and> i < height h t then (next_ptr h i)(u i := next_ptr h i t) else next_ptr h i))"
  using assms
proof (induction "is" arbitrary: h)
  case (Cons i "is")
  then have i: "upd ! i = Some (u i)" "i < height h (u i)" "next_ptr h i (u i) = Some t \<longleftrightarrow> i < height h t" "i \<notin> set is"
    by auto
  show ?case
  proof (cases "i < height h t")
    case True
    obtain h1 where h1: "set_fwd (u i) i (next_ptr h i t) h = Some h1" "height h1 = height h" "content h1 = content h"
      "\<forall>b. h1 b = None \<longleftrightarrow> h b = None"
      "\<forall>j. next_ptr h1 j = (if j = i then (next_ptr h i)(u i := next_ptr h i t) else next_ptr h j)"
      using set_fwd_Some [OF i(2), of "next_ptr h i t"] by blast
    have "\<forall>j \<in> set is. upd ! j = Some (u j) \<and> j < height h1 (u j) \<and> (next_ptr h1 j (u j) = Some t \<longleftrightarrow> j < height h1 t)"
      using Cons.prems(3) h1(2,5) i(4) by auto
    from Cons.IH [OF _ _ this] Cons.prems(1,2) obtain h' where h': "unlink_levels is upd t h1 = Some h'"
      "height h' = height h1" "content h' = content h1" "\<forall>b. h' b = None \<longleftrightarrow> h1 b = None"
      "\<forall>j. next_ptr h' j = (if j \<in> set is \<and> j < height h1 t then (next_ptr h1 j)(u j := next_ptr h1 j t) else next_ptr h1 j)"
      by auto
    have "unlink_levels (i # is) upd t h = Some h'" using True i h1(1) h'(1) by (simp add: get_fwd_Some)
    moreover have "next_ptr h' j = (if j \<in> set (i # is) \<and> j < height h t then (next_ptr h j)(u j := next_ptr h j t)
        else next_ptr h j)" for j
      using h'(5) h1(2,5) i(4) True by (cases "j = i") auto
    ultimately show ?thesis using h1 h' by (intro exI [of _ h']) simp
  next
    case False
    then have no: "next_ptr h i (u i) \<noteq> Some t" "\<forall>j \<in> set is. \<not> j < height h t" using i(3) Cons.prems(1) by auto
    show ?thesis
    proof (cases "next_ptr h i (u i)")
      case None
      then have "unlink_levels (i # is) upd t h = unlink_levels is upd t h" using i by (simp add: get_fwd_Some)
      moreover obtain h' where h': "unlink_levels is upd t h = Some h'" "height h' = height h" "content h' = content h"
        "\<forall>b. h' b = None \<longleftrightarrow> h b = None"
        "\<forall>j. next_ptr h' j = (if j \<in> set is \<and> j < height h t then (next_ptr h j)(u j := next_ptr h j t) else next_ptr h j)"
        using Cons.IH [of h] Cons.prems by auto
      ultimately show ?thesis using False by (intro exI [of _ h']) auto
    next
      case (Some b)
      then have "unlink_levels (i # is) upd t h = Some h" using i no by (simp add: get_fwd_Some)
      then show ?thesis using False no by (intro exI [of _ h]) auto
    qed
  qed
qed auto

lemma shrink_level_spec:
  assumes "\<forall>j \<le> l. j < height h 0"
  shows "\<exists>l'. shrink_level h l = Some l' \<and> l' \<le> l \<and> (\<forall>j. l' < j \<and> j \<le> l \<longrightarrow> next_ptr h j 0 = None)"
  using assms
proof (induction l)
  case (Suc l)
  then have "get_fwd h 0 (Suc l) = Some (next_ptr h (Suc l) 0)" by (intro get_fwd_Some) auto
  moreover obtain l' where "shrink_level h l = Some l'" "l' \<le> l" "\<forall>j. l' < j \<and> j \<le> l \<longrightarrow> next_ptr h j 0 = None"
    using Suc by auto
  ultimately show ?case by (auto simp: le_Suc_eq)
qed auto

section \<open>The invariant\<close>

definition member_ord :: "bytes \<times> f64 \<Rightarrow> int \<times> bytes" where
  "member_ord m = (f64_rank (snd m), fst m)"

definition items_of :: "skip_list \<Rightarrow> nat list \<Rightarrow> (bytes \<times> f64) list" where
  "items_of s ns = map (content (heap s)) ns"

definition nodes_ok :: "skip_list \<Rightarrow> nat list \<Rightarrow> bool" where
  "nodes_ok s ns \<longleftrightarrow> lists_ok (heap s) ns \<and> level s < MAX_LEVEL \<and>
     (\<forall>a \<in> set ns. height (heap s) a \<le> Suc (level s)) \<and>
     sorted_wrt (<) (map member_ord (items_of s ns)) \<and>
     distinct (map fst (items_of s ns)) \<and>
     (\<forall>m \<in> set (items_of s ns). \<not> is_nan_f64 (snd m)) \<and>
     (\<forall>a \<ge> next_addr s. heap s a = None) \<and> 0 < next_addr s \<and>
     sl_length s = length ns \<and>
     sl_memory s = calculate_node_size MAX_LEVEL + sum_list (map (calculate_node_size \<circ> height (heap s)) ns)"

lemma compare_with_query_ord:
  assumes "h a = Some n" shows "compare_with_query v k n = cmp (member_ord (content h a)) (member_ord (k, v))"
  using assms f64_place_bound [of "node_value n"] f64_place_bound [of v]
  by (auto simp: compare_with_query_def compare_nodes_def partial_cmp_def f64_rank_def content_def member_ord_def
      cmp_def split: option.split ordering.split)

lemma new_skip_list_ok: "nodes_ok new_skip_list []"
  by (auto simp: nodes_ok_def new_skip_list_def lists_ok_def items_of_def height_def next_ptr_def MAX_LEVEL_def)

text \<open>A member splits the nodes into those before it and the rest.\<close>

lemma sorted_split:
  assumes "sorted_wrt (<) (map f ns)"
  obtains L R where "ns = L @ R" "\<forall>a \<in> set L. f a < (x :: 'a::linorder)" "\<forall>a \<in> set R. \<not> f a < x"
proof -
  have "\<exists>L R. ns = L @ R \<and> (\<forall>a \<in> set L. f a < x) \<and> (\<forall>a \<in> set R. \<not> f a < x)"
    using assms
  proof (induction ns)
    case (Cons n ns)
    show ?case
    proof (cases "f n < x")
      case True
      then show ?thesis using Cons by (metis append_Cons list.set_intros set_ConsD sorted_wrt.simps(2) list.simps(9))
    next
      case False
      then have "\<forall>a \<in> set (n # ns). \<not> f a < x" using Cons.prems by auto
      then show ?thesis by (intro exI [of _ "[]"] exI [of _ "n # ns"]) simp
    qed
  qed simp
  then show thesis using that by blast
qed

lemma nodes_okD:
  assumes "nodes_ok s ns"
  shows "lists_ok (heap s) ns" "level s < MAX_LEVEL" "a \<in> set ns \<Longrightarrow> height (heap s) a \<le> Suc (level s)"
    "a \<in> set ns \<Longrightarrow> 0 < height (heap s) a" "height (heap s) 0 = MAX_LEVEL" "distinct (0 # ns)"
    "sorted_wrt (<) (map (member_ord \<circ> content (heap s)) ns)" "heap s (next_addr s) = None"
    "a \<in> set (0 # ns) \<Longrightarrow> a < next_addr s"
proof -
  show "lists_ok (heap s) ns" "level s < MAX_LEVEL" "a \<in> set ns \<Longrightarrow> height (heap s) a \<le> Suc (level s)"
    "a \<in> set ns \<Longrightarrow> 0 < height (heap s) a" "height (heap s) 0 = MAX_LEVEL" "distinct (0 # ns)"
    "sorted_wrt (<) (map (member_ord \<circ> content (heap s)) ns)" "heap s (next_addr s) = None"
    using assms by (auto simp: nodes_ok_def lists_ok_def items_of_def)
  show "a < next_addr s" if "a \<in> set (0 # ns)"
  proof -
    have "0 < height (heap s) a" using assms that by (auto simp: nodes_ok_def lists_ok_def MAX_LEVEL_def)
    then show ?thesis using assms by (cases "next_addr s \<le> a") (auto simp: nodes_ok_def height_def)
  qed
qed

lemma search_spec:
  assumes ok: "nodes_ok s ns" and ns: "ns = L @ R"
    and L: "\<forall>a \<in> set L. member_ord (content (heap s) a) < member_ord (k, v)"
    and R: "\<forall>a \<in> set R. \<not> member_ord (content (heap s) a) < member_ord (k, v)"
  shows "\<exists>upd. descend (\<lambda>n. compare_with_query v k n = Less) (heap s) (level s) 0 (replicate MAX_LEVEL None)
      = Some (last (0 # L), upd) \<and> length upd = MAX_LEVEL \<and>
      (\<forall>j < MAX_LEVEL. upd ! j = (if j \<le> level s then Some (last (0 # at_level (heap s) j L)) else None))"
proof -
  have some: "\<exists>n. heap s a = Some n" if "a \<in> set ns" for a using nodes_okD(4) [OF ok that] height_pos by blast
  have "\<forall>a \<in> set L. compare_with_query v k (the (heap s a)) = Less"
    "\<forall>a \<in> set R. \<not> compare_with_query v k (the (heap s a)) = Less"
    using some ns L R compare_with_query_ord [of "heap s"] by fastforce+
  from descend_spec [OF nodes_okD(1) [OF ok, unfolded ns] this nodes_okD(2) [OF ok], of 0 "replicate MAX_LEVEL None"]
  show ?thesis by auto
qed

section \<open>Insertion\<close>

lemma last_at_level:
  assumes "lists_ok h (L @ R)" "i < MAX_LEVEL"
  shows "i < height h (last (0 # at_level h i L))" "last (0 # at_level h i L) \<in> set (0 # L)"
proof -
  have "last (0 # at_level h i L) \<in> set (0 # at_level h i L)" by (rule last_in_set) simp
  then show "i < height h (last (0 # at_level h i L))" "last (0 # at_level h i L) \<in> set (0 # L)"
    using assms by (auto simp: lists_ok_def)
qed

lemma at_level_cong: "(\<And>a. a \<in> set xs \<Longrightarrow> height h a = height h' a) \<Longrightarrow> at_level h i xs = at_level h' i xs"
  by (simp add: at_level_def cong: filter_cong)

lemma link_node:
  assumes ok: "lists_ok h (L @ R)" and a: "h a = None" "a \<noteq> 0" and nl: "nl < MAX_LEVEL"
    and upd: "\<forall>i \<le> nl. upd ! i = Some (last (0 # at_level h i L))"
    and node: "forward node = replicate (Suc nl) None"
  shows "\<exists>h'. link_levels [0..<Suc nl] upd a (h(a \<mapsto> node)) = Some h' \<and> lists_ok h' (L @ a # R) \<and>
    height h' = (height h)(a := Suc nl) \<and> content h' = (content h)(a := (node_key node, node_value node)) \<and>
    (\<forall>b. h' b = None \<longleftrightarrow> b \<noteq> a \<and> h b = None)"
proof -
  let ?h = "h(a \<mapsto> node)" and ?u = "\<lambda>i. last (0 # at_level h i L)"
  have "height h a = 0" using a by (simp add: height_def)
  then have ns: "a \<notin> set (0 # L @ R)" using ok a(2) by (force simp: lists_ok_def)
  have hh: "height ?h = (height h)(a := Suc nl)" "content ?h = (content h)(a := (node_key node, node_value node))"
    "next_ptr ?h i = (next_ptr h i)(a := None)" for i
    using node nth_replicate [of i "Suc nl" None]
    by (auto simp: fun_eq_iff height_def content_def next_ptr_def simp del: replicate_Suc nth_replicate)
  have "\<forall>i \<in> set [0..<Suc nl]. upd ! i = Some (?u i) \<and> ?u i \<noteq> a \<and> i < height ?h (?u i) \<and> i < height ?h a"
  proof
    fix i assume "i \<in> set [0..<Suc nl]"
    then have i: "i \<le> nl" "i < MAX_LEVEL" using nl by auto
    have "?u i \<noteq> a" using last_at_level(2) [OF ok i(2)] ns by auto
    then show "upd ! i = Some (?u i) \<and> ?u i \<noteq> a \<and> i < height ?h (?u i) \<and> i < height ?h a"
      using upd i last_at_level(1) [OF ok i(2)] by (simp add: hh del: last.simps)
  qed
  from link_levels_spec [OF _ this] obtain h' where h': "link_levels [0..<Suc nl] upd a ?h = Some h'"
    "height h' = height ?h" "content h' = content ?h" "\<forall>b. h' b = None \<longleftrightarrow> ?h b = None"
    "\<forall>i. next_ptr h' i = (if i \<in> set [0..<Suc nl] then (next_ptr ?h i)(a := next_ptr ?h i (?u i), ?u i := Some a) else next_ptr ?h i)"
    by auto
  have lev: "at_level h' i L = at_level h i L" "at_level h' i R = at_level h i R" for i
    using ns by (auto intro: at_level_cong simp: h'(2) hh)
  have c: "chain (next_ptr ?h i) (next_ptr ?h i 0) (at_level h i L @ at_level h i R)" if "i < MAX_LEVEL" for i
  proof -
    have "chain (next_ptr h i) (next_ptr h i 0) (at_level h i L @ at_level h i R)" using ok that by (simp add: lists_ok_def)
    moreover have "next_ptr ?h i 0 = next_ptr h i 0" using a by (simp add: hh)
    ultimately show ?thesis using ns by (subst chain_cong [of _ _ "next_ptr h i"]) (auto simp: hh)
  qed
  have "distinct (0 # at_level h i L @ at_level h i R)" "a \<notin> set (0 # at_level h i L @ at_level h i R)" for i
    using ok ns by (auto simp: lists_ok_def at_level_def)
  note ins = chain_insert [OF c this]
  have "chain (next_ptr h' i) (next_ptr h' i 0) (at_level h' i (L @ a # R))" if "i < MAX_LEVEL" for i
  proof (cases "i \<le> nl")
    case True
    then have "next_ptr h' i = (next_ptr ?h i)(a := next_ptr ?h i (?u i), ?u i := Some a)" using h'(5) by simp
    then show ?thesis using ins [OF that] True lev by (simp add: h'(2) hh del: last.simps)
  next
    case False
    then have "next_ptr h' i = next_ptr ?h i" using h'(5) by simp
    then show ?thesis using c [OF that] False lev by (simp add: h'(2) hh)
  qed
  then have "lists_ok h' (L @ a # R)" using ok ns a by (auto simp: lists_ok_def h'(2) hh)
  then show ?thesis using h' hh by (intro exI [of _ h']) auto
qed

lemma not_member_less:
  assumes "\<forall>a \<in> set R. \<not> member_ord (f a) < member_ord (k, v)" "k \<notin> fst ` f ` set R"
  shows "\<forall>a \<in> set R. member_ord (k, v) < member_ord (f a)"
proof
  fix a assume a: "a \<in> set R"
  then have "fst (f a) \<noteq> k" using assms(2) by force
  then have "member_ord (k, v) \<noteq> member_ord (f a)" by (auto simp: member_ord_def)
  then show "member_ord (k, v) < member_ord (f a)" using assms(1) a by force
qed

lemma insert_new_node_spec:
  assumes ok: "nodes_ok s (L @ R)" and nl: "nl < MAX_LEVEL" and v: "\<not> is_nan_f64 v"
    and L: "\<forall>a \<in> set L. member_ord (content (heap s) a) < member_ord (k, v)"
    and R: "\<forall>a \<in> set R. \<not> member_ord (content (heap s) a) < member_ord (k, v)"
    and k: "k \<notin> fst ` content (heap s) ` set (L @ R)"
  shows "\<exists>s' ns'. insert_new_node nl k v s = Some s' \<and> nodes_ok s' ns' \<and> key_index s' = key_index s \<and>
    items_of s' ns' = items_of s L @ (k, v) # items_of s R"
proof -
  let ?a = "next_addr s" and ?h = "heap s"
  let ?node = "\<lparr>node_key = k, node_value = v, forward = replicate (nl + 1) None\<rparr>"
  note d = nodes_okD [OF ok]
  obtain upd0 where upd0: "descend (\<lambda>n. compare_with_query v k n = Less) ?h (level s) 0 (replicate MAX_LEVEL None)
      = Some (last (0 # L), upd0)" "length upd0 = MAX_LEVEL"
      "\<forall>j < MAX_LEVEL. upd0 ! j = (if j \<le> level s then Some (last (0 # at_level ?h j L)) else None)"
    using search_spec [OF ok refl L R] by blast
  define upd where "upd = (if nl > level s
      then map (\<lambda>i. if level s < i \<and> i \<le> nl then Some 0 else upd0 ! i) [0..<length upd0] else upd0)"
  have "at_level ?h i L = []" if "level s < i" for i
    using d(3) that by (fastforce simp: at_level_def filter_empty_conv)
  then have "\<forall>i \<le> nl. upd ! i = Some (last (0 # at_level ?h i L))"
    using upd0(2,3) nl by (auto simp: upd_def)
  from link_node [OF d(1,8) _ nl this, of ?node] d(9) [of 0] obtain h' where
    h': "link_levels [0..<Suc nl] upd ?a (?h(?a \<mapsto> ?node)) = Some h'" "lists_ok h' (L @ ?a # R)"
    "height h' = (height ?h)(?a := Suc nl)" "content h' = (content ?h)(?a := (k, v))"
    "\<forall>b. h' b = None \<longleftrightarrow> b \<noteq> ?a \<and> ?h b = None" by auto
  let ?s = "s\<lparr>heap := h', next_addr := ?a + 1, level := max nl (level s), sl_length := sl_length s + 1,
      sl_memory := sl_memory s + calculate_node_size (nl + 1)\<rparr>"
  have a: "?a \<notin> set (L @ R)" using d(9) by fastforce
  have ins: "insert_new_node nl k v s = Some ?s"
    using upd0(1) h'(1) by (simp add: insert_new_node_def Let_def upd_def [symmetric] del: upt_Suc)
  have items: "items_of ?s (L @ ?a # R) = items_of s L @ (k, v) # items_of s R"
    using a by (simp add: items_of_def h'(4))
  have "\<forall>a \<in> set R. member_ord (k, v) < member_ord (content ?h a)"
    using not_member_less [OF R] k by (simp add: image_Un)
  then have "sorted_wrt (<) (map member_ord (items_of ?s (L @ ?a # R)))"
    using ok L unfolding items nodes_ok_def by (auto simp: items_of_def sorted_wrt_append dest: less_trans)
  moreover have "distinct (map fst (items_of ?s (L @ ?a # R)))"
    using ok k unfolding items nodes_ok_def by (auto simp: items_of_def)
  moreover have "sum_list (map (calculate_node_size \<circ> height h') (L @ ?a # R))
      = calculate_node_size (Suc nl) + sum_list (map (calculate_node_size \<circ> height ?h) (L @ R))"
  proof -
    have same: "map (calculate_node_size \<circ> height h') X = map (calculate_node_size \<circ> height ?h) X" if "?a \<notin> set X" for X
      using that by (auto simp: h'(3))
    have n: "?a \<notin> set L" "?a \<notin> set R" "(calculate_node_size \<circ> height h') ?a = calculate_node_size (Suc nl)"
      using a by (simp_all add: h'(3))
    show ?thesis by (simp only: map_append list.map sum_list.append sum_list.Cons n(3) same [OF n(1)] same [OF n(2)] ac_simps)
  qed
  moreover have "\<forall>b \<in> set (L @ ?a # R). height h' b \<le> Suc (max nl (level s))"
    by (auto simp: h'(3) intro: le_trans [OF d(3)])
  ultimately have "nodes_ok ?s (L @ ?a # R)"
    using ok v nl h'(2,5) unfolding nodes_ok_def items by (auto simp: items_of_def algebra_simps)
  then show ?thesis using ins items by (intro exI [of _ ?s] exI [of _ "L @ ?a # R"]) simp
qed

section \<open>Removal\<close>

lemma unlink_node:
  assumes ok: "lists_ok h (L @ t # R)" and l: "l < MAX_LEVEL" "height h t \<le> Suc l"
    and upd: "\<forall>i \<le> l. upd ! i = Some (last (0 # at_level h i L))"
  shows "\<exists>h'. unlink_levels [0..<Suc l] upd t h = Some h' \<and> lists_ok (h'(t := None)) (L @ R) \<and>
    height h' = height h \<and> content h' = content h \<and> (\<forall>b. h' b = None \<longleftrightarrow> h b = None) \<and>
    (\<forall>i < MAX_LEVEL. next_ptr h' i 0 = None \<longrightarrow> at_level h i (L @ R) = [])"
proof -
  let ?u = "\<lambda>i. last (0 # at_level h i L)"
  have c: "chain (next_ptr h i) (next_ptr h i 0) (at_level h i L @ at_level h i (t # R))" if "i < MAX_LEVEL" for i
    using ok that by (simp add: lists_ok_def)
  have dist: "distinct (0 # at_level h i L @ at_level h i (t # R))" for i
    using ok by (auto simp: lists_ok_def at_level_def)
  have tn: "t \<notin> set (0 # L @ R)" using ok by (auto simp: lists_ok_def)
  have "\<forall>i \<in> set [0..<Suc l]. upd ! i = Some (?u i) \<and> i < height h (?u i) \<and> (next_ptr h i (?u i) = Some t \<longleftrightarrow> i < height h t)"
  proof
    fix i assume "i \<in> set [0..<Suc l]"
    then have i: "i \<le> l" "i < MAX_LEVEL" using l by auto
    have cu: "chain (next_ptr h i) (next_ptr h i (?u i)) (at_level h i (t # R))" by (rule chain_last [OF c [OF i(2)]])
    have "next_ptr h i (?u i) = Some t \<longleftrightarrow> i < height h t"
    proof (cases "i < height h t")
      case False
      then have "chain (next_ptr h i) (next_ptr h i (?u i)) (at_level h i R)" using cu by simp
      then have "next_ptr h i (?u i) = None \<or> the (next_ptr h i (?u i)) \<in> set (at_level h i R)"
        by (cases "at_level h i R") (auto simp del: last.simps set_at_level)
      then show ?thesis using False tn by auto
    qed (use cu in \<open>simp del: last.simps\<close>)
    then show "upd ! i = Some (?u i) \<and> i < height h (?u i) \<and> (next_ptr h i (?u i) = Some t \<longleftrightarrow> i < height h t)"
      using upd i last_at_level(1) [OF ok i(2)] by (simp del: last.simps)
  qed
  from unlink_levels_spec [OF _ _ this] obtain h' where h': "unlink_levels [0..<Suc l] upd t h = Some h'"
    "height h' = height h" "content h' = content h" "\<forall>b. h' b = None \<longleftrightarrow> h b = None"
    "\<forall>i. next_ptr h' i = (if i \<in> set [0..<Suc l] \<and> i < height h t then (next_ptr h i)(?u i := next_ptr h i t) else next_ptr h i)"
    by (auto simp: sorted_upt simp del: upt_Suc)
  have lev: "at_level (h'(t := None)) i X = at_level h i X" if "t \<notin> set X" for i X
    using that by (intro at_level_cong) (auto simp: h'(2) [symmetric] height_def)
  have ch: "chain (next_ptr h' i) (next_ptr h' i 0) (at_level h i L @ at_level h i R)" if "i < MAX_LEVEL" for i
  proof (cases "i < height h t")
    case True
    then have "i \<in> set [0..<Suc l]" using l(2) by (auto simp del: upt_Suc)
    then have "next_ptr h' i = (next_ptr h i)(?u i := next_ptr h i t)" using h'(5) True by (metis (no_types))
    then show ?thesis using chain_remove [of "next_ptr h i" 0 "at_level h i L" t "at_level h i R"] c [OF that] dist [of i] True
      by (simp del: last.simps)
  next
    case False
    then show ?thesis using h'(5) c [OF that] by simp
  qed
  have "chain (next_ptr (h'(t := None)) i) (next_ptr (h'(t := None)) i 0) (at_level h i L @ at_level h i R)" if "i < MAX_LEVEL" for i
  proof -
    have "next_ptr (h'(t := None)) i a = next_ptr h' i a" if "a \<in> set (0 # L @ R)" for a
      using that tn by (auto simp: next_ptr_def)
    then show ?thesis using ch [OF that] by (subst chain_cong [of _ _ "next_ptr h' i"]) auto
  qed
  moreover have "\<forall>b \<in> set (0 # L @ R). height (h'(t := None)) b = height h b"
  proof
    fix b assume "b \<in> set (0 # L @ R)"
    then have "b \<noteq> t" using tn by blast
    then show "height (h'(t := None)) b = height h b" by (simp add: h'(2) [symmetric] height_def)
  qed
  ultimately have "lists_ok (h'(t := None)) (L @ R)" using ok tn lev [of L] lev [of R] by (auto simp: lists_ok_def)
  moreover have "at_level h i (L @ R) = []" if "i < MAX_LEVEL" "next_ptr h' i 0 = None" for i
    using ch [OF that(1)] that(2) by (cases "at_level h i L @ at_level h i R") auto
  ultimately show ?thesis using h' by (intro exI [of _ h']) auto
qed

lemma remove_node_spec:
  assumes ok: "nodes_ok s (L @ t # R)" and t: "content (heap s) t = (k, score)"
  shows "\<exists>s'. remove_node_by_score k score s = Some s' \<and> nodes_ok s' (L @ R) \<and> key_index s' = key_index s \<and>
    items_of s' (L @ R) = items_of s L @ items_of s R"
proof -
  let ?h = "heap s"
  note d = nodes_okD [OF ok]
  have L: "\<forall>a \<in> set L. member_ord (content ?h a) < member_ord (k, score)"
    and R: "\<forall>a \<in> set (t # R). \<not> member_ord (content ?h a) < member_ord (k, score)"
    using d(7) t by (auto simp: sorted_wrt_append dest: less_asym)
  obtain upd where upd: "descend (\<lambda>n. compare_with_query score k n = Less) ?h (level s) 0 (replicate MAX_LEVEL None)
      = Some (last (0 # L), upd)"
      "\<forall>j < MAX_LEVEL. upd ! j = (if j \<le> level s then Some (last (0 # at_level ?h j L)) else None)"
    using search_spec [OF ok refl L R] by blast
  then have u: "\<forall>i \<le> level s. upd ! i = Some (last (0 # at_level ?h i L))" using d(2) by auto
  from unlink_node [OF d(1,2) d(3) [of t] u] obtain h' where
    h': "unlink_levels [0..<Suc (level s)] upd t ?h = Some h'" "lists_ok (h'(t := None)) (L @ R)"
    "height h' = height ?h" "content h' = content ?h" "\<forall>b. h' b = None \<longleftrightarrow> ?h b = None"
    "\<forall>i < MAX_LEVEL. next_ptr h' i 0 = None \<longrightarrow> at_level ?h i (L @ R) = []" by auto
  obtain l' where l': "shrink_level h' (level s) = Some l'" "l' \<le> level s"
    "\<forall>j. l' < j \<and> j \<le> level s \<longrightarrow> next_ptr h' j 0 = None"
    using shrink_level_spec [of "level s" h'] d(2,5) h'(3) by auto
  obtain n where n: "?h t = Some n" using d(4) [of t] height_pos by fastforce
  have L0: "at_level ?h 0 L = L" "0 < height ?h t" using d(4) by (auto intro: at_level_0)
  have "chain (next_ptr ?h 0) (next_ptr ?h 0 0) (at_level ?h 0 (L @ t # R))" "0 < MAX_LEVEL"
    using d(1) unfolding lists_ok_def by (metis MAX_LEVEL_def zero_less_numeral, simp add: MAX_LEVEL_def)
  then have "next_ptr ?h 0 (last (0 # L)) = Some t" "0 < height ?h (last (0 # L))"
    using chain_last [of "next_ptr ?h 0" 0 L "at_level ?h 0 (t # R)"] last_at_level(1) [OF d(1), of 0] L0
    by (simp_all del: last.simps)
  then have fwd: "get_fwd ?h (last (0 # L)) 0 = Some (Some t)" by (metis get_fwd_Some)
  let ?s = "s\<lparr>heap := h'(t := None), level := l', sl_length := sl_length s - 1,
      sl_memory := sl_memory s - calculate_node_size (length (forward n))\<rparr>"
  have nan: "\<not> is_nan_f64 score" using ok t by (auto simp: nodes_ok_def items_of_def)
  have rem: "remove_node_by_score k score s = Some ?s"
    using upd(1) fwd n t h'(1) l'(1) nan
    by (simp add: remove_node_by_score_def content_def f64_compare del: last.simps upt_Suc)
  have tn: "t \<notin> set (L @ R)" using d(6) by auto
  have items: "items_of ?s (L @ R) = items_of s L @ items_of s R"
    and size: "map (calculate_node_size \<circ> height (heap ?s)) X = map (calculate_node_size \<circ> height ?h) X"
    if "t \<notin> set X" for X
    using tn that by (auto simp: items_of_def h'(3,4) [symmetric] content_def height_def)
  have hb: "height (heap ?s) a \<le> Suc l'" if "a \<in> set (L @ R)" for a
  proof (rule ccontr)
    assume "\<not> ?thesis"
    moreover have "a \<noteq> t" using that tn by blast
    ultimately have "Suc l' < height ?h a" by (simp add: h'(3) [symmetric] height_def)
    moreover have "height ?h a \<le> Suc (level s)" using d(3) that by auto
    ultimately have "Suc l' \<le> level s" "Suc l' < height ?h a" by auto
    then have "at_level ?h (Suc l') (L @ R) = []" using h'(6) l'(3) d(2) by auto
    with that \<open>Suc l' < height ?h a\<close> show False by (auto simp: at_level_def filter_empty_conv)
  qed
  have old: "items_of s (L @ t # R) = items_of s L @ (k, score) # items_of s R" by (simp add: items_of_def t)
  have s': "sorted_wrt (<) (map member_ord (items_of ?s (L @ R)))" "distinct (map fst (items_of ?s (L @ R)))"
    "\<forall>m \<in> set (items_of ?s (L @ R)). \<not> is_nan_f64 (snd m)"
    using ok unfolding nodes_ok_def old items [OF tn] by (auto simp: sorted_wrt_append)
  have ln: "lists_ok (heap ?s) (L @ R)" "level ?s < MAX_LEVEL" "\<forall>a \<ge> next_addr ?s. heap ?s a = None"
    "0 < next_addr ?s" "sl_length ?s = length (L @ R)"
    using h'(2,5) l'(2) ok by (auto simp: nodes_ok_def)
  have "sl_memory ?s = calculate_node_size MAX_LEVEL + sum_list (map (calculate_node_size \<circ> height (heap ?s)) (L @ R))"
    unfolding size [OF tn] using ok n by (simp add: nodes_ok_def height_def [of ?h t])
  moreover have "\<forall>a \<in> set (L @ R). height (heap ?s) a \<le> Suc (level ?s)" using hb by auto
  ultimately have "nodes_ok ?s (L @ R)" unfolding nodes_ok_def using s' ln by blast
  then show ?thesis using rem items [OF tn] by auto
qed

section \<open>Reading the bottom level\<close>

lemma bottom_chain:
  assumes "nodes_ok s ns"
  shows "chain (next_ptr (heap s) 0) (next_ptr (heap s) 0 0) ns" "\<forall>a \<in> set (0 # ns). 0 < height (heap s) a"
proof -
  have "at_level (heap s) 0 ns = ns" using nodes_okD(4) [OF assms] by (auto intro: at_level_0)
  then show "chain (next_ptr (heap s) 0) (next_ptr (heap s) 0 0) ns"
    using nodes_okD(1) [OF assms] unfolding lists_ok_def by (metis MAX_LEVEL_def zero_less_numeral)
  show "\<forall>a \<in> set (0 # ns). 0 < height (heap s) a"
    using nodes_okD(4,5) [OF assms] by (auto simp: MAX_LEVEL_def)
qed

lemma content_Some: "h a = Some n \<Longrightarrow> content h a = (node_key n, node_value n)"
  by (simp add: content_def)

lemma take_while_from_spec:
  assumes "chain (next_ptr h 0) (next_ptr h 0 a) as" "\<forall>b \<in> set (a # as). 0 < height h b"
  shows "take_while_from P h a items = Some (items @ map (content h) (takeWhile (\<lambda>b. P (the (h b))) (a # as)))"
  using assms
proof (induction as arbitrary: a items)
  case Nil
  then obtain n where "h a = Some n" using height_pos by fastforce
  with Nil show ?case by (simp add: take_while_from.simps [of P h a] get_fwd_Some content_Some)
next
  case (Cons b as)
  then obtain n where n: "h a = Some n" using height_pos by fastforce
  then show ?case using Cons by (simp add: take_while_from.simps [of P h a] get_fwd_Some content_Some)
qed

lemma rank_loop_spec:
  assumes "chain (next_ptr h 0) (next_ptr h 0 cur) (L @ t # R)" "\<forall>b \<in> set (cur # L @ t # R). 0 < height h b"
    and "\<forall>a \<in> set L. compare_with_query v k (the (h a)) = Less" "compare_with_query v k (the (h t)) = Equal"
  shows "rank_loop k v h cur r = Some (Some (r + length L))"
  using assms
proof (induction L arbitrary: cur r)
  case Nil
  then obtain n where "h t = Some n" using height_pos by fastforce
  with Nil show ?case by (simp add: rank_loop.simps [of k v h cur] get_fwd_Some)
next
  case (Cons a L)
  then obtain n where "h a = Some n" using height_pos by fastforce
  with Cons show ?case by (simp add: rank_loop.simps [of k v h cur] get_fwd_Some)
qed

lemma by_rank_spec:
  assumes "chain (next_ptr h 0) (next_ptr h 0 cur) as" "\<forall>b \<in> set (cur # as). 0 < height h b"
  shows "by_rank h cur n = Some (if n < length as then Some (content h (as ! n)) else None)"
  using assms
proof (induction n arbitrary: cur as)
  case 0
  then show ?case
    by (cases as) (auto simp: by_rank.simps [of h cur] get_fwd_Some content_Some dest!: height_pos)
next
  case (Suc n)
  then show ?case by (cases as) (auto simp: by_rank.simps [of h cur "Suc n"] get_fwd_Some)
qed

lemma skip_ranks_spec:
  assumes "chain (next_ptr h 0) (next_ptr h 0 cur) as" "\<forall>b \<in> set (cur # as). 0 < height h b" "n \<le> length as"
  shows "skip_ranks h cur r n = Some (last (cur # take n as), r + n)"
  using assms
proof (induction n arbitrary: cur as r)
  case (Suc n)
  then show ?case by (cases as) (auto simp: get_fwd_Some)
qed simp

lemma take_ranks_spec:
  assumes "chain (next_ptr h 0) (next_ptr h 0 cur) as" "\<forall>b \<in> set (cur # as). 0 < height h b"
  shows "take_ranks h cur n items = Some (items @ map (content h) (take n as))"
  using assms
proof (induction n arbitrary: cur as items)
  case (Suc n)
  show ?case
  proof (cases as)
    case (Cons a as')
    then obtain m where "h a = Some m" using Suc.prems height_pos by fastforce
    then show ?thesis using Suc.prems Suc.IH [of a as' "items @ [content h a]"] Cons
      by (simp add: get_fwd_Some content_Some)
  qed (use Suc in \<open>simp add: get_fwd_Some\<close>)
qed simp

section \<open>The sorted set\<close>

definition sl_items :: "skip_list \<Rightarrow> (bytes \<times> f64) list" where
  "sl_items s = (case get_all_items s of Some items \<Rightarrow> items | None \<Rightarrow> [])"

definition sl_ok :: "skip_list \<Rightarrow> bool" where
  "sl_ok s \<longleftrightarrow> (\<exists>ns. nodes_ok s ns \<and> distinct (map fst (key_index s)) \<and> map_of (key_index s) = map_of (items_of s ns))"

definition z_remove :: "bytes \<Rightarrow> (bytes \<times> f64) list \<Rightarrow> (bytes \<times> f64) list" where
  "z_remove k xs = filter (\<lambda>m. fst m \<noteq> k) xs"

definition z_insert :: "bytes \<Rightarrow> f64 \<Rightarrow> (bytes \<times> f64) list \<Rightarrow> (bytes \<times> f64) list" where
  "z_insert k v xs =
     (let ys = z_remove k xs
      in filter (\<lambda>m. member_ord m < member_ord (k, v)) ys @ (k, v) # filter (\<lambda>m. \<not> member_ord m < member_ord (k, v)) ys)"

lemma get_all_items_spec:
  assumes "nodes_ok s ns" shows "get_all_items s = Some (items_of s ns)" "sl_items s = items_of s ns"
proof -
  note b = bottom_chain [OF assms]
  have all: "takeWhile (\<lambda>b. True) xs = xs" for xs :: "nat list" by (induction xs) auto
  show "get_all_items s = Some (items_of s ns)"
    using b by (cases ns) (auto simp: get_all_items_def get_fwd_Some items_of_def take_while_from_spec all)
  then show "sl_items s = items_of s ns" by (simp add: sl_items_def)
qed

lemma remove_present:
  assumes ok: "nodes_ok s ns" and k: "map_of (items_of s ns) k = Some v"
  shows "\<exists>s' ns'. remove_node_by_score k v s = Some s' \<and> nodes_ok s' ns' \<and> key_index s' = key_index s \<and>
    items_of s' ns' = z_remove k (items_of s ns)"
proof -
  from map_of_SomeD [OF k] obtain t where t: "t \<in> set ns" "content (heap s) t = (k, v)" by (auto simp: items_of_def)
  then obtain L R where ns: "ns = L @ t # R" by (meson split_list)
  have "distinct (map fst (items_of s ns))" using ok by (simp add: nodes_ok_def)
  then have "fst (content (heap s) a) \<noteq> k" if "a \<in> set (L @ R)" for a
    using that t(2) by (force simp: ns items_of_def)
  then have "z_remove k (items_of s ns) = items_of s L @ items_of s R"
    using t(2) by (simp add: ns z_remove_def items_of_def filter_id_conv)
  then show ?thesis using remove_node_spec [of s L t R k v] ok t(2) ns by metis
qed

lemma insert_absent:
  assumes ok: "nodes_ok s ns" and k: "k \<notin> fst ` set (items_of s ns)" and v: "\<not> is_nan_f64 v" "nl < MAX_LEVEL"
  shows "\<exists>s' ns'. insert_new_node nl k v s = Some s' \<and> nodes_ok s' ns' \<and> key_index s' = key_index s \<and>
    items_of s' ns' = z_insert k v (items_of s ns)"
proof -
  obtain L R where s: "ns = L @ R" "\<forall>a \<in> set L. (member_ord \<circ> content (heap s)) a < member_ord (k, v)"
    "\<forall>a \<in> set R. \<not> (member_ord \<circ> content (heap s)) a < member_ord (k, v)"
    using sorted_split [OF nodes_okD(7) [OF ok], of "member_ord (k, v)"] by blast
  have "z_remove k (items_of s ns) = items_of s ns" using k by (auto simp: z_remove_def filter_id_conv image_iff)
  then have "z_insert k v (items_of s ns) = items_of s L @ (k, v) # items_of s R"
    using s by (simp add: z_insert_def items_of_def filter_id_conv filter_empty_conv)
  then show ?thesis using insert_new_node_spec [of s L R nl v k] ok s v k by (simp add: items_of_def image_Un)
qed

lemma map_of_z_remove: "map_of (z_remove k xs) = (map_of xs)(k := None)"
proof -
  have "z_remove k xs = AList.delete k xs" by (induction xs) (auto simp: z_remove_def)
  then show ?thesis by auto
qed

lemma z_insert_distinct:
  assumes "distinct (map fst xs)" "sorted_wrt (<) (map member_ord xs)"
  shows "map_of (z_insert k v xs) = (map_of xs)(k \<mapsto> v)"
proof -
  let ?ys = "z_remove k xs" and ?P = "\<lambda>m. member_ord m < member_ord (k, v)"
  have d: "distinct (map fst (filter Q ?ys))" for Q
    using assms(1) by (simp add: z_remove_def distinct_map_filter)
  have k: "k \<notin> fst ` set ?ys" by (auto simp: z_remove_def)
  have "sorted_wrt (<) (map member_ord ?ys)"
    using assms(2) by (simp add: z_remove_def sorted_wrt_map sorted_wrt_filter)
  then obtain L R where "?ys = L @ R" "\<forall>m \<in> set L. ?P m" "\<forall>m \<in> set R. \<not> ?P m" using sorted_split by blast
  then have f: "filter ?P ?ys @ filter (\<lambda>m. \<not> ?P m) ?ys = ?ys" by (simp add: filter_id_conv filter_empty_conv)
  have "map_of (A @ (k, v) # B) = (map_of (A @ B))(k \<mapsto> v)" if "k \<notin> fst ` set A" for A B :: "(bytes \<times> f64) list"
    using that by (induction A) auto
  from this [of "filter ?P ?ys" "filter (\<lambda>m. \<not> ?P m) ?ys"] k have "map_of (z_insert k v xs) = (map_of ?ys)(k \<mapsto> v)"
    unfolding z_insert_def Let_def f by auto
  then show ?thesis by (simp add: map_of_z_remove)
qed

lemma sl_ok_items:
  assumes "sl_ok s"
  obtains ns where "nodes_ok s ns" "sl_items s = items_of s ns" "distinct (map fst (key_index s))"
    "map_of (key_index s) = map_of (sl_items s)"
proof -
  from assms obtain ns where "nodes_ok s ns" "distinct (map fst (key_index s))"
    "map_of (key_index s) = map_of (items_of s ns)" by (auto simp: sl_ok_def)
  then show thesis using that get_all_items_spec(2) by metis
qed

lemma sl_okI:
  assumes "nodes_ok s ns" "distinct (map fst (key_index s))" "map_of (key_index s) = map_of (items_of s ns)"
  shows "sl_ok s" "sl_items s = items_of s ns"
  using assms get_all_items_spec(2) by (auto simp: sl_ok_def)

lemma nodes_ok_index [simp]: "nodes_ok (s\<lparr>key_index := i\<rparr>) ns = nodes_ok s ns" "items_of (s\<lparr>key_index := i\<rparr>) ns = items_of s ns"
  by (simp_all add: nodes_ok_def items_of_def)

lemma sl_insert_spec:
  assumes "sl_ok s" "\<not> is_nan_f64 v" "nl < MAX_LEVEL"
  shows "\<exists>s'. sl_insert nl k v s = Some (s', map_of (sl_items s) k) \<and> sl_ok s' \<and> sl_items s' = z_insert k v (sl_items s)"
proof -
  obtain ns where ns: "nodes_ok s ns" "sl_items s = items_of s ns" "distinct (map fst (key_index s))"
    "map_of (key_index s) = map_of (sl_items s)" using sl_ok_items [OF assms(1)] by metis
  have sorted: "distinct (map fst (items_of s ns))" "sorted_wrt (<) (map member_ord (items_of s ns))"
    using ns(1) by (simp_all add: nodes_ok_def)
  define s1 where "s1 = (case map_of (key_index s) k of None \<Rightarrow> s | Some old \<Rightarrow> the (remove_node_by_score k old s))"
  have "\<exists>ns1. nodes_ok s1 ns1 \<and> key_index s1 = key_index s \<and> items_of s1 ns1 = z_remove k (items_of s ns) \<and>
      sl_insert nl k v s = do { s2 \<leftarrow> insert_new_node nl k v (s1\<lparr>key_index := AList.update k v (key_index s1)\<rparr>);
        Some (s2, map_of (key_index s) k) }"
  proof (cases "map_of (key_index s) k")
    case None
    then have "k \<notin> fst ` set (items_of s ns)" using ns by (simp add: map_of_eq_None_iff)
    then have "z_remove k (items_of s ns) = items_of s ns" by (auto simp: z_remove_def filter_id_conv image_iff)
    then show ?thesis using None ns(1) by (auto simp: s1_def sl_insert_def)
  next
    case (Some old)
    then have "map_of (items_of s ns) k = Some old" using ns by simp
    from remove_present [OF ns(1) this] show ?thesis using Some by (auto simp: s1_def sl_insert_def)
  qed
  then obtain ns1 where ns1: "nodes_ok s1 ns1" "key_index s1 = key_index s" "items_of s1 ns1 = z_remove k (items_of s ns)"
    "sl_insert nl k v s = do { s2 \<leftarrow> insert_new_node nl k v (s1\<lparr>key_index := AList.update k v (key_index s1)\<rparr>);
        Some (s2, map_of (key_index s) k) }" by blast
  have "k \<notin> fst ` set (items_of s1 ns1)" by (auto simp: ns1(3) z_remove_def)
  then obtain s' ns' where s': "insert_new_node nl k v (s1\<lparr>key_index := AList.update k v (key_index s1)\<rparr>) = Some s'"
    "nodes_ok s' ns'" "key_index s' = AList.update k v (key_index s)" "items_of s' ns' = z_insert k v (items_of s ns)"
    using insert_absent [of "s1\<lparr>key_index := AList.update k v (key_index s1)\<rparr>" ns1 k v nl] ns1 assms(2,3)
    by (auto simp: z_insert_def Let_def z_remove_def)
  then show ?thesis using ns1(4) ns sl_okI [OF s'(2)] z_insert_distinct [OF sorted]
    by (auto simp: distinct_update update_conv')
qed

lemma sl_remove_spec:
  assumes "sl_ok s"
  shows "\<exists>s'. sl_remove k s = Some (s', map_of (sl_items s) k) \<and> sl_ok s' \<and> sl_items s' = z_remove k (sl_items s)"
proof -
  obtain ns where ns: "nodes_ok s ns" "sl_items s = items_of s ns" "distinct (map fst (key_index s))"
    "map_of (key_index s) = map_of (sl_items s)" using sl_ok_items [OF assms(1)] by metis
  show ?thesis
  proof (cases "map_of (key_index s) k")
    case None
    then have "k \<notin> fst ` set (sl_items s)" using ns by (simp add: map_of_eq_None_iff)
    then have "z_remove k (sl_items s) = sl_items s" by (auto simp: z_remove_def filter_id_conv image_iff)
    then show ?thesis using None ns(4) assms by (simp add: sl_remove_def)
  next
    case (Some v)
    let ?s = "s\<lparr>key_index := AList.delete k (key_index s)\<rparr>"
    have "map_of (items_of ?s ns) k = Some v" using Some ns by simp
    from remove_present [OF _ this] ns(1) obtain s' ns' where s': "remove_node_by_score k v ?s = Some s'"
      "nodes_ok s' ns'" "key_index s' = AList.delete k (key_index s)" "items_of s' ns' = z_remove k (items_of s ns)" by auto
    have "map_of (key_index s') = map_of (items_of s' ns')"
      using s'(3,4) ns by (auto simp: map_of_z_remove fun_eq_iff)
    then show ?thesis using Some s' ns sl_okI [OF s'(2)] by (auto simp: sl_remove_def)
  qed
qed

section \<open>Queries\<close>

lemma sl_lengths: "sl_ok s \<Longrightarrow> sl_len s = length (sl_items s)"
  by (metis sl_ok_items sl_len_def nodes_ok_def items_of_def length_map)

lemma get_rank_spec:
  assumes "sl_ok s"
  shows "get_rank k s = Some (if k \<in> fst ` set (sl_items s) then Some (length (takeWhile (\<lambda>m. fst m \<noteq> k) (sl_items s))) else None)"
proof -
  obtain ns where ns: "nodes_ok s ns" "sl_items s = items_of s ns" "map_of (key_index s) = map_of (sl_items s)"
    using sl_ok_items [OF assms(1)] by metis
  show ?thesis
  proof (cases "map_of (items_of s ns) k")
    case None
    then have "k \<notin> fst ` set (sl_items s)" using ns(2) by (simp add: map_of_eq_None_iff)
    then show ?thesis using None ns by (simp add: get_rank_def)
  next
    case (Some v)
    from map_of_SomeD [OF this] obtain t where t: "t \<in> set ns" "content (heap s) t = (k, v)"
      by (auto simp: items_of_def)
    then obtain L R where LR: "ns = L @ t # R" by (meson split_list)
    note d = nodes_okD [OF ns(1)] and b = bottom_chain [OF ns(1)]
    have some: "\<exists>n. heap s a = Some n" if "a \<in> set ns" for a using d(4) [OF that] height_pos by blast
    have cmp: "compare_with_query v k (the (heap s a)) = cmp (member_ord (content (heap s) a)) (member_ord (k, v))"
      if "a \<in> set ns" for a using some [OF that] compare_with_query_ord [of "heap s" a] by auto
    have "\<forall>a \<in> set L. member_ord (content (heap s) a) < member_ord (k, v)"
      using d(7) t(2) by (auto simp: LR sorted_wrt_append)
    then have "rank_loop k v (heap s) 0 0 = Some (Some (length L))"
      using rank_loop_spec [of "heap s" 0 L t R v k 0] b cmp t(2) by (simp add: LR)
    moreover have "distinct (map fst (items_of s L @ (k, v) # items_of s R))"
      using ns(1) t(2) unfolding nodes_ok_def LR by (simp add: items_of_def)
    then have "\<forall>m \<in> set (items_of s L). fst m \<noteq> k" by auto
    then have "takeWhile (\<lambda>m. fst m \<noteq> k) (items_of s L @ (k, v) # items_of s R) = items_of s L"
      by (subst takeWhile_append2) auto
    then have "length (takeWhile (\<lambda>m. fst m \<noteq> k) (items_of s ns)) = length L"
      using t(2) by (simp add: LR items_of_def)
    moreover have "k \<in> fst ` set (items_of s ns)" using Some map_of_SomeD by (metis fst_conv image_eqI)
    ultimately show ?thesis using ns Some by (simp add: get_rank_def)
  qed
qed

lemma get_by_rank_spec:
  assumes "sl_ok s"
  shows "get_by_rank n s = Some (if n < length (sl_items s) then Some (sl_items s ! n) else None)"
proof -
  obtain ns where ns: "nodes_ok s ns" "sl_items s = items_of s ns" using sl_ok_items [OF assms(1)] by metis
  then show ?thesis using by_rank_spec [OF bottom_chain [OF ns(1)]]
    by (auto simp: get_by_rank_def items_of_def nodes_ok_def)
qed

lemma range_by_rank_spec:
  assumes "sl_ok s"
  shows "range_by_rank a b s = Some (drop a (take (Suc b) (sl_items s)))"
proof -
  obtain ns where ns: "nodes_ok s ns" "sl_items s = items_of s ns" using sl_ok_items [OF assms(1)] by metis
  note c = bottom_chain [OF ns(1)]
  have len: "sl_length s = length ns" using ns(1) by (simp add: nodes_ok_def)
  show ?thesis
  proof (cases "a < length ns")
    case False
    then show ?thesis using len ns(2) by (simp add: range_by_rank_def items_of_def)
  next
    case True
    have skip: "skip_ranks (heap s) 0 0 a = Some (last (0 # take a ns), a)"
      using skip_ranks_spec [OF c] True by simp
    have "chain (next_ptr (heap s) 0) (next_ptr (heap s) 0 (last (0 # take a ns))) (drop a ns)"
      using chain_last [of "next_ptr (heap s) 0" 0 "take a ns" "drop a ns"] c(1) by simp
    moreover have "last (0 # take a ns) \<in> set (0 # ns)"
      using last_in_set [of "0 # take a ns"] by (auto dest: in_set_takeD)
    then have "\<forall>x \<in> set (last (0 # take a ns) # drop a ns). 0 < height (heap s) x"
      using c(2) by (auto dest: in_set_dropD simp del: last.simps)
    ultimately have "take_ranks (heap s) (last (0 # take a ns)) n [] = Some (map (content (heap s)) (take n (drop a ns)))" for n
      using take_ranks_spec by fastforce
    moreover have "take (min (Suc b) (length ns) - a) (drop a ns) = drop a (take (Suc b) ns)"
      by (simp add: drop_take min_def)
    ultimately show ?thesis using skip True len ns(2)
      by (simp add: range_by_rank_def items_of_def take_map drop_map del: last.simps)
  qed
qed

lemma score_split:
  assumes "sorted_wrt (\<lambda>x y. f64_rank (f x) \<le> f64_rank (f y)) ns" "\<And>a. a \<in> set ns \<Longrightarrow> \<not> is_nan_f64 (f a)"
  obtains L R where "ns = L @ R" "\<forall>a \<in> set L. f64_lt (f a) lo" "\<forall>a \<in> set R. \<not> f64_lt (f a) lo"
    "takeWhile (\<lambda>a. f64_le (f a) hi) R = filter (\<lambda>a. f64_le (f a) hi) R"
proof -
  have lt: "f64_lt (f x) lo" if "f64_lt (f y) lo" "f64_rank (f x) \<le> f64_rank (f y)" "x \<in> set ns" "y \<in> set ns" for x y
    using that assms(2) f64_compare(1) [of "f x" lo] f64_compare(1) [of "f y" lo] f64_nan_incomparable [of "f y" lo] by fastforce
  have le: "f64_le (f x) hi" if "f64_le (f y) hi" "f64_rank (f x) \<le> f64_rank (f y)" "x \<in> set ns" "y \<in> set ns" for x y
    using that assms(2) f64_compare(2) [of "f x" hi] f64_compare(2) [of "f y" hi] f64_nan_incomparable [of "f y" hi] by fastforce
  let ?L = "takeWhile (\<lambda>a. f64_lt (f a) lo) ns" and ?R = "dropWhile (\<lambda>a. f64_lt (f a) lo) ns"
  have s: "sorted_wrt (\<lambda>x y. f64_rank (f x) \<le> f64_rank (f y)) (?L @ ?R)" using assms(1) by simp
  have R: "\<not> f64_lt (f a) lo" if "a \<in> set ?R" for a
  proof (cases ?R)
    case (Cons r rs)
    have "\<not> f64_lt (f r) lo" using Cons by (metis hd_dropWhile list.sel(1) list.distinct(1))
    moreover have "f64_rank (f r) \<le> f64_rank (f a)" using s that Cons by (auto simp: sorted_wrt_append)
    ultimately show ?thesis using lt [of a r] that Cons set_dropWhileD by (metis list.set_intros(1))
  next
    case Nil
    then show ?thesis using that by (simp only: list.set empty_iff)
  qed
  have prefix: "takeWhile P xs = filter P xs"
    if "sorted_wrt (\<lambda>x y. P y \<longrightarrow> P x) xs" for P and xs :: "'a list"
    using that by (induction xs) (auto simp: filter_empty_conv [symmetric] intro: sym)
  have "sorted_wrt (\<lambda>x y. f64_le (f y) hi \<longrightarrow> f64_le (f x) hi) ?R"
  proof (rule sorted_wrt_mono_rel)
    show "sorted_wrt (\<lambda>x y. f64_rank (f x) \<le> f64_rank (f y)) ?R" using s by (simp add: sorted_wrt_append)
  qed (use le set_dropWhileD in metis)
  note tw = prefix [OF this]
  show thesis
  proof (rule that)
    show "ns = ?L @ ?R" by simp
    show "\<forall>a \<in> set ?L. f64_lt (f a) lo" using set_takeWhileD by fast
    show "\<forall>a \<in> set ?R. \<not> f64_lt (f a) lo" using R by blast
    show "takeWhile (\<lambda>a. f64_le (f a) hi) ?R = filter (\<lambda>a. f64_le (f a) hi) ?R" by (rule tw)
  qed
qed

lemma range_by_score_spec:
  assumes "sl_ok s"
  shows "range_by_score lo hi s = Some (filter (\<lambda>m. \<not> f64_lt (snd m) lo \<and> f64_le (snd m) hi) (sl_items s))"
proof -
  obtain ns where ns: "nodes_ok s ns" "sl_items s = items_of s ns" using sl_ok_items [OF assms(1)] by metis
  note d = nodes_okD [OF ns(1)] and b = bottom_chain [OF ns(1)]
  let ?v = "\<lambda>a. snd (content (heap s) a)"
  have nan: "\<not> is_nan_f64 (?v a)" if "a \<in> set ns" for a using ns(1) that by (auto simp: nodes_ok_def items_of_def)
  have mono: "f64_rank (?v x) \<le> f64_rank (?v y)" if "member_ord (content (heap s) x) < member_ord (content (heap s) y)" for x y
    using that by (auto simp: member_ord_def less_prod_def')
  have val: "node_value (the (heap s a)) = ?v a" if "a \<in> set ns" for a
    using d(4) [OF that] height_pos [of 0 "heap s" a] by (auto simp: content_def)
  have "sorted_wrt (\<lambda>x y. f64_rank (?v x) \<le> f64_rank (?v y)) ns"
    using d(7) mono by (auto simp: sorted_wrt_map elim!: sorted_wrt_mono_rel [rotated])
  then obtain L R where LR: "ns = L @ R" "\<forall>a \<in> set L. f64_lt (?v a) lo" "\<forall>a \<in> set R. \<not> f64_lt (?v a) lo"
    and tw: "takeWhile (\<lambda>a. f64_le (?v a) hi) R = filter (\<lambda>a. f64_le (?v a) hi) R"
    using nan by (rule score_split)
  have "\<forall>a \<in> set L. f64_lt (node_value (the (heap s a))) lo" "\<forall>a \<in> set R. \<not> f64_lt (node_value (the (heap s a))) lo"
    using LR val by auto
  from descend_spec [OF d(1) [unfolded LR(1)] this d(2), of 0 "replicate MAX_LEVEL None"]
  obtain upd where desc: "descend (\<lambda>n. f64_lt (node_value n) lo) (heap s) (level s) 0 (replicate MAX_LEVEL None)
      = Some (last (0 # L), upd)" by auto
  have fil: "filter (\<lambda>m. \<not> f64_lt (snd m) lo \<and> f64_le (snd m) hi) (items_of s ns)
      = map (content (heap s)) (filter (\<lambda>a. f64_le (?v a) hi) R)"
  proof -
    have "filter (\<lambda>a. \<not> f64_lt (?v a) lo \<and> f64_le (?v a) hi) ns = filter (\<lambda>a. f64_le (?v a) hi) R"
      using LR(2,3) by (auto simp: LR(1) filter_empty_conv intro!: filter_cong)
    then show ?thesis by (simp add: items_of_def filter_map comp_def)
  qed
  have ch: "chain (next_ptr (heap s) 0) (next_ptr (heap s) 0 (last (0 # L))) R"
    using chain_last [of "next_ptr (heap s) 0" 0 L R] b(1) LR(1) by simp
  have "last (0 # L) \<in> set (0 # ns)" using last_in_set [of "0 # L"] LR(1) by auto
  then have get: "get_fwd (heap s) (last (0 # L)) 0 = Some (next_ptr (heap s) 0 (last (0 # L)))"
    using b(2) by (intro get_fwd_Some) blast
  show ?thesis
  proof (cases R)
    case Nil
    then show ?thesis using desc ch get fil ns(2) by (simp add: range_by_score_def del: last.simps)
  next
    case (Cons a R')
    have "takeWhile (\<lambda>a. f64_le (node_value (the (heap s a))) hi) R = takeWhile (\<lambda>a. f64_le (?v a) hi) R"
      using val LR(1) by (intro takeWhile_cong) auto
    then have "take_while_from (\<lambda>n. f64_le (node_value n) hi) (heap s) a [] = Some (map (content (heap s)) (filter (\<lambda>a. f64_le (?v a) hi) R))"
      using take_while_from_spec [of "heap s" a R' "\<lambda>n. f64_le (node_value n) hi" "[]"] ch b(2) Cons LR(1) tw
      by (simp del: last.simps)
    then show ?thesis using desc ch get fil ns(2) Cons by (simp add: range_by_score_def del: last.simps)
  qed
qed

section \<open>Sorted sets as an interface\<close>

text \<open>
  What the storage engine relies on: a sorted set holds members sorted by score and name, inserting
  and removing change one member, and the score of a member is what was inserted last.  The first
  argument of \<open>insert\<close> is the random choice the implementation makes.
\<close>

locale sorted_set =
  fixes inv :: "'s \<Rightarrow> bool" and items :: "'s \<Rightarrow> (bytes \<times> f64) list"
    and empty :: 's and choice :: "'r \<Rightarrow> bool"
    and insert :: "'r \<Rightarrow> bytes \<Rightarrow> f64 \<Rightarrow> 's \<Rightarrow> ('s \<times> f64 option) option"
    and remove :: "bytes \<Rightarrow> 's \<Rightarrow> ('s \<times> f64 option) option"
    and score :: "bytes \<Rightarrow> 's \<Rightarrow> f64 option"
  assumes empty_ok: "inv empty \<and> items empty = []"
    and insert_ok: "inv s \<Longrightarrow> choice r \<Longrightarrow> \<not> is_nan_f64 v \<Longrightarrow>
      \<exists>s'. insert r k v s = Some (s', map_of (items s) k) \<and> inv s' \<and> items s' = z_insert k v (items s)"
    and remove_ok: "inv s \<Longrightarrow>
      \<exists>s'. remove k s = Some (s', map_of (items s) k) \<and> inv s' \<and> items s' = z_remove k (items s)"
    and score_ok: "inv s \<Longrightarrow> score k s = map_of (items s) k"
    and sorted_ok: "inv s \<Longrightarrow> sorted_wrt (<) (map member_ord (items s)) \<and> distinct (map fst (items s))"
begin

lemma score_insert:
  assumes "inv s" "choice r" "\<not> is_nan_f64 v" "insert r k v s = Some (s', old)"
  shows "score k' s' = (if k' = k then Some v else score k' s)" and "old = score k s"
proof -
  have s': "inv s'" "items s' = z_insert k v (items s)" "old = map_of (items s) k"
    using insert_ok [OF assms(1-3), of k] assms(4) by auto
  then show "score k' s' = (if k' = k then Some v else score k' s)"
    using sorted_ok [OF assms(1)] z_insert_distinct [of "items s" k v] score_ok [OF s'(1)] score_ok [OF assms(1)] by simp
  show "old = score k s" using s'(3) score_ok [OF assms(1)] by simp
qed

lemma score_remove:
  assumes "inv s" "remove k s = Some (s', old)"
  shows "score k' s' = (if k' = k then None else score k' s)" and "old = score k s"
proof -
  have s': "inv s'" "items s' = z_remove k (items s)" "old = map_of (items s) k"
    using remove_ok [OF assms(1), of k] assms(2) by auto
  then show "score k' s' = (if k' = k then None else score k' s)"
    using score_ok [OF s'(1)] score_ok [OF assms(1)] by (simp add: map_of_z_remove)
  show "old = score k s" using s'(3) score_ok [OF assms(1)] by simp
qed

lemma members_count: "inv s \<Longrightarrow> length (items s) = card {k. score k s \<noteq> None}"
proof -
  assume s: "inv s"
  have "{k. score k s \<noteq> None} = fst ` set (items s)" using score_ok [OF s] by (auto simp: map_of_eq_None_iff image_iff)
  then show ?thesis using sorted_ok [OF s] distinct_card [of "map fst (items s)"] by simp
qed

end

lemma new_skip_list_sl_ok: "sl_ok new_skip_list" "sl_items new_skip_list = []"
  using sl_okI [OF new_skip_list_ok] by (simp_all add: items_of_def new_skip_list_def)

interpretation sl: sorted_set sl_ok sl_items new_skip_list "\<lambda>nl. nl < MAX_LEVEL" sl_insert sl_remove get_score
proof
  fix s k
  assume s: "sl_ok s"
  then obtain ns where ns: "nodes_ok s ns" "sl_items s = items_of s ns" "map_of (key_index s) = map_of (sl_items s)"
    using sl_ok_items by metis
  then show "sorted_wrt (<) (map member_ord (sl_items s)) \<and> distinct (map fst (sl_items s))"
    by (simp add: nodes_ok_def)
  show "get_score k s = map_of (sl_items s) k" using ns(3) by (simp add: get_score_def)
qed (use new_skip_list_sl_ok sl_insert_spec sl_remove_spec in blast)+

lemma random_level_bound: "l < MAX_LEVEL \<Longrightarrow> random_level coins l < MAX_LEVEL"
  by (induction coins arbitrary: l) (auto simp: MAX_LEVEL_def)

section \<open>Properties of the skip list\<close>

text \<open>
  C15: on a consistent skip list and for scores that are not NaN, inserting and removing never
  touch a dangling pointer and always end; they return the previous score, and the list of members
  read off the bottom level changes exactly as the sorted list of members does, whatever levels the
  coin flips give.
\<close>

theorem skip_list_refines:
  assumes "sl_ok s" and "\<not> is_nan_f64 v"
  shows "(\<exists>s'. sl_insert (random_level coins 0) k v s = Some (s', map_of (sl_items s) k) \<and> sl_ok s' \<and>
      sl_items s' = z_insert k v (sl_items s)) \<and>
    (\<exists>s'. sl_remove k s = Some (s', map_of (sl_items s) k) \<and> sl_ok s' \<and> sl_items s' = z_remove k (sl_items s))"
  using sl.insert_ok [OF assms(1) _ assms(2)] sl.remove_ok [OF assms(1)] random_level_bound [of 0 coins]
  by (simp add: MAX_LEVEL_def)

theorem skip_list_refines_witness:
  "\<exists>s'. sl_insert (random_level [True, True, False] 0) ''a'' 0 new_skip_list = Some (s', None) \<and> sl_ok s' \<and>
     sl_items s' = [(''a'', 0)]"
  using skip_list_refines [OF new_skip_list_sl_ok(1), of 0 "[True, True, False]" "''a''"]
  by (simp add: new_skip_list_sl_ok is_nan_f64_def f64_magnitude_def z_insert_def z_remove_def)

text \<open>
  C24: the queries of a consistent skip list: the rank of a member is its position in the sorted
  list, an element is found by its rank, a rank range is a slice of the list, and a score range is
  the members whose score is not below the minimum and at most the maximum.
\<close>

theorem skip_list_queries:
  assumes "sl_ok s"
  shows "get_rank k s = Some (if k \<in> fst ` set (sl_items s)
      then Some (length (takeWhile (\<lambda>m. fst m \<noteq> k) (sl_items s))) else None) \<and>
    get_by_rank n s = Some (if n < length (sl_items s) then Some (sl_items s ! n) else None) \<and>
    range_by_rank a b s = Some (drop a (take (Suc b) (sl_items s))) \<and>
    range_by_score lo hi s = Some (filter (\<lambda>m. \<not> f64_lt (snd m) lo \<and> f64_le (snd m) hi) (sl_items s)) \<and>
    sl_len s = card {k. get_score k s \<noteq> None}"
  using get_rank_spec [OF assms] get_by_rank_spec [OF assms] range_by_rank_spec [OF assms] range_by_score_spec [OF assms]
    sl_lengths [OF assms] sl.members_count [OF assms] by simp

theorem skip_list_queries_witness: "get_rank ''a'' new_skip_list = Some None \<and> range_by_rank 0 5 new_skip_list = Some []"
  using skip_list_queries [OF new_skip_list_sl_ok(1), of "''a''" 0 0 5 0 0] by (simp add: new_skip_list_sl_ok)

text \<open>
  A member inserted with a NaN score cannot be removed: removal forgets its score but leaves its
  node in the list, since NaN is not equal to itself.
\<close>

theorem nan_member_stays:
  "case sl_insert 0 ''a'' 0x7FF8000000000000 new_skip_list of
     Some (s1, _) \<Rightarrow>
       (case sl_remove ''a'' s1 of
          Some (s2, old) \<Rightarrow> old \<noteq> None \<and> get_score ''a'' s2 = None \<and>
            get_all_items s2 = Some [(''a'', 0x7FF8000000000000)] \<and> sl_len s2 = 1
        | None \<Rightarrow> False)
   | None \<Rightarrow> False"
  by code_simp

end
