(* ===== verification/Values.thy ===== *)
theory Values
  imports Ferrous_Error Text Streams Skip_List_Correct
begin

text \<open>
  Stored values and memory accounting: \<^verbatim>\<open>src/storage/value.rs\<close>, \<^verbatim>\<open>src/storage/memory.rs\<close> and the size
  functions of \<^verbatim>\<open>src/storage/engine.rs\<close>.  Instants and durations are nanoseconds; adding a duration to
  an instant panics when the seconds leave the range of \<^verbatim>\<open>i64\<close>.
\<close>

section \<open>Values\<close>

datatype val =
    VString bytes
  | VList "bytes list"
  | VSet "bytes list"
  | VHash "(bytes \<times> bytes) list"
  | VSortedSet skip_list
  | VStream stream

datatype value_kind = TString | TList | TSet | THash | TSortedSet | TStream

datatype string_encoding = Raw | IntEncoding | Embstr

record value_metadata =
  expires_at :: "nat option"
  md_created_at :: nat
  last_accessed :: nat
  encoding :: string_encoding

record stored_value =
  sv_value :: val
  metadata :: value_metadata

fun value_type :: "val \<Rightarrow> value_kind" where
  "value_type (VString _) = TString"
| "value_type (VList _) = TList"
| "value_type (VSet _) = TSet"
| "value_type (VHash _) = THash"
| "value_type (VSortedSet _) = TSortedSet"
| "value_type (VStream _) = TStream"

definition integer_value :: "i64 \<Rightarrow> val" where
  "integer_value n = VString (i64_to_string n)"

definition as_integer :: "val \<Rightarrow> i64 option" where
  "as_integer v = (case v of VString b \<Rightarrow> if utf8_valid b then parse_i64 b else None | _ \<Rightarrow> None)"

lemma as_integer_value [simp]: "as_integer (integer_value n) = Some n"
proof -
  have "utf8_valid (i64_to_string n)"
    unfolding i64_to_string_def by (intro utf8_valid_ascii int_to_string_ascii)
  then show ?thesis by (simp add: as_integer_def integer_value_def)
qed

section \<open>Metadata\<close>

definition instant_add :: "nat \<Rightarrow> nat \<Rightarrow> nat option" where
  "instant_add t d = (if (t + d) div 1000000000 \<le> 9223372036854775807 then Some (t + d) else None)"

definition new_metadata :: "nat \<Rightarrow> value_metadata" where
  "new_metadata now = \<lparr>expires_at = None, md_created_at = now, last_accessed = now, encoding = Raw\<rparr>"

definition new_value :: "nat \<Rightarrow> val \<Rightarrow> stored_value" where
  "new_value now v = \<lparr>sv_value = v, metadata = new_metadata now\<rparr>"

definition value_with_expiration :: "nat \<Rightarrow> val \<Rightarrow> nat \<Rightarrow> stored_value option" where
  "value_with_expiration now v expires_in =
     map_option (\<lambda>t. \<lparr>sv_value = v, metadata = (new_metadata now)\<lparr>expires_at := Some t\<rparr>\<rparr>) (instant_add now expires_in)"

definition is_expired :: "nat \<Rightarrow> stored_value \<Rightarrow> bool" where
  "is_expired now sv = (case expires_at (metadata sv) of None \<Rightarrow> False | Some t \<Rightarrow> now > t)"

definition set_val :: "val \<Rightarrow> stored_value \<Rightarrow> stored_value" where
  "set_val v sv = sv\<lparr>sv_value := v\<rparr>"

lemma set_val_simps [simp]: "sv_value (set_val v sv) = v" "metadata (set_val v sv) = metadata sv"
  by (simp_all add: set_val_def)

section \<open>Memory accounting\<close>

datatype eviction_policy = NoEviction | AllKeysLru | VolatileLru | AllKeysRandom | VolatileRandom | VolatileTtl

record memory_manager =
  used_memory :: u64
  max_memory :: nat
  policy :: eviction_policy

definition new_memory_manager :: "nat \<Rightarrow> eviction_policy \<Rightarrow> memory_manager" where
  "new_memory_manager cap p = \<lparr>used_memory = 0, max_memory = cap, policy = p\<rparr>"

definition unlimited :: memory_manager where
  "unlimited = \<lparr>used_memory = 0, max_memory = 0, policy = NoEviction\<rparr>"

definition add_memory :: "u64 \<Rightarrow> memory_manager \<Rightarrow> memory_manager \<times> bool" where
  "add_memory bytes m =
     (let old_usage = used_memory m;
          new_usage = min (unat old_usage + unat bytes) usize_max
      in (m\<lparr>used_memory := old_usage + bytes\<rparr>, \<not> (max_memory m > 0 \<and> new_usage > max_memory m)))"

definition remove_memory :: "u64 \<Rightarrow> memory_manager \<Rightarrow> memory_manager" where
  "remove_memory bytes m = m\<lparr>used_memory := used_memory m - bytes\<rparr>"

definition calculate_size :: "bytes \<Rightarrow> u64" where
  "calculate_size d = word_of_nat (length d) + 24"

definition calculate_value_size :: "bytes \<Rightarrow> val \<Rightarrow> u64" where
  "calculate_value_size key v =
     (let key_size = calculate_size key;
          value_size = (case v of
              VString b \<Rightarrow> calculate_size b
            | VList l \<Rightarrow> sum_list (map calculate_size l) + 32
            | VSet s \<Rightarrow> sum_list (map calculate_size s) + 48
            | VHash h \<Rightarrow> sum_list (map (\<lambda>(f, x). calculate_size f + calculate_size x) h) + 48
            | VSortedSet z \<Rightarrow> sl_memory z
            | VStream s \<Rightarrow> stream_memory s)
      in key_size + value_size)"

definition calculate_member_size :: "bytes \<Rightarrow> u64" where
  "calculate_member_size member = calculate_size member + 8 + 32"

section \<open>Well-formed values\<close>

text \<open>
  Containers have no repetitions and are not left empty under a key; a sorted set is a consistent
  skip list.  A stream may be empty; its own invariant is that of theory \<open>Streams\<close>.
\<close>

definition value_ok :: "val \<Rightarrow> bool" where
  "value_ok v = (case v of
      VList l \<Rightarrow> l \<noteq> []
    | VSet s \<Rightarrow> s \<noteq> [] \<and> distinct s
    | VHash h \<Rightarrow> h \<noteq> [] \<and> distinct (map fst h)
    | VSortedSet z \<Rightarrow> sl_ok z \<and> sl_items z \<noteq> []
    | _ \<Rightarrow> True)"

lemma value_ok_simps [simp]:
  "value_ok (VString b)" "value_ok (VList l) = (l \<noteq> [])" "value_ok (VSet s) = (s \<noteq> [] \<and> distinct s)"
  "value_ok (VHash h) = (h \<noteq> [] \<and> distinct (map fst h))" "value_ok (VSortedSet z) = (sl_ok z \<and> sl_items z \<noteq> [])"
  "value_ok (VStream st)"
  "value_ok (integer_value n)"
  by (simp_all add: value_ok_def integer_value_def)

end
