(* ===== verification/Engine.thy ===== *)
theory Engine
  imports Values
begin

text \<open>
  The sharded storage engine (\<^verbatim>\<open>src/storage/engine.rs\<close>): databases of 16 shards, each with its data,
  its expiration index and its \<^verbatim>\<open>WATCH\<close> tracker.  A key operation locks one shard; it is a function on
  that shard and the memory manager, lifted by \<open>on_shard\<close>.  The locale \<open>shard_operation\<close> states what
  every such operation promises; its lemmas lift the promises to the whole engine.
\<close>

section \<open>State\<close>

record shard_watch_tracker =
  active_watchers :: u64
  key_counters :: "(bytes \<times> u64) list"
  global_counter :: u64

record database_shard =
  shard_data :: "(bytes \<times> stored_value) list"
  expiring_keys :: "(bytes \<times> nat) list"
  watch_tracker :: shard_watch_tracker

record storage_engine =
  databases :: "database_shard list list"
  memory :: memory_manager

type_synonym 'a shard_op = "database_shard \<times> memory_manager \<Rightarrow> (database_shard \<times> memory_manager) \<times> 'a result"

definition SHARDS_PER_DATABASE :: nat where "SHARDS_PER_DATABASE = 16"

definition new_shard :: database_shard where
  "new_shard = \<lparr>shard_data = [], expiring_keys = [],
     watch_tracker = \<lparr>active_watchers = 0, key_counters = [], global_counter = 0\<rparr>\<rparr>"

definition new_database :: "database_shard list" where
  "new_database = replicate SHARDS_PER_DATABASE new_shard"

definition with_config :: "nat \<Rightarrow> memory_manager \<Rightarrow> storage_engine" where
  "with_config num_databases m = \<lparr>databases = replicate num_databases new_database, memory = m\<rparr>"

section \<open>Sharding\<close>

fun fnv_loop :: "u64 \<Rightarrow> bytes \<Rightarrow> u64" where
  "fnv_loop hash [] = hash"
| "fnv_loop hash (b # bs) = fnv_loop ((hash XOR of_char b) * 0x100000001b3) bs"

definition get_shard_index :: "bytes \<Rightarrow> nat" where
  "get_shard_index key = unat (fnv_loop 0xcbf29ce484222325 key mod word_of_nat SHARDS_PER_DATABASE)"

lemma get_shard_index_bound: "get_shard_index key < SHARDS_PER_DATABASE"
proof -
  have "fnv_loop 0xcbf29ce484222325 key mod 16 < (16 :: u64)" by (rule word_mod_less_divisor) simp
  then have "unat (fnv_loop 0xcbf29ce484222325 key mod 16) < unat (16 :: u64)" by (simp only: word_less_nat_alt)
  then show ?thesis by (simp add: get_shard_index_def SHARDS_PER_DATABASE_def)
qed

text \<open>
  \<^verbatim>\<open>get_shard\<close> followed by the work under the shard's lock.
\<close>

definition on_shard :: "nat \<Rightarrow> bytes \<Rightarrow> 'a shard_op \<Rightarrow> storage_engine \<Rightarrow> storage_engine \<times> 'a result" where
  "on_shard db key op e =
     (if db < length (databases e) then
        (let i = get_shard_index key;
             ((sh, m), r) = op (databases e ! db ! i, memory e)
         in (e\<lparr>databases := (databases e)[db := (databases e ! db)[i := sh]], memory := m\<rparr>, r))
      else (e, Err (Storage InvalidDatabase)))"

section \<open>The parts of an operation\<close>

definition mark_key_modified :: "bytes \<Rightarrow> shard_watch_tracker \<Rightarrow> shard_watch_tracker" where
  "mark_key_modified key w =
     (if active_watchers w = 0 then w
      else let new_counter = global_counter w + 1
           in w\<lparr>global_counter := new_counter, key_counters := AList.update key new_counter (key_counters w)\<rparr>)"

definition get_key_counter :: "bytes \<Rightarrow> shard_watch_tracker \<Rightarrow> u64" where
  "get_key_counter key w = (case map_of (key_counters w) key of None \<Rightarrow> 0 | Some c \<Rightarrow> c)"

definition mark_modified :: "bytes \<Rightarrow> database_shard \<Rightarrow> database_shard" where
  "mark_modified key sh = sh\<lparr>watch_tracker := mark_key_modified key (watch_tracker sh)\<rparr>"

definition data_get :: "bytes \<Rightarrow> database_shard \<Rightarrow> stored_value option" where
  "data_get key sh = map_of (shard_data sh) key"

definition data_insert :: "bytes \<Rightarrow> stored_value \<Rightarrow> database_shard \<Rightarrow> database_shard" where
  "data_insert key v sh = sh\<lparr>shard_data := AList.update key v (shard_data sh)\<rparr>"

definition data_remove :: "bytes \<Rightarrow> database_shard \<Rightarrow> database_shard" where
  "data_remove key sh = sh\<lparr>shard_data := AList.delete key (shard_data sh)\<rparr>"

definition expiring_get :: "bytes \<Rightarrow> database_shard \<Rightarrow> nat option" where
  "expiring_get key sh = map_of (expiring_keys sh) key"

definition expiring_insert :: "bytes \<Rightarrow> nat \<Rightarrow> database_shard \<Rightarrow> database_shard" where
  "expiring_insert key t sh = sh\<lparr>expiring_keys := AList.update key t (expiring_keys sh)\<rparr>"

definition expiring_remove :: "bytes \<Rightarrow> database_shard \<Rightarrow> database_shard" where
  "expiring_remove key sh = sh\<lparr>expiring_keys := AList.delete key (expiring_keys sh)\<rparr>"

definition counter_get :: "bytes \<Rightarrow> database_shard \<Rightarrow> u64" where
  "counter_get key sh = get_key_counter key (watch_tracker sh)"

definition watchers :: "database_shard \<Rightarrow> u64" where
  "watchers sh = active_watchers (watch_tracker sh)"

lemma data_get_simps [simp]:
  "data_get k' (mark_modified k sh) = data_get k' sh"
  "data_get k' (data_insert k v sh) = (if k' = k then Some v else data_get k' sh)"
  "data_get k' (data_remove k sh) = (if k' = k then None else data_get k' sh)"
  "data_get k' (expiring_insert k t sh) = data_get k' sh"
  "data_get k' (expiring_remove k sh) = data_get k' sh"
  by (simp_all add: data_get_def mark_modified_def data_insert_def data_remove_def expiring_insert_def expiring_remove_def)

lemma expiring_get_simps [simp]:
  "expiring_get k' (mark_modified k sh) = expiring_get k' sh"
  "expiring_get k' (data_insert k v sh) = expiring_get k' sh"
  "expiring_get k' (data_remove k sh) = expiring_get k' sh"
  "expiring_get k' (expiring_insert k t sh) = (if k' = k then Some t else expiring_get k' sh)"
  "expiring_get k' (expiring_remove k sh) = (if k' = k then None else expiring_get k' sh)"
  by (simp_all add: expiring_get_def mark_modified_def data_insert_def data_remove_def expiring_insert_def expiring_remove_def)

lemma watchers_simps [simp]:
  "watchers (mark_modified k sh) = watchers sh" "watchers (data_insert k v sh) = watchers sh"
  "watchers (data_remove k sh) = watchers sh" "watchers (expiring_insert k t sh) = watchers sh"
  "watchers (expiring_remove k sh) = watchers sh"
  by (simp_all add: watchers_def mark_modified_def mark_key_modified_def Let_def data_insert_def data_remove_def
      expiring_insert_def expiring_remove_def)

section \<open>Invariant of a shard\<close>

text \<open>
  Keys are unique, containers are well formed, and every counter issued is at most the global one,
  which is what makes a new counter different from every older one.
\<close>

definition shard_ok :: "database_shard \<Rightarrow> bool" where
  "shard_ok sh \<longleftrightarrow> distinct (map fst (shard_data sh)) \<and> distinct (map fst (expiring_keys sh)) \<and>
     distinct (map fst (key_counters (watch_tracker sh))) \<and>
     (\<forall>k sv. data_get k sh = Some sv \<longrightarrow> value_ok (sv_value sv))"

lemma shard_ok_simps [simp]:
  "shard_ok (mark_modified k sh) = shard_ok sh"
  "shard_ok sh \<Longrightarrow> shard_ok (data_insert k v sh) = value_ok (sv_value v)"
  "shard_ok sh \<Longrightarrow> shard_ok (data_remove k sh)"
  "shard_ok sh \<Longrightarrow> shard_ok (expiring_insert k t sh)"
  "shard_ok sh \<Longrightarrow> shard_ok (expiring_remove k sh)"
proof -
  have "distinct (map fst (key_counters (mark_key_modified k w))) = distinct (map fst (key_counters w))" for w
  proof (cases "k \<in> fst ` set (key_counters w)")
    case True
    then have "map fst (AList.update k c (key_counters w)) = map fst (key_counters w)" for c
      by (induction "key_counters w") (auto simp: update_keys)
    then show ?thesis by (simp add: mark_key_modified_def Let_def)
  next
    case False
    then show ?thesis by (auto simp: mark_key_modified_def Let_def update_keys)
  qed
  then show "shard_ok (mark_modified k sh) = shard_ok sh"
    by (simp add: shard_ok_def mark_modified_def) (simp add: data_get_def)
  assume "shard_ok sh"
  then show "shard_ok (data_insert k v sh) = value_ok (sv_value v)" "shard_ok (data_remove k sh)"
    "shard_ok (expiring_insert k t sh)" "shard_ok (expiring_remove k sh)"
    unfolding shard_ok_def
    by (auto simp: data_insert_def data_remove_def expiring_insert_def expiring_remove_def distinct_update
        data_get_def split: if_splits)
qed

lemma shard_ok_get: "shard_ok sh \<Longrightarrow> data_get k sh = Some sv \<Longrightarrow> value_ok (sv_value sv)"
  by (simp add: shard_ok_def)

section \<open>The whole engine\<close>

definition shard_of :: "storage_engine \<Rightarrow> nat \<Rightarrow> bytes \<Rightarrow> database_shard" where
  "shard_of e db key = databases e ! db ! get_shard_index key"

definition lookup :: "storage_engine \<Rightarrow> nat \<Rightarrow> bytes \<Rightarrow> stored_value option" where
  "lookup e db key = (if db < length (databases e) then data_get key (shard_of e db key) else None)"

definition lookup_expiring :: "storage_engine \<Rightarrow> nat \<Rightarrow> bytes \<Rightarrow> nat option" where
  "lookup_expiring e db key = (if db < length (databases e) then expiring_get key (shard_of e db key) else None)"

definition database_ok :: "database_shard list \<Rightarrow> bool" where
  "database_ok shards \<longleftrightarrow> length shards = SHARDS_PER_DATABASE \<and>
     (\<forall>i < SHARDS_PER_DATABASE. shard_ok (shards ! i) \<and>
        (\<forall>k. data_get k (shards ! i) \<noteq> None \<longrightarrow> get_shard_index k = i))"

definition engine_ok :: "storage_engine \<Rightarrow> bool" where
  "engine_ok e \<longleftrightarrow> (\<forall>shards \<in> set (databases e). database_ok shards)"

lemma database_ok_update:
  assumes "database_ok shards" "shard_ok sh" "\<And>k. data_get k sh \<noteq> None \<Longrightarrow> get_shard_index k = i"
  shows "database_ok (shards[i := sh])"
  unfolding database_ok_def
proof (intro conjI allI impI)
  show len: "length (shards[i := sh]) = SHARDS_PER_DATABASE" using assms(1) by (simp add: database_ok_def)
  fix j assume j: "j < SHARDS_PER_DATABASE"
  then have nth: "shards[i := sh] ! j = (if j = i then sh else shards ! j)" using len by (simp add: nth_list_update)
  show "shard_ok (shards[i := sh] ! j)" unfolding nth using assms(1,2) j by (simp add: database_ok_def)
  fix k assume "data_get k (shards[i := sh] ! j) \<noteq> None"
  then show "get_shard_index k = j" unfolding nth using assms(1,3) j by (auto simp: database_ok_def split: if_splits)
qed

lemma engine_ok_nth: "engine_ok e \<Longrightarrow> db < length (databases e) \<Longrightarrow> database_ok (databases e ! db)"
  by (simp add: engine_ok_def)

lemma with_config_ok: "engine_ok (with_config n m)"
  by (auto simp: engine_ok_def with_config_def database_ok_def new_database_def shard_ok_def new_shard_def data_get_def)

lemma on_shard_cases:
  assumes "db < length (databases e)" "op (shard_of e db key, memory e) = ((sh, m), r)"
  shows "on_shard db key op e =
    (e\<lparr>databases := (databases e)[db := (databases e ! db)[get_shard_index key := sh]], memory := m\<rparr>, r)"
  using assms by (simp add: on_shard_def shard_of_def Let_def)

lemma on_shard_invalid: "\<not> db < length (databases e) \<Longrightarrow> on_shard db key op e = (e, Err (Storage InvalidDatabase))"
  by (simp add: on_shard_def)

section \<open>What a shard operation promises\<close>

text \<open>
  An operation on a key keeps the shard well formed and leaves every other key alone.
\<close>

locale shard_local =
  fixes key :: bytes and op :: "'a shard_op"
  assumes keeps: "shard_ok sh \<Longrightarrow> shard_ok (fst (fst (op (sh, m))))"
    and frame: "k \<noteq> key \<Longrightarrow> data_get k (fst (fst (op (sh, m)))) = data_get k sh \<and>
      expiring_get k (fst (fst (op (sh, m)))) = expiring_get k sh"
begin

lemma engine_frame:
  assumes "engine_ok e" "(db', k) \<noteq> (db, key)"
  shows "lookup (fst (on_shard db key op e)) db' k = lookup e db' k"
    and "lookup_expiring (fst (on_shard db key op e)) db' k = lookup_expiring e db' k"
proof -
  obtain sh m r where o: "op (shard_of e db key, memory e) = ((sh, m), r)" by (metis prod.exhaust)
  have same: "data_get k sh = data_get k (shard_of e db key) \<and> expiring_get k sh = expiring_get k (shard_of e db key)"
    if "k \<noteq> key" using frame [OF that, of "shard_of e db key" "memory e"] o by simp
  have i: "get_shard_index k < length (databases e ! db)" if "db < length (databases e)" for k
    using engine_ok_nth [OF assms(1) that] get_shard_index_bound [of k] by (simp add: database_ok_def)
  show "lookup (fst (on_shard db key op e)) db' k = lookup e db' k"
    "lookup_expiring (fst (on_shard db key op e)) db' k = lookup_expiring e db' k"
    using same i assms(2) on_shard_cases [where e = e and db = db and op = op and key = key, OF _ o] on_shard_invalid [of db e key op]
    by (cases "db < length (databases e)"; cases "db' = db"; cases "get_shard_index k = get_shard_index key";
        auto simp: lookup_def lookup_expiring_def shard_of_def nth_list_update)+
qed

lemma engine_result:
  assumes "engine_ok e" "db < length (databases e)" "op (shard_of e db key, memory e) = ((sh, m), r)"
  shows "snd (on_shard db key op e) = r" "lookup (fst (on_shard db key op e)) db key = data_get key sh"
    "lookup_expiring (fst (on_shard db key op e)) db key = expiring_get key sh"
    "shard_of (fst (on_shard db key op e)) db key = sh" "memory (fst (on_shard db key op e)) = m"
proof -
  have "get_shard_index key < length (databases e ! db)"
    using engine_ok_nth [OF assms(1,2)] get_shard_index_bound [of key] by (simp add: database_ok_def)
  then show "snd (on_shard db key op e) = r" "lookup (fst (on_shard db key op e)) db key = data_get key sh"
    "lookup_expiring (fst (on_shard db key op e)) db key = expiring_get key sh"
    "shard_of (fst (on_shard db key op e)) db key = sh" "memory (fst (on_shard db key op e)) = m"
    using on_shard_cases [where e = e and db = db and op = op and key = key, OF assms(2,3)] assms(2)
    by (simp_all add: lookup_def lookup_expiring_def shard_of_def)
qed

lemma engine_keeps:
  assumes "engine_ok e"
  shows "engine_ok (fst (on_shard db key op e))"
proof (cases "db < length (databases e)")
  case True
  obtain sh m r where o: "op (shard_of e db key, memory e) = ((sh, m), r)" by (metis prod.exhaust)
  have db: "database_ok (databases e ! db)" using engine_ok_nth [OF assms True] .
  have "shard_ok (shard_of e db key)"
    using db get_shard_index_bound [of key] by (simp add: database_ok_def shard_of_def)
  then have sh: "shard_ok sh" using keeps [of "shard_of e db key" "memory e"] o by simp
  have "get_shard_index k = get_shard_index key" if "data_get k sh \<noteq> None" for k
  proof (cases "k = key")
    case False
    then have "data_get k (shard_of e db key) \<noteq> None" using that frame [OF False, of "shard_of e db key" "memory e"] o by simp
    then show ?thesis using db get_shard_index_bound [of key] by (simp add: database_ok_def shard_of_def)
  qed simp
  with sh db have "database_ok ((databases e ! db)[get_shard_index key := sh])"
    by (intro database_ok_update) auto
  then show ?thesis using assms on_shard_cases [where e = e and db = db and op = op and key = key, OF True o]
    by (auto simp: engine_ok_def dest!: set_update_subset_insert [THEN subsetD])
next
  case False
  then show ?thesis using assms by (simp add: on_shard_invalid)
qed

end

text \<open>
  An operation of the data commands moreover marks the key as modified for \<^verbatim>\<open>WATCH\<close> whenever it changes
  the key's value.
\<close>

locale shard_operation = shard_local +
  assumes tracked: "shard_ok sh \<Longrightarrow> watch_tracker (fst (fst (op (sh, m)))) = mark_key_modified key (watch_tracker sh) \<or>
      (watch_tracker (fst (fst (op (sh, m)))) = watch_tracker sh \<and>
       map_option sv_value (data_get key (fst (fst (op (sh, m))))) = map_option sv_value (data_get key sh))"
begin

text \<open>A change of the value is visible in the key's counter while the shard has watchers.\<close>

lemma watch_sees_change:
  assumes "shard_ok sh" "op (sh, m) = ((sh', m'), r)" "watchers sh \<noteq> 0"
    and "map_option sv_value (data_get key sh') \<noteq> map_option sv_value (data_get key sh)"
  shows "counter_get key sh' = global_counter (watch_tracker sh) + 1"
    and "global_counter (watch_tracker sh') = global_counter (watch_tracker sh) + 1"
  using tracked [of sh m] assms
  by (auto simp: counter_get_def get_key_counter_def mark_key_modified_def watchers_def Let_def)

end

end
