(* ===== verification/Engine_Strings.thy ===== *)
theory Engine_Strings
  imports Engine
begin

text \<open>
  The string and expiration operations of \<^verbatim>\<open>src/storage/engine.rs\<close>: each function is the work done
  under the lock of the key's shard, with the clock readings it makes as arguments.
\<close>

abbreviation wrong_type :: "'a result" where "wrong_type \<equiv> Err (Storage WrongType)"
abbreviation out_of_memory :: "'a result" where "out_of_memory \<equiv> Err (Storage OutOfMemory)"

section \<open>Writing and reading values\<close>

datatype get_result = Found val | NotFound | Expired | GetWrongType

fun set_value :: "bytes \<Rightarrow> val \<Rightarrow> nat option \<Rightarrow> nat \<Rightarrow> unit shard_op" where
  "set_value key v expires_in now (sh, m) =
     (let (m, fits) = add_memory (calculate_value_size key v) m
      in if \<not> fits then ((sh, m), out_of_memory)
         else case (case expires_in of Some d \<Rightarrow> value_with_expiration now v d | None \<Rightarrow> Some (new_value now v)) of
           None \<Rightarrow> ((sh, m), Panic)
         | Some sv \<Rightarrow>
             let sh = (case expires_at (metadata sv) of Some t \<Rightarrow> expiring_insert key t sh | None \<Rightarrow> sh);
                 sh = mark_modified key sh
             in ((data_insert key sv sh, m), Ok ()))"

definition set_string :: "bytes \<Rightarrow> bytes \<Rightarrow> nat \<Rightarrow> unit shard_op" where
  "set_string key b now = set_value key (VString b) None now"

definition set_string_ex :: "bytes \<Rightarrow> bytes \<Rightarrow> nat \<Rightarrow> nat \<Rightarrow> unit shard_op" where
  "set_string_ex key b expires_in now = set_value key (VString b) (Some expires_in) now"

fun set_string_nx :: "bytes \<Rightarrow> bytes \<Rightarrow> nat \<Rightarrow> bool shard_op" where
  "set_string_nx key b now (sh, m) =
     (if (case data_get key sh of Some sv \<Rightarrow> \<not> is_expired now sv | None \<Rightarrow> False) then ((sh, m), Ok False)
      else let (m, fits) = add_memory (calculate_value_size key (VString b)) m
           in if \<not> fits then ((sh, m), out_of_memory)
              else ((mark_modified key (data_insert key (new_value now (VString b)) sh), m), Ok True))"

fun set_string_nx_ex :: "bytes \<Rightarrow> bytes \<Rightarrow> nat \<Rightarrow> nat \<Rightarrow> nat \<Rightarrow> bool shard_op" where
  "set_string_nx_ex key b expires_in now now2 (sh, m) =
     (if (case data_get key sh of Some sv \<Rightarrow> \<not> is_expired now sv | None \<Rightarrow> False) then ((sh, m), Ok False)
      else let (m, fits) = add_memory (calculate_value_size key (VString b)) m
           in if \<not> fits then ((sh, m), out_of_memory)
              else case (value_with_expiration now (VString b) expires_in, instant_add now2 expires_in) of
                (Some sv, Some t) \<Rightarrow>
                  ((mark_modified key (data_insert key sv (expiring_insert key t sh)), m), Ok True)
              | _ \<Rightarrow> ((sh, m), Panic))"

fun engine_get :: "bytes \<Rightarrow> nat \<Rightarrow> get_result shard_op" where
  "engine_get key now (sh, m) =
     (case data_get key sh of
        Some sv \<Rightarrow>
          if is_expired now sv then
            ((expiring_remove key (data_remove key (mark_modified key sh)), m), Ok Expired)
          else ((sh, m), Ok (Found (sv_value sv)))
      | None \<Rightarrow> ((sh, m), Ok NotFound))"

fun string_of_get :: "get_result \<Rightarrow> bytes option result" where
  "string_of_get (Found (VString b)) = Ok (Some b)"
| "string_of_get (Found _) = wrong_type"
| "string_of_get NotFound = Ok None"
| "string_of_get Expired = Ok None"
| "string_of_get GetWrongType = wrong_type"

fun get_string :: "bytes \<Rightarrow> nat \<Rightarrow> bytes option shard_op" where
  "get_string key now s = (let (s, r) = engine_get key now s in (s, bind_result r string_of_get))"

fun key_exists :: "bytes \<Rightarrow> nat \<Rightarrow> bool shard_op" where
  "key_exists key now (sh, m) =
     ((sh, m), Ok (case data_get key sh of Some sv \<Rightarrow> \<not> is_expired now sv | None \<Rightarrow> False))"

fun delete_key :: "bytes \<Rightarrow> bool shard_op" where
  "delete_key key (sh, m) =
     (case data_get key sh of
        Some sv \<Rightarrow> ((expiring_remove key (mark_modified key (data_remove key sh)),
                     remove_memory (calculate_value_size key (sv_value sv)) m), Ok True)
      | None \<Rightarrow> ((sh, m), Ok False))"

section \<open>Expiration\<close>

definition set_expiration :: "nat \<Rightarrow> stored_value \<Rightarrow> stored_value" where
  "set_expiration t sv = sv\<lparr>metadata := (metadata sv)\<lparr>expires_at := Some t\<rparr>\<rparr>"

definition clear_expiration :: "stored_value \<Rightarrow> stored_value" where
  "clear_expiration sv = sv\<lparr>metadata := (metadata sv)\<lparr>expires_at := None\<rparr>\<rparr>"

lemma expiration_simps [simp]:
  "sv_value (set_expiration t sv) = sv_value sv" "expires_at (metadata (set_expiration t sv)) = Some t"
  "sv_value (clear_expiration sv) = sv_value sv" "expires_at (metadata (clear_expiration sv)) = None"
  by (simp_all add: set_expiration_def clear_expiration_def)

fun expire :: "bytes \<Rightarrow> nat \<Rightarrow> nat \<Rightarrow> nat \<Rightarrow> bool shard_op" where
  "expire key expires_in now now2 (sh, m) =
     (case data_get key sh of
        Some sv \<Rightarrow>
          (case instant_add now expires_in of
             None \<Rightarrow> ((sh, m), Panic)
           | Some t \<Rightarrow>
               let sh = data_insert key (set_expiration t sv) sh
               in (case instant_add now2 expires_in of
                     None \<Rightarrow> ((sh, m), Panic)
                   | Some t2 \<Rightarrow> ((expiring_insert key t2 sh, m), Ok True)))
      | None \<Rightarrow> ((sh, m), Ok False))"

definition pexpire :: "bytes \<Rightarrow> u64 \<Rightarrow> nat \<Rightarrow> nat \<Rightarrow> bool shard_op" where
  "pexpire key ms now now2 = expire key (unat ms * 1000000) now now2"

fun ttl :: "bytes \<Rightarrow> nat \<Rightarrow> nat option shard_op" where
  "ttl key now (sh, m) =
     ((sh, m), Ok (case data_get key sh of
        Some sv \<Rightarrow> (case expires_at (metadata sv) of
            Some t \<Rightarrow> if t > now then Some (t - now) else Some 0
          | None \<Rightarrow> None)
      | None \<Rightarrow> None))"

fun pttl :: "bytes \<Rightarrow> nat \<Rightarrow> nat \<Rightarrow> i64 shard_op" where
  "pttl key now now2 s =
     (let (s, t) = ttl key now s
      in (case t of
            Ok (Some d) \<Rightarrow> (s, Ok (word_of_nat (d div 1000000)))
          | Ok None \<Rightarrow> (let (s, ex) = key_exists key now2 s in (s, bind_result ex (\<lambda>b. Ok (if b then - 1 else - 2))))
          | Err e \<Rightarrow> (s, Err e)
          | Panic \<Rightarrow> (s, Panic)))"

fun persist :: "bytes \<Rightarrow> bool shard_op" where
  "persist key (sh, m) =
     (case data_get key sh of
        Some sv \<Rightarrow>
          if expires_at (metadata sv) \<noteq> None then
            ((expiring_remove key (data_insert key (clear_expiration sv) sh), m), Ok True)
          else ((sh, m), Ok False)
      | None \<Rightarrow> ((sh, m), Ok False))"

section \<open>Counters and string editing\<close>

fun incr_by :: "bytes \<Rightarrow> i64 \<Rightarrow> nat \<Rightarrow> i64 shard_op" where
  "incr_by key increment now (sh, m) =
     (case data_get key sh of
        Some sv \<Rightarrow>
          (case as_integer (sv_value sv) of
             Some current \<Rightarrow>
               (case checked_add_i64 current increment of
                  Some new_val \<Rightarrow>
                    ((mark_modified key (data_insert key (set_val (integer_value new_val) sv) sh), m), Ok new_val)
                | None \<Rightarrow> ((sh, m), Err (Command (Generic ''increment or decrement would overflow''))))
           | None \<Rightarrow> ((sh, m), Err (Command NotInteger)))
      | None \<Rightarrow>
          let sv = new_value now (integer_value increment);
              (m, fits) = add_memory (calculate_value_size key (sv_value sv)) m
          in if \<not> fits then ((sh, m), out_of_memory)
             else ((mark_modified key (data_insert key sv sh), m), Ok increment))"

definition incr :: "bytes \<Rightarrow> nat \<Rightarrow> i64 shard_op" where
  "incr key now = incr_by key 1 now"

fun append_string :: "bytes \<Rightarrow> bytes \<Rightarrow> nat \<Rightarrow> nat shard_op" where
  "append_string key v now (sh, m) =
     (case data_get key sh of
        Some sv \<Rightarrow>
          (case sv_value sv of
             VString b \<Rightarrow>
               ((mark_modified key (data_insert key (set_val (VString (b @ v)) sv) sh), m), Ok (length (b @ v)))
           | _ \<Rightarrow> ((sh, m), wrong_type))
      | None \<Rightarrow> ((mark_modified key (data_insert key (new_value now (VString v)) sh), m), Ok (length v)))"

fun strlen :: "bytes \<Rightarrow> nat shard_op" where
  "strlen key (sh, m) =
     (case data_get key sh of
        Some sv \<Rightarrow> (case sv_value sv of VString b \<Rightarrow> ((sh, m), Ok (length b)) | _ \<Rightarrow> ((sh, m), wrong_type))
      | None \<Rightarrow> ((sh, m), Ok 0))"

text \<open>The slice \<^verbatim>\<open>bytes[start..=end]\<close> panics when its end is \<^verbatim>\<open>usize::MAX\<close> or beyond the string.\<close>

definition slice_inclusive :: "bytes \<Rightarrow> nat \<Rightarrow> nat \<Rightarrow> bytes result" where
  "slice_inclusive b start stop = (if stop < length b then Ok (take (stop + 1 - start) (drop start b)) else Panic)"

definition getrange_bytes :: "bytes \<Rightarrow> int \<Rightarrow> int \<Rightarrow> bytes result" where
  "getrange_bytes b start stop =
     (let len = int (length b);
          s = nat (if start < 0 then max 0 (len + start) else start);
          t = (if stop < 0 then (if max (- 1) (len + stop) = - 1 then usize_max else nat (len + stop))
               else min (nat stop) (if length b = 0 then usize_max else length b - 1))
      in if s > t \<or> s \<ge> length b then Ok [] else slice_inclusive b s t)"

fun getrange :: "bytes \<Rightarrow> int \<Rightarrow> int \<Rightarrow> bytes shard_op" where
  "getrange key start stop (sh, m) =
     (case data_get key sh of
        Some sv \<Rightarrow>
          (case sv_value sv of VString b \<Rightarrow> ((sh, m), getrange_bytes b start stop) | _ \<Rightarrow> ((sh, m), wrong_type))
      | None \<Rightarrow> ((sh, m), Ok []))"

text \<open>
  \<^verbatim>\<open>setrange\<close>: the required length is a \<^verbatim>\<open>usize\<close> sum, which wraps; a length above \<^verbatim>\<open>isize::MAX\<close> is a
  capacity overflow, and a wrapped sum makes the slice bounds cross.
\<close>

definition setrange_bytes :: "bytes \<Rightarrow> nat \<Rightarrow> bytes \<Rightarrow> bytes result" where
  "setrange_bytes b offset v =
     (let required = (offset + length v) mod 18446744073709551616
      in if required > length b \<and> required > nat isize_max then Panic
         else let b = (if required > length b then b @ replicate (required - length b) (CHR 0x00) else b)
              in if offset > required then Panic
                 else Ok (take offset b @ v @ drop (offset + length v) b))"

fun setrange :: "bytes \<Rightarrow> nat \<Rightarrow> bytes \<Rightarrow> nat \<Rightarrow> nat shard_op" where
  "setrange key offset v now (sh, m) =
     (case data_get key sh of
        Some sv \<Rightarrow>
          (case sv_value sv of
             VString b \<Rightarrow>
               (case setrange_bytes b offset v of
                  Ok b' \<Rightarrow> ((mark_modified key (data_insert key (set_val (VString b') sv) sh), m), Ok (length b'))
                | Err e \<Rightarrow> ((sh, m), Err e)
                | Panic \<Rightarrow> ((sh, m), Panic))
           | _ \<Rightarrow> ((sh, m), wrong_type))
      | None \<Rightarrow>
          (case setrange_bytes [] offset v of
             Ok b' \<Rightarrow> ((mark_modified key (data_insert key (new_value now (VString b')) sh), m), Ok (length b'))
           | Err e \<Rightarrow> ((sh, m), Err e)
           | Panic \<Rightarrow> ((sh, m), Panic)))"

definition type_name :: "val \<Rightarrow> string" where
  "type_name v = (case v of VString _ \<Rightarrow> ''string'' | VList _ \<Rightarrow> ''list'' | VSet _ \<Rightarrow> ''set'' | VHash _ \<Rightarrow> ''hash''
     | VSortedSet _ \<Rightarrow> ''zset'' | VStream _ \<Rightarrow> ''stream'')"

fun key_type :: "bytes \<Rightarrow> string shard_op" where
  "key_type key (sh, m) =
     ((sh, m), Ok (case data_get key sh of Some sv \<Rightarrow> type_name (sv_value sv) | None \<Rightarrow> ''none''))"

section \<open>The operations keep the contract of a shard operation\<close>

lemma watch_tracker_simps [simp]:
  "watch_tracker (mark_modified k sh) = mark_key_modified k (watch_tracker sh)"
  "watch_tracker (data_insert k v sh) = watch_tracker sh"
  "watch_tracker (data_remove k sh) = watch_tracker sh"
  "watch_tracker (expiring_insert k t sh) = watch_tracker sh"
  "watch_tracker (expiring_remove k sh) = watch_tracker sh"
  by (simp_all add: mark_modified_def data_insert_def data_remove_def expiring_insert_def expiring_remove_def)

lemma new_value_simps [simp]:
  "sv_value (new_value now v) = v" "expires_at (metadata (new_value now v)) = None"
  by (simp_all add: new_value_def new_metadata_def)

lemma value_with_expiration_Some [simp]:
  "value_with_expiration now v d = Some sv \<Longrightarrow> sv_value sv = v \<and> expires_at (metadata sv) = Some (now + d)"
  by (auto simp: value_with_expiration_def instant_add_def split: if_splits)

text \<open>Goals of \<open>unfold_locales\<close> for a shard operation are closed by splitting every branch of its body.\<close>

lemmas op_splits = option.splits val.splits result.splits if_splits prod.splits

lemma set_value_operation:
  assumes "value_ok v"
  shows "shard_operation key (set_value key v expires_in now)"
  by unfold_locales (use assms in \<open>auto simp: Let_def split: op_splits\<close>)

interpretation set_string: shard_operation key "set_string key b now" for key b now
  unfolding set_string_def by (rule set_value_operation) simp

interpretation set_string_ex: shard_operation key "set_string_ex key b d now" for key b d now
  unfolding set_string_ex_def by (rule set_value_operation) simp

interpretation set_string_nx: shard_operation key "set_string_nx key b now" for key b now
  by unfold_locales (auto simp: Let_def split: op_splits)

interpretation set_string_nx_ex: shard_operation key "set_string_nx_ex key b d now now2" for key b d now now2
  by unfold_locales (auto simp: Let_def split: op_splits)

interpretation engine_get: shard_operation key "engine_get key now" for key now
  by unfold_locales (auto split: op_splits)

interpretation get_string: shard_operation key "get_string key now" for key now
  by unfold_locales (auto simp: Let_def split: op_splits)

interpretation key_exists: shard_operation key "key_exists key now" for key now
  by unfold_locales auto

interpretation delete_key: shard_operation key "delete_key key" for key
  by unfold_locales (auto split: op_splits)

interpretation expire: shard_operation key "expire key d now now2" for key d now now2
  by unfold_locales (auto simp: Let_def shard_ok_get split: op_splits)

interpretation pexpire: shard_operation key "pexpire key ms now now2" for key ms now now2
  unfolding pexpire_def by unfold_locales

interpretation ttl: shard_operation key "ttl key now" for key now
  by unfold_locales auto

interpretation pttl: shard_operation key "pttl key now now2" for key now now2
  by unfold_locales (auto simp: Let_def split: op_splits)

interpretation persist: shard_operation key "persist key" for key
  by unfold_locales (auto simp: shard_ok_get split: op_splits)

interpretation incr_by: shard_operation key "incr_by key n now" for key n now
  by unfold_locales (auto simp: Let_def split: op_splits)

interpretation incr: shard_operation key "incr key now" for key now
  unfolding incr_def by unfold_locales

interpretation append_string: shard_operation key "append_string key v now" for key v now
  by unfold_locales (auto split: op_splits)

interpretation strlen: shard_operation key "strlen key" for key
  by unfold_locales (auto split: op_splits)

interpretation getrange: shard_operation key "getrange key start stop" for key start stop
  by unfold_locales (auto split: op_splits)

interpretation setrange: shard_operation key "setrange key off v now" for key off v now
  by unfold_locales (auto split: op_splits)

interpretation key_type: shard_operation key "key_type key" for key
  by unfold_locales auto

end
