(* ===== verification/Engine_Lists.thy ===== *)
theory Engine_Lists
  imports Engine_Strings
begin

text \<open>
  The list operations of \<^verbatim>\<open>src/storage/engine.rs\<close> (a \<^verbatim>\<open>VecDeque\<close> is a list, its front the head).
  The loops of \<^verbatim>\<open>LRANGE\<close>, \<^verbatim>\<open>LTRIM\<close> and \<^verbatim>\<open>LREM\<close> are the source's; the properties relate them to the
  usual list functions.
\<close>

section \<open>Pushing and popping\<close>

fun push_front_all :: "bytes list \<Rightarrow> bytes list \<Rightarrow> bytes list" where
  "push_front_all [] l = l"
| "push_front_all (x # xs) l = push_front_all xs (x # l)"

fun push_back_all :: "bytes list \<Rightarrow> bytes list \<Rightarrow> bytes list" where
  "push_back_all [] l = l"
| "push_back_all (x # xs) l = push_back_all xs (l @ [x])"

fun lpush :: "bytes \<Rightarrow> bytes list \<Rightarrow> nat \<Rightarrow> nat shard_op" where
  "lpush key elements now (sh, m) =
     (case data_get key sh of
        Some sv \<Rightarrow>
          (case sv_value sv of
             VList l \<Rightarrow>
               let l = push_front_all elements l
               in ((mark_modified key (data_insert key (set_val (VList l) sv) sh), m), Ok (length l))
           | _ \<Rightarrow> ((sh, m), wrong_type))
      | None \<Rightarrow>
          let l = push_front_all elements []
          in ((mark_modified key (data_insert key (new_value now (VList l)) sh), m), Ok (length l)))"

fun rpush :: "bytes \<Rightarrow> bytes list \<Rightarrow> nat \<Rightarrow> nat shard_op" where
  "rpush key elements now (sh, m) =
     (case data_get key sh of
        Some sv \<Rightarrow>
          (case sv_value sv of
             VList l \<Rightarrow>
               let l = push_back_all elements l
               in ((mark_modified key (data_insert key (set_val (VList l) sv) sh), m), Ok (length l))
           | _ \<Rightarrow> ((sh, m), wrong_type))
      | None \<Rightarrow>
          let l = push_back_all elements []
          in ((mark_modified key (data_insert key (new_value now (VList l)) sh), m), Ok (length l)))"

text \<open>The end of every list removal: store what is left, or drop the key when nothing is.\<close>

definition store_or_remove :: "bytes \<Rightarrow> stored_value \<Rightarrow> val \<Rightarrow> bool \<Rightarrow> database_shard \<Rightarrow> database_shard" where
  "store_or_remove key sv v gone sh =
     (if gone then data_remove key (data_insert key (set_val v sv) sh) else data_insert key (set_val v sv) sh)"

fun lpop :: "bytes \<Rightarrow> bytes option shard_op" where
  "lpop key (sh, m) =
     (case data_get key sh of
        Some sv \<Rightarrow>
          (case sv_value sv of
             VList l \<Rightarrow>
               let element = (case l of [] \<Rightarrow> None | x # _ \<Rightarrow> Some x);
                   l = tl l;
                   sh = (if element \<noteq> None then mark_modified key sh else sh)
               in ((store_or_remove key sv (VList l) (l = []) sh, m), Ok element)
           | _ \<Rightarrow> ((sh, m), wrong_type))
      | None \<Rightarrow> ((sh, m), Ok None))"

fun rpop :: "bytes \<Rightarrow> bytes option shard_op" where
  "rpop key (sh, m) =
     (case data_get key sh of
        Some sv \<Rightarrow>
          (case sv_value sv of
             VList l \<Rightarrow>
               let element = (if l = [] then None else Some (last l));
                   l = butlast l;
                   sh = (if element \<noteq> None then mark_modified key sh else sh)
               in ((store_or_remove key sv (VList l) (l = []) sh, m), Ok element)
           | _ \<Rightarrow> ((sh, m), wrong_type))
      | None \<Rightarrow> ((sh, m), Ok None))"

section \<open>Reading\<close>

fun llen :: "bytes \<Rightarrow> nat shard_op" where
  "llen key (sh, m) =
     (case data_get key sh of
        Some sv \<Rightarrow> (case sv_value sv of VList l \<Rightarrow> ((sh, m), Ok (length l)) | _ \<Rightarrow> ((sh, m), wrong_type))
      | None \<Rightarrow> ((sh, m), Ok 0))"

definition clamp_index :: "int \<Rightarrow> int \<Rightarrow> nat" where
  "clamp_index len i = nat (if i < 0 then max (len + i) 0 else i)"

fun lrange_loop :: "nat \<Rightarrow> nat \<Rightarrow> nat \<Rightarrow> bytes list \<Rightarrow> bytes list" where
  "lrange_loop start stop i [] = []"
| "lrange_loop start stop i (x # xs) =
     (let rest = (if i > stop then [] else lrange_loop start stop (Suc i) xs)
      in if i \<ge> start \<and> i \<le> stop then x # rest else rest)"

fun lrange :: "bytes \<Rightarrow> int \<Rightarrow> int \<Rightarrow> bytes list shard_op" where
  "lrange key start stop (sh, m) =
     (case data_get key sh of
        Some sv \<Rightarrow>
          (case sv_value sv of
             VList l \<Rightarrow>
               let len = int (length l)
               in ((sh, m), Ok (lrange_loop (clamp_index len start) (clamp_index len stop) 0 l))
           | _ \<Rightarrow> ((sh, m), wrong_type))
      | None \<Rightarrow> ((sh, m), Ok []))"

fun lindex :: "bytes \<Rightarrow> int \<Rightarrow> bytes option shard_op" where
  "lindex key index (sh, m) =
     (case data_get key sh of
        Some sv \<Rightarrow>
          (case sv_value sv of
             VList l \<Rightarrow>
               let len = int (length l);
                   idx = (if index < 0 then len + index else index)
               in ((sh, m), Ok (if idx \<ge> 0 \<and> idx < len then Some (l ! nat idx) else None))
           | _ \<Rightarrow> ((sh, m), wrong_type))
      | None \<Rightarrow> ((sh, m), Ok None))"

section \<open>Editing\<close>

fun lset :: "bytes \<Rightarrow> int \<Rightarrow> bytes \<Rightarrow> unit shard_op" where
  "lset key index v (sh, m) =
     (case data_get key sh of
        Some sv \<Rightarrow>
          (case sv_value sv of
             VList l \<Rightarrow>
               let len = int (length l);
                   idx = (if index < 0 then len + index else index)
               in if idx \<ge> 0 \<and> idx < len then
                    ((mark_modified key (data_insert key (set_val (VList (l[nat idx := v])) sv) sh), m), Ok ())
                  else ((sh, m), Err (Command IndexOutOfRange))
           | _ \<Rightarrow> ((sh, m), wrong_type))
      | None \<Rightarrow> ((sh, m), Err (Command NoSuchKey)))"

fun ltrim_loop :: "nat \<Rightarrow> nat \<Rightarrow> nat \<Rightarrow> bytes list \<Rightarrow> bytes list" where
  "ltrim_loop start stop i [] = []"
| "ltrim_loop start stop i (x # xs) =
     (if i \<ge> start \<and> i \<le> stop then x # ltrim_loop start stop (Suc i) xs else ltrim_loop start stop (Suc i) xs)"

fun ltrim :: "bytes \<Rightarrow> int \<Rightarrow> int \<Rightarrow> unit shard_op" where
  "ltrim key start stop (sh, m) =
     (case data_get key sh of
        Some sv \<Rightarrow>
          (case sv_value sv of
             VList l \<Rightarrow>
               let len = int (length l);
                   l = ltrim_loop (clamp_index len start) (clamp_index len stop) 0 l
               in ((store_or_remove key sv (VList l) (l = []) (mark_modified key sh), m), Ok ())
           | _ \<Rightarrow> ((sh, m), wrong_type))
      | None \<Rightarrow> ((sh, m), Ok ()))"

text \<open>The loop over the drained list: what is kept (in the order met) and how many were removed.\<close>

fun lrem_loop :: "bytes \<Rightarrow> nat \<Rightarrow> nat \<Rightarrow> bytes list \<Rightarrow> bytes list \<times> nat" where
  "lrem_loop element to_remove removed [] = ([], removed)"
| "lrem_loop element to_remove removed (x # xs) =
     (if x = element \<and> to_remove > 0 then lrem_loop element (to_remove - 1) (removed + 1) xs
      else let (kept, n) = lrem_loop element to_remove removed xs in (x # kept, n))"

definition lrem_list :: "int \<Rightarrow> bytes \<Rightarrow> bytes list \<Rightarrow> bytes list \<times> nat" where
  "lrem_list count element l =
     (if count = 0 then (filter (\<lambda>x. x \<noteq> element) l, length (filter (\<lambda>x. x = element) l))
      else if count > 0 then lrem_loop element (nat count) 0 l
      else let (kept, n) = lrem_loop element (nat (- count)) 0 (rev l) in (rev kept, n))"

fun lrem :: "bytes \<Rightarrow> int \<Rightarrow> bytes \<Rightarrow> nat shard_op" where
  "lrem key count element (sh, m) =
     (case data_get key sh of
        Some sv \<Rightarrow>
          (case sv_value sv of
             VList l \<Rightarrow>
               let (l, removed) = lrem_list count element l;
                   sh = (if removed > 0 then mark_modified key sh else sh)
               in ((store_or_remove key sv (VList l) (l = []) sh, m), Ok removed)
           | _ \<Rightarrow> ((sh, m), wrong_type))
      | None \<Rightarrow> ((sh, m), Ok 0))"

section \<open>The loops and the usual list functions\<close>

lemma push_front_all_rev [simp]: "push_front_all xs l = rev xs @ l"
  by (induction xs arbitrary: l) auto

lemma push_back_all_append [simp]: "push_back_all xs l = l @ xs"
  by (induction xs arbitrary: l) auto

lemma ltrim_loop_slice: "ltrim_loop start stop i l = drop (start - i) (take (Suc stop - i) l)"
  by (induction l arbitrary: i) (auto simp: Let_def take_Cons' drop_Cons')

lemma lrange_loop_slice: "lrange_loop start stop i l = drop (start - i) (take (Suc stop - i) l)"
  by (induction l arbitrary: i) (auto simp: Let_def take_Cons' drop_Cons')

lemma lrem_loop_spec:
  "lrem_loop e k r l = (kept, n) \<Longrightarrow>
     n = r + min k (count_list l e) \<and> length kept + n = length l + r \<and>
     filter (\<lambda>x. x \<noteq> e) kept = filter (\<lambda>x. x \<noteq> e) l"
proof (induction e k r l arbitrary: kept n rule: lrem_loop.induct)
  case (2 e k r x xs)
  show ?case
  proof (cases "x = e \<and> k > 0")
    case True
    then show ?thesis using "2.IH"(1) [OF True] "2.prems" by auto
  next
    case False
    obtain kept' n' where rest: "lrem_loop e k r xs = (kept', n')" by (metis prod.exhaust)
    then have "kept = x # kept'" "n = n'" using False "2.prems" by (auto split: if_splits)
    then show ?thesis using "2.IH"(2) [OF False rest] False by auto
  qed
qed simp

lemma lrem_loop_nothing: "lrem_loop e k r l = (kept, r) \<Longrightarrow> kept = l"
proof (induction l arbitrary: kept)
  case (Cons x xs)
  show ?case
  proof (cases "x = e \<and> k > 0")
    case True
    then have "lrem_loop e (k - 1) (r + 1) xs = (kept, r)" using Cons.prems by simp
    from lrem_loop_spec [OF this] show ?thesis by simp
  next
    case False
    then show ?thesis using Cons by (auto split: prod.splits)
  qed
qed simp

lemma lrem_list_nothing: "lrem_list c e l = (kept, 0) \<Longrightarrow> kept = l"
  by (auto simp: lrem_list_def filter_empty_conv filter_id_conv split: if_splits prod.splits dest: lrem_loop_nothing)

lemma lrem_list_spec:
  assumes "lrem_list c e l = (kept, n)"
  shows "n = (if c = 0 then count_list l e else min (nat \<bar>c\<bar>) (count_list l e))"
    "length kept + n = length l" "filter (\<lambda>x. x \<noteq> e) kept = filter (\<lambda>x. x \<noteq> e) l"
proof -
  have "n = (if c = 0 then count_list l e else min (nat \<bar>c\<bar>) (count_list l e)) \<and> length kept + n = length l \<and>
    filter (\<lambda>x. x \<noteq> e) kept = filter (\<lambda>x. x \<noteq> e) l"
  proof (cases "c < 0")
    case True
    then obtain kept' where k: "lrem_loop e (nat (- c)) 0 (rev l) = (kept', n)" "kept = rev kept'"
      using assms by (auto simp: lrem_list_def split: prod.splits)
    from lrem_loop_spec [OF k(1)] True show ?thesis
      by (auto simp: k(2) rev_filter [symmetric] abs_if)
  next
    case False
    have same: "(=) e = (\<lambda>x. x = e)" by auto
    show ?thesis using False assms sum_length_filter_compl [of "\<lambda>x. x = e" l]
      by (auto simp: lrem_list_def count_list_eq_length_filter same add.commute split: if_splits
          dest!: lrem_loop_spec)
  qed
  then show "n = (if c = 0 then count_list l e else min (nat \<bar>c\<bar>) (count_list l e))"
    "length kept + n = length l" "filter (\<lambda>x. x \<noteq> e) kept = filter (\<lambda>x. x \<noteq> e) l" by auto
qed

section \<open>Contracts\<close>

lemma store_or_remove_simps [simp]:
  "data_get k (store_or_remove key sv v gone sh) =
     (if k = key then if gone then None else Some (set_val v sv) else data_get k sh)"
  "expiring_get k (store_or_remove key sv v gone sh) = expiring_get k sh"
  "watch_tracker (store_or_remove key sv v gone sh) = watch_tracker sh"
  by (simp_all add: store_or_remove_def)

lemma data_remove_insert [simp]:
  "data_remove k (data_insert k v sh) = data_remove k sh"
  "data_remove k (mark_modified k' (data_insert k v sh)) = data_remove k (mark_modified k' sh)"
  by (simp_all add: data_remove_def data_insert_def mark_modified_def)

lemma shard_ok_store [simp]:
  "shard_ok sh \<Longrightarrow> shard_ok (store_or_remove key sv v gone sh) = (gone \<or> value_ok v)"
  by (simp add: store_or_remove_def)

lemma stored_list_nonempty: "shard_ok sh \<Longrightarrow> data_get k sh = Some sv \<Longrightarrow> sv_value sv = VList l \<Longrightarrow> l \<noteq> []"
  using shard_ok_get [of sh k sv] by simp

lemma lpush_operation: "elements \<noteq> [] \<Longrightarrow> shard_operation key (lpush key elements now)"
  by unfold_locales (auto simp: Let_def split: op_splits)

lemma rpush_operation: "elements \<noteq> [] \<Longrightarrow> shard_operation key (rpush key elements now)"
  by unfold_locales (auto simp: Let_def split: op_splits)

interpretation lpop: shard_operation key "lpop key" for key
  by unfold_locales (auto simp: Let_def dest: shard_ok_get split: op_splits list.splits)

interpretation rpop: shard_operation key "rpop key" for key
  by unfold_locales (auto simp: Let_def dest: shard_ok_get split: op_splits)

interpretation llen: shard_operation key "llen key" for key
  by unfold_locales (auto split: op_splits)

interpretation lrange: shard_operation key "lrange key start stop" for key start stop
  by unfold_locales (auto simp: Let_def split: op_splits)

interpretation lindex: shard_operation key "lindex key i" for key i
  by unfold_locales (auto simp: Let_def split: op_splits)

interpretation lset: shard_operation key "lset key i v" for key i v
  by unfold_locales (auto simp: Let_def dest: shard_ok_get split: op_splits)

interpretation ltrim: shard_operation key "ltrim key start stop" for key start stop
  by unfold_locales (auto simp: Let_def split: op_splits)

interpretation lrem: shard_operation key "lrem key c el" for key c el
  by unfold_locales (auto simp: Let_def dest: lrem_list_nothing stored_list_nonempty split: op_splits)

end
