(* ===== verification/Engine_Sets.thy ===== *)
theory Engine_Sets
  imports Engine_Lists
begin

text \<open>
  The set operations of \<^verbatim>\<open>src/storage/engine.rs\<close>.  The random choices of \<^verbatim>\<open>SRANDMEMBER\<close> and \<^verbatim>\<open>SPOP\<close> come
  from the \<^verbatim>\<open>rand\<close> crate: \<open>shuffle\<close> and \<open>pick\<close> are parameters.
\<close>

section \<open>Members\<close>

definition hash_set_insert :: "bytes \<Rightarrow> bytes list \<Rightarrow> bytes list \<times> bool" where
  "hash_set_insert x s = (if x \<in> set s then (s, False) else (s @ [x], True))"

definition hash_set_remove :: "bytes \<Rightarrow> bytes list \<Rightarrow> bytes list \<times> bool" where
  "hash_set_remove x s = (filter (\<lambda>y. y \<noteq> x) s, x \<in> set s)"

fun insert_members :: "bytes list \<Rightarrow> bytes list \<Rightarrow> nat \<Rightarrow> bytes list \<times> nat" where
  "insert_members [] s added = (s, added)"
| "insert_members (x # xs) s added =
     (let (s, new) = hash_set_insert x s in insert_members xs s (if new then added + 1 else added))"

fun remove_members :: "bytes list \<Rightarrow> bytes list \<Rightarrow> nat \<Rightarrow> bytes list \<times> nat" where
  "remove_members [] s removed = (s, removed)"
| "remove_members (x # xs) s removed =
     (let (s, old) = hash_set_remove x s in remove_members xs s (if old then removed + 1 else removed))"

fun sadd :: "bytes \<Rightarrow> bytes list \<Rightarrow> nat \<Rightarrow> nat shard_op" where
  "sadd key members now (sh, m) =
     (case data_get key sh of
        Some sv \<Rightarrow>
          (case sv_value sv of
             VSet s \<Rightarrow>
               let (s, added) = insert_members members s 0;
                   sh = data_insert key (set_val (VSet s) sv) sh
               in ((if added > 0 then mark_modified key sh else sh, m), Ok added)
           | _ \<Rightarrow> ((sh, m), wrong_type))
      | None \<Rightarrow>
          let (s, added) = insert_members members [] 0
          in ((mark_modified key (data_insert key (new_value now (VSet s)) sh), m), Ok added))"

fun srem :: "bytes \<Rightarrow> bytes list \<Rightarrow> nat shard_op" where
  "srem key members (sh, m) =
     (case data_get key sh of
        Some sv \<Rightarrow>
          (case sv_value sv of
             VSet s \<Rightarrow>
               let (s, removed) = remove_members members s 0;
                   sh = data_insert key (set_val (VSet s) sv) sh
               in ((if s = [] then data_remove key (mark_modified key sh)
                    else if removed > 0 then mark_modified key sh
                    else sh, m), Ok removed)
           | _ \<Rightarrow> ((sh, m), wrong_type))
      | None \<Rightarrow> ((sh, m), Ok 0))"

fun smembers :: "bytes \<Rightarrow> bytes list shard_op" where
  "smembers key (sh, m) =
     (case data_get key sh of
        Some sv \<Rightarrow> (case sv_value sv of VSet s \<Rightarrow> ((sh, m), Ok s) | _ \<Rightarrow> ((sh, m), wrong_type))
      | None \<Rightarrow> ((sh, m), Ok []))"

fun sismember :: "bytes \<Rightarrow> bytes \<Rightarrow> bool shard_op" where
  "sismember key member (sh, m) =
     (case data_get key sh of
        Some sv \<Rightarrow> (case sv_value sv of VSet s \<Rightarrow> ((sh, m), Ok (member \<in> set s)) | _ \<Rightarrow> ((sh, m), wrong_type))
      | None \<Rightarrow> ((sh, m), Ok False))"

fun scard :: "bytes \<Rightarrow> nat shard_op" where
  "scard key (sh, m) =
     (case data_get key sh of
        Some sv \<Rightarrow> (case sv_value sv of VSet s \<Rightarrow> ((sh, m), Ok (length s)) | _ \<Rightarrow> ((sh, m), wrong_type))
      | None \<Rightarrow> ((sh, m), Ok 0))"

section \<open>Random members\<close>

text \<open>\<^verbatim>\<open>Vec::with_capacity(n)\<close> of 24-byte elements panics above \<^verbatim>\<open>isize::MAX\<close> bytes.\<close>

definition srandmember_list :: "(bytes list \<Rightarrow> bytes list) \<Rightarrow> (nat \<Rightarrow> bytes list \<Rightarrow> bytes) \<Rightarrow> i64 \<Rightarrow> bytes list \<Rightarrow> bytes list result" where
  "srandmember_list shuffle pick c members =
     (if members = [] then Ok []
      else if sint c \<ge> 0 then Ok (take (min (nat (sint c)) (length members)) (shuffle members))
      else let n = unat (- c)
           in if n * 24 > nat isize_max then Panic else Ok (map (\<lambda>i. pick i members) [0..<n]))"

fun srandmember :: "(bytes list \<Rightarrow> bytes list) \<Rightarrow> (nat \<Rightarrow> bytes list \<Rightarrow> bytes) \<Rightarrow> bytes \<Rightarrow> i64 \<Rightarrow> bytes list shard_op" where
  "srandmember shuffle pick key c (sh, m) =
     (case data_get key sh of
        Some sv \<Rightarrow>
          (case sv_value sv of
             VSet s \<Rightarrow> ((sh, m), srandmember_list shuffle pick c s)
           | _ \<Rightarrow> ((sh, m), wrong_type))
      | None \<Rightarrow> ((sh, m), Ok []))"

fun spop :: "(bytes list \<Rightarrow> bytes list) \<Rightarrow> bytes \<Rightarrow> nat \<Rightarrow> bytes list shard_op" where
  "spop shuffle key c (sh, m) =
     (case data_get key sh of
        Some sv \<Rightarrow>
          (case sv_value sv of
             VSet s \<Rightarrow>
               if s = [] then ((sh, m), Ok [])
               else let members = shuffle s;
                        popped = take (min c (length members)) members;
                        (s, _) = remove_members popped s 0;
                        sh = (if popped \<noteq> [] then mark_modified key sh else sh)
                    in ((store_or_remove key sv (VSet s) (s = []) sh, m), Ok popped)
           | _ \<Rightarrow> ((sh, m), wrong_type))
      | None \<Rightarrow> ((sh, m), Ok []))"

section \<open>Union, intersection and difference\<close>

text \<open>The operations over several keys lock the shards one after the other and change none.\<close>

definition stored_at :: "storage_engine \<Rightarrow> nat \<Rightarrow> bytes \<Rightarrow> stored_value option result" where
  "stored_at e db key =
     (if db < length (databases e) then Ok (data_get key (databases e ! db ! get_shard_index key))
      else Err (Storage InvalidDatabase))"

fun sunion_loop :: "storage_engine \<Rightarrow> nat \<Rightarrow> bytes list \<Rightarrow> bytes list \<Rightarrow> bytes list result" where
  "sunion_loop e db [] acc = Ok acc"
| "sunion_loop e db (key # ks) acc =
     bind_result (stored_at e db key) (\<lambda>stored.
       case stored of
         Some sv \<Rightarrow>
           (case sv_value sv of
              VSet s \<Rightarrow> sunion_loop e db ks (fst (insert_members s acc 0))
            | _ \<Rightarrow> wrong_type)
       | None \<Rightarrow> sunion_loop e db ks acc)"

definition sunion :: "storage_engine \<Rightarrow> nat \<Rightarrow> bytes list \<Rightarrow> bytes list result" where
  "sunion e db ks = (if ks = [] then Ok [] else sunion_loop e db ks [])"

fun sinter_loop :: "storage_engine \<Rightarrow> nat \<Rightarrow> bytes list \<Rightarrow> bytes list \<Rightarrow> bytes list result" where
  "sinter_loop e db [] acc = Ok acc"
| "sinter_loop e db (key # ks) acc =
     bind_result (stored_at e db key) (\<lambda>stored.
       case stored of
         Some sv \<Rightarrow>
           (case sv_value sv of
              VSet s \<Rightarrow> sinter_loop e db ks (filter (\<lambda>x. x \<in> set s) acc)
            | _ \<Rightarrow> wrong_type)
       | None \<Rightarrow> Ok [])"

fun sdiff_loop :: "storage_engine \<Rightarrow> nat \<Rightarrow> bytes list \<Rightarrow> bytes list \<Rightarrow> bytes list result" where
  "sdiff_loop e db [] acc = Ok acc"
| "sdiff_loop e db (key # ks) acc =
     bind_result (stored_at e db key) (\<lambda>stored.
       case stored of
         Some sv \<Rightarrow>
           (case sv_value sv of
              VSet s \<Rightarrow> sdiff_loop e db ks (fst (remove_members s acc 0))
            | _ \<Rightarrow> wrong_type)
       | None \<Rightarrow> sdiff_loop e db ks acc)"

fun from_first_set :: "(bytes list \<Rightarrow> bytes list \<Rightarrow> bytes list result) \<Rightarrow> storage_engine \<Rightarrow> nat \<Rightarrow> bytes list \<Rightarrow> bytes list result" where
  "from_first_set loop e db [] = Ok []"
| "from_first_set loop e db (first_key # ks) =
     bind_result (stored_at e db first_key) (\<lambda>stored.
       case stored of
         Some sv \<Rightarrow> (case sv_value sv of VSet s \<Rightarrow> loop ks s | _ \<Rightarrow> wrong_type)
       | None \<Rightarrow> Ok [])"

definition sinter :: "storage_engine \<Rightarrow> nat \<Rightarrow> bytes list \<Rightarrow> bytes list result" where
  "sinter e db ks = from_first_set (sinter_loop e db) e db ks"

definition sdiff :: "storage_engine \<Rightarrow> nat \<Rightarrow> bytes list \<Rightarrow> bytes list result" where
  "sdiff e db ks = from_first_set (sdiff_loop e db) e db ks"

section \<open>Members as sets\<close>

lemma insert_members_spec:
  "insert_members xs s a = (s', n) \<Longrightarrow> distinct s \<Longrightarrow>
     distinct s' \<and> set s' = set s \<union> set xs \<and> length s' = length s + (n - a) \<and> a \<le> n"
proof (induction xs arbitrary: s a)
  case (Cons x xs)
  show ?case
  proof (cases "x \<in> set s")
    case True
    then show ?thesis using Cons.IH [of s a] Cons.prems by (auto simp: hash_set_insert_def)
  next
    case False
    then show ?thesis using Cons.IH [of "s @ [x]" "a + 1"] Cons.prems by (auto simp: hash_set_insert_def)
  qed
qed simp

lemma insert_members_nothing: "insert_members xs s a = (s', n) \<Longrightarrow> distinct s \<Longrightarrow> n = a \<Longrightarrow> s' = s"
proof (induction xs s a rule: insert_members.induct)
  case (2 x xs s a)
  show ?case
  proof (cases "x \<in> set s")
    case False
    then have "insert_members xs (s @ [x]) (a + 1) = (s', n)" using 2 by (simp add: hash_set_insert_def)
    from insert_members_spec [OF this] False 2 show ?thesis by simp
  qed (use 2 in \<open>auto simp: hash_set_insert_def\<close>)
qed simp

lemma remove_members_spec: "remove_members xs s a = (filter (\<lambda>x. x \<notin> set xs) s, snd (remove_members xs s a))"
proof (induction xs s a rule: remove_members.induct)
  case (2 x xs s a)
  then show ?case by (auto simp: hash_set_remove_def Let_def intro!: filter_cong)
qed simp

lemma remove_members_count:
  "remove_members xs s a = (s', n) \<Longrightarrow> distinct s \<Longrightarrow> n = a + card (set s \<inter> set xs)"
proof (induction xs s a arbitrary: s' n rule: remove_members.induct)
  case (2 x xs s a)
  let ?s = "filter (\<lambda>y. y \<noteq> x) s"
  have "n = (if x \<in> set s then a + 1 else a) + card (set ?s \<inter> set xs)"
    using 2 by (auto simp: hash_set_remove_def)
  moreover have "set s \<inter> set (x # xs) = (if x \<in> set s then insert x (set ?s \<inter> set xs) else set ?s \<inter> set xs)" by auto
  ultimately show ?case by simp
qed simp

lemma remove_members_distinct: "remove_members xs s a = (s', n) \<Longrightarrow> distinct s \<Longrightarrow> distinct s'"
  using remove_members_spec [of xs s a] by auto

lemma remove_members_nothing: "remove_members xs s 0 = (s', 0) \<Longrightarrow> distinct s \<Longrightarrow> s' = s"
  using remove_members_spec [of xs s 0] remove_members_count [of xs s 0 s' 0] by (auto simp: filter_id_conv)

section \<open>Contracts\<close>

lemma stored_set_ok: "shard_ok sh \<Longrightarrow> data_get k sh = Some sv \<Longrightarrow> sv_value sv = VSet s \<Longrightarrow> s \<noteq> [] \<and> distinct s"
  using shard_ok_get [of sh k sv] by simp

lemma sadd_operation:
  assumes "members \<noteq> []"
  shows "shard_operation key (sadd key members now)"
proof
  fix sh m k
  show "shard_ok sh \<Longrightarrow> shard_ok (fst (fst (sadd key members now (sh, m))))"
    using assms by (auto simp: Let_def split: op_splits dest!: insert_members_spec stored_set_ok)
  show "k \<noteq> key \<Longrightarrow> data_get k (fst (fst (sadd key members now (sh, m)))) = data_get k sh \<and>
    expiring_get k (fst (fst (sadd key members now (sh, m)))) = expiring_get k sh"
    by (auto simp: Let_def split: op_splits)
  show "shard_ok sh \<Longrightarrow> watch_tracker (fst (fst (sadd key members now (sh, m)))) = mark_key_modified key (watch_tracker sh) \<or>
    watch_tracker (fst (fst (sadd key members now (sh, m)))) = watch_tracker sh \<and>
    map_option sv_value (data_get key (fst (fst (sadd key members now (sh, m))))) = map_option sv_value (data_get key sh)"
    by (auto simp: Let_def split: op_splits dest: insert_members_nothing stored_set_ok)
qed

lemma srem_operation: "shard_operation key (srem key members)"
proof
  fix sh m k
  show "shard_ok sh \<Longrightarrow> shard_ok (fst (fst (srem key members (sh, m))))"
    by (auto simp: Let_def split: op_splits dest: stored_set_ok remove_members_distinct)
  show "k \<noteq> key \<Longrightarrow> data_get k (fst (fst (srem key members (sh, m)))) = data_get k sh \<and>
    expiring_get k (fst (fst (srem key members (sh, m)))) = expiring_get k sh"
    by (auto simp: Let_def split: op_splits)
  show "shard_ok sh \<Longrightarrow> watch_tracker (fst (fst (srem key members (sh, m)))) = mark_key_modified key (watch_tracker sh) \<or>
    watch_tracker (fst (fst (srem key members (sh, m)))) = watch_tracker sh \<and>
    map_option sv_value (data_get key (fst (fst (srem key members (sh, m))))) = map_option sv_value (data_get key sh)"
    by (auto simp: Let_def split: op_splits dest: remove_members_nothing stored_set_ok)
qed

interpretation srem: shard_operation key "srem key members" for key members
  by (rule srem_operation)

interpretation smembers: shard_operation key "smembers key" for key
  by unfold_locales (auto split: op_splits)

interpretation sismember: shard_operation key "sismember key x" for key x
  by unfold_locales (auto split: op_splits)

interpretation scard: shard_operation key "scard key" for key
  by unfold_locales (auto split: op_splits)

interpretation srandmember: shard_operation key "srandmember shuffle pick key c" for shuffle pick key c
  by unfold_locales (auto split: op_splits)

interpretation spop: shard_operation key "spop shuffle key c" for shuffle key c
  by unfold_locales (auto simp: Let_def split: op_splits dest: stored_set_ok remove_members_distinct)

section \<open>Properties\<close>

definition set_of_key :: "storage_engine \<Rightarrow> nat \<Rightarrow> bytes \<Rightarrow> bytes set" where
  "set_of_key e db key =
     (case lookup e db key of Some sv \<Rightarrow> (case sv_value sv of VSet s \<Rightarrow> set s | _ \<Rightarrow> {}) | None \<Rightarrow> {})"

definition holds_set :: "storage_engine \<Rightarrow> nat \<Rightarrow> bytes \<Rightarrow> bool" where
  "holds_set e db key =
     (case lookup e db key of Some sv \<Rightarrow> (case sv_value sv of VSet s \<Rightarrow> True | _ \<Rightarrow> False) | None \<Rightarrow> True)"

lemma stored_at_lookup: "db < length (databases e) \<Longrightarrow> stored_at e db key = Ok (lookup e db key)"
  by (simp add: stored_at_def lookup_def shard_of_def)

lemma lookup_ok: "engine_ok e \<Longrightarrow> lookup e db k = Some sv \<Longrightarrow> value_ok (sv_value sv)"
  using engine_ok_nth [of e db] get_shard_index_bound [of k]
  by (auto simp: lookup_def shard_of_def database_ok_def split: if_splits intro: shard_ok_get)

lemma sunion_loop_exact:
  assumes "engine_ok e" "db < length (databases e)" "list_all (holds_set e db) ks" "distinct acc"
  shows "\<exists>xs. sunion_loop e db ks acc = Ok xs \<and> distinct xs \<and> set xs = set acc \<union> (\<Union>k \<in> set ks. set_of_key e db k)"
  using assms(3,4)
proof (induction ks arbitrary: acc)
  case (Cons k ks)
  show ?case
  proof (cases "lookup e db k")
    case None
    then show ?thesis using Cons assms(2) by (simp add: stored_at_lookup set_of_key_def)
  next
    case (Some sv)
    then obtain s where s: "sv_value sv = VSet s"
      using Cons.prems by (auto simp: holds_set_def split: val.splits)
    obtain acc' n where acc': "insert_members s acc 0 = (acc', n)" by (metis prod.exhaust)
    have "distinct acc'" "set acc' = set acc \<union> set s" using insert_members_spec [OF acc'] Cons.prems by auto
    then show ?thesis using Cons.IH [of acc'] Cons.prems Some s acc' assms(2)
      by (auto simp: stored_at_lookup set_of_key_def)
  qed
qed simp

lemma sinter_loop_exact:
  assumes "engine_ok e" "db < length (databases e)" "list_all (holds_set e db) ks" "distinct acc"
  shows "\<exists>xs. sinter_loop e db ks acc = Ok xs \<and> distinct xs \<and> set xs = set acc \<inter> (\<Inter>k \<in> set ks. set_of_key e db k)"
  using assms(3,4)
proof (induction ks arbitrary: acc)
  case (Cons k ks)
  show ?case
  proof (cases "lookup e db k")
    case None
    then show ?thesis using Cons assms(2) by (simp add: stored_at_lookup set_of_key_def)
  next
    case (Some sv)
    then obtain s where s: "sv_value sv = VSet s"
      using Cons.prems by (auto simp: holds_set_def split: val.splits)
    then show ?thesis using Cons.IH [of "filter (\<lambda>x. x \<in> set s) acc"] Cons.prems Some assms(2)
      by (auto simp: stored_at_lookup set_of_key_def)
  qed
qed simp

lemma sdiff_loop_exact:
  assumes "engine_ok e" "db < length (databases e)" "list_all (holds_set e db) ks" "distinct acc"
  shows "\<exists>xs. sdiff_loop e db ks acc = Ok xs \<and> distinct xs \<and> set xs = set acc - (\<Union>k \<in> set ks. set_of_key e db k)"
  using assms(3,4)
proof (induction ks arbitrary: acc)
  case (Cons k ks)
  show ?case
  proof (cases "lookup e db k")
    case None
    then show ?thesis using Cons assms(2) by (simp add: stored_at_lookup set_of_key_def)
  next
    case (Some sv)
    then obtain s where s: "sv_value sv = VSet s"
      using Cons.prems by (auto simp: holds_set_def split: val.splits)
    have "fst (remove_members s acc 0) = filter (\<lambda>x. x \<notin> set s) acc" by (subst remove_members_spec) simp
    then show ?thesis using Cons.IH [of "filter (\<lambda>x. x \<notin> set s) acc"] Cons.prems Some s assms(2)
      by (auto simp: stored_at_lookup set_of_key_def)
  qed
qed simp

text \<open>
  On keys that hold sets or nothing, \<^verbatim>\<open>SUNION\<close>, \<^verbatim>\<open>SINTER\<close> and \<^verbatim>\<open>SDIFF\<close> succeed and return, without
  repetition, exactly the members of the union of all the sets, of their intersection, and of the
  first set minus the others; a missing key counts as the empty set.
\<close>

theorem set_algebra_exact:
  assumes "engine_ok e" "db < length (databases e)" "list_all (holds_set e db) (k # ks)"
  shows "\<exists>u i d. sunion e db (k # ks) = Ok u \<and> distinct u \<and> set u = (\<Union>j \<in> set (k # ks). set_of_key e db j) \<and>
    sinter e db (k # ks) = Ok i \<and> distinct i \<and> set i = (\<Inter>j \<in> set (k # ks). set_of_key e db j) \<and>
    sdiff e db (k # ks) = Ok d \<and> distinct d \<and> set d = set_of_key e db k - (\<Union>j \<in> set ks. set_of_key e db j)"
proof (cases "lookup e db k")
  case None
  then show ?thesis
    using sunion_loop_exact [OF assms, of "[]"] assms(2)
    by (auto simp: sunion_def sinter_def sdiff_def stored_at_lookup set_of_key_def)
next
  case (Some sv)
  then obtain s where s: "sv_value sv = VSet s" using assms(3) by (auto simp: holds_set_def split: val.splits)
  have d: "distinct s" using lookup_ok [OF assms(1) Some] s by simp
  have rest: "list_all (holds_set e db) ks" using assms(3) by simp
  show ?thesis
    using sunion_loop_exact [OF assms, of "[]"] sinter_loop_exact [OF assms(1,2) rest d]
      sdiff_loop_exact [OF assms(1,2) rest d] Some s assms(2)
    by (auto simp: sunion_def sinter_def sdiff_def stored_at_lookup set_of_key_def simp del: sunion_loop.simps)
qed

definition sample_sets :: storage_engine where
  "sample_sets = fst (on_shard 0 ''s'' (sadd ''s'' [''x'', ''y''] 0) (with_config 1 unlimited))"

lemma sample_sets_ok: "engine_ok sample_sets" "length (databases sample_sets) = 1"
proof -
  show "engine_ok sample_sets" unfolding sample_sets_def
    by (rule shard_local.engine_keeps [OF shard_operation.axioms(1) [OF sadd_operation] with_config_ok]) simp
  show "length (databases sample_sets) = 1" by code_simp
qed

theorem set_algebra_exact_witness:
  "\<exists>u i d. sunion sample_sets 0 [''s'', ''t''] = Ok u \<and> set u = {''x'', ''y''} \<and>
     sinter sample_sets 0 [''s'', ''t''] = Ok i \<and> set i = {} \<and> sdiff sample_sets 0 [''s'', ''t''] = Ok d \<and> set d = {''x'', ''y''}"
proof -
  have "set_of_key sample_sets 0 ''s'' = {''x'', ''y''}" "set_of_key sample_sets 0 ''t'' = {}"
    "list_all (holds_set sample_sets 0) [''s'', ''t'']" by code_simp+
  then show ?thesis using set_algebra_exact [OF sample_sets_ok(1), of 0 "''s''" "[''t'']"] sample_sets_ok(2) by auto
qed

end
