(* ===== verification/Engine_Hashes.thy ===== *)
theory Engine_Hashes
  imports Engine_Lists
begin

text \<open>
  The hash operations of \<^verbatim>\<open>src/storage/engine.rs\<close> (a \<^verbatim>\<open>HashMap\<close> is an association list with distinct
  fields).
\<close>

section \<open>Writing\<close>

fun insert_fields :: "(bytes \<times> bytes) list \<Rightarrow> (bytes \<times> bytes) list \<Rightarrow> nat \<Rightarrow> (bytes \<times> bytes) list \<times> nat" where
  "insert_fields [] h added = (h, added)"
| "insert_fields ((f, v) # fvs) h added =
     insert_fields fvs (AList.update f v h) (if map_of h f = None then added + 1 else added)"

fun hset :: "bytes \<Rightarrow> (bytes \<times> bytes) list \<Rightarrow> nat \<Rightarrow> nat shard_op" where
  "hset key field_values now (sh, m) =
     (case data_get key sh of
        Some sv \<Rightarrow>
          (case sv_value sv of
             VHash h \<Rightarrow>
               let (h, added) = insert_fields field_values h 0
               in ((mark_modified key (data_insert key (set_val (VHash h) sv) sh), m), Ok added)
           | _ \<Rightarrow> ((sh, m), wrong_type))
      | None \<Rightarrow>
          let len = length field_values;
              (h, _) = insert_fields field_values [] 0
          in ((mark_modified key (data_insert key (new_value now (VHash h)) sh), m), Ok len))"

fun remove_fields :: "bytes list \<Rightarrow> (bytes \<times> bytes) list \<Rightarrow> nat \<Rightarrow> (bytes \<times> bytes) list \<times> nat" where
  "remove_fields [] h deleted = (h, deleted)"
| "remove_fields (f # fs) h deleted =
     remove_fields fs (AList.delete f h) (if map_of h f \<noteq> None then deleted + 1 else deleted)"

fun hdel :: "bytes \<Rightarrow> bytes list \<Rightarrow> nat shard_op" where
  "hdel key fs (sh, m) =
     (case data_get key sh of
        Some sv \<Rightarrow>
          (case sv_value sv of
             VHash h \<Rightarrow>
               let (h, deleted) = remove_fields fs h 0;
                   sh = store_or_remove key sv (VHash h) (h = []) sh
               in ((mark_modified key sh, m), Ok deleted)
           | _ \<Rightarrow> ((sh, m), wrong_type))
      | None \<Rightarrow> ((sh, m), Ok 0))"

fun hincrby :: "bytes \<Rightarrow> bytes \<Rightarrow> i64 \<Rightarrow> nat \<Rightarrow> i64 shard_op" where
  "hincrby key field increment now (sh, m) =
     (case data_get key sh of
        Some sv \<Rightarrow>
          (case sv_value sv of
             VHash h \<Rightarrow>
               (case (case map_of h field of
                        Some current_bytes \<Rightarrow> map_option (\<lambda>current. current + increment) (as_integer (VString current_bytes))
                      | None \<Rightarrow> Some increment) of
                  Some new_val \<Rightarrow>
                    ((mark_modified key
                        (data_insert key (set_val (VHash (AList.update field (i64_to_string new_val) h)) sv) sh), m),
                     Ok new_val)
                | None \<Rightarrow> ((sh, m), Err (Command NotInteger)))
           | _ \<Rightarrow> ((sh, m), wrong_type))
      | None \<Rightarrow>
          ((mark_modified key (data_insert key (new_value now (VHash [(field, i64_to_string increment)])) sh), m),
           Ok increment))"

section \<open>Reading\<close>

fun hget :: "bytes \<Rightarrow> bytes \<Rightarrow> bytes option shard_op" where
  "hget key field (sh, m) =
     (case data_get key sh of
        Some sv \<Rightarrow> (case sv_value sv of VHash h \<Rightarrow> ((sh, m), Ok (map_of h field)) | _ \<Rightarrow> ((sh, m), wrong_type))
      | None \<Rightarrow> ((sh, m), Ok None))"

fun hmget :: "bytes \<Rightarrow> bytes list \<Rightarrow> bytes option list shard_op" where
  "hmget key fs (sh, m) =
     (case data_get key sh of
        Some sv \<Rightarrow> (case sv_value sv of VHash h \<Rightarrow> ((sh, m), Ok (map (map_of h) fs)) | _ \<Rightarrow> ((sh, m), wrong_type))
      | None \<Rightarrow> ((sh, m), Ok (replicate (length fs) None)))"

fun hgetall :: "bytes \<Rightarrow> (bytes \<times> bytes) list shard_op" where
  "hgetall key (sh, m) =
     (case data_get key sh of
        Some sv \<Rightarrow> (case sv_value sv of VHash h \<Rightarrow> ((sh, m), Ok h) | _ \<Rightarrow> ((sh, m), wrong_type))
      | None \<Rightarrow> ((sh, m), Ok []))"

fun hlen :: "bytes \<Rightarrow> nat shard_op" where
  "hlen key (sh, m) =
     (case data_get key sh of
        Some sv \<Rightarrow> (case sv_value sv of VHash h \<Rightarrow> ((sh, m), Ok (length h)) | _ \<Rightarrow> ((sh, m), wrong_type))
      | None \<Rightarrow> ((sh, m), Ok 0))"

fun hexists :: "bytes \<Rightarrow> bytes \<Rightarrow> bool shard_op" where
  "hexists key field (sh, m) =
     (case data_get key sh of
        Some sv \<Rightarrow>
          (case sv_value sv of VHash h \<Rightarrow> ((sh, m), Ok (map_of h field \<noteq> None)) | _ \<Rightarrow> ((sh, m), wrong_type))
      | None \<Rightarrow> ((sh, m), Ok False))"

fun hkeys :: "bytes \<Rightarrow> bytes list shard_op" where
  "hkeys key (sh, m) =
     (case data_get key sh of
        Some sv \<Rightarrow> (case sv_value sv of VHash h \<Rightarrow> ((sh, m), Ok (map fst h)) | _ \<Rightarrow> ((sh, m), wrong_type))
      | None \<Rightarrow> ((sh, m), Ok []))"

fun hvals :: "bytes \<Rightarrow> bytes list shard_op" where
  "hvals key (sh, m) =
     (case data_get key sh of
        Some sv \<Rightarrow> (case sv_value sv of VHash h \<Rightarrow> ((sh, m), Ok (map snd h)) | _ \<Rightarrow> ((sh, m), wrong_type))
      | None \<Rightarrow> ((sh, m), Ok []))"

section \<open>The loops over fields\<close>

lemma insert_fields_spec:
  "map_of (fst (insert_fields fvs h a)) = map_of h ++ map_of (rev fvs)"
  by (induction fvs h a rule: insert_fields.induct) (auto simp: update_conv' map_add_def fun_eq_iff split: option.splits)

lemma insert_fields_distinct: "distinct (map fst h) \<Longrightarrow> distinct (map fst (fst (insert_fields fvs h a)))"
  by (induction fvs h a rule: insert_fields.induct) (auto simp: distinct_update)

lemma insert_fields_length:
  "distinct (map fst h) \<Longrightarrow> snd (insert_fields fvs h a) + length h = a + length (fst (insert_fields fvs h a))"
proof (induction fvs h a rule: insert_fields.induct)
  case (2 f v fvs h a)
  have "length (AList.update f v h) = length h" if "map_of h f \<noteq> None"
    using that 2(2) by (metis distinct_card distinct_map distinct_update length_map set_keys_update set_map insert_absorb
        map_of_eq_None_iff)
  then show ?case
    using 2 length_update_new [of f h v] by (cases "map_of h f") (simp_all add: distinct_update map_of_eq_None_iff)
qed simp

lemma insert_fields_nonempty: "fvs \<noteq> [] \<or> h \<noteq> [] \<Longrightarrow> fst (insert_fields fvs h a) \<noteq> []"
proof (induction fvs h a rule: insert_fields.induct)
  case (2 f v fvs h a)
  have "AList.update f v h \<noteq> []" by (cases h) auto
  then show ?case using 2 by simp
qed simp

lemma insert_fields_ok:
  "insert_fields fvs h a = (h', n) \<Longrightarrow> distinct (map fst h) \<Longrightarrow> fvs \<noteq> [] \<Longrightarrow> h' \<noteq> [] \<and> distinct (map fst h')"
  using insert_fields_nonempty [of fvs h a] insert_fields_distinct [of h fvs a] by simp

lemma remove_fields_spec: "fst (remove_fields fs h d) = filter (\<lambda>p. fst p \<notin> set fs) h"
  by (induction fs h d rule: remove_fields.induct) (auto simp: AList.delete_eq intro!: filter_cong)

section \<open>Contracts\<close>

lemma stored_hash_ok:
  "shard_ok sh \<Longrightarrow> data_get k sh = Some sv \<Longrightarrow> sv_value sv = VHash h \<Longrightarrow> h \<noteq> [] \<and> distinct (map fst h)"
  using shard_ok_get [of sh k sv] by simp

lemma hset_operation:
  assumes "field_values \<noteq> []"
  shows "shard_operation key (hset key field_values now)"
proof
  fix sh m
  show "shard_ok sh \<Longrightarrow> shard_ok (fst (fst (hset key field_values now (sh, m))))"
    by (auto simp: Let_def split: op_splits dest: stored_hash_ok insert_fields_ok [OF _ _ assms])
qed (auto simp: Let_def split: op_splits)

interpretation hdel: shard_operation key "hdel key fs" for key fs
proof
  fix sh m
  have "remove_fields fs h 0 = (h', n) \<Longrightarrow> distinct (map fst h) \<Longrightarrow> distinct (map fst h')" for h h' n
    using remove_fields_spec [of fs h 0] by (simp add: distinct_map_filter)
  then show "shard_ok sh \<Longrightarrow> shard_ok (fst (fst (hdel key fs (sh, m))))"
    by (auto simp: Let_def split: op_splits dest: stored_hash_ok)
qed (auto simp: Let_def split: op_splits)

interpretation hincrby: shard_operation key "hincrby key f n now" for key f n now
proof
  fix sh m
  have "AList.update f v h \<noteq> []" for v :: bytes and h by (cases h) auto
  then show "shard_ok sh \<Longrightarrow> shard_ok (fst (fst (hincrby key f n now (sh, m))))"
    by (auto simp: distinct_update split: op_splits dest: stored_hash_ok)
qed (auto split: op_splits)

interpretation hget: shard_operation key "hget key f" for key f
  by unfold_locales (auto split: op_splits)

interpretation hmget: shard_operation key "hmget key fs" for key fs
  by unfold_locales (auto split: op_splits)

interpretation hgetall: shard_operation key "hgetall key" for key
  by unfold_locales (auto split: op_splits)

interpretation hlen: shard_operation key "hlen key" for key
  by unfold_locales (auto split: op_splits)

interpretation hexists: shard_operation key "hexists key f" for key f
  by unfold_locales (auto split: op_splits)

interpretation hkeys: shard_operation key "hkeys key" for key
  by unfold_locales (auto split: op_splits)

interpretation hvals: shard_operation key "hvals key" for key
  by unfold_locales (auto split: op_splits)

end
