(* ===== verification/Engine_Sorted.thy ===== *)
theory Engine_Sorted
  imports Engine_Sets
begin

text \<open>
  The sorted-set and stream operations of \<^verbatim>\<open>src/storage/engine.rs\<close>, on the skip list of \<open>Skip_List\<close> and
  the streams of \<open>Streams\<close>.  The level drawn for a new node, the addition of two floats and the
  readings of the stream clock are arguments.  A skip-list operation that returns \<open>None\<close> panicked.
\<close>

section \<open>Sorted sets\<close>

fun zadd :: "nat \<Rightarrow> bytes \<Rightarrow> bytes \<Rightarrow> f64 \<Rightarrow> nat \<Rightarrow> bool shard_op" where
  "zadd new_level key member score now (sh, m) =
     (case data_get key sh of
        Some sv \<Rightarrow>
          (case sv_value sv of
             VSortedSet z \<Rightarrow>
               (case sl_insert new_level member score z of
                  Some (z, old_score) \<Rightarrow>
                    ((mark_modified key (data_insert key (set_val (VSortedSet z) sv) sh), m), Ok (old_score = None))
                | None \<Rightarrow> ((sh, m), Panic))
           | _ \<Rightarrow> ((sh, m), wrong_type))
      | None \<Rightarrow>
          (case sl_insert new_level member score new_skip_list of
             Some (z, _) \<Rightarrow>
               let memory_size = calculate_value_size key (VSortedSet new_skip_list) + calculate_member_size member;
                   (m, fits) = add_memory memory_size m
               in if \<not> fits then ((sh, m), out_of_memory)
                  else ((mark_modified key (data_insert key (new_value now (VSortedSet z)) sh), m), Ok True)
           | None \<Rightarrow> ((sh, m), Panic)))"

fun zrem :: "bytes \<Rightarrow> bytes \<Rightarrow> bool shard_op" where
  "zrem key member (sh, m) =
     (case data_get key sh of
        Some sv \<Rightarrow>
          (case sv_value sv of
             VSortedSet z \<Rightarrow>
               (case sl_remove member z of
                  Some (z, old) \<Rightarrow>
                    if old \<noteq> None then
                      ((store_or_remove key sv (VSortedSet z) (sl_len z = 0) (mark_modified key sh),
                        remove_memory (calculate_member_size member) m), Ok True)
                    else ((data_insert key (set_val (VSortedSet z) sv) sh, m), Ok False)
                | None \<Rightarrow> ((sh, m), Panic))
           | _ \<Rightarrow> ((sh, m), wrong_type))
      | None \<Rightarrow> ((sh, m), Ok False))"

fun zscore :: "bytes \<Rightarrow> bytes \<Rightarrow> f64 option shard_op" where
  "zscore key member (sh, m) =
     (case data_get key sh of
        Some sv \<Rightarrow>
          (case sv_value sv of VSortedSet z \<Rightarrow> ((sh, m), Ok (get_score member z)) | _ \<Rightarrow> ((sh, m), wrong_type))
      | None \<Rightarrow> ((sh, m), Ok None))"

fun zrank :: "bytes \<Rightarrow> bytes \<Rightarrow> bool \<Rightarrow> nat option shard_op" where
  "zrank key member reverse (sh, m) =
     (case data_get key sh of
        Some sv \<Rightarrow>
          (case sv_value sv of
             VSortedSet z \<Rightarrow>
               (case get_rank member z of
                  Some r \<Rightarrow> ((sh, m), Ok (map_option (\<lambda>rank. if reverse then sl_len z - 1 - rank else rank) r))
                | None \<Rightarrow> ((sh, m), Panic))
           | _ \<Rightarrow> ((sh, m), wrong_type))
      | None \<Rightarrow> ((sh, m), Ok None))"

definition zrange_items :: "int \<Rightarrow> int \<Rightarrow> bool \<Rightarrow> skip_list \<Rightarrow> (bytes \<times> f64) list option" where
  "zrange_items start stop reverse z =
     (let len = sl_len z
      in if len = 0 then Some []
         else let start_idx = clamp_index (int len) start;
                  stop_idx = clamp_index (int len) stop
              in if reverse then
                   let real_start = len - 1 - min stop_idx (len - 1);
                       real_stop = len - 1 - min start_idx (len - 1)
                   in map_option rev (range_by_rank real_start real_stop z)
                 else if start_idx \<ge> len \<or> start_idx > stop_idx then Some []
                 else range_by_rank (min start_idx (len - 1)) (min stop_idx (len - 1)) z)"

fun zrange :: "bytes \<Rightarrow> int \<Rightarrow> int \<Rightarrow> bool \<Rightarrow> (bytes \<times> f64) list shard_op" where
  "zrange key start stop reverse (sh, m) =
     (case data_get key sh of
        Some sv \<Rightarrow>
          (case sv_value sv of
             VSortedSet z \<Rightarrow>
               (case zrange_items start stop reverse z of Some xs \<Rightarrow> ((sh, m), Ok xs) | None \<Rightarrow> ((sh, m), Panic))
           | _ \<Rightarrow> ((sh, m), wrong_type))
      | None \<Rightarrow> ((sh, m), Ok []))"

fun zrangebyscore :: "bytes \<Rightarrow> f64 \<Rightarrow> f64 \<Rightarrow> bool \<Rightarrow> (bytes \<times> f64) list shard_op" where
  "zrangebyscore key min_score max_score reverse (sh, m) =
     (case data_get key sh of
        Some sv \<Rightarrow>
          (case sv_value sv of
             VSortedSet z \<Rightarrow>
               (case range_by_score min_score max_score z of
                  Some xs \<Rightarrow> ((sh, m), Ok (if reverse then rev xs else xs))
                | None \<Rightarrow> ((sh, m), Panic))
           | _ \<Rightarrow> ((sh, m), wrong_type))
      | None \<Rightarrow> ((sh, m), Ok []))"

fun zcount :: "bytes \<Rightarrow> f64 \<Rightarrow> f64 \<Rightarrow> nat shard_op" where
  "zcount key min_score max_score s =
     (let (s, r) = zrangebyscore key min_score max_score False s in (s, bind_result r (\<lambda>xs. Ok (length xs))))"

fun zincrby :: "(f64 \<Rightarrow> f64 \<Rightarrow> f64) \<Rightarrow> nat \<Rightarrow> bytes \<Rightarrow> bytes \<Rightarrow> f64 \<Rightarrow> nat \<Rightarrow> f64 shard_op" where
  "zincrby fadd new_level key member increment now (sh, m) =
     (case data_get key sh of
        Some sv \<Rightarrow>
          (case sv_value sv of
             VSortedSet z \<Rightarrow>
               let new_score = (case get_score member z of Some curr_score \<Rightarrow> fadd curr_score increment | None \<Rightarrow> increment)
               in (case sl_insert new_level member new_score z of
                     Some (z, _) \<Rightarrow>
                       ((mark_modified key (data_insert key (set_val (VSortedSet z) sv) sh), m), Ok new_score)
                   | None \<Rightarrow> ((sh, m), Panic))
           | _ \<Rightarrow> ((sh, m), wrong_type))
      | None \<Rightarrow>
          (case sl_insert new_level member increment new_skip_list of
             Some (z, _) \<Rightarrow>
               let memory_size = calculate_value_size key (VSortedSet new_skip_list) + calculate_member_size member;
                   (m, fits) = add_memory memory_size m
               in if \<not> fits then ((sh, m), out_of_memory)
                  else ((mark_modified key (data_insert key (new_value now (VSortedSet z)) sh), m), Ok increment)
           | None \<Rightarrow> ((sh, m), Panic)))"

fun zcard :: "bytes \<Rightarrow> nat shard_op" where
  "zcard key (sh, m) =
     (case data_get key sh of
        Some sv \<Rightarrow> (case sv_value sv of VSortedSet z \<Rightarrow> ((sh, m), Ok (sl_len z)) | _ \<Rightarrow> ((sh, m), wrong_type))
      | None \<Rightarrow> ((sh, m), Ok 0))"

section \<open>Streams\<close>

fun xadd :: "u64 \<Rightarrow> bool \<Rightarrow> bool \<Rightarrow> bytes \<Rightarrow> (bytes \<times> bytes) list \<Rightarrow> nat \<Rightarrow> stream_id shard_op" where
  "xadd ms ok1 ok2 key fvs now (sh, m) =
     (case data_get key sh of
        Some sv \<Rightarrow>
          (case sv_value sv of
             VStream st \<Rightarrow>
               let (st, i) = add_auto ms ok1 ok2 fvs st
               in ((mark_modified key (data_insert key (set_val (VStream st) sv) sh), m), Ok i)
           | _ \<Rightarrow> ((sh, m), wrong_type))
      | None \<Rightarrow>
          let (st, i) = add_auto ms ok1 ok2 fvs new_stream;
              memory_size = calculate_value_size key (VStream new_stream) + stream_memory st;
              (m, fits) = add_memory memory_size m
          in if \<not> fits then ((sh, m), out_of_memory)
             else ((mark_modified key (data_insert key (new_value now (VStream st)) sh), m), Ok i))"

fun xadd_with_id :: "bytes \<Rightarrow> stream_id \<Rightarrow> (bytes \<times> bytes) list \<Rightarrow> nat \<Rightarrow> stream_id shard_op" where
  "xadd_with_id key i fvs now (sh, m) =
     (case data_get key sh of
        Some sv \<Rightarrow>
          (case sv_value sv of
             VStream st \<Rightarrow>
               (case add_with_id i fvs st of
                  (st, Inr ()) \<Rightarrow> ((mark_modified key (data_insert key (set_val (VStream st) sv) sh), m), Ok i)
                | (st, Inl e) \<Rightarrow> ((sh, m), Err (Command (Generic e))))
           | _ \<Rightarrow> ((sh, m), wrong_type))
      | None \<Rightarrow>
          (case add_with_id i fvs new_stream of
             (st, Inr ()) \<Rightarrow>
               let memory_size = calculate_value_size key (VStream new_stream) + stream_memory st;
                   (m, fits) = add_memory memory_size m
               in if \<not> fits then ((sh, m), out_of_memory)
                  else ((mark_modified key (data_insert key (new_value now (VStream st)) sh), m), Ok i)
           | (st, Inl e) \<Rightarrow> ((sh, m), Err (Command (Generic e)))))"

fun xrange :: "bytes \<Rightarrow> stream_id \<Rightarrow> stream_id \<Rightarrow> nat option \<Rightarrow> bool \<Rightarrow> stream_entry list shard_op" where
  "xrange key start stop count reverse (sh, m) =
     (case data_get key sh of
        Some sv \<Rightarrow>
          (case sv_value sv of
             VStream st \<Rightarrow> ((sh, m), Ok (stream_range start stop count reverse st))
           | _ \<Rightarrow> ((sh, m), wrong_type))
      | None \<Rightarrow> ((sh, m), Ok []))"

fun xlen :: "bytes \<Rightarrow> u64 shard_op" where
  "xlen key (sh, m) =
     (case data_get key sh of
        Some sv \<Rightarrow> (case sv_value sv of VStream st \<Rightarrow> ((sh, m), Ok (stream_len st)) | _ \<Rightarrow> ((sh, m), wrong_type))
      | None \<Rightarrow> ((sh, m), Ok 0))"

fun xtrim :: "bytes \<Rightarrow> nat \<Rightarrow> nat shard_op" where
  "xtrim key max_len (sh, m) =
     (case data_get key sh of
        Some sv \<Rightarrow>
          (case sv_value sv of
             VStream st \<Rightarrow>
               let (st, trimmed) = trim_by_count max_len st;
                   sh = data_insert key (set_val (VStream st) sv) sh
               in ((if trimmed > 0 then mark_modified key sh else sh, m), Ok trimmed)
           | _ \<Rightarrow> ((sh, m), wrong_type))
      | None \<Rightarrow> ((sh, m), Ok 0))"

fun xdel :: "bytes \<Rightarrow> stream_id list \<Rightarrow> nat shard_op" where
  "xdel key ids (sh, m) =
     (case data_get key sh of
        Some sv \<Rightarrow>
          (case sv_value sv of
             VStream st \<Rightarrow>
               let (st, deleted) = stream_delete ids st;
                   sh = data_insert key (set_val (VStream st) sv) sh
               in ((if deleted > 0 then mark_modified key sh else sh, m), Ok deleted)
           | _ \<Rightarrow> ((sh, m), wrong_type))
      | None \<Rightarrow> ((sh, m), Ok 0))"

fun stream_create_consumer_group :: "bytes \<Rightarrow> unit shard_op" where
  "stream_create_consumer_group key (sh, m) =
     (case data_get key sh of
        Some sv \<Rightarrow> (case sv_value sv of VStream st \<Rightarrow> ((sh, m), Ok ()) | _ \<Rightarrow> ((sh, m), wrong_type))
      | None \<Rightarrow> ((sh, m), Ok ()))"

fun xread_loop :: "storage_engine \<Rightarrow> nat \<Rightarrow> nat option \<Rightarrow> (bytes \<times> stream_id) list \<Rightarrow>
    (bytes \<times> stream_entry list) list \<Rightarrow> (bytes \<times> stream_entry list) list result" where
  "xread_loop e db count [] results = Ok results"
| "xread_loop e db count ((key, after_id) # rest) results =
     bind_result (stored_at e db key) (\<lambda>stored.
       case stored of
         Some sv \<Rightarrow>
           (case sv_value sv of
              VStream st \<Rightarrow>
                let es = stream_range_after after_id count st
                in xread_loop e db count rest (if es \<noteq> [] then results @ [(key, es)] else results)
            | _ \<Rightarrow> wrong_type)
       | None \<Rightarrow> xread_loop e db count rest results)"

definition xread :: "storage_engine \<Rightarrow> nat \<Rightarrow> (bytes \<times> stream_id) list \<Rightarrow> nat option \<Rightarrow> nat option
    \<Rightarrow> (bytes \<times> stream_entry list) list result" where
  "xread e db keys_and_ids count block =
     (if block \<noteq> None then Err (Command (Generic ''BLOCK option not yet supported''))
      else xread_loop e db count keys_and_ids [])"

section \<open>Contracts\<close>

lemma stored_zset_ok:
  "shard_ok sh \<Longrightarrow> data_get k sh = Some sv \<Longrightarrow> sv_value sv = VSortedSet z \<Longrightarrow> sl_ok z \<and> sl_items z \<noteq> []"
  using shard_ok_get [of sh k sv] by simp

lemma sl_insert_value_ok:
  assumes "sl_insert l k v z = Some (z', old)" "sl_ok z" "l < MAX_LEVEL" "\<not> is_nan_f64 v"
  shows "value_ok (VSortedSet z')"
  using assms(1) sl.insert_ok [OF assms(2-4), of k] by (auto simp: z_insert_def Let_def)

lemma sl_remove_value_ok:
  assumes "sl_remove k z = Some (z', old)" "sl_ok z"
  shows "sl_ok z' \<and> (sl_len z' \<noteq> 0 \<longrightarrow> sl_items z' \<noteq> [])"
  using assms(1) sl.remove_ok [OF assms(2), of k] sl_lengths [of z'] by auto

lemma sl_remove_none: "sl_remove k z = Some (z', None) \<Longrightarrow> z' = z"
  by (auto simp: sl_remove_def bind_eq_Some_conv split: option.splits)

lemma zadd_operation:
  assumes "\<not> is_nan_f64 score" "new_level < MAX_LEVEL"
  shows "shard_operation key (zadd new_level key member score now)"
proof
  fix sh m
  show "shard_ok sh \<Longrightarrow> shard_ok (fst (fst (zadd new_level key member score now (sh, m))))"
    using sl_insert_value_ok [OF _ _ assms(2,1)] new_skip_list_sl_ok(1)
    by (auto simp: Let_def split: op_splits dest: stored_zset_ok simp del: value_ok_simps(5))
qed (auto simp: Let_def split: op_splits)

lemma score_not_nan: "sl_ok z \<Longrightarrow> get_score k z = Some v \<Longrightarrow> \<not> is_nan_f64 v"
  by (fastforce simp: sl_ok_def nodes_ok_def get_score_def dest: map_of_SomeD)

lemma zincrby_operation:
  assumes "\<not> is_nan_f64 increment" "new_level < MAX_LEVEL" "\<And>x. \<not> is_nan_f64 x \<Longrightarrow> \<not> is_nan_f64 (fadd x increment)"
  shows "shard_operation key (zincrby fadd new_level key member increment now)"
proof
  fix sh m
  have "value_ok (VSortedSet z')"
    if "sl_ok z" "get_score member z = Some x" "sl_insert new_level member (fadd x increment) z = Some (z', old)" for z x z' old
    using sl_insert_value_ok [OF that(3,1) assms(2)] assms(3) score_not_nan [OF that(1,2)] by blast
  then show "shard_ok sh \<Longrightarrow> shard_ok (fst (fst (zincrby fadd new_level key member increment now (sh, m))))"
    using sl_insert_value_ok [OF _ _ assms(2,1)] new_skip_list_sl_ok(1)
    by (auto simp: Let_def split: op_splits dest: stored_zset_ok simp del: value_ok_simps(5))
qed (auto simp: Let_def split: op_splits)

interpretation zrem: shard_operation key "zrem key x" for key x
proof
  fix sh m
  show "shard_ok sh \<Longrightarrow> shard_ok (fst (fst (zrem key x (sh, m))))"
    by (auto split: op_splits dest: stored_zset_ok sl_remove_value_ok sl_remove_none)
qed (auto split: op_splits dest: sl_remove_none)

interpretation zscore: shard_operation key "zscore key x" for key x
  by unfold_locales (auto split: op_splits)

interpretation zrank: shard_operation key "zrank key x reverse" for key x reverse
  by unfold_locales (auto split: op_splits)

interpretation zrange: shard_operation key "zrange key start stop reverse" for key start stop reverse
  by unfold_locales (auto split: op_splits)

interpretation zrangebyscore: shard_operation key "zrangebyscore key lo hi reverse" for key lo hi reverse
  by unfold_locales (auto split: op_splits)

interpretation zcount: shard_operation key "zcount key lo hi" for key lo hi
  by unfold_locales (auto simp: Let_def split: op_splits)

interpretation zcard: shard_operation key "zcard key" for key
  by unfold_locales (auto split: op_splits)

lemma delete_loop_count:
  "delete_loop ids es d n = (es', d', n') \<Longrightarrow> d \<le> d' \<and> (d' = d \<longrightarrow> es' = es)"
  by (induction ids es d n rule: delete_loop.induct) (fastforce split: search_result.splits)+

lemma stream_delete_nothing: "stream_delete ids st = (st', 0) \<Longrightarrow> st' = st"
  by (auto simp: stream_delete_def Let_def split: prod.splits dest!: delete_loop_count)

lemma trim_nothing: "trim_by_count n st = (st', 0) \<Longrightarrow> st' = st"
  by (auto simp: trim_by_count_def Let_def split: if_splits)

interpretation xadd: shard_operation key "xadd ms ok1 ok2 key fvs now" for key ms ok1 ok2 fvs now
  by unfold_locales (auto simp: Let_def split: op_splits)

interpretation xadd_with_id: shard_operation key "xadd_with_id key i fvs now" for key i fvs now
  by unfold_locales (auto simp: Let_def split: op_splits sum.splits unit.splits)

interpretation xrange: shard_operation key "xrange key start stop c reverse" for key start stop c reverse
  by unfold_locales (auto split: op_splits)

interpretation xlen: shard_operation key "xlen key" for key
  by unfold_locales (auto split: op_splits)

interpretation xtrim: shard_operation key "xtrim key n" for key n
  by unfold_locales (auto simp: Let_def split: op_splits dest: trim_nothing)

interpretation xdel: shard_operation key "xdel key ids" for key ids
  by unfold_locales (auto simp: Let_def split: op_splits dest: stream_delete_nothing)

interpretation stream_create_consumer_group: shard_operation key "stream_create_consumer_group key" for key
  by unfold_locales (auto split: op_splits)

end
