(* ===== verification/Glob.thy ===== *)
theory Glob
  imports Text
begin

text \<open>
  Glob matching: \<^verbatim>\<open>pattern_matches\<close> of \<^verbatim>\<open>src/pubsub.rs\<close> (over bytes) and of \<^verbatim>\<open>src/storage/engine.rs\<close> (over
  the characters of the lossily decoded strings, with character classes).  Both are one loop that
  remembers only the last \<^verbatim>\<open>*\<close>.  The loop state is kept as the rest of the pattern, the rest of the
  text, and, when a star was met, the pattern after it (\<^verbatim>\<open>star_idx + 1\<close>) with the characters consumed
  since (those from \<^verbatim>\<open>star_match_idx\<close> to the current index).  The locale \<open>glob_matcher\<close> proves once that
  such a loop decides the declarative relation \<open>glob_match\<close>; both matchers are interpreted in it.
\<close>

section \<open>What a pattern means\<close>

text \<open>
  \<open>step p c\<close> is the rest of the pattern \<open>p\<close> after its first element, when that element (not a star)
  accepts the character \<open>c\<close>.
\<close>

inductive glob_match :: "'a \<Rightarrow> ('a list \<Rightarrow> 'a \<Rightarrow> 'a list option) \<Rightarrow> 'a list \<Rightarrow> 'a list \<Rightarrow> bool"
  for star :: 'a and step :: "'a list \<Rightarrow> 'a \<Rightarrow> 'a list option" where
  done_both: "glob_match star step [] []"
| star_ends: "glob_match star step p t \<Longrightarrow> glob_match star step (star # p) t"
| star_eats: "glob_match star step (star # p) t \<Longrightarrow> glob_match star step (star # p) (c # t)"
| one: "p \<noteq> [] \<Longrightarrow> hd p \<noteq> star \<Longrightarrow> step p c = Some p' \<Longrightarrow> glob_match star step p' t \<Longrightarrow> glob_match star step p (c # t)"

inductive_simps glob_match_nil: "glob_match star step [] t"
inductive_cases glob_match_empty: "glob_match star step p []"
inductive_cases glob_match_star: "glob_match star step (star # p) t"
inductive_cases glob_match_cons: "glob_match star step p (c # t)"

section \<open>The matcher of \<^verbatim>\<open>pubsub.rs\<close>\<close>

fun pubsub_step :: "bytes \<Rightarrow> char \<Rightarrow> bytes option" where
  "pubsub_step [] c = None"
| "pubsub_step (x # ps) c =
     (if x = CHR ''?'' then Some ps
      else if x = CHR 0x5C \<and> ps \<noteq> [] then (if hd ps = c then Some (tl ps) else None)
      else if x = c then Some ps
      else None)"

lemma pubsub_step_shorter: "pubsub_step p c = Some p' \<Longrightarrow> length p' < length p"
  by (cases p) (auto split: if_splits)

function (sequential) pubsub_loop :: "bytes \<Rightarrow> bytes \<Rightarrow> (bytes \<times> bytes) option \<Rightarrow> bool" where
  "pubsub_loop p [] star = (dropWhile (\<lambda>x. x = CHR ''*'') p = [])"
| "pubsub_loop p (c # t) star =
     (if p \<noteq> [] \<and> hd p = CHR ''*'' then pubsub_loop (tl p) (c # t) (Some (tl p, []))
      else case pubsub_step p c of
        Some p' \<Rightarrow> pubsub_loop p' t (map_option (\<lambda>(sp, consumed). (sp, consumed @ [c])) star)
      | None \<Rightarrow>
          (case star of
             Some (sp, consumed) \<Rightarrow> pubsub_loop sp (tl (consumed @ c # t)) (Some (sp, []))
           | None \<Rightarrow> False))"
  by pat_completeness auto

definition star_consumed :: "('b \<times> 'a list) option \<Rightarrow> nat" where
  "star_consumed star = (case star of None \<Rightarrow> 0 | Some (_, consumed) \<Rightarrow> length consumed)"

lemma star_consumed_simps [simp]:
  "star_consumed None = 0" "star_consumed (Some (sp, consumed)) = length consumed"
  "star_consumed (map_option (\<lambda>(sp, consumed). (sp, consumed @ [c])) star) \<le> Suc (star_consumed star)"
  by (auto simp: star_consumed_def split: option.split)

termination pubsub_loop
proof (relation "(\<lambda>(p, t, star). length t + star_consumed star) <*mlex*> measure (\<lambda>(p, t, star). length p)", goal_cases)
  case 1
  show ?case by (intro wf_mlex) auto
next
  case (2 p c t star)
  then show ?case by (cases p) (auto simp: mlex_iff)
next
  case (4 p c t star p')
  then show ?case using star_consumed_simps(3) [of c star] pubsub_step_shorter [of p c p']
    by (auto simp: mlex_iff not_less simp del: star_consumed_simps(3))
next
  case (3 p c t star x sp consumed)
  then show ?case by (auto simp: mlex_iff)
qed

definition pubsub_pattern_matches :: "bytes \<Rightarrow> bytes \<Rightarrow> bool" where
  "pubsub_pattern_matches pattern channel = pubsub_loop pattern channel None"

section \<open>The matcher of \<^verbatim>\<open>engine.rs\<close>\<close>

text \<open>Code points: 63 is \<^verbatim>\<open>?\<close>, 42 \<^verbatim>\<open>*\<close>, 91 and 93 the brackets, 94 \<^verbatim>\<open>^\<close>, 45 \<^verbatim>\<open>-\<close>, 92 the backslash.\<close>

fun class_matches :: "nat list \<Rightarrow> nat \<Rightarrow> bool" where
  "class_matches (a # d # b # rest) c =
     (if d = 45 then (if c \<ge> a \<and> c \<le> b then True else class_matches rest c)
      else if c = a then True else class_matches (d # b # rest) c)"
| "class_matches (a # rest) c = (if c = a then True else class_matches rest c)"
| "class_matches [] c = False"

fun engine_step :: "nat list \<Rightarrow> nat \<Rightarrow> nat list option" where
  "engine_step [] c = None"
| "engine_step (x # ps) c =
     (if x = 63 then Some ps
      else if x = 91 then
        (if 93 \<in> set ps then
           let cls = takeWhile (\<lambda>y. y \<noteq> 93) ps;
               negate = (cls \<noteq> [] \<and> hd cls = 94);
               items = (if negate then tl cls else cls)
           in if class_matches items c \<noteq> negate then Some (tl (dropWhile (\<lambda>y. y \<noteq> 93) ps)) else None
         else None)
      else if x = 92 \<and> ps \<noteq> [] then (if hd ps = c then Some (tl ps) else None)
      else if x = c then Some ps
      else None)"

lemma engine_step_shorter: "engine_step p c = Some p' \<Longrightarrow> length p' < length p"
proof (cases p)
  case (Cons x ps)
  have "length (tl (dropWhile (\<lambda>y. y \<noteq> 93) ps)) \<le> length ps"
    using length_dropWhile_le [of "\<lambda>y. y \<noteq> 93" ps] by simp
  then show "engine_step p c = Some p' \<Longrightarrow> length p' < length p"
    using Cons by (auto simp: Let_def split: if_splits)
qed simp

function (sequential) engine_loop :: "nat list \<Rightarrow> nat list \<Rightarrow> (nat list \<times> nat list) option \<Rightarrow> bool" where
  "engine_loop p [] star = (dropWhile (\<lambda>x. x = 42) p = [])"
| "engine_loop p (c # t) star =
     (if p \<noteq> [] \<and> hd p = 42 then engine_loop (tl p) (c # t) (Some (tl p, []))
      else case engine_step p c of
        Some p' \<Rightarrow> engine_loop p' t (map_option (\<lambda>(sp, consumed). (sp, consumed @ [c])) star)
      | None \<Rightarrow>
          (case star of
             Some (sp, consumed) \<Rightarrow> engine_loop sp (tl (consumed @ c # t)) (Some (sp, []))
           | None \<Rightarrow> False))"
  by pat_completeness auto

termination engine_loop
proof (relation "(\<lambda>(p, t, star). length t + star_consumed star) <*mlex*> measure (\<lambda>(p, t, star). length p)", goal_cases)
  case 1
  show ?case by (intro wf_mlex) auto
next
  case (2 p c t star)
  then show ?case by (cases p) (auto simp: mlex_iff)
next
  case (4 p c t star p')
  then show ?case using star_consumed_simps(3) [of c star] engine_step_shorter [of p c p']
    by (auto simp: mlex_iff not_less simp del: star_consumed_simps(3))
next
  case (3 p c t star x sp consumed)
  then show ?case by (auto simp: mlex_iff)
qed

definition engine_pattern_matches :: "nat list \<Rightarrow> nat list \<Rightarrow> bool" where
  "engine_pattern_matches pattern txt = engine_loop pattern txt None"

section \<open>One star is enough\<close>

lemma shift_drop:
  assumes "w \<noteq> []"
  shows "(P (tl w) \<or> (\<exists>k > 0. k \<le> length (tl w) \<and> P (drop k (tl w)))) \<longleftrightarrow> (\<exists>k > 0. k \<le> length w \<and> P (drop k w))"
proof -
  obtain c v where w: "w = c # v" using assms by (cases w) auto
  have "(\<exists>k > 0. k \<le> length w \<and> P (drop k w)) \<longleftrightarrow> (\<exists>k. k \<le> length v \<and> P (drop k v))"
    unfolding w by (metis Suc_le_mono drop_Suc_Cons gr0_conv_Suc length_Cons zero_less_Suc)
  also have "\<dots> \<longleftrightarrow> P v \<or> (\<exists>k > 0. k \<le> length v \<and> P (drop k v))"
    by (metis drop0 gr0I le0)
  finally show ?thesis by (simp add: w)
qed

locale glob_matcher =
  fixes star :: 'a
    and step :: "'a list \<Rightarrow> 'a \<Rightarrow> 'a list option"
    and loop :: "'a list \<Rightarrow> 'a list \<Rightarrow> ('a list \<times> 'a list) option \<Rightarrow> bool"
  assumes step_nil: "step [] c = None"
    and step_rest: "step p c = Some p1 \<Longrightarrow> step p d = Some p2 \<Longrightarrow> p1 = p2"
    and step_shorter: "step p c = Some p1 \<Longrightarrow> length p1 < length p"
    and loop_end: "loop p [] s = (dropWhile (\<lambda>x. x = star) p = [])"
    and loop_star: "p \<noteq> [] \<Longrightarrow> hd p = star \<Longrightarrow> loop p (c # t) s = loop (tl p) (c # t) (Some (tl p, []))"
    and loop_step: "p = [] \<or> hd p \<noteq> star \<Longrightarrow> step p c = Some p1 \<Longrightarrow>
      loop p (c # t) s = loop p1 t (map_option (\<lambda>(sp, consumed). (sp, consumed @ [c])) s)"
    and loop_back: "p = [] \<or> hd p \<noteq> star \<Longrightarrow> step p c = None \<Longrightarrow>
      loop p (c # t) s = (case s of Some (sp, consumed) \<Rightarrow> loop sp (tl (consumed @ c # t)) (Some (sp, [])) | None \<Rightarrow> False)"
begin

abbreviation matches where "matches \<equiv> glob_match star step"

lemma matches_empty: "matches p [] \<longleftrightarrow> dropWhile (\<lambda>x. x = star) p = []"
proof (induction p)
  case (Cons x p)
  show ?case
  proof
    assume "matches (x # p) []"
    then show "dropWhile (\<lambda>x. x = star) (x # p) = []" using Cons by (auto elim: glob_match_empty)
  next
    assume "dropWhile (\<lambda>x. x = star) (x # p) = []"
    then show "matches (x # p) []" using Cons by (auto intro: glob_match.star_ends split: if_splits)
  qed
qed (simp add: glob_match.done_both)

lemma matches_star: "matches (star # p) t \<longleftrightarrow> (\<exists>k \<le> length t. matches p (drop k t))"
proof (induction t)
  case Nil
  show ?case by (auto intro: glob_match.star_ends elim: glob_match_star)
next
  case (Cons c t)
  show ?case
  proof
    assume "matches (star # p) (c # t)"
    then consider "matches p (c # t)" | "matches (star # p) t" by (auto elim: glob_match_star)
    then show "\<exists>k \<le> length (c # t). matches p (drop k (c # t))"
    proof cases
      case 1
      then show ?thesis by (intro exI [of _ 0]) simp
    next
      case 2
      then obtain k where "k \<le> length t" "matches p (drop k t)" using Cons by auto
      then show ?thesis by (intro exI [of _ "Suc k"]) simp
    qed
  next
    assume "\<exists>k \<le> length (c # t). matches p (drop k (c # t))"
    then obtain k where k: "k \<le> length (c # t)" "matches p (drop k (c # t))" by blast
    show "matches (star # p) (c # t)"
    proof (cases k)
      case 0
      then show ?thesis using k by (auto intro: glob_match.star_ends)
    next
      case (Suc j)
      then show ?thesis using k Cons by (auto intro: glob_match.star_eats)
    qed
  qed
qed

lemma matches_step: "p = [] \<or> hd p \<noteq> star \<Longrightarrow>
    matches p (c # t) \<longleftrightarrow> (case step p c of Some p1 \<Rightarrow> matches p1 t | None \<Rightarrow> False)"
  using step_nil by (auto elim: glob_match_cons intro: glob_match.one split: option.splits)

text \<open>\<open>consumes sp u p\<close>: the non-star elements between \<open>sp\<close> and \<open>p\<close> accept the characters \<open>u\<close>.\<close>

inductive consumes :: "'a list \<Rightarrow> 'a list \<Rightarrow> 'a list \<Rightarrow> bool" where
  none: "consumes sp [] sp"
| snoc: "consumes sp u p \<Longrightarrow> p \<noteq> [] \<Longrightarrow> hd p \<noteq> star \<Longrightarrow> step p c = Some p1 \<Longrightarrow> consumes sp (u @ [c]) p1"

text \<open>Every other text that \<open>sp\<close> matches spends as many characters on those elements.\<close>

lemma consumes_match:
  "consumes sp u p \<Longrightarrow> matches sp v \<Longrightarrow> length u \<le> length v \<and> matches p (drop (length u) v)"
proof (induction rule: consumes.induct)
  case (snoc sp u p c p1)
  then have m: "length u \<le> length v" "matches p (drop (length u) v)" by auto
  have "drop (length u) v \<noteq> []" using m(2) snoc(2,3) by (cases p) (auto simp: matches_empty)
  then obtain d w where w: "drop (length u) v = d # w" by (cases "drop (length u) v") auto
  then have "matches p1 w" using m(2) snoc(2,3) matches_step [of p d w] step_rest [OF snoc(4), of d]
    by (auto split: option.splits)
  moreover have "w = drop (Suc (length u)) v" "Suc (length u) \<le> length v"
    using w by (metis drop_Suc list.sel(3) tl_drop) (metis Suc_leI drop_eq_Nil leI list.discI w)
  ultimately show ?case by simp
qed simp

definition star_reaches :: "('a list \<times> 'a list) option \<Rightarrow> 'a list \<Rightarrow> bool" where
  "star_reaches s p \<longleftrightarrow> (case s of None \<Rightarrow> True | Some (sp, consumed) \<Rightarrow> consumes sp consumed p)"

definition later :: "('a list \<times> 'a list) option \<Rightarrow> 'a list \<Rightarrow> bool" where
  "later s t \<longleftrightarrow> (case s of None \<Rightarrow> False
     | Some (sp, consumed) \<Rightarrow> \<exists>k. 0 < k \<and> k \<le> length (consumed @ t) \<and> matches sp (drop k (consumed @ t)))"

text \<open>The alternatives that the last star leaves open are not needed at the end or at a new star.\<close>

lemma later_end: "star_reaches s p \<Longrightarrow> \<not> later s []"
proof
  assume r: "star_reaches s p" and "later s []"
  then obtain sp consumed k where s: "s = Some (sp, consumed)" "0 < k" "k \<le> length consumed" "matches sp (drop k consumed)"
    by (auto simp: later_def split: option.splits)
  then have "consumes sp consumed p" using r by (simp add: star_reaches_def)
  from consumes_match [OF this s(4)] have "length consumed \<le> length consumed - k" by simp
  with s(2,3) show False by linarith
qed

lemma later_star:
  assumes "star_reaches s p" "later s t" "p \<noteq> []" "hd p = star"
  shows "matches p t"
proof -
  obtain sp consumed k where s: "s = Some (sp, consumed)" "0 < k" "k \<le> length (consumed @ t)" "matches sp (drop k (consumed @ t))"
    using assms(2) by (auto simp: later_def split: option.splits)
  then have "consumes sp consumed p" using assms(1) by (simp add: star_reaches_def)
  from consumes_match [OF this s(4)]
  have l: "length consumed \<le> length (consumed @ t) - k" and c: "matches p (drop (length consumed) (drop k (consumed @ t)))"
    by (simp_all only: length_drop)
  have "drop (length consumed) (drop k (consumed @ t)) = drop (length consumed + k) (consumed @ t)" by (rule drop_drop)
  then have m: "matches p (drop k t)" using c by simp
  obtain q where q: "p = star # q" using assms(3,4) by (cases p) auto
  obtain j where "j \<le> length (drop k t)" "matches q (drop j (drop k t))" using m unfolding q matches_star by blast
  then show ?thesis unfolding q matches_star using l s(3)
    by (intro exI [of _ "j + k"]) auto
qed

lemma loop_correct:
  "star_reaches s p \<Longrightarrow> loop p t s \<longleftrightarrow> matches p t \<or> later s t"
proof (induction "(length t + star_consumed s, length p)" arbitrary: p t s
    rule: wf_induct_rule [OF wf_lex_prod [OF wf_less_than wf_less_than]])
  case 1
  note less = 1
  show ?case
  proof (cases t)
    case Nil
    then show ?thesis using later_end [OF less(2)] by (simp add: loop_end matches_empty)
  next
    case (Cons c u)
    consider (st) "p \<noteq> []" "hd p = star"
      | (accepts) p1 where "p = [] \<or> hd p \<noteq> star" "step p c = Some p1"
      | (rejects) "p = [] \<or> hd p \<noteq> star" "step p c = None"
      by (cases "step p c") auto
    then show ?thesis
    proof cases
      case st
      then obtain q where q: "p = star # q" by (cases p) auto
      have "loop p t s = loop q t (Some (q, []))" using Cons st loop_star q by simp
      also have "\<dots> = (matches q t \<or> later (Some (q, [])) t)"
        by (rule less(1)) (auto simp: q star_reaches_def star_consumed_def consumes.none split: option.split)
      also have "\<dots> = matches p t"
        unfolding q matches_star later_def by (auto intro: exI [of _ 0]) (metis drop0 neq0_conv)
      also have "\<dots> = (matches p t \<or> later s t)" using later_star [OF less(2) _ st] by blast
      finally show ?thesis .
    next
      case accepts
      let ?s = "map_option (\<lambda>(sp, consumed). (sp, consumed @ [c])) s"
      have r: "star_reaches ?s p1" using less(2) accepts step_nil
        by (auto simp: star_reaches_def split: option.splits intro: consumes.snoc)
      have "loop p t s = loop p1 u ?s" using Cons accepts loop_step by simp
      also have "\<dots> = (matches p1 u \<or> later ?s u)"
        using step_shorter [OF accepts(2)] star_consumed_simps(3) [of c s]
        by (intro less(1) r) (auto simp: Cons simp del: star_consumed_simps(3))
      also have "later ?s u = later s t" by (auto simp: later_def Cons simp del: drop_append split: option.splits)
      also have "matches p1 u = matches p t" using matches_step [OF accepts(1), of c u] accepts(2) Cons by simp
      finally show ?thesis .
    next
      case rejects
      have no: "\<not> matches p t" using matches_step [OF rejects(1), of c u] rejects(2) Cons by simp
      show ?thesis
      proof (cases s)
        case None
        then show ?thesis using no loop_back [OF rejects] by (simp add: Cons later_def)
      next
        case (Some x)
        then obtain sp consumed where s: "s = Some (sp, consumed)" by (cases x) auto
        let ?t = "tl (consumed @ t)"
        have "loop p t s = loop sp ?t (Some (sp, []))" using loop_back [OF rejects] by (simp add: Cons s)
        also have "\<dots> = (matches sp ?t \<or> later (Some (sp, [])) ?t)"
          by (rule less(1)) (auto simp: Cons s star_reaches_def consumes.none)
        also have "\<dots> = later s t"
          using shift_drop [of "consumed @ t" "matches sp"] Cons by (simp add: s later_def del: drop_append)
        finally show ?thesis using no by simp
      qed
    qed
  qed
qed

lemma loop_decides: "loop p t None \<longleftrightarrow> matches p t"
  using loop_correct [of None p t] by (simp add: star_reaches_def later_def)

end

declare pubsub_loop.simps(2) [simp del]

interpretation pubsub_glob: glob_matcher "CHR ''*''" pubsub_step pubsub_loop
proof
  show "pubsub_step p c = Some p1 \<Longrightarrow> pubsub_step p d = Some p2 \<Longrightarrow> p1 = p2" for p c d p1 p2
    by (cases p) (auto split: if_splits)
  fix p c t s p1
  show "p \<noteq> [] \<Longrightarrow> hd p = CHR ''*'' \<Longrightarrow> pubsub_loop p (c # t) s = pubsub_loop (tl p) (c # t) (Some (tl p, []))"
    by (subst pubsub_loop.simps(2)) simp
  show "p = [] \<or> hd p \<noteq> CHR ''*'' \<Longrightarrow> pubsub_step p c = Some p1 \<Longrightarrow>
      pubsub_loop p (c # t) s = pubsub_loop p1 t (map_option (\<lambda>(sp, consumed). (sp, consumed @ [c])) s)"
    by (subst pubsub_loop.simps(2)) auto
  show "p = [] \<or> hd p \<noteq> CHR ''*'' \<Longrightarrow> pubsub_step p c = None \<Longrightarrow> pubsub_loop p (c # t) s =
      (case s of Some (sp, consumed) \<Rightarrow> pubsub_loop sp (tl (consumed @ c # t)) (Some (sp, [])) | None \<Rightarrow> False)"
    by (subst pubsub_loop.simps(2)) auto
qed (simp_all add: pubsub_step_shorter)

declare engine_loop.simps(2) [simp del]

interpretation engine_glob: glob_matcher 42 engine_step engine_loop
proof
  show "engine_step p c = Some p1 \<Longrightarrow> engine_step p d = Some p2 \<Longrightarrow> p1 = p2" for p c d p1 p2
    by (cases p) (auto simp: Let_def split: if_splits)
  fix p c t s p1
  show "p \<noteq> [] \<Longrightarrow> hd p = 42 \<Longrightarrow> engine_loop p (c # t) s = engine_loop (tl p) (c # t) (Some (tl p, []))"
    by (subst engine_loop.simps(2)) simp
  show "p = [] \<or> hd p \<noteq> 42 \<Longrightarrow> engine_step p c = Some p1 \<Longrightarrow>
      engine_loop p (c # t) s = engine_loop p1 t (map_option (\<lambda>(sp, consumed). (sp, consumed @ [c])) s)"
    by (subst engine_loop.simps(2)) auto
  show "p = [] \<or> hd p \<noteq> 42 \<Longrightarrow> engine_step p c = None \<Longrightarrow> engine_loop p (c # t) s =
      (case s of Some (sp, consumed) \<Rightarrow> engine_loop sp (tl (consumed @ c # t)) (Some (sp, [])) | None \<Rightarrow> False)"
    by (subst engine_loop.simps(2)) auto
qed (simp_all add: engine_step_shorter)

text \<open>
  C30: the two iterative glob matchers terminate and decide the declarative meaning of a pattern: a
  pattern matches when its elements, in order, each accept one character and every star absorbs
  any number of characters.  Remembering only the last star loses no match.
\<close>

theorem glob_matchers_exact:
  "pubsub_pattern_matches p channel = glob_match (CHR ''*'') pubsub_step p channel \<and>
   engine_pattern_matches q txt = glob_match 42 engine_step q txt"
  by (simp add: pubsub_pattern_matches_def engine_pattern_matches_def pubsub_glob.loop_decides engine_glob.loop_decides)

end
