(* ===== verification/Engine_Keys.thy ===== *)
theory Engine_Keys
  imports Engine_Sets Engine_Hashes Engine_Sorted Glob
begin

text \<open>
  The operations of \<^verbatim>\<open>src/storage/engine.rs\<close> over whole databases: \<^verbatim>\<open>RENAME\<close>, \<^verbatim>\<open>KEYS\<close>, \<^verbatim>\<open>FLUSHDB\<close>, the \<^verbatim>\<open>SCAN\<close>
  family, the expiration sweep and the \<^verbatim>\<open>WATCH\<close> registry.
\<close>

section \<open>Keys\<close>

definition get_all_keys :: "storage_engine \<Rightarrow> nat \<Rightarrow> bytes list result" where
  "get_all_keys e db =
     (if db < length (databases e) then Ok (concat (map (\<lambda>sh. map fst (shard_data sh)) (databases e ! db)))
      else Err (Storage InvalidDatabase))"

definition pattern_accepts :: "bytes option \<Rightarrow> bytes \<Rightarrow> bool" where
  "pattern_accepts pattern key =
     (case pattern of None \<Rightarrow> True | Some p \<Rightarrow> engine_pattern_matches (from_utf8_lossy p) (from_utf8_lossy key))"

definition keys :: "storage_engine \<Rightarrow> nat \<Rightarrow> bytes \<Rightarrow> bytes list result" where
  "keys e db pattern =
     (if db < length (databases e) then
        Ok (concat (map (\<lambda>sh. filter (pattern_accepts (Some pattern)) (map fst (shard_data sh))) (databases e ! db)))
      else Err (Storage InvalidDatabase))"

definition put_shard :: "nat \<Rightarrow> nat \<Rightarrow> database_shard \<Rightarrow> storage_engine \<Rightarrow> storage_engine" where
  "put_shard db i sh e = e\<lparr>databases := (databases e)[db := (databases e ! db)[i := sh]]\<rparr>"

definition rename_key :: "nat \<Rightarrow> bytes \<Rightarrow> bytes \<Rightarrow> storage_engine \<Rightarrow> storage_engine \<times> unit result" where
  "rename_key db old_key new_key e =
     (if db < length (databases e) then
        (let old_idx = get_shard_index old_key;
             new_idx = get_shard_index new_key;
             old_shard = databases e ! db ! old_idx;
             new_shard = databases e ! db ! new_idx
         in if old_idx = new_idx then
              (case data_get old_key old_shard of
                 Some sv \<Rightarrow>
                   (put_shard db old_idx (mark_modified new_key (data_insert new_key sv (data_remove old_key old_shard))) e, Ok ())
               | None \<Rightarrow> (e, Err (Command NoSuchKey)))
            else
              (case data_get old_key old_shard of
                 Some sv \<Rightarrow>
                   (put_shard db new_idx (mark_modified new_key (data_insert new_key sv new_shard))
                     (put_shard db old_idx (data_remove old_key old_shard) e), Ok ())
               | None \<Rightarrow> (e, Err (Command NoSuchKey))))
      else (e, Err (Storage InvalidDatabase)))"

definition flush_shard :: "database_shard \<Rightarrow> database_shard" where
  "flush_shard sh = sh\<lparr>shard_data := [], expiring_keys := []\<rparr>"

definition shard_size :: "database_shard \<Rightarrow> u64" where
  "shard_size sh = sum_list (map (\<lambda>(k, sv). calculate_value_size k (sv_value sv)) (shard_data sh))"

definition flush_db :: "nat \<Rightarrow> storage_engine \<Rightarrow> storage_engine \<times> unit result" where
  "flush_db db e =
     (if db < length (databases e) then
        (e\<lparr>databases := (databases e)[db := map flush_shard (databases e ! db)],
           memory := remove_memory (sum_list (map shard_size (databases e ! db))) (memory e)\<rparr>, Ok ())
      else (e, Err (Storage InvalidDatabase)))"

section \<open>Cursor iteration\<close>

text \<open>
  The loop shared by \<^verbatim>\<open>scan\<close>, \<^verbatim>\<open>hscan\<close>, \<^verbatim>\<open>sscan\<close> and \<^verbatim>\<open>zscan\<close> over the sorted items, of which the last
  argument is the part from \<^verbatim>\<open>current_pos\<close> on: it returns the final position and the items included.
\<close>

fun scan_loop :: "('a \<Rightarrow> bool) \<Rightarrow> nat \<Rightarrow> nat \<Rightarrow> nat \<Rightarrow> nat \<Rightarrow> 'a list \<Rightarrow> nat \<times> 'a list" where
  "scan_loop include max_count examined found current_pos [] = (current_pos, [])"
| "scan_loop include max_count examined found current_pos (x # xs) =
     (if examined < max_count * 10 \<and> found < max_count then
        (let (pos, r) = scan_loop include max_count (examined + 1) (if include x then found + 1 else found) (current_pos + 1) xs
         in (pos, if include x then x # r else r))
      else (current_pos, []))"

definition max_scan_count :: "nat \<Rightarrow> nat" where
  "max_scan_count count = min (if count = 0 then 10 else count) 1000"

definition scan_items :: "('a \<Rightarrow> bool) \<Rightarrow> nat \<Rightarrow> nat \<Rightarrow> 'a list \<Rightarrow> nat \<times> 'a list" where
  "scan_items include count cursor items =
     (let start_pos = cursor
      in if start_pos \<ge> length items \<and> items \<noteq> [] then (0, [])
         else let (current_pos, r) = scan_loop include (max_scan_count count) 0 0 start_pos (drop start_pos items)
              in (if current_pos \<ge> length items then 0 else current_pos, r))"

definition scan_keys :: "storage_engine \<Rightarrow> nat \<Rightarrow> string option \<Rightarrow> (bytes \<Rightarrow> nat) \<Rightarrow> bytes list" where
  "scan_keys e db type_filter clock =
     concat (map (\<lambda>sh. map fst (filter (\<lambda>(k, sv). \<not> is_expired (clock k) sv \<and>
        (case type_filter of None \<Rightarrow> True | Some t \<Rightarrow> type_name (sv_value sv) = t)) (shard_data sh))) (databases e ! db))"

definition scan :: "storage_engine \<Rightarrow> nat \<Rightarrow> nat \<Rightarrow> bytes option \<Rightarrow> string option \<Rightarrow> nat \<Rightarrow> (bytes \<Rightarrow> nat) \<Rightarrow> (nat \<times> bytes list) result" where
  "scan e db cursor pattern type_filter count clock =
     (if db < length (databases e) then
        Ok (scan_items (pattern_accepts pattern) count cursor (sort (scan_keys e db type_filter clock)))
      else Err (Storage InvalidDatabase))"

text \<open>The three scans of one value start from \<^verbatim>\<open>get\<close>, which may remove an expired key.\<close>

fun sscan :: "bytes \<Rightarrow> nat \<Rightarrow> bytes option \<Rightarrow> nat \<Rightarrow> nat \<Rightarrow> (nat \<times> bytes list) shard_op" where
  "sscan key cursor pattern count now s =
     (let (s, r) = engine_get key now s
      in (s, bind_result r (\<lambda>g. case g of
           Found v \<Rightarrow>
             (case v of
                VSet members \<Rightarrow>
                  if length members \<le> max_scan_count count \<and> cursor = 0 \<and> pattern = None then Ok (0, members)
                  else Ok (scan_items (pattern_accepts pattern) count cursor (sort members))
              | _ \<Rightarrow> wrong_type)
         | _ \<Rightarrow> Ok (0, []))))"

definition field_reply :: "bool \<Rightarrow> (bytes \<times> bytes) list \<Rightarrow> bytes list \<Rightarrow> bytes list" where
  "field_reply no_values h fs = concat (map (\<lambda>f. if no_values then [f] else [f, the (map_of h f)]) fs)"

fun hscan :: "bytes \<Rightarrow> nat \<Rightarrow> bytes option \<Rightarrow> nat \<Rightarrow> bool \<Rightarrow> nat \<Rightarrow> (nat \<times> bytes list) shard_op" where
  "hscan key cursor pattern count no_values now s =
     (let (s, r) = engine_get key now s
      in (s, bind_result r (\<lambda>g. case g of
           Found v \<Rightarrow>
             (case v of
                VHash h \<Rightarrow>
                  if length h \<le> max_scan_count count \<and> cursor = 0 \<and> pattern = None then
                    Ok (0, field_reply no_values h (map fst h))
                  else
                    let (next, fs) = scan_items (pattern_accepts pattern) count cursor (sort (map fst h))
                    in Ok (next, field_reply no_values h fs)
              | _ \<Rightarrow> wrong_type)
         | _ \<Rightarrow> Ok (0, []))))"

fun zscan :: "bytes \<Rightarrow> nat \<Rightarrow> bytes option \<Rightarrow> nat \<Rightarrow> nat \<Rightarrow> (nat \<times> (bytes \<times> f64) list) shard_op" where
  "zscan key cursor pattern count now s =
     (let (s, r) = engine_get key now s
      in (s, bind_result r (\<lambda>g. case g of
           Found v \<Rightarrow>
             (case v of
                VSortedSet z \<Rightarrow>
                  (case range_by_rank 0 (sl_len z - 1) z of
                     None \<Rightarrow> Panic
                   | Some items \<Rightarrow>
                       let items = sort_key fst items
                       in if length items \<le> max_scan_count count \<and> cursor = 0 \<and> pattern = None then Ok (0, items)
                          else Ok (scan_items (pattern_accepts pattern \<circ> fst) count cursor items))
              | _ \<Rightarrow> wrong_type)
         | _ \<Rightarrow> Ok (0, []))))"

section \<open>The expiration sweep\<close>

fun sweep_key :: "bytes \<Rightarrow> unit shard_op" where
  "sweep_key key (sh, m) =
     (case data_get key sh of
        Some sv \<Rightarrow>
          ((mark_modified key (expiring_remove key (data_remove key sh)),
            remove_memory (calculate_value_size key (sv_value sv)) m), Ok ())
      | None \<Rightarrow> ((sh, m), Ok ()))"

definition expired_keys :: "nat \<Rightarrow> database_shard \<Rightarrow> bytes list" where
  "expired_keys now sh = map fst (filter (\<lambda>(k, t). t \<le> now) (expiring_keys sh))"

definition sweep_shard :: "nat \<Rightarrow> database_shard \<times> memory_manager \<Rightarrow> database_shard \<times> memory_manager" where
  "sweep_shard now s = fold (\<lambda>k s. fst (sweep_key k s)) (expired_keys now (fst s)) s"

fun sweep_shards :: "nat \<Rightarrow> database_shard list \<Rightarrow> memory_manager \<Rightarrow> database_shard list \<times> memory_manager" where
  "sweep_shards now [] m = ([], m)"
| "sweep_shards now (sh # shs) m =
     (let (sh, m) = sweep_shard now (sh, m); (shs, m) = sweep_shards now shs m in (sh # shs, m))"

text \<open>One pass of \<^verbatim>\<open>expiration_cleanup_loop\<close>; the clock is read once for each database.\<close>

fun sweep_databases :: "(nat \<Rightarrow> nat) \<Rightarrow> nat \<Rightarrow> database_shard list list \<Rightarrow> memory_manager \<Rightarrow> database_shard list list \<times> memory_manager" where
  "sweep_databases clock i [] m = ([], m)"
| "sweep_databases clock i (d # ds) m =
     (let (d, m) = sweep_shards (clock i) d m; (ds, m) = sweep_databases clock (Suc i) ds m in (d # ds, m))"

definition expiration_cleanup :: "(nat \<Rightarrow> nat) \<Rightarrow> storage_engine \<Rightarrow> storage_engine" where
  "expiration_cleanup clock e =
     (let (ds, m) = sweep_databases clock 0 (databases e) (memory e) in e\<lparr>databases := ds, memory := m\<rparr>)"

section \<open>\<^verbatim>\<open>WATCH\<close>\<close>

fun register_watch :: "bytes \<Rightarrow> u64 shard_op" where
  "register_watch key (sh, m) =
     (let w = watch_tracker sh; w = w\<lparr>active_watchers := active_watchers w + 1\<rparr>
      in ((sh\<lparr>watch_tracker := w\<rparr>, m), Ok (get_key_counter key w)))"

fun unregister_watch :: "unit shard_op" where
  "unregister_watch (sh, m) =
     (let w = watch_tracker sh in ((sh\<lparr>watch_tracker := w\<lparr>active_watchers := active_watchers w - 1\<rparr>\<rparr>, m), Ok ()))"

fun was_modified_since :: "bytes \<Rightarrow> u64 \<Rightarrow> nat \<Rightarrow> bool shard_op" where
  "was_modified_since key baseline now (sh, m) =
     ((sh, m), Ok (if get_key_counter key (watch_tracker sh) > baseline then True
        else case data_get key sh of Some sv \<Rightarrow> is_expired now sv | None \<Rightarrow> False))"

fun get_modification_counter :: "bytes \<Rightarrow> u64 shard_op" where
  "get_modification_counter key (sh, m) = ((sh, m), Ok (global_counter (watch_tracker sh)))"

section \<open>A full scan\<close>

text \<open>A client iterates from a cursor until the server returns cursor 0, and collects the items.\<close>

inductive scan_run :: "(nat \<Rightarrow> nat \<times> 'a list) \<Rightarrow> nat \<Rightarrow> 'a list \<Rightarrow> bool" for call :: "nat \<Rightarrow> nat \<times> 'a list" where
  final: "call c = (0, r) \<Longrightarrow> scan_run call c r"
| again: "call c = (c', r) \<Longrightarrow> c' \<noteq> 0 \<Longrightarrow> scan_run call c' rs \<Longrightarrow> scan_run call c (r @ rs)"

inductive_cases scan_runE: "scan_run call c rs"

lemma scan_run_unique: "scan_run call c rs \<Longrightarrow> scan_run call c rs' \<Longrightarrow> rs' = rs"
proof (induction arbitrary: rs' rule: scan_run.induct)
  case (final c r)
  from final(2) show ?case by (rule scan_runE) (use final(1) in auto)
next
  case (again c c' r rs)
  note call = again(1,2) and IH = again(4)
  from again(5) show ?case
  proof (rule scan_runE)
    fix d q qs assume "rs' = q @ qs" "call c = (d, q)" "scan_run call d qs"
    then show ?thesis using call IH [of qs] by simp
  qed (use call in simp)
qed

lemma scan_loop_prefix:
  "\<exists>n. n \<le> length xs \<and> scan_loop inc mx ex fd pos xs = (pos + n, filter inc (take n xs)) \<and>
     (xs \<noteq> [] \<and> ex < mx * 10 \<and> fd < mx \<longrightarrow> 0 < n)"
proof (induction xs arbitrary: ex fd pos)
  case (Cons x xs)
  show ?case
  proof (cases "ex < mx * 10 \<and> fd < mx")
    case True
    obtain n where "n \<le> length xs"
      "scan_loop inc mx (ex + 1) (if inc x then fd + 1 else fd) (pos + 1) xs = (pos + 1 + n, filter inc (take n xs))"
      using Cons.IH [of "ex + 1" "if inc x then fd + 1 else fd" "pos + 1"] by blast
    then show ?thesis using True by (intro exI [of _ "Suc n"]) (auto simp: Let_def)
  next
    case False
    then show ?thesis by (intro exI [of _ 0]) auto
  qed
qed simp

lemma max_scan_count_pos: "0 < max_scan_count count"
  by (simp add: max_scan_count_def)

lemma scan_items_progress:
  assumes "c < length items"
  shows "\<exists>n > 0. c + n \<le> length items \<and>
    scan_items inc count c items = (if c + n = length items then 0 else c + n, filter inc (take n (drop c items)))"
proof -
  obtain n where n: "n \<le> length (drop c items)" "0 < n"
    "scan_loop inc (max_scan_count count) 0 0 c (drop c items) = (c + n, filter inc (take n (drop c items)))"
    using scan_loop_prefix [of "drop c items" inc "max_scan_count count" 0 0 c] assms max_scan_count_pos by auto
  then show ?thesis using assms by (intro exI [of _ n]) (auto simp: scan_items_def Let_def)
qed

lemma scan_items_complete:
  "c < length items \<Longrightarrow> scan_run (\<lambda>c. scan_items inc count c items) c (filter inc (drop c items))"
proof (induction "length items - c" arbitrary: c rule: less_induct)
  case less
  obtain n where n: "0 < n" "c + n \<le> length items"
    "scan_items inc count c items = (if c + n = length items then 0 else c + n, filter inc (take n (drop c items)))"
    using scan_items_progress [OF less(2)] by blast
  show ?case
  proof (cases "c + n = length items")
    case True
    then show ?thesis using n by (intro scan_run.final) auto
  next
    case False
    then have "scan_run (\<lambda>c. scan_items inc count c items) (c + n) (filter inc (drop (c + n) items))"
      using n less(2) by (intro less(1)) auto
    then have "scan_run (\<lambda>c. scan_items inc count c items) c (filter inc (take n (drop c items)) @ filter inc (drop (c + n) items))"
      using n False by (intro scan_run.again) auto
    moreover have "take n (drop c items) @ drop (c + n) items = drop c items"
      by (metis add.commute append_take_drop_id drop_drop)
    ultimately show ?thesis by (metis filter_append)
  qed
qed

lemma scan_items_all: "scan_run (\<lambda>c. scan_items inc count c items) 0 (filter inc items)"
proof (cases items)
  case Nil
  then show ?thesis by (auto simp: scan_items_def intro: scan_run.final)
qed (use scan_items_complete [of 0 items inc count] in simp)

section \<open>The keys of a database\<close>

lemma distinct_concat_map:
  assumes "\<And>i. i < length xs \<Longrightarrow> distinct (f (xs ! i))"
    and "\<And>i j x. i < length xs \<Longrightarrow> j < length xs \<Longrightarrow> x \<in> set (f (xs ! i)) \<Longrightarrow> x \<in> set (f (xs ! j)) \<Longrightarrow> i = j"
  shows "distinct (concat (map f xs))"
  using assms
proof (induction xs)
  case (Cons a xs)
  have "distinct (concat (map f xs))"
  proof (rule Cons.IH)
    show "distinct (f (xs ! i))" if "i < length xs" for i using Cons.prems(1) [of "Suc i"] that by simp
    show "i = j" if "i < length xs" "j < length xs" "x \<in> set (f (xs ! i))" "x \<in> set (f (xs ! j))" for i j x
      using Cons.prems(2) [of "Suc i" "Suc j" x] that by simp
  qed
  moreover have "set (f a) \<inter> set (concat (map f xs)) = {}"
  proof (rule ccontr)
    assume "set (f a) \<inter> set (concat (map f xs)) \<noteq> {}"
    then obtain x j where "x \<in> set (f a)" "j < length xs" "x \<in> set (f (xs ! j))" by (auto simp: in_set_conv_nth [of _ xs])
    then show False using Cons.prems(2) [of 0 "Suc j" x] by simp
  qed
  ultimately show ?case using Cons.prems(1) [of 0] by simp
qed simp

lemma stored_in_shard:
  assumes "database_ok shards" "i < SHARDS_PER_DATABASE"
  shows "(k, sv) \<in> set (shard_data (shards ! i)) \<longleftrightarrow>
    i = get_shard_index k \<and> data_get k (shards ! get_shard_index k) = Some sv"
proof -
  have "distinct (map fst (shard_data (shards ! i)))" using assms by (simp add: database_ok_def shard_ok_def)
  then have "(k, sv) \<in> set (shard_data (shards ! i)) \<longleftrightarrow> data_get k (shards ! i) = Some sv"
    by (simp add: data_get_def map_of_Some_in_set)
  also have "\<dots> \<longleftrightarrow> i = get_shard_index k \<and> data_get k (shards ! get_shard_index k) = Some sv"
    using assms unfolding database_ok_def by (metis option.distinct(1))
  finally show ?thesis .
qed

lemma filtered_keys:
  assumes "database_ok shards" and ks_def: "ks = concat (map (\<lambda>sh. map fst (filter P (shard_data sh))) shards)"
  shows "distinct ks"
    and "k \<in> set ks \<longleftrightarrow> (\<exists>sv. data_get k (shards ! get_shard_index k) = Some sv \<and> P (k, sv))"
proof -
  have len: "length shards = SHARDS_PER_DATABASE" using assms(1) by (simp add: database_ok_def)
  show "distinct ks" unfolding ks_def
  proof (rule distinct_concat_map)
    fix i assume "i < length shards"
    then show "distinct (map fst (filter P (shard_data (shards ! i))))"
      using assms(1) len by (simp add: database_ok_def shard_ok_def distinct_map_filter)
  next
    fix i j x assume i: "i < length shards" "x \<in> set (map fst (filter P (shard_data (shards ! i))))"
      and j: "j < length shards" "x \<in> set (map fst (filter P (shard_data (shards ! j))))"
    then show "i = j" using stored_in_shard [OF assms(1)] len by auto
  qed
  have "k \<in> set ks \<longleftrightarrow> (\<exists>i < SHARDS_PER_DATABASE. \<exists>sv. (k, sv) \<in> set (shard_data (shards ! i)) \<and> P (k, sv))"
    unfolding ks_def using len by (force simp: in_set_conv_nth [of _ shards])
  then show "k \<in> set ks \<longleftrightarrow> (\<exists>sv. data_get k (shards ! get_shard_index k) = Some sv \<and> P (k, sv))"
    using stored_in_shard [OF assms(1)] get_shard_index_bound by metis
qed

lemma scan_keys_spec:
  assumes "engine_ok e" "db < length (databases e)"
  shows "distinct (scan_keys e db tf clock)"
    and "k \<in> set (scan_keys e db tf clock) \<longleftrightarrow> (\<exists>sv. lookup e db k = Some sv \<and> \<not> is_expired (clock k) sv \<and>
      (case tf of None \<Rightarrow> True | Some t \<Rightarrow> type_name (sv_value sv) = t))"
  using filtered_keys [OF engine_ok_nth [OF assms] refl] assms(2)
  by (simp_all add: scan_keys_def lookup_def shard_of_def)

definition scan_call :: "storage_engine \<Rightarrow> nat \<Rightarrow> bytes option \<Rightarrow> string option \<Rightarrow> nat \<Rightarrow> (bytes \<Rightarrow> nat) \<Rightarrow> nat \<Rightarrow> nat \<times> bytes list" where
  "scan_call e db pattern tf count clock c = (case scan e db c pattern tf count clock of Ok r \<Rightarrow> r | _ \<Rightarrow> (0, []))"

text \<open>
  C29: iterating \<^verbatim>\<open>SCAN\<close> from cursor 0 until the server returns cursor 0 ends, and the replies together
  list, sorted and without repetition, exactly the live keys that have the requested type and match
  the pattern, whatever \<^verbatim>\<open>COUNT\<close> is.
\<close>

theorem scan_complete:
  assumes "engine_ok e" "db < length (databases e)"
  shows "\<exists>rs. scan_run (scan_call e db pattern tf count clock) 0 = (\<lambda>all. all = rs) \<and> sorted_wrt (<) rs \<and>
    set rs = {k. \<exists>sv. lookup e db k = Some sv \<and> \<not> is_expired (clock k) sv \<and>
      (case tf of None \<Rightarrow> True | Some t \<Rightarrow> type_name (sv_value sv) = t) \<and> pattern_accepts pattern k}"
proof -
  let ?ks = "sort (scan_keys e db tf clock)" and ?call = "scan_call e db pattern tf count clock"
  let ?rs = "filter (pattern_accepts pattern) ?ks"
  have "?call = (\<lambda>c. scan_items (pattern_accepts pattern) count c ?ks)"
    using assms(2) by (simp add: scan_call_def scan_def fun_eq_iff)
  then have run: "scan_run ?call 0 ?rs" using scan_items_all [of "pattern_accepts pattern" count ?ks] by simp
  have "scan_run ?call 0 = (\<lambda>all. all = ?rs)"
  proof
    show "scan_run ?call 0 rs = (rs = ?rs)" for rs using run scan_run_unique [OF run, of rs] by blast
  qed
  moreover have "sorted_wrt (<) ?rs"
    by (intro sorted_wrt_filter) (simp add: strict_sorted_iff scan_keys_spec(1) [OF assms])
  moreover have "set ?rs = {k. \<exists>sv. lookup e db k = Some sv \<and> \<not> is_expired (clock k) sv \<and>
      (case tf of None \<Rightarrow> True | Some t \<Rightarrow> type_name (sv_value sv) = t) \<and> pattern_accepts pattern k}"
    using scan_keys_spec(2) [OF assms, of _ tf clock] by auto
  ultimately show ?thesis by blast
qed

theorem scan_complete_witness:
  "\<exists>rs. scan_run (scan_call sample_sets 0 None (Some ''set'') 5 (\<lambda>_. 0)) 0 = (\<lambda>all. all = rs) \<and> ''s'' \<in> set rs \<and> ''t'' \<notin> set rs"
proof -
  have "case lookup sample_sets 0 ''s'' of None \<Rightarrow> False | Some sv \<Rightarrow> \<not> is_expired 0 sv \<and> type_name (sv_value sv) = ''set''"
    by code_simp
  then obtain sv where s: "lookup sample_sets 0 ''s'' = Some sv" "\<not> is_expired 0 sv" "type_name (sv_value sv) = ''set''"
    by (auto split: option.splits)
  have "Option.is_none (lookup sample_sets 0 ''t'')" by code_simp
  then have t: "lookup sample_sets 0 ''t'' = None" by (simp add: Option.is_none_def)
  show ?thesis
    using scan_complete [OF sample_sets_ok(1), of 0 None "Some ''set''" 5 "\<lambda>_. 0"] sample_sets_ok(2) s t
    by (auto simp: pattern_accepts_def)
qed

end
