(* ===== verification/Disk.thy ===== *)
theory Disk
  imports Prelude
begin

text \<open>
  The file system as the persistence engines see it (\<^verbatim>\<open>src/storage/rdb.rs\<close>, \<^verbatim>\<open>src/storage/aof.rs\<close>): the contents
  of files by path, and the two operations on paths the engines use.
\<close>

type_synonym disk = "string \<Rightarrow> bytes option"

text \<open>\<^verbatim>\<open>PathBuf::push\<close>, and \<^verbatim>\<open>with_extension\<close> for a path that ends in a plain file name.\<close>

definition path_push :: "string \<Rightarrow> string \<Rightarrow> string" where
  "path_push d f =
     (if take 1 f = ''/'' \<or> d = [] then f
      else if last d = CHR ''/'' then d @ f
      else d @ ''/'' @ f)"

definition with_extension :: "string \<Rightarrow> string \<Rightarrow> string" where
  "with_extension p ext =
     (let name = rev (takeWhile (\<lambda>c. c \<noteq> CHR ''/'') (rev p));
          parent = take (length p - length name) p;
          stem_length = length (dropWhile (\<lambda>c. c \<noteq> CHR ''.'') (rev name)) - 1
      in if CHR ''.'' \<in> set name \<and> stem_length > 0 then parent @ take stem_length name @ ''.'' @ ext
         else parent @ name @ ''.'' @ ext)"

end
