(* ===== verification/Rdb.thy ===== *)
theory Rdb
  imports Rdb_Format Engine_Keys Disk
begin

text \<open>
  Snapshots (\<^verbatim>\<open>src/storage/rdb.rs\<close>): \<^verbatim>\<open>RdbEngine\<close> with its dump file, the snapshot writer, the bytes
  generated for a replica, and the loader.  The clocks are arguments: \<open>save_clock\<close> gives the readings
  made for a key while saving, \<open>load_env\<close> the readings and the skip-list levels drawn while loading,
  by the position in the file at which they happen.
\<close>

section \<open>Writing values\<close>

definition RDB_VERSION :: nat where "RDB_VERSION = 9"
definition RDB_MAGIC :: bytes where "RDB_MAGIC = ''REDIS''"
definition CARGO_PKG_VERSION :: string where "CARGO_PKG_VERSION = ''0.1.0''"

definition version_text :: string where
  "version_text = (let s = nat_to_string RDB_VERSION in replicate (4 - length s) (CHR ''0'') @ s)"

definition write_header :: "(rdb_writer, unit) step" where
  "write_header = steps [write_raw RDB_MAGIC, write_raw version_text]"

definition write_aux :: "string \<Rightarrow> string \<Rightarrow> (rdb_writer, unit) step" where
  "write_aux key v = steps [write_byte (opcode OpAux), write_string key, write_string v]"

text \<open>\<open>secs\<close>: the wall clock in seconds.\<close>

definition write_metadata :: "u64 \<Rightarrow> (rdb_writer, unit) step" where
  "write_metadata secs = steps [write_aux ''redis-ver'' CARGO_PKG_VERSION, write_aux ''ctime'' (u64_to_string secs)]"

definition write_db_selector :: "nat \<Rightarrow> (rdb_writer, unit) step" where
  "write_db_selector db = steps [write_byte (opcode OpSelectDb), write_length db]"

definition write_resize_db :: "nat \<Rightarrow> nat \<Rightarrow> (rdb_writer, unit) step" where
  "write_resize_db db_size expires_size =
     steps [write_byte (opcode OpResizeDb), write_length db_size, write_length expires_size]"

definition stream_marker :: bytes where "stream_marker = ''__FERROUS_STREAM_MARKER__''"

definition total_items :: "stream_entry list \<Rightarrow> nat" where
  "total_items es = fold (\<lambda>e n. n + 2 + length (entry_fields e) * 2) es 1"

definition write_entry :: "stream_entry \<Rightarrow> (rdb_writer, unit) step" where
  "write_entry e =
     steps (write_string (id_to_string (entry_id e)) # write_string (nat_to_string (length (entry_fields e))) #
       map (\<lambda>(f, v). steps [write_string f, write_string v]) (entry_fields e))"

definition expiry_ms :: "u64 \<Rightarrow> nat \<Rightarrow> u64" where
  "expiry_ms wall_ms d = wall_ms + word_of_nat (d div 1000000)"

text \<open>\<open>len - 1\<close> is a \<^verbatim>\<open>usize\<close>: it wraps for an empty sorted set.\<close>

definition pred_usize :: "nat \<Rightarrow> nat" where
  "pred_usize n = (if n = 0 then usize_max else n - 1)"

text \<open>The \<^verbatim>\<open>match value\<close> of \<^verbatim>\<open>write_key_value\<close>, then the function.\<close>

definition write_value :: "bytes \<Rightarrow> val \<Rightarrow> (rdb_writer, unit) step" where
  "write_value key v w =
     (case v of
         VString b \<Rightarrow> steps [write_byte (opcode OpString), write_string key, write_string b] w
       | VSortedSet z \<Rightarrow>
           and_then (steps [write_byte (opcode OpZSet), write_string key, write_length (sl_len z)] w) (\<lambda>w _.
             case range_by_rank 0 (pred_usize (sl_len z)) z of
               Some items \<Rightarrow> steps (map (\<lambda>(member, score). steps [write_string member, write_f64 score]) items) w
             | None \<Rightarrow> (w, Panic))
       | VStream st \<Rightarrow>
           let es = stream_range min_id max_id None False st
           in steps (write_byte (opcode OpList) # write_string key # write_length (total_items es) #
                write_string stream_marker # map write_entry es) w
       | VList l \<Rightarrow>
           steps (write_byte (opcode OpList) # write_string key # write_length (length l) # map write_string l) w
       | VSet s \<Rightarrow>
           steps (write_byte (opcode OpSet) # write_string key # write_length (length s) # map write_string s) w
       | VHash h \<Rightarrow>
           steps (write_byte (opcode OpHash) # write_string key # write_length (length h) #
             map (\<lambda>(f, x). steps [write_string f, write_string x]) h) w)"

definition write_key_value :: "u64 \<Rightarrow> bytes \<Rightarrow> val \<Rightarrow> nat option \<Rightarrow> (rdb_writer, unit) step" where
  "write_key_value wall_ms key v time_left w =
     and_then (case time_left of
         Some d \<Rightarrow> steps [write_byte (opcode OpExpireTimeMs), write_u64_le (expiry_ms wall_ms d)] w
       | None \<Rightarrow> (w, Ok ()))
     (\<lambda>w _. write_value key v w)"

section \<open>The snapshot of an engine\<close>

record save_clock =
  get_at :: "nat \<Rightarrow> bytes \<Rightarrow> nat"
  ttl_at :: "nat \<Rightarrow> bytes \<Rightarrow> nat"
  wall_ms_at :: "nat \<Rightarrow> bytes \<Rightarrow> u64"
  started_secs :: u64

definition on_storage :: "(storage_engine, 'a) step \<Rightarrow> (storage_engine \<times> 'w, 'a) step" where
  "on_storage f s = (let (e, r) = f (fst s) in ((e, snd s), r))"

definition on_file :: "('w, 'a) step \<Rightarrow> (storage_engine \<times> 'w, 'a) step" where
  "on_file f s = (let (w, r) = f (snd s) in ((fst s, w), r))"

text \<open>\<^verbatim>\<open>storage.get(db, key)?\<close> followed, for a value that is there, by \<^verbatim>\<open>storage.ttl(db, key)?\<close>.\<close>

definition snapshot_key :: "save_clock \<Rightarrow> nat \<Rightarrow> bytes \<Rightarrow> (storage_engine \<times> rdb_writer, unit) step" where
  "snapshot_key clk db key s =
     and_then (on_storage (on_shard db key (engine_get key (get_at clk db key))) s) (\<lambda>s g.
       case g of
         Found v \<Rightarrow>
           and_then (on_storage (on_shard db key (ttl key (ttl_at clk db key))) s) (\<lambda>s d.
             on_file (write_key_value (wall_ms_at clk db key) key v d) s)
       | _ \<Rightarrow> (s, Ok ()))"

definition snapshot_db :: "save_clock \<Rightarrow> nat \<Rightarrow> (storage_engine \<times> rdb_writer, unit) step" where
  "snapshot_db clk db s =
     and_then (s, get_all_keys (fst s) db) (\<lambda>s ks.
       if ks \<noteq> [] then
         steps (on_file (write_db_selector db) # on_file (write_resize_db (length ks) (length ks)) #
           map (snapshot_key clk db) ks) s
       else (s, Ok ()))"

definition write_eof :: "(rdb_writer, unit) step" where
  "write_eof = write_byte (opcode OpEof)"

definition write_checksum :: "(rdb_writer, unit) step" where
  "write_checksum w = write_u64_le (crc w) w"

definition write_snapshot :: "save_clock \<Rightarrow> (storage_engine \<times> rdb_writer, unit) step" where
  "write_snapshot clk s =
     steps (on_file write_header # on_file (write_metadata (started_secs clk)) #
       map (snapshot_db clk) [0..<length (databases (fst s))] @
       [on_file write_eof, on_file write_checksum]) s"

section \<open>The bytes sent to a replica\<close>

text \<open>
  \<^verbatim>\<open>generate_rdb_bytes\<close> builds the same format in a buffer, which does not fail; its deadline is the wall
  clock, in nanoseconds, plus the remaining time, cut to milliseconds.
\<close>

definition buffer_aux :: "string \<Rightarrow> string \<Rightarrow> bytes" where
  "buffer_aux key v = opcode OpAux # length_bytes (length key) @ key @ length_bytes (length v) @ v"

definition buffer_item :: "bytes \<Rightarrow> bytes" where
  "buffer_item b = length_bytes (length b) @ b"

definition buffer_type :: "val \<Rightarrow> char" where
  "buffer_type v = opcode (case v of VString _ \<Rightarrow> OpString | VList _ \<Rightarrow> OpList | VSet _ \<Rightarrow> OpSet | VHash _ \<Rightarrow> OpHash
     | VSortedSet _ \<Rightarrow> OpZSet | VStream _ \<Rightarrow> OpList)"

definition buffer_value :: "val \<Rightarrow> bytes result" where
  "buffer_value v =
     (case v of
        VString b \<Rightarrow> Ok (buffer_item b)
      | VList l \<Rightarrow> Ok (length_bytes (length l) @ concat (map buffer_item l))
      | VSet s \<Rightarrow> Ok (length_bytes (length s) @ concat (map buffer_item s))
      | VHash h \<Rightarrow> Ok (length_bytes (length h) @ concat (map (\<lambda>(f, x). buffer_item f @ buffer_item x) h))
      | VSortedSet z \<Rightarrow>
          (case range_by_rank 0 (pred_usize (sl_len z)) z of
             Some items \<Rightarrow>
               Ok (length_bytes (length items) @ concat (map (\<lambda>(member, score). buffer_item member @ u64_to_le_bytes score) items))
           | None \<Rightarrow> Panic)
      | VStream st \<Rightarrow>
          let es = stream_range min_id max_id None False st
          in Ok (length_bytes (total_items es) @ buffer_item stream_marker @
               concat (map (\<lambda>e. buffer_item (id_to_string (entry_id e)) @ buffer_item (nat_to_string (length (entry_fields e))) @
                 concat (map (\<lambda>(f, x). buffer_item f @ buffer_item x) (entry_fields e))) es)))"

definition buffer_deadline :: "nat \<Rightarrow> nat option \<Rightarrow> bytes result" where
  "buffer_deadline wall_ns d =
     (case d of
        Some d \<Rightarrow>
          (case instant_add wall_ns d of
             Some t \<Rightarrow> Ok (opcode OpExpireTimeMs # u64_to_le_bytes (word_of_nat (t div 1000000)))
           | None \<Rightarrow> Panic)
      | None \<Rightarrow> Ok [])"

definition buffer_key :: "save_clock \<Rightarrow> (nat \<Rightarrow> bytes \<Rightarrow> nat) \<Rightarrow> nat \<Rightarrow> bytes \<Rightarrow> (storage_engine \<times> bytes, unit) step" where
  "buffer_key clk wall_ns db key s =
     and_then (on_storage (on_shard db key (engine_get key (get_at clk db key))) s) (\<lambda>s g.
       case g of
         Found v \<Rightarrow>
           and_then (on_storage (on_shard db key (ttl key (ttl_at clk db key))) s) (\<lambda>s d.
             and_then (s, buffer_deadline (wall_ns db key) d) (\<lambda>s deadline_bytes.
               and_then (s, buffer_value v) (\<lambda>s value_bytes.
                 ((fst s, snd s @ deadline_bytes @ [buffer_type v] @ buffer_item key @ value_bytes), Ok ()))))
       | _ \<Rightarrow> (s, Ok ()))"

definition buffer_db :: "save_clock \<Rightarrow> (nat \<Rightarrow> bytes \<Rightarrow> nat) \<Rightarrow> nat \<Rightarrow> (storage_engine \<times> bytes, unit) step" where
  "buffer_db clk wall_ns db s =
     and_then (s, get_all_keys (fst s) db) (\<lambda>s ks.
       if ks = [] then (s, Ok ())
       else
         let header = opcode OpSelectDb # length_bytes db @ opcode OpResizeDb # length_bytes (length ks) @ length_bytes 0
         in steps (map (buffer_key clk wall_ns db) ks) (fst s, snd s @ header))"

definition generate_rdb_bytes :: "save_clock \<Rightarrow> (nat \<Rightarrow> bytes \<Rightarrow> nat) \<Rightarrow> storage_engine \<Rightarrow> storage_engine \<times> bytes result" where
  "generate_rdb_bytes clk wall_ns e =
     (let start = RDB_MAGIC @ version_text @ buffer_aux ''redis-ver'' CARGO_PKG_VERSION @ buffer_aux ''redis-bits'' ''64'' @
            buffer_aux ''ctime'' (u64_to_string (started_secs clk)) @ buffer_aux ''used-mem'' (u64_to_string (used_memory (memory e)));
          (s, r) = steps (map (buffer_db clk wall_ns) [0..<length (databases e)]) (e, start)
      in (fst s, bind_result r (\<lambda>_. Ok (snd s @ opcode OpEof # u64_to_le_bytes 0))))"

section \<open>Loading\<close>

record load_env =
  now_at :: "nat \<Rightarrow> nat"
  now2_at :: "nat \<Rightarrow> nat"
  load_wall_ms :: "nat \<Rightarrow> u64"
  level_at :: "nat \<Rightarrow> nat"

type_synonym loader = "storage_engine rdb_reader"

definition storing :: "(storage_engine, 'a) step \<Rightarrow> (loader, 'a) step" where
  "storing f s = (let (e, r) = f (target s) in (s\<lparr>target := e\<rparr>, r))"

definition load_expire :: "load_env \<Rightarrow> nat \<Rightarrow> bytes \<Rightarrow> nat option \<Rightarrow> (loader, unit) step" where
  "load_expire env db key d s =
     (case d of
        Some d \<Rightarrow>
          and_then (storing (on_shard db key (expire key d (now_at env (position s)) (now2_at env (position s)))) s)
            (\<lambda>s _. (s, Ok ()))
      | None \<Rightarrow> (s, Ok ()))"

primrec load_zset :: "load_env \<Rightarrow> nat \<Rightarrow> bytes \<Rightarrow> nat \<Rightarrow> (loader, unit) step" where
  "load_zset env db key 0 s = (s, Ok ())"
| "load_zset env db key (Suc n) s =
     and_then (read_string s) (\<lambda>s member. and_then (read_f64 s) (\<lambda>s score.
       and_then (storing (on_shard db key (zadd (level_at env (position s)) key member score (now_at env (position s)))) s)
         (\<lambda>s _. load_zset env db key n s)))"

definition load_rpush :: "load_env \<Rightarrow> nat \<Rightarrow> bytes \<Rightarrow> bytes \<Rightarrow> (loader, unit) step" where
  "load_rpush env db key element s =
     and_then (storing (on_shard db key (rpush key [element] (now_at env (position s)))) s) (\<lambda>s _. (s, Ok ()))"

primrec load_list :: "load_env \<Rightarrow> nat \<Rightarrow> bytes \<Rightarrow> nat \<Rightarrow> (loader, unit) step" where
  "load_list env db key 0 s = (s, Ok ())"
| "load_list env db key (Suc n) s =
     and_then (read_string s) (\<lambda>s element. and_then (load_rpush env db key element s) (\<lambda>s _. load_list env db key n s))"

primrec read_strings :: "nat \<Rightarrow> (loader, bytes list) step" where
  "read_strings 0 s = (s, Ok [])"
| "read_strings (Suc n) s =
     and_then (read_string s) (\<lambda>s x. and_then (read_strings n s) (\<lambda>s xs. (s, Ok (x # xs))))"

primrec read_pairs :: "nat \<Rightarrow> (loader, (bytes \<times> bytes) list) step" where
  "read_pairs 0 s = (s, Ok [])"
| "read_pairs (Suc n) s =
     and_then (read_string s) (\<lambda>s f. and_then (read_string s) (\<lambda>s v.
       and_then (read_pairs n s) (\<lambda>s fvs. (s, Ok ((f, v) # fvs)))))"

definition hash_map_of :: "(bytes \<times> bytes) list \<Rightarrow> (bytes \<times> bytes) list" where
  "hash_map_of fvs = fst (insert_fields fvs [] 0)"

definition load_entry :: "load_env \<Rightarrow> nat \<Rightarrow> bytes \<Rightarrow> bytes \<Rightarrow> (bytes \<times> bytes) list \<Rightarrow> loader \<Rightarrow> loader" where
  "load_entry env db key id_str fvs s =
     (case from_string (if utf8_valid id_str then id_str else []) of
        Some i \<Rightarrow> fst (storing (on_shard db key (xadd_with_id key i (hash_map_of fvs) (now_at env (position s)))) s)
      | None \<Rightarrow> s)"

definition field_count :: "bytes \<Rightarrow> nat" where
  "field_count b = (if utf8_valid b then (case parse_usize b of Some n \<Rightarrow> n | None \<Rightarrow> 0) else 0)"

text \<open>\<open>entry_idx + (field_count * 2)\<close> is computed on \<^verbatim>\<open>usize\<close> and wraps.\<close>

function load_stream :: "load_env \<Rightarrow> nat \<Rightarrow> bytes \<Rightarrow> nat \<Rightarrow> nat \<Rightarrow> (loader, unit) step" where
  "load_stream env db key remaining idx s =
     (if idx < remaining then
        if idx + 2 \<ge> remaining then (s, Ok ())
        else
          and_then (read_string s) (\<lambda>s id_str. and_then (read_string s) (\<lambda>s count_str.
            let n = field_count count_str
            in if (idx + 2 + n * 2) mod 18446744073709551616 > remaining then (s, Ok ())
               else and_then (read_pairs n s) (\<lambda>s fvs.
                 load_stream env db key remaining (idx + 2 + n * 2) (load_entry env db key id_str fvs s))))
      else (s, Ok ()))"
  by auto
termination by (relation "measure (\<lambda>(env, db, key, remaining, idx, s). remaining - idx)") auto

declare load_stream.simps [simp del]

definition read_key_value_with_type :: "load_env \<Rightarrow> nat \<Rightarrow> char \<Rightarrow> nat option \<Rightarrow> (loader, unit) step" where
  "read_key_value_with_type env db type_byte d s =
     (if type_byte = opcode OpString then
        and_then (read_string s) (\<lambda>s key. and_then (read_string s) (\<lambda>s b.
          storing (on_shard db key
            (case d of Some d \<Rightarrow> set_string_ex key b d (now_at env (position s))
             | None \<Rightarrow> set_string key b (now_at env (position s)))) s))
      else if type_byte = opcode OpZSet \<or> type_byte = opcode OpZSet2 then
        and_then (read_string s) (\<lambda>s key. and_then (read_length s) (\<lambda>s count.
          and_then (load_zset env db key count s) (\<lambda>s _. load_expire env db key d s)))
      else if type_byte = opcode OpList then
        and_then (read_string s) (\<lambda>s key. and_then (read_length s) (\<lambda>s count.
          if count \<ge> 1 then
            and_then (read_string s) (\<lambda>s first_element.
              if first_element = stream_marker then
                and_then (load_stream env db key (count - 1) 0 s) (\<lambda>s _. load_expire env db key d s)
              else
                and_then (load_rpush env db key first_element s) (\<lambda>s _.
                  and_then (load_list env db key (count - 1) s) (\<lambda>s _. load_expire env db key d s)))
          else load_expire env db key d s))
      else if type_byte = opcode OpSet then
        and_then (read_string s) (\<lambda>s key. and_then (read_length s) (\<lambda>s count.
          and_then (read_strings count s) (\<lambda>s members.
            and_then (storing (on_shard db key (sadd key members (now_at env (position s)))) s) (\<lambda>s _.
              load_expire env db key d s))))
      else if type_byte = opcode OpHash then
        and_then (read_string s) (\<lambda>s key. and_then (read_length s) (\<lambda>s count.
          and_then (read_pairs count s) (\<lambda>s fvs.
            and_then (storing (on_shard db key (hset key fvs (now_at env (position s)))) s) (\<lambda>s _.
              load_expire env db key d s))))
      else (s, Err (Io (''Unknown value type: '' @ nat_to_string (of_char type_byte)))))"

definition read_key_value_with_expiry :: "load_env \<Rightarrow> nat \<Rightarrow> u64 \<Rightarrow> (loader, unit) step" where
  "read_key_value_with_expiry env db expiry s =
     and_then (read_byte s) (\<lambda>s type_byte.
       let now_ms = load_wall_ms env (position s);
           d = (if expiry > now_ms then Some (unat (expiry - now_ms) * 1000000) else None)
       in read_key_value_with_type env db type_byte d s)"

definition read_header :: "(loader, unit) step" where
  "read_header s =
     and_then (read_exact 5 s) (\<lambda>s magic.
       if magic \<noteq> RDB_MAGIC then (s, Err (Io ''Invalid RDB file format''))
       else and_then (read_exact 4 s) (\<lambda>s version.
         case parse_usize version of
           Some n \<Rightarrow> if n \<le> 65535 then (s, Ok ()) else (s, Err (Io ''Invalid RDB version''))
         | None \<Rightarrow> (s, Err (Io ''Invalid RDB version''))))"

text \<open>Every value taken from the file is a step forward, so the loop of \<^verbatim>\<open>load_into\<close> ends.\<close>

lemma incremental_storing: "incremental (\<lambda>s. storing (f (position s)) s)"
  by (auto simp: incremental_def storing_def longer_def split: prod.splits)

lemma incremental_rpush: "incremental (load_rpush env db key x)"
  unfolding load_rpush_def by (intro incremental_then incremental_storing incremental_reads)

lemma incremental_expire: "incremental (load_expire env db key d)"
  unfolding load_expire_def by (cases d) (auto intro!: incremental_then incremental_storing incremental_reads)

lemma incremental_zset: "incremental (load_zset env db key n)"
  by (induction n) (auto intro!: incremental_then incremental_storing incremental_reads)

lemma incremental_list: "incremental (load_list env db key n)"
  by (induction n) (auto intro!: incremental_then incremental_rpush incremental_reads)

lemma incremental_strings: "incremental (read_strings n)"
  by (induction n) (auto intro!: incremental_then incremental_reads)

lemma incremental_pairs: "incremental (read_pairs n)"
  by (induction n) (auto intro!: incremental_then incremental_reads)

lemma load_entry_simps [simp]:
  "load_entry env db key i fvs (longer bs s) = longer bs (load_entry env db key i fvs s)"
  "unread (load_entry env db key i fvs s) = unread s" "position (load_entry env db key i fvs s) = position s"
  by (auto simp: load_entry_def storing_def longer_def split: option.split prod.splits)

lemma incremental_entry:
  assumes "incremental f"
  shows "incremental (\<lambda>s. f (load_entry env db key i fvs s))"
  unfolding incremental_def
proof (intro allI impI)
  fix s s' x assume f: "f (load_entry env db key i fvs s) = (s', Ok x)"
  show "length (unread s') \<le> length (unread s) \<and> (\<forall>bs. f (load_entry env db key i fvs (longer bs s)) = (longer bs s', Ok x))"
    using incrementalD(1) [OF assms f] incrementalD(2) [OF assms f] by simp
qed

lemma incremental_stream: "incremental (load_stream env db key remaining idx)"
proof (induction "remaining - idx" arbitrary: idx rule: less_induct)
  case less
  have "incremental (\<lambda>s. load_stream env db key remaining idx s)"
  proof (cases "idx < remaining")
    case True
    then have "incremental (load_stream env db key remaining (idx + 2 + n * 2))" for n
      by (intro less) simp
    then show ?thesis
      unfolding load_stream.simps [of env db key remaining idx] Let_def if_P [OF True]
      by (intro incremental_then incremental_reads incremental_pairs incremental_entry)
  next
    case False
    then show ?thesis by (simp add: load_stream.simps incremental_reads)
  qed
  then show ?case by simp
qed

lemmas incremental_loads = incremental_reads incremental_storing incremental_rpush incremental_expire incremental_zset
  incremental_list incremental_strings incremental_pairs incremental_stream

lemma incremental_value: "incremental (read_key_value_with_type env db ty d)"
  unfolding read_key_value_with_type_def by (intro incremental_then incremental_loads)

lemma incremental_expiring_value: "incremental (read_key_value_with_expiry env db t)"
  unfolding read_key_value_with_expiry_def
  by (rule incremental_then [OF incremental_byte])
     (use incremental_value in \<open>auto simp: incremental_def Let_def\<close>)

function load_loop :: "load_env \<Rightarrow> nat \<Rightarrow> (loader, unit) step" where
  "load_loop env current_db s =
     and_then (read_byte s) (\<lambda>s op.
       if op = opcode OpEof then and_then (read_u64_le s) (\<lambda>s _. (s, Ok ()))
       else if op = opcode OpSelectDb then and_then (read_length s) (\<lambda>s db. load_loop env db s)
       else if op = opcode OpResizeDb then
         and_then (read_length s) (\<lambda>s _. and_then (read_length s) (\<lambda>s _. load_loop env current_db s))
       else if op = opcode OpAux then
         and_then (read_string s) (\<lambda>s _. and_then (read_string s) (\<lambda>s _. load_loop env current_db s))
       else if op = opcode OpExpireTimeMs then
         and_then (read_u64_le s) (\<lambda>s t. and_then (read_key_value_with_expiry env current_db t s) (\<lambda>s _.
           load_loop env current_db s))
       else if op = opcode OpExpireTimeS then
         and_then (read_u32_le s) (\<lambda>s t. and_then (read_key_value_with_expiry env current_db (word_of_nat t * 1000) s) (\<lambda>s _.
           load_loop env current_db s))
       else and_then (read_key_value_with_type env current_db op None s) (\<lambda>s _. load_loop env current_db s))"
  by auto
termination
  by (relation "measure (\<lambda>(env, db, s). length (unread s))")
     (auto dest!: read_byte_shorter incrementalD(1) [OF incremental_length] incrementalD(1) [OF incremental_string]
       incrementalD(1) [OF incremental_fixed(3)] incrementalD(1) [OF incremental_fixed(2)]
       incrementalD(1) [OF incremental_value] incrementalD(1) [OF incremental_expiring_value])

declare load_loop.simps [simp del]

definition load_into :: "load_env \<Rightarrow> (loader, unit) step" where
  "load_into env s = and_then (read_header s) (\<lambda>s _. load_loop env 0 s)"

section \<open>The snapshot engine and its file\<close>

record rdb_config =
  auto_save :: bool
  save_rules :: "(u64 \<times> u64) list"
  compress_strings :: bool
  filename :: string
  dir :: string

definition default_rdb_config :: rdb_config where
  "default_rdb_config = \<lparr>auto_save = True, save_rules = [(900, 1), (300, 10), (60, 10000)], compress_strings = False,
     filename = ''dump.rdb'', dir = ''./''\<rparr>"

record rdb_engine =
  file_path :: string
  bgsave_in_progress :: bool
  last_save_time :: "nat option"
  config :: rdb_config

definition new_rdb_engine :: "rdb_config \<Rightarrow> rdb_engine" where
  "new_rdb_engine c = \<lparr>file_path = path_push (dir c) (filename c), bgsave_in_progress = False, last_save_time = None, config = c\<rparr>"

text \<open>
  How the file system answers during a save: the errors of opening the temporary file and of the
  rename, and the number of bytes the temporary file takes.
\<close>

record disk_answers =
  open_error :: "string option"
  file_capacity :: "nat option"
  write_error :: string
  rename_error :: "string option"

definition save :: "rdb_engine \<Rightarrow> save_clock \<Rightarrow> disk_answers \<Rightarrow> nat \<Rightarrow> storage_engine \<times> disk \<Rightarrow>
    (storage_engine \<times> disk) \<times> rdb_engine \<times> unit result" where
  "save r clk ans wall s =
     (let temp_path = with_extension (file_path r) ''tmp''
      in case open_error ans of
           Some msg \<Rightarrow> (s, r, Err (Io (''Failed to create RDB file: '' @ msg)))
         | None \<Rightarrow>
             let ((e, w), res) = write_snapshot clk (fst s, new_writer (file_capacity ans) (write_error ans));
                 d = (snd s)(temp_path \<mapsto> written w)
             in (case res of
                   Ok _ \<Rightarrow>
                     (case rename_error ans of
                        Some msg \<Rightarrow> ((e, d), r, Err (Io (''Failed to rename RDB file: '' @ msg)))
                      | None \<Rightarrow>
                          ((e, d(temp_path := None, file_path r \<mapsto> written w)), r\<lparr>last_save_time := Some wall\<rparr>, Ok ()))
                 | Err x \<Rightarrow> ((e, d), r, Err x)
                 | Panic \<Rightarrow> ((e, d), r, Panic)))"

text \<open>A background save: the call that claims the flag, and the thread that saves and releases it.\<close>

definition bgsave :: "rdb_engine \<Rightarrow> rdb_engine \<times> unit result" where
  "bgsave r =
     (if bgsave_in_progress r then (r, Err (Internal ''Background save already in progress''))
      else (r\<lparr>bgsave_in_progress := True\<rparr>, Ok ()))"

definition bgsave_thread :: "rdb_engine \<Rightarrow> save_clock \<Rightarrow> disk_answers \<Rightarrow> nat \<Rightarrow> storage_engine \<times> disk \<Rightarrow>
    (storage_engine \<times> disk) \<times> rdb_engine" where
  "bgsave_thread r clk ans wall s =
     (let (s, r, res) = save r clk ans wall s
      in (s, if res = Panic then r else r\<lparr>bgsave_in_progress := False\<rparr>))"

definition load :: "rdb_engine \<Rightarrow> load_env \<Rightarrow> disk \<Rightarrow> storage_engine \<Rightarrow> storage_engine \<times> unit result" where
  "load r env d e =
     (case d (file_path r) of
        None \<Rightarrow> (e, Ok ())
      | Some bs \<Rightarrow> (let (s, res) = load_into env \<lparr>unread = bs, position = 0, target = e\<rparr> in (target s, res)))"

end
