(* ===== verification/Autosave.thy ===== *)
theory Autosave
  imports Rdb
begin

text \<open>
  The monitor that saves snapshots by itself (\<^verbatim>\<open>src/storage/monitor.rs\<close>): a counter of changes, the instant of
  the last save, and the check of the save rules that its thread makes every second.  Instants are
  nanoseconds; the thread of the background save is \<open>bgsave_thread\<close>.
\<close>

record storage_monitor =
  changes_since_save :: u64
  last_check_time :: nat
  monitor_running :: bool

definition new_monitor :: "nat \<Rightarrow> storage_monitor" where
  "new_monitor now = \<lparr>changes_since_save = 0, last_check_time = now, monitor_running = False\<rparr>"

definition start_monitor :: "rdb_config \<Rightarrow> storage_monitor \<Rightarrow> storage_monitor" where
  "start_monitor c m = (if auto_save c then m\<lparr>monitor_running := True\<rparr> else m)"

definition monitor_record_change :: "storage_monitor \<Rightarrow> storage_monitor" where
  "monitor_record_change m = m\<lparr>changes_since_save := changes_since_save m + 1\<rparr>"

definition reset_changes :: "storage_monitor \<Rightarrow> storage_monitor" where
  "reset_changes m = m\<lparr>changes_since_save := 0\<rparr>"

definition due :: "nat \<Rightarrow> u64 \<Rightarrow> storage_monitor \<Rightarrow> u64 \<times> u64 \<Rightarrow> bool" where
  "due now changes m rule \<longleftrightarrow> (case rule of (seconds, min_changes) \<Rightarrow>
     changes \<ge> min_changes \<and> now - last_check_time m \<ge> unat seconds * 10 ^ 9)"

text \<open>One pass over the rules: the first rule that is due starts a background save, and the loop is left.\<close>

fun check_rules :: "nat \<Rightarrow> u64 \<Rightarrow> (u64 \<times> u64) list \<Rightarrow> storage_monitor \<times> rdb_engine \<Rightarrow> storage_monitor \<times> rdb_engine" where
  "check_rules now changes [] s = s"
| "check_rules now changes (rule # rules) (m, r) =
     (if due now changes m rule then
        (case bgsave r of
           (r', Ok _) \<Rightarrow> ((reset_changes m)\<lparr>last_check_time := now\<rparr>, r')
         | (r', _) \<Rightarrow> (m, r'))
      else check_rules now changes rules (m, r))"

definition monitor_pass :: "nat \<Rightarrow> rdb_config \<Rightarrow> storage_monitor \<times> rdb_engine \<Rightarrow> storage_monitor \<times> rdb_engine" where
  "monitor_pass now c s = check_rules now (changes_since_save (fst s)) (save_rules c) s"

lemma check_rules_exact:
  "check_rules now changes rules (m, r) =
     (if \<not> bgsave_in_progress r \<and> list_ex (due now changes m) rules
      then (m\<lparr>changes_since_save := 0, last_check_time := now\<rparr>, r\<lparr>bgsave_in_progress := True\<rparr>) else (m, r))"
  by (induction rules) (simp_all add: bgsave_def reset_changes_def)

text \<open>
  A pass of the monitor starts a background save exactly when none is running and some save rule holds:
  as many changes as it asks for since the last save, and as many seconds.  It then resets the counter and
  the time; otherwise it changes nothing.
\<close>

theorem autosave_exact:
  "monitor_pass now c (m, r) =
     (if \<not> bgsave_in_progress r \<and>
         (\<exists>(seconds, min_changes) \<in> set (save_rules c).
            changes_since_save m \<ge> min_changes \<and> now - last_check_time m \<ge> unat seconds * 10 ^ 9)
      then (m\<lparr>changes_since_save := 0, last_check_time := now\<rparr>, r\<lparr>bgsave_in_progress := True\<rparr>) else (m, r))"
  by (simp add: monitor_pass_def check_rules_exact due_def list_ex_iff case_prod_unfold)

end
