(* ===== verification/Resp.thy ===== *)
theory Resp
  imports Text
begin

text \<open>
  The RESP wire protocol: frames (\<^verbatim>\<open>src/protocol/resp.rs\<close>), the serializer
  (\<^verbatim>\<open>src/protocol/serializer.rs\<close>) and the incremental parser (\<^verbatim>\<open>src/protocol/parser.rs\<close>), with the
  loop of \<^verbatim>\<open>src/network/server.rs\<close> that drains a connection's parser.
  The text form of \<^verbatim>\<open>f64\<close> is a pair of parameters \<open>f64_to_string\<close> and \<open>f64_from_str\<close>.
\<close>

section \<open>Frames\<close>

datatype resp_frame =
    SimpleString bytes
  | Error bytes
  | Integer i64
  | BulkString "bytes option"
  | Array "resp_frame list option"
  | NoResponse
  | Null
  | Boolean bool
  | Double f64
  | MapFrame "(resp_frame \<times> resp_frame) list"
  | SetFrame "resp_frame list"

definition resp_ok :: resp_frame where
  "resp_ok = SimpleString ''OK''"

definition is_error :: "resp_frame \<Rightarrow> bool" where
  "is_error f = (case f of Error _ \<Rightarrow> True | _ \<Rightarrow> False)"

definition is_null :: "resp_frame \<Rightarrow> bool" where
  "is_null f = (case f of Null \<Rightarrow> True | BulkString None \<Rightarrow> True | Array None \<Rightarrow> True | _ \<Rightarrow> False)"

definition null_bulk :: resp_frame where
  "null_bulk = BulkString None"

definition null_array :: resp_frame where
  "null_array = Array None"

definition from_bytes :: "bytes \<Rightarrow> resp_frame" where
  "from_bytes b = BulkString (Some b)"

section \<open>Serializer\<close>

text \<open>
  The writer is the byte vector written so far; on an error the bytes already written stay in it.
\<close>

function (sequential)
  serialize_resp_frame :: "(f64 \<Rightarrow> string) \<Rightarrow> resp_frame \<Rightarrow> bytes \<Rightarrow> bytes \<times> unit result"
and
  serialize_frames :: "(f64 \<Rightarrow> string) \<Rightarrow> resp_frame list \<Rightarrow> bytes \<Rightarrow> bytes \<times> unit result"
and
  serialize_pairs :: "(f64 \<Rightarrow> string) \<Rightarrow> (resp_frame \<times> resp_frame) list \<Rightarrow> bytes \<Rightarrow> bytes \<times> unit result"
where
  "serialize_resp_frame fp (SimpleString b) w = (w @ ''+'' @ b @ [CR, LF], Ok ())"
| "serialize_resp_frame fp (Error b) w = (w @ ''-'' @ b @ [CR, LF], Ok ())"
| "serialize_resp_frame fp (Integer n) w = (w @ '':'' @ i64_to_string n @ [CR, LF], Ok ())"
| "serialize_resp_frame fp (BulkString (Some b)) w =
     (w @ ''$'' @ nat_to_string (length b) @ [CR, LF] @ b @ [CR, LF], Ok ())"
| "serialize_resp_frame fp (BulkString None) w = (w @ ''$-1'' @ [CR, LF], Ok ())"
| "serialize_resp_frame fp (Array (Some fs)) w =
     serialize_frames fp fs (w @ ''*'' @ nat_to_string (length fs) @ [CR, LF])"
| "serialize_resp_frame fp (Array None) w = (w @ ''*-1'' @ [CR, LF], Ok ())"
| "serialize_resp_frame fp NoResponse w =
     (w, Err (Protocol ''Cannot serialize NoResponse frame - this is an internal marker''))"
| "serialize_resp_frame fp Null w = (w @ ''_'' @ [CR, LF], Ok ())"
| "serialize_resp_frame fp (Boolean b) w = (w @ (if b then ''#t'' else ''#f'') @ [CR, LF], Ok ())"
| "serialize_resp_frame fp (Double x) w = (w @ '','' @ fp x @ [CR, LF], Ok ())"
| "serialize_resp_frame fp (MapFrame ps) w =
     serialize_pairs fp ps (w @ ''%'' @ nat_to_string (length ps) @ [CR, LF])"
| "serialize_resp_frame fp (SetFrame fs) w =
     serialize_frames fp fs (w @ ''~'' @ nat_to_string (length fs) @ [CR, LF])"
| "serialize_frames fp [] w = (w, Ok ())"
| "serialize_frames fp (f # fs) w =
     (case serialize_resp_frame fp f w of
        (w', Ok _) \<Rightarrow> serialize_frames fp fs w'
      | (w', Err e) \<Rightarrow> (w', Err e)
      | (w', Panic) \<Rightarrow> (w', Panic))"
| "serialize_pairs fp [] w = (w, Ok ())"
| "serialize_pairs fp ((k, v) # ps) w =
     (case serialize_resp_frame fp k w of
        (w', Ok _) \<Rightarrow>
          (case serialize_resp_frame fp v w' of
             (w'', Ok _) \<Rightarrow> serialize_pairs fp ps w''
           | (w'', Err e) \<Rightarrow> (w'', Err e)
           | (w'', Panic) \<Rightarrow> (w'', Panic))
      | (w', Err e) \<Rightarrow> (w', Err e)
      | (w', Panic) \<Rightarrow> (w', Panic))"
  by pat_completeness auto
termination
  by (relation "measure (\<lambda>x. case x of
        Inl (fp, f, w) \<Rightarrow> size f
      | Inr (Inl (fp, fs, w)) \<Rightarrow> size_list size fs
      | Inr (Inr (fp, ps, w)) \<Rightarrow> size_list (size_prod size size) ps)") auto

definition serialize_to_vec :: "(f64 \<Rightarrow> string) \<Rightarrow> resp_frame \<Rightarrow> bytes result" where
  "serialize_to_vec fp f =
     (case serialize_resp_frame fp f [] of (buf, Ok _) \<Rightarrow> Ok buf | (_, Err e) \<Rightarrow> Err e | (_, Panic) \<Rightarrow> Panic)"

section \<open>Parser\<close>

fun find_crlf :: "bytes \<Rightarrow> nat option" where
  "find_crlf (a # b # r) =
     (if a = CR \<and> b = LF then Some 0 else map_option Suc (find_crlf (b # r)))"
| "find_crlf _ = None"

definition parse_line :: "bytes \<Rightarrow> nat \<Rightarrow> (bytes \<times> nat) option result" where
  "parse_line data skip_prefix =
     (if length data < skip_prefix + 2 then Ok None
      else case find_crlf (drop skip_prefix data) of
             Some k \<Rightarrow> Ok (Some (take k (drop skip_prefix data), skip_prefix + k + 2))
           | None \<Rightarrow> Ok None)"

text \<open>
  A header line read as UTF-8 and then as a number: the shared shape of \<^verbatim>\<open>parse_integer\<close>,
  \<^verbatim>\<open>parse_double\<close> and of the length lines, with the two error texts as arguments.
\<close>

definition parse_number_line ::
  "string \<Rightarrow> string \<Rightarrow> (string \<Rightarrow> 'n option) \<Rightarrow> bytes \<Rightarrow> ('n \<times> nat) option result" where
  "parse_number_line utf8_msg num_msg parse_num data =
     (case parse_line data 1 of
        Ok (Some (line, consumed)) \<Rightarrow>
          if \<not> utf8_valid line then Err (Protocol utf8_msg)
          else (case parse_num line of
                  None \<Rightarrow> Err (Protocol num_msg)
                | Some n \<Rightarrow> Ok (Some (n, consumed)))
      | Ok None \<Rightarrow> Ok None
      | Err e \<Rightarrow> Err e
      | Panic \<Rightarrow> Panic)"

definition parse_simple_string :: "bytes \<Rightarrow> (resp_frame \<times> nat) option result" where
  "parse_simple_string data =
     (case parse_line data 1 of
        Ok (Some (line, consumed)) \<Rightarrow> Ok (Some (SimpleString line, consumed))
      | Ok None \<Rightarrow> Ok None | Err e \<Rightarrow> Err e | Panic \<Rightarrow> Panic)"

definition parse_error :: "bytes \<Rightarrow> (resp_frame \<times> nat) option result" where
  "parse_error data =
     (case parse_line data 1 of
        Ok (Some (line, consumed)) \<Rightarrow> Ok (Some (Error line, consumed))
      | Ok None \<Rightarrow> Ok None | Err e \<Rightarrow> Err e | Panic \<Rightarrow> Panic)"

definition parse_integer :: "bytes \<Rightarrow> (resp_frame \<times> nat) option result" where
  "parse_integer data =
     (case parse_number_line ''Invalid UTF-8 in integer'' ''Invalid integer format'' parse_i64 data of
        Ok (Some (n, consumed)) \<Rightarrow> Ok (Some (Integer n, consumed))
      | Ok None \<Rightarrow> Ok None | Err e \<Rightarrow> Err e | Panic \<Rightarrow> Panic)"

definition parse_bulk_string :: "bytes \<Rightarrow> (resp_frame \<times> nat) option result" where
  "parse_bulk_string data =
     (case parse_number_line ''Invalid UTF-8 in bulk length'' ''Invalid bulk string length''
             parse_isize data of
        Ok (Some (len, header_consumed)) \<Rightarrow>
          if len = -1 then Ok (Some (BulkString None, header_consumed))
          else if len < 0 then Err (Protocol ''Invalid negative bulk string length'')
          else (let n = nat len; total_needed = header_consumed + n + 2 in
                if length data < total_needed then Ok None
                else if data ! (header_consumed + n) \<noteq> CR \<or> data ! (header_consumed + n + 1) \<noteq> LF
                then Err (Protocol ''Missing CRLF after bulk string'')
                else Ok (Some (BulkString (Some (take n (drop header_consumed data))), total_needed)))
      | Ok None \<Rightarrow> Ok None | Err e \<Rightarrow> Err e | Panic \<Rightarrow> Panic)"

definition parse_null :: "bytes \<Rightarrow> (resp_frame \<times> nat) option result" where
  "parse_null data =
     (if length data < 3 then Ok None
      else if data ! 1 = CR \<and> data ! 2 = LF then Ok (Some (Null, 3))
      else Err (Protocol ''Invalid null format''))"

definition parse_boolean :: "bytes \<Rightarrow> (resp_frame \<times> nat) option result" where
  "parse_boolean data =
     (if length data < 4 then Ok None
      else if data ! 1 = CHR ''t'' \<and> data ! 2 = CR \<and> data ! 3 = LF then Ok (Some (Boolean True, 4))
      else if data ! 1 = CHR ''f'' \<and> data ! 2 = CR \<and> data ! 3 = LF then Ok (Some (Boolean False, 4))
      else Err (Protocol ''Invalid boolean format''))"

definition parse_double :: "(string \<Rightarrow> f64 option) \<Rightarrow> bytes \<Rightarrow> (resp_frame \<times> nat) option result" where
  "parse_double fq data =
     (case parse_number_line ''Invalid UTF-8 in double'' ''Invalid double format'' fq data of
        Ok (Some (n, consumed)) \<Rightarrow> Ok (Some (Double n, consumed))
      | Ok None \<Rightarrow> Ok None | Err e \<Rightarrow> Err e | Panic \<Rightarrow> Panic)"

text \<open>
  \<^verbatim>\<open>Vec::with_capacity(len)\<close> panics when the allocation would exceed \<^verbatim>\<open>isize::MAX\<close> bytes; a frame
  takes 32 bytes (a tag word and the three words of the largest variant), a pair of frames 64.
\<close>

definition capacity_overflow :: "nat \<Rightarrow> nat \<Rightarrow> bool" where
  "capacity_overflow elem_size len \<longleftrightarrow> int (elem_size * len) > isize_max"

lemma find_crlf_bound: "find_crlf d = Some k \<Longrightarrow> k + 2 \<le> length d"
  by (induction d arbitrary: k rule: find_crlf.induct) (auto split: if_splits)

lemma parse_line_bounds:
  "parse_line d skip = Ok (Some (l, h)) \<Longrightarrow> skip + 2 \<le> h \<and> h \<le> length d"
  by (auto simp: parse_line_def split: if_splits option.splits dest: find_crlf_bound)

lemma parse_number_line_bounds:
  "parse_number_line m1 m2 p d = Ok (Some (n, h)) \<Longrightarrow> 3 \<le> h \<and> h \<le> length d"
  by (auto simp: parse_number_line_def split: result.splits option.splits prod.splits if_splits
      dest!: parse_line_bounds)

function (sequential)
  parse_frame :: "(string \<Rightarrow> f64 option) \<Rightarrow> bytes \<Rightarrow> (resp_frame \<times> nat) option result"
and
  parse_array :: "(string \<Rightarrow> f64 option) \<Rightarrow> bytes \<Rightarrow> (resp_frame \<times> nat) option result"
and
  parse_map :: "(string \<Rightarrow> f64 option) \<Rightarrow> bytes \<Rightarrow> (resp_frame \<times> nat) option result"
and
  parse_set :: "(string \<Rightarrow> f64 option) \<Rightarrow> bytes \<Rightarrow> (resp_frame \<times> nat) option result"
and
  parse_elements :: "(string \<Rightarrow> f64 option) \<Rightarrow> nat \<Rightarrow> bytes \<Rightarrow> nat \<Rightarrow> resp_frame list
     \<Rightarrow> (resp_frame list \<times> nat) option result"
and
  parse_pairs :: "(string \<Rightarrow> f64 option) \<Rightarrow> nat \<Rightarrow> bytes \<Rightarrow> nat \<Rightarrow> (resp_frame \<times> resp_frame) list
     \<Rightarrow> ((resp_frame \<times> resp_frame) list \<times> nat) option result"
where
  "parse_frame fq data =
     (case data of
        [] \<Rightarrow> Ok None
      | b # _ \<Rightarrow>
          if b = CHR ''+'' then parse_simple_string data
          else if b = CHR ''-'' then parse_error data
          else if b = CHR '':'' then parse_integer data
          else if b = CHR ''$'' then parse_bulk_string data
          else if b = CHR ''*'' then parse_array fq data
          else if b = CHR ''_'' then parse_null data
          else if b = CHR ''#'' then parse_boolean data
          else if b = CHR '','' then parse_double fq data
          else if b = CHR ''%'' then parse_map fq data
          else if b = CHR ''~'' then parse_set fq data
          else Err (Protocol (''Invalid RESP type byte: '' @ latin1_utf8 b)))"
| "parse_array fq data =
     (case parse_number_line ''Invalid UTF-8 in array length'' ''Invalid array length''
             parse_isize data of
        Ok (Some (len, header_consumed)) \<Rightarrow>
          if len = -1 then Ok (Some (Array None, header_consumed))
          else if len < 0 then Err (Protocol ''Invalid negative array length'')
          else if capacity_overflow 32 (nat len) then Panic
          else (case parse_elements fq (nat len) data header_consumed [] of
                  Ok (Some (elements, total_consumed)) \<Rightarrow>
                    Ok (Some (Array (Some elements), total_consumed))
                | Ok None \<Rightarrow> Ok None | Err e \<Rightarrow> Err e | Panic \<Rightarrow> Panic)
      | Ok None \<Rightarrow> Ok None | Err e \<Rightarrow> Err e | Panic \<Rightarrow> Panic)"
| "parse_map fq data =
     (case parse_number_line ''Invalid UTF-8 in map length'' ''Invalid map length''
             parse_usize data of
        Ok (Some (len, header_consumed)) \<Rightarrow>
          if capacity_overflow 64 len then Panic
          else (case parse_pairs fq len data header_consumed [] of
                  Ok (Some (pairs, total_consumed)) \<Rightarrow> Ok (Some (MapFrame pairs, total_consumed))
                | Ok None \<Rightarrow> Ok None | Err e \<Rightarrow> Err e | Panic \<Rightarrow> Panic)
      | Ok None \<Rightarrow> Ok None | Err e \<Rightarrow> Err e | Panic \<Rightarrow> Panic)"
| "parse_set fq data =
     (case parse_number_line ''Invalid UTF-8 in set length'' ''Invalid set length''
             parse_usize data of
        Ok (Some (len, header_consumed)) \<Rightarrow>
          if capacity_overflow 32 len then Panic
          else (case parse_elements fq len data header_consumed [] of
                  Ok (Some (elements, total_consumed)) \<Rightarrow>
                    Ok (Some (SetFrame elements, total_consumed))
                | Ok None \<Rightarrow> Ok None | Err e \<Rightarrow> Err e | Panic \<Rightarrow> Panic)
      | Ok None \<Rightarrow> Ok None | Err e \<Rightarrow> Err e | Panic \<Rightarrow> Panic)"
| "parse_elements fq 0 data total_consumed elements = Ok (Some (elements, total_consumed))"
| "parse_elements fq (Suc n) data total_consumed elements =
     (if length data < total_consumed then Panic
      else case parse_frame fq (drop total_consumed data) of
             Ok (Some (frame, consumed)) \<Rightarrow>
               parse_elements fq n data (total_consumed + consumed) (elements @ [frame])
           | Ok None \<Rightarrow> Ok None | Err e \<Rightarrow> Err e | Panic \<Rightarrow> Panic)"
| "parse_pairs fq 0 data total_consumed pairs = Ok (Some (pairs, total_consumed))"
| "parse_pairs fq (Suc n) data total_consumed pairs =
     (if length data < total_consumed then Panic
      else case parse_frame fq (drop total_consumed data) of
             Ok (Some (key, consumed)) \<Rightarrow>
               (if length data < total_consumed + consumed then Panic
                else case parse_frame fq (drop (total_consumed + consumed) data) of
                       Ok (Some (val, consumed')) \<Rightarrow>
                         parse_pairs fq n data (total_consumed + consumed + consumed')
                           (pairs @ [(key, val)])
                     | Ok None \<Rightarrow> Ok None | Err e \<Rightarrow> Err e | Panic \<Rightarrow> Panic)
           | Ok None \<Rightarrow> Ok None | Err e \<Rightarrow> Err e | Panic \<Rightarrow> Panic)"
  by pat_completeness auto
termination
proof (relation "measures
    [\<lambda>x. case x of
        Inl (Inl (_, d)) \<Rightarrow> length d
      | Inl (Inr (Inl (_, d))) \<Rightarrow> length d
      | Inl (Inr (Inr (_, d))) \<Rightarrow> length d
      | Inr (Inl (_, d)) \<Rightarrow> length d
      | Inr (Inr (Inl (_, n, d, t, _))) \<Rightarrow> length (drop t d)
      | Inr (Inr (Inr (_, n, d, t, _))) \<Rightarrow> length (drop t d),
     \<lambda>x. case x of
        Inl (Inl _) \<Rightarrow> 1
      | Inl (Inr _) \<Rightarrow> 0
      | Inr (Inl _) \<Rightarrow> 0
      | Inr (Inr (Inl (_, n, d, t, _))) \<Rightarrow> n + 2
      | Inr (Inr (Inr (_, n, d, t, _))) \<Rightarrow> n + 2]", goal_cases)
qed (auto dest: parse_number_line_bounds)

declare parse_frame.simps [simp del] parse_array.simps [simp del]
  parse_map.simps [simp del] parse_set.simps [simp del]

section \<open>Bounds: a parsed frame lies inside the input\<close>

lemmas line_parser_defs = parse_simple_string_def parse_error_def parse_integer_def
  parse_bulk_string_def parse_null_def parse_boolean_def parse_double_def

lemmas result_splits = result.splits option.splits prod.splits if_splits

lemma parse_simple_string_bounds:
  "parse_simple_string d = Ok (Some (f, n)) \<Longrightarrow> 0 < n \<and> n \<le> length d"
  by (auto simp: parse_simple_string_def split: result_splits dest!: parse_line_bounds)

lemma parse_error_bounds: "parse_error d = Ok (Some (f, n)) \<Longrightarrow> 0 < n \<and> n \<le> length d"
  by (auto simp: parse_error_def split: result_splits dest!: parse_line_bounds)

lemma parse_integer_bounds: "parse_integer d = Ok (Some (f, n)) \<Longrightarrow> 0 < n \<and> n \<le> length d"
  by (auto simp: parse_integer_def split: result_splits dest!: parse_number_line_bounds)

lemma parse_double_bounds: "parse_double fq d = Ok (Some (f, n)) \<Longrightarrow> 0 < n \<and> n \<le> length d"
  by (auto simp: parse_double_def split: result_splits dest!: parse_number_line_bounds)

lemma parse_bulk_string_bounds:
  "parse_bulk_string d = Ok (Some (f, n)) \<Longrightarrow> 0 < n \<and> n \<le> length d"
  by (auto simp: parse_bulk_string_def Let_def split: result_splits dest!: parse_number_line_bounds)

lemma parse_null_bounds: "parse_null d = Ok (Some (f, n)) \<Longrightarrow> 0 < n \<and> n \<le> length d"
  by (auto simp: parse_null_def split: if_splits)

lemma parse_boolean_bounds: "parse_boolean d = Ok (Some (f, n)) \<Longrightarrow> 0 < n \<and> n \<le> length d"
  by (auto simp: parse_boolean_def split: if_splits)

text \<open>The parsers of the frames that hold no other frame.\<close>

abbreviation line_parsers ::
  "(string \<Rightarrow> f64 option) \<Rightarrow> (bytes \<Rightarrow> (resp_frame \<times> nat) option result) set" where
  "line_parsers fq \<equiv> {parse_simple_string, parse_error, parse_integer, parse_bulk_string, parse_null,
     parse_boolean, parse_double fq}"

lemma line_parser_bounds:
  "P \<in> line_parsers fq \<Longrightarrow> P d = Ok (Some (f, n)) \<Longrightarrow> 0 < n \<and> n \<le> length d"
  using parse_simple_string_bounds parse_error_bounds parse_integer_bounds
    parse_double_bounds parse_bulk_string_bounds parse_null_bounds parse_boolean_bounds
  by (elim insertE emptyE) simp_all

lemma parse_frame_dispatch:
  assumes "d \<noteq> []"
  obtains (line) P where "\<And>d'. parse_frame fq (d @ d') = P (d @ d')"
      "P \<in> line_parsers fq"
    | (array) r where "d = CHR ''*'' # r" "\<And>d'. parse_frame fq (d @ d') = parse_array fq (d @ d')"
    | (map) r where "d = CHR ''%'' # r" "\<And>d'. parse_frame fq (d @ d') = parse_map fq (d @ d')"
    | (set) r where "d = CHR ''~'' # r" "\<And>d'. parse_frame fq (d @ d') = parse_set fq (d @ d')"
    | (bad) e where "\<And>d'. parse_frame fq (d @ d') = Err e"
proof -
  from assms obtain b r where d: "d = b # r" by (cases d) auto
  show ?thesis
  proof (cases "b \<in> {CHR ''*'', CHR ''%'', CHR ''~''}")
    case True
    then consider "b = CHR ''*''" | "b = CHR ''%''" | "b = CHR ''~''" by blast
    then show ?thesis
    proof cases
      case 1
      then show ?thesis by (intro array) (simp_all add: d parse_frame.simps)
    next
      case 2
      then show ?thesis by (intro map) (simp_all add: d parse_frame.simps)
    next
      case 3
      then show ?thesis by (intro set) (simp_all add: d parse_frame.simps)
    qed
  next
    case other: False
    show ?thesis
    proof (cases "b \<in> set ''+-:$_#,''")
      case True
      then consider "b = CHR ''+''" | "b = CHR ''-''" | "b = CHR '':''" | "b = CHR ''$''"
        | "b = CHR ''_''" | "b = CHR ''#''" | "b = CHR '',''" by auto
      then show ?thesis
        by cases (rule line [of parse_simple_string] line [of parse_error] line [of parse_integer]
            line [of parse_bulk_string] line [of parse_null] line [of parse_boolean]
            line [of "parse_double fq"]; simp add: d parse_frame.simps; fail)+
    next
      case False
      then show ?thesis using other by (intro bad) (simp add: d parse_frame.simps)
    qed
  qed
qed

lemma parse_array_SomeE:
  assumes "parse_array fq d = Ok (Some (f, n))"
  obtains (null) "parse_number_line ''Invalid UTF-8 in array length'' ''Invalid array length''
        parse_isize d = Ok (Some (-1, n))" "f = Array None"
    | (elems) len h fs where
      "parse_number_line ''Invalid UTF-8 in array length'' ''Invalid array length''
        parse_isize d = Ok (Some (len, h))"
      "len \<noteq> -1" "\<not> len < 0" "\<not> capacity_overflow 32 (nat len)"
      "parse_elements fq (nat len) d h [] = Ok (Some (fs, n))" "f = Array (Some fs)"
  using assms by (subst (asm) parse_array.simps) (auto split: result_splits)

lemma parse_map_SomeE:
  assumes "parse_map fq d = Ok (Some (f, n))"
  obtains len h ps where
      "parse_number_line ''Invalid UTF-8 in map length'' ''Invalid map length''
        parse_usize d = Ok (Some (len, h))"
      "\<not> capacity_overflow 64 len"
      "parse_pairs fq len d h [] = Ok (Some (ps, n))" "f = MapFrame ps"
  using assms by (subst (asm) parse_map.simps) (auto split: result_splits)

lemma parse_set_SomeE:
  assumes "parse_set fq d = Ok (Some (f, n))"
  obtains len h fs where
      "parse_number_line ''Invalid UTF-8 in set length'' ''Invalid set length''
        parse_usize d = Ok (Some (len, h))"
      "\<not> capacity_overflow 32 len"
      "parse_elements fq len d h [] = Ok (Some (fs, n))" "f = SetFrame fs"
  using assms by (subst (asm) parse_set.simps) (auto split: result_splits)

lemma parse_bounds:
  "parse_frame fq d = Ok (Some (f, n)) \<Longrightarrow> 0 < n \<and> n \<le> length d"
  "parse_array fq d = Ok (Some (f, n)) \<Longrightarrow> 0 < n \<and> n \<le> length d"
  "parse_map fq d = Ok (Some (f, n)) \<Longrightarrow> 0 < n \<and> n \<le> length d"
  "parse_set fq d = Ok (Some (f, n)) \<Longrightarrow> 0 < n \<and> n \<le> length d"
  "t \<le> length d \<Longrightarrow> parse_elements fq m d t fs = Ok (Some (gs, n)) \<Longrightarrow> t \<le> n \<and> n \<le> length d"
  "t \<le> length d \<Longrightarrow> parse_pairs fq m d t ps = Ok (Some (qs, n)) \<Longrightarrow> t \<le> n \<and> n \<le> length d"
proof (induction fq d and fq d and fq d and fq d and fq m d t fs and fq m d t ps
    arbitrary: f n and f n and f n and f n and gs n and qs n
    rule: parse_frame_parse_array_parse_map_parse_set_parse_elements_parse_pairs.induct)
  case (1 fq d)
  from "1.prems" have "d \<noteq> []" by (auto simp: parse_frame.simps)
  then show ?case
  proof (cases rule: parse_frame_dispatch [of d fq])
    case (line P)
    have "P d = Ok (Some (f, n))" using "1.prems" line(1) [of "[]"] by simp
    then show ?thesis by (rule line_parser_bounds [OF line(2)])
  next
    case (array r)
    have "parse_array fq d = Ok (Some (f, n))" using "1.prems" array(2) [of "[]"] by simp
    then show ?thesis using "1.IH"(1) [OF array(1)] by simp
  next
    case (map r)
    have "parse_map fq d = Ok (Some (f, n))" using "1.prems" map(2) [of "[]"] by simp
    then show ?thesis using "1.IH"(2) [OF map(1)] by simp
  next
    case (set r)
    have "parse_set fq d = Ok (Some (f, n))" using "1.prems" set(2) [of "[]"] by simp
    then show ?thesis using "1.IH"(3) [OF set(1)] by simp
  next
    case (bad e)
    then show ?thesis using "1.prems" bad(1) [of "[]"] by simp
  qed
next
  case (2 fq d)
  from "2.prems" show ?case
  proof (cases rule: parse_array_SomeE)
    case null
    then show ?thesis by (auto dest: parse_number_line_bounds)
  next
    case (elems len h fs)
    then show ?thesis
      using "2.IH" [OF elems(1) refl refl elems(2,3,4) _ elems(5)] by (auto dest: parse_number_line_bounds)
  qed
next
  case (3 fq d)
  from "3.prems" show ?case
  proof (cases rule: parse_map_SomeE)
    case (1 len h ps)
    then show ?thesis
      using "3.IH" [OF 1(1) refl refl 1(2) _ 1(3)] by (auto dest: parse_number_line_bounds)
  qed
next
  case (4 fq d)
  from "4.prems" show ?case
  proof (cases rule: parse_set_SomeE)
    case (1 len h fs)
    then show ?thesis
      using "4.IH" [OF 1(1) refl refl 1(2) _ 1(3)] by (auto dest: parse_number_line_bounds)
  qed
next
  case (6 fq m d t fs)
  from "6.prems" obtain f c where f: "parse_frame fq (drop t d) = Ok (Some (f, c))"
    and rest: "parse_elements fq m d (t + c) (fs @ [f]) = Ok (Some (gs, n))"
    by (auto split: result_splits)
  from "6.prems"(1) have t: "\<not> length d < t" by simp
  have c: "c \<le> length (drop t d)" using "6.IH"(1) [OF t f] by simp
  show ?case using "6.IH"(2) [OF t f _ refl _ rest] c t by force
next
  case (8 fq m d t ps)
  from "8.prems" obtain k c v c' where k: "parse_frame fq (drop t d) = Ok (Some (k, c))"
    and v: "parse_frame fq (drop (t + c) d) = Ok (Some (v, c'))"
    and tc: "\<not> length d < t + c"
    and rest: "parse_pairs fq m d (t + c + c') (ps @ [(k, v)]) = Ok (Some (qs, n))"
    by (auto split: result_splits)
  from "8.prems"(1) have t: "\<not> length d < t" by simp
  have c': "c' \<le> length (drop (t + c) d)" using "8.IH"(2) [OF t k _ refl tc v] by simp
  show ?case using "8.IH"(3) [OF t k _ refl tc v _ refl _ rest] c' tc by force
qed auto

section \<open>More input never changes an answer\<close>

lemma find_crlf_append: "find_crlf d = Some k \<Longrightarrow> find_crlf (d @ d') = Some k"
proof (induction d arbitrary: k rule: find_crlf.induct)
  case (1 a b r)
  then show ?case by (auto split: if_splits)
qed auto

lemma parse_line_append:
  "parse_line d skip = Ok (Some r) \<Longrightarrow> parse_line (d @ d') skip = Ok (Some r)"
  using find_crlf_append [of "drop skip d" _ d'] find_crlf_bound [of "drop skip d"]
  by (auto simp: parse_line_def split: if_splits option.splits)

lemma parse_line_cases: "parse_line d skip = Ok None \<or> (\<exists>r. parse_line d skip = Ok (Some r))"
  by (auto simp: parse_line_def split: option.splits)

lemma parse_number_line_append:
  "parse_number_line m1 m2 p d \<noteq> Ok None
   \<Longrightarrow> parse_number_line m1 m2 p (d @ d') = parse_number_line m1 m2 p d"
  using parse_line_cases [of d 1]
  by (auto simp: parse_number_line_def parse_line_append)

lemma parse_bulk_string_append:
  assumes "parse_bulk_string d \<noteq> Ok None"
  shows "parse_bulk_string (d @ d') = parse_bulk_string d"
proof -
  let ?h = "parse_number_line ''Invalid UTF-8 in bulk length'' ''Invalid bulk string length'' parse_isize"
  have h: "?h (d @ d') = ?h d"
    using assms by (intro parse_number_line_append) (auto simp: parse_bulk_string_def)
  show ?thesis
  proof (cases "?h d")
    case (Ok x)
    with assms obtain len n where x: "?h d = Ok (Some (len, n))"
      by (cases x) (auto simp: parse_bulk_string_def)
    show ?thesis
    proof (cases "len < 0")
      case True
      then show ?thesis using h x by (simp add: parse_bulk_string_def)
    next
      case False
      then have "n + nat len + 2 \<le> length d"
        using assms x by (auto simp: parse_bulk_string_def Let_def split: if_splits)
      then show ?thesis using h x False by (simp add: parse_bulk_string_def Let_def nth_append)
    qed
  qed (use h in \<open>simp_all add: parse_bulk_string_def\<close>)
qed

lemma line_parser_append:
  "P \<in> line_parsers fq \<Longrightarrow> P d \<noteq> Ok None \<Longrightarrow> P (d @ d') = P d"
proof (elim insertE emptyE)
  assume a: "P d \<noteq> Ok None" "P = parse_simple_string"
  then obtain r where "parse_line d 1 = Ok (Some r)"
    using parse_line_cases [of d 1] by (auto simp: parse_simple_string_def)
  then show "P (d @ d') = P d" using a(2) by (simp add: parse_simple_string_def parse_line_append)
next
  assume a: "P d \<noteq> Ok None" "P = parse_error"
  then obtain r where "parse_line d 1 = Ok (Some r)"
    using parse_line_cases [of d 1] by (auto simp: parse_error_def)
  then show "P (d @ d') = P d" using a(2) by (simp add: parse_error_def parse_line_append)
next
  assume a: "P d \<noteq> Ok None" "P = parse_integer"
  then have "parse_number_line ''Invalid UTF-8 in integer'' ''Invalid integer format'' parse_i64 d \<noteq> Ok None"
    by (auto simp: parse_integer_def)
  from parse_number_line_append [OF this] a(2) show "P (d @ d') = P d"
    by (simp add: parse_integer_def)
next
  assume "P d \<noteq> Ok None" "P = parse_bulk_string"
  then show "P (d @ d') = P d" using parse_bulk_string_append by simp
next
  assume a: "P d \<noteq> Ok None" "P = parse_null"
  then have "3 \<le> length d" by (simp add: parse_null_def split: if_splits)
  then show "P (d @ d') = P d" using a(2) by (simp add: parse_null_def nth_append)
next
  assume a: "P d \<noteq> Ok None" "P = parse_boolean"
  then have "4 \<le> length d" by (simp add: parse_boolean_def split: if_splits)
  then show "P (d @ d') = P d" using a(2) by (simp add: parse_boolean_def nth_append)
next
  assume a: "P d \<noteq> Ok None" "P = parse_double fq"
  then have "parse_number_line ''Invalid UTF-8 in double'' ''Invalid double format'' fq d \<noteq> Ok None"
    by (auto simp: parse_double_def)
  from parse_number_line_append [OF this] a(2) show "P (d @ d') = P d"
    by (simp add: parse_double_def)
qed

lemma parse_append:
  "parse_frame fq d \<noteq> Ok None \<Longrightarrow> parse_frame fq (d @ d') = parse_frame fq d"
  "parse_array fq d \<noteq> Ok None \<Longrightarrow> parse_array fq (d @ d') = parse_array fq d"
  "parse_map fq d \<noteq> Ok None \<Longrightarrow> parse_map fq (d @ d') = parse_map fq d"
  "parse_set fq d \<noteq> Ok None \<Longrightarrow> parse_set fq (d @ d') = parse_set fq d"
  "t \<le> length d \<Longrightarrow> parse_elements fq m d t fs \<noteq> Ok None
     \<Longrightarrow> parse_elements fq m (d @ d') t fs = parse_elements fq m d t fs"
  "t \<le> length d \<Longrightarrow> parse_pairs fq m d t ps \<noteq> Ok None
     \<Longrightarrow> parse_pairs fq m (d @ d') t ps = parse_pairs fq m d t ps"
proof (induction fq d and fq d and fq d and fq d and fq m d t fs and fq m d t ps
    rule: parse_frame_parse_array_parse_map_parse_set_parse_elements_parse_pairs.induct)
  case (1 fq d)
  from "1.prems" have "d \<noteq> []" by (auto simp: parse_frame.simps)
  then show ?case
  proof (cases rule: parse_frame_dispatch [of d fq])
    case (line P)
    have "P d \<noteq> Ok None" using "1.prems" line(1) [of "[]"] by simp
    then show ?thesis using line_parser_append [OF line(2)] line(1) [of d'] line(1) [of "[]"] by simp
  next
    case (array r)
    have "parse_array fq d \<noteq> Ok None" using "1.prems" array(2) [of "[]"] by simp
    then show ?thesis using "1.IH"(1) [OF array(1)] array(2) [of d'] array(2) [of "[]"] by simp
  next
    case (map r)
    have "parse_map fq d \<noteq> Ok None" using "1.prems" map(2) [of "[]"] by simp
    then show ?thesis using "1.IH"(2) [OF map(1)] map(2) [of d'] map(2) [of "[]"] by simp
  next
    case (set r)
    have "parse_set fq d \<noteq> Ok None" using "1.prems" set(2) [of "[]"] by simp
    then show ?thesis using "1.IH"(3) [OF set(1)] set(2) [of d'] set(2) [of "[]"] by simp
  next
    case (bad e)
    then show ?thesis using bad(1) [of "[]"] by simp
  qed
next
  case (2 fq d)
  let ?h = "parse_number_line ''Invalid UTF-8 in array length'' ''Invalid array length'' parse_isize"
  have h: "?h (d @ d') = ?h d"
    using "2.prems" by (intro parse_number_line_append) (auto simp: parse_array.simps)
  show ?case
  proof (cases "\<exists>len n. ?h d = Ok (Some (len, n)) \<and> len \<noteq> -1 \<and> \<not> len < 0 \<and> \<not> capacity_overflow 32 (nat len)")
    case True
    then obtain len n where x: "?h d = Ok (Some (len, n))" and c: "len \<noteq> -1" "\<not> len < 0"
      "\<not> capacity_overflow 32 (nat len)" by blast
    have "parse_elements fq (nat len) d n [] \<noteq> Ok None"
      using "2.prems" x c by (auto simp: parse_array.simps)
    then have "parse_elements fq (nat len) (d @ d') n [] = parse_elements fq (nat len) d n []"
      using "2.IH" [OF x refl refl c] parse_number_line_bounds [OF x] by simp
    then show ?thesis using x c h by (simp add: parse_array.simps)
  next
    case False
    then show ?thesis using h by (auto simp: parse_array.simps split: result_splits)
  qed
next
  case (3 fq d)
  let ?h = "parse_number_line ''Invalid UTF-8 in map length'' ''Invalid map length'' parse_usize"
  have h: "?h (d @ d') = ?h d"
    using "3.prems" by (intro parse_number_line_append) (auto simp: parse_map.simps)
  show ?case
  proof (cases "\<exists>len n. ?h d = Ok (Some (len, n)) \<and> \<not> capacity_overflow 64 len")
    case True
    then obtain len n where x: "?h d = Ok (Some (len, n))" and c: "\<not> capacity_overflow 64 len" by blast
    have "parse_pairs fq len d n [] \<noteq> Ok None" using "3.prems" x c by (auto simp: parse_map.simps)
    then have "parse_pairs fq len (d @ d') n [] = parse_pairs fq len d n []"
      using "3.IH" [OF x refl refl c] parse_number_line_bounds [OF x] by simp
    then show ?thesis using x c h by (simp add: parse_map.simps)
  next
    case False
    then show ?thesis using h by (auto simp: parse_map.simps split: result_splits)
  qed
next
  case (4 fq d)
  let ?h = "parse_number_line ''Invalid UTF-8 in set length'' ''Invalid set length'' parse_usize"
  have h: "?h (d @ d') = ?h d"
    using "4.prems" by (intro parse_number_line_append) (auto simp: parse_set.simps)
  show ?case
  proof (cases "\<exists>len n. ?h d = Ok (Some (len, n)) \<and> \<not> capacity_overflow 32 len")
    case True
    then obtain len n where x: "?h d = Ok (Some (len, n))" and c: "\<not> capacity_overflow 32 len" by blast
    have "parse_elements fq len d n [] \<noteq> Ok None" using "4.prems" x c by (auto simp: parse_set.simps)
    then have "parse_elements fq len (d @ d') n [] = parse_elements fq len d n []"
      using "4.IH" [OF x refl refl c] parse_number_line_bounds [OF x] by simp
    then show ?thesis using x c h by (simp add: parse_set.simps)
  next
    case False
    then show ?thesis using h by (auto simp: parse_set.simps split: result_splits)
  qed
next
  case (6 fq m d t fs)
  then have t: "\<not> length d < t" and
    nf: "parse_frame fq (drop t d) \<noteq> Ok None" by auto
  have f: "parse_frame fq (drop t d @ d') = parse_frame fq (drop t d)" using "6.IH"(1) [OF t nf] .
  show ?case
  proof (cases "\<exists>f c. parse_frame fq (drop t d) = Ok (Some (f, c))")
    case True
    then obtain f c where p: "parse_frame fq (drop t d) = Ok (Some (f, c))" by blast
    then have "t + c \<le> length d" using parse_bounds(1) [OF p] t by auto
    then show ?thesis using "6.IH"(2) [OF t p refl refl] "6.prems" f p by simp
  next
    case False
    then show ?thesis using f t by (auto split: result_splits)
  qed
next
  case (8 fq m d t ps)
  then have t: "\<not> length d < t" and
    nf: "parse_frame fq (drop t d) \<noteq> Ok None" by auto
  have f: "parse_frame fq (drop t d @ d') = parse_frame fq (drop t d)" using "8.IH"(1) [OF t nf] .
  show ?case
  proof (cases "\<exists>k c. parse_frame fq (drop t d) = Ok (Some (k, c))")
    case True
    then obtain k c where p: "parse_frame fq (drop t d) = Ok (Some (k, c))" by blast
    have tc: "\<not> length d < t + c" using parse_bounds(1) [OF p] t by auto
    have nv: "parse_frame fq (drop (t + c) d) \<noteq> Ok None" using "8.prems" p tc by auto
    have v: "parse_frame fq (drop (t + c) d @ d') = parse_frame fq (drop (t + c) d)"
      using "8.IH"(2) [OF t p refl refl tc nv] .
    show ?thesis
    proof (cases "\<exists>v c'. parse_frame fq (drop (t + c) d) = Ok (Some (v, c'))")
      case True
      then obtain v c' where q: "parse_frame fq (drop (t + c) d) = Ok (Some (v, c'))" by blast
      have "t + c + c' \<le> length d" using parse_bounds(1) [OF q] tc by auto
      then show ?thesis using "8.IH"(3) [OF t p refl refl tc q refl refl] "8.prems" f p v q tc t by simp
    next
      case False
      then show ?thesis using f p v tc t by (auto split: result_splits)
    qed
  next
    case False
    then show ?thesis using f t by (auto split: result_splits)
  qed
qed simp_all

end
