(* ===== verification/Resp_Roundtrip.thy ===== *)
theory Resp_Roundtrip
  imports Resp
begin

text \<open>
  The serializer and the parser of RESP frames are inverse to each other on every frame whose
  texts, sizes and doubles have a wire form.
\<close>

section \<open>Round trip\<close>

text \<open>
  The frames whose wire form denotes them: no internal marker inside, simple texts without a CRLF,
  containers that fit an allocation, and doubles whose printed form reads back.
\<close>

function (sequential)
  frame_ok :: "(f64 \<Rightarrow> string) \<Rightarrow> (string \<Rightarrow> f64 option) \<Rightarrow> resp_frame \<Rightarrow> bool"
and
  frames_ok :: "(f64 \<Rightarrow> string) \<Rightarrow> (string \<Rightarrow> f64 option) \<Rightarrow> resp_frame list \<Rightarrow> bool"
and
  pairs_ok :: "(f64 \<Rightarrow> string) \<Rightarrow> (string \<Rightarrow> f64 option) \<Rightarrow> (resp_frame \<times> resp_frame) list \<Rightarrow> bool"
where
  "frame_ok fp fq (SimpleString b) = (find_crlf b = None)"
| "frame_ok fp fq (Error b) = (find_crlf b = None)"
| "frame_ok fp fq (BulkString (Some b)) = (int (length b) \<le> isize_max)"
| "frame_ok fp fq (Array (Some fs)) = (\<not> capacity_overflow 32 (length fs) \<and> frames_ok fp fq fs)"
| "frame_ok fp fq NoResponse = False"
| "frame_ok fp fq (Double x) = (fq (fp x) = Some x \<and> utf8_valid (fp x) \<and> find_crlf (fp x) = None)"
| "frame_ok fp fq (MapFrame ps) = (\<not> capacity_overflow 64 (length ps) \<and> pairs_ok fp fq ps)"
| "frame_ok fp fq (SetFrame fs) = (\<not> capacity_overflow 32 (length fs) \<and> frames_ok fp fq fs)"
| "frame_ok fp fq f = True"
| "frames_ok fp fq [] = True"
| "frames_ok fp fq (f # fs) = (frame_ok fp fq f \<and> frames_ok fp fq fs)"
| "pairs_ok fp fq [] = True"
| "pairs_ok fp fq ((k, v) # ps) = (frame_ok fp fq k \<and> frame_ok fp fq v \<and> pairs_ok fp fq ps)"
  by pat_completeness auto
termination
  by (relation "measure (\<lambda>x. case x of
        Inl (fp, fq, f) \<Rightarrow> size f
      | Inr (Inl (fp, fq, fs)) \<Rightarrow> size_list size fs
      | Inr (Inr (fp, fq, ps)) \<Rightarrow> size_list (size_prod size size) ps)") auto

lemma find_crlf_None_append:
  "find_crlf s = None \<Longrightarrow> find_crlf (s @ CR # LF # rest) = Some (length s)"
  by (induction s rule: find_crlf.induct) (auto split: if_splits)

lemma find_crlf_no_CR: "CR \<notin> set s \<Longrightarrow> find_crlf s = None"
  by (induction s rule: find_crlf.induct) auto

lemma parse_line_wire:
  "find_crlf s = None \<Longrightarrow> parse_line (b # s @ CR # LF # rest) 1 = Ok (Some (s, length s + 3))"
  by (simp add: parse_line_def find_crlf_None_append)

lemma nat_to_string_no_crlf: "find_crlf (nat_to_string n) = None"
  using nat_to_string_digits [of n] not_digit(3) by (intro find_crlf_no_CR) blast

lemma int_to_string_no_crlf: "find_crlf (int_to_string n) = None"
  using int_to_string_chars [of CR n] by (intro find_crlf_no_CR) auto

lemma parse_number_line_wire:
  "find_crlf s = None \<Longrightarrow> utf8_valid s \<Longrightarrow> p s = Some n
   \<Longrightarrow> parse_number_line m1 m2 p (b # s @ CR # LF # rest) = Ok (Some (n, length s + 3))"
  by (simp add: parse_number_line_def parse_line_wire del: One_nat_def)

lemma parse_isize_nat_to_string:
  "int n \<le> isize_max \<Longrightarrow> parse_isize (nat_to_string n) = Some (int n)"
  using parse_isize_to_string [of "int n"] by (simp add: int_to_string_def in_i64_def)

lemma header_isize:
  "int n \<le> isize_max \<Longrightarrow> parse_number_line m1 m2 parse_isize (b # nat_to_string n @ CR # LF # rest)
     = Ok (Some (int n, length (nat_to_string n) + 3))"
  by (intro parse_number_line_wire parse_isize_nat_to_string nat_to_string_no_crlf
      utf8_valid_ascii nat_to_string_ascii)

lemma header_usize:
  "n \<le> usize_max \<Longrightarrow> parse_number_line m1 m2 parse_usize (b # nat_to_string n @ CR # LF # rest)
     = Ok (Some (n, length (nat_to_string n) + 3))"
  by (intro parse_number_line_wire parse_usize_nat_to_string nat_to_string_no_crlf
      utf8_valid_ascii nat_to_string_ascii)

lemma header_minus_one:
  "parse_number_line m1 m2 parse_isize (b # CHR ''-'' # CHR ''1'' # CR # LF # rest) = Ok (Some (-1, 5))"
proof -
  have s: "int_to_string (-1) = ''-1''"
    by code_simp
  have "parse_number_line m1 m2 parse_isize (b # int_to_string (-1) @ CR # LF # rest)
     = Ok (Some (-1, length (int_to_string (-1)) + 3))"
    by (intro parse_number_line_wire parse_isize_to_string int_to_string_no_crlf
      utf8_valid_ascii int_to_string_ascii) (simp add: in_i64_def)
  then show ?thesis by (simp add: s)
qed

text \<open>What it means that \<open>bs\<close> is the wire form of a frame, of a list of frames, of a list of pairs.\<close>

definition wire_of where
  "wire_of fp fq f bs \<longleftrightarrow> bs \<noteq> [] \<and> (\<forall>w. serialize_resp_frame fp f w = (w @ bs, Ok ()))
     \<and> (\<forall>rest. parse_frame fq (bs @ rest) = Ok (Some (f, length bs)))"

definition wires_of where
  "wires_of fp fq fs bs \<longleftrightarrow> (\<forall>w. serialize_frames fp fs w = (w @ bs, Ok ()))
     \<and> (\<forall>pre rest acc. parse_elements fq (length fs) (pre @ bs @ rest) (length pre) acc
            = Ok (Some (acc @ fs, length pre + length bs)))"

definition wire_pairs_of where
  "wire_pairs_of fp fq ps bs \<longleftrightarrow> (\<forall>w. serialize_pairs fp ps w = (w @ bs, Ok ()))
     \<and> (\<forall>pre rest acc. parse_pairs fq (length ps) (pre @ bs @ rest) (length pre) acc
            = Ok (Some (acc @ ps, length pre + length bs)))"

lemma wires_of_Cons:
  assumes f: "wire_of fp fq f a" and fs: "wires_of fp fq fs b"
  shows "wires_of fp fq (f # fs) (a @ b)"
proof -
  have "parse_elements fq (Suc (length fs)) (pre @ (a @ b) @ rest) (length pre) acc
      = Ok (Some (acc @ f # fs, length pre + length (a @ b)))" for pre rest acc
  proof -
    have "parse_elements fq (Suc (length fs)) (pre @ (a @ b) @ rest) (length pre) acc
        = parse_elements fq (length fs) ((pre @ a) @ b @ rest) (length (pre @ a)) (acc @ [f])"
      using f by (simp add: wire_of_def)
    also have "\<dots> = Ok (Some ((acc @ [f]) @ fs, length (pre @ a) + length b))"
      using fs unfolding wires_of_def by blast
    finally show ?thesis by simp
  qed
  then show ?thesis using assms by (simp add: wires_of_def wire_of_def)
qed

lemma wire_pairs_of_Cons:
  assumes k: "wire_of fp fq k a" and v: "wire_of fp fq v b" and ps: "wire_pairs_of fp fq ps c"
  shows "wire_pairs_of fp fq ((k, v) # ps) (a @ b @ c)"
proof -
  have "parse_pairs fq (Suc (length ps)) (pre @ (a @ b @ c) @ rest) (length pre) acc
      = Ok (Some (acc @ (k, v) # ps, length pre + length (a @ b @ c)))" for pre rest acc
  proof -
    have "parse_pairs fq (Suc (length ps)) (pre @ (a @ b @ c) @ rest) (length pre) acc
        = parse_pairs fq (length ps) ((pre @ a @ b) @ c @ rest) (length (pre @ a @ b)) (acc @ [(k, v)])"
      using k v by (simp add: wire_of_def add.assoc)
    also have "\<dots> = Ok (Some ((acc @ [(k, v)]) @ ps, length (pre @ a @ b) + length c))"
      using ps unfolding wire_pairs_of_def by blast
    finally show ?thesis by simp
  qed
  then show ?thesis using assms by (simp add: wire_pairs_of_def wire_of_def)
qed

lemma wires_of_Nil: "wires_of fp fq [] []" "wire_pairs_of fp fq [] []"
  by (simp_all add: wires_of_def wire_pairs_of_def)

lemma capacity_bounds:
  "\<not> capacity_overflow 32 n \<Longrightarrow> int n \<le> isize_max" "\<not> capacity_overflow 64 n \<Longrightarrow> int n \<le> isize_max"
  "int n \<le> isize_max \<Longrightarrow> n \<le> usize_max"
  by (auto simp: capacity_overflow_def)

lemma wire_simple:
  assumes "find_crlf b = None"
  shows "wire_of fp fq (SimpleString b) (CHR ''+'' # b @ [CR, LF])"
    and "wire_of fp fq (Error b) (CHR ''-'' # b @ [CR, LF])"
  using parse_line_wire [OF assms]
  by (simp_all add: wire_of_def parse_frame.simps parse_simple_string_def parse_error_def)

lemma wire_constants:
  "wire_of fp fq Null [CHR ''_'', CR, LF]"
  "wire_of fp fq (Boolean v) [CHR ''#'', if v then CHR ''t'' else CHR ''f'', CR, LF]"
  by (simp_all add: wire_of_def parse_frame.simps parse_null_def parse_boolean_def)

lemma wire_integer:
  "wire_of fp fq (Integer n) (CHR '':'' # i64_to_string n @ [CR, LF])"
proof -
  have "parse_number_line ''Invalid UTF-8 in integer'' ''Invalid integer format'' parse_i64
     (CHR '':'' # i64_to_string n @ CR # LF # rest) = Ok (Some (n, length (i64_to_string n) + 3))" for rest
    by (intro parse_number_line_wire)
      (simp_all add: i64_to_string_def int_to_string_no_crlf utf8_valid_ascii int_to_string_ascii
        parse_i64_to_string [unfolded i64_to_string_def])
  then show ?thesis by (simp add: wire_of_def parse_frame.simps parse_integer_def)
qed

lemma wire_double:
  assumes "fq (fp x) = Some x" "utf8_valid (fp x)" "find_crlf (fp x) = None"
  shows "wire_of fp fq (Double x) (CHR '','' # fp x @ [CR, LF])"
  using parse_number_line_wire [of "fp x" fq x] assms
  by (simp add: wire_of_def parse_frame.simps parse_double_def)

lemma wire_bulk:
  assumes "int (length b) \<le> isize_max"
  shows "wire_of fp fq (BulkString (Some b)) (CHR ''$'' # nat_to_string (length b) @ CR # LF # b @ [CR, LF])"
  using header_isize [OF assms]
  by (simp add: wire_of_def parse_frame.simps parse_bulk_string_def Let_def nth_append numeral_3_eq_3)

lemma wire_null_bulk:
  "wire_of fp fq (BulkString None) [CHR ''$'', CHR ''-'', CHR ''1'', CR, LF]"
  "wire_of fp fq (Array None) [CHR ''*'', CHR ''-'', CHR ''1'', CR, LF]"
  by (simp_all add: wire_of_def parse_frame.simps parse_bulk_string_def parse_array.simps header_minus_one)

text \<open>A container: its header, then the wire form of what it holds.\<close>

lemma wires_of_at:
  "wires_of fp fq fs bs \<Longrightarrow> parse_elements fq (length fs) (b # h @ CR # LF # bs @ rest) (length h + 3) []
     = Ok (Some (fs, length h + 3 + length bs))"
  unfolding wires_of_def by (drule conjunct2, drule spec [of _ "b # h @ [CR, LF]"]) (simp add: numeral_3_eq_3)

lemma wire_pairs_of_at:
  "wire_pairs_of fp fq fs bs \<Longrightarrow> parse_pairs fq (length fs) (b # h @ CR # LF # bs @ rest) (length h + 3) []
     = Ok (Some (fs, length h + 3 + length bs))"
  unfolding wire_pairs_of_def by (drule conjunct2, drule spec [of _ "b # h @ [CR, LF]"]) (simp add: numeral_3_eq_3)

lemma wire_containers:
  shows "\<not> capacity_overflow 32 (length fs) \<Longrightarrow> wires_of fp fq fs bs
      \<Longrightarrow> wire_of fp fq (Array (Some fs)) (CHR ''*'' # nat_to_string (length fs) @ CR # LF # bs)"
    and "\<not> capacity_overflow 32 (length fs) \<Longrightarrow> wires_of fp fq fs bs
      \<Longrightarrow> wire_of fp fq (SetFrame fs) (CHR ''~'' # nat_to_string (length fs) @ CR # LF # bs)"
    and "\<not> capacity_overflow 64 (length ps) \<Longrightarrow> wire_pairs_of fp fq ps bs
      \<Longrightarrow> wire_of fp fq (MapFrame ps) (CHR ''%'' # nat_to_string (length ps) @ CR # LF # bs)"
  by (simp_all add: wire_of_def parse_frame.simps parse_array.simps parse_set.simps parse_map.simps
      header_isize [OF capacity_bounds(1)] header_usize [OF capacity_bounds(3) [OF capacity_bounds(1)]]
      header_usize [OF capacity_bounds(3) [OF capacity_bounds(2)]] wires_of_at wire_pairs_of_at)
    (simp_all add: wires_of_def wire_pairs_of_def)

lemma wire_exists:
  "frame_ok fp fq f \<Longrightarrow> \<exists>bs. wire_of fp fq f bs"
  "frames_ok fp fq fs \<Longrightarrow> \<exists>bs. wires_of fp fq fs bs"
  "pairs_ok fp fq ps \<Longrightarrow> \<exists>bs. wire_pairs_of fp fq ps bs"
  by (induction fp fq f and fp fq fs and fp fq ps rule: frame_ok_frames_ok_pairs_ok.induct)
    (auto intro: wire_simple wire_constants wire_integer wire_double wire_bulk [simplified] wire_null_bulk
      wire_containers wires_of_Nil wires_of_Cons wire_pairs_of_Cons)

end
