(* ===== verification/Resp_Parser.thy ===== *)
theory Resp_Parser
  imports Resp_Roundtrip
begin

text \<open>
  The incremental parser object of a connection (\<^verbatim>\<open>RespParser\<close> in \<^verbatim>\<open>src/protocol/parser.rs\<close>) and
  the loop of \<^verbatim>\<open>process_connection\<close> (\<^verbatim>\<open>src/network/server.rs\<close>) that takes every complete frame
  out of it after each read.  The object is refined by a function on the bytes not yet consumed;
  with it, a pipeline of frames is delivered unchanged however the network cuts it into reads.
\<close>

section \<open>The parser object\<close>

record resp_parser =
  buffer :: bytes
  position :: nat

definition new_parser :: resp_parser where
  "new_parser = \<lparr>buffer = [], position = 0\<rparr>"

definition feed :: "bytes \<Rightarrow> resp_parser \<Rightarrow> resp_parser" where
  "feed data p = p\<lparr>buffer := buffer p @ data\<rparr>"

definition clear_parser :: "resp_parser \<Rightarrow> resp_parser" where
  "clear_parser p = p\<lparr>buffer := [], position := 0\<rparr>"

function skip_bytes :: "(char \<Rightarrow> bool) \<Rightarrow> bytes \<Rightarrow> nat \<Rightarrow> nat" where
  "skip_bytes P buf pos =
     (if pos < length buf \<and> P (buf ! pos) then skip_bytes P buf (pos + 1) else pos)"
  by pat_completeness auto
termination
  by (relation "measure (\<lambda>(P, buf, pos). length buf - pos)") auto

declare skip_bytes.simps [simp del]

definition leading_space :: "char \<Rightarrow> bool" where
  "leading_space b \<longleftrightarrow> b = CHR '' '' \<or> b = CR \<or> b = LF \<or> b = CHR 0x09"

definition ping_space :: "char \<Rightarrow> bool" where
  "ping_space b \<longleftrightarrow> b = CHR '' '' \<or> b = CR \<or> b = LF"

definition frame_space :: "char \<Rightarrow> bool" where
  "frame_space b \<longleftrightarrow> b = CR \<or> b = LF"

definition ping_frame :: resp_frame where
  "ping_frame = Array (Some [BulkString (Some ''PING'')])"

definition compact :: "resp_parser \<Rightarrow> resp_parser" where
  "compact p =
     (if position p > length (buffer p) div 2
      then \<lparr>buffer = drop (position p) (buffer p), position = 0\<rparr> else p)"

definition parse :: "(string \<Rightarrow> f64 option) \<Rightarrow> resp_parser \<Rightarrow> resp_parser \<times> resp_frame option result" where
  "parse fq p =
     (if position p \<ge> length (buffer p) then (p, Ok None)
      else
        let pos = skip_bytes leading_space (buffer p) (position p);
            p1 = p\<lparr>position := pos\<rparr>
        in if pos \<ge> length (buffer p) then (p1, Ok None)
           else if pos + 4 \<le> length (buffer p) \<and> take 4 (drop pos (buffer p)) = ''PING''
           then (p1\<lparr>position := skip_bytes ping_space (buffer p) (pos + 4)\<rparr>, Ok (Some ping_frame))
           else (case parse_frame fq (drop pos (buffer p)) of
                   Ok (Some (frame, consumed)) \<Rightarrow>
                     (compact (p1\<lparr>position := skip_bytes frame_space (buffer p) (pos + consumed)\<rparr>),
                      Ok (Some frame))
                 | Ok None \<Rightarrow> (p1, Ok None)
                 | Err e \<Rightarrow> (p1, Err e)
                 | Panic \<Rightarrow> (p1, Panic)))"

section \<open>The bytes not yet consumed\<close>

definition parser_ok :: "resp_parser \<Rightarrow> bool" where
  "parser_ok p \<longleftrightarrow> position p \<le> length (buffer p)"

definition unread :: "resp_parser \<Rightarrow> bytes" where
  "unread p = drop (position p) (buffer p)"

text \<open>The abstract step: what a call of \<^verbatim>\<open>parse\<close> does to the unread bytes.\<close>

definition parse_unread :: "(string \<Rightarrow> f64 option) \<Rightarrow> bytes \<Rightarrow> bytes \<times> resp_frame option result" where
  "parse_unread fq bs =
     (let d = dropWhile leading_space bs in
      if d = [] then (d, Ok None)
      else if take 4 d = ''PING'' then (dropWhile ping_space (drop 4 d), Ok (Some ping_frame))
      else (case parse_frame fq d of
              Ok (Some (frame, consumed)) \<Rightarrow> (dropWhile frame_space (drop consumed d), Ok (Some frame))
            | Ok None \<Rightarrow> (d, Ok None)
            | Err e \<Rightarrow> (d, Err e)
            | Panic \<Rightarrow> (d, Panic)))"

lemma skip_bytes_drop: "drop (skip_bytes P buf pos) buf = dropWhile P (drop pos buf)"
proof (induction P buf pos rule: skip_bytes.induct)
  case (1 P buf pos)
  show ?case
  proof (cases "pos < length buf")
    case True
    then have "drop pos buf = buf ! pos # drop (Suc pos) buf" by (simp add: Cons_nth_drop_Suc)
    then show ?thesis using 1 True by (simp add: skip_bytes.simps [of P buf pos])
  next
    case False
    then show ?thesis by (simp add: skip_bytes.simps [of P buf pos])
  qed
qed

lemma skip_bytes_bounds: "pos \<le> skip_bytes P buf pos" "pos \<le> length buf \<Longrightarrow> skip_bytes P buf pos \<le> length buf"
  by (induction P buf pos rule: skip_bytes.induct) (subst skip_bytes.simps, force)+

lemma feed_ok [simp]: "parser_ok p \<Longrightarrow> parser_ok (feed d p)"
  by (simp add: parser_ok_def feed_def)

lemma unread_feed [simp]: "parser_ok p \<Longrightarrow> unread (feed d p) = unread p @ d"
  by (simp add: parser_ok_def feed_def unread_def)

lemma new_parser_ok [simp]: "parser_ok new_parser" "unread new_parser = []"
  by (simp_all add: parser_ok_def new_parser_def unread_def)

lemma compact_ok [simp]: "parser_ok p \<Longrightarrow> parser_ok (compact p)" "unread (compact p) = unread p"
  by (simp_all add: parser_ok_def compact_def unread_def)

lemma unread_skip [simp]:
  "unread (p\<lparr>position := skip_bytes P (buffer p) i\<rparr>) = dropWhile P (drop i (buffer p))"
  by (simp add: unread_def skip_bytes_drop)

lemma take_4_PING_length: "take 4 xs = ''PING'' \<Longrightarrow> 4 \<le> length xs"
  by (drule arg_cong [of _ _ length]) simp

lemma take_4_PING:
  "(pos + 4 \<le> length b \<and> take 4 (drop pos b) = ''PING'') = (take 4 (drop pos b) = ''PING'')"
  by (auto dest: take_4_PING_length)

lemmas parse_unfold = parse_def [unfolded take_4_PING]

lemma parse_ok:
  assumes p: "parser_ok p"
  shows "parser_ok (fst (parse fq p))"
proof -
  have skip: "parser_ok (p\<lparr>position := skip_bytes P (buffer p) i\<rparr>)" if "i \<le> length (buffer p)" for P i
    using that by (simp add: parser_ok_def skip_bytes_bounds)
  have consumed: "i + c \<le> length (buffer p)"
    if "parse_frame fq (drop i (buffer p)) = Ok (Some (f, c))" "\<not> length (buffer p) \<le> i" for i f c
    using parse_bounds(1) [OF that(1)] that(2) by auto
  have "position p \<le> length (buffer p)" using p by (simp add: parser_ok_def)
  then show ?thesis using p
    by (auto simp: parse_def Let_def skip consumed split: result.splits option.splits)
qed

lemma parse_refines_unread:
  assumes "parser_ok p"
  shows "map_prod unread id (parse fq p) = parse_unread fq (unread p)"
proof -
  let ?pos = "skip_bytes leading_space (buffer p) (position p)"
  have d: "drop ?pos (buffer p) = dropWhile leading_space (unread p)"
    by (simp add: skip_bytes_drop unread_def)
  then have nil: "dropWhile leading_space (unread p) = [] \<longleftrightarrow> length (buffer p) \<le> ?pos"
    by (metis drop_eq_Nil)
  have drop_pos: "drop (?pos + n) (buffer p) = drop n (dropWhile leading_space (unread p))" for n
    using d by (metis add.commute drop_drop)
  show ?thesis
  proof (cases "length (buffer p) \<le> position p")
    case True
    then show ?thesis by (simp add: parse_def parse_unread_def unread_def)
  next
    case False
    then show ?thesis
      by (simp add: parse_unfold parse_unread_def Let_def nil [symmetric] d drop_pos
          del: dropWhile_eq_Nil_conv split: result.split option.split)
         (simp add: unread_def [of p])
  qed
qed

section \<open>Draining a connection\<close>

text \<open>
  Every frame read takes at least one byte, which is what ends the loop.
\<close>

lemma length_dropWhile_drop: "0 < c \<Longrightarrow> xs \<noteq> [] \<Longrightarrow> length (dropWhile P (drop c xs)) < length xs"
  by (rule le_less_trans [OF length_dropWhile_le]) (cases xs; simp)

lemma parse_unread_decreases:
  assumes "parse_unread fq bs = (bs', Ok (Some f))"
  shows "length bs' < length bs"
proof -
  let ?d = "dropWhile leading_space bs"
  have "length bs' < length ?d" using assms
    by (auto simp: parse_unread_def Let_def length_dropWhile_drop dest: parse_bounds(1)
        simp del: dropWhile_eq_Nil_conv split: if_splits result.splits option.splits)
  then show ?thesis using length_dropWhile_le [of leading_space bs] by linarith
qed

lemma parse_decreases:
  "parser_ok p \<Longrightarrow> parse fq p = (p', Ok (Some f)) \<Longrightarrow> length (unread p') < length (unread p)"
  using parse_refines_unread [of p fq] parse_unread_decreases [of fq "unread p" "unread p'" f] by simp

text \<open>
  \<^verbatim>\<open>parse\<close> reports only protocol errors, so the loop of \<^verbatim>\<open>process_connection\<close> leaves on every error
  with the connection open.  A parser whose position is past its buffer does not occur: the loop is
  the identity there.
\<close>

function drain_frames ::
  "(string \<Rightarrow> f64 option) \<Rightarrow> resp_parser \<Rightarrow> resp_frame list \<Rightarrow> (resp_parser \<times> resp_frame list) result" where
  "drain_frames fq p frames_to_process =
     (if \<not> parser_ok p then Ok (p, frames_to_process)
      else case parse fq p of
             (p', Ok (Some frame)) \<Rightarrow> drain_frames fq p' (frames_to_process @ [frame])
           | (p', Ok None) \<Rightarrow> Ok (p', frames_to_process)
           | (p', Err e) \<Rightarrow> Ok (p', frames_to_process)
           | (p', Panic) \<Rightarrow> Panic)"
  by pat_completeness auto
termination
  by (relation "measure (\<lambda>(fq, p, fs). length (unread p))") (auto simp: parse_decreases [OF _ sym])

declare drain_frames.simps [simp del]

text \<open>One read of a connection: the bytes are fed, then the parser is drained.\<close>

fun read_chunks ::
  "(string \<Rightarrow> f64 option) \<Rightarrow> resp_parser \<Rightarrow> bytes list \<Rightarrow> (resp_parser \<times> resp_frame list) result" where
  "read_chunks fq p [] = Ok (p, [])"
| "read_chunks fq p (chunk # chunks) =
     (case drain_frames fq (feed chunk p) [] of
        Ok (p', frames) \<Rightarrow>
          (case read_chunks fq p' chunks of
             Ok (p'', frames') \<Rightarrow> Ok (p'', frames @ frames')
           | Err e \<Rightarrow> Err e | Panic \<Rightarrow> Panic)
      | Err e \<Rightarrow> Err e | Panic \<Rightarrow> Panic)"

section \<open>Pipelines\<close>

text \<open>The wire form of a pipeline: the concatenation of the wire forms of its frames.\<close>

inductive pipeline_of :: "(f64 \<Rightarrow> string) \<Rightarrow> (string \<Rightarrow> f64 option) \<Rightarrow> resp_frame list \<Rightarrow> bytes \<Rightarrow> bool"
  for fp fq where
  Nil: "pipeline_of fp fq [] []"
| Cons: "wire_of fp fq f bs \<Longrightarrow> pipeline_of fp fq fs cs \<Longrightarrow> pipeline_of fp fq (f # fs) (bs @ cs)"

inductive_cases pipeline_ConsE: "pipeline_of fp fq (f # fs) bs"
inductive_cases pipeline_NilE: "pipeline_of fp fq [] bs"

abbreviation type_bytes :: bytes where
  "type_bytes \<equiv> ''+-:$*_#,%~''"

lemma type_byte_not_space:
  "b \<in> set type_bytes \<Longrightarrow> \<not> leading_space b \<and> \<not> frame_space b \<and> b \<noteq> CHR ''P''"
  by (auto simp: leading_space_def frame_space_def)

lemma parse_frame_type_byte:
  "parse_frame fq (b # r) = Ok (Some x) \<Longrightarrow> b \<in> set type_bytes"
  by (auto simp: parse_frame.simps split: if_splits)

lemma wire_head: "wire_of fp fq f bs \<Longrightarrow> bs \<noteq> [] \<and> hd bs \<in> set type_bytes"
  unfolding wire_of_def by (cases bs) (auto dest!: spec [of _ "[]"] parse_frame_type_byte)

lemma pipeline_head: "pipeline_of fp fq fs bs \<Longrightarrow> bs = [] \<or> hd bs \<in> set type_bytes"
  by (erule pipeline_of.cases) (use wire_head in auto)

lemma prefix_head:
  assumes "pipeline_of fp fq fs (u @ rest)"
  shows "dropWhile leading_space u = u" "dropWhile frame_space u = u" "take 4 u \<noteq> ''PING''"
proof -
  from pipeline_head [OF assms] have "u = [] \<or> hd u \<in> set type_bytes" by (cases u) auto
  then have "u = [] \<or> \<not> leading_space (hd u) \<and> \<not> frame_space (hd u) \<and> hd u \<noteq> CHR ''P''"
    using type_byte_not_space by blast
  then show "dropWhile leading_space u = u" "dropWhile frame_space u = u" "take 4 u \<noteq> ''PING''"
    by (cases u; auto)+
qed

lemma incomplete_frame:
  assumes w: "wire_of fp fq f bs" and e: "u @ rest = bs @ cs" and l: "length u < length bs"
  shows "parse_frame fq u = Ok None"
proof (rule ccontr)
  assume n: "parse_frame fq u \<noteq> Ok None"
  have "parse_frame fq (u @ rest) = Ok (Some (f, length bs))" using w e by (simp add: wire_of_def)
  with parse_append(1) [OF n, of rest] have "parse_frame fq u = Ok (Some (f, length bs))" by simp
  from parse_bounds(1) [OF this] l show False by simp
qed

lemma parse_unread_pipeline_step:
  assumes "pipeline_of fp fq (f # fs) (u @ rest)"
  shows "(\<exists>u'. parse_unread fq u = (u', Ok (Some f)) \<and> pipeline_of fp fq fs (u' @ rest)) \<or>
         (parse_unread fq u = (u, Ok None) \<and> rest \<noteq> [])"
proof -
  from assms obtain bs cs where w: "wire_of fp fq f bs" and c: "pipeline_of fp fq fs cs"
    and e: "u @ rest = bs @ cs" by (rule pipeline_ConsE) auto
  note head = prefix_head [OF assms]
  show ?thesis
  proof (cases "length bs \<le> length u")
    case True
    then obtain u' where u: "u = bs @ u'" and c': "u' @ rest = cs"
      using e by (auto simp: append_eq_append_conv2)
    then have "pipeline_of fp fq fs (u' @ rest)" using c by simp
    moreover have "u \<noteq> []" "parse_frame fq u = Ok (Some (f, length bs))" using w u by (auto simp: wire_of_def)
    ultimately show ?thesis using head prefix_head(2) [of fp fq fs u' rest] u
      by (auto simp: parse_unread_def Let_def)
  next
    case False
    then have "rest \<noteq> []" using e by (metis append_Nil2 le_add1 length_append)
    then show ?thesis using False head incomplete_frame [OF w e] by (auto simp: parse_unread_def Let_def)
  qed
qed

lemma parse_refined:
  "parser_ok p \<Longrightarrow> parse_unread fq (unread p) = (u, r)
   \<Longrightarrow> \<exists>p'. parse fq p = (p', r) \<and> unread p' = u \<and> parser_ok p'"
  using parse_refines_unread [of p fq] parse_ok [of p fq] by (cases "parse fq p") auto

lemma drain_pipeline:
  "parser_ok p \<Longrightarrow> pipeline_of fp fq fs (unread p @ rest)
   \<Longrightarrow> \<exists>p' ready todo. drain_frames fq p acc = Ok (p', acc @ ready) \<and> fs = ready @ todo \<and> parser_ok p' \<and>
         pipeline_of fp fq todo (unread p' @ rest) \<and> (rest = [] \<longrightarrow> todo = [])"
proof (induction fs arbitrary: p acc)
  case Nil
  then have u: "unread p = []" by (auto elim: pipeline_NilE)
  then obtain p' where "parse fq p = (p', Ok None)" "unread p' = []" "parser_ok p'"
    using parse_refined [OF Nil.prems(1), of fq] by (auto simp: parse_unread_def)
  then show ?case using Nil u by (auto simp: drain_frames.simps [of fq p])
next
  case (Cons f fs)
  from parse_unread_pipeline_step [OF Cons.prems(2)] show ?case
  proof
    assume "\<exists>u'. parse_unread fq (unread p) = (u', Ok (Some f)) \<and> pipeline_of fp fq fs (u' @ rest)"
    then obtain p' where p': "parse fq p = (p', Ok (Some f))" "parser_ok p'"
      "pipeline_of fp fq fs (unread p' @ rest)"
      using parse_refined [OF Cons.prems(1)] by blast
    from Cons.IH [OF p'(2,3), of "acc @ [f]"] obtain p'' ready todo where
      "drain_frames fq p' (acc @ [f]) = Ok (p'', acc @ f # ready)" "fs = ready @ todo" "parser_ok p''"
      "pipeline_of fp fq todo (unread p'' @ rest)" "rest = [] \<longrightarrow> todo = []" by auto
    then show ?case using p' Cons.prems(1)
      by (intro exI [of _ p''] exI [of _ "f # ready"] exI [of _ todo]) (simp add: drain_frames.simps [of fq p])
  next
    assume "parse_unread fq (unread p) = (unread p, Ok None) \<and> rest \<noteq> []"
    then obtain p' where "parse fq p = (p', Ok None)" "unread p' = unread p" "parser_ok p'" "rest \<noteq> []"
      using parse_refined [OF Cons.prems(1)] by blast
    then show ?case using Cons.prems
      by (intro exI [of _ p'] exI [of _ "[]"] exI [of _ "f # fs"]) (simp add: drain_frames.simps [of fq p])
  qed
qed

lemma read_chunks_pipeline:
  "parser_ok p \<Longrightarrow> pipeline_of fp fq fs (unread p @ concat chunks) \<Longrightarrow> chunks \<noteq> []
   \<Longrightarrow> \<exists>p'. read_chunks fq p chunks = Ok (p', fs) \<and> unread p' = []"
proof (induction chunks arbitrary: p fs)
  case (Cons chunk chunks)
  have "pipeline_of fp fq fs (unread (feed chunk p) @ concat chunks)" using Cons.prems by simp
  from drain_pipeline [OF _ this, of "[]"] Cons.prems(1) obtain p' ready todo where
    d: "drain_frames fq (feed chunk p) [] = Ok (p', ready)" "fs = ready @ todo" "parser_ok p'"
    "pipeline_of fp fq todo (unread p' @ concat chunks)" "concat chunks = [] \<longrightarrow> todo = []" by auto
  show ?case
  proof (cases "chunks = []")
    case True
    then show ?thesis using d by (auto elim: pipeline_NilE)
  next
    case False
    from Cons.IH [OF d(3,4) False] d(1,2) show ?thesis by auto
  qed
qed simp

lemma wire_of_serialize: "wire_of fp fq f bs \<Longrightarrow> serialize_to_vec fp f = Ok bs"
  by (simp add: wire_of_def serialize_to_vec_def)

lemma pipeline_exists:
  "frames_ok fp fq fs \<Longrightarrow> map (serialize_to_vec fp) fs = map Ok wires
   \<Longrightarrow> pipeline_of fp fq fs (concat wires)"
proof (induction fs arbitrary: wires)
  case (Cons f fs)
  then obtain w ws where ws: "wires = w # ws" by auto
  from Cons.prems have "frame_ok fp fq f" by simp
  then obtain bs where "wire_of fp fq f bs" using wire_exists(1) by blast
  moreover from this have "bs = w" using Cons.prems ws wire_of_serialize by auto
  ultimately show ?case using Cons ws by (auto intro: pipeline_of.Cons)
qed (simp add: pipeline_of.Nil)

section \<open>Properties of the protocol layer\<close>

text \<open>
  C1: serializing a frame succeeds and the parser reads the frame back from the bytes, whatever
  follows them, consuming exactly the bytes written.  The hypothesis \<open>frame_ok\<close> asks for simple
  texts without CRLF, sizes an allocation can have, doubles whose text reads back, and no
  \<^verbatim>\<open>NoResponse\<close> marker.
\<close>

theorem resp_roundtrip:
  assumes "frame_ok fp fq f"
  shows "\<exists>bs. serialize_to_vec fp f = Ok bs \<and>
    (\<forall>rest. parse_frame fq (bs @ rest) = Ok (Some (f, length bs)))"
  using wire_exists(1) [OF assms] wire_of_serialize by (fastforce simp: wire_of_def)

theorem resp_roundtrip_witness:
  "\<exists>bs. serialize_to_vec (\<lambda>x. ''0'') (Array (Some [BulkString (Some ''GET''), Integer (-7), Null])) = Ok bs \<and>
    (\<forall>rest. parse_frame (\<lambda>s. Some 0) (bs @ rest)
       = Ok (Some (Array (Some [BulkString (Some ''GET''), Integer (-7), Null]), length bs)))"
  by (rule resp_roundtrip) (simp add: capacity_overflow_def)

text \<open>
  C2: however the network cuts the bytes of a pipeline of frames into reads, the connection's parser
  hands over exactly those frames in their order, and no byte is left over.
\<close>

theorem pipeline_delivered:
  assumes "frames_ok fp fq fs" and "map (serialize_to_vec fp) fs = map Ok wires"
    and "concat chunks = concat wires" and "chunks \<noteq> []"
  shows "\<exists>p. read_chunks fq new_parser chunks = Ok (p, fs) \<and> unread p = []"
  using read_chunks_pipeline [of new_parser fp fq fs chunks] pipeline_exists assms by simp

theorem pipeline_delivered_witness:
  "\<exists>p. read_chunks (\<lambda>s. Some 0) new_parser [''+O'', ''K'' @ [CR, LF] @ '':1'', ''2'' @ [CR], [LF]]
     = Ok (p, [SimpleString ''OK'', Integer 12]) \<and> unread p = []"
proof -
  have "map (serialize_to_vec (\<lambda>x. ''0'')) [SimpleString ''OK'', Integer 12]
      = map Ok [''+OK'' @ [CR, LF], '':12'' @ [CR, LF]]" by code_simp
  then show ?thesis
    using pipeline_delivered [of "\<lambda>x. ''0''" "\<lambda>s. Some 0" "[SimpleString ''OK'', Integer 12]"
        "[''+OK'' @ [CR, LF], '':12'' @ [CR, LF]]" "[''+O'', ''K'' @ [CR, LF] @ '':1'', ''2'' @ [CR], [LF]]"]
    by simp
qed

text \<open>
  The parser object with its position, whitespace tolerance, raw \<^verbatim>\<open>PING\<close> and compaction
  implements the step on the unread bytes, and keeps its position inside the buffer.
\<close>

theorem parse_refines:
  assumes "parser_ok p"
  shows "map_prod unread id (parse fq p) = parse_unread fq (unread p) \<and> parser_ok (fst (parse fq p))"
  using assms by (simp add: parse_refines_unread parse_ok)

theorem parse_refines_witness:
  "map_prod unread id (parse (\<lambda>s. None) \<lparr>buffer = ''  PING'' @ [CR, LF], position = 1\<rparr>)
     = parse_unread (\<lambda>s. None) (unread \<lparr>buffer = ''  PING'' @ [CR, LF], position = 1\<rparr>)
   \<and> parser_ok (fst (parse (\<lambda>s. None) \<lparr>buffer = ''  PING'' @ [CR, LF], position = 1\<rparr>))"
  by (rule parse_refines) (simp add: parser_ok_def)

text \<open>
  Once a frame, an error or a panic is the answer for some input, more input never changes it;
  a frame's length is positive and inside the input.
\<close>

theorem parse_frame_incremental:
  "(parse_frame fq d \<noteq> Ok None \<longrightarrow> parse_frame fq (d @ extra) = parse_frame fq d) \<and>
   (\<forall>f n. parse_frame fq d = Ok (Some (f, n)) \<longrightarrow> 0 < n \<and> n \<le> length d)"
  using parse_append(1) parse_bounds(1) by blast

theorem parse_frame_incremental_witness:
  "parse_frame (\<lambda>s. None) ([CHR ''_'', CR, LF] @ ''x'') = Ok (Some (Null, 3)) \<and> (0::nat) < 3"
proof -
  have "parse_frame (\<lambda>s. None) [CHR ''_'', CR, LF] = Ok (Some (Null, 3))"
    by (simp add: parse_frame.simps parse_null_def)
  then show ?thesis using parse_frame_incremental [of "\<lambda>s. None" "[CHR ''_'', CR, LF]" "''x''"] by simp
qed



text \<open>
  A 22-byte array header is enough to make the parser panic, because the element vector is
  allocated for the announced length before any element is seen.
\<close>

theorem array_header_panics:
  "parse_frame fq (CHR ''*'' # nat_to_string 9223372036854775807 @ CR # LF # rest) = Panic"
  by (simp add: parse_frame.simps parse_array.simps header_isize capacity_overflow_def)

end
