(* ===== verification/Args.thy ===== *)
theory Args
  imports Resp
begin

text \<open>
  Reading the arguments of a command: the parts of a request are frames, and every handler takes its
  arguments out of bulk strings.  \<^verbatim>\<open>String::to_uppercase\<close> is modelled on code points; it is only ever
  compared with ASCII words, and the code points listed here are all those whose uppercase mapping is
  ASCII text, so every other one may stand for itself.
\<close>

fun uppercase_point :: "nat \<Rightarrow> nat list" where
  "uppercase_point n =
     (if 97 \<le> n \<and> n \<le> 122 then [n - 32]
      else if n = 0xDF then [83, 83]
      else if n = 0x131 then [73]
      else if n = 0x17F then [83]
      else if n = 0xFB00 then [70, 70]
      else if n = 0xFB01 then [70, 73]
      else if n = 0xFB02 then [70, 76]
      else if n = 0xFB03 then [70, 70, 73]
      else if n = 0xFB04 then [70, 70, 76]
      else if n = 0xFB05 \<or> n = 0xFB06 then [83, 84]
      else [n])"

definition to_uppercase :: "nat list \<Rightarrow> nat list" where
  "to_uppercase ps = concat (map uppercase_point ps)"

definition upper_is :: "bytes \<Rightarrow> string \<Rightarrow> bool" where
  "upper_is arg word \<longleftrightarrow> to_uppercase (from_utf8_lossy arg) = map of_char word"

definition wrong_args :: "string \<Rightarrow> resp_frame" where
  "wrong_args cmd = Error (''ERR wrong number of arguments for '' @ [CHR 0x27] @ cmd @ [CHR 0x27] @ '' command'')"

fun bulk :: "resp_frame \<Rightarrow> bytes option" where
  "bulk (BulkString (Some b)) = Some b"
| "bulk _ = None"

lemma bulk_Some: "bulk f = Some b \<longleftrightarrow> f = BulkString (Some b)"
  by (cases f rule: bulk.cases) auto

lemma upper_is_ascii:
  assumes "is_ascii arg"
  shows "upper_is arg word \<longleftrightarrow> map (\<lambda>c. let n = of_char c :: nat in if 97 \<le> n \<and> n \<le> 122 then n - 32 else n) arg = map of_char word"
proof -
  have "concat (map uppercase_point (map of_char arg)) =
      map (\<lambda>c. let n = of_char c :: nat in if 97 \<le> n \<and> n \<le> 122 then n - 32 else n) arg"
    using assms by (induction arg) (auto simp: is_ascii_def)
  then show ?thesis by (simp add: upper_is_def to_uppercase_def from_utf8_lossy_ascii [OF assms])
qed

end
