(* ===== verification/Aof.thy ===== *)
theory Aof
  imports Resp_Parser Steps Args Disk
begin

text \<open>
  The append-only file (\<^verbatim>\<open>src/storage/aof.rs\<close>): opening the log, appending a command with the policy of
  synchronization, loading, and the background rewrite.  An open log is the file together with the bytes
  still in the \<^verbatim>\<open>BufWriter\<close>; \<open>linked\<close> says whether the path still names that file, and \<open>durable\<close> is its contents
  at the last \<^verbatim>\<open>sync_all\<close>, which is what a crash of the machine leaves.  How the file system answers, and the clock,
  are arguments.
\<close>

section \<open>State\<close>

datatype fsync_policy = Always | EverySecond | No

record aof_config =
  enabled :: bool
  fsync_policy :: fsync_policy
  aof_filename :: string
  aof_dir :: string
  auto_rewrite_percentage :: u64
  auto_rewrite_min_size :: u64

definition default_aof_config :: aof_config where
  "default_aof_config = \<lparr>enabled = False, fsync_policy = EverySecond, aof_filename = ''appendonly.aof'', aof_dir = ''./'',
     auto_rewrite_percentage = 100, auto_rewrite_min_size = 64 * 1024 * 1024\<rparr>"

record log_writer =
  unwritten :: bytes
  log_file :: bytes
  linked :: bool
  durable :: bytes

record aof_engine =
  log_path :: string
  writer :: "log_writer option"
  settings :: aof_config
  last_fsync :: nat
  rewrite_in_progress :: bool

definition new_aof_engine :: "aof_config \<Rightarrow> nat \<Rightarrow> aof_engine" where
  "new_aof_engine c now = \<lparr>log_path = path_push (aof_dir c) (aof_filename c), writer = None, settings = c, last_fsync = now,
     rewrite_in_progress = False\<rparr>"

type_synonym aof_state = "disk \<times> aof_engine"

section \<open>Opening and appending\<close>

definition init :: "string option \<Rightarrow> (aof_state, unit) step" where
  "init open_error s =
     (let (d, a) = s in
      if \<not> enabled (settings a) then (s, Ok ())
      else (case open_error of
              Some msg \<Rightarrow> (s, Err (Io msg))
            | None \<Rightarrow>
                (let bs = (case d (log_path a) of Some bs \<Rightarrow> bs | None \<Rightarrow> [])
                 in ((d(log_path a \<mapsto> bs), a\<lparr>writer := Some \<lparr>unwritten = [], log_file = bs, linked = True, durable = []\<rparr>\<rparr>), Ok ()))))"

text \<open>
  The answers of the system during one append.  A failing write puts \<open>n\<close> of the pending bytes into the file
  and leaves the others in the buffer, or only the first \<open>k\<close> of them: all of them when the final flush fails,
  fewer when the buffer overflows in the middle of the serializer.
\<close>

record append_answers =
  short_write :: "(nat \<times> nat option \<times> string) option"
  sync_error :: "string option"
  elapsed_at :: nat
  synced_at :: nat

definition put_log :: "bytes \<Rightarrow> bytes \<Rightarrow> log_writer \<Rightarrow> aof_state \<Rightarrow> aof_state" where
  "put_log bs left w s =
     (let w = w\<lparr>log_file := log_file w @ bs, unwritten := left\<rparr>; (d, a) = s
      in (if linked w then d(log_path a \<mapsto> log_file w) else d, a\<lparr>writer := Some w\<rparr>))"

definition flush_log :: "append_answers \<Rightarrow> bytes \<Rightarrow> log_writer \<Rightarrow> (aof_state, unit) step" where
  "flush_log ans pending w s =
     (case short_write ans of
        None \<Rightarrow> (put_log pending [] w s, Ok ())
      | Some (n, k, msg) \<Rightarrow> (put_log (take n pending) (case k of Some j \<Rightarrow> take j (drop n pending) | None \<Rightarrow> drop n pending) w s, Err (Io msg)))"

definition sync_all :: "append_answers \<Rightarrow> (aof_state, unit) step" where
  "sync_all ans s =
     (case sync_error ans of
        Some msg \<Rightarrow> (s, Err (Io msg))
      | None \<Rightarrow> ((fst s, (snd s)\<lparr>writer := map_option (\<lambda>w. w\<lparr>durable := log_file w\<rparr>) (writer (snd s))\<rparr>), Ok ()))"

definition ONE_SECOND :: nat where "ONE_SECOND = 10 ^ 9"

definition apply_policy :: "append_answers \<Rightarrow> (aof_state, unit) step" where
  "apply_policy ans s =
     (case fsync_policy (settings (snd s)) of
        Always \<Rightarrow> sync_all ans s
      | EverySecond \<Rightarrow>
          (if elapsed_at ans - last_fsync (snd s) \<ge> ONE_SECOND
           then and_then (sync_all ans s) (\<lambda>(d, a) _. ((d, a\<lparr>last_fsync := synced_at ans\<rparr>), Ok ()))
           else (s, Ok ()))
      | No \<Rightarrow> (s, Ok ()))"

definition aof_append :: "(f64 \<Rightarrow> string) \<Rightarrow> append_answers \<Rightarrow> resp_frame list \<Rightarrow> (aof_state, unit) step" where
  "aof_append fp ans command s =
     (if \<not> enabled (settings (snd s)) then (s, Ok ())
      else (case writer (snd s) of
              None \<Rightarrow> (s, Ok ())
            | Some w \<Rightarrow>
                (case serialize_resp_frame fp (Array (Some command)) (unwritten w) of
                   (pending, Ok _) \<Rightarrow> and_then (flush_log ans pending w s) (\<lambda>s _. apply_policy ans s)
                 | (pending, Err e) \<Rightarrow> ((fst s, (snd s)\<lparr>writer := Some (w\<lparr>unwritten := pending\<rparr>)\<rparr>), Err e)
                 | (pending, Panic) \<Rightarrow> (s, Panic))))"

section \<open>Loading\<close>

text \<open>\<^verbatim>\<open>BufRead::lines\<close>: each line without its line feed and one carriage return before it.\<close>

definition strip_cr :: "bytes \<Rightarrow> bytes" where
  "strip_cr l = (if l \<noteq> [] \<and> last l = CR then butlast l else l)"

function split_lines :: "bytes \<Rightarrow> bytes list" where
  "split_lines bs =
     (if bs = [] then []
      else (case dropWhile (\<lambda>c. c \<noteq> LF) bs of
              [] \<Rightarrow> [bs]
            | _ # r \<Rightarrow> strip_cr (takeWhile (\<lambda>c. c \<noteq> LF) bs) # split_lines r))"
  by pat_completeness auto
termination
proof (relation "measure length")
  fix bs r :: bytes and x assume "dropWhile (\<lambda>c. c \<noteq> LF) bs = x # r"
  then show "(r, bs) \<in> measure length" using length_dropWhile_le [of "\<lambda>c. c \<noteq> LF" bs] by simp
qed simp

declare split_lines.simps [simp del]

definition replayed_commands :: "string list" where
  "replayed_commands = [''SET'', ''DEL'', ''EXPIRE'', ''LPUSH'', ''RPUSH'', ''SADD'', ''ZADD'', ''HSET'']"

text \<open>The replay of a command: every branch of the code does nothing.\<close>

definition replay_command :: "resp_frame list \<Rightarrow> ('e, unit) step" where
  "replay_command parts e =
     (case bulk (hd parts) of
        Some b \<Rightarrow> (if list_ex (upper_is b) replayed_commands then (e, Ok ()) else (e, Ok ()))
      | None \<Rightarrow> (e, Ok ()))"

text \<open>
  The loop around the parser; the state is the parser and the store.  A parser whose position is past its
  buffer does not occur.
\<close>

function replay_parsed :: "(string \<Rightarrow> f64 option) \<Rightarrow> (resp_parser \<times> 'e, unit) step" where
  "replay_parsed fq s =
     (if \<not> parser_ok (fst s) then (s, Ok ())
      else (case parse fq (fst s) of
              (p, Ok (Some (Array (Some (c # cs))))) \<Rightarrow>
                (case replay_command (c # cs) (snd s) of
                   (e, Ok _) \<Rightarrow> replay_parsed fq (p, e) | (e, Err x) \<Rightarrow> ((p, e), Err x) | (e, Panic) \<Rightarrow> ((p, e), Panic))
            | (p, Ok (Some _)) \<Rightarrow> replay_parsed fq (p, snd s)
            | (p, Ok None) \<Rightarrow> ((p, snd s), Ok ())
            | (p, Err x) \<Rightarrow> ((p, snd s), Err x)
            | (p, Panic) \<Rightarrow> ((p, snd s), Panic)))"
  by pat_completeness auto
termination
  by (relation "measure (\<lambda>(fq, s). length (unread (fst s)))") (auto simp: parse_decreases [OF _ sym])

declare replay_parsed.simps [simp del]

fun replay_lines :: "(string \<Rightarrow> f64 option) \<Rightarrow> bytes list \<Rightarrow> (resp_parser \<times> 'e, unit) step" where
  "replay_lines fq [] s = (s, Ok ())"
| "replay_lines fq (line # lines) s =
     (if \<not> utf8_valid line then (s, Err (Io ''stream did not contain valid UTF-8''))
      else and_then (replay_parsed fq (feed [LF] (feed line (fst s)), snd s)) (\<lambda>s _. replay_lines fq lines s))"

definition load_log :: "(string \<Rightarrow> f64 option) \<Rightarrow> disk \<Rightarrow> aof_engine \<Rightarrow> ('e, unit) step" where
  "load_log fq d a e =
     (case d (log_path a) of
        None \<Rightarrow> (e, Ok ())
      | Some bs \<Rightarrow> (let (s, r) = replay_lines fq (split_lines bs) (new_parser, e) in (snd s, r)))"

section \<open>Rewriting\<close>

definition bgrewrite :: "aof_engine \<Rightarrow> aof_engine \<times> unit result" where
  "bgrewrite a =
     (if rewrite_in_progress a then (a, Err (Internal ''Background AOF rewrite already in progress''))
      else (a\<lparr>rewrite_in_progress := True\<rparr>, Ok ()))"

text \<open>The rename of the temporary file, which no code writes; the writer stays on the file that had the name before.\<close>

definition do_rewrite :: "string \<Rightarrow> (aof_state, unit) step" where
  "do_rewrite missing s =
     (let (d, a) = s; temp_path = with_extension (log_path a) ''aof.rewrite''
      in case d temp_path of
           None \<Rightarrow> (s, Err (Io missing))
         | Some bs \<Rightarrow> ((d(temp_path := None, log_path a \<mapsto> bs), a\<lparr>writer := map_option (\<lambda>w. w\<lparr>linked := False\<rparr>) (writer a)\<rparr>), Ok ()))"

definition rewrite_thread :: "string \<Rightarrow> aof_state \<Rightarrow> aof_state" where
  "rewrite_thread missing s = (let (d, a) = fst (do_rewrite missing s) in (d, a\<lparr>rewrite_in_progress := False\<rparr>))"

end
