(* ===== verification/Backlog.thy ===== *)
theory Backlog
  imports Resp
begin

text \<open>
  The replication backlog (\<^verbatim>\<open>src/replication/backlog.rs\<close>): a bounded window on the bytes of all propagated
  commands, addressed by their position in the whole stream.  A serialized command enters byte by
  byte; \<open>f64_to_string\<close> of the serializer is the parameter \<open>fp\<close>.
\<close>

section \<open>State and operations\<close>

record replication_backlog =
  max_size :: nat
  buffer :: bytes
  start_offset :: u64
  current_size :: nat

definition new_backlog :: "nat \<Rightarrow> replication_backlog" where
  "new_backlog n = \<lparr>max_size = n, buffer = [], start_offset = 0, current_size = 0\<rparr>"

definition push_byte :: "char \<Rightarrow> replication_backlog \<Rightarrow> replication_backlog" where
  "push_byte c b =
     (let b = (if current_size b \<ge> max_size b
               then (case buffer b of
                       [] \<Rightarrow> b
                     | _ # r \<Rightarrow> b\<lparr>buffer := r, start_offset := start_offset b + 1\<rparr>)
               else b\<lparr>current_size := current_size b + 1\<rparr>)
      in b\<lparr>buffer := buffer b @ [c]\<rparr>)"

definition append_command :: "(f64 \<Rightarrow> string) \<Rightarrow> resp_frame \<Rightarrow> replication_backlog \<Rightarrow> replication_backlog \<times> unit result" where
  "append_command fp cmd b =
     (case serialize_resp_frame fp cmd [] of
        (serialized, Ok _) \<Rightarrow> (fold push_byte serialized b, Ok ())
      | (_, Err e) \<Rightarrow> (b, Err e)
      | (_, Panic) \<Rightarrow> (b, Panic))"

definition end_offset :: "replication_backlog \<Rightarrow> u64" where
  "end_offset b = start_offset b + of_nat (current_size b)"

definition get_data_from_offset :: "u64 \<Rightarrow> replication_backlog \<Rightarrow> bytes result" where
  "get_data_from_offset offset b =
     (if offset < start_offset b \<or> offset \<ge> end_offset b
      then Err (Command (Generic ''offset out of range''))
      else Ok (drop (unat (offset - start_offset b)) (buffer b)))"

definition clear_backlog :: "replication_backlog \<Rightarrow> replication_backlog" where
  "clear_backlog b = b\<lparr>buffer := [], current_size := 0\<rparr>"

definition backlog_size :: "replication_backlog \<Rightarrow> nat" where
  "backlog_size b = current_size b"

section \<open>The window on the history\<close>

text \<open>
  \<open>window h b\<close>: the backlog holds the last \<open>max_size\<close> bytes of the history \<open>h\<close>, and its offsets are the
  positions of these bytes in \<open>h\<close>.
\<close>

definition window :: "bytes \<Rightarrow> replication_backlog \<Rightarrow> bool" where
  "window h b \<longleftrightarrow> 0 < max_size b \<and> buffer b = drop (length h - max_size b) h \<and>
     current_size b = length (buffer b) \<and> start_offset b = of_nat (length h - max_size b)"

lemma window_new: "0 < n \<Longrightarrow> window [] (new_backlog n)"
  by (simp add: window_def new_backlog_def)

lemma window_push: "window h b \<Longrightarrow> window (h @ [c]) (push_byte c b)"
proof (cases "length h \<ge> max_size b")
  case True
  assume w: "window h b"
  with True have n: "length h - max_size b < length h" "current_size b = max_size b" by (auto simp: window_def)
  have "buffer b = drop (length h - max_size b) h" using w unfolding window_def by blast
  also have "\<dots> = h ! (length h - max_size b) # drop (Suc (length h - max_size b)) h"
    by (rule Cons_nth_drop_Suc [OF n(1), symmetric])
  finally have "push_byte c b = b\<lparr>buffer := drop (Suc (length h - max_size b)) h @ [c], start_offset := start_offset b + 1\<rparr>"
    using n(2) by (simp add: push_byte_def Let_def)
  moreover have "0 < max_size b" "start_offset b = of_nat (length h - max_size b)" using w unfolding window_def by blast+
  moreover have "Suc (length h) - max_size b = Suc (length h - max_size b)" using True by simp
  ultimately show ?thesis using n True by (simp add: window_def)
next
  case False
  assume "window h b"
  with False show ?thesis by (auto simp: push_byte_def window_def Let_def)
qed

lemma window_pushes: "window h b \<Longrightarrow> window (h @ cs) (fold push_byte cs b)"
  by (induction cs arbitrary: h b) (use window_push in fastforce)+

lemma window_append:
  assumes "window h b" "append_command fp cmd b = (b', Ok ())"
  obtains bs where "serialize_to_vec fp cmd = Ok bs" "window (h @ bs) b'" "max_size b' = max_size b"
proof -
  have m: "max_size (fold push_byte cs b) = max_size b" for cs
    by (induction cs arbitrary: b) (simp_all add: push_byte_def Let_def split: list.split)
  show ?thesis
    using assms window_pushes [OF assms(1)] m that
    by (auto simp: append_command_def serialize_to_vec_def split: prod.splits result.splits)
qed

lemma window_read:
  assumes "window h b" "length h < 2 ^ 64"
  shows "get_data_from_offset off b =
    (if length h - max_size b \<le> unat off \<and> unat off < length h then Ok (drop (unat off) h)
     else Err (Command (Generic ''offset out of range'')))"
proof -
  let ?s = "length h - max_size b"
  have "end_offset b = of_nat ?s + of_nat (length h - ?s)" using assms(1) by (simp add: end_offset_def window_def)
  also have "\<dots> = of_nat (length h)" by (simp flip: of_nat_add)
  finally have e: "end_offset b = of_nat (length h)" .
  have s: "start_offset b = of_nat ?s" using assms(1) by (simp add: window_def)
  have u: "unat (of_nat ?s :: u64) = ?s" "unat (of_nat (length h) :: u64) = length h"
    using assms(2) by (simp_all add: unat_of_nat take_bit_nat_eq_self)
  have r: "off < start_offset b \<longleftrightarrow> unat off < ?s" "off \<ge> end_offset b \<longleftrightarrow> length h \<le> unat off"
    using u by (simp_all add: e s word_less_nat_alt word_le_nat_alt)
  have "unat (off - start_offset b) = unat off - ?s" if "?s \<le> unat off"
    using that u by (simp add: s unat_sub word_le_nat_alt)
  then show ?thesis using assms(1) r by (auto simp: get_data_from_offset_def window_def)
qed

lemma fold_append_commands:
  "window h b \<Longrightarrow> map (serialize_to_vec fp) cmds = map Ok wires \<Longrightarrow>
     window (h @ concat wires) (fold (\<lambda>c b. fst (append_command fp c b)) cmds b) \<and>
     max_size (fold (\<lambda>c b. fst (append_command fp c b)) cmds b) = max_size b"
proof (induction cmds arbitrary: h b wires)
  case (Cons c cmds)
  from Cons.prems(2) obtain w ws where w: "wires = w # ws" "serialize_to_vec fp c = Ok w" "map (serialize_to_vec fp) cmds = map Ok ws"
    by (cases wires) auto
  then obtain b' where b': "append_command fp c b = (b', Ok ())"
    by (auto simp: append_command_def serialize_to_vec_def split: prod.splits result.splits)
  from window_append [OF Cons.prems(1) this] w(2) have "window (h @ w) b'" "max_size b' = max_size b" by auto
  then show ?case using Cons.IH [of "h @ w" b' ws] w b' by simp
qed simp

section \<open>Properties\<close>

text \<open>
  C34: after any sequence of commands the backlog answers from the whole stream of their bytes: an
  offset within the last \<open>max_size\<close> bytes gets exactly the stream from there on, every other offset is
  an error, and the buffer never holds more than \<open>max_size\<close> bytes.
\<close>

theorem backlog_exact:
  assumes "0 < n" "map (serialize_to_vec fp) cmds = map Ok wires" "history = concat wires" "length history < 2 ^ 64"
    "b = fold (\<lambda>c b. fst (append_command fp c b)) cmds (new_backlog n)"
  shows "get_data_from_offset off b =
      (if length history - n \<le> unat off \<and> unat off < length history then Ok (drop (unat off) history)
       else Err (Command (Generic ''offset out of range''))) \<and>
    backlog_size b = min n (length history) \<and> length (buffer b) \<le> n"
proof -
  have w: "window history b" "max_size b = n"
    using fold_append_commands [OF window_new [OF assms(1)] assms(2)] assms(3,5) by (simp_all add: new_backlog_def)
  then show ?thesis using window_read [OF w(1) assms(4)] by (auto simp: backlog_size_def window_def)
qed

theorem backlog_exact_witness:
  "get_data_from_offset 5 (fold (\<lambda>c b. fst (append_command (\<lambda>x. ''0'') c b)) [SimpleString ''OK'', SimpleString ''PONG''] (new_backlog 8))
     = Ok (''+PONG'' @ [CR, LF])"
proof -
  have "map (serialize_to_vec (\<lambda>x. ''0'')) [SimpleString ''OK'', SimpleString ''PONG''] = map Ok [''+OK'' @ [CR, LF], ''+PONG'' @ [CR, LF]]"
    by (simp add: serialize_to_vec_def)
  from backlog_exact [OF _ this refl _ refl, of 8 5] show ?thesis by simp
qed

text \<open>
  Clearing empties the buffer but keeps the start offset, so the positions of all later bytes are
  too small by the number of bytes that were dropped.
\<close>

lemma clear_keeps_offset:
  "window h b \<Longrightarrow> end_offset (clear_backlog b) = start_offset b"
  by (simp add: clear_backlog_def end_offset_def)

text \<open>With a maximal size of 0 every offset is out of range.\<close>

lemma zero_backlog_empty: "get_data_from_offset off (fold push_byte cs (new_backlog 0)) = Err (Command (Generic ''offset out of range''))"
proof -
  have "current_size (fold push_byte cs b) = 0" if "max_size b = 0" "current_size b = 0" for b
    using that by (induction cs arbitrary: b) (simp_all add: push_byte_def Let_def split: list.split)
  then show ?thesis by (auto simp: get_data_from_offset_def end_offset_def new_backlog_def linorder_not_less)
qed

end
