(* ===== verification/Conn.thy ===== *)
theory Conn
  imports Resp_Parser "HOL-Library.Sublist"
begin

text \<open>
  A client connection (\<^verbatim>\<open>src/network/connection.rs\<close>) with the transaction state it carries
  (\<^verbatim>\<open>TransactionState\<close> of \<^verbatim>\<open>src/storage/commands/transactions.rs\<close>).  The socket is environment: \<open>wire\<close> is what
  it has accepted so far and \<open>answers\<close> says how it answers the write calls to come (a socket with no
  further answer would block).  A write accepts at most the bytes it is given, which is what
  \<^verbatim>\<open>Write::write\<close> documents.
\<close>

section \<open>State\<close>

datatype blocking_op = BLPop | BRPop | XReadBlock "(nat \<times> bytes \<times> string) list"

record blocked_state =
  blocked_keys_of :: "(nat \<times> bytes) list"
  blocked_deadline :: "nat option"
  blocked_op :: blocking_op

datatype connection_state = Connected | Authenticated | Blocked blocked_state | Closing

record transaction_state =
  in_transaction :: bool
  queued_commands :: "resp_frame list list"
  watched_keys :: "(bytes \<times> u64) list"
  aborted :: bool

definition no_transaction :: transaction_state where
  "no_transaction = \<lparr>in_transaction = False, queued_commands = [], watched_keys = [], aborted = False\<rparr>"

datatype io_kind = BrokenPipe | ConnectionReset | ConnectionAborted | Other_Kind

datatype write_answer = Wrote nat | Write_Would_Block | Interrupted | Failed io_kind string

record connection =
  ident :: u64
  addr :: "string \<times> nat"
  state :: connection_state
  parser :: resp_parser
  write_buffer :: bytes
  write_offset :: nat
  last_activity :: nat
  created_at :: nat
  db_index :: nat
  transaction :: transaction_state
  is_monitoring :: bool
  client_name :: "string option"
  wire :: bytes
  answers :: "write_answer list"

definition new_connection :: "u64 \<Rightarrow> string \<times> nat \<Rightarrow> nat \<Rightarrow> write_answer list \<Rightarrow> connection" where
  "new_connection i a now ws =
     \<lparr>ident = i, addr = a, state = Connected, parser = new_parser, write_buffer = [], write_offset = 0,
      last_activity = now, created_at = now, db_index = 0, transaction = no_transaction, is_monitoring = False,
      client_name = None, wire = [], answers = ws\<rparr>"

section \<open>Operations\<close>

text \<open>One read of the socket: its three outcomes are closing, data and nothing yet.\<close>

datatype read_answer = Read_Data bytes | Read_Would_Block | Read_Failed string

fun read_conn :: "read_answer \<Rightarrow> nat \<Rightarrow> connection \<Rightarrow> connection \<times> bool result" where
  "read_conn (Read_Data []) now c =
     (c\<lparr>state := Closing\<rparr>, Err (Connection ''Connection closed by peer''))"
| "read_conn (Read_Data (b # bs)) now c = (c\<lparr>last_activity := now, parser := feed (b # bs) (parser c)\<rparr>, Ok True)"
| "read_conn Read_Would_Block now c = (c, Ok False)"
| "read_conn (Read_Failed e) now c = (c, Err (Io e))"

definition send_frame :: "(f64 \<Rightarrow> string) \<Rightarrow> resp_frame \<Rightarrow> connection \<Rightarrow> connection \<times> unit result" where
  "send_frame fp f c = (case serialize_resp_frame fp f (write_buffer c) of (w, r) \<Rightarrow> (c\<lparr>write_buffer := w\<rparr>, r))"

definition send_raw :: "bytes \<Rightarrow> connection \<Rightarrow> connection" where
  "send_raw data c = c\<lparr>write_buffer := write_buffer c @ data\<rparr>"

definition MAX_ATTEMPTS :: nat where "MAX_ATTEMPTS = 5"

definition fatal :: "io_kind \<Rightarrow> bool" where
  "fatal k \<longleftrightarrow> k \<in> {BrokenPipe, ConnectionReset, ConnectionAborted}"

definition clear_if_written :: "connection \<Rightarrow> connection" where
  "clear_if_written c = (if write_offset c \<ge> length (write_buffer c) then c\<lparr>write_buffer := [], write_offset := 0\<rparr> else c)"

definition unsent :: "connection \<Rightarrow> bytes" where
  "unsent c = drop (write_offset c) (write_buffer c)"

definition next_answer :: "connection \<Rightarrow> write_answer" where
  "next_answer c = (case answers c of [] \<Rightarrow> Write_Would_Block | a # _ \<Rightarrow> a)"

definition answered :: "connection \<Rightarrow> connection" where
  "answered c = c\<lparr>answers := tl (answers c)\<rparr>"

definition accept :: "nat \<Rightarrow> nat \<Rightarrow> connection \<Rightarrow> connection" where
  "accept now n c = c\<lparr>write_offset := write_offset c + n, last_activity := now, wire := wire c @ take n (unsent c)\<rparr>"

function flush_loop :: "nat \<Rightarrow> nat \<Rightarrow> connection \<Rightarrow> connection \<times> unit result" where
  "flush_loop now attempts c =
     (if write_offset c < length (write_buffer c) \<and> attempts < MAX_ATTEMPTS then
        (case next_answer c of
           Wrote n \<Rightarrow>
             (let n = min n (length (unsent c)) in
              if n = 0 then (answered c, Err (Connection ''Cannot write to connection''))
              else flush_loop now attempts (accept now n (answered c)))
         | Write_Would_Block \<Rightarrow>
             (if Suc attempts < MAX_ATTEMPTS then flush_loop now (Suc attempts) (answered c)
              else (answered c, Err (Connection ''Write would block after max attempts'')))
         | Interrupted \<Rightarrow> flush_loop now (Suc attempts) (answered c)
         | Failed k e \<Rightarrow>
             (if \<not> fatal k \<and> Suc attempts < MAX_ATTEMPTS then flush_loop now (Suc attempts) (answered c)
              else (answered c, Err (Io e))))
      else (clear_if_written c, Ok ()))"
  by pat_completeness auto
termination
  by (relation "measure (\<lambda>(now, attempts, c). length (write_buffer c) - write_offset c + (MAX_ATTEMPTS - attempts))")
     (auto simp: answered_def accept_def unsent_def Let_def)

declare flush_loop.simps [simp del]

definition flush :: "nat \<Rightarrow> connection \<Rightarrow> connection \<times> unit result" where
  "flush now c =
     (if write_offset c \<ge> length (write_buffer c) then (c\<lparr>write_buffer := [], write_offset := 0\<rparr>, Ok ())
      else flush_loop now 0 c)"

definition has_pending_writes :: "connection \<Rightarrow> bool" where
  "has_pending_writes c \<longleftrightarrow> write_offset c < length (write_buffer c)"

text \<open>\<open>shut\<close> is the answer of the socket to \<^verbatim>\<open>shutdown\<close>.\<close>

definition close_conn :: "nat \<Rightarrow> string option \<Rightarrow> connection \<Rightarrow> connection \<times> unit result" where
  "close_conn now shut c =
     (fst (flush now (c\<lparr>state := Closing\<rparr>)), case shut of None \<Rightarrow> Ok () | Some e \<Rightarrow> Err (Io e))"

definition is_closing :: "connection \<Rightarrow> bool" where
  "is_closing c \<longleftrightarrow> (case state c of Closing \<Rightarrow> True | _ \<Rightarrow> False)"

section \<open>What reaches the wire\<close>

text \<open>
  \<open>queued c\<close>: everything ever handed to the connection, written or not.  Sending appends to it, and
  flushing, closing and reading leave it as it is.
\<close>

definition queued :: "connection \<Rightarrow> bytes" where
  "queued c = wire c @ unsent c"

definition conn_ok :: "connection \<Rightarrow> bool" where
  "conn_ok c \<longleftrightarrow> write_offset c \<le> length (write_buffer c)"

lemma new_connection_ok [simp]: "conn_ok (new_connection i a now ws)" "queued (new_connection i a now ws) = []"
  by (simp_all add: conn_ok_def queued_def new_connection_def unsent_def)

lemma serialize_appends:
  "serialize_resp_frame fp f (u @ w) = apfst (\<lambda>bs. u @ bs) (serialize_resp_frame fp f w)"
  "serialize_frames fp fs (u @ w) = apfst (\<lambda>bs. u @ bs) (serialize_frames fp fs w)"
  "serialize_pairs fp ps (u @ w) = apfst (\<lambda>bs. u @ bs) (serialize_pairs fp ps w)"
  by (induction fp f w and fp fs w and fp ps w rule: serialize_resp_frame_serialize_frames_serialize_pairs.induct)
     ((auto split: prod.splits result.splits; blast)+)

lemma send_frame_queues:
  assumes "conn_ok c" "send_frame fp f c = (c', r)"
  shows "conn_ok c'" "queued c' = queued c @ fst (serialize_resp_frame fp f [])" "r = snd (serialize_resp_frame fp f [])" "wire c' = wire c"
  using assms serialize_appends(1) [of fp f "write_buffer c" "[]"]
  by (cases "serialize_resp_frame fp f []"; auto simp: send_frame_def conn_ok_def queued_def unsent_def)+

lemma send_raw_queues: "conn_ok c \<Longrightarrow> conn_ok (send_raw d c) \<and> queued (send_raw d c) = queued c @ d"
  by (simp add: send_raw_def conn_ok_def queued_def unsent_def)

lemma clear_if_written_keeps:
  "conn_ok c \<Longrightarrow> conn_ok (clear_if_written c) \<and> queued (clear_if_written c) = queued c \<and> wire (clear_if_written c) = wire c \<and>
     (has_pending_writes (clear_if_written c) \<longleftrightarrow> has_pending_writes c)"
  by (simp add: clear_if_written_def conn_ok_def queued_def unsent_def has_pending_writes_def)

lemma answered_keeps [simp]:
  "conn_ok (answered c) = conn_ok c" "queued (answered c) = queued c" "wire (answered c) = wire c" "unsent (answered c) = unsent c"
  by (simp_all add: answered_def conn_ok_def queued_def unsent_def)

lemma accept_keeps:
  "n \<le> length (unsent c) \<Longrightarrow> 0 < n \<Longrightarrow> conn_ok (accept now n c) \<and> queued (accept now n c) = queued c \<and> prefix (wire c) (wire (accept now n c))"
  by (simp add: accept_def conn_ok_def queued_def unsent_def add.commute flip: drop_drop)

lemma flush_loop_keeps:
  "conn_ok c \<Longrightarrow> flush_loop now attempts c = (c', r) \<Longrightarrow> conn_ok c' \<and> queued c' = queued c \<and> prefix (wire c) (wire c')"
proof (induction now attempts c arbitrary: c' r rule: flush_loop.induct)
  case (1 now attempts c)
  show ?case
  proof (cases "write_offset c < length (write_buffer c) \<and> attempts < MAX_ATTEMPTS")
    case False
    then show ?thesis using "1.prems" clear_if_written_keeps [of c] by (auto simp: flush_loop.simps [of now attempts c])
  next
    case True
    note step = flush_loop.simps [of now attempts c] True
    show ?thesis
    proof (cases "next_answer c")
      case (Wrote n)
      let ?n = "min n (length (unsent c))" and ?c = "accept now (min n (length (unsent c))) (answered c)"
      show ?thesis
      proof (cases "?n = 0")
        case False
        then have a: "conn_ok ?c \<and> queued ?c = queued c \<and> prefix (wire c) (wire ?c)" using accept_keeps [of ?n "answered c" now] by simp
        have "flush_loop now attempts ?c = (c', r)" using "1.prems"(2) False Wrote by (simp add: step Let_def)
        from "1.IH"(1) [OF True Wrote refl False _ this] a show ?thesis by auto
      qed (use "1.prems" Wrote in \<open>auto simp: step Let_def\<close>)
    qed (use "1.prems" "1.IH"(2-4) True in \<open>auto simp: step split: if_splits\<close>)
  qed
qed

lemma flush_keeps:
  assumes "conn_ok c" "flush now c = (c', r)"
  shows "conn_ok c' \<and> queued c' = queued c \<and> prefix (wire c) (wire c')"
proof (cases "write_offset c \<ge> length (write_buffer c)")
  case True
  then show ?thesis using assms by (auto simp: flush_def conn_ok_def queued_def unsent_def)
next
  case False
  then show ?thesis using assms flush_loop_keeps by (auto simp: flush_def)
qed

lemma flush_drains:
  assumes "conn_ok c" "answers c = map Wrote ns" "list_all (\<lambda>n. 0 < n) ns" "length (unsent c) \<le> sum_list ns"
  shows "attempts < MAX_ATTEMPTS \<Longrightarrow> flush_loop now attempts c = (c', r) \<Longrightarrow> r = Ok () \<and> unsent c' = []"
  using assms
proof (induction ns arbitrary: c)
  case Nil
  then show ?case by (auto simp: flush_loop.simps [of now attempts c] clear_if_written_def unsent_def)
next
  case (Cons n ns)
  show ?case
  proof (cases "unsent c = []")
    case True
    then show ?thesis using Cons.prems by (auto simp: flush_loop.simps [of now attempts c] clear_if_written_def unsent_def)
  next
    case False
    let ?n = "min n (length (unsent c))"
    have n: "0 < ?n" "write_offset c < length (write_buffer c)" using False Cons.prems by (auto simp: unsent_def)
    have "flush_loop now attempts (accept now ?n (answered c)) = (c', r)"
      using Cons.prems n by (simp add: flush_loop.simps [of now attempts c] next_answer_def Let_def)
    then show ?thesis
      using Cons.IH [of "accept now ?n (answered c)"] Cons.prems n accept_keeps [of ?n "answered c" now]
      by (auto simp: accept_def answered_def unsent_def)
  qed
qed

lemma flush_stalls:
  "answers c = [] \<Longrightarrow> has_pending_writes c \<Longrightarrow> attempts < MAX_ATTEMPTS \<Longrightarrow>
     flush_loop now attempts c = (c, Err (Connection ''Write would block after max attempts''))"
proof (induction "MAX_ATTEMPTS - attempts" arbitrary: attempts)
  case (Suc k)
  have "answered c = c" using Suc.prems(1) by (simp add: answered_def)
  then show ?case using Suc by (simp add: flush_loop.simps [of now attempts c] next_answer_def has_pending_writes_def)
qed simp

section \<open>Properties\<close>

datatype conn_call = Send resp_frame | Raw bytes | Flush nat

fun conn_step :: "(f64 \<Rightarrow> string) \<Rightarrow> conn_call \<Rightarrow> connection \<Rightarrow> connection" where
  "conn_step fp (Send f) c = fst (send_frame fp f c)"
| "conn_step fp (Raw d) c = send_raw d c"
| "conn_step fp (Flush now) c = fst (flush now c)"

fun bytes_of :: "(f64 \<Rightarrow> string) \<Rightarrow> conn_call \<Rightarrow> bytes" where
  "bytes_of fp (Send f) = fst (serialize_resp_frame fp f [])"
| "bytes_of fp (Raw d) = d"
| "bytes_of fp (Flush now) = []"

lemma conn_step_keeps:
  "conn_ok c \<Longrightarrow> conn_ok (conn_step fp call c) \<and> queued (conn_step fp call c) = queued c @ bytes_of fp call \<and>
     prefix (wire c) (wire (conn_step fp call c))"
proof (cases call)
  case (Send f)
  assume "conn_ok c"
  then show ?thesis using Send send_frame_queues [of c fp f] by (metis bytes_of.simps(1) conn_step.simps(1) prefix_order.refl prod.collapse)
next
  case (Raw d)
  assume "conn_ok c"
  then show ?thesis using Raw send_raw_queues by (simp add: send_raw_def)
next
  case (Flush now)
  assume "conn_ok c"
  then show ?thesis using Flush flush_keeps [of c now "fst (flush now c)" "snd (flush now c)"] by simp
qed

lemma conn_steps_keep:
  "conn_ok c \<Longrightarrow> conn_ok (fold (conn_step fp) calls c) \<and>
     queued (fold (conn_step fp) calls c) = queued c @ concat (map (bytes_of fp) calls)"
  by (induction calls arbitrary: c) (simp_all add: conn_step_keeps)

text \<open>
  C18: whatever the socket answers, and however replies and flushes interleave, the bytes on the wire
  are a prefix of the replies in the order they were sent; when nothing is pending they are all of
  them.  Nothing is lost, repeated or reordered by partial writes.
\<close>

theorem replies_in_order:
  assumes "c = fold (conn_step fp) calls (new_connection i a now ws)"
  shows "prefix (wire c) (concat (map (bytes_of fp) calls)) \<and>
    wire c @ unsent c = concat (map (bytes_of fp) calls) \<and>
    (\<not> has_pending_writes c \<longrightarrow> wire c = concat (map (bytes_of fp) calls))"
proof -
  have "wire c @ unsent c = concat (map (bytes_of fp) calls)"
    using conn_steps_keep [of "new_connection i a now ws" fp calls] assms by (simp flip: queued_def)
  then show ?thesis by (metis prefixI has_pending_writes_def unsent_def append_Nil2 drop_all linorder_not_less)
qed

theorem replies_in_order_witness:
  "\<exists>c. c = fold (conn_step (\<lambda>x. ''0'')) [Send resp_ok, Flush 1, Send (Integer 7), Flush 2] (new_connection 1 (''h'', 1) 0 [Wrote 2, Interrupted, Wrote 9, Wrote 9]) \<and>
     wire c = ''+OK'' @ [CR, LF] @ '':7'' @ [CR, LF]"
proof -
  let ?calls = "[Send resp_ok, Flush 1, Send (Integer 7), Flush 2]"
  let ?c = "fold (conn_step (\<lambda>x. ''0'')) ?calls (new_connection 1 (''h'', 1) 0 [Wrote 2, Interrupted, Wrote 9, Wrote 9])"
  have "\<not> has_pending_writes ?c" by code_simp
  moreover have "concat (map (bytes_of (\<lambda>x. ''0'')) ?calls) = ''+OK'' @ [CR, LF] @ '':7'' @ [CR, LF]" by code_simp
  ultimately show ?thesis using replies_in_order [OF refl, of "\<lambda>x. ''0''" ?calls 1 "(''h'', 1)" 0 "[Wrote 2, Interrupted, Wrote 9, Wrote 9]"] by auto
qed

text \<open>
  A flush always ends.  On a socket that keeps accepting bytes it empties the buffer; a socket that
  is not ready makes it give up with an error after five attempts, with every byte kept for the next
  flush.
\<close>

theorem flush_exact:
  assumes "conn_ok c" "has_pending_writes c" "flush now c = (c', r)"
  shows "queued c' = queued c \<and>
    (answers c = map Wrote ns \<and> list_all (\<lambda>n. 0 < n) ns \<and> length (unsent c) \<le> sum_list ns \<longrightarrow>
      r = Ok () \<and> wire c' = queued c \<and> unsent c' = []) \<and>
    (answers c = [] \<longrightarrow> r = Err (Connection ''Write would block after max attempts'') \<and> c' = c)"
proof (intro conjI impI)
  have f: "flush_loop now 0 c = (c', r)" using assms(2,3) by (simp add: flush_def has_pending_writes_def)
  show q: "queued c' = queued c" using flush_keeps [OF assms(1,3)] by simp
  {
    assume "answers c = []"
    then show "r = Err (Connection ''Write would block after max attempts'')" "c' = c"
      using flush_stalls [of c 0 now] assms(2) f by (simp_all add: MAX_ATTEMPTS_def)
  }
  assume "answers c = map Wrote ns \<and> list_all (\<lambda>n. 0 < n) ns \<and> length (unsent c) \<le> sum_list ns"
  then show r: "r = Ok ()" and u: "unsent c' = []" using flush_drains [OF assms(1) _ _ _ _ f] by (simp_all add: MAX_ATTEMPTS_def)
  show "wire c' = queued c" using q u by (simp add: queued_def)
qed

theorem flush_exact_witness:
  "\<exists>c'. flush 9 (send_raw ''abcde'' (new_connection 1 (''h'', 1) 0 [Wrote 2, Wrote 3])) = (c', Ok ()) \<and> wire c' = ''abcde''"
proof -
  let ?c = "send_raw ''abcde'' (new_connection 1 (''h'', 1) 0 [Wrote 2, Wrote 3])"
  obtain c' r where f: "flush 9 ?c = (c', r)" by (metis prod.exhaust)
  have q: "queued ?c = ''abcde''" "length (unsent ?c) = 5" "has_pending_writes ?c" "answers ?c = map Wrote [2, 3]" by code_simp+
  have "conn_ok ?c" by (simp add: send_raw_queues)
  from flush_exact [OF this q(3) f, of "[2, 3]"] f q show ?thesis by simp
qed

end
