(* ===== verification/Replication.thy ===== *)
theory Replication
  imports Backlog Args Conn
begin

text \<open>
  The master side of replication: the manager with its role, replicas and backlog
  (\<^verbatim>\<open>src/replication/manager.rs\<close>, \<^verbatim>\<open>src/replication/mod.rs\<close>), the synchronization decision
  (\<^verbatim>\<open>src/replication/sync.rs\<close>) and the commands (\<^verbatim>\<open>src/replication/commands.rs\<close>).  Random replication
  identifiers, the resolver of host names and the bytes of a snapshot are parameters; starting and
  stopping the background thread of a replica is only its stop flag.
\<close>

section \<open>State\<close>

type_synonym socket_addr = "string \<times> nat"

datatype master_link_status = Connecting | Synchronizing | Up | Down

datatype replication_role =
    Master (repl_id: string) (repl_id2: string) (master_offset: u64) (repl_offset2: u64)
  | Replica (master_addr: socket_addr) (master_link_status: master_link_status) (master_repl_id: string) (replica_offset: u64)

datatype replication_state = NoReplication | WaitBgsaveStart | WaitBgsaveEnd | SendingRdb | Online

record replica_info =
  replica_conn :: u64
  replica_addr :: socket_addr
  ack_offset :: u64
  last_interaction :: nat
  capabilities :: "string list"

record replication_manager =
  role :: replication_role
  replicas :: "(u64 \<times> replica_info) list"
  backlog :: replication_backlog
  repl_state :: replication_state
  paused :: bool
  master_conn_id :: "u64 option"
  replication_stop_flag :: "bool option"

definition new_replica :: "u64 \<Rightarrow> socket_addr \<Rightarrow> nat \<Rightarrow> replica_info" where
  "new_replica c a now = \<lparr>replica_conn = c, replica_addr = a, ack_offset = 0, last_interaction = now, capabilities = []\<rparr>"

definition zero_id :: string where "zero_id = replicate 40 (CHR ''0'')"

text \<open>\<^verbatim>\<open>generate_repl_id\<close>: 40 digits and letters chosen by the random numbers \<open>rs\<close>.\<close>

definition id_char :: "nat \<Rightarrow> char" where
  "id_char n = (if n \<le> 9 then char_of (48 + n) else if n \<le> 35 then char_of (97 + n - 10) else char_of (65 + n - 36))"

definition generate_repl_id :: "nat list \<Rightarrow> string" where
  "generate_repl_id rs = map (\<lambda>n. id_char (n mod 62)) (take 40 rs)"

definition new_replication :: "nat \<Rightarrow> nat list \<Rightarrow> replication_manager" where
  "new_replication backlog_max rs =
     \<lparr>role = Master (generate_repl_id rs) zero_id 0 0, replicas = [], backlog = new_backlog backlog_max,
      repl_state = NoReplication, paused = False, master_conn_id = None, replication_stop_flag = None\<rparr>"

section \<open>Manager\<close>

definition is_master :: "replication_manager \<Rightarrow> bool" where
  "is_master m \<longleftrightarrow> (case role m of Master _ _ _ _ \<Rightarrow> True | _ \<Rightarrow> False)"

definition is_replica :: "replication_manager \<Rightarrow> bool" where
  "is_replica m \<longleftrightarrow> (case role m of Replica _ _ _ _ \<Rightarrow> True | _ \<Rightarrow> False)"

definition get_repl_offset :: "replication_manager \<Rightarrow> u64" where
  "get_repl_offset m = (case role m of Master _ _ off _ \<Rightarrow> off | Replica _ _ _ off \<Rightarrow> off)"

definition set_master :: "socket_addr option \<Rightarrow> nat list \<Rightarrow> replication_manager \<Rightarrow> replication_manager" where
  "set_master target rs m =
     (let m = m\<lparr>replication_stop_flag := None\<rparr> in
      case target of
        Some a \<Rightarrow> m\<lparr>role := Replica a Connecting [] 0, replicas := [], repl_state := NoReplication, replication_stop_flag := Some False\<rparr>
      | None \<Rightarrow> m\<lparr>role := Master (generate_repl_id rs) zero_id 0 0, repl_state := NoReplication\<rparr>)"

definition add_replica :: "replica_info \<Rightarrow> replication_manager \<Rightarrow> replication_manager \<times> unit result" where
  "add_replica r m =
     (if \<not> is_master m then (m, Err (Command (Generic ''not a master'')))
      else (m\<lparr>replicas := AList.update (replica_conn r) r (replicas m)\<rparr>, Ok ()))"

definition remove_replica :: "u64 \<Rightarrow> replication_manager \<Rightarrow> replication_manager \<times> replica_info option" where
  "remove_replica c m = (m\<lparr>replicas := AList.delete c (replicas m)\<rparr>, map_of (replicas m) c)"

definition get_replicas :: "replication_manager \<Rightarrow> replica_info list" where
  "get_replicas m = map snd (replicas m)"

definition propagate_command :: "(f64 \<Rightarrow> string) \<Rightarrow> resp_frame \<Rightarrow> replication_manager \<Rightarrow> replication_manager \<times> u64 list result" where
  "propagate_command fp cmd m =
     (if \<not> is_master m then (m, Ok [])
      else
        (case append_command fp cmd (backlog m) of
           (b, Ok _) \<Rightarrow>
             (case role m of
                Master i j off k \<Rightarrow> (m\<lparr>backlog := b, role := Master i j (off + 1) k\<rparr>, Ok (map fst (replicas m)))
              | Replica _ _ _ _ \<Rightarrow> (m\<lparr>backlog := b\<rparr>, Ok []))
         | (b, Err e) \<Rightarrow> (m\<lparr>backlog := b\<rparr>, Err e)
         | (b, Panic) \<Rightarrow> (m\<lparr>backlog := b\<rparr>, Panic)))"

definition update_master_link_status :: "master_link_status \<Rightarrow> replication_manager \<Rightarrow> replication_manager \<times> unit result" where
  "update_master_link_status st m =
     (case role m of
        Replica a _ i off \<Rightarrow> (m\<lparr>role := Replica a st i off\<rparr>, Ok ())
      | Master _ _ _ _ \<Rightarrow> (m, Err (Command (Generic ''not a replica''))))"

definition update_replica_offset :: "u64 \<Rightarrow> string option \<Rightarrow> replication_manager \<Rightarrow> replication_manager \<times> unit result" where
  "update_replica_offset off new_id m =
     (case role m of
        Replica a st i _ \<Rightarrow> (m\<lparr>role := Replica a st (case new_id of Some j \<Rightarrow> j | None \<Rightarrow> i) off\<rparr>, Ok ())
      | Master _ _ _ _ \<Rightarrow> (m, Err (Command (Generic ''not a replica''))))"

definition is_paused :: "replication_manager \<Rightarrow> bool" where "is_paused m = paused m"
definition pause :: "replication_manager \<Rightarrow> replication_manager" where "pause m = m\<lparr>paused := True\<rparr>"
definition resume :: "replication_manager \<Rightarrow> replication_manager" where "resume m = m\<lparr>paused := False\<rparr>"

fun slave_lines :: "nat \<Rightarrow> replica_info list \<Rightarrow> (string \<times> string) list" where
  "slave_lines i [] = []"
| "slave_lines i (r # rs) =
     (''slave'' @ nat_to_string i,
      ''ip='' @ fst (replica_addr r) @ '',port=0,state=online,offset='' @ u64_to_string (ack_offset r) @ '',lag=0'') # slave_lines (Suc i) rs"

definition link_text :: "master_link_status \<Rightarrow> string" where
  "link_text st = (case st of Up \<Rightarrow> ''up'' | Down \<Rightarrow> ''down'' | Connecting \<Rightarrow> ''connecting'' | Synchronizing \<Rightarrow> ''sync'')"

definition get_info :: "replication_manager \<Rightarrow> (string \<times> string) list" where
  "get_info m =
     (case role m of
        Master i _ off _ \<Rightarrow>
          [(''role'', ''master''), (''repl_id'', i), (''repl_offset'', u64_to_string off),
           (''connected_slaves'', nat_to_string (length (replicas m)))] @ slave_lines 0 (get_replicas m)
      | Replica a st _ off \<Rightarrow>
          [(''role'', ''slave''), (''master_host'', fst a), (''master_port'', nat_to_string (snd a)),
           (''master_link_status'', link_text st), (''slave_repl_offset'', u64_to_string off)])"

definition get_backlog_data :: "u64 \<Rightarrow> replication_manager \<Rightarrow> bytes result" where
  "get_backlog_data off m = get_data_from_offset off (backlog m)"

section \<open>Synchronization\<close>

datatype psync_result = FullResync string u64 | PartialResync bytes

text \<open>The identifier a replica sends arrives as the code points of a lossily decoded string.\<close>

definition sync_psync :: "nat list option \<Rightarrow> u64 option \<Rightarrow> replication_manager \<Rightarrow> psync_result result" where
  "sync_psync sent_id sent_offset m =
     (case role m of
        Master i _ off _ \<Rightarrow>
          (case (sent_id, sent_offset) of
             (Some rid, Some o_) \<Rightarrow>
               (if rid = map of_char i \<or> rid = map of_char ''?'' then
                  (case get_backlog_data o_ m of Ok d \<Rightarrow> Ok (PartialResync d) | Err _ \<Rightarrow> Ok (FullResync i off) | Panic \<Rightarrow> Panic)
                else Ok (FullResync i off))
           | _ \<Rightarrow> Ok (FullResync i off))
      | Replica _ _ _ _ \<Rightarrow> Err (Command (Generic ''wrong role'')))"

definition full_resync_text :: "string \<Rightarrow> u64 \<Rightarrow> string" where
  "full_resync_text i off = ''FULLRESYNC '' @ i @ '' '' @ u64_to_string off"

text \<open>\<open>rdb\<close> is what the snapshot engine produces.\<close>

definition perform_full_sync :: "bytes result \<Rightarrow> replication_manager \<Rightarrow> resp_frame result" where
  "perform_full_sync rdb m =
     (case role m of
        Master i _ off _ \<Rightarrow>
          (case rdb of
             Ok _ \<Rightarrow> Ok (SimpleString (full_resync_text i off))
           | Err e \<Rightarrow> Ok (Error (''ERR RDB generation failed: '' @ display_ferrous_error e))
           | Panic \<Rightarrow> Panic)
      | Replica _ _ _ _ \<Rightarrow> Ok (Error ''ERR wrong role''))"

definition handle_sync :: "bytes result \<Rightarrow> replication_manager \<Rightarrow> resp_frame result" where
  "handle_sync rdb m = (if \<not> is_master m then Ok (Error ''ERR wrong role'') else perform_full_sync rdb m)"

definition send_rdb_to_replica :: "bytes result \<Rightarrow> nat \<Rightarrow> connection \<Rightarrow> connection \<times> unit result" where
  "send_rdb_to_replica rdb now c =
     (case rdb of
        Ok d \<Rightarrow> flush now (send_raw [CR, LF] (send_raw d (send_raw (''$'' @ nat_to_string (length d) @ [CR, LF]) c)))
      | Err e \<Rightarrow> (c, Err e)
      | Panic \<Rightarrow> (c, Panic))"

section \<open>Commands\<close>

definition psync_id :: "bytes \<Rightarrow> nat list option" where
  "psync_id b = (if from_utf8_lossy b = map of_char ''?'' then None else Some (from_utf8_lossy b))"

definition handle_psync :: "resp_frame list \<Rightarrow> replication_manager \<Rightarrow> resp_frame result" where
  "handle_psync parts m =
     (if length parts \<noteq> 3 then Ok (wrong_args ''psync'')
      else
        (case bulk (parts ! 1) of
           None \<Rightarrow> Ok (Error ''ERR invalid replication ID format'')
         | Some i \<Rightarrow>
             (case bulk (parts ! 2) of
                None \<Rightarrow> Ok (Error ''ERR invalid offset format'')
              | Some o_ \<Rightarrow>
                  (if o_ \<noteq> ''-1'' \<and> parse_u64 o_ = None then Ok (Error ''ERR invalid offset format'')
                   else
                     (case sync_psync (psync_id i) (if o_ = ''-1'' then None else parse_u64 o_) m of
                        Ok (FullResync j off) \<Rightarrow> Ok (SimpleString (full_resync_text j off))
                      | Ok (PartialResync _) \<Rightarrow> Ok (SimpleString ''CONTINUE'')
                      | Err e \<Rightarrow> Err e
                      | Panic \<Rightarrow> Panic)))))"

text \<open>\<open>resolve\<close> is the resolver: no answer, or the addresses it found.\<close>

definition handle_replicaof :: "(string \<Rightarrow> socket_addr list option) \<Rightarrow> nat list \<Rightarrow> resp_frame list \<Rightarrow> replication_manager \<Rightarrow>
    replication_manager \<times> resp_frame result" where
  "handle_replicaof resolve rs parts m =
     (if length parts < 3 then (m, Ok (wrong_args ''replicaof''))
      else
        (case bulk (parts ! 1) of
           None \<Rightarrow> (m, Ok (Error ''ERR invalid host format''))
         | Some host \<Rightarrow>
             if \<not> utf8_valid host then (m, Err (Command (Generic ''invalid host format'')))
             else if upper_is host ''NO'' then
               (if length parts \<noteq> 3 then (m, Ok (wrong_args ''replicaof''))
                else
                  (case bulk (parts ! 2) of
                     None \<Rightarrow> (m, Ok (Error ''ERR syntax error''))
                   | Some arg \<Rightarrow>
                       if \<not> utf8_valid arg then (m, Err (Command (Generic ''invalid argument format'')))
                       else if \<not> upper_is arg ''ONE'' then (m, Ok (Error ''ERR syntax error''))
                       else (set_master None rs m, Ok resp_ok)))
             else
               (case bulk (parts ! 2) of
                  None \<Rightarrow> (m, Ok (Error ''ERR invalid port format''))
                | Some p \<Rightarrow>
                    if \<not> utf8_valid p then (m, Err (Command (Generic ''invalid port format'')))
                    else
                      (case parse_usize p of
                         Some port \<Rightarrow>
                           (if port \<le> 65535 then
                              (case resolve (host @ '':'' @ nat_to_string port) of
                                 None \<Rightarrow> (m, Err (Command (Generic ''invalid address'')))
                               | Some [] \<Rightarrow> (m, Err (Command (Generic ''failed to resolve address'')))
                               | Some (a # _) \<Rightarrow> (set_master (Some a) rs m, Ok resp_ok))
                            else (m, Err (Command (Generic ''invalid port number''))))
                       | None \<Rightarrow> (m, Err (Command (Generic ''invalid port number'')))))))"

definition acknowledge_offset :: "u64 \<Rightarrow> u64 \<Rightarrow> nat \<Rightarrow> replication_manager \<Rightarrow> replication_manager" where
  "acknowledge_offset c off now m =
     (case find (\<lambda>(k, r). replica_conn r = c) (replicas m) of
        None \<Rightarrow> m
      | Some (k, r) \<Rightarrow> m\<lparr>replicas := AList.update k (r\<lparr>ack_offset := off, last_interaction := now\<rparr>) (replicas m)\<rparr>)"

definition handle_replconf :: "resp_frame list \<Rightarrow> u64 \<Rightarrow> nat \<Rightarrow> replication_manager \<Rightarrow> replication_manager \<times> resp_frame result" where
  "handle_replconf parts c now m =
     (if length parts < 3 then (m, Ok (wrong_args ''replconf''))
      else
        (case bulk (parts ! 1) of
           None \<Rightarrow> (m, Ok (Error ''ERR invalid subcommand format''))
         | Some sub \<Rightarrow>
             if upper_is sub ''LISTENING-PORT'' \<or> upper_is sub ''CAPA'' then (m, Ok resp_ok)
             else if upper_is sub ''ACK'' then
               (if length parts \<noteq> 3 then (m, Ok (Error ''ERR wrong number of arguments''))
                else
                  (case bulk (parts ! 2) of
                     None \<Rightarrow> (m, Ok (Error ''ERR invalid offset format''))
                   | Some b \<Rightarrow>
                       (case parse_u64 b of
                          None \<Rightarrow> (m, Err (Command (Generic ''invalid offset'')))
                        | Some off \<Rightarrow> (acknowledge_offset c off now m, Ok resp_ok))))
             else if upper_is sub ''GETACK'' then
               (if \<not> is_replica m then (m, Ok (Error ''ERR wrong role''))
                else (m, Ok (Array (Some [from_bytes ''REPLCONF'', from_bytes ''ACK'', from_bytes (u64_to_string (get_repl_offset m))]))))
             else (m, Ok (Error ''ERR unknown REPLCONF subcommand''))))"

section \<open>Properties\<close>

lemma serialize_grows:
  "length w \<le> length (fst (serialize_frames fp fs w))" "length w \<le> length (fst (serialize_pairs fp ps w))"
  using serialize_appends(2) [of fp fs w "[]"] serialize_appends(3) [of fp ps w "[]"]
  by (cases "serialize_frames fp fs []"; cases "serialize_pairs fp ps []"; simp)+

lemma serialize_length: "serialize_to_vec fp f = Ok bs \<Longrightarrow> 3 \<le> length bs"
proof -
  assume s: "serialize_to_vec fp f = Ok bs"
  then have bs: "fst (serialize_resp_frame fp f []) = bs" "f \<noteq> NoResponse"
    by (auto simp: serialize_to_vec_def split: prod.splits result.splits)
  from s show ?thesis
  proof (cases f)
    case (Array a)
    then show ?thesis
      using bs serialize_grows(1) [of "''*'' @ nat_to_string (length (the a)) @ [CR, LF]" fp "the a"] by (cases a) auto
  next
    case (MapFrame ps)
    then show ?thesis using bs serialize_grows(2) [of "''%'' @ nat_to_string (length ps) @ [CR, LF]" fp ps] by auto
  next
    case (SetFrame fs)
    then show ?thesis using bs serialize_grows(1) [of "''~'' @ nat_to_string (length fs) @ [CR, LF]" fp fs] by auto
  next
    case (BulkString b)
    then show ?thesis using bs by (cases b) auto
  qed (use bs in auto)
qed

lemma wires_length: "map (serialize_to_vec fp) cmds = map Ok wires \<Longrightarrow> 3 * length cmds \<le> length (concat wires)"
proof (induction cmds arbitrary: wires)
  case (Cons c cmds)
  then obtain w ws where "wires = w # ws" "serialize_to_vec fp c = Ok w" "map (serialize_to_vec fp) cmds = map Ok ws" by (cases wires) auto
  then show ?case using Cons.IH [of ws] serialize_length [of fp c w] by simp
qed simp

lemma propagate_all:
  assumes "role m = Master i j off k" "map (serialize_to_vec fp) cmds = map Ok wires" "window h (backlog m)"
  shows "let m' = fold (\<lambda>c m. fst (propagate_command fp c m)) cmds m in
    role m' = Master i j (off + of_nat (length cmds)) k \<and> window (h @ concat wires) (backlog m') \<and> max_size (backlog m') = max_size (backlog m)"
  using assms
proof (induction cmds arbitrary: m off h wires)
  case (Cons c cmds)
  from Cons.prems(2) obtain w ws where w: "wires = w # ws" "serialize_to_vec fp c = Ok w" "map (serialize_to_vec fp) cmds = map Ok ws"
    by (cases wires) auto
  then obtain b where b: "append_command fp c (backlog m) = (b, Ok ())"
    by (auto simp: append_command_def serialize_to_vec_def split: prod.splits result.splits)
  from window_append [OF Cons.prems(3) b] w(2) have wb: "window (h @ w) b" "max_size b = max_size (backlog m)" by auto
  have m: "fst (propagate_command fp c m) = m\<lparr>backlog := b, role := Master i j (off + 1) k\<rparr>"
    using Cons.prems(1) b by (simp add: propagate_command_def is_master_def)
  show ?case using Cons.IH [of "m\<lparr>backlog := b, role := Master i j (off + 1) k\<rparr>" "off + 1" ws "h @ w"] wb w m by (simp add: Let_def add.assoc)
qed simp

text \<open>
  The replication offset a master announces counts commands, while its backlog is addressed by bytes.
  A replica that has received every command asks to continue from the offset it was told, and the
  master answers with a partial resynchronization that starts inside commands the replica already has.
\<close>

theorem resync_offset_mismatch:
  assumes "map (serialize_to_vec fp) cmds = map Ok wires" "cmds \<noteq> []" "history = concat wires" "length history \<le> n" "length history < 2 ^ 64"
    "m = fold (\<lambda>c m. fst (propagate_command fp c m)) cmds (new_replication n rs)"
  shows "get_repl_offset m = of_nat (length cmds) \<and> end_offset (backlog m) = of_nat (length history) \<and>
    sync_psync (Some (map of_char (generate_repl_id rs))) (Some (get_repl_offset m)) m = Ok (PartialResync (drop (length cmds) history)) \<and>
    drop (length cmds) history \<noteq> []"
proof -
  have len: "length cmds < length history" "0 < n" using wires_length [OF assms(1)] assms(2,3,4) by (cases cmds; auto)+
  let ?m = "new_replication n rs"
  have start: "role ?m = Master (generate_repl_id rs) zero_id 0 0" "window [] (backlog ?m)" "max_size (backlog ?m) = n"
    using window_new [OF len(2)] by (simp_all add: new_replication_def new_backlog_def)
  from propagate_all [OF start(1) assms(1) start(2)] start(3) assms(3,6)
  have m: "role m = Master (generate_repl_id rs) zero_id (of_nat (length cmds)) 0" "window history (backlog m)" "max_size (backlog m) = n"
    by (simp_all add: Let_def)
  have u: "unat (of_nat (length cmds) :: u64) = length cmds"
    using len(1) assms(5) by (simp add: unat_of_nat take_bit_nat_eq_self)
  have "get_data_from_offset (of_nat (length cmds)) (backlog m) = Ok (drop (length cmds) history)"
    using window_read [OF m(2) assms(5)] len(1) assms(4) m(3) u by simp
  moreover have "end_offset (backlog m) = of_nat (length history)"
    using m(2,3) assms(4) by (simp add: end_offset_def window_def)
  ultimately show ?thesis using m(1) len(1) by (simp add: get_repl_offset_def sync_psync_def get_backlog_data_def)
qed

theorem resync_offset_mismatch_witness:
  "\<exists>m. m = fold (\<lambda>c m. fst (propagate_command (\<lambda>x. ''0'') c m)) [SimpleString ''OK''] (new_replication 99 [0]) \<and>
     sync_psync (Some (map of_char (generate_repl_id [0]))) (Some (get_repl_offset m)) m = Ok (PartialResync (''OK'' @ [CR, LF]))"
proof -
  have "map (serialize_to_vec (\<lambda>x. ''0'')) [SimpleString ''OK''] = map Ok [''+OK'' @ [CR, LF]]"
    by (simp add: serialize_to_vec_def)
  from resync_offset_mismatch [OF this _ refl _ _ refl, of 99 "[0]"] show ?thesis by auto
qed

end
