(* ===== verification/Blocking.thy ===== *)
theory Blocking
  imports Conn
begin

text \<open>
  Blocked clients (\<^verbatim>\<open>src/network/blocking.rs\<close>): per database a registry maps each key to the queue of clients
  that wait for it, in order of arrival, next to a set of the keys with waiters; the manager turns a
  notification into a wake-up request for the first waiter.
\<close>

section \<open>State\<close>

record blocked_client =
  conn_id :: u64
  blocked_at :: nat
  deadline :: "nat option"
  op_type :: blocking_op

record wakeup_request =
  wake_conn :: u64
  wake_db :: nat
  wake_key :: bytes
  wake_op :: blocking_op

record blocking_registry =
  blocked_on_key :: "(bytes \<times> blocked_client list) list"
  blocked_keys :: "bytes list"

definition new_registry :: blocking_registry where
  "new_registry = \<lparr>blocked_on_key = [], blocked_keys = []\<rparr>"

section \<open>Registry\<close>

definition waiting :: "blocking_registry \<Rightarrow> bytes \<Rightarrow> blocked_client list" where
  "waiting r key = (case map_of (blocked_on_key r) key of Some cs \<Rightarrow> cs | None \<Rightarrow> [])"

definition block_on :: "blocked_client \<Rightarrow> nat \<times> bytes \<Rightarrow> blocking_registry \<Rightarrow> blocking_registry" where
  "block_on client db_key r =
     r\<lparr>blocked_on_key := AList.update (snd db_key) (waiting r (snd db_key) @ [client]) (blocked_on_key r),
       blocked_keys := (if snd db_key \<in> set (blocked_keys r) then blocked_keys r else blocked_keys r @ [snd db_key])\<rparr>"

definition register_blocked_client :: "blocked_client \<Rightarrow> (nat \<times> bytes) list \<Rightarrow> blocking_registry \<Rightarrow> blocking_registry" where
  "register_blocked_client client ks r = fold (block_on client) ks r"

definition forget_key :: "bytes \<Rightarrow> blocking_registry \<Rightarrow> blocking_registry" where
  "forget_key key r = r\<lparr>blocked_on_key := AList.delete key (blocked_on_key r),
     blocked_keys := filter (\<lambda>k. k \<noteq> key) (blocked_keys r)\<rparr>"

definition empty_keys :: "(bytes \<times> blocked_client list) list \<Rightarrow> bytes list" where
  "empty_keys m = map fst (filter (\<lambda>(k, cs). cs = []) m)"

definition unregister_client :: "u64 \<Rightarrow> blocking_registry \<Rightarrow> blocking_registry" where
  "unregister_client c r =
     (let m = map (\<lambda>(k, cs). (k, filter (\<lambda>b. conn_id b \<noteq> c) cs)) (blocked_on_key r)
      in fold forget_key (empty_keys m) (r\<lparr>blocked_on_key := m\<rparr>))"

definition registry_has_blocked :: "bytes \<Rightarrow> blocking_registry \<Rightarrow> bool" where
  "registry_has_blocked key r \<longleftrightarrow> key \<in> set (blocked_keys r)"

definition pop_first_waiter :: "bytes \<Rightarrow> blocking_registry \<Rightarrow> blocking_registry \<times> blocked_client option" where
  "pop_first_waiter key r =
     (case map_of (blocked_on_key r) key of
        Some cs \<Rightarrow>
          (let (client, rest) = (case cs of [] \<Rightarrow> (None, []) | c # cs' \<Rightarrow> (Some c, cs'));
               r = r\<lparr>blocked_on_key := AList.update key rest (blocked_on_key r)\<rparr>
           in (if rest = [] then forget_key key r else r, client))
      | None \<Rightarrow> (r, None))"

definition past_deadline :: "nat \<Rightarrow> blocked_client \<Rightarrow> bool" where
  "past_deadline now b = (case deadline b of Some d \<Rightarrow> now \<ge> d | None \<Rightarrow> False)"

text \<open>\<^verbatim>\<open>clients.remove(i)\<close> for the expired positions from the last to the first.\<close>

fun remove_positions :: "nat list \<Rightarrow> blocked_client list \<Rightarrow> u64 list \<Rightarrow> blocked_client list \<times> u64 list" where
  "remove_positions [] cs acc = (cs, acc)"
| "remove_positions (i # is) cs acc =
     (if i < length cs then remove_positions is (take i cs @ drop (Suc i) cs) (acc @ [conn_id (cs ! i)])
      else remove_positions is cs acc)"

definition expired_positions :: "nat \<Rightarrow> blocked_client list \<Rightarrow> nat list" where
  "expired_positions now cs = map fst (filter (\<lambda>(i, c). past_deadline now c) (enumerate 0 cs))"

fun expire_queues :: "nat \<Rightarrow> (bytes \<times> blocked_client list) list \<Rightarrow> u64 list \<Rightarrow> (bytes \<times> blocked_client list) list \<times> u64 list" where
  "expire_queues now [] acc = ([], acc)"
| "expire_queues now ((k, cs) # m) acc =
     (let (cs', acc') = remove_positions (rev (expired_positions now cs)) cs acc;
          (m', acc'') = expire_queues now m acc'
      in ((k, cs') # m', acc''))"

definition get_expired_clients :: "nat \<Rightarrow> blocking_registry \<Rightarrow> blocking_registry \<times> u64 list" where
  "get_expired_clients now r =
     (let (m, expired) = expire_queues now (blocked_on_key r) []
      in (fold forget_key (empty_keys m) (r\<lparr>blocked_on_key := m\<rparr>), expired))"

section \<open>Manager\<close>

record blocking_manager =
  registries :: "blocking_registry list"
  wake_queue :: "wakeup_request list"
  shutdown_flag :: bool

definition new_manager :: "nat \<Rightarrow> blocking_manager" where
  "new_manager n = \<lparr>registries = replicate n new_registry, wake_queue = [], shutdown_flag = False\<rparr>"

definition register_blocked :: "nat \<Rightarrow> u64 \<Rightarrow> bytes list \<Rightarrow> blocking_op \<Rightarrow> nat option \<Rightarrow> nat \<Rightarrow> blocking_manager \<Rightarrow> blocking_manager \<times> unit result" where
  "register_blocked db c ks op dl now m =
     (if db \<ge> length (registries m) then (m, Err (Storage InvalidDatabase))
      else
        (let client = \<lparr>conn_id = c, blocked_at = now, deadline = dl, op_type = op\<rparr>
         in (m\<lparr>registries := (registries m)[db := register_blocked_client client (map (\<lambda>k. (db, k)) ks) (registries m ! db)]\<rparr>, Ok ())))"

definition unregister_blocked :: "nat \<Rightarrow> u64 \<Rightarrow> blocking_manager \<Rightarrow> blocking_manager" where
  "unregister_blocked db c m =
     (if db \<ge> length (registries m) then m
      else m\<lparr>registries := (registries m)[db := unregister_client c (registries m ! db)]\<rparr>)"

definition has_blocked_clients :: "nat \<Rightarrow> bytes \<Rightarrow> blocking_manager \<Rightarrow> bool" where
  "has_blocked_clients db key m = (if db \<ge> length (registries m) then False else registry_has_blocked key (registries m ! db))"

definition notify_key_ready :: "nat \<Rightarrow> bytes \<Rightarrow> blocking_manager \<Rightarrow> blocking_manager" where
  "notify_key_ready db key m =
     (if db \<ge> length (registries m) then m
      else
        (case pop_first_waiter key (registries m ! db) of
           (r, Some client) \<Rightarrow>
             m\<lparr>registries := (registries m)[db := r],
               wake_queue := wake_queue m @ [\<lparr>wake_conn = conn_id client, wake_db = db, wake_key = key, wake_op = op_type client\<rparr>]\<rparr>
         | (r, None) \<Rightarrow> m\<lparr>registries := (registries m)[db := r]\<rparr>))"

fun drain_queue :: "wakeup_request list \<Rightarrow> wakeup_request list \<Rightarrow> wakeup_request list \<times> wakeup_request list" where
  "drain_queue q acc =
     (if length acc < 32 then (case q of [] \<Rightarrow> (q, acc) | r # q' \<Rightarrow> drain_queue q' (acc @ [r])) else (q, acc))"

declare drain_queue.simps [simp del]

definition take_wakeups :: "blocking_manager \<Rightarrow> blocking_manager \<times> wakeup_request list" where
  "take_wakeups m = (let (q, ws) = drain_queue (wake_queue m) [] in (m\<lparr>wake_queue := q\<rparr>, ws))"

fun expire_registries :: "nat \<Rightarrow> blocking_registry list \<Rightarrow> u64 list \<Rightarrow> blocking_registry list \<times> u64 list" where
  "expire_registries now [] acc = ([], acc)"
| "expire_registries now (r # rs) acc =
     (let (r', expired) = get_expired_clients now r; (rs', acc') = expire_registries now rs (acc @ expired) in (r' # rs', acc'))"

definition process_timeouts :: "nat \<Rightarrow> blocking_manager \<Rightarrow> blocking_manager \<times> u64 list" where
  "process_timeouts now m = (let (rs, expired) = expire_registries now (registries m) [] in (m\<lparr>registries := rs\<rparr>, expired))"

definition has_pending_wakeups :: "blocking_manager \<Rightarrow> bool" where
  "has_pending_wakeups m \<longleftrightarrow> wake_queue m \<noteq> []"

definition shutdown :: "blocking_manager \<Rightarrow> blocking_manager" where
  "shutdown m = m\<lparr>shutdown_flag := True\<rparr>"

section \<open>Invariant and abstract view\<close>

definition registry_ok :: "blocking_registry \<Rightarrow> bool" where
  "registry_ok r \<longleftrightarrow> distinct (map fst (blocked_on_key r)) \<and> distinct (blocked_keys r) \<and>
     (\<forall>k. map_of (blocked_on_key r) k \<noteq> Some []) \<and> (\<forall>k. k \<in> set (blocked_keys r) \<longleftrightarrow> map_of (blocked_on_key r) k \<noteq> None)"

lemma new_registry_ok [simp]: "registry_ok new_registry" "waiting new_registry key = []"
  by (simp_all add: registry_ok_def new_registry_def waiting_def)

lemma has_blocked_iff: "registry_ok r \<Longrightarrow> registry_has_blocked key r \<longleftrightarrow> waiting r key \<noteq> []"
  by (auto simp: registry_has_blocked_def waiting_def registry_ok_def split: option.splits)

lemma block_on_ok: "registry_ok r \<Longrightarrow> registry_ok (block_on b dk r)"
  by (auto simp: registry_ok_def block_on_def distinct_update)

lemma block_on_waiting: "waiting (block_on b dk r) k = (if k = snd dk then waiting r k @ [b] else waiting r k)"
  by (simp add: waiting_def block_on_def)

lemma register_ok: "registry_ok r \<Longrightarrow> registry_ok (register_blocked_client b ks r)"
  unfolding register_blocked_client_def by (induction ks arbitrary: r) (simp_all add: block_on_ok)

lemma register_waiting:
  "waiting (register_blocked_client b ks r) k = waiting r k @ replicate (count_list (map snd ks) k) b"
  unfolding register_blocked_client_def
  by (induction ks arbitrary: r) (simp_all add: block_on_waiting replicate_app_Cons_same)

text \<open>Dropping the keys whose queue became empty, after the queues were filtered.\<close>

lemma forget_key_sel [simp]:
  "blocked_on_key (forget_key key r) = filter (\<lambda>(k, cs). k \<noteq> key) (blocked_on_key r)"
  "blocked_keys (forget_key key r) = filter (\<lambda>k. k \<noteq> key) (blocked_keys r)"
  by (auto simp: forget_key_def AList.delete_eq intro!: filter_cong)

lemma forget_keys:
  "blocked_on_key (fold forget_key ks r) = filter (\<lambda>(k, cs). k \<notin> set ks) (blocked_on_key r)"
  "blocked_keys (fold forget_key ks r) = filter (\<lambda>k. k \<notin> set ks) (blocked_keys r)"
proof (induction ks arbitrary: r)
  case (Cons k ks)
  case 1
  show ?case by (simp add: Cons case_prod_unfold conj_commute)
  case 2
  show ?case by (simp add: Cons conj_commute)
qed simp_all

lemma filter_queues:
  assumes "registry_ok r" "m = map (\<lambda>(k, cs). (k, filter P cs)) (blocked_on_key r)"
    "r' = fold forget_key (empty_keys m) (r\<lparr>blocked_on_key := m\<rparr>)"
  shows "registry_ok r' \<and> waiting r' k = filter P (waiting r k)"
proof -
  let ?q = "blocked_on_key r"
  have d: "distinct (map fst ?q)" using assms(1) by (simp add: registry_ok_def)
  have "map_of (map (\<lambda>(k, cs). (k, filter P cs)) q) k = map_option (filter P) (map_of q k)" for k q
    by (induction q) auto
  then have m: "map_of m k = map_option (filter P) (map_of ?q k)" "map fst m = map fst ?q" for k
    by (simp_all add: assms(2) case_prod_unfold)
  have e: "k \<in> set (empty_keys m) \<longleftrightarrow> map_of m k = Some []" for k
    using d m(2) by (auto simp: empty_keys_def map_of_Some_in_set image_iff)
  have b: "blocked_on_key r' = filter (\<lambda>(k, cs). k \<notin> set (empty_keys m)) m"
    "blocked_keys r' = filter (\<lambda>k. k \<notin> set (empty_keys m)) (blocked_keys r)"
    by (simp_all add: assms(3) forget_keys)
  have dm: "distinct (map fst (blocked_on_key r'))" using d m(2) by (simp add: b(1) distinct_map_filter)
  have l: "map_of (blocked_on_key r') k = (if map_of m k = Some [] then None else map_of m k)" for k
  proof -
    have "map_of (filter (\<lambda>(k, cs). k \<notin> S) xs) k = (if k \<in> S then None else map_of xs k)" for S xs
      by (induction xs) auto
    from this [of "set (empty_keys m)" m] show ?thesis unfolding b(1) e .
  qed
  have "waiting r' k = filter P (waiting r k)" using l m(1) by (simp add: waiting_def split: option.split)
  moreover have "k \<in> set (blocked_keys r') \<longleftrightarrow> map_of (blocked_on_key r') k \<noteq> None" for k
    using assms(1) l [of k] m(1) [of k] by (auto simp: registry_ok_def b(2) e)
  ultimately show ?thesis using assms(1) dm l by (simp add: registry_ok_def b(2))
qed

lemma unregister_ok:
  "registry_ok r \<Longrightarrow> registry_ok (unregister_client c r) \<and> waiting (unregister_client c r) k = filter (\<lambda>b. conn_id b \<noteq> c) (waiting r k)"
  using filter_queues [OF _ refl refl] by (simp add: unregister_client_def Let_def)

lemma pop_first_waiter_ok:
  assumes "registry_ok r" "pop_first_waiter key r = (r', client)"
  shows "registry_ok r' \<and> client = (case waiting r key of [] \<Rightarrow> None | c # cs \<Rightarrow> Some c) \<and>
    waiting r' k = (if k = key then tl (waiting r key) else waiting r k)"
proof (cases "map_of (blocked_on_key r) key")
  case None
  then show ?thesis using assms by (auto simp: pop_first_waiter_def waiting_def)
next
  case (Some cs)
  with assms(1) obtain c cs' where cs: "cs = c # cs'" by (cases cs) (auto simp: registry_ok_def)
  show ?thesis using assms Some cs
    by (auto simp: pop_first_waiter_def waiting_def registry_ok_def forget_key_def distinct_update Let_def split: if_splits)
qed

section \<open>Expiry\<close>

lemma remove_positions_append:
  "sorted_wrt (>) is \<Longrightarrow> list_all (\<lambda>i. i < length cs) is \<Longrightarrow>
     remove_positions is (cs @ ys) acc = apfst (\<lambda>a. a @ ys) (remove_positions is cs acc)"
proof (induction "is" arbitrary: cs acc)
  case (Cons i "is")
  have "list_all (\<lambda>j. j < length (take i cs @ drop (Suc i) cs)) is" using Cons.prems by (auto simp: list_all_iff)
  with Cons show ?case by (simp add: nth_append flip: append_assoc)
qed simp

lemma expired_positions_Nil [simp]: "expired_positions now [] = []"
  by (simp add: expired_positions_def)

lemma expired_positions_snoc:
  "expired_positions now (cs @ [c]) = expired_positions now cs @ (if past_deadline now c then [length cs] else [])"
  by (simp add: expired_positions_def enumerate_append_eq)

lemma expired_positions_bound: "sorted_wrt (<) (expired_positions now cs) \<and> list_all (\<lambda>i. i < length cs) (expired_positions now cs)"
  by (induction cs rule: rev_induct)
     (auto simp: expired_positions_snoc sorted_wrt_append list_all_iff)

lemma remove_expired:
  "remove_positions (rev (expired_positions now cs)) cs acc =
     (filter (\<lambda>c. \<not> past_deadline now c) cs, acc @ rev (map conn_id (filter (past_deadline now) cs)))"
proof (induction cs arbitrary: acc rule: rev_induct)
  case (snoc c cs)
  show ?case
    using snoc remove_positions_append [of "rev (expired_positions now cs)" cs "[c]" acc] expired_positions_bound [of now cs]
    by (auto simp: expired_positions_snoc sorted_wrt_rev list_all_iff)
qed (simp add: expired_positions_def)

lemma expire_queues_filter:
  "expire_queues now m acc = (map (\<lambda>(k, cs). (k, filter (\<lambda>c. \<not> past_deadline now c) cs)) m,
     acc @ concat (map (\<lambda>(k, cs). rev (map conn_id (filter (past_deadline now) cs))) m))"
  by (induction now m acc rule: expire_queues.induct) (simp_all add: remove_expired Let_def)

lemma get_expired_ok:
  assumes "registry_ok r" "get_expired_clients now r = (r', expired)"
  shows "registry_ok r' \<and> waiting r' k = filter (\<lambda>c. \<not> past_deadline now c) (waiting r k) \<and>
    set expired = {conn_id c | c k. c \<in> set (waiting r k) \<and> past_deadline now c}"
proof -
  have r': "r' = fold forget_key (empty_keys (map (\<lambda>(k, cs). (k, filter (\<lambda>c. \<not> past_deadline now c) cs)) (blocked_on_key r)))
      (r\<lparr>blocked_on_key := map (\<lambda>(k, cs). (k, filter (\<lambda>c. \<not> past_deadline now c) cs)) (blocked_on_key r)\<rparr>)"
    and x: "expired = concat (map (\<lambda>(k, cs). rev (map conn_id (filter (past_deadline now) cs))) (blocked_on_key r))"
    using assms(2) by (simp_all add: get_expired_clients_def expire_queues_filter)
  have d: "distinct (map fst (blocked_on_key r))" using assms(1) by (simp add: registry_ok_def)
  have w: "c \<in> set (waiting r k) \<longleftrightarrow> (\<exists>cs. (k, cs) \<in> set (blocked_on_key r) \<and> c \<in> set cs)" for c k
    using map_of_Some_in_set [OF d, of k] by (force simp: waiting_def split: option.split)
  have "set expired = {conn_id c | c k. c \<in> set (waiting r k) \<and> past_deadline now c}"
    unfolding w by (fastforce simp: x)
  then show ?thesis using filter_queues [OF assms(1) refl r'] by blast
qed

section \<open>Order of service\<close>

text \<open>The contract of a waiting line: taking from it serves the clients of a key in the order in which they stand.\<close>

locale waiting_line =
  fixes ok :: "'s \<Rightarrow> bool" and line :: "'s \<Rightarrow> bytes \<Rightarrow> 'c list" and pop :: "bytes \<Rightarrow> 's \<Rightarrow> 's \<times> 'c option"
  assumes pop: "ok s \<Longrightarrow> pop k s = (s', c) \<Longrightarrow> ok s' \<and> c = (case line s k of [] \<Rightarrow> None | x # xs \<Rightarrow> Some x) \<and>
    line s' k' = (if k' = k then tl (line s k) else line s k')"
begin

lemma pop_many: "ok s \<Longrightarrow> ok (((\<lambda>s. fst (pop k s)) ^^ n) s) \<and> line (((\<lambda>s. fst (pop k s)) ^^ n) s) k' = (if k' = k then drop n (line s k) else line s k')"
proof (induction n arbitrary: k')
  case (Suc n)
  let ?s = "((\<lambda>s. fst (pop k s)) ^^ n) s"
  from pop [of ?s k "fst (pop k ?s)" "snd (pop k ?s)" k'] Suc.IH [OF Suc.prems, of k] Suc.IH [OF Suc.prems, of k']
  show ?case by (simp add: tl_drop drop_Suc)
qed simp

lemma pop_nth:
  assumes "ok s" "n < length (line s k)"
  shows "snd (pop k (((\<lambda>s. fst (pop k s)) ^^ n) s)) = Some (line s k ! n)"
proof -
  let ?s = "((\<lambda>s. fst (pop k s)) ^^ n) s"
  have "ok ?s" "line ?s k = drop n (line s k)" using pop_many [OF assms(1)] by simp_all
  then show ?thesis using pop [of ?s k "fst (pop k ?s)" "snd (pop k ?s)"] assms(2) by (simp flip: Cons_nth_drop_Suc)
qed

end

interpretation waiters: waiting_line registry_ok waiting pop_first_waiter
  by unfold_locales (rule pop_first_waiter_ok)

definition manager_ok :: "blocking_manager \<Rightarrow> bool" where
  "manager_ok m \<longleftrightarrow> list_all registry_ok (registries m)"

definition waiting_on :: "blocking_manager \<Rightarrow> nat \<Rightarrow> bytes \<Rightarrow> blocked_client list" where
  "waiting_on m db key = (if db < length (registries m) then waiting (registries m ! db) key else [])"

lemma manager_ok_nth: "manager_ok m \<Longrightarrow> db < length (registries m) \<Longrightarrow> registry_ok (registries m ! db)"
  by (simp add: manager_ok_def list_all_length)

lemma manager_ok_update: "manager_ok m \<Longrightarrow> registry_ok r \<Longrightarrow> manager_ok (m\<lparr>registries := (registries m)[db := r]\<rparr>)"
  by (cases "db < length (registries m)") (auto simp: manager_ok_def list_all_length nth_list_update list_update_beyond)

lemma new_manager_ok: "manager_ok (new_manager n)" "waiting_on (new_manager n) db key = []"
  by (simp_all add: manager_ok_def new_manager_def list_all_length waiting_on_def)

definition request :: "nat \<Rightarrow> bytes \<Rightarrow> blocked_client \<Rightarrow> wakeup_request" where
  "request db key b = \<lparr>wake_conn = conn_id b, wake_db = db, wake_key = key, wake_op = op_type b\<rparr>"

lemma notify_ok:
  assumes "manager_ok m" "db < length (registries m)"
  shows "manager_ok (notify_key_ready db key m) \<and> length (registries (notify_key_ready db key m)) = length (registries m) \<and>
    waiting_on (notify_key_ready db key m) db' k = (if db' = db \<and> k = key then tl (waiting_on m db key) else waiting_on m db' k) \<and>
    wake_queue (notify_key_ready db key m) = wake_queue m @ map (request db key) (take 1 (waiting_on m db key))"
proof -
  obtain r c where p: "pop_first_waiter key (registries m ! db) = (r, c)" by (metis prod.exhaust)
  from waiters.pop [OF manager_ok_nth [OF assms] p]
  have r: "registry_ok r" "c = (case waiting_on m db key of [] \<Rightarrow> None | x # xs \<Rightarrow> Some x)"
    "waiting r k' = (if k' = key then tl (waiting_on m db key) else waiting_on m db k')" for k'
    using assms(2) by (auto simp: waiting_on_def)
  have m: "notify_key_ready db key m = m\<lparr>registries := (registries m)[db := r],
      wake_queue := wake_queue m @ map (request db key) (take 1 (waiting_on m db key))\<rparr>"
    using assms(2) p r(2) by (simp add: notify_key_ready_def request_def split: list.split)
  have "manager_ok (m\<lparr>registries := (registries m)[db := r]\<rparr>)" by (rule manager_ok_update [OF assms(1) r(1)])
  then show ?thesis using r(3) assms(2) by (auto simp: m manager_ok_def waiting_on_def nth_list_update)
qed

lemma notify_many:
  assumes "manager_ok m" "db < length (registries m)"
  shows "let m' = (notify_key_ready db key ^^ n) m in manager_ok m' \<and> db < length (registries m') \<and>
    waiting_on m' db key = drop n (waiting_on m db key) \<and>
    wake_queue m' = wake_queue m @ map (request db key) (take n (waiting_on m db key))"
proof (induction n)
  case 0
  then show ?case using assms by simp
next
  case (Suc n)
  let ?m = "(notify_key_ready db key ^^ n) m"
  have "take 1 (drop n xs) = drop n (take (Suc n) xs)" for xs :: "blocked_client list" by (simp add: drop_take)
  then have t: "take n xs @ take 1 (drop n xs) = take (Suc n) xs" for xs :: "blocked_client list"
    by (metis take_add plus_1_eq_Suc add.commute)
  show ?case using Suc notify_ok [of ?m db key db key] assms t [of "waiting_on m db key"]
    by (simp add: Let_def tl_drop drop_Suc del: One_nat_def flip: map_append)
qed

lemma drain_queue_exact: "length acc \<le> 32 \<Longrightarrow> drain_queue q acc = (drop (32 - length acc) q, acc @ take (32 - length acc) q)"
proof (induction q acc rule: drain_queue.induct)
  case (1 q acc)
  show ?case
  proof (cases q)
    case Nil
    then show ?thesis using "1.prems" by (simp add: drain_queue.simps)
  next
    case (Cons r q')
    show ?thesis
    proof (cases "length acc < 32")
      case True
      then have "32 - length acc = Suc (32 - length (acc @ [r]))" by simp
      then show ?thesis using "1.IH" [OF True Cons] True Cons by (simp add: drain_queue.simps [of "r # q'"])
    qed (use "1.prems" in \<open>simp add: drain_queue.simps [of q]\<close>)
  qed
qed

lemma take_wakeups_exact: "take_wakeups m = (m\<lparr>wake_queue := drop 32 (wake_queue m)\<rparr>, take 32 (wake_queue m))"
  by (simp add: take_wakeups_def drain_queue_exact)

lemma expire_registries_exact:
  "expire_registries now rs acc = (map (fst \<circ> get_expired_clients now) rs, acc @ concat (map (snd \<circ> get_expired_clients now) rs))"
  by (induction rs arbitrary: acc) (simp_all add: Let_def case_prod_unfold)

lemma process_timeouts_ok:
  assumes "manager_ok m" "process_timeouts now m = (m', expired)"
  shows "manager_ok m' \<and> waiting_on m' db k = filter (\<lambda>c. \<not> past_deadline now c) (waiting_on m db k) \<and>
    set expired = {conn_id c | c db k. c \<in> set (waiting_on m db k) \<and> past_deadline now c}"
proof -
  have m': "registries m' = map (fst \<circ> get_expired_clients now) (registries m)"
    and x: "expired = concat (map (snd \<circ> get_expired_clients now) (registries m))"
    using assms(2) by (auto simp: process_timeouts_def expire_registries_exact)
  have g: "registry_ok (fst (get_expired_clients now r)) \<and> waiting (fst (get_expired_clients now r)) k = filter (\<lambda>c. \<not> past_deadline now c) (waiting r k) \<and>
      set (snd (get_expired_clients now r)) = {conn_id c | c k. c \<in> set (waiting r k) \<and> past_deadline now c}" if "r \<in> set (registries m)" for r k
    using get_expired_ok [of r now "fst (get_expired_clients now r)" "snd (get_expired_clients now r)"] assms(1) that
    by (simp add: manager_ok_def list_all_iff)
  have "manager_ok m'" "waiting_on m' db k = filter (\<lambda>c. \<not> past_deadline now c) (waiting_on m db k)"
    using g by (auto simp: manager_ok_def m' list_all_iff waiting_on_def)
  moreover have "set expired = (\<Union>r \<in> set (registries m). {conn_id c | c k. c \<in> set (waiting r k) \<and> past_deadline now c})"
    using g by (auto simp: x)
  moreover have "\<dots> = {conn_id c | c db k. c \<in> set (waiting_on m db k) \<and> past_deadline now c}"
    by (auto simp: waiting_on_def in_set_conv_nth split: if_splits) (metis nth_mem)+
  ultimately show ?thesis by simp
qed

lemma register_blocked_ok:
  assumes "manager_ok m" "db < length (registries m)" "b = \<lparr>conn_id = c, blocked_at = now, deadline = dl, op_type = op\<rparr>"
  shows "\<exists>m'. register_blocked db c ks op dl now m = (m', Ok ()) \<and> manager_ok m' \<and> wake_queue m' = wake_queue m \<and>
    length (registries m') = length (registries m) \<and>
    (\<forall>db' k. waiting_on m' db' k = waiting_on m db' k @ (if db' = db then replicate (count_list ks k) b else []))"
proof -
  let ?r = "register_blocked_client b (map (\<lambda>k. (db, k)) ks) (registries m ! db)"
  have "manager_ok (m\<lparr>registries := (registries m)[db := ?r]\<rparr>)"
    by (intro manager_ok_update register_ok manager_ok_nth assms)
  then show ?thesis using assms(2,3) by (simp add: register_blocked_def waiting_on_def nth_list_update register_waiting comp_def)
qed

lemma unregister_blocked_ok:
  assumes "manager_ok m"
  shows "manager_ok (unregister_blocked db c m) \<and> length (registries (unregister_blocked db c m)) = length (registries m) \<and>
    waiting_on (unregister_blocked db c m) db' k = (if db' = db then filter (\<lambda>b. conn_id b \<noteq> c) (waiting_on m db k) else waiting_on m db' k)"
  using assms manager_ok_nth [of m db] manager_ok_update [of m _ db] unregister_ok [of "registries m ! db" c]
  by (cases "db < length (registries m)") (simp_all add: unregister_blocked_def waiting_on_def nth_list_update)

section \<open>Properties\<close>

text \<open>
  C23: the manager refines a family of queues, one per database and key: registering appends the client
  to the queue of every key it names, unregistering and timeouts remove exactly the entries of the
  client and those past their deadline, a database out of range is an error that changes nothing, and
  the key set used for the quick test holds exactly the keys with a waiting client.
\<close>

theorem blocking_refines:
  assumes "manager_ok m" "b = \<lparr>conn_id = c, blocked_at = now, deadline = dl, op_type = op\<rparr>"
    "register_blocked db c ks op dl now m = (m1, r)" "process_timeouts t m = (m2, expired)"
  shows "manager_ok m1 \<and> manager_ok m2 \<and> manager_ok (unregister_blocked db c m) \<and>
    (if db < length (registries m)
     then r = Ok () \<and> waiting_on m1 db k = waiting_on m db k @ replicate (count_list ks k) b
     else r = Err (Storage InvalidDatabase) \<and> m1 = m) \<and>
    waiting_on (unregister_blocked db c m) db k = filter (\<lambda>b. conn_id b \<noteq> c) (waiting_on m db k) \<and>
    waiting_on m2 db k = filter (\<lambda>b. \<not> past_deadline t b) (waiting_on m db k) \<and>
    set expired = {conn_id b | b db k. b \<in> set (waiting_on m db k) \<and> past_deadline t b} \<and>
    (has_blocked_clients db k m \<longleftrightarrow> waiting_on m db k \<noteq> [])"
proof -
  have "has_blocked_clients db k m \<longleftrightarrow> waiting_on m db k \<noteq> []"
    using has_blocked_iff [OF manager_ok_nth [OF assms(1)], of db k] by (auto simp: has_blocked_clients_def waiting_on_def)
  moreover have "m1 = m" "r = Err (Storage InvalidDatabase)" if "\<not> db < length (registries m)"
    using assms(3) that by (simp_all add: register_blocked_def)
  ultimately show ?thesis
    using process_timeouts_ok [OF assms(1,4)] unregister_blocked_ok [OF assms(1)] register_blocked_ok [OF assms(1) _ assms(2), of db ks] assms(1,3)
    by (cases "db < length (registries m)") auto
qed

theorem blocking_refines_witness:
  "waiting_on (fst (register_blocked 0 7 [''a'', ''b''] BLPop (Some 9) 5 (new_manager 1))) 0 ''b''
     = [\<lparr>conn_id = 7, blocked_at = 5, deadline = Some 9, op_type = BLPop\<rparr>]"
proof -
  obtain m1 r where 1: "register_blocked 0 7 [''a'', ''b''] BLPop (Some 9) 5 (new_manager 1) = (m1, r)" by (metis prod.exhaust)
  obtain m2 x where 2: "process_timeouts 0 (new_manager 1) = (m2, x)" by (metis prod.exhaust)
  have "0 < length (registries (new_manager 1))" by (simp add: new_manager_def)
  with blocking_refines [OF new_manager_ok(1) refl 1 2, of "''b''"] 1 show ?thesis by (simp add: new_manager_ok(2) replicate_Suc [of 0, folded One_nat_def] del: One_nat_def length_greater_0_conv)
qed

text \<open>
  C33: clients are served first come, first served.  After \<open>n\<close> notifications of a key, in any state, the
  queue has lost its first \<open>n\<close> clients and the wake-up queue has gained one request for each of them in
  the order of their arrival; the server then takes requests from it in batches of 32 in that order.
\<close>

theorem served_in_order:
  assumes "manager_ok m" "db < length (registries m)" "m' = (notify_key_ready db key ^^ n) m"
  shows "waiting_on m' db key = drop n (waiting_on m db key) \<and>
    wake_queue m' = wake_queue m @ map (request db key) (take n (waiting_on m db key)) \<and>
    take_wakeups m' = (m'\<lparr>wake_queue := drop 32 (wake_queue m')\<rparr>, take 32 (wake_queue m'))"
  using notify_many [OF assms(1,2), where key = key and n = n] assms(3) by (simp add: Let_def take_wakeups_exact)

theorem served_in_order_witness:
  "snd (take_wakeups ((notify_key_ready 0 ''a'' ^^ 2) (fst (register_blocked 0 7 [''a''] BLPop None 5 (new_manager 1)))))
     = [\<lparr>wake_conn = 7, wake_db = 0, wake_key = ''a'', wake_op = BLPop\<rparr>]"
proof -
  let ?b = "\<lparr>conn_id = 7, blocked_at = 5, deadline = None, op_type = BLPop\<rparr>"
  have n: "length (registries (new_manager 1)) = 1" "wake_queue (new_manager 1) = []" by (simp_all add: new_manager_def)
  have "0 < length (registries (new_manager 1))" using n(1) by linarith
  from register_blocked_ok [OF new_manager_ok(1) this refl, of 7 "[''a'']" BLPop None 5] n
  obtain m where m: "register_blocked 0 7 [''a''] BLPop None 5 (new_manager 1) = (m, Ok ())" "manager_ok m" "wake_queue m = []"
    "length (registries m) = 1" "waiting_on m 0 ''a'' = [?b]"
    by (auto simp: new_manager_ok(2))
  have "0 < length (registries m)" using m(4) by linarith
  from served_in_order [OF m(2) this refl, of 2 "''a''"] m(1,3,5) show ?thesis by (simp add: request_def)
qed

end
