(* ===== verification/Engine_Calls.thy ===== *)
theory Engine_Calls
  imports Engine_Keys
begin

text \<open>
  Sequences of engine operations.  \<open>engine_call\<close> lists the operations that change the engine, \<open>exec\<close>
  runs one, and \<open>reachable\<close> are the states that arise from the initial one.  The properties here are
  those of the engine as a whole: its invariant, the independence of keys, and the \<^verbatim>\<open>WATCH\<close> protocol.
\<close>

section \<open>Calls\<close>

datatype engine_call =
    SetString nat bytes bytes nat
  | SetStringEx nat bytes bytes nat nat
  | SetStringNx nat bytes bytes nat
  | SetStringNxEx nat bytes bytes nat nat nat
  | Get nat bytes nat
  | Delete nat bytes
  | Expire nat bytes nat nat nat
  | Persist nat bytes
  | IncrBy nat bytes i64 nat
  | Append nat bytes bytes nat
  | SetRange nat bytes nat bytes nat
  | LPush nat bytes "bytes list" nat
  | RPush nat bytes "bytes list" nat
  | LPop nat bytes
  | RPop nat bytes
  | LSet nat bytes int bytes
  | LTrim nat bytes int int
  | LRem nat bytes int bytes
  | SAdd nat bytes "bytes list" nat
  | SRem nat bytes "bytes list"
  | SPop nat bytes "bytes list \<Rightarrow> bytes list" nat
  | HSet nat bytes "(bytes \<times> bytes) list" nat
  | HDel nat bytes "bytes list"
  | HIncrBy nat bytes bytes i64 nat
  | ZAdd nat bytes nat bytes f64 nat
  | ZRem nat bytes bytes
  | ZIncrBy nat bytes "f64 \<Rightarrow> f64 \<Rightarrow> f64" nat bytes f64 nat
  | XAdd nat bytes u64 bool bool "(bytes \<times> bytes) list" nat
  | XAddWithId nat bytes stream_id "(bytes \<times> bytes) list" nat
  | XTrim nat bytes nat
  | XDel nat bytes "stream_id list"
  | Sweep nat bytes
  | RegisterWatch nat bytes
  | UnregisterWatch nat bytes
  | Rename nat bytes bytes
  | FlushDb nat

definition quiet :: "'a shard_op \<Rightarrow> unit shard_op" where
  "quiet op s = (fst (op s), Ok ())"

text \<open>The calls on one key, with their database, their key and the operation under the lock.\<close>

fun call_op :: "engine_call \<Rightarrow> (nat \<times> bytes \<times> unit shard_op) option" where
  "call_op (SetString db k b now) = Some (db, k, quiet (set_string k b now))"
| "call_op (SetStringEx db k b d now) = Some (db, k, quiet (set_string_ex k b d now))"
| "call_op (SetStringNx db k b now) = Some (db, k, quiet (set_string_nx k b now))"
| "call_op (SetStringNxEx db k b d now now2) = Some (db, k, quiet (set_string_nx_ex k b d now now2))"
| "call_op (Get db k now) = Some (db, k, quiet (engine_get k now))"
| "call_op (Delete db k) = Some (db, k, quiet (delete_key k))"
| "call_op (Expire db k d now now2) = Some (db, k, quiet (expire k d now now2))"
| "call_op (Persist db k) = Some (db, k, quiet (persist k))"
| "call_op (IncrBy db k n now) = Some (db, k, quiet (incr_by k n now))"
| "call_op (Append db k b now) = Some (db, k, quiet (append_string k b now))"
| "call_op (SetRange db k off b now) = Some (db, k, quiet (setrange k off b now))"
| "call_op (LPush db k xs now) = Some (db, k, quiet (lpush k xs now))"
| "call_op (RPush db k xs now) = Some (db, k, quiet (rpush k xs now))"
| "call_op (LPop db k) = Some (db, k, quiet (lpop k))"
| "call_op (RPop db k) = Some (db, k, quiet (rpop k))"
| "call_op (LSet db k i b) = Some (db, k, quiet (lset k i b))"
| "call_op (LTrim db k i j) = Some (db, k, quiet (ltrim k i j))"
| "call_op (LRem db k c x) = Some (db, k, quiet (lrem k c x))"
| "call_op (SAdd db k xs now) = Some (db, k, quiet (sadd k xs now))"
| "call_op (SRem db k xs) = Some (db, k, quiet (srem k xs))"
| "call_op (SPop db k shuffle c) = Some (db, k, quiet (spop shuffle k c))"
| "call_op (HSet db k fvs now) = Some (db, k, quiet (hset k fvs now))"
| "call_op (HDel db k fs) = Some (db, k, quiet (hdel k fs))"
| "call_op (HIncrBy db k f n now) = Some (db, k, quiet (hincrby k f n now))"
| "call_op (ZAdd db k l x score now) = Some (db, k, quiet (zadd l k x score now))"
| "call_op (ZRem db k x) = Some (db, k, quiet (zrem k x))"
| "call_op (ZIncrBy db k fadd l x n now) = Some (db, k, quiet (zincrby fadd l k x n now))"
| "call_op (XAdd db k ms ok1 ok2 fvs now) = Some (db, k, quiet (xadd ms ok1 ok2 k fvs now))"
| "call_op (XAddWithId db k i fvs now) = Some (db, k, quiet (xadd_with_id k i fvs now))"
| "call_op (XTrim db k n) = Some (db, k, quiet (xtrim k n))"
| "call_op (XDel db k ids) = Some (db, k, quiet (xdel k ids))"
| "call_op (Sweep db k) = Some (db, k, sweep_key k)"
| "call_op _ = None"

fun exec :: "engine_call \<Rightarrow> storage_engine \<Rightarrow> storage_engine" where
  "exec (Rename db k k') e = fst (rename_key db k k' e)"
| "exec (FlushDb db) e = fst (flush_db db e)"
| "exec (RegisterWatch db k) e = fst (on_shard db k (register_watch k) e)"
| "exec (UnregisterWatch db k) e = fst (on_shard db k unregister_watch e)"
| "exec c e = (case call_op c of Some (db, k, op) \<Rightarrow> fst (on_shard db k op e) | None \<Rightarrow> e)"

text \<open>
  What the command layer checks before it calls: pushes and adds have at least one element; scores
  are numbers; the level drawn by \<^verbatim>\<open>random_level\<close> is in range.
\<close>

fun call_ok :: "engine_call \<Rightarrow> bool" where
  "call_ok (LPush db k xs now) = (xs \<noteq> [])"
| "call_ok (RPush db k xs now) = (xs \<noteq> [])"
| "call_ok (SAdd db k xs now) = (xs \<noteq> [])"
| "call_ok (HSet db k fvs now) = (fvs \<noteq> [])"
| "call_ok (ZAdd db k l x score now) = (\<not> is_nan_f64 score \<and> l < MAX_LEVEL)"
| "call_ok (ZIncrBy db k fadd l x n now) = (\<not> is_nan_f64 n \<and> l < MAX_LEVEL \<and> (\<forall>x. \<not> is_nan_f64 x \<longrightarrow> \<not> is_nan_f64 (fadd x n)))"
| "call_ok c = True"

inductive reachable :: "storage_engine \<Rightarrow> bool" where
  start: "reachable (with_config n m)"
| step: "reachable e \<Longrightarrow> call_ok c \<Longrightarrow> reachable (exec c e)"

section \<open>Calls keep the contract\<close>

lemma quiet_operation: "shard_operation key op \<Longrightarrow> shard_operation key (quiet op)"
  by (simp add: shard_operation_def shard_local_def shard_operation_axioms_def quiet_def)

interpretation sweep_key: shard_operation key "sweep_key key" for key
  by unfold_locales (auto split: op_splits)

lemma call_op_operation:
  "call_op c = Some (db, k, op) \<Longrightarrow> call_ok c \<Longrightarrow> shard_operation k op"
  by (cases c) (auto intro!: quiet_operation lpush_operation rpush_operation sadd_operation hset_operation
      zadd_operation zincrby_operation set_string.shard_operation_axioms set_string_ex.shard_operation_axioms
      set_string_nx.shard_operation_axioms set_string_nx_ex.shard_operation_axioms engine_get.shard_operation_axioms
      delete_key.shard_operation_axioms expire.shard_operation_axioms persist.shard_operation_axioms
      incr_by.shard_operation_axioms append_string.shard_operation_axioms setrange.shard_operation_axioms
      lpop.shard_operation_axioms rpop.shard_operation_axioms lset.shard_operation_axioms ltrim.shard_operation_axioms
      lrem.shard_operation_axioms srem.shard_operation_axioms spop.shard_operation_axioms hdel.shard_operation_axioms
      hincrby.shard_operation_axioms zrem.shard_operation_axioms xadd.shard_operation_axioms
      xadd_with_id.shard_operation_axioms xtrim.shard_operation_axioms xdel.shard_operation_axioms
      sweep_key.shard_operation_axioms)

interpretation register_watch: shard_local key "register_watch k" for key k
  by unfold_locales (auto simp: Let_def shard_ok_def data_get_def expiring_get_def)

interpretation unregister_watch: shard_local key unregister_watch for key
  by unfold_locales (auto simp: Let_def shard_ok_def data_get_def expiring_get_def)

section \<open>Replacing one shard\<close>

lemma shard_bound: "engine_ok e \<Longrightarrow> db < length (databases e) \<Longrightarrow> get_shard_index k < length (databases e ! db)"
  using engine_ok_nth [of e db] get_shard_index_bound [of k] by (simp add: database_ok_def)

lemma shard_of_put:
  assumes "engine_ok e" "db < length (databases e)"
  shows "shard_of (put_shard db (get_shard_index k) sh e) db' k' =
    (if db' = db \<and> get_shard_index k' = get_shard_index k then sh else shard_of e db' k')"
  using assms(2) shard_bound [OF assms] by (simp add: put_shard_def shard_of_def nth_list_update)

lemma shard_of_on_shard:
  assumes "engine_ok e" "db < length (databases e)"
  shows "shard_of (fst (on_shard db k op e)) db' k' =
    (if db' = db \<and> get_shard_index k' = get_shard_index k then fst (fst (op (shard_of e db k, memory e))) else shard_of e db' k')"
  using assms(2) shard_bound [OF assms]
  by (simp add: on_shard_def shard_of_def nth_list_update Let_def split: prod.split)

lemma put_shard_ok:
  assumes "engine_ok e" "db < length (databases e)" "shard_ok sh"
    and "\<And>k. data_get k sh \<noteq> None \<Longrightarrow> get_shard_index k = i"
  shows "engine_ok (put_shard db i sh e)"
proof -
  have "database_ok ((databases e ! db)[i := sh])"
    using database_ok_update [OF engine_ok_nth [OF assms(1,2)] assms(3,4)] .
  then show ?thesis using assms(1)
    by (auto simp: engine_ok_def put_shard_def dest!: set_update_subset_insert [THEN subsetD])
qed

lemma shard_of_ok:
  assumes "engine_ok e" "db < length (databases e)"
  shows "shard_ok (shard_of e db k)" "data_get k' (shard_of e db k) \<noteq> None \<Longrightarrow> get_shard_index k' = get_shard_index k"
  using engine_ok_nth [OF assms] get_shard_index_bound [of k] by (auto simp: database_ok_def shard_of_def)

lemma put_shard_length [simp]: "length (databases (put_shard db i sh e)) = length (databases e)"
  by (simp add: put_shard_def)

lemma put_shard_same [simp]:
  "db < length (databases e) \<Longrightarrow> put_shard db i sh (put_shard db i sh' e) = put_shard db i sh e"
  by (simp add: put_shard_def)

text \<open>Both branches of \<^verbatim>\<open>rename\<close> remove the value from one shard and then insert it in the other.\<close>

lemma rename_key_eq:
  assumes "engine_ok e" "db < length (databases e)" "lookup e db k = Some sv"
  defines "e1 \<equiv> put_shard db (get_shard_index k) (data_remove k (shard_of e db k)) e"
  shows "rename_key db k k' e =
    (put_shard db (get_shard_index k') (mark_modified k' (data_insert k' sv (shard_of e1 db k'))) e1, Ok ())"
  using assms(2,3) shard_of_put [OF assms(1,2), of k "data_remove k (shard_of e db k)" db k']
  by (cases "get_shard_index k' = get_shard_index k"; simp add: e1_def rename_key_def lookup_def Let_def;
      simp add: shard_of_def)

lemma rename_key_missing: "db < length (databases e) \<Longrightarrow> lookup e db k = None \<Longrightarrow> rename_key db k k' e = (e, Err (Command NoSuchKey))"
  by (cases "get_shard_index k' = get_shard_index k") (simp_all add: rename_key_def lookup_def shard_of_def Let_def)

lemma rename_key_ok:
  assumes "engine_ok e"
  shows "engine_ok (fst (rename_key db k k' e))"
proof (cases "db < length (databases e) \<and> lookup e db k \<noteq> None")
  case True
  then obtain sv where db: "db < length (databases e)" and sv: "lookup e db k = Some sv" by auto
  define e1 where "e1 = put_shard db (get_shard_index k) (data_remove k (shard_of e db k)) e"
  have e1: "engine_ok e1" unfolding e1_def
    using shard_of_ok [OF assms db] by (intro put_shard_ok [OF assms db]) (auto split: if_splits)
  have db1: "db < length (databases e1)" using db by (simp add: e1_def)
  show ?thesis unfolding rename_key_eq [OF assms db sv, folded e1_def]
    using shard_of_ok [OF e1 db1] lookup_ok [OF assms sv] by (auto intro!: put_shard_ok [OF e1 db1] split: if_splits)
next
  case False
  then show ?thesis using assms rename_key_missing [of db e k k'] by (auto simp: rename_key_def)
qed

lemma flush_db_ok: "engine_ok e \<Longrightarrow> engine_ok (fst (flush_db db e))"
proof (cases "db < length (databases e)")
  case True
  assume e: "engine_ok e"
  have "database_ok (map flush_shard (databases e ! db))"
    using engine_ok_nth [OF e True] by (auto simp: database_ok_def flush_shard_def shard_ok_def data_get_def)
  then show ?thesis using e True
    by (auto simp: flush_db_def engine_ok_def dest!: set_update_subset_insert [THEN subsetD])
qed (simp add: flush_db_def)

lemma exec_ok:
  assumes "engine_ok e" "call_ok c"
  shows "engine_ok (exec c e)"
proof (cases "call_op c")
  case (Some x)
  then obtain db k op where c: "call_op c = Some (db, k, op)" by (cases x) auto
  then have "exec c e = fst (on_shard db k op e)" by (cases c) auto
  then show ?thesis
    using shard_local.engine_keeps [OF shard_operation.axioms(1) [OF call_op_operation [OF c assms(2)]] assms(1)] by simp
next
  case None
  then show ?thesis using assms(1)
    by (cases c) (auto intro: rename_key_ok flush_db_ok register_watch.engine_keeps unregister_watch.engine_keeps)
qed

lemma reachable_ok: "reachable e \<Longrightarrow> engine_ok e"
  by (induction rule: reachable.induct) (auto intro: with_config_ok exec_ok)

lemma exec_length [simp]: "length (databases (exec c e)) = length (databases e)"
proof -
  have on: "length (databases (fst (on_shard db k op e))) = length (databases e)"
     "length (databases (fst (on_shard db k op' e))) = length (databases e)"
    for db k and op :: "unit shard_op" and op' :: "u64 shard_op"
    by (simp_all add: on_shard_def Let_def split: prod.split)
  have "length (databases (fst (rename_key db k k' e))) = length (databases e)" for db k k'
    by (auto simp: rename_key_def Let_def split: option.splits)
  then show ?thesis using on by (cases c) (auto simp: flush_db_def)
qed

section \<open>What a call does to a key and to its watch tracker\<close>

fun touches :: "nat \<Rightarrow> bytes \<Rightarrow> engine_call \<Rightarrow> bool" where
  "touches db key (Rename d a b) \<longleftrightarrow> d = db \<and> (a = key \<or> b = key)"
| "touches db key (FlushDb d) \<longleftrightarrow> d = db"
| "touches db key c \<longleftrightarrow> (case call_op c of Some (d, k, _) \<Rightarrow> d = db \<and> k = key | None \<Rightarrow> False)"

lemma touches_op: "call_op c = Some (d, k, op) \<Longrightarrow> touches db key c \<longleftrightarrow> d = db \<and> k = key"
  by (cases c) auto

lemma exec_op: "call_op c = Some (d, k, op) \<Longrightarrow> exec c e = fst (on_shard d k op e)"
  by (cases c) auto

lemma lookup_put:
  assumes "engine_ok e" "db < length (databases e)"
  shows "lookup (put_shard db (get_shard_index k) sh e) db' k' =
    (if db' = db \<and> get_shard_index k' = get_shard_index k then data_get k' sh else lookup e db' k')"
  unfolding lookup_def shard_of_put [OF assms] using assms(2) by auto

lemma rename_lookup:
  assumes "engine_ok e" "db < length (databases e)" "lookup e db k = Some sv"
  shows "lookup (fst (rename_key db k k' e)) db' j =
    (if db' = db \<and> j = k' then Some sv else if db' = db \<and> j = k then None else lookup e db' j)"
proof -
  define e1 where "e1 = put_shard db (get_shard_index k) (data_remove k (shard_of e db k)) e"
  have e1: "engine_ok e1" unfolding e1_def
    using shard_of_ok [OF assms(1,2)] by (intro put_shard_ok [OF assms(1,2)]) (auto split: if_splits)
  have db1: "db < length (databases e1)" using assms(2) by (simp add: e1_def)
  have l1: "lookup e1 db' j = (if db' = db \<and> j = k then None else lookup e db' j)" for db' j
    using assms(2) shard_of_def [of e db j] shard_of_def [of e db k] unfolding e1_def lookup_put [OF assms(1,2)] by (auto simp: lookup_def)
  have "data_get j (shard_of e1 db k') = lookup e1 db j" if "get_shard_index j = get_shard_index k'"
    using db1 that shard_of_def [of e1 db j] shard_of_def [of e1 db k'] by (simp add: lookup_def)
  then show ?thesis
    unfolding rename_key_eq [OF assms, folded e1_def] fst_conv lookup_put [OF e1 db1] using l1 by auto
qed

lemma exec_frame:
  assumes "engine_ok e" "call_ok c" "\<not> touches db key c"
  shows "lookup (exec c e) db key = lookup e db key"
proof (cases "call_op c")
  case (Some x)
  then obtain d k op where c: "call_op c = Some (d, k, op)" by (cases x) auto
  then show ?thesis
    using shard_local.engine_frame(1) [OF shard_operation.axioms(1) [OF call_op_operation [OF c assms(2)]] assms(1), of db key d]
      assms(3) touches_op [OF c, of db key] exec_op [OF c] by auto
next
  case None
  show ?thesis
  proof (cases c)
    case (Rename d a b)
    then show ?thesis using assms rename_lookup [OF assms(1), of d a] rename_key_missing [of d e a b]
      by (cases "d < length (databases e)"; cases "lookup e d a") (auto simp: rename_key_def)
  next
    case (FlushDb d)
    then show ?thesis using assms(3) by (auto simp: flush_db_def lookup_def shard_of_def)
  next
    case (RegisterWatch d k)
    then show ?thesis
      using shard_of_on_shard [OF assms(1), of d k "register_watch k" db key] on_shard_invalid [of d e k "register_watch k"]
      by (cases "d < length (databases e)") (auto simp: lookup_def Let_def data_get_def shard_of_def on_shard_def)
  next
    case (UnregisterWatch d k)
    then show ?thesis
      using shard_of_on_shard [OF assms(1), of d k unregister_watch db key] on_shard_invalid [of d e k unregister_watch]
      by (cases "d < length (databases e)") (auto simp: lookup_def Let_def data_get_def shard_of_def on_shard_def)
  qed (use None in auto)
qed

end
