(* ===== verification/Engine_Watch.thy ===== *)
theory Engine_Watch
  imports Engine_Calls
begin

text \<open>
  The \<^verbatim>\<open>WATCH\<close> protocol over sequences of engine operations: the per-key counters of a shard detect every
  visible change of a watched key and are not disturbed by calls on other keys, although all keys of
  a shard draw from one counter.
\<close>

section \<open>What a call does to the tracker\<close>

abbreviation tracker_of :: "storage_engine \<Rightarrow> nat \<Rightarrow> bytes \<Rightarrow> shard_watch_tracker" where
  "tracker_of e db key \<equiv> watch_tracker (shard_of e db key)"

abbreviation value_of :: "storage_engine \<Rightarrow> nat \<Rightarrow> bytes \<Rightarrow> val option" where
  "value_of e db key \<equiv> map_option sv_value (lookup e db key)"

definition same_counters :: "shard_watch_tracker \<Rightarrow> shard_watch_tracker \<Rightarrow> bool" where
  "same_counters w w' \<longleftrightarrow> key_counters w' = key_counters w \<and> global_counter w' = global_counter w"

text \<open>The calls that \<^verbatim>\<open>WATCH\<close> can see; a flush and the old name of a rename are not marked.\<close>

fun visible :: "nat \<Rightarrow> bytes \<Rightarrow> engine_call \<Rightarrow> bool" where
  "visible db key (FlushDb d) \<longleftrightarrow> d \<noteq> db"
| "visible db key (Rename d a b) \<longleftrightarrow> d \<noteq> db \<or> a \<noteq> key"
| "visible db key c \<longleftrightarrow> True"

lemma shard_of_same_index: "get_shard_index a = get_shard_index b \<Longrightarrow> shard_of e db a = shard_of e db b"
  by (simp add: shard_of_def)

lemma op_tracker:
  assumes "engine_ok e" "shard_operation k op" "d < length (databases e)"
  shows "tracker_of (fst (on_shard d k op e)) db key = tracker_of e db key \<or>
    d = db \<and> tracker_of (fst (on_shard d k op e)) db key = mark_key_modified k (tracker_of e db key)"
  using shard_operation.tracked [OF assms(2) shard_of_ok(1) [OF assms(1,3)], of k "memory e"]
    shard_of_on_shard [OF assms(1,3), of k op db key] shard_of_same_index [of k key e d]
  by auto

lemma rename_tracker:
  assumes "engine_ok e" "d < length (databases e)" "lookup e d a = Some sv"
  shows "tracker_of (fst (rename_key d a b e)) db key =
    (if db = d \<and> get_shard_index key = get_shard_index b then mark_key_modified b (tracker_of e db key) else tracker_of e db key)"
proof -
  define e1 where "e1 = put_shard d (get_shard_index a) (data_remove a (shard_of e d a)) e"
  have e1: "engine_ok e1" unfolding e1_def
    using shard_of_ok [OF assms(1,2)] by (intro put_shard_ok [OF assms(1,2)]) (auto split: if_splits)
  have d1: "d < length (databases e1)" using assms(2) by (simp add: e1_def)
  have "tracker_of e1 db j = tracker_of e db j" for j
    unfolding e1_def shard_of_put [OF assms(1,2)] using shard_of_same_index [of j a e d] by auto
  then show ?thesis
    unfolding rename_key_eq [OF assms, folded e1_def] fst_conv shard_of_put [OF e1 d1]
    using shard_of_same_index [of key b e1 d] shard_of_same_index [of key b e d] by auto
qed

lemma counters_only:
  assumes "engine_ok e" "\<And>s. same_counters (watch_tracker (fst s)) (watch_tracker (fst (fst (op s))))"
  shows "same_counters (tracker_of e db key) (tracker_of (fst (on_shard d k op e)) db key)"
proof (cases "d < length (databases e)")
  case True
  then show ?thesis using assms(2) [of "(shard_of e d k, memory e)"] shard_of_on_shard [OF assms(1) True, of k op db key]
      shard_of_same_index [of key k e d] by (auto simp: same_counters_def)
qed (simp add: on_shard_invalid same_counters_def)

lemma watch_calls_tracker:
  assumes "engine_ok e"
  shows "same_counters (tracker_of e db key) (tracker_of (fst (on_shard d k (register_watch j) e)) db key)"
    "same_counters (tracker_of e db key) (tracker_of (fst (on_shard d k unregister_watch e)) db key)"
  by (rule counters_only [OF assms]; clarsimp simp: same_counters_def Let_def)+

lemma exec_rename_tracker:
  assumes "engine_ok e" "visible db key (Rename d a b)"
  defines "e' \<equiv> exec (Rename d a b) e"
  shows "touches db key (Rename d a b) \<and> tracker_of e' db key = mark_key_modified key (tracker_of e db key) \<or>
    value_of e' db key = value_of e db key \<and>
      (same_counters (tracker_of e db key) (tracker_of e' db key) \<or>
       (\<exists>k. k \<noteq> key \<and> tracker_of e' db key = mark_key_modified k (tracker_of e db key)))"
proof (cases "d < length (databases e) \<and> lookup e d a \<noteq> None")
  case True
  then obtain sv where t: "d < length (databases e)" "lookup e d a = Some sv" by auto
  have e': "e' = fst (rename_key d a b e)" by (simp add: e'_def)
  note tr = rename_tracker [OF assms(1) t, of b db key, folded e'] and lk = rename_lookup [OF assms(1) t, of b db key, folded e']
  consider "db = d" "b = key" | "db = d" "b \<noteq> key" "get_shard_index key = get_shard_index b"
    | "db \<noteq> d \<or> get_shard_index key \<noteq> get_shard_index b" by blast
  then show ?thesis using tr lk assms(2) by cases (auto simp: same_counters_def)
next
  case False
  then have "e' = e" using rename_key_missing [of d e a b] by (auto simp: e'_def rename_key_def)
  then show ?thesis by (simp add: same_counters_def)
qed

text \<open>A call marks at most one key of a shard, marks the watched key when it changes its value, and no call that leaves the key alone marks it.\<close>

lemma exec_tracker:
  assumes "engine_ok e" "call_ok c" "visible db key c"
  shows "touches db key c \<and> tracker_of (exec c e) db key = mark_key_modified key (tracker_of e db key) \<or>
    value_of (exec c e) db key = value_of e db key \<and>
      (same_counters (tracker_of e db key) (tracker_of (exec c e) db key) \<or>
       (\<exists>k. k \<noteq> key \<and> tracker_of (exec c e) db key = mark_key_modified k (tracker_of e db key)))"
proof (cases "call_op c")
  case (Some x)
  then obtain d k op where c: "call_op c = Some (d, k, op)" by (cases x) auto
  have op: "shard_operation k op" by (rule call_op_operation [OF c assms(2)])
  show ?thesis
  proof (cases "d < length (databases e)")
    case False
    then show ?thesis by (simp add: exec_op [OF c] on_shard_invalid same_counters_def)
  next
    case d: True
    show ?thesis
    proof (cases "d = db \<and> k = key")
      case True
      have "shard_ok (shard_of e d k)" using shard_of_ok(1) [OF assms(1) d] .
      from shard_operation.tracked [OF op this, of "memory e"] True d
      show ?thesis
        using shard_of_on_shard [OF assms(1) d, of k op d k] touches_op [OF c, of db key]
        by (auto simp: exec_op [OF c] lookup_def same_counters_def on_shard_def Let_def split: prod.splits)
    next
      case False
      then have "\<not> touches db key c" using touches_op [OF c] by auto
      from exec_frame [OF assms(1,2) this] show ?thesis
        using op_tracker [OF assms(1) op d, of db key] False by (auto simp: exec_op [OF c] same_counters_def)
    qed
  qed
next
  case None
  show ?thesis
  proof (cases "touches db key c")
    case False
    note same = exec_frame [OF assms(1,2) this]
    show ?thesis
    proof (cases c)
      case (Rename d a b)
      then show ?thesis using exec_rename_tracker [OF assms(1), of db key d a b] assms by simp
    next
      case (FlushDb d)
      then show ?thesis using same False by (auto simp: same_counters_def flush_db_def shard_of_def)
    qed (use None same watch_calls_tracker [OF assms(1)] in auto)
  next
    case True
    then obtain a where "c = Rename db a key" using None assms(3) by (cases c) auto
    then show ?thesis using exec_rename_tracker [OF assms(1), of db key db a key] assms by simp
  qed
qed

text \<open>A run of calls during which the watch stays registered and the shard's 64-bit counter does not overflow.\<close>

fun watched :: "nat \<Rightarrow> bytes \<Rightarrow> engine_call list \<Rightarrow> storage_engine \<Rightarrow> bool" where
  "watched db key [] e = True"
| "watched db key (c # cs) e \<longleftrightarrow> call_ok c \<and> visible db key c \<and> active_watchers (tracker_of e db key) \<noteq> 0 \<and>
     global_counter (tracker_of e db key) \<noteq> - 1 \<and> watched db key cs (exec c e)"

definition tracker_ok :: "shard_watch_tracker \<Rightarrow> bool" where
  "tracker_ok w \<longleftrightarrow> (\<forall>k. get_key_counter k w \<le> global_counter w)"

lemma word_less_inc: "x \<le> g \<Longrightarrow> g \<noteq> - 1 \<Longrightarrow> x < g + 1" for x g :: u64
proof -
  assume "x \<le> g" "g \<noteq> - 1"
  then have "g + 1 \<noteq> 0" by (metis add_eq_0_iff2)
  then have "unat (g + 1) = Suc (unat g)" by (rule unatSuc [unfolded add.commute [of 1]])
  then show ?thesis using \<open>x \<le> g\<close> by (simp add: word_less_nat_alt word_le_nat_alt)
qed

lemma mark_counters:
  assumes "tracker_ok w" "active_watchers w \<noteq> 0" "global_counter w \<noteq> - 1"
  shows "tracker_ok (mark_key_modified k w)" "get_key_counter j w < get_key_counter k (mark_key_modified k w)"
    "j \<noteq> k \<Longrightarrow> get_key_counter j (mark_key_modified k w) = get_key_counter j w"
proof -
  have c: "get_key_counter j (mark_key_modified k w) = (if j = k then global_counter w + 1 else get_key_counter j w)"
    "global_counter (mark_key_modified k w) = global_counter w + 1" for j
    using assms(2) by (simp_all add: mark_key_modified_def get_key_counter_def Let_def)
  have l: "get_key_counter j w < global_counter w + 1" for j
    using assms(1,3) word_less_inc by (simp add: tracker_ok_def)
  show "tracker_ok (mark_key_modified k w)" using c l by (auto simp: tracker_ok_def less_imp_le)
  show "get_key_counter j w < get_key_counter k (mark_key_modified k w)" using c l by simp
  show "j \<noteq> k \<Longrightarrow> get_key_counter j (mark_key_modified k w) = get_key_counter j w" using c by simp
qed

lemma same_counters_eq:
  "same_counters w w' \<Longrightarrow> get_key_counter k w' = get_key_counter k w"
  "same_counters w w' \<Longrightarrow> tracker_ok w' = tracker_ok w"
  by (simp_all add: same_counters_def get_key_counter_def tracker_ok_def)

lemma watched_step:
  assumes "engine_ok e" "call_ok c" "visible db key c" "tracker_ok (tracker_of e db key)"
    "active_watchers (tracker_of e db key) \<noteq> 0" "global_counter (tracker_of e db key) \<noteq> - 1"
  shows "tracker_ok (tracker_of (exec c e) db key)"
    "get_key_counter key (tracker_of e db key) < get_key_counter key (tracker_of (exec c e) db key) \<and> touches db key c \<or>
     get_key_counter key (tracker_of (exec c e) db key) = get_key_counter key (tracker_of e db key) \<and>
       value_of (exec c e) db key = value_of e db key"
  using exec_tracker [OF assms(1-3)] mark_counters [OF assms(4-6)] same_counters_eq [of "tracker_of e db key"] assms(4)
  by metis+

lemma watched_run:
  assumes "engine_ok e" "watched db key cs e" "tracker_ok (tracker_of e db key)"
  shows "(get_key_counter key (tracker_of e db key) < get_key_counter key (tracker_of (fold exec cs e) db key) \<or>
      get_key_counter key (tracker_of e db key) = get_key_counter key (tracker_of (fold exec cs e) db key) \<and>
      value_of (fold exec cs e) db key = value_of e db key) \<and>
    (list_all (\<lambda>c. \<not> touches db key c) cs \<longrightarrow>
      get_key_counter key (tracker_of e db key) = get_key_counter key (tracker_of (fold exec cs e) db key))"
  using assms
proof (induction cs arbitrary: e)
  case (Cons c cs)
  then have ok: "engine_ok (exec c e)" by (intro exec_ok) auto
  note st = watched_step [of e c db key]
  show ?case using Cons.IH [OF ok] st Cons.prems by (auto dest: less_trans)
qed simp

section \<open>Properties\<close>

lemma run_frame:
  "engine_ok e \<Longrightarrow> list_all call_ok cs \<Longrightarrow> list_all (\<lambda>c. \<not> touches db key c) cs \<Longrightarrow>
    lookup (fold exec cs e) db key = lookup e db key"
  by (induction cs arbitrary: e) (auto simp: exec_frame exec_ok)

lemma run_length: "length (databases (fold exec cs e)) = length (databases e)"
  by (induction cs arbitrary: e) auto

lemma new_tracker: "tracker_of (with_config (Suc n) m) 0 key = watch_tracker new_shard"
  using get_shard_index_bound [of key] by (simp add: with_config_def shard_of_def new_database_def)

lemma watched_calls_ok: "watched db key cs e \<Longrightarrow> list_all call_ok cs"
  by (induction cs arbitrary: e) auto

lemma watch_reports:
  assumes "engine_ok e1" "db < length (databases e1)" "tracker_ok (tracker_of e1 db key)" "watched db key cs e1"
    "baseline = get_key_counter key (tracker_of e1 db key)" "e2 = fold exec cs e1"
  shows "(value_of e2 db key \<noteq> value_of e1 db key \<longrightarrow> snd (on_shard db key (was_modified_since key baseline now) e2) = Ok True) \<and>
    (list_all (\<lambda>c. \<not> touches db key c) cs \<longrightarrow>
      snd (on_shard db key (was_modified_since key baseline now) e2) =
        Ok (case lookup e1 db key of Some sv \<Rightarrow> is_expired now sv | None \<Rightarrow> False))"
proof -
  have run: "(baseline < get_key_counter key (tracker_of e2 db key) \<or>
      baseline = get_key_counter key (tracker_of e2 db key) \<and> value_of e2 db key = value_of e1 db key) \<and>
    (list_all (\<lambda>c. \<not> touches db key c) cs \<longrightarrow> baseline = get_key_counter key (tracker_of e2 db key))"
    using watched_run [OF assms(1,4,3)] assms(5,6) by simp
  have db2: "db < length (databases e2)"
    unfolding assms(6) run_length by (rule assms(2))
  then have reply: "snd (on_shard db key (was_modified_since key baseline now) e2) = Ok (if baseline < get_key_counter key (tracker_of e2 db key) then True
      else case lookup e2 db key of Some sv \<Rightarrow> is_expired now sv | None \<Rightarrow> False)"
    by (simp add: on_shard_def lookup_def shard_of_def Let_def)
  have unchanged: "lookup e2 db key = lookup e1 db key" if "list_all (\<lambda>c. \<not> touches db key c) cs"
    using run_frame [OF assms(1) watched_calls_ok [OF assms(4)] that] assms(6) by simp
  show ?thesis using reply run unchanged by auto
qed

lemma register_watch_step:
  assumes "engine_ok e" "db < length (databases e)" "e1 = exec (RegisterWatch db k) e"
  shows "snd (on_shard db k (register_watch k) e) = Ok (get_key_counter k (tracker_of e db k))" "engine_ok e1"
    "same_counters (tracker_of e d key) (tracker_of e1 d key)" "lookup e1 d key = lookup e d key"
proof -
  show "snd (on_shard db k (register_watch k) e) = Ok (get_key_counter k (tracker_of e db k))"
    using assms(2) by (simp add: on_shard_def shard_of_def Let_def get_key_counter_def)
  show "engine_ok e1" using exec_ok [OF assms(1), of "RegisterWatch db k"] assms(3) by simp
  show "same_counters (tracker_of e d key) (tracker_of e1 d key)" using watch_calls_tracker(1) [OF assms(1)] assms(3) by simp
  show "lookup e1 d key = lookup e d key" using exec_frame [OF assms(1), of "RegisterWatch db k" d key] assms(3) by simp
qed

lemma sample_watch:
  defines "e \<equiv> with_config 1 unlimited" and "cs \<equiv> [Append 0 ''k'' ''v'' 1]"
  shows "0 < length (databases e)" "tracker_ok (tracker_of e 0 ''k'')" "watched 0 ''k'' cs (exec (RegisterWatch 0 ''k'') e)"
    "Option.is_none (lookup e 0 ''k'') \<and> \<not> Option.is_none (lookup (fold exec cs (exec (RegisterWatch 0 ''k'') e)) 0 ''k'')"
proof -
  show d: "0 < length (databases e)" by (simp add: e_def with_config_def)
  have fresh: "tracker_of e 0 ''k'' = watch_tracker new_shard" using new_tracker [of 0] by (simp add: e_def)
  have ok: "engine_ok e" unfolding e_def by (rule with_config_ok)
  show "watched 0 ''k'' cs (exec (RegisterWatch 0 ''k'') e)"
    using shard_of_on_shard [OF ok d, of "''k''" "register_watch ''k''" 0 "''k''"] fresh by (simp add: cs_def Let_def new_shard_def)
  show "tracker_ok (tracker_of e 0 ''k'')" unfolding fresh by (simp add: tracker_ok_def get_key_counter_def new_shard_def)
  have "Option.is_none (lookup e 0 ''k'') \<and> \<not> Option.is_none (lookup (fst (on_shard 0 ''k'' (quiet (append_string ''k'' ''v'' 1))
      (fst (on_shard 0 ''k'' (register_watch ''k'') e)))) 0 ''k'')" unfolding e_def by code_simp
  then show "Option.is_none (lookup e 0 ''k'') \<and> \<not> Option.is_none (lookup (fold exec cs (exec (RegisterWatch 0 ''k'') e)) 0 ''k'')"
    by (simp add: cs_def)
qed



text \<open>
  \<^verbatim>\<open>FLUSHDB\<close> and \<^verbatim>\<open>RENAME\<close> escape \<^verbatim>\<open>WATCH\<close>: flushing a database removes every key without touching a
  counter, and renaming a key away removes it without touching its counter.
\<close>

theorem watch_misses:
  assumes "engine_ok e" "db < length (databases e)" "lookup e db key = Some sv" "new_key \<noteq> key"
  shows "lookup (exec (FlushDb db) e) db key = None \<and>
    get_key_counter key (tracker_of (exec (FlushDb db) e) db key) = get_key_counter key (tracker_of e db key) \<and>
    lookup (exec (Rename db key new_key) e) db key = None \<and>
    get_key_counter key (tracker_of (exec (Rename db key new_key) e) db key) = get_key_counter key (tracker_of e db key)"
proof -
  have flushed: "shard_of (exec (FlushDb db) e) db key = flush_shard (shard_of e db key)"
    using assms(2) shard_bound [OF assms(1,2), of key] by (simp add: flush_db_def shard_of_def)
  have "get_key_counter key (mark_key_modified new_key w) = get_key_counter key w" for w
    using assms(4) by (simp add: mark_key_modified_def get_key_counter_def Let_def)
  then show ?thesis
    using flushed assms(2,4) rename_lookup [OF assms(1-3), of new_key db key] rename_tracker [OF assms(1-3), of new_key db key]
    by (simp add: lookup_def flush_shard_def data_get_def)
qed

theorem watch_misses_witness:
  "Option.is_none (lookup (exec (FlushDb 0) sample_sets) 0 ''s'') \<and>
   get_key_counter ''s'' (tracker_of (exec (FlushDb 0) sample_sets) 0 ''s'') = get_key_counter ''s'' (tracker_of sample_sets 0 ''s'')"
proof -
  have "\<not> Option.is_none (lookup sample_sets 0 ''s'')" by code_simp
  then obtain sv where "lookup sample_sets 0 ''s'' = Some sv" by (auto simp: Option.is_none_def)
  from watch_misses [OF sample_sets_ok(1) _ this, of "''t''"] sample_sets_ok(2) show ?thesis by (simp add: Option.is_none_def)
qed

end
