(* ===== verification/Transactions.thy ===== *)
theory Transactions
  imports Conn Args Engine_Watch
begin

text \<open>
  Transactions of one connection (\<^verbatim>\<open>src/storage/commands/transactions.rs\<close>): \<^verbatim>\<open>MULTI\<close> opens a queue, commands are
  queued, \<^verbatim>\<open>WATCH\<close> remembers the modification counters of keys, and \<^verbatim>\<open>DISCARD\<close> and \<^verbatim>\<open>UNWATCH\<close> drop what was
  collected.  Handlers work on the connection and on the storage engine; \<open>now\<close> is the clock reading of
  the expiry test.
\<close>

section \<open>Handlers\<close>

definition set_tx :: "transaction_state \<Rightarrow> connection \<Rightarrow> connection" where
  "set_tx t c = c\<lparr>transaction := t\<rparr>"

definition handle_multi :: "connection \<Rightarrow> connection \<times> resp_frame" where
  "handle_multi c =
     (if in_transaction (transaction c) then (c, Error ''ERR MULTI calls can not be nested'')
      else (set_tx ((transaction c)\<lparr>in_transaction := True, queued_commands := [], aborted := False\<rparr>) c, resp_ok))"

definition handle_discard :: "connection \<Rightarrow> connection \<times> resp_frame" where
  "handle_discard c =
     (if \<not> in_transaction (transaction c) then (c, Error ''ERR DISCARD without MULTI'')
      else (set_tx ((transaction c)\<lparr>in_transaction := False, queued_commands := [], watched_keys := [], aborted := False\<rparr>) c, resp_ok))"

definition watch_key :: "bytes \<Rightarrow> u64 \<Rightarrow> connection \<Rightarrow> connection" where
  "watch_key key n c = set_tx ((transaction c)\<lparr>watched_keys := AList.update key n (watched_keys (transaction c))\<rparr>) c"

fun watch_loop :: "resp_frame list \<Rightarrow> connection \<Rightarrow> storage_engine \<Rightarrow> connection \<times> storage_engine \<times> resp_frame" where
  "watch_loop [] c e = (c, e, resp_ok)"
| "watch_loop (BulkString (Some key) # parts) c e =
     (case on_shard (db_index c) key (register_watch key) e of
        (e', Ok n) \<Rightarrow> watch_loop parts (watch_key key n c) e'
      | (e', _) \<Rightarrow>
          (case on_shard (db_index c) key (get_modification_counter key) e' of
             (e'', Ok n) \<Rightarrow> watch_loop parts (watch_key key n c) e''
           | (e'', _) \<Rightarrow> watch_loop parts (watch_key key 0 c) e''))"
| "watch_loop (_ # parts) c e = (c, e, Error ''ERR invalid key format'')"

definition handle_watch :: "resp_frame list \<Rightarrow> connection \<Rightarrow> storage_engine \<Rightarrow> connection \<times> storage_engine \<times> resp_frame" where
  "handle_watch parts c e =
     (if length parts < 2 then (c, e, wrong_args ''watch'')
      else if in_transaction (transaction c) then (c, e, Error ''ERR WATCH inside MULTI is not allowed'')
      else watch_loop (tl parts) c e)"

definition handle_unwatch :: "connection \<Rightarrow> storage_engine \<Rightarrow> connection \<times> storage_engine \<times> resp_frame" where
  "handle_unwatch c e =
     (set_tx ((transaction c)\<lparr>watched_keys := []\<rparr>) c,
      fold (\<lambda>key e. fst (on_shard (db_index c) key unregister_watch e)) (map fst (watched_keys (transaction c))) e, resp_ok)"

definition should_queue_command :: "nat list \<Rightarrow> bool" where
  "should_queue_command command \<longleftrightarrow>
     command \<notin> set (map (map of_char) [''MULTI'', ''EXEC'', ''DISCARD'', ''WATCH'', ''UNWATCH''])"

definition queue_command :: "resp_frame list \<Rightarrow> connection \<Rightarrow> connection \<times> resp_frame" where
  "queue_command parts c =
     (set_tx ((transaction c)\<lparr>queued_commands := queued_commands (transaction c) @ [parts]\<rparr>) c, SimpleString ''QUEUED'')"

section \<open>The handler of EXEC in this module\<close>

text \<open>
  As in the source, the command processor is an argument.  The first watched key that was modified, or
  an error of the check, ends the transaction before any command runs.
\<close>

fun check_watched :: "nat \<Rightarrow> nat \<Rightarrow> storage_engine \<Rightarrow> (bytes \<times> u64) list \<Rightarrow> bool result" where
  "check_watched db now e [] = Ok False"
| "check_watched db now e ((key, baseline) # ws) =
     (case snd (on_shard db key (was_modified_since key baseline now) e) of
        Ok True \<Rightarrow> Ok True
      | Ok False \<Rightarrow> check_watched db now e ws
      | Err x \<Rightarrow> Err x
      | Panic \<Rightarrow> Panic)"

type_synonym processor = "storage_engine \<Rightarrow> resp_frame list \<Rightarrow> connection \<Rightarrow> storage_engine \<times> connection \<times> resp_frame result"

fun run_queue :: "processor \<Rightarrow> resp_frame list list \<Rightarrow> storage_engine \<Rightarrow> connection \<Rightarrow> resp_frame list \<Rightarrow>
    storage_engine \<times> connection \<times> resp_frame list result" where
  "run_queue p [] e c acc = (e, c, Ok acc)"
| "run_queue p (cmd # cmds) e c acc =
     (case p e cmd c of
        (e', c', Ok r) \<Rightarrow> run_queue p cmds e' c' (acc @ [r])
      | (e', c', Err x) \<Rightarrow> run_queue p cmds e' c' (acc @ [Error (display_ferrous_error x)])
      | (e', c', Panic) \<Rightarrow> (e', c', Panic))"

definition tx_handle_exec :: "processor \<Rightarrow> nat \<Rightarrow> connection \<Rightarrow> storage_engine \<Rightarrow> storage_engine \<times> connection \<times> resp_frame result" where
  "tx_handle_exec p now c e =
     (if \<not> in_transaction (transaction c) then (e, c, Ok (Error ''ERR EXEC without MULTI''))
      else
        (let commands = queued_commands (transaction c);
             watched = watched_keys (transaction c);
             c = set_tx ((transaction c)\<lparr>in_transaction := False, queued_commands := []\<rparr>) c;
             unwatched = set_tx ((transaction c)\<lparr>watched_keys := []\<rparr>) c
         in if aborted (transaction c) then (e, unwatched, Ok null_array)
            else (case check_watched (db_index c) now e watched of
                    Ok True \<Rightarrow> (e, unwatched, Ok null_array)
                  | Ok False \<Rightarrow>
                      (case run_queue p commands e unwatched [] of
                         (e', c', Ok results) \<Rightarrow> (e', c', Ok (Array (Some results)))
                       | (e', c', Err x) \<Rightarrow> (e', c', Err x)
                       | (e', c', Panic) \<Rightarrow> (e', c', Panic))
                  | Err x \<Rightarrow> (e, c, Err x)
                  | Panic \<Rightarrow> (e, c, Panic))))"

section \<open>What a watch remembers\<close>

lemma set_tx_simps [simp]:
  "transaction (set_tx t c) = t" "db_index (set_tx t c) = db_index c" "state (set_tx t c) = state c" "ident (set_tx t c) = ident c"
  by (simp_all add: set_tx_def)

lemma watch_key_simps [simp]:
  "watched_keys (transaction (watch_key key n c)) = AList.update key n (watched_keys (transaction c))"
  "in_transaction (transaction (watch_key key n c)) = in_transaction (transaction c)" "db_index (watch_key key n c) = db_index c"
  "queued_commands (transaction (watch_key key n c)) = queued_commands (transaction c)" "aborted (transaction (watch_key key n c)) = aborted (transaction c)"
  by (simp_all add: watch_key_def)

lemma watch_loop_ok:
  assumes "engine_ok e" "db_index c < length (databases e)"
    "watch_loop (map (\<lambda>k. BulkString (Some k)) ks) c e = (c', e', r)"
  shows "r = resp_ok \<and> engine_ok e' \<and> length (databases e') = length (databases e) \<and>
    same_counters (tracker_of e d key) (tracker_of e' d key) \<and> lookup e' d key = lookup e d key \<and> db_index c' = db_index c \<and>
    transaction c' = (transaction c)\<lparr>watched_keys := watched_keys (transaction c')\<rparr> \<and>
    map_of (watched_keys (transaction c')) key =
      (if key \<in> set ks then Some (get_key_counter key (tracker_of e' (db_index c) key)) else map_of (watched_keys (transaction c)) key)"
  using assms
proof (induction ks arbitrary: c e d key)
  case Nil
  then show ?case by (simp add: same_counters_def)
next
  case (Cons k ks)
  let ?e = "exec (RegisterWatch (db_index c) k) e" and ?n = "get_key_counter k (tracker_of e (db_index c) k)"
  note step = register_watch_step [OF Cons.prems(1,2) refl, where k = k]
  have s: "on_shard (db_index c) k (register_watch k) e = (?e, Ok ?n)"
    using step(1) by (cases "on_shard (db_index c) k (register_watch k) e") simp
  have l: "db_index (watch_key k ?n c) < length (databases ?e)"
    unfolding exec_length watch_key_simps by (rule Cons.prems(2))
  have w: "watch_loop (map (\<lambda>k. BulkString (Some k)) ks) (watch_key k ?n c) ?e = (c', e', r)"
    using Cons.prems(3) s by (simp del: exec.simps)
  note ih = Cons.IH [OF step(2) l w]
  have t: "same_counters (tracker_of e d key) (tracker_of e' d key)" for d key
    using ih [of d key] step(3) [of d key] unfolding same_counters_def by metis
  have "get_key_counter k (tracker_of e' (db_index c) k) = ?n" using same_counters_eq(1) [OF t] .
  moreover have "lookup e' d key = lookup e d key" using ih step(4) by (simp del: exec.simps)
  moreover have "length (databases e') = length (databases e)" using ih by (simp del: exec.simps)
  moreover have "transaction c' = (transaction c)\<lparr>watched_keys := watched_keys (transaction c')\<rparr>"
    using ih by (simp add: watch_key_def del: exec.simps)
  ultimately show ?case using ih t by (auto simp del: exec.simps)
qed

lemma watch_loop_distinct:
  "distinct (map fst (watched_keys (transaction c))) \<Longrightarrow> distinct (map fst (watched_keys (transaction (fst (watch_loop parts c e)))))"
  by (induction parts c e rule: watch_loop.induct) (auto simp: distinct_update split: prod.splits result.splits)

end
