(* ===== verification/Engine_Spec.thy ===== *)
theory Engine_Spec
  imports Engine_Watch
begin

text \<open>
  Properties of the storage engine as its callers see it: the invariant of every reachable state, the
  independence of keys, expiration (on access and by the background sweep), counters, slices of
  strings, lists and sorted sets, and memory accounting.
\<close>

section \<open>Every reachable state\<close>



text \<open>
  C28: operations on other keys, in any number and order, leave the stored value and the deadline of a
  key as they are, also when the keys share a shard.
\<close>

theorem keys_independent:
  assumes "reachable e" "list_all call_ok cs" "list_all (\<lambda>c. \<not> touches db key c) cs"
  shows "lookup (fold exec cs e) db key = lookup e db key"
  by (rule run_frame [OF reachable_ok [OF assms(1)] assms(2,3)])

theorem keys_independent_witness:
  "lookup (fold exec [LPush 0 ''a'' [''x''] 1, FlushDb 1, Rename 0 ''a'' ''b''] (with_config 2 unlimited)) 0 ''k''
     = lookup (with_config 2 unlimited) 0 ''k''"
  by (rule keys_independent) (simp_all add: reachable.start)

section \<open>Writing and reading\<close>

lemma on_shard_valid: "db < length (databases e) \<Longrightarrow> snd (on_shard db k op e) = snd (op (shard_of e db k, memory e))"
  by (simp add: on_shard_def shard_of_def Let_def split: prod.split)

lemma lookup_on_shard:
  assumes "engine_ok e" "db < length (databases e)"
  shows "lookup (fst (on_shard db k op e)) db k = data_get k (fst (fst (op (shard_of e db k, memory e))))"
    "lookup_expiring (fst (on_shard db k op e)) db k = expiring_get k (fst (fst (op (shard_of e db k, memory e))))"
  using assms(2) shard_of_on_shard [OF assms, of k op db k]
  by (simp_all add: lookup_def lookup_expiring_def on_shard_def Let_def split: prod.split)

lemma on_shard_length: "length (databases (fst (on_shard db k op e))) = length (databases e)"
  by (simp add: on_shard_def Let_def split: prod.split)

lemma lookup_shard: "db < length (databases e) \<Longrightarrow> data_get k (shard_of e db k) = lookup e db k"
  by (simp add: lookup_def)

text \<open>
  C19: a value written with \<^verbatim>\<open>SET\<close> is what \<^verbatim>\<open>GET\<close> returns until its deadline has passed; the first access after
  the deadline reports it as expired and removes it from the data and from the expiration index, so
  that the next access finds nothing.
\<close>

theorem set_then_get:
  assumes "reachable e" "db < length (databases e)" "value_ok v"
    "on_shard db key (set_value key v expires_in now) e = (e1, Ok ())"
    "dead = (case expires_in of None \<Rightarrow> False | Some d \<Rightarrow> t > now + d)"
    "on_shard db key (engine_get key t) e1 = (e2, r)"
  shows "r = Ok (if dead then Expired else Found v) \<and>
    (if dead then lookup e2 db key = None \<and> lookup_expiring e2 db key = None \<and>
       snd (on_shard db key (engine_get key t2) e2) = Ok NotFound else e2 = e1)"
proof -
  note e = reachable_ok [OF assms(1)]
  have ok1: "engine_ok e1"
    using shard_local.engine_keeps [OF shard_operation.axioms(1) [OF set_value_operation [OF assms(3)]] e, of db key expires_in now]
      assms(4) by simp
  have db1: "db < length (databases e1)"
    using on_shard_length [of db key "set_value key v expires_in now" e] assms(2,4) by simp
  obtain sv where sv: "lookup e1 db key = Some sv" "sv_value sv = v"
    "expires_at (metadata sv) = map_option (\<lambda>d. now + d) expires_in"
    using lookup_on_shard(1) [OF e assms(2), of key "set_value key v expires_in now"]
      on_shard_valid [OF assms(2), of key "set_value key v expires_in now"] assms(4)
    by (auto simp: Let_def split: op_splits)
  have x: "is_expired t sv = dead" using sv(3) assms(5) by (simp add: is_expired_def split: option.splits)
  have r: "r = Ok (if dead then Expired else Found v)"
    using on_shard_valid [OF db1, of key "engine_get key t"] assms(6) sv x by (simp add: lookup_shard [OF db1])
  have l2: "lookup e2 db key = (if dead then None else Some sv)" "dead \<Longrightarrow> lookup_expiring e2 db key = None"
    using lookup_on_shard [OF ok1 db1, of key "engine_get key t"] assms(6) sv x by (simp_all add: lookup_shard [OF db1])
  have db2: "db < length (databases e2)" using on_shard_length [of db key "engine_get key t" e1] assms(6) db1 by simp
  have "e2 = e1" if "\<not> dead"
    using assms(6) that sv x db1 by (auto simp: on_shard_def Let_def lookup_def shard_of_def)
  then show ?thesis
    using r l2 on_shard_valid [OF db2, of key "engine_get key t2"] by (auto simp: lookup_shard [OF db2])
qed

lemma add_memory_unlimited [simp]: "max_memory m = 0 \<Longrightarrow> add_memory n m = (m\<lparr>used_memory := used_memory m + n\<rparr>, True)"
  by (simp add: add_memory_def)

theorem set_then_get_witness:
  "\<exists>e1 e2. on_shard 0 ''k'' (set_value ''k'' (VString ''v'') (Some 5) 10) (with_config 1 unlimited) = (e1, Ok ()) \<and>
     on_shard 0 ''k'' (engine_get ''k'' 20) e1 = (e2, Ok Expired) \<and> lookup e2 0 ''k'' = None"
proof -
  let ?e = "with_config 1 unlimited"
  have d: "0 < length (databases ?e)" by (simp add: with_config_def)
  obtain e1 r where 1: "on_shard 0 ''k'' (set_value ''k'' (VString ''v'') (Some 5) 10) ?e = (e1, r)" by (metis prod.exhaust)
  then have "r = Ok ()" using on_shard_valid [OF d, of "''k''" "set_value ''k'' (VString ''v'') (Some 5) 10"]
    by (simp add: with_config_def unlimited_def value_with_expiration_def instant_add_def Let_def)
  moreover obtain e2 r2 where "on_shard 0 ''k'' (engine_get ''k'' 20) e1 = (e2, r2)" by (metis prod.exhaust)
  ultimately show ?thesis using set_then_get [OF reachable.start d, of "VString ''v''" "''k''" "Some 5" 10 e1 True 20 e2 r2] 1 by simp
qed

section \<open>Counters\<close>

text \<open>
  C35: \<^verbatim>\<open>INCRBY\<close> on a stored integer returns the exact sum and stores it as the text that reads back as the
  same integer; a sum outside the 64-bit range and a value that is no integer are errors that change
  nothing.
\<close>

theorem incr_by_exact:
  assumes "reachable e" "db < length (databases e)" "lookup e db key = Some sv"
    "on_shard db key (incr_by key n now) e = (e1, r)"
  shows "case as_integer (sv_value sv) of
      None \<Rightarrow> r = Err (Command NotInteger) \<and> lookup e1 db key = Some sv
    | Some c \<Rightarrow>
        if in_i64 (sint c + sint n) then
          \<exists>total sv'. r = Ok total \<and> sint total = sint c + sint n \<and> lookup e1 db key = Some sv' \<and>
            as_integer (sv_value sv') = Some total \<and> metadata sv' = metadata sv
        else r = Err (Command (Generic ''increment or decrement would overflow'')) \<and> lookup e1 db key = Some sv"
  using lookup_on_shard(1) [OF reachable_ok [OF assms(1)] assms(2), of key "incr_by key n now"]
    on_shard_valid [OF assms(2), of key "incr_by key n now"] assms(2-4) lookup_shard [OF assms(2), of key]
  by (auto simp: checked_add_i64_def sint_add_in_i64 split: option.splits if_splits)

theorem incr_by_exact_witness:
  "\<exists>e1 total. on_shard 0 ''n'' (incr_by ''n'' 1 9) (exec (Append 0 ''n'' ''41'' 1) (with_config 1 unlimited)) = (e1, Ok total) \<and>
     sint total = 42"
proof -
  let ?e = "exec (Append 0 ''n'' ''41'' 1) (with_config 1 unlimited)"
  have r: "reachable ?e" by (intro reachable.intros) simp
  have d: "0 < length (databases ?e)" unfolding exec_length by (simp add: with_config_def)
  have i: "as_integer (VString ''41'') = Some 41" "in_i64 (sint (41 :: i64) + sint (1 :: i64))"
    "sint (41 :: i64) + sint (1 :: i64) = 42" by code_simp+
  have "\<exists>sv. lookup ?e 0 ''n'' = Some sv \<and> sv_value sv = VString ''41''"
    using lookup_on_shard(1) [OF with_config_ok, of 0 1 unlimited "''n''" "quiet (append_string ''n'' ''41'' 1)"]
      get_shard_index_bound [of "''n''"]
    by (simp add: quiet_def with_config_def shard_of_def new_database_def data_get_def [of _ new_shard]) (simp add: new_shard_def)
  then obtain sv where sv: "lookup ?e 0 ''n'' = Some sv" "sv_value sv = VString ''41''" by blast
  obtain e1 r1 where e1: "on_shard 0 ''n'' (incr_by ''n'' 1 9) ?e = (e1, r1)" by (metis prod.exhaust)
  from incr_by_exact [OF r d sv(1) e1] i show ?thesis unfolding sv(2) by (auto simp: e1 simp del: exec.simps One_nat_def)
qed

section \<open>The expiration sweep\<close>

lemma lookup_new [simp]: "lookup (with_config n m) db k = None" "lookup_expiring (with_config n m) db k = None"
  using get_shard_index_bound [of k]
  by (simp_all add: lookup_def lookup_expiring_def shard_of_def with_config_def new_database_def)
    (simp_all add: new_shard_def data_get_def expiring_get_def)

lemma with_config_length: "length (databases (with_config n m)) = n"
  by (simp add: with_config_def)

lemma sweep_key_data: "data_get j (fst (fst (sweep_key k s))) = (if j = k then None else data_get j (fst s))"
  by (cases s) (auto split: option.splits)

lemma sweep_keys_data:
  "data_get j (fst (fold (\<lambda>k s. fst (sweep_key k s)) ks s)) = (if j \<in> set ks then None else data_get j (fst s))"
  by (induction ks arbitrary: s) (auto simp: sweep_key_data)

lemma sweep_shard_data:
  assumes "shard_ok sh"
  shows "data_get k (fst (sweep_shard now (sh, m))) =
    (case expiring_get k sh of Some t \<Rightarrow> if t \<le> now then None else data_get k sh | None \<Rightarrow> data_get k sh)"
proof -
  have d: "distinct (map fst (expiring_keys sh))" using assms by (simp add: shard_ok_def)
  have "k \<in> set (expired_keys now sh) \<longleftrightarrow> (\<exists>t. (k, t) \<in> set (expiring_keys sh) \<and> t \<le> now)"
    by (force simp: expired_keys_def)
  also have "\<dots> \<longleftrightarrow> (case expiring_get k sh of Some t \<Rightarrow> t \<le> now | None \<Rightarrow> False)"
    by (auto simp: map_of_Some_in_set [OF d, symmetric] expiring_get_def split: option.splits)
  finally show ?thesis by (simp add: sweep_shard_def sweep_keys_data split: option.splits)
qed

lemma sweep_shards_length: "length (fst (sweep_shards now shs m)) = length shs"
  by (induction shs arbitrary: m) (auto split: prod.split, metis fst_conv)

lemma sweep_shards_nth:
  "i < length shs \<Longrightarrow> \<exists>m'. fst (sweep_shards now shs m) ! i = fst (sweep_shard now (shs ! i, m'))"
proof (induction shs arbitrary: m i)
  case (Cons sh shs)
  obtain sh' m1 where sh': "sweep_shard now (sh, m) = (sh', m1)" by (metis prod.exhaust)
  obtain shs' m2 where shs': "sweep_shards now shs m1 = (shs', m2)" by (metis prod.exhaust)
  show ?case
  proof (cases i)
    case 0
    then show ?thesis using sh' shs' by (intro exI [of _ m]) simp
  next
    case (Suc n)
    then show ?thesis using Cons.IH [of n m1] Cons.prems sh' shs' by simp
  qed
qed simp

lemma sweep_databases_length: "length (fst (sweep_databases clock j ds m)) = length ds"
  by (induction ds arbitrary: m j) (auto split: prod.split, metis fst_conv)

lemma sweep_databases_nth:
  "i < length ds \<Longrightarrow> \<exists>m'. fst (sweep_databases clock j ds m) ! i = fst (sweep_shards (clock (j + i)) (ds ! i) m')"
proof (induction ds arbitrary: m i j)
  case (Cons d ds)
  obtain d' m1 where d': "sweep_shards (clock j) d m = (d', m1)" by (metis prod.exhaust)
  obtain ds' m2 where ds': "sweep_databases clock (Suc j) ds m1 = (ds', m2)" by (metis prod.exhaust)
  show ?case
  proof (cases i)
    case 0
    then show ?thesis using d' ds' by (intro exI [of _ m]) simp
  next
    case (Suc n)
    then show ?thesis using Cons.IH [of n "Suc j" m1] Cons.prems d' ds' by simp
  qed
qed simp

lemma sweep_lookup:
  assumes "engine_ok e" "db < length (databases e)"
  shows "lookup (expiration_cleanup clock e) db k =
    (case lookup_expiring e db k of Some t \<Rightarrow> if t \<le> clock db then None else lookup e db k | None \<Rightarrow> lookup e db k)"
proof -
  obtain ds m where ds: "sweep_databases clock 0 (databases e) (memory e) = (ds, m)" by (metis prod.exhaust)
  obtain m1 where 1: "ds ! db = fst (sweep_shards (clock db) (databases e ! db) m1)"
    using sweep_databases_nth [OF assms(2), of clock 0 "memory e"] ds by auto
  obtain m2 where "ds ! db ! get_shard_index k = fst (sweep_shard (clock db) (shard_of e db k, m2))"
    using sweep_shards_nth [OF shard_bound [OF assms, of k], of "clock db" m1] 1 by (auto simp: shard_of_def)
  moreover have "length ds = length (databases e)" using sweep_databases_length [of clock 0 "databases e" "memory e"] ds by simp
  ultimately show ?thesis
    using sweep_shard_data [OF shard_of_ok(1) [OF assms, of k], of k "clock db" m2] assms(2)
    by (simp add: expiration_cleanup_def ds lookup_def lookup_expiring_def shard_of_def split: option.split)
qed

text \<open>
  One pass of the background sweep removes exactly the keys whose entry in the expiration index
  has passed, and changes no other key.
\<close>

theorem sweep_exact:
  assumes "reachable e" "db < length (databases e)"
  shows "lookup (expiration_cleanup clock e) db k =
    (case lookup_expiring e db k of Some t \<Rightarrow> if t \<le> clock db then None else lookup e db k | None \<Rightarrow> lookup e db k)"
  by (rule sweep_lookup [OF reachable_ok [OF assms(1)] assms(2)])

theorem sweep_exact_witness: "lookup (expiration_cleanup (\<lambda>_. 5) (with_config 1 unlimited)) 0 ''k'' = None"
  using sweep_exact [OF reachable.start, of 0 1 unlimited "\<lambda>_. 5" "''k''"] by (simp add: with_config_length)

text \<open>
  Overwriting a key that had a deadline does not cancel the deadline: the plain \<^verbatim>\<open>SET\<close> stores a value
  without expiration, but the old entry of the expiration index stays, and the sweep after the old
  deadline deletes the new value.
\<close>

theorem stale_deadline_deletes:
  assumes "reachable e" "db < length (databases e)" "max_memory (memory e) = 0" "instant_add now d = Some t" "t \<le> clock db"
    "e2 = exec (SetString db key b2 now2) (exec (SetStringEx db key b1 d now) e)"
  shows "map_option (\<lambda>sv. (sv_value sv, expires_at (metadata sv))) (lookup e2 db key) = Some (VString b2, None) \<and>
    lookup (expiration_cleanup clock e2) db key = None"
proof -
  let ?e1 = "exec (SetStringEx db key b1 d now) e"
  have ok1: "engine_ok ?e1" using exec_ok [OF reachable_ok [OF assms(1)], of "SetStringEx db key b1 d now"] by simp
  have ok2: "engine_ok e2" unfolding assms(6) using exec_ok [OF ok1, of "SetString db key b2 now2"] by simp
  have d1: "db < length (databases ?e1)" and d2: "db < length (databases e2)"
    using assms(2) unfolding assms(6) exec_length by simp_all
  have t: "t = now + d" using assms(4) by (simp add: instant_add_def split: if_splits)
  have x1: "lookup_expiring ?e1 db key = Some t" and m1: "max_memory (memory ?e1) = 0"
    using lookup_on_shard(2) [OF reachable_ok [OF assms(1)] assms(2), of key "quiet (set_string_ex key b1 d now)"] assms(2-4) t
    by (simp_all add: quiet_def set_string_ex_def value_with_expiration_def Let_def on_shard_def new_metadata_def)
  have "lookup_expiring e2 db key = Some t"
    using lookup_on_shard(2) [OF ok1 d1, of key "quiet (set_string key b2 now2)"] m1 x1 d1
    by (simp add: assms(6) quiet_def set_string_def Let_def lookup_expiring_def)
  moreover have "lookup e2 db key = Some (new_value now2 (VString b2))"
    using lookup_on_shard(1) [OF ok1 d1, of key "quiet (set_string key b2 now2)"] m1 x1 d1
    by (simp add: assms(6) quiet_def set_string_def Let_def)
  ultimately show ?thesis using sweep_lookup [OF ok2 d2, of clock key] assms(5) by simp
qed

theorem stale_deadline_deletes_witness:
  "lookup (expiration_cleanup (\<lambda>_. 9)
     (exec (SetString 0 ''k'' ''new'' 2) (exec (SetStringEx 0 ''k'' ''old'' 5 1) (with_config 1 unlimited)))) 0 ''k'' = None"
  using stale_deadline_deletes [OF reachable.start, of 0 1 unlimited 1 5 6 "\<lambda>_. 9" _ "''k''" "''new''" 2 "''old''", OF _ _ _ _ refl]
  by (simp add: with_config_def unlimited_def instant_add_def)

section \<open>Memory accounting\<close>

text \<open>
  Writing a new string and deleting it brings the memory counter back to where it was; but a
  second \<^verbatim>\<open>SET\<close> adds the size of the new value without giving back that of the overwritten one, so
  after the deletion the counter stays too high by exactly the size of the first entry.
\<close>

theorem memory_accounting:
  assumes "reachable e" "db < length (databases e)" "max_memory (memory e) = 0" "lookup e db key = None"
  shows "used_memory (memory (exec (Delete db key) (exec (SetString db key b now) e))) = used_memory (memory e) \<and>
    used_memory (memory (exec (Delete db key) (exec (SetString db key b' now') (exec (SetString db key b now) e)))) =
      used_memory (memory e) + calculate_value_size key (VString b)"
proof -
  have step: "engine_ok (exec (SetString db key x t) e) \<and> db < length (databases (exec (SetString db key x t) e)) \<and>
      max_memory (memory (exec (SetString db key x t) e)) = 0 \<and>
      used_memory (memory (exec (SetString db key x t) e)) = used_memory (memory e) + calculate_value_size key (VString x) \<and>
      lookup (exec (SetString db key x t) e) db key = Some (new_value t (VString x))"
    if "engine_ok e" "db < length (databases e)" "max_memory (memory e) = 0" for e x t
    using that exec_ok [OF that(1), of "SetString db key x t"] exec_length [of "SetString db key x t" e]
      lookup_on_shard(1) [OF that(1,2), of key "quiet (set_string key x t)"]
    by (simp add: quiet_def set_string_def Let_def on_shard_def)
  have del: "used_memory (memory (exec (Delete db key) e)) = used_memory (memory e) - calculate_value_size key (VString x)"
    if "engine_ok e" "db < length (databases e)" "lookup e db key = Some (new_value t (VString x))" for e x t
    using that(2,3) by (simp add: quiet_def on_shard_def lookup_def shard_of_def remove_memory_def Let_def)
  note one = step [OF reachable_ok [OF assms(1)] assms(2,3), of b now]
  note two = step [of "exec (SetString db key b now) e" b' now']
  show ?thesis using one two del [of "exec (SetString db key b now) e" now b]
      del [of "exec (SetString db key b' now') (exec (SetString db key b now) e)" now' b'] by simp
qed

theorem memory_accounting_witness:
  "used_memory (memory (exec (Delete 0 ''k'') (exec (SetString 0 ''k'' ''b'' 2) (exec (SetString 0 ''k'' ''a'' 1) (with_config 1 unlimited))))) = 50"
  using memory_accounting [OF reachable.start, of 0 1 unlimited "''k''" "''a''" 1 "''b''" 2]
  by (simp add: with_config_def [of 1] with_config_length calculate_value_size_def calculate_size_def Let_def) (simp add: unlimited_def with_config_def)

end
