(* ===== verification/Engine_Slices.thy ===== *)
theory Engine_Slices
  imports Engine_Spec
begin

text \<open>
  Range queries and removals by position: \<^verbatim>\<open>GETRANGE\<close>, \<^verbatim>\<open>LRANGE\<close>, \<^verbatim>\<open>LTRIM\<close>, \<^verbatim>\<open>LREM\<close> and the sorted-set ranges, as
  slices of the stored sequence; and where their index arithmetic goes wrong.
\<close>

section \<open>Creating keys\<close>

lemma with_config_memory: "max_memory (memory (with_config n unlimited)) = 0"
  by (simp add: with_config_def unlimited_def)

lemma create_string:
  "engine_ok e \<Longrightarrow> db < length (databases e) \<Longrightarrow> lookup e db k = None \<Longrightarrow>
    lookup (exec (Append db k b now) e) db k = Some (new_value now (VString b))"
  using lookup_on_shard(1) [of e db k "quiet (append_string k b now)"] by (simp add: quiet_def lookup_shard)

lemma create_list:
  "engine_ok e \<Longrightarrow> db < length (databases e) \<Longrightarrow> lookup e db k = None \<Longrightarrow>
    lookup (exec (RPush db k xs now) e) db k = Some (new_value now (VList xs))"
  using lookup_on_shard(1) [of e db k "quiet (rpush k xs now)"] by (simp add: quiet_def lookup_shard)

lemma create_sorted_set:
  assumes "engine_ok e" "db < length (databases e)" "lookup e db k = None" "max_memory (memory e) = 0"
    "\<not> is_nan_f64 score" "l < MAX_LEVEL"
  shows "\<exists>z. lookup (exec (ZAdd db k l x score now) e) db k = Some (new_value now (VSortedSet z)) \<and> sl_items z = [(x, score)]"
  using lookup_on_shard(1) [OF assms(1,2), of k "quiet (zadd l k x score now)"] assms(3,4)
    sl.insert_ok [OF new_skip_list_sl_ok(1) assms(6,5), of x]
  by (auto simp: quiet_def lookup_shard [OF assms(2)] new_skip_list_sl_ok z_insert_def z_remove_def Let_def)

section \<open>Strings\<close>

lemma slice_inclusive_eq: "t < length b \<Longrightarrow> slice_inclusive b s t = Ok (drop s (take (Suc t) b))"
  by (simp add: slice_inclusive_def drop_take)

lemma getrange_spec:
  assumes "int (length b) \<le> isize_max" and s: "s = clamp_index (int (length b)) start"
  shows "getrange_bytes b start stop =
    (if stop < - int (length b) \<and> s < length b then Panic
     else Ok (drop s (take (nat ((if stop < 0 then int (length b) + stop else stop) + 1)) b)))"
proof -
  have i: "nat (if start < 0 then max 0 (int (length b) + start) else start) = s"
    by (simp add: s clamp_index_def max.commute)
  have g: "getrange_bytes b start stop =
     (let t = (if stop < 0 then (if max (- 1) (int (length b) + stop) = - 1 then usize_max else nat (int (length b) + stop))
               else min (nat stop) (if length b = 0 then usize_max else length b - 1))
      in if s > t \<or> s \<ge> length b then Ok [] else slice_inclusive b s t)"
    by (simp only: getrange_bytes_def Let_def i)
  consider (outside) "s \<ge> length b" | (before) "s < length b" "stop < - int (length b)"
    | (from_end) "s < length b" "stop < 0" "0 \<le> int (length b) + stop" | (from_start) "s < length b" "0 \<le> stop" by linarith
  then show ?thesis
  proof cases
    case outside
    then show ?thesis by (simp add: g Let_def)
  next
    case before
    have "\<not> s > usize_max" using before(1) assms(1) by linarith
    then show ?thesis using before assms by (auto simp: g slice_inclusive_def max_def Let_def)
  next
    case from_end
    let ?t = "nat (int (length b) + stop)"
    have t: "?t < length b" "nat (int (length b) + stop + 1) = Suc ?t" "max (- 1) (int (length b) + stop) \<noteq> - 1" using from_end by linarith+
    have "getrange_bytes b start stop = (if s > ?t then Ok [] else Ok (drop s (take (Suc ?t) b)))"
      using from_end t by (simp add: g slice_inclusive_eq [OF t(1)] Let_def)
    then show ?thesis using from_end t(2) by simp
  next
    case from_start
    define t where "t = min (nat stop) (length b - 1)"
    have b: "b \<noteq> []" using from_start by auto
    then have t: "t < length b" by (cases b) (auto simp: t_def)
    have "getrange_bytes b start stop = (if s > t \<or> s \<ge> length b then Ok [] else slice_inclusive b s t)"
      unfolding g Let_def t_def using from_start(2) b by (simp only: not_less [symmetric] if_False length_0_conv)
    then have "getrange_bytes b start stop = Ok (drop s (take (Suc t) b))"
      using from_start slice_inclusive_eq [OF t] by simp
    moreover have "take (Suc t) b = take (nat (stop + 1)) b"
      using from_start by (cases "nat stop < length b") (auto simp: t_def min_def nat_add_distrib)
    ultimately show ?thesis using from_start by simp
  qed
qed

text \<open>
  \<^verbatim>\<open>GETRANGE\<close> returns the slice between its two positions, negative ones counted from the end, except
  that an end that lies before the beginning of the string makes the server thread panic whenever
  the start is inside the string.
\<close>

theorem getrange_exact:
  assumes "reachable e" "db < length (databases e)" "lookup e db key = Some sv" "sv_value sv = VString b"
    "int (length b) \<le> isize_max" "s = clamp_index (int (length b)) start"
  shows "snd (on_shard db key (getrange key start stop) e) =
    (if stop < - int (length b) \<and> s < length b then Panic
     else Ok (drop s (take (nat ((if stop < 0 then int (length b) + stop else stop) + 1)) b)))"
  using on_shard_valid [OF assms(2), of key "getrange key start stop"] getrange_spec [OF assms(5,6)] assms(3,4)
  by (simp add: lookup_shard [OF assms(2)])

theorem getrange_exact_witness:
  "snd (on_shard 0 ''k'' (getrange ''k'' 0 (- 100)) (exec (Append 0 ''k'' ''abc'' 1) (with_config 1 unlimited))) = Panic"
proof -
  let ?e = "exec (Append 0 ''k'' ''abc'' 1) (with_config 1 unlimited)"
  have r: "reachable ?e" by (intro reachable.intros) simp
  have d: "0 < length (databases ?e)" unfolding exec_length by (simp add: with_config_def)
  have l: "lookup ?e 0 ''k'' = Some (new_value 1 (VString ''abc''))"
    by (rule create_string [OF with_config_ok]) (simp_all add: with_config_length)
  have "clamp_index (int (length ''abc'')) 0 = 0" by (simp add: clamp_index_def)
  from getrange_exact [OF r d l _ _ this [symmetric], of "- 100"] show ?thesis by simp
qed

section \<open>Lists\<close>

text \<open>
  \<^verbatim>\<open>LRANGE\<close> returns, and \<^verbatim>\<open>LTRIM\<close> keeps, the slice between the two positions; \<^verbatim>\<open>LREM\<close> removes as many
  occurrences as asked for, leaves the other elements in their order and returns the number removed;
  a list that becomes empty is removed with its key.
\<close>

theorem list_positions_exact:
  assumes "reachable e" "db < length (databases e)" "lookup e db key = Some sv" "sv_value sv = VList l"
    "part = drop (clamp_index (int (length l)) start) (take (Suc (clamp_index (int (length l)) stop)) l)"
    "on_shard db key (lrem key count x) e = (e1, r)"
  shows "snd (on_shard db key (lrange key start stop) e) = Ok part \<and>
    value_of (fst (on_shard db key (ltrim key start stop) e)) db key = (if part = [] then None else Some (VList part)) \<and>
    (\<exists>kept. r = Ok (if count = 0 then count_list l x else min (nat \<bar>count\<bar>) (count_list l x)) \<and>
      length kept = length l - (if count = 0 then count_list l x else min (nat \<bar>count\<bar>) (count_list l x)) \<and>
      filter (\<lambda>y. y \<noteq> x) kept = filter (\<lambda>y. y \<noteq> x) l \<and>
      value_of e1 db key = (if kept = [] then None else Some (VList kept)))"
proof -
  note at = lookup_on_shard(1) [OF reachable_ok [OF assms(1)] assms(2), of key] lookup_shard [OF assms(2)] on_shard_valid [OF assms(2), of key]
  obtain kept n where k: "lrem_list count x l = (kept, n)" by (metis prod.exhaust)
  note spec = lrem_list_spec [OF k]
  have "r = Ok n" "value_of e1 db key = (if kept = [] then None else Some (VList kept))"
    using at(1) [of "lrem key count x"] at(3) [of "lrem key count x"] assms(3,4,6) by (simp_all add: at(2) k Let_def)
  moreover have "length kept = length l - n" using spec(2) by simp
  moreover have "snd (on_shard db key (lrange key start stop) e) = Ok part"
    using assms(3,4) by (simp add: at(2,3) assms(5) lrange_loop_slice Let_def)
  moreover have "value_of (fst (on_shard db key (ltrim key start stop) e)) db key = (if part = [] then None else Some (VList part))"
    using assms(3,4) by (simp add: at(1,2) assms(5) ltrim_loop_slice Let_def)
  ultimately show ?thesis using spec(1,3) by (intro conjI exI [of _ kept]) simp_all
qed

theorem list_positions_exact_witness:
  "snd (on_shard 0 ''k'' (lrange ''k'' 1 (- 1)) (exec (RPush 0 ''k'' [''a'', ''b'', ''c''] 1) (with_config 1 unlimited))) = Ok [''b'', ''c'']"
proof -
  let ?e = "exec (RPush 0 ''k'' [''a'', ''b'', ''c''] 1) (with_config 1 unlimited)"
  have r: "reachable ?e" by (intro reachable.intros) simp
  have d: "0 < length (databases ?e)" unfolding exec_length by (simp add: with_config_def)
  have l: "lookup ?e 0 ''k'' = Some (new_value 1 (VList [''a'', ''b'', ''c'']))"
    by (rule create_list [OF with_config_ok]) (simp_all add: with_config_length)
  obtain e1 r1 where e1: "on_shard 0 ''k'' (lrem ''k'' 1 ''a'') ?e = (e1, r1)" by (metis prod.exhaust)
  from list_positions_exact [OF r d l _ refl e1, where start = 1 and stop = "- 1"] show ?thesis by (simp add: clamp_index_def)
qed

text \<open>
  A range that ends before the first element is not empty: \<^verbatim>\<open>LRANGE\<close> clamps such an end to the first
  position and returns the head of the list.
\<close>

theorem lrange_keeps_head:
  assumes "l \<noteq> []" "stop < - int (length l)"
  shows "lrange_loop (clamp_index (int (length l)) 0) (clamp_index (int (length l)) stop) 0 l = [hd l]"
  using assms by (cases l) (simp_all add: clamp_index_def lrange_loop_slice)

theorem lrange_keeps_head_witness:
  "lrange_loop (clamp_index (int (length [''a'', ''b''])) 0) (clamp_index (int (length [''a'', ''b''])) (- 100)) 0 [''a'', ''b''] = [''a'']"
  using lrange_keeps_head [of "[''a'', ''b'']" "- 100"] by simp

section \<open>Sorted sets\<close>

lemma zrange_items_spec:
  assumes "sl_ok z" "n = length (sl_items z)" "s = clamp_index (int n) start" "t = clamp_index (int n) stop"
  shows "zrange_items start stop False z = Some (drop s (take (Suc t) (sl_items z)))"
    "s < n \<Longrightarrow> zrange_items start stop True z = Some (drop s (take (Suc t) (rev (sl_items z))))"
proof -
  let ?xs = "sl_items z"
  note len = sl_lengths [OF assms(1)] and rng = range_by_rank_spec [OF assms(1)]
  show "zrange_items start stop False z = Some (drop s (take (Suc t) ?xs))"
  proof (cases "n = 0 \<or> s \<ge> n \<or> s > t")
    case True
    then show ?thesis using assms(2-4) len by (auto simp: zrange_items_def Let_def)
  next
    case False
    then have "take (Suc (min t (n - 1))) ?xs = take (Suc t) ?xs" "min s (n - 1) = s" using assms(2) by (auto simp: min_def)
    then show ?thesis
      using False len unfolding zrange_items_def Let_def rng assms(2) [symmetric] len assms(3,4) [symmetric] by simp
  qed
  assume "s < n"
  let ?a = "n - 1 - min t (n - 1)"
  have a: "?a = n - Suc t" by (auto simp: min_def)
  have "zrange_items start stop True z = Some (rev (drop (n - Suc t) (take (n - s) ?xs)))"
    using \<open>s < n\<close> assms(2-4) len rng a by (simp add: zrange_items_def Let_def Suc_diff_Suc)
  moreover have "drop s (take (Suc t) (rev ?xs)) = rev (drop (n - Suc t) (take (n - s) ?xs))"
  proof -
    have "take (Suc t) (rev ?xs) = rev (drop (n - Suc t) ?xs)" using assms(2) by (simp add: take_rev)
    then have "drop s (take (Suc t) (rev ?xs)) = rev (take (length (drop (n - Suc t) ?xs) - s) (drop (n - Suc t) ?xs))"
      by (simp add: drop_rev)
    also have "length (drop (n - Suc t) ?xs) - s = (n - s) - (n - Suc t)" using assms(2) by simp
    finally show ?thesis by (simp only: drop_take)
  qed
  ultimately show "zrange_items start stop True z = Some (drop s (take (Suc t) (rev ?xs)))" by simp
qed

text \<open>
  The sorted-set queries of the engine are those of the list of members in order of score and
  name: \<^verbatim>\<open>ZRANGE\<close> is a slice of it, \<^verbatim>\<open>ZREVRANGE\<close> with a start inside the set is a slice of its reverse,
  \<^verbatim>\<open>ZRANGEBYSCORE\<close> a filter, \<^verbatim>\<open>ZSCORE\<close> a lookup and \<^verbatim>\<open>ZCARD\<close> its length.
\<close>

theorem sorted_set_queries:
  assumes "reachable e" "db < length (databases e)" "lookup e db key = Some sv" "sv_value sv = VSortedSet z"
    "items = sl_items z" "s = clamp_index (int (length items)) start" "t = clamp_index (int (length items)) stop" "s < length items"
  shows "sorted_wrt (<) (map member_ord items) \<and>
    snd (on_shard db key (zrange key start stop False) e) = Ok (drop s (take (Suc t) items)) \<and>
    snd (on_shard db key (zrange key start stop True) e) = Ok (drop s (take (Suc t) (rev items))) \<and>
    snd (on_shard db key (zrangebyscore key lo hi False) e) = Ok (filter (\<lambda>m. \<not> f64_lt (snd m) lo \<and> f64_le (snd m) hi) items) \<and>
    snd (on_shard db key (zscore key x) e) = Ok (map_of items x) \<and>
    snd (on_shard db key (zcard key) e) = Ok (length items)"
proof -
  have z: "sl_ok z" using lookup_ok [OF reachable_ok [OF assms(1)] assms(3)] assms(4) by simp
  obtain ns where ns: "nodes_ok z ns" "items = items_of z ns" "map_of (key_index z) = map_of items"
    using sl_ok_items [OF z] assms(5) by metis
  have "sorted_wrt (<) (map member_ord items)" using ns(1,2) by (simp add: nodes_ok_def)
  then show ?thesis
    using zrange_items_spec [OF z _ assms(6,7)] range_by_score_spec [OF z] sl_lengths [OF z] ns(3) assms(3-5,8)
    by (simp add: on_shard_valid [OF assms(2)] lookup_shard [OF assms(2)] get_score_def)
qed

theorem sorted_set_queries_witness:
  "snd (on_shard 0 ''z'' (zrange ''z'' 0 (- 1) True) (exec (ZAdd 0 ''z'' 0 ''a'' 0 1) (with_config 1 unlimited))) = Ok [(''a'', 0)]"
proof -
  let ?e = "exec (ZAdd 0 ''z'' 0 ''a'' 0 1) (with_config 1 unlimited)"
  have n: "\<not> is_nan_f64 0" by (simp add: is_nan_f64_def f64_magnitude_def)
  have r: "reachable ?e" using n by (intro reachable.intros) (simp add: MAX_LEVEL_def)
  have d: "0 < length (databases ?e)" unfolding exec_length by (simp add: with_config_def)
  obtain z where l: "lookup ?e 0 ''z'' = Some (new_value 1 (VSortedSet z))" "sl_items z = [(''a'', 0)]"
    using create_sorted_set [OF with_config_ok, of 0 1 unlimited "''z''" 0 0 "''a''" 1] n with_config_memory
    by (auto simp: with_config_length MAX_LEVEL_def simp del: exec.simps)
  from sorted_set_queries [OF r d l(1) _ refl refl refl, where start = 0 and stop = "- 1"] l(2) show ?thesis by (simp add: clamp_index_def del: exec.simps)
qed

text \<open>
  \<^verbatim>\<open>ZREVRANGE\<close> with positions beyond the last member is not empty: it returns the member with the
  lowest score.
\<close>

theorem zrevrange_beyond_end:
  assumes "sl_ok z" "sl_items z \<noteq> []" "start \<ge> int (length (sl_items z))" "stop \<ge> start"
  shows "zrange_items start stop True z = Some [hd (sl_items z)]"
  using assms range_by_rank_spec [OF assms(1)] sl_lengths [OF assms(1)]
  by (cases "sl_items z") (auto simp: zrange_items_def clamp_index_def min_def Let_def)

theorem zrevrange_beyond_end_witness:
  "\<exists>z old. sl_insert 0 ''a'' 0 new_skip_list = Some (z, old) \<and> zrange_items 5 9 True z = Some [(''a'', 0)]"
proof -
  have n: "\<not> is_nan_f64 0" by (simp add: is_nan_f64_def f64_magnitude_def)
  obtain z where "sl_insert 0 ''a'' 0 new_skip_list = Some (z, None)" "sl_ok z" "sl_items z = [(''a'', 0)]"
    using sl.insert_ok [OF new_skip_list_sl_ok(1) _ n, of 0 "''a''"]
    by (auto simp: MAX_LEVEL_def new_skip_list_sl_ok z_insert_def z_remove_def Let_def)
  then show ?thesis using zrevrange_beyond_end [of z 5 9] by simp
qed

end
