(* ===== verification/Pubsub.thy ===== *)
theory Pubsub
  imports Glob Resp
begin

text \<open>
  Publish/subscribe (\<^verbatim>\<open>src/pubsub.rs\<close>): the manager keeps, for every connection, the channels and patterns
  it subscribes to, and for every channel and pattern the set of its subscribers.  The abstract
  specification is one relation between connections and subscriptions; the manager refines it, and a
  publication reaches exactly the connections that the relation names.
\<close>

section \<open>State\<close>

datatype subscription = Channel bytes | Pattern bytes

record subscriber_info =
  connection_id :: u64
  sub_channels :: "bytes list"
  sub_patterns :: "bytes list"

record sub_result =
  subscription :: subscription
  num_subscriptions :: nat
  is_new :: bool

type_synonym sub_index = "(bytes \<times> u64 list) list"

record pubsub_manager =
  channels :: sub_index
  patterns :: sub_index
  connections :: "(u64 \<times> subscriber_info) list"

definition new_pubsub :: pubsub_manager where
  "new_pubsub = \<lparr>channels = [], patterns = [], connections = []\<rparr>"

definition info_or_new :: "u64 \<Rightarrow> pubsub_manager \<Rightarrow> subscriber_info" where
  "info_or_new c m = (case map_of (connections m) c of
     Some info \<Rightarrow> info | None \<Rightarrow> \<lparr>connection_id = c, sub_channels = [], sub_patterns = []\<rparr>)"

definition members :: "sub_index \<Rightarrow> bytes \<Rightarrow> u64 list" where
  "members idx x = (case map_of idx x of Some s \<Rightarrow> s | None \<Rightarrow> [])"

definition index_add :: "u64 \<Rightarrow> bytes \<Rightarrow> sub_index \<Rightarrow> sub_index" where
  "index_add c x idx = AList.update x (if c \<in> set (members idx x) then members idx x else members idx x @ [c]) idx"

definition index_remove :: "u64 \<Rightarrow> bytes \<Rightarrow> sub_index \<Rightarrow> sub_index" where
  "index_remove c x idx =
     (case map_of idx x of
        Some s \<Rightarrow>
          (let s = filter (\<lambda>d. d \<noteq> c) s in if s = [] then AList.delete x idx else AList.update x s idx)
      | None \<Rightarrow> idx)"

section \<open>Operations\<close>

text \<open>
  The loops of \<^verbatim>\<open>subscribe\<close> and \<^verbatim>\<open>psubscribe\<close>, and of \<^verbatim>\<open>unsubscribe\<close> and \<^verbatim>\<open>punsubscribe\<close>, over the connection's set
  of names of one kind and the index of that kind; \<open>other\<close> is the number of names of the other kind.
\<close>

fun subscribe_loop :: "(bytes \<Rightarrow> subscription) \<Rightarrow> u64 \<Rightarrow> nat \<Rightarrow> bytes list \<Rightarrow> bytes list \<times> sub_index \<Rightarrow>
    (bytes list \<times> sub_index) \<times> sub_result list" where
  "subscribe_loop kind c other [] s = (s, [])"
| "subscribe_loop kind c other (x # xs) (own, idx) =
     (let already_subscribed = (x \<in> set own);
          own = (if already_subscribed then own else own @ [x]);
          idx = (if already_subscribed then idx else index_add c x idx);
          (s, results) = subscribe_loop kind c other xs (own, idx)
      in (s, \<lparr>subscription = kind x, num_subscriptions = length own + other, is_new = \<not> already_subscribed\<rparr> # results))"

fun unsubscribe_loop :: "(bytes \<Rightarrow> subscription) \<Rightarrow> u64 \<Rightarrow> nat \<Rightarrow> bytes list \<Rightarrow> bytes list \<times> sub_index \<Rightarrow>
    (bytes list \<times> sub_index) \<times> sub_result list" where
  "unsubscribe_loop kind c other [] s = (s, [])"
| "unsubscribe_loop kind c other (x # xs) (own, idx) =
     (let was_subscribed = (x \<in> set own);
          own = filter (\<lambda>y. y \<noteq> x) own;
          idx = (if was_subscribed then index_remove c x idx else idx);
          (s, results) = unsubscribe_loop kind c other xs (own, idx)
      in (s, \<lparr>subscription = kind x, num_subscriptions = length own + other, is_new = False\<rparr> # results))"

definition subscribe :: "u64 \<Rightarrow> bytes list \<Rightarrow> pubsub_manager \<Rightarrow> pubsub_manager \<times> sub_result list" where
  "subscribe c chans m =
     (let info = info_or_new c m;
          ((own, idx), results) = subscribe_loop Channel c (length (sub_patterns info)) chans (sub_channels info, channels m)
      in (m\<lparr>channels := idx, connections := AList.update c (info\<lparr>sub_channels := own\<rparr>) (connections m)\<rparr>, results))"

definition psubscribe :: "u64 \<Rightarrow> bytes list \<Rightarrow> pubsub_manager \<Rightarrow> pubsub_manager \<times> sub_result list" where
  "psubscribe c pats m =
     (let info = info_or_new c m;
          ((own, idx), results) = subscribe_loop Pattern c (length (sub_channels info)) pats (sub_patterns info, patterns m)
      in (m\<lparr>patterns := idx, connections := AList.update c (info\<lparr>sub_patterns := own\<rparr>) (connections m)\<rparr>, results))"

definition store_info :: "u64 \<Rightarrow> subscriber_info \<Rightarrow> pubsub_manager \<Rightarrow> pubsub_manager" where
  "store_info c info m = m\<lparr>connections :=
     (if sub_channels info = [] \<and> sub_patterns info = [] then AList.delete c (connections m)
      else AList.update c info (connections m))\<rparr>"

definition unsubscribe :: "u64 \<Rightarrow> bytes list option \<Rightarrow> pubsub_manager \<Rightarrow> pubsub_manager \<times> sub_result list" where
  "unsubscribe c chans m =
     (case map_of (connections m) c of
        None \<Rightarrow> (m, [])
      | Some info \<Rightarrow>
          (let channels_to_remove = (case chans of Some cs \<Rightarrow> cs | None \<Rightarrow> sub_channels info);
               ((own, idx), results) = unsubscribe_loop Channel c (length (sub_patterns info)) channels_to_remove (sub_channels info, channels m)
           in (store_info c (info\<lparr>sub_channels := own\<rparr>) (m\<lparr>channels := idx\<rparr>), results)))"

definition punsubscribe :: "u64 \<Rightarrow> bytes list option \<Rightarrow> pubsub_manager \<Rightarrow> pubsub_manager \<times> sub_result list" where
  "punsubscribe c pats m =
     (case map_of (connections m) c of
        None \<Rightarrow> (m, [])
      | Some info \<Rightarrow>
          (let patterns_to_remove = (case pats of Some ps \<Rightarrow> ps | None \<Rightarrow> sub_patterns info);
               ((own, idx), results) = unsubscribe_loop Pattern c (length (sub_channels info)) patterns_to_remove (sub_patterns info, patterns m)
           in (store_info c (info\<lparr>sub_patterns := own\<rparr>) (m\<lparr>patterns := idx\<rparr>), results)))"

fun push_receivers :: "bytes option \<Rightarrow> u64 list \<Rightarrow> (u64 \<times> bytes option) list \<Rightarrow> (u64 \<times> bytes option) list" where
  "push_receivers via [] receivers = receivers"
| "push_receivers via (c # cs) receivers =
     push_receivers via cs (if c \<in> fst ` set receivers then receivers else receivers @ [(c, via)])"

fun publish_patterns :: "bytes \<Rightarrow> sub_index \<Rightarrow> (u64 \<times> bytes option) list \<Rightarrow> (u64 \<times> bytes option) list" where
  "publish_patterns channel [] receivers = receivers"
| "publish_patterns channel ((pattern, subscribers) # rest) receivers =
     publish_patterns channel rest
       (if pubsub_pattern_matches pattern channel then push_receivers (Some pattern) subscribers receivers else receivers)"

definition publish :: "bytes \<Rightarrow> pubsub_manager \<Rightarrow> (u64 \<times> bytes option) list" where
  "publish channel m = publish_patterns channel (patterns m) (push_receivers None (members (channels m) channel) [])"

definition drop_connection :: "u64 \<Rightarrow> sub_index \<Rightarrow> sub_index" where
  "drop_connection c idx = filter (\<lambda>(x, s). s \<noteq> []) (map (\<lambda>(x, s). (x, filter (\<lambda>d. d \<noteq> c) s)) idx)"

definition unsubscribe_all :: "u64 \<Rightarrow> pubsub_manager \<Rightarrow> pubsub_manager" where
  "unsubscribe_all c m = m\<lparr>channels := drop_connection c (channels m), patterns := drop_connection c (patterns m),
     connections := AList.delete c (connections m)\<rparr>"

definition get_subscription_info :: "u64 \<Rightarrow> pubsub_manager \<Rightarrow> subscriber_info option" where
  "get_subscription_info c m = map_of (connections m) c"

definition is_subscribed :: "u64 \<Rightarrow> pubsub_manager \<Rightarrow> bool" where
  "is_subscribed c m \<longleftrightarrow> map_of (connections m) c \<noteq> None"

definition channel_subscriber_count :: "bytes \<Rightarrow> pubsub_manager \<Rightarrow> nat" where
  "channel_subscriber_count channel m = length (members (channels m) channel)"

section \<open>Reply frames\<close>

definition format_message :: "bytes \<Rightarrow> bytes \<Rightarrow> resp_frame" where
  "format_message channel message = Array (Some [BulkString (Some ''message''), BulkString (Some channel), BulkString (Some message)])"

definition format_pmessage :: "bytes \<Rightarrow> bytes \<Rightarrow> bytes \<Rightarrow> resp_frame" where
  "format_pmessage pattern channel message =
     Array (Some [BulkString (Some ''pmessage''), BulkString (Some pattern), BulkString (Some channel), BulkString (Some message)])"

definition format_subscribe_response :: "bytes \<Rightarrow> nat \<Rightarrow> resp_frame" where
  "format_subscribe_response channel num_subs =
     Array (Some [BulkString (Some ''subscribe''), BulkString (Some channel), Integer (word_of_nat num_subs)])"

definition format_psubscribe_response :: "bytes \<Rightarrow> nat \<Rightarrow> resp_frame" where
  "format_psubscribe_response pattern num_subs =
     Array (Some [BulkString (Some ''psubscribe''), BulkString (Some pattern), Integer (word_of_nat num_subs)])"

definition format_unsubscribe_response :: "bytes \<Rightarrow> nat \<Rightarrow> resp_frame" where
  "format_unsubscribe_response channel num_subs =
     Array (Some [BulkString (Some ''unsubscribe''), BulkString (Some channel), Integer (word_of_nat num_subs)])"

definition format_punsubscribe_response :: "bytes \<Rightarrow> nat \<Rightarrow> resp_frame" where
  "format_punsubscribe_response pattern num_subs =
     Array (Some [BulkString (Some ''punsubscribe''), BulkString (Some pattern), Integer (word_of_nat num_subs)])"

section \<open>Consistency of an index\<close>

text \<open>
  An index agrees with the sets \<open>own\<close> of names that the connections hold: no name has an empty set of
  subscribers, no subscriber is repeated, and a connection is listed under a name exactly when it
  holds it.
\<close>

definition index_ok :: "sub_index \<Rightarrow> (u64 \<Rightarrow> bytes list) \<Rightarrow> bool" where
  "index_ok idx own \<longleftrightarrow> distinct (map fst idx) \<and> (\<forall>x s. map_of idx x = Some s \<longrightarrow> s \<noteq> [] \<and> distinct s) \<and>
     (\<forall>x c. c \<in> set (members idx x) \<longleftrightarrow> x \<in> set (own c))"

lemma sub_index_okD:
  assumes "index_ok idx own"
  shows "distinct (map fst idx)" "map_of idx x = Some s \<Longrightarrow> s \<noteq> [] \<and> distinct s" "c \<in> set (members idx x) \<longleftrightarrow> x \<in> set (own c)"
    "distinct (members idx x)"
proof -
  have 1: "distinct (map fst idx)" and 2: "\<And>x s. map_of idx x = Some s \<Longrightarrow> s \<noteq> [] \<and> distinct s"
    and 3: "\<And>x c. c \<in> set (members idx x) \<longleftrightarrow> x \<in> set (own c)"
    using assms unfolding index_ok_def by blast+
  show "distinct (map fst idx)" "map_of idx x = Some s \<Longrightarrow> s \<noteq> [] \<and> distinct s" "c \<in> set (members idx x) \<longleftrightarrow> x \<in> set (own c)"
    using 1 2 3 by blast+
  show "distinct (members idx x)" using 2 [of x] by (simp add: members_def split: option.split)
qed

lemma members_update: "members (AList.update x s idx) y = (if y = x then s else members idx y)"
  by (simp add: members_def)

lemma index_add_ok:
  assumes "index_ok idx own" "x \<notin> set (own c)"
  shows "index_ok (index_add c x idx) (own(c := own c @ [x]))"
  using sub_index_okD [OF assms(1)] assms(2)
  unfolding index_ok_def index_add_def members_update by (auto simp: distinct_update)

lemma index_remove_ok:
  assumes "index_ok idx own" "x \<in> set (own c)"
  shows "index_ok (index_remove c x idx) (own(c := filter (\<lambda>y. y \<noteq> x) (own c)))"
proof -
  note d = sub_index_okD [OF assms(1)]
  have "members idx x \<noteq> []" using d(3) [of c x] assms(2) by auto
  then obtain s where s: "map_of idx x = Some s" "members idx x = s" by (auto simp: members_def split: option.splits)
  show ?thesis
  proof (cases "filter (\<lambda>d. d \<noteq> c) s = []")
    case True
    then have r: "index_remove c x idx = AList.delete x idx" using s(1) by (simp add: index_remove_def)
    have "set s \<subseteq> {c}" using True by (auto simp: filter_empty_conv)
    then show ?thesis using d d(3) [of _ x] s unfolding index_ok_def r by (auto simp: members_def split: if_splits)
  next
    case False
    then have r: "index_remove c x idx = AList.update x (filter (\<lambda>d. d \<noteq> c) s) idx" using s(1) by (simp add: index_remove_def Let_def)
    then show ?thesis using d d(2) [OF s(1)] d(3) [of _ x] s False unfolding index_ok_def r members_update
      by (auto simp: distinct_update split: if_splits)
  qed
qed

lemma subscribe_loop_ok:
  "subscribe_loop kind c other xs (own c, idx) = ((own', idx'), rs) \<Longrightarrow> index_ok idx own \<Longrightarrow> distinct (own c) \<Longrightarrow>
    index_ok idx' (own(c := own')) \<and> distinct own' \<and> set own' = set (own c) \<union> set xs"
proof (induction xs arbitrary: own idx rs)
  case (Cons x xs)
  show ?case
  proof (cases "x \<in> set (own c)")
    case True
    then obtain rs' where "subscribe_loop kind c other xs (own c, idx) = ((own', idx'), rs')"
      using Cons.prems(1) by (auto simp: Let_def split: prod.splits)
    then show ?thesis using Cons.IH [of own idx rs'] Cons.prems True by auto
  next
    case False
    let ?own = "own(c := own c @ [x])"
    obtain rs' where "subscribe_loop kind c other xs (?own c, index_add c x idx) = ((own', idx'), rs')"
      using Cons.prems(1) False by (auto simp: Let_def split: prod.splits)
    from Cons.IH [OF this index_add_ok [OF Cons.prems(2) False], unfolded fun_upd_upd fun_upd_same] Cons.prems(3) False
    have "index_ok idx' (own(c := own'))" "distinct own'" "set own' = set (own c @ [x]) \<union> set xs" by (simp_all add: fun_upd_def)
    then show ?thesis by (simp add: fun_upd_def)
  qed
qed auto

lemma unsubscribe_loop_ok:
  "unsubscribe_loop kind c other xs (own c, idx) = ((own', idx'), rs) \<Longrightarrow> index_ok idx own \<Longrightarrow> distinct (own c) \<Longrightarrow>
    index_ok idx' (own(c := own')) \<and> distinct own' \<and> set own' = set (own c) - set xs"
proof (induction xs arbitrary: own idx rs)
  case (Cons x xs)
  let ?own = "own(c := filter (\<lambda>y. y \<noteq> x) (own c))"
  show ?case
  proof (cases "x \<in> set (own c)")
    case True
    obtain rs' where "unsubscribe_loop kind c other xs (?own c, index_remove c x idx) = ((own', idx'), rs')"
      using Cons.prems(1) True by (auto simp: Let_def split: prod.splits)
    from Cons.IH [OF this index_remove_ok [OF Cons.prems(2) True], unfolded fun_upd_upd fun_upd_same] Cons.prems(3)
    have "index_ok idx' (own(c := own'))" "distinct own'" "set own' = set (filter (\<lambda>y. y \<noteq> x) (own c)) - set xs" by (simp_all add: fun_upd_def)
    moreover have "set (filter (\<lambda>y. y \<noteq> x) (own c)) - set xs = set (own c) - set (x # xs)" by auto
    ultimately show ?thesis by (simp add: fun_upd_def)
  next
    case False
    then have same: "filter (\<lambda>y. y \<noteq> x) (own c) = own c" by (auto simp: filter_id_conv)
    obtain rs' where "unsubscribe_loop kind c other xs (own c, idx) = ((own', idx'), rs')"
      using Cons.prems(1) False by (auto simp: Let_def same split: prod.splits)
    then show ?thesis using Cons.IH [of own idx rs'] Cons.prems False by auto
  qed
qed auto

lemma drop_connection_ok:
  assumes "index_ok idx own"
  shows "index_ok (drop_connection c idx) (own(c := []))"
proof -
  let ?f = "map (\<lambda>(x, s). (x, filter (\<lambda>d. d \<noteq> c) s)) idx"
  note d = sub_index_okD [OF assms]
  have dist: "distinct (map fst (drop_connection c idx))"
    using d(1) by (auto simp: drop_connection_def distinct_map_filter comp_def case_prod_unfold)
  have get: "map_of (drop_connection c idx) x = (case map_of idx x of None \<Rightarrow> None
      | Some s \<Rightarrow> if filter (\<lambda>d. d \<noteq> c) s = [] then None else Some (filter (\<lambda>d. d \<noteq> c) s))" for x
    using d(1) unfolding drop_connection_def by (induction idx) (auto simp: map_of_eq_None_iff image_iff split: option.splits)
  show ?thesis unfolding index_ok_def
  proof (intro conjI allI impI)
    show "distinct (map fst (drop_connection c idx))" by (rule dist)
    show "s \<noteq> []" "distinct s" if "map_of (drop_connection c idx) x = Some s" for x s
      using that d(2) [of x] by (auto simp: get split: option.splits if_splits)
    show "(e \<in> set (members (drop_connection c idx) x)) = (x \<in> set ((own(c := [])) e))" for x e
    proof -
      have "set (members (drop_connection c idx) x) = set (members idx x) - {c}"
        by (auto simp: members_def get filter_empty_conv split: option.splits)
      then show ?thesis using d(3) [of e x] by auto
    qed
  qed
qed

section \<open>The abstract relation\<close>

definition chans_of :: "pubsub_manager \<Rightarrow> u64 \<Rightarrow> bytes list" where
  "chans_of m c = (case map_of (connections m) c of Some info \<Rightarrow> sub_channels info | None \<Rightarrow> [])"

definition pats_of :: "pubsub_manager \<Rightarrow> u64 \<Rightarrow> bytes list" where
  "pats_of m c = (case map_of (connections m) c of Some info \<Rightarrow> sub_patterns info | None \<Rightarrow> [])"

definition subs :: "pubsub_manager \<Rightarrow> (u64 \<times> subscription) set" where
  "subs m = {(c, s). (\<exists>x \<in> set (chans_of m c). s = Channel x) \<or> (\<exists>x \<in> set (pats_of m c). s = Pattern x)}"

definition pubsub_ok :: "pubsub_manager \<Rightarrow> bool" where
  "pubsub_ok m \<longleftrightarrow> distinct (map fst (connections m)) \<and> (\<forall>c. distinct (chans_of m c) \<and> distinct (pats_of m c)) \<and>
     index_ok (channels m) (chans_of m) \<and> index_ok (patterns m) (pats_of m)"

lemma subs_iff [simp]: "(c, Channel x) \<in> subs m \<longleftrightarrow> x \<in> set (chans_of m c)" "(c, Pattern x) \<in> subs m \<longleftrightarrow> x \<in> set (pats_of m c)"
  by (auto simp: subs_def)

lemma info_or_new_lists: "sub_channels (info_or_new c m) = chans_of m c" "sub_patterns (info_or_new c m) = pats_of m c"
  by (auto simp: info_or_new_def chans_of_def pats_of_def split: option.split)

text \<open>Replacing what one connection holds, with the matching index.\<close>

lemma store_info_lists:
  "chans_of (store_info c info m) = (chans_of m)(c := sub_channels info)"
  "pats_of (store_info c info m) = (pats_of m)(c := sub_patterns info)"
  by (auto simp: store_info_def chans_of_def pats_of_def fun_eq_iff)

lemma update_info_lists:
  "chans_of (m\<lparr>connections := AList.update c info (connections m)\<rparr>) = (chans_of m)(c := sub_channels info)"
  "pats_of (m\<lparr>connections := AList.update c info (connections m)\<rparr>) = (pats_of m)(c := sub_patterns info)"
  by (auto simp: chans_of_def pats_of_def fun_eq_iff)

lemma lists_index [simp]:
  "chans_of (m\<lparr>channels := i\<rparr>) = chans_of m" "pats_of (m\<lparr>channels := i\<rparr>) = pats_of m"
  "chans_of (m\<lparr>patterns := i\<rparr>) = chans_of m" "pats_of (m\<lparr>patterns := i\<rparr>) = pats_of m"
  by (auto simp: chans_of_def pats_of_def fun_eq_iff)

lemma set_channels_ok:
  assumes "pubsub_ok m" "index_ok (channels m') ((chans_of m)(c := own))" "distinct own" "chans_of m' = (chans_of m)(c := own)"
    "pats_of m' = pats_of m" "patterns m' = patterns m" "distinct (map fst (connections m'))"
  shows "pubsub_ok m'" "subs m' = (subs m - {c} \<times> range Channel) \<union> {c} \<times> Channel ` set own"
  using assms by (auto simp: pubsub_ok_def subs_def split: if_splits)

lemma set_patterns_ok:
  assumes "pubsub_ok m" "index_ok (patterns m') ((pats_of m)(c := own))" "distinct own" "pats_of m' = (pats_of m)(c := own)"
    "chans_of m' = chans_of m" "channels m' = channels m" "distinct (map fst (connections m'))"
  shows "pubsub_ok m'" "subs m' = (subs m - {c} \<times> range Pattern) \<union> {c} \<times> Pattern ` set own"
  using assms by (auto simp: pubsub_ok_def subs_def split: if_splits)

lemma subscribe_ok:
  assumes "pubsub_ok m"
  shows "pubsub_ok (fst (subscribe c xs m)) \<and> subs (fst (subscribe c xs m)) = subs m \<union> {c} \<times> Channel ` set xs"
proof -
  obtain own idx rs where l: "subscribe_loop Channel c (length (pats_of m c)) xs (chans_of m c, channels m) = ((own, idx), rs)"
    by (metis prod.exhaust)
  have ok: "index_ok idx ((chans_of m)(c := own))" "distinct own" "set own = set (chans_of m c) \<union> set xs"
    using subscribe_loop_ok [where own = "chans_of m", OF l] assms by (auto simp: pubsub_ok_def)
  let ?info = "(info_or_new c m)\<lparr>sub_channels := own\<rparr>"
  have m': "fst (subscribe c xs m) = m\<lparr>channels := idx, connections := AList.update c ?info (connections m)\<rparr>"
    using l by (simp add: subscribe_def info_or_new_lists Let_def)
  note step = set_channels_ok [OF assms, of "fst (subscribe c xs m)" c own]
  have "pubsub_ok (fst (subscribe c xs m))"
    "subs (fst (subscribe c xs m)) = (subs m - {c} \<times> range Channel) \<union> {c} \<times> Channel ` set own"
    using step ok assms update_info_lists [of c ?info "m\<lparr>channels := idx\<rparr>"] unfolding m'
    by (simp_all add: info_or_new_lists pubsub_ok_def distinct_update)
  then show ?thesis using ok(3) by (auto simp: subs_def)
qed

lemma psubscribe_ok:
  assumes "pubsub_ok m"
  shows "pubsub_ok (fst (psubscribe c xs m)) \<and> subs (fst (psubscribe c xs m)) = subs m \<union> {c} \<times> Pattern ` set xs"
proof -
  obtain own idx rs where l: "subscribe_loop Pattern c (length (chans_of m c)) xs (pats_of m c, patterns m) = ((own, idx), rs)"
    by (metis prod.exhaust)
  have ok: "index_ok idx ((pats_of m)(c := own))" "distinct own" "set own = set (pats_of m c) \<union> set xs"
    using subscribe_loop_ok [where own = "pats_of m", OF l] assms by (auto simp: pubsub_ok_def)
  let ?info = "(info_or_new c m)\<lparr>sub_patterns := own\<rparr>"
  have m': "fst (psubscribe c xs m) = m\<lparr>patterns := idx, connections := AList.update c ?info (connections m)\<rparr>"
    using l by (simp add: psubscribe_def info_or_new_lists Let_def)
  note step = set_patterns_ok [OF assms, of "fst (psubscribe c xs m)" c own]
  have "pubsub_ok (fst (psubscribe c xs m))"
    "subs (fst (psubscribe c xs m)) = (subs m - {c} \<times> range Pattern) \<union> {c} \<times> Pattern ` set own"
    using step ok assms update_info_lists [of c ?info "m\<lparr>patterns := idx\<rparr>"] unfolding m'
    by (simp_all add: info_or_new_lists pubsub_ok_def distinct_update)
  then show ?thesis using ok(3) by (auto simp: subs_def)
qed

text \<open>An absent list of names means all names of that kind.\<close>

definition names :: "'a set \<Rightarrow> 'a list option \<Rightarrow> 'a set" where
  "names all xs = (case xs of Some ys \<Rightarrow> set ys | None \<Rightarrow> all)"

lemma unsubscribe_ok:
  assumes "pubsub_ok m"
  shows "pubsub_ok (fst (unsubscribe c xs m)) \<and> subs (fst (unsubscribe c xs m)) = subs m - {c} \<times> Channel ` names UNIV xs"
proof (cases "map_of (connections m) c")
  case None
  then show ?thesis using assms by (auto simp: unsubscribe_def subs_def chans_of_def)
next
  case (Some info)
  define ys where "ys = (case xs of Some cs \<Rightarrow> cs | None \<Rightarrow> sub_channels info)"
  have info: "sub_channels info = chans_of m c" "sub_patterns info = pats_of m c" using Some by (simp_all add: chans_of_def pats_of_def)
  obtain own idx rs where l: "unsubscribe_loop Channel c (length (pats_of m c)) ys (chans_of m c, channels m) = ((own, idx), rs)"
    by (metis prod.exhaust)
  have ok: "index_ok idx ((chans_of m)(c := own))" "distinct own" "set own = set (chans_of m c) - set ys"
    using unsubscribe_loop_ok [where own = "chans_of m", OF l] assms by (auto simp: pubsub_ok_def)
  have m': "fst (unsubscribe c xs m) = store_info c (info\<lparr>sub_channels := own\<rparr>) (m\<lparr>channels := idx\<rparr>)"
    using l Some info by (simp add: unsubscribe_def ys_def Let_def)
  have "distinct (map fst (connections (fst (unsubscribe c xs m))))" "channels (fst (unsubscribe c xs m)) = idx"
    "patterns (fst (unsubscribe c xs m)) = patterns m"
    using assms by (simp_all add: m' store_info_def pubsub_ok_def distinct_update)
  then have "pubsub_ok (fst (unsubscribe c xs m))"
    "subs (fst (unsubscribe c xs m)) = (subs m - {c} \<times> range Channel) \<union> {c} \<times> Channel ` set own"
    using set_channels_ok [OF assms, of "fst (unsubscribe c xs m)" c own] ok by (simp_all add: m' store_info_lists info)
  then show ?thesis using ok(3) info by (cases xs) (auto simp: subs_def names_def ys_def)
qed

lemma punsubscribe_ok:
  assumes "pubsub_ok m"
  shows "pubsub_ok (fst (punsubscribe c xs m)) \<and> subs (fst (punsubscribe c xs m)) = subs m - {c} \<times> Pattern ` names UNIV xs"
proof (cases "map_of (connections m) c")
  case None
  then show ?thesis using assms by (auto simp: punsubscribe_def subs_def pats_of_def)
next
  case (Some info)
  define ys where "ys = (case xs of Some cs \<Rightarrow> cs | None \<Rightarrow> sub_patterns info)"
  have info: "sub_channels info = chans_of m c" "sub_patterns info = pats_of m c" using Some by (simp_all add: chans_of_def pats_of_def)
  obtain own idx rs where l: "unsubscribe_loop Pattern c (length (chans_of m c)) ys (pats_of m c, patterns m) = ((own, idx), rs)"
    by (metis prod.exhaust)
  have ok: "index_ok idx ((pats_of m)(c := own))" "distinct own" "set own = set (pats_of m c) - set ys"
    using unsubscribe_loop_ok [where own = "pats_of m", OF l] assms by (auto simp: pubsub_ok_def)
  have m': "fst (punsubscribe c xs m) = store_info c (info\<lparr>sub_patterns := own\<rparr>) (m\<lparr>patterns := idx\<rparr>)"
    using l Some info by (simp add: punsubscribe_def ys_def Let_def)
  have "distinct (map fst (connections (fst (punsubscribe c xs m))))" "patterns (fst (punsubscribe c xs m)) = idx"
    "channels (fst (punsubscribe c xs m)) = channels m"
    using assms by (simp_all add: m' store_info_def pubsub_ok_def distinct_update)
  then have "pubsub_ok (fst (punsubscribe c xs m))"
    "subs (fst (punsubscribe c xs m)) = (subs m - {c} \<times> range Pattern) \<union> {c} \<times> Pattern ` set own"
    using set_patterns_ok [OF assms, of "fst (punsubscribe c xs m)" c own] ok by (simp_all add: m' store_info_lists info)
  then show ?thesis using ok(3) info by (cases xs) (auto simp: subs_def names_def ys_def)
qed

lemma unsubscribe_all_ok:
  assumes "pubsub_ok m"
  shows "pubsub_ok (unsubscribe_all c m) \<and> subs (unsubscribe_all c m) = subs m - {c} \<times> UNIV"
proof -
  have lists: "chans_of (unsubscribe_all c m) = (chans_of m)(c := [])" "pats_of (unsubscribe_all c m) = (pats_of m)(c := [])"
    by (auto simp: unsubscribe_all_def chans_of_def pats_of_def fun_eq_iff)
  have "pubsub_ok (unsubscribe_all c m)"
    using assms drop_connection_ok [of "channels m" "chans_of m" c] drop_connection_ok [of "patterns m" "pats_of m" c]
    unfolding pubsub_ok_def lists by (simp add: unsubscribe_all_def)
  then show ?thesis by (auto simp: subs_def lists split: if_splits)
qed

section \<open>The contract of a subscription store\<close>

locale subscription_store =
  fixes inv :: "'m \<Rightarrow> bool" and abs :: "'m \<Rightarrow> ('c \<times> 's) set" and kind :: "'n \<Rightarrow> 's"
    and sub :: "'c \<Rightarrow> 'n list \<Rightarrow> 'm \<Rightarrow> 'm" and unsub :: "'c \<Rightarrow> 'n list option \<Rightarrow> 'm \<Rightarrow> 'm"
  assumes sub_ok: "inv m \<Longrightarrow> inv (sub c xs m) \<and> abs (sub c xs m) = abs m \<union> {c} \<times> kind ` set xs"
    and unsub_ok: "inv m \<Longrightarrow> inv (unsub c ys m) \<and> abs (unsub c ys m) = abs m - {c} \<times> kind ` names UNIV ys"
begin

lemma undo: "inv m \<Longrightarrow> abs m \<inter> {c} \<times> kind ` set xs = {} \<Longrightarrow> abs (unsub c (Some xs) (sub c xs m)) = abs m"
  using sub_ok [of m c xs] unsub_ok [of "sub c xs m" c "Some xs"] by (auto simp: names_def)

lemma others: "inv m \<Longrightarrow> d \<noteq> c \<Longrightarrow> (d, s) \<in> abs (sub c xs m) \<longleftrightarrow> (d, s) \<in> abs m"
    "inv m \<Longrightarrow> d \<noteq> c \<Longrightarrow> (d, s) \<in> abs (unsub c ys m) \<longleftrightarrow> (d, s) \<in> abs m"
  using sub_ok [of m c xs] unsub_ok [of m c ys] by auto

end

interpretation channel_store: subscription_store pubsub_ok subs Channel
  "\<lambda>c xs m. fst (subscribe c xs m)" "\<lambda>c xs m. fst (unsubscribe c xs m)"
  by unfold_locales (simp_all only: subscribe_ok unsubscribe_ok)

interpretation pattern_store: subscription_store pubsub_ok subs Pattern
  "\<lambda>c xs m. fst (psubscribe c xs m)" "\<lambda>c xs m. fst (punsubscribe c xs m)"
  by unfold_locales (simp_all only: psubscribe_ok punsubscribe_ok)

section \<open>Properties\<close>

inductive pubsub_reachable :: "pubsub_manager \<Rightarrow> bool" where
  start: "pubsub_reachable new_pubsub"
| sub: "pubsub_reachable m \<Longrightarrow> pubsub_reachable (fst (subscribe c xs m))"
| psub: "pubsub_reachable m \<Longrightarrow> pubsub_reachable (fst (psubscribe c xs m))"
| unsub: "pubsub_reachable m \<Longrightarrow> pubsub_reachable (fst (unsubscribe c ys m))"
| punsub: "pubsub_reachable m \<Longrightarrow> pubsub_reachable (fst (punsubscribe c ys m))"
| unsub_all: "pubsub_reachable m \<Longrightarrow> pubsub_reachable (unsubscribe_all c m)"

lemma new_pubsub_ok: "pubsub_ok new_pubsub" "subs new_pubsub = {}"
  by (auto simp: pubsub_ok_def new_pubsub_def index_ok_def members_def chans_of_def pats_of_def subs_def)

lemma pubsub_reachable_ok: "pubsub_reachable m \<Longrightarrow> pubsub_ok m"
  by (induction rule: pubsub_reachable.induct)
    (auto simp: new_pubsub_ok channel_store.sub_ok pattern_store.sub_ok channel_store.unsub_ok pattern_store.unsub_ok unsubscribe_all_ok)

text \<open>
  C22: the subscription manager refines one relation between connections and subscriptions: every
  operation has exactly its effect on the relation, and in every reachable state the channel index
  and the pattern index agree with the sets the connections hold, without empty or repeated entries.
\<close>

theorem pubsub_refines:
  assumes "pubsub_reachable m"
  shows "pubsub_ok m \<and>
    subs (fst (subscribe c xs m)) = subs m \<union> {c} \<times> Channel ` set xs \<and>
    subs (fst (psubscribe c xs m)) = subs m \<union> {c} \<times> Pattern ` set xs \<and>
    subs (fst (unsubscribe c ys m)) = subs m - {c} \<times> Channel ` names UNIV ys \<and>
    subs (fst (punsubscribe c ys m)) = subs m - {c} \<times> Pattern ` names UNIV ys \<and>
    subs (unsubscribe_all c m) = subs m - {c} \<times> UNIV"
  using pubsub_reachable_ok [OF assms] channel_store.sub_ok [of m c xs] pattern_store.sub_ok [of m c xs]
    channel_store.unsub_ok [of m c ys] pattern_store.unsub_ok [of m c ys] unsubscribe_all_ok [of m c] by (intro conjI) simp_all

theorem pubsub_refines_witness:
  "subs (fst (subscribe 7 [''news''] new_pubsub)) = {(7, Channel ''news'')}"
  using pubsub_refines [OF pubsub_reachable.start, of 7 "[''news'']" None] by (simp add: new_pubsub_ok)

lemma push_receivers_spec:
  "(c, v) \<in> set (push_receivers via cs rs) \<longleftrightarrow> (c, v) \<in> set rs \<or> c \<in> set cs \<and> c \<notin> fst ` set rs \<and> v = via"
  by (induction cs arbitrary: rs) auto

lemma push_receivers_distinct: "distinct (map fst rs) \<Longrightarrow> distinct (map fst (push_receivers via cs rs))"
  by (induction cs arbitrary: rs) auto

lemma publish_patterns_distinct: "distinct (map fst rs) \<Longrightarrow> distinct (map fst (publish_patterns ch idx rs))"
  by (induction ch idx rs rule: publish_patterns.induct) (auto simp: push_receivers_distinct)

lemma publish_patterns_old: "(c, v) \<in> set rs \<Longrightarrow> (c, v) \<in> set (publish_patterns ch idx rs)"
  by (induction ch idx rs rule: publish_patterns.induct) (auto simp: push_receivers_spec)

lemma publish_patterns_new:
  "(c, v) \<in> set (publish_patterns ch idx rs) \<Longrightarrow>
    (c, v) \<in> set rs \<or> (\<exists>p s. v = Some p \<and> (p, s) \<in> set idx \<and> c \<in> set s \<and> pubsub_pattern_matches p ch)"
  by (induction ch idx rs rule: publish_patterns.induct) (auto simp: push_receivers_spec split: if_splits)

lemma publish_patterns_all:
  "(p, s) \<in> set idx \<Longrightarrow> c \<in> set s \<Longrightarrow> pubsub_pattern_matches p ch \<Longrightarrow> c \<in> fst ` set (publish_patterns ch idx rs)"
proof (induction ch idx rs rule: publish_patterns.induct)
  case (2 ch q t rest rs)
  show ?case
  proof (cases "(p, s) = (q, t)")
    case True
    let ?rs = "push_receivers (Some p) s rs"
    obtain v where "(c, v) \<in> set ?rs"
    proof (cases "c \<in> fst ` set rs")
      case True
      then obtain v where "(c, v) \<in> set rs" by auto
      then show ?thesis using that push_receivers_spec by blast
    next
      case False
      then show ?thesis using that 2(3) push_receivers_spec by blast
    qed
    from publish_patterns_old [OF this, of ch rest] have "c \<in> fst ` set (publish_patterns ch rest ?rs)" by (rule image_eqI [rotated]) simp
    then show ?thesis using True 2(4) by simp
  next
    case False
    then show ?thesis using 2 by auto
  qed
qed simp

lemma in_index: "index_ok idx own \<Longrightarrow> (p, s) \<in> set idx \<Longrightarrow> c \<in> set s \<Longrightarrow> p \<in> set (own c)"
  using sub_index_okD [of idx own] by (metis map_of_Some_in_set members_def option.simps(5))

lemma index_in: "index_ok idx own \<Longrightarrow> p \<in> set (own c) \<Longrightarrow> \<exists>s. (p, s) \<in> set idx \<and> c \<in> set s"
  using sub_index_okD(3) [of idx own c p] by (cases "map_of idx p") (auto simp: members_def dest: map_of_SomeD)

text \<open>
  A publication names every connection at most once, and names exactly those that subscribe to
  the channel or to a pattern that matches it; a direct subscriber gets the plain message, any other
  one the message of a matching pattern it subscribes to.
\<close>

theorem publish_exact:
  assumes "pubsub_reachable m"
  shows "distinct (map fst (publish ch m)) \<and>
    fst ` set (publish ch m) = {c. (c, Channel ch) \<in> subs m \<or> (\<exists>p. (c, Pattern p) \<in> subs m \<and> pubsub_pattern_matches p ch)} \<and>
    {c. (c, None) \<in> set (publish ch m)} = {c. (c, Channel ch) \<in> subs m} \<and>
    {(c, p). (c, Some p) \<in> set (publish ch m)} \<subseteq> {(c, p). (c, Pattern p) \<in> subs m \<and> pubsub_pattern_matches p ch}"
proof -
  have ok: "index_ok (channels m) (chans_of m)" "index_ok (patterns m) (pats_of m)"
    using pubsub_reachable_ok [OF assms] by (simp_all add: pubsub_ok_def)
  let ?d = "push_receivers None (members (channels m) ch) []"
  have direct: "(c, v) \<in> set ?d \<longleftrightarrow> (c, Channel ch) \<in> subs m \<and> v = None" for c v
    using sub_index_okD(3) [OF ok(1)] by (simp add: push_receivers_spec)
  have old: "(c, v) \<in> set ?d \<Longrightarrow> (c, v) \<in> set (publish ch m)" for c v
    unfolding publish_def by (rule publish_patterns_old)
  have new: "(c, v) \<in> set (publish ch m) \<Longrightarrow> (c, v) \<in> set ?d \<or>
      (\<exists>p. v = Some p \<and> (c, Pattern p) \<in> subs m \<and> pubsub_pattern_matches p ch)" for c v
    using publish_patterns_new [of c v ch "patterns m" ?d] in_index [OF ok(2)] by (auto simp: publish_def)
  have all: "(c, Pattern p) \<in> subs m \<Longrightarrow> pubsub_pattern_matches p ch \<Longrightarrow> c \<in> fst ` set (publish ch m)" for c p
    using index_in [OF ok(2), of p c] publish_patterns_all unfolding publish_def by auto
  have "distinct (map fst (publish ch m))"
    unfolding publish_def by (intro publish_patterns_distinct push_receivers_distinct) simp
  moreover have "fst ` set (publish ch m) =
      {c. (c, Channel ch) \<in> subs m \<or> (\<exists>p. (c, Pattern p) \<in> subs m \<and> pubsub_pattern_matches p ch)}"
  proof (intro set_eqI iffI CollectI)
    fix c assume "c \<in> fst ` set (publish ch m)"
    then obtain v where "(c, v) \<in> set (publish ch m)" by auto
    then show "(c, Channel ch) \<in> subs m \<or> (\<exists>p. (c, Pattern p) \<in> subs m \<and> pubsub_pattern_matches p ch)" using new direct by blast
  next
    fix c assume "c \<in> {c. (c, Channel ch) \<in> subs m \<or> (\<exists>p. (c, Pattern p) \<in> subs m \<and> pubsub_pattern_matches p ch)}"
    then consider "(c, None) \<in> set (publish ch m)" | "c \<in> fst ` set (publish ch m)" using all old direct by blast
    then show "c \<in> fst ` set (publish ch m)" by cases (auto intro: image_eqI [rotated])
  qed
  moreover have "{c. (c, None) \<in> set (publish ch m)} = {c. (c, Channel ch) \<in> subs m}" using new old direct by blast
  moreover have "{(c, p). (c, Some p) \<in> set (publish ch m)} \<subseteq> {(c, p). (c, Pattern p) \<in> subs m \<and> pubsub_pattern_matches p ch}"
    using new direct by blast
  ultimately show ?thesis by (intro conjI)
qed

theorem publish_exact_witness: "fst ` set (publish ''news'' (fst (psubscribe 7 [''n*''] new_pubsub))) = {7}"
proof -
  let ?m = "fst (psubscribe 7 [''n*''] new_pubsub)"
  have s: "subs ?m = {(7, Pattern ''n*'')}" using psubscribe_ok [OF new_pubsub_ok(1), of 7 "[''n*'']"] by (simp add: new_pubsub_ok)
  have "pubsub_pattern_matches ''n*'' ''news''" by code_simp
  then show ?thesis using publish_exact [OF pubsub_reachable.psub [OF pubsub_reachable.start], of "''news''" 7 "[''n*'']"]
    unfolding s by auto
qed

end
