(* ===== verification/Server.thy ===== *)
theory Server
  imports Autosave Aof Replication Blocking Transactions Engine_Slices Pubsub
begin

text \<open>
  The server around the components (\<^verbatim>\<open>src/network/server.rs\<close>): the sharded table of connections, request
  routing with authentication and transactions, publish/subscribe and synchronization commands, and the
  service of blocked clients.  The state is one record; a handler returns the new state and its reply.
  The processor of ordinary commands (\<^verbatim>\<open>process_normal_command\<close>) is an argument \<open>normal\<close> of the routing
  functions, so that what is shown of them holds whatever the commands do.
\<close>

section \<open>Connections\<close>

definition CONNECTION_SHARDS :: nat where "CONNECTION_SHARDS = 16"

type_synonym sharded_connections = "(u64 \<times> connection) list list"

definition new_sharded :: sharded_connections where
  "new_sharded = replicate CONNECTION_SHARDS []"

definition conn_shard :: "u64 \<Rightarrow> nat" where
  "conn_shard i = unat i mod CONNECTION_SHARDS"

definition insert_connection :: "u64 \<Rightarrow> connection \<Rightarrow> sharded_connections \<Rightarrow> sharded_connections" where
  "insert_connection i c cs = cs[conn_shard i := AList.update i c (cs ! conn_shard i)]"

definition remove_connection :: "u64 \<Rightarrow> sharded_connections \<Rightarrow> sharded_connections \<times> connection option" where
  "remove_connection i cs = (cs[conn_shard i := AList.delete i (cs ! conn_shard i)], map_of (cs ! conn_shard i) i)"

definition with_connection :: "u64 \<Rightarrow> (connection \<Rightarrow> connection \<times> 'r) \<Rightarrow> sharded_connections \<Rightarrow> sharded_connections \<times> 'r option" where
  "with_connection i f cs =
     (case map_of (cs ! conn_shard i) i of
        Some c \<Rightarrow> (let (c', r) = f c in (cs[conn_shard i := AList.update i c' (cs ! conn_shard i)], Some r))
      | None \<Rightarrow> (cs, None))"

definition all_connection_ids :: "sharded_connections \<Rightarrow> u64 list" where
  "all_connection_ids cs = concat (map (map fst) cs)"

definition close_connection :: "u64 \<Rightarrow> sharded_connections \<Rightarrow> sharded_connections \<times> bool" where
  "close_connection i cs = (let (cs', r) = with_connection i (\<lambda>c. (c\<lparr>state := Closing\<rparr>, ())) cs in (cs', r \<noteq> None))"

section \<open>State\<close>

text \<open>
  \<open>files\<close> is the file system; \<open>executed\<close> counts the commands executed, so that each of them meets its own
  readings of the clocks and random sources.
\<close>

record server =
  clients :: sharded_connections
  password :: "string option"
  storage :: storage_engine
  pubsub :: pubsub_manager
  replication :: replication_manager
  monitor_subscribers :: "u64 list"
  clients_paused_until :: nat
  blocking :: blocking_manager
  auth_successes :: u64
  auth_failures :: u64
  pending_writes :: "u64 list"
  rdb_state :: "rdb_engine option"
  storage_monitor :: "storage_monitor option"
  aof_state :: "aof_engine option"
  files :: disk
  executed :: nat

definition with_client :: "u64 \<Rightarrow> (connection \<Rightarrow> connection \<times> 'r) \<Rightarrow> server \<Rightarrow> server \<times> 'r option" where
  "with_client i f s = (let (cs, r) = with_connection i f (clients s) in (s\<lparr>clients := cs\<rparr>, r))"

definition client :: "server \<Rightarrow> u64 \<Rightarrow> connection option" where
  "client s i = map_of (clients s ! conn_shard i) i"

definition not_found :: resp_frame where
  "not_found = Error ''ERR connection not found''"

section \<open>Authentication\<close>

definition handle_auth :: "resp_frame list \<Rightarrow> u64 \<Rightarrow> server \<Rightarrow> server \<times> resp_frame" where
  "handle_auth parts i s =
     (if length parts \<noteq> 2 then (s, wrong_args ''auth'')
      else
        (case bulk (parts ! 1) of
           None \<Rightarrow> (s, Error ''ERR invalid password format'')
         | Some given \<Rightarrow>
             if \<not> utf8_valid given then (s, Error ''ERR invalid password format'')
             else
               (case password s of
                  None \<Rightarrow> (s, Error ''ERR Client sent AUTH, but no password is set'')
                | Some pw \<Rightarrow>
                    if given = pw then
                      (fst (with_client i (\<lambda>c. (c\<lparr>state := Authenticated\<rparr>, ())) (s\<lparr>auth_successes := auth_successes s + 1\<rparr>)), resp_ok)
                    else (s\<lparr>auth_failures := auth_failures s + 1\<rparr>, Error ''ERR invalid password''))))"

definition handle_ping :: "resp_frame list \<Rightarrow> resp_frame" where
  "handle_ping parts = (if length parts > 1 then parts ! 1 else SimpleString ''PONG'')"

section \<open>Publish/subscribe commands\<close>

fun all_bulk :: "resp_frame list \<Rightarrow> bytes list option" where
  "all_bulk [] = Some []"
| "all_bulk (f # fs) = (case (bulk f, all_bulk fs) of (Some b, Some bs) \<Rightarrow> Some (b # bs) | _ \<Rightarrow> None)"

fun deliver :: "(f64 \<Rightarrow> string) \<Rightarrow> bytes \<Rightarrow> bytes \<Rightarrow> (u64 \<times> bytes option) list \<Rightarrow> server \<Rightarrow> server" where
  "deliver fp channel message [] s = s"
| "deliver fp channel message ((i, pat) # rs) s =
     (let frame = (case pat of Some p \<Rightarrow> format_pmessage p channel message | None \<Rightarrow> format_message channel message)
      in deliver fp channel message rs (fst (with_client i (send_frame fp frame) s)))"

definition handle_publish :: "(f64 \<Rightarrow> string) \<Rightarrow> resp_frame list \<Rightarrow> server \<Rightarrow> server \<times> resp_frame" where
  "handle_publish fp parts s =
     (if length parts \<noteq> 3 then (s, wrong_args ''publish'')
      else
        (case bulk (parts ! 1) of
           None \<Rightarrow> (s, Error ''ERR invalid channel format'')
         | Some channel \<Rightarrow>
             (case bulk (parts ! 2) of
                None \<Rightarrow> (s, Error ''ERR invalid message format'')
              | Some message \<Rightarrow>
                  (let rs = publish channel (pubsub s) in (deliver fp channel message rs s, Integer (of_nat (length rs)))))))"

fun confirm :: "(f64 \<Rightarrow> string) \<Rightarrow> nat \<Rightarrow> resp_frame list \<Rightarrow> connection \<Rightarrow> connection \<times> unit result" where
  "confirm fp now [] c = flush now c"
| "confirm fp now (f # fs) c =
     (case send_frame fp f c of (c', Ok _) \<Rightarrow> confirm fp now fs c' | (c', Err e) \<Rightarrow> (c', Err e) | (c', Panic) \<Rightarrow> (c', Panic))"

definition sub_name :: "subscription \<Rightarrow> bytes" where
  "sub_name x = (case x of Channel b \<Rightarrow> b | Pattern b \<Rightarrow> b)"

definition confirmations :: "(bytes \<Rightarrow> nat \<Rightarrow> resp_frame) \<Rightarrow> sub_result list \<Rightarrow> resp_frame list" where
  "confirmations fmt rs = map (\<lambda>r. fmt (sub_name (subscription r)) (num_subscriptions r)) rs"

definition handle_subscribe :: "(f64 \<Rightarrow> string) \<Rightarrow> nat \<Rightarrow> resp_frame list \<Rightarrow> u64 \<Rightarrow> server \<Rightarrow> server \<times> resp_frame" where
  "handle_subscribe fp now parts i s =
     (if length parts < 2 then (s, wrong_args ''subscribe'')
      else
        (case all_bulk (tl parts) of
           None \<Rightarrow> (s, Error ''ERR invalid channel format'')
         | Some ns \<Rightarrow>
             (let (m, rs) = subscribe i ns (pubsub s)
              in (fst (with_client i (confirm fp now (confirmations format_subscribe_response rs)) (s\<lparr>pubsub := m\<rparr>)), NoResponse))))"

definition handle_psubscribe :: "(f64 \<Rightarrow> string) \<Rightarrow> nat \<Rightarrow> resp_frame list \<Rightarrow> u64 \<Rightarrow> server \<Rightarrow> server \<times> resp_frame" where
  "handle_psubscribe fp now parts i s =
     (if length parts < 2 then (s, wrong_args ''psubscribe'')
      else
        (case all_bulk (tl parts) of
           None \<Rightarrow> (s, Error ''ERR invalid pattern format'')
         | Some ns \<Rightarrow>
             (let (m, rs) = psubscribe i ns (pubsub s)
              in (fst (with_client i (confirm fp now (confirmations format_psubscribe_response rs)) (s\<lparr>pubsub := m\<rparr>)), NoResponse))))"

definition names_or_all :: "resp_frame list \<Rightarrow> bytes list option option" where
  "names_or_all parts = (if length parts > 1 then map_option Some (all_bulk (tl parts)) else Some None)"

definition handle_unsubscribe :: "(f64 \<Rightarrow> string) \<Rightarrow> nat \<Rightarrow> resp_frame list \<Rightarrow> u64 \<Rightarrow> server \<Rightarrow> server \<times> resp_frame" where
  "handle_unsubscribe fp now parts i s =
     (case names_or_all parts of
        None \<Rightarrow> (s, Error ''ERR invalid channel format'')
      | Some ns \<Rightarrow>
          (let (m, rs) = unsubscribe i ns (pubsub s)
           in (fst (with_client i (confirm fp now (confirmations format_unsubscribe_response rs)) (s\<lparr>pubsub := m\<rparr>)), NoResponse)))"

definition handle_punsubscribe :: "(f64 \<Rightarrow> string) \<Rightarrow> nat \<Rightarrow> resp_frame list \<Rightarrow> u64 \<Rightarrow> server \<Rightarrow> server \<times> resp_frame" where
  "handle_punsubscribe fp now parts i s =
     (case names_or_all parts of
        None \<Rightarrow> (s, Error ''ERR invalid pattern format'')
      | Some ns \<Rightarrow>
          (let (m, rs) = punsubscribe i ns (pubsub s)
           in (fst (with_client i (confirm fp now (confirmations format_punsubscribe_response rs)) (s\<lparr>pubsub := m\<rparr>)), NoResponse)))"

section \<open>Transactions\<close>

type_synonym command_processor = "resp_frame list \<Rightarrow> nat \<Rightarrow> u64 \<Rightarrow> server \<Rightarrow> server \<times> resp_frame result"

fun run_commands :: "command_processor \<Rightarrow> nat \<Rightarrow> resp_frame list list \<Rightarrow> server \<Rightarrow> resp_frame list \<Rightarrow> server \<times> resp_frame list result" where
  "run_commands normal db [] s acc = (s, Ok acc)"
| "run_commands normal db (cmd # cmds) s acc =
     (case normal cmd db 0 s of
        (s', Ok r) \<Rightarrow> run_commands normal db cmds s' (acc @ [r])
      | (s', Err e) \<Rightarrow> run_commands normal db cmds s' (acc @ [Error (display_ferrous_error e)])
      | (s', Panic) \<Rightarrow> (s', Panic))"

definition clear_tx :: "connection \<Rightarrow> connection" where
  "clear_tx c = set_tx ((transaction c)\<lparr>in_transaction := False, watched_keys := [], queued_commands := [], aborted := False\<rparr>) c"

definition watch_violated :: "nat \<Rightarrow> nat \<Rightarrow> storage_engine \<Rightarrow> (bytes \<times> u64) list \<Rightarrow> bool" where
  "watch_violated db now e ws \<longleftrightarrow>
     list_ex (\<lambda>(key, baseline). snd (on_shard db key (was_modified_since key baseline now) e) \<noteq> Ok False) ws"

definition handle_exec :: "command_processor \<Rightarrow> nat \<Rightarrow> u64 \<Rightarrow> server \<Rightarrow> server \<times> resp_frame result" where
  "handle_exec normal now i s =
     (case client s i of
        None \<Rightarrow> (s, Ok (Error ''ERR EXEC without MULTI''))
      | Some c \<Rightarrow>
          (if \<not> in_transaction (transaction c) then (s, Ok (Error ''ERR EXEC without MULTI''))
           else if watch_violated (db_index c) now (storage s) (watched_keys (transaction c))
           then (fst (with_client i (\<lambda>c. (clear_tx c, ())) s), Ok null_array)
           else
             (let s = fst (with_client i (\<lambda>c. (clear_tx c, ())) s) in
              if aborted (transaction c) then (s, Ok null_array)
              else (case run_commands normal (db_index c) (queued_commands (transaction c)) s [] of
                      (s', Ok rs) \<Rightarrow> (s', Ok (Array (Some rs)))
                    | (s', Err e) \<Rightarrow> (s', Err e)
                    | (s', Panic) \<Rightarrow> (s', Panic)))))"

section \<open>Blocked clients\<close>

definition pop_for :: "blocking_op \<Rightarrow> nat \<Rightarrow> bytes \<Rightarrow> storage_engine \<Rightarrow> storage_engine \<times> bytes option result" where
  "pop_for op db key e = (case op of
     BLPop \<Rightarrow> on_shard db key (lpop key) e | BRPop \<Rightarrow> on_shard db key (rpop key) e | XReadBlock _ \<Rightarrow> (e, Ok None))"

definition pop_reply :: "bytes \<Rightarrow> bytes \<Rightarrow> resp_frame" where
  "pop_reply key v = Array (Some [from_bytes key, from_bytes v])"

definition is_blocked :: "connection \<Rightarrow> bool" where
  "is_blocked c \<longleftrightarrow> (case state c of Blocked _ \<Rightarrow> True | _ \<Rightarrow> False)"

text \<open>Answer a blocked connection; one that no longer waits is left alone.\<close>

definition answer_blocked :: "(f64 \<Rightarrow> string) \<Rightarrow> resp_frame \<Rightarrow> connection \<Rightarrow> connection \<times> unit result" where
  "answer_blocked fp f c =
     (if is_blocked c then
        (case send_frame fp f c of (c', Ok _) \<Rightarrow> (c'\<lparr>state := Authenticated\<rparr>, Ok ()) | (c', r) \<Rightarrow> (c', r))
      else (c, Ok ()))"

definition wake_client :: "(f64 \<Rightarrow> string) \<Rightarrow> wakeup_request \<Rightarrow> server \<Rightarrow> server \<times> unit result" where
  "wake_client fp w s =
     (case pop_for (wake_op w) (wake_db w) (wake_key w) (storage s) of
        (e, Ok (Some v)) \<Rightarrow> (fst (with_client (wake_conn w) (answer_blocked fp (pop_reply (wake_key w) v)) (s\<lparr>storage := e\<rparr>)), Ok ())
      | (e, Ok None) \<Rightarrow> (s\<lparr>storage := e\<rparr>, Ok ())
      | (e, Err x) \<Rightarrow> (s\<lparr>storage := e\<rparr>, Err x)
      | (e, Panic) \<Rightarrow> (s\<lparr>storage := e\<rparr>, Panic))"

fun wake_all :: "(f64 \<Rightarrow> string) \<Rightarrow> wakeup_request list \<Rightarrow> server \<Rightarrow> server \<times> unit result" where
  "wake_all fp [] s = (s, Ok ())"
| "wake_all fp (w # ws) s = (case wake_client fp w s of (s', Ok _) \<Rightarrow> wake_all fp ws s' | (s', r) \<Rightarrow> (s', r))"

definition server_wakeups :: "(f64 \<Rightarrow> string) \<Rightarrow> server \<Rightarrow> server \<times> bool result" where
  "server_wakeups fp s =
     (let (m, ws) = take_wakeups (blocking s); s = s\<lparr>blocking := m\<rparr> in
      if ws = [] then (s, Ok False)
      else (case wake_all fp ws s of (s', Ok _) \<Rightarrow> (s', Ok True) | (s', Err e) \<Rightarrow> (s', Err e) | (s', Panic) \<Rightarrow> (s', Panic)))"

definition process_blocked_timeouts :: "(f64 \<Rightarrow> string) \<Rightarrow> nat \<Rightarrow> server \<Rightarrow> server \<times> bool" where
  "process_blocked_timeouts fp now s =
     (let (m, expired) = process_timeouts now (blocking s); s = s\<lparr>blocking := m\<rparr> in
      if expired = [] then (s, False)
      else (fold (\<lambda>i s. fst (with_client i (answer_blocked fp null_array) s)) expired s, True))"

text \<open>
  \<^verbatim>\<open>Duration::from_secs_f64\<close> in nanoseconds, exactly: the value of the bit pattern is
  \<open>mantissa * 2 ^ (exponent - 1075)\<close>; it is rounded to the nearest nanosecond, ties to even, and a negative
  value, a NaN and a value of 2^64 seconds or more panic.
\<close>

definition round_half_even :: "nat \<Rightarrow> nat \<Rightarrow> nat" where
  "round_half_even a b =
     (let q = a div b; r = a mod b in if 2 * r < b \<or> 2 * r = b \<and> even q then q else q + 1)"

definition from_secs_f64 :: "f64 \<Rightarrow> nat option" where
  "from_secs_f64 x =
     (let bits = nat (f64_magnitude x); ex = bits div 2 ^ 52;
          man = (if ex = 0 then bits mod 2 ^ 52 else 2 ^ 52 + bits mod 2 ^ 52);
          ex = max 1 ex
      in if is_nan_f64 x \<or> ex = 2047 \<or> f64_negative x \<and> bits \<noteq> 0 then None
         else
           (let ns = (if ex \<ge> 1075 then man * 10 ^ 9 * 2 ^ (ex - 1075) else round_half_even (man * 10 ^ 9) (2 ^ (1075 - ex)))
            in if ns div 10 ^ 9 < 2 ^ 64 then Some ns else None))"

datatype timeout = Bad_Timeout | Forever | After nat | Timeout_Panic

definition parse_timeout :: "(string \<Rightarrow> f64 option) \<Rightarrow> resp_frame \<Rightarrow> timeout" where
  "parse_timeout fq f =
     (case bulk f of
        None \<Rightarrow> Bad_Timeout
      | Some b \<Rightarrow>
          (case fq b of
             None \<Rightarrow> Bad_Timeout
           | Some t \<Rightarrow>
               if f64_lt t 0 then Bad_Timeout
               else if f64_eq t 0 then Forever
               else (case from_secs_f64 t of Some d \<Rightarrow> After d | None \<Rightarrow> Timeout_Panic)))"

fun pop_first_available :: "blocking_op \<Rightarrow> nat \<Rightarrow> bytes list \<Rightarrow> storage_engine \<Rightarrow> storage_engine \<times> resp_frame option result" where
  "pop_first_available op db [] e = (e, Ok None)"
| "pop_first_available op db (key # ks) e =
     (case pop_for op db key e of
        (e', Ok (Some v)) \<Rightarrow> (e', Ok (Some (pop_reply key v)))
      | (e', Ok None) \<Rightarrow> pop_first_available op db ks e'
      | (e', Err x) \<Rightarrow> (e', Err x)
      | (e', Panic) \<Rightarrow> (e', Panic))"

definition block_connection :: "nat \<Rightarrow> bytes list \<Rightarrow> blocking_op \<Rightarrow> nat option \<Rightarrow> connection \<Rightarrow> connection" where
  "block_connection db ks op dl c =
     c\<lparr>state := Blocked \<lparr>blocked_keys_of = map (\<lambda>k. (db, k)) ks, blocked_deadline = dl, blocked_op = op\<rparr>\<rparr>"

definition register_and_block :: "blocking_op \<Rightarrow> nat \<Rightarrow> bytes list \<Rightarrow> nat option \<Rightarrow> nat \<Rightarrow> u64 \<Rightarrow> server \<Rightarrow> server \<times> resp_frame result" where
  "register_and_block op db ks dl now i s =
     (case register_blocked db i ks op dl now (blocking s) of
        (m, Ok _) \<Rightarrow> (fst (with_client i (\<lambda>c. (block_connection db ks op dl c, ())) (s\<lparr>blocking := m\<rparr>)), Ok NoResponse)
      | (m, Err e) \<Rightarrow> (s\<lparr>blocking := m\<rparr>, Err e)
      | (m, Panic) \<Rightarrow> (s\<lparr>blocking := m\<rparr>, Panic))"

definition handle_bpop :: "blocking_op \<Rightarrow> string \<Rightarrow> (string \<Rightarrow> f64 option) \<Rightarrow> nat \<Rightarrow> resp_frame list \<Rightarrow> nat \<Rightarrow> u64 \<Rightarrow> server \<Rightarrow> server \<times> resp_frame result" where
  "handle_bpop op cmd fq now parts db i s =
     (if length parts < 3 then (s, Ok (wrong_args cmd))
      else
        (case parse_timeout fq (last parts) of
           Bad_Timeout \<Rightarrow> (s, Ok (Error ''ERR timeout is not a float or out of range''))
         | Timeout_Panic \<Rightarrow> (s, Panic)
         | t \<Rightarrow>
             (case all_bulk (butlast (tl parts)) of
                None \<Rightarrow> (s, Ok (Error ''ERR invalid key format''))
              | Some ks \<Rightarrow>
                  (case pop_first_available op db ks (storage s) of
                     (e, Ok (Some reply)) \<Rightarrow> (s\<lparr>storage := e\<rparr>, Ok reply)
                   | (e, Err x) \<Rightarrow> (s\<lparr>storage := e\<rparr>, Err x)
                   | (e, Panic) \<Rightarrow> (s\<lparr>storage := e\<rparr>, Panic)
                   | (e, Ok None) \<Rightarrow>
                       (let s = s\<lparr>storage := e\<rparr> in
                        case t of
                          After d \<Rightarrow> (case instant_add now d of
                                        Some dl \<Rightarrow> register_and_block op db ks (Some dl) now i s
                                      | None \<Rightarrow> (s, Panic))
                        | _ \<Rightarrow> register_and_block op db ks None now i s)))))"

definition handle_blpop :: "(string \<Rightarrow> f64 option) \<Rightarrow> nat \<Rightarrow> resp_frame list \<Rightarrow> nat \<Rightarrow> u64 \<Rightarrow> server \<Rightarrow> server \<times> resp_frame result" where
  "handle_blpop = handle_bpop BLPop ''blpop''"

definition handle_brpop :: "(string \<Rightarrow> f64 option) \<Rightarrow> nat \<Rightarrow> resp_frame list \<Rightarrow> nat \<Rightarrow> u64 \<Rightarrow> server \<Rightarrow> server \<times> resp_frame result" where
  "handle_brpop = handle_bpop BRPop ''brpop''"

section \<open>Synchronization of replicas\<close>

definition add_and_send :: "bytes result \<Rightarrow> nat \<Rightarrow> u64 \<Rightarrow> resp_frame \<Rightarrow> server \<Rightarrow> server \<times> resp_frame result" where
  "add_and_send rdb now i reply s =
     (case client s i of
        None \<Rightarrow> (s, Err (Connection ''Connection not found''))
      | Some c \<Rightarrow>
          (case add_replica (new_replica i (addr c) now) (replication s) of
             (m, Ok _) \<Rightarrow>
               (case with_client i (send_rdb_to_replica rdb now) (s\<lparr>replication := m\<rparr>) of
                  (s', Some (Ok _)) \<Rightarrow> (s', Ok reply)
                | (s', Some (Err e)) \<Rightarrow> (s', Err e)
                | (s', Some Panic) \<Rightarrow> (s', Panic)
                | (s', None) \<Rightarrow> (s', Err (Connection ''Connection not found'')))
           | (m, Err e) \<Rightarrow> (s, Err e)
           | (m, Panic) \<Rightarrow> (s, Panic)))"

definition handle_sync_command :: "bytes result \<Rightarrow> nat \<Rightarrow> bool \<Rightarrow> resp_frame list \<Rightarrow> u64 \<Rightarrow> server \<Rightarrow> server \<times> resp_frame result" where
  "handle_sync_command rdb now is_psync parts i s =
     (if \<not> is_psync then
        (case handle_sync rdb (replication s) of Ok reply \<Rightarrow> add_and_send rdb now i reply s | Err e \<Rightarrow> (s, Err e) | Panic \<Rightarrow> (s, Panic))
      else
        (case handle_psync parts (replication s) of
           Ok reply \<Rightarrow>
             (case reply of
                SimpleString d \<Rightarrow>
                  (if take 10 (from_utf8_lossy d) = map of_char ''FULLRESYNC'' then add_and_send rdb now i reply s else (s, Ok reply))
              | _ \<Rightarrow> (s, Ok reply))
         | Err e \<Rightarrow> (s, Err e)
         | Panic \<Rightarrow> (s, Panic)))"

section \<open>Clean-up\<close>

definition drop_client :: "u64 \<Rightarrow> server \<Rightarrow> server" where
  "drop_client i s =
     (case remove_connection i (clients s) of
        (cs, Some c) \<Rightarrow>
          s\<lparr>clients := cs,
            blocking := fold (\<lambda>db m. unregister_blocked db i m) [0 ..< length (databases (storage s))] (blocking s),
            pubsub := unsubscribe_all i (pubsub s),
            monitor_subscribers := filter (\<lambda>j. j \<noteq> i) (monitor_subscribers s)\<rparr>
      | (cs, None) \<Rightarrow> s\<lparr>clients := cs\<rparr>)"

definition cleanup_connections :: "server \<Rightarrow> server" where
  "cleanup_connections s =
     fold drop_client
       (filter (\<lambda>i. (case client s i of Some c \<Rightarrow> is_closing c | None \<Rightarrow> False) \<and> \<not> is_subscribed i (pubsub s))
          (all_connection_ids (clients s))) s"

section \<open>Routing\<close>

text \<open>\<^verbatim>\<open>str::trim\<close> on code points: the characters with the \<^verbatim>\<open>White_Space\<close> property.\<close>

definition white_space :: "nat \<Rightarrow> bool" where
  "white_space n \<longleftrightarrow> 9 \<le> n \<and> n \<le> 13 \<or> n \<in> {32, 0x85, 0xA0, 0x1680, 0x2028, 0x2029, 0x202F, 0x205F, 0x3000} \<or> 0x2000 \<le> n \<and> n \<le> 0x200A"

definition trim :: "nat list \<Rightarrow> nat list" where
  "trim ps = rev (dropWhile white_space (rev (dropWhile white_space ps)))"

definition command_of :: "bytes \<Rightarrow> nat list" where
  "command_of b = to_uppercase (trim (from_utf8_lossy b))"

abbreviation ascii :: "string \<Rightarrow> nat list" where "ascii \<equiv> map of_char"

definition on_client :: "u64 \<Rightarrow> (connection \<Rightarrow> connection \<times> resp_frame) \<Rightarrow> server \<Rightarrow> server \<times> resp_frame result" where
  "on_client i f s = (case with_client i f s of (s', Some r) \<Rightarrow> (s', Ok r) | (s', None) \<Rightarrow> (s', Ok not_found))"

definition on_client_storage :: "u64 \<Rightarrow> (connection \<Rightarrow> storage_engine \<Rightarrow> connection \<times> storage_engine \<times> resp_frame) \<Rightarrow> server \<Rightarrow> server \<times> resp_frame result" where
  "on_client_storage i f s =
     (case with_client i (\<lambda>c. case f c (storage s) of (c', e, r) \<Rightarrow> (c', (e, r))) s of
        (s', Some (e, r)) \<Rightarrow> (s'\<lparr>storage := e\<rparr>, Ok r)
      | (s', None) \<Rightarrow> (s', Ok not_found))"

definition okay :: "server \<times> resp_frame \<Rightarrow> server \<times> resp_frame result" where
  "okay p = (fst p, Ok (snd p))"

definition handle_monitor :: "resp_frame list \<Rightarrow> u64 \<Rightarrow> server \<Rightarrow> server \<times> resp_frame result" where
  "handle_monitor parts i s =
     (if length parts \<noteq> 1 then (s, Ok (wrong_args ''monitor''))
      else (fst (with_client i (\<lambda>c. (c\<lparr>is_monitoring := True\<rparr>, ()))
              (s\<lparr>monitor_subscribers := (if i \<in> set (monitor_subscribers s) then monitor_subscribers s else monitor_subscribers s @ [i])\<rparr>)), Ok resp_ok))"

definition unauthenticated :: "nat list \<Rightarrow> resp_frame list \<Rightarrow> u64 \<Rightarrow> server \<Rightarrow> server \<times> resp_frame result" where
  "unauthenticated command parts i s =
     (if command = ascii ''AUTH'' then okay (handle_auth parts i s)
      else if command = ascii ''PING'' then (s, Ok (handle_ping parts))
      else if command = ascii ''QUIT'' then (s, Ok resp_ok)
      else (s, Ok (Error ''NOAUTH Authentication required'')))"

definition process_frame :: "command_processor \<Rightarrow> (f64 \<Rightarrow> string) \<Rightarrow> nat \<Rightarrow> resp_frame \<Rightarrow> u64 \<Rightarrow> server \<Rightarrow> server \<times> resp_frame result" where
  "process_frame normal fp now frame i s =
     (case frame of
        Array (Some (cmd # args)) \<Rightarrow>
          (let parts = cmd # args in
           case bulk cmd of
             None \<Rightarrow> (s, Ok (Error ''ERR invalid command format''))
           | Some b \<Rightarrow>
               (let command = command_of b in
                case client s i of
                  None \<Rightarrow> (s, Ok not_found)
                | Some c \<Rightarrow>
                    if password s \<noteq> None \<and> state c \<noteq> Authenticated then unauthenticated command parts i s
                    else if command = ascii ''MONITOR'' then handle_monitor parts i s
                    else if command = ascii ''MULTI'' then on_client i handle_multi s
                    else if command = ascii ''EXEC'' then handle_exec normal now i s
                    else if command = ascii ''DISCARD'' then on_client i handle_discard s
                    else if command = ascii ''WATCH'' then on_client_storage i (handle_watch parts) s
                    else if command = ascii ''UNWATCH'' then on_client_storage i handle_unwatch s
                    else if command = ascii ''PUBLISH'' then okay (handle_publish fp parts s)
                    else if command = ascii ''SUBSCRIBE'' then okay (handle_subscribe fp now parts i s)
                    else if command = ascii ''UNSUBSCRIBE'' then okay (handle_unsubscribe fp now parts i s)
                    else if command = ascii ''PSUBSCRIBE'' then okay (handle_psubscribe fp now parts i s)
                    else if command = ascii ''PUNSUBSCRIBE'' then okay (handle_punsubscribe fp now parts i s)
                    else if command = ascii ''AUTH'' then okay (handle_auth parts i s)
                    else if command = ascii ''REPLCONF'' then
                      (let (m, r) = handle_replconf parts (ident c) now (replication s) in (s\<lparr>replication := m\<rparr>, r))
                    else if in_transaction (transaction c) \<and> should_queue_command command
                    then on_client i (queue_command parts) s
                    else if command \<notin> set (map ascii [''AUTH'', ''CLIENT'', ''QUIT'']) \<and> now < clients_paused_until s
                    then (s, Ok (Error ''ERR CLIENT PAUSE active, please retry later''))
                    else normal parts (db_index c) i s))
      | _ \<Rightarrow> (s, Ok (Error ''ERR invalid request format'')))"

text \<open>
  The second phase of \<^verbatim>\<open>process_connection\<close> for one frame: the synchronization commands are recognised, from
  the untrimmed name, before the frame is routed.
\<close>

definition process_one :: "command_processor \<Rightarrow> (f64 \<Rightarrow> string) \<Rightarrow> bytes result \<Rightarrow> nat \<Rightarrow> resp_frame \<Rightarrow> u64 \<Rightarrow> server \<Rightarrow> server \<times> resp_frame result" where
  "process_one normal fp rdb now frame i s =
     (case frame of
        Array (Some (BulkString (Some b) # args)) \<Rightarrow>
          (if upper_is b ''SYNC'' then handle_sync_command rdb now False (BulkString (Some b) # args) i s
           else if upper_is b ''PSYNC'' then handle_sync_command rdb now True (BulkString (Some b) # args) i s
           else process_frame normal fp now frame i s)
      | _ \<Rightarrow> process_frame normal fp now frame i s)"

end
