(* ===== verification/Commands_Base.thy ===== *)
theory Commands_Base
  imports Args Steps Engine_Calls
begin

text \<open>
  What all command handlers share (\<^verbatim>\<open>src/storage/commands/*.rs\<close> and the \<^verbatim>\<open>handle_*\<close> methods of
  \<^verbatim>\<open>src/network/server.rs\<close>): a handler reads its arguments out of the request, returns an error frame for a
  bad one, calls the storage engine and turns the answer into a reply.  A command is a step on the engine;
  the argument readers take the rest of the handler as their continuation, which is the early
  \<^verbatim>\<open>return Ok(RespFrame::error(..))\<close> of the code.

  A number is parsed from the bytes of its argument: \<^verbatim>\<open>from_utf8_lossy(bytes).parse()\<close> fails on every text with
  a character outside ASCII, and so do the parsers on the bytes.

  The contract of a command has two parts: how the engine may change (a relation between the states before
  and after), and the type of the reply.  \<open>obeys\<close> states both; its rules, proved once in the locale
  \<open>effect\<close>, follow the structure of the handlers.
\<close>

section \<open>Environment\<close>

text \<open>
  \<open>clock\<close> is the sequence of readings of the monotonic clock during the command, \<open>draw_level\<close> the levels drawn
  by \<^verbatim>\<open>random_level\<close>; \<open>add_f64\<close>, \<open>read_f64\<close> and \<open>show_f64\<close> are the addition, \<^verbatim>\<open>parse\<close> and \<^verbatim>\<open>to_string\<close> of \<^verbatim>\<open>f64\<close>;
  \<open>shuffle\<close>, \<open>pick\<close> and \<open>random_usize\<close> are the random choices; \<open>key_clock\<close> is the reading a scan takes for each key; \<open>wall_clock\<close> are the
  readings of \<^verbatim>\<open>SystemTime\<close> in nanoseconds since the epoch; \<open>show_upper\<close> is the text of \<^verbatim>\<open>to_uppercase\<close> in an error reply; \<open>stream_ms\<close> and the two flags are the cached
  time and the outcomes of the compare-and-swap of the stream identifiers.
\<close>

record command_env =
  clock :: "nat \<Rightarrow> nat"
  draw_level :: "nat \<Rightarrow> nat"
  add_f64 :: "f64 \<Rightarrow> f64 \<Rightarrow> f64"
  read_f64 :: "string \<Rightarrow> f64 option"
  show_f64 :: "f64 \<Rightarrow> string"
  shuffle :: "bytes list \<Rightarrow> bytes list"
  pick :: "nat \<Rightarrow> bytes list \<Rightarrow> bytes"
  random_usize :: nat
  key_clock :: "bytes \<Rightarrow> nat"
  wall_clock :: "nat \<Rightarrow> nat"
  show_upper :: "bytes \<Rightarrow> string"
  stream_ms :: u64
  cas_ok :: bool
  cas_retry_ok :: bool

type_synonym command = "(storage_engine, resp_frame) step"

section \<open>Reading arguments and building replies\<close>

definition answer :: "resp_frame \<Rightarrow> ('s, resp_frame) step" where
  "answer f s = (s, Ok f)"

abbreviation refuse :: "string \<Rightarrow> ('s, resp_frame) step" where
  "refuse msg \<equiv> answer (Error msg)"

definition bulk_arg :: "resp_frame list \<Rightarrow> nat \<Rightarrow> string \<Rightarrow> (bytes \<Rightarrow> ('s, resp_frame) step) \<Rightarrow> ('s, resp_frame) step" where
  "bulk_arg parts i msg k = (case bulk (parts ! i) of Some b \<Rightarrow> k b | None \<Rightarrow> refuse msg)"

definition parsed_arg :: "(string \<Rightarrow> 'n option) \<Rightarrow> string \<Rightarrow> resp_frame list \<Rightarrow> nat \<Rightarrow> string \<Rightarrow> ('n \<Rightarrow> ('s, resp_frame) step) \<Rightarrow> ('s, resp_frame) step" where
  "parsed_arg parser bad parts i msg k =
     bulk_arg parts i msg (\<lambda>b. case parser b of Some n \<Rightarrow> k n | None \<Rightarrow> refuse bad)"

fun bulk_args :: "resp_frame list \<Rightarrow> string \<Rightarrow> (bytes list \<Rightarrow> ('s, resp_frame) step) \<Rightarrow> ('s, resp_frame) step" where
  "bulk_args [] msg k = k []"
| "bulk_args (f # fs) msg k = (case bulk f of Some b \<Rightarrow> bulk_args fs msg (\<lambda>bs. k (b # bs)) | None \<Rightarrow> refuse msg)"

abbreviation invalid_key :: string where "invalid_key \<equiv> ''ERR invalid key format''"
abbreviation not_integer :: string where "not_integer \<equiv> ''ERR value is not an integer or out of range''"

text \<open>The server's own handlers of \<^verbatim>\<open>SET\<close>, \<^verbatim>\<open>GET\<close>, \<^verbatim>\<open>INCR\<close> and \<^verbatim>\<open>INCRBY\<close> moreover refuse an empty key.\<close>

definition key_arg :: "resp_frame list \<Rightarrow> (bytes \<Rightarrow> ('s, resp_frame) step) \<Rightarrow> ('s, resp_frame) step" where
  "key_arg parts k = bulk_arg parts 1 invalid_key
     (\<lambda>key. if key = [] then refuse ''ERR invalid key: empty string keys are not allowed'' else k key)"

definition wrong_type_reply :: string where
  "wrong_type_reply = ''WRONGTYPE Operation against a key holding the wrong kind of value''"

definition storage_error_reply :: "ferrous_error \<Rightarrow> string" where
  "storage_error_reply e = (if e = Storage WrongType then wrong_type_reply else ''ERR '' @ display_ferrous_error e)"

text \<open>
  The three ways a handler treats the answer of the engine: the error becomes an error frame (with the
  wrong-type text or the prefix \<^verbatim>\<open>ERR\<close>; or with the bare text of the error), or it is passed on with \<^verbatim>\<open>?\<close>.
\<close>

definition reply_via :: "(ferrous_error \<Rightarrow> string) \<Rightarrow> ('a \<Rightarrow> resp_frame) \<Rightarrow> 's \<times> 'a result \<Rightarrow> 's \<times> resp_frame result" where
  "reply_via txt f p = (fst p, case snd p of Ok x \<Rightarrow> Ok (f x) | Err e \<Rightarrow> Ok (Error (txt e)) | Panic \<Rightarrow> Panic)"

abbreviation reply_or_error :: "('a \<Rightarrow> resp_frame) \<Rightarrow> 's \<times> 'a result \<Rightarrow> 's \<times> resp_frame result" where
  "reply_or_error \<equiv> reply_via storage_error_reply"

abbreviation reply_or_text :: "('a \<Rightarrow> resp_frame) \<Rightarrow> 's \<times> 'a result \<Rightarrow> 's \<times> resp_frame result" where
  "reply_or_text \<equiv> reply_via display_ferrous_error"

definition reply :: "('a \<Rightarrow> resp_frame) \<Rightarrow> 's \<times> 'a result \<Rightarrow> 's \<times> resp_frame result" where
  "reply f p = and_then p (\<lambda>s x. (s, Ok (f x)))"

text \<open>A call that only reads the engine.\<close>

definition query :: "('s \<Rightarrow> 'a result) \<Rightarrow> ('s, 'a) step" where
  "query f s = (s, f s)"

definition count_frame :: "nat \<Rightarrow> resp_frame" where
  "count_frame n = Integer (word_of_nat n)"

definition flag_frame :: "bool \<Rightarrow> resp_frame" where
  "flag_frame b = Integer (if b then 1 else 0)"

definition bulk_or_null :: "bytes option \<Rightarrow> resp_frame" where
  "bulk_or_null v = (case v of Some b \<Rightarrow> from_bytes b | None \<Rightarrow> null_bulk)"

definition bulk_array :: "bytes list \<Rightarrow> resp_frame" where
  "bulk_array bs = Array (Some (map from_bytes bs))"

definition ok_frame :: "'a \<Rightarrow> resp_frame" where
  "ok_frame x = resp_ok"

definition from_secs :: "u64 \<Rightarrow> nat" where
  "from_secs n = unat n * 1000000000"

definition from_millis :: "u64 \<Rightarrow> nat" where
  "from_millis n = unat n * 1000000"

section \<open>The contract of a command\<close>

datatype reply_kind = Simple_Reply | Error_Reply | Integer_Reply | Bulk_Reply | Array_Reply | Other_Reply

fun kind_of :: "resp_frame \<Rightarrow> reply_kind" where
  "kind_of (SimpleString b) = Simple_Reply"
| "kind_of (Error b) = Error_Reply"
| "kind_of (Integer n) = Integer_Reply"
| "kind_of (BulkString b) = Bulk_Reply"
| "kind_of (Array fs) = Array_Reply"
| "kind_of _ = Other_Reply"

lemma kind_of_simps [simp]:
  "kind_of resp_ok = Simple_Reply" "kind_of (ok_frame x) = Simple_Reply" "kind_of null_bulk = Bulk_Reply"
  "kind_of null_array = Array_Reply" "kind_of (from_bytes b) = Bulk_Reply" "kind_of (count_frame n) = Integer_Reply"
  "kind_of (flag_frame c) = Integer_Reply" "kind_of (bulk_or_null v) = Bulk_Reply" "kind_of (bulk_array bs) = Array_Reply"
  by (auto simp: resp_ok_def ok_frame_def null_bulk_def null_array_def from_bytes_def count_frame_def flag_frame_def
      bulk_or_null_def bulk_array_def split: option.split)

definition within :: "(storage_engine \<Rightarrow> storage_engine \<Rightarrow> bool) \<Rightarrow> (storage_engine, 'a) step \<Rightarrow> bool" where
  "within R f \<longleftrightarrow> (\<forall>e. engine_ok e \<longrightarrow> R e (fst (f e)))"

definition obeys :: "(storage_engine \<Rightarrow> storage_engine \<Rightarrow> bool) \<Rightarrow> reply_kind set \<Rightarrow> command \<Rightarrow> bool" where
  "obeys R K f \<longleftrightarrow> within R f \<and> (\<forall>e r. engine_ok e \<longrightarrow> snd (f e) = Ok r \<longrightarrow> is_error r \<or> kind_of r \<in> K)"

named_theorems contract_rules \<open>rules for the contract of a handler, by its structure\<close>
named_theorems reader_simps \<open>operations that leave the shard as it is\<close>

lemma is_error_Error [simp]: "is_error (Error msg)"
  by (simp add: is_error_def)

lemma wrong_args_error [simp]: "is_error (wrong_args cmd)"
  by (simp add: wrong_args_def)

lemma reply_via_fst [simp]: "fst (reply_via t f p) = fst p"
  by (simp add: reply_via_def)

lemma reply_fst [simp]: "fst (reply f p) = fst p"
  by (cases p; cases "snd p") (auto simp: reply_def)

lemma reply_via_Ok: "snd (reply_via t f p) = Ok r \<Longrightarrow> is_error r \<or> (\<exists>x. r = f x)"
  by (cases "snd p") (auto simp: reply_via_def)

lemma reply_Ok: "snd (reply f p) = Ok r \<Longrightarrow> \<exists>x. r = f x"
  by (cases p; cases "snd p") (auto simp: reply_def)

locale effect =
  fixes R :: "storage_engine \<Rightarrow> storage_engine \<Rightarrow> bool"
  assumes refl: "engine_ok e \<Longrightarrow> R e e"
    and trans: "R e e' \<Longrightarrow> R e' e'' \<Longrightarrow> R e e''"
    and ok: "R e e' \<Longrightarrow> engine_ok e'"
begin

lemma within_unchanged: "(\<And>e. fst (f e) = e) \<Longrightarrow> within R f"
  by (simp add: within_def refl)

lemma within_query: "within R (query f)"
  by (simp add: within_unchanged query_def)

lemma within_and_then:
  assumes "within R g" "\<And>x. within R (k x)"
  shows "within R (\<lambda>s. and_then (g s) (\<lambda>s x. k x s))"
proof -
  have "R e (fst (and_then (g e) (\<lambda>s x. k x s)))" if "engine_ok e" for e
  proof (rule and_then_keeps)
    show g: "R e (fst (g e))" using assms(1) that by (simp add: within_def)
    fix s x assume "g e = (s, Ok x)"
    then show "R e (fst (k x s))" using g trans [of e s] ok assms(2) by (auto simp: within_def)
  qed
  then show ?thesis by (simp add: within_def)
qed

lemma within_if:
  "(c \<Longrightarrow> within R f) \<Longrightarrow> (\<not> c \<Longrightarrow> within R g) \<Longrightarrow> within R (\<lambda>s. if c then f s else g s)"
  by (cases c) simp_all

lemma within_return: "within R (\<lambda>s. (s, r))"
  by (simp add: within_unchanged)

lemma obeys_answer: "is_error r \<or> kind_of r \<in> K \<Longrightarrow> obeys R K (answer r)"
  by (simp add: obeys_def within_unchanged answer_def)

lemma obeys_panic: "obeys R K (\<lambda>s. (s, Panic))"
  by (simp add: obeys_def within_unchanged)

lemma obeys_bulk_arg: "(\<And>b. obeys R K (k b)) \<Longrightarrow> obeys R K (bulk_arg parts i msg k)"
  by (simp add: bulk_arg_def obeys_answer split: option.split)

lemma obeys_parsed_arg: "(\<And>n. obeys R K (k n)) \<Longrightarrow> obeys R K (parsed_arg parser bad parts i msg k)"
  by (simp add: parsed_arg_def obeys_bulk_arg obeys_answer split: option.split)

lemma obeys_key_arg: "(\<And>b. obeys R K (k b)) \<Longrightarrow> obeys R K (key_arg parts k)"
  by (simp add: key_arg_def obeys_bulk_arg obeys_answer)

lemma obeys_bulk_args: "(\<And>bs. length bs = length fs \<Longrightarrow> obeys R K (k bs)) \<Longrightarrow> obeys R K (bulk_args fs msg k)"
  by (induction fs msg k rule: bulk_args.induct) (auto simp: obeys_answer split: option.split)

lemma obeys_reply_via: "within R g \<Longrightarrow> (\<And>x. kind_of (f x) \<in> K) \<Longrightarrow> obeys R K (\<lambda>s. reply_via t f (g s))"
  by (auto simp: obeys_def within_def dest: reply_via_Ok)

lemma obeys_reply: "within R g \<Longrightarrow> (\<And>x. kind_of (f x) \<in> K) \<Longrightarrow> obeys R K (\<lambda>s. reply f (g s))"
  by (auto simp: obeys_def within_def dest: reply_Ok)

lemma obeys_and_then:
  assumes "within R g" "\<And>x. obeys R K (k x)"
  shows "obeys R K (\<lambda>s. and_then (g s) (\<lambda>s x. k x s))"
  unfolding obeys_def
proof (intro conjI allI impI)
  show "within R (\<lambda>s. and_then (g s) (\<lambda>s x. k x s))"
    using assms by (intro within_and_then) (simp_all add: obeys_def)
  fix e r assume e: "engine_ok e" and r: "snd (and_then (g e) (\<lambda>s x. k x s)) = Ok r"
  from r obtain s x where "g e = (s, Ok x)" "snd (k x s) = Ok r"
    by (cases "g e"; cases "snd (g e)") auto
  moreover have "engine_ok s" using assms(1) e ok [of e s] \<open>g e = (s, Ok x)\<close> by (auto simp: within_def)
  ultimately show "is_error r \<or> kind_of r \<in> K" using assms(2) [of x] by (simp add: obeys_def)
qed

lemma obeys_if:
  "(c \<Longrightarrow> obeys R K f) \<Longrightarrow> (\<not> c \<Longrightarrow> obeys R K g) \<Longrightarrow> obeys R K (if c then f else g)"
  "(c \<Longrightarrow> obeys R K f) \<Longrightarrow> (\<not> c \<Longrightarrow> obeys R K g) \<Longrightarrow> obeys R K (\<lambda>s. if c then f s else g s)"
  by (cases c; simp)+

lemma obeys_option:
  "(\<And>x. obeys R K (k x)) \<Longrightarrow> obeys R K f \<Longrightarrow> obeys R K (case v of Some x \<Rightarrow> k x | None \<Rightarrow> f)"
  by (cases v) simp_all

lemma obeys_sum:
  "(\<And>x. obeys R K (f x)) \<Longrightarrow> (\<And>y. obeys R K (g y)) \<Longrightarrow> obeys R K (case v of Inl x \<Rightarrow> f x | Inr y \<Rightarrow> g y)"
  by (cases v) simp_all

lemma obeys_prod: "(\<And>x y. obeys R K (f x y)) \<Longrightarrow> obeys R K (case p of (x, y) \<Rightarrow> f x y)"
  by (cases p) simp

lemma obeys_option_state:
  "(\<And>x. obeys R K (k x)) \<Longrightarrow> obeys R K f \<Longrightarrow> obeys R K (\<lambda>s. case v of Some x \<Rightarrow> k x s | None \<Rightarrow> f s)"
  by (cases v) simp_all

lemmas rules = obeys_sum obeys_prod obeys_option_state within_and_then within_if within_return within_query obeys_panic obeys_answer obeys_bulk_arg obeys_parsed_arg
  obeys_key_arg obeys_bulk_args obeys_reply_via obeys_reply obeys_and_then obeys_if obeys_option

end

lemma obeys_mono: "obeys R K f \<Longrightarrow> (\<And>e e'. R e e' \<Longrightarrow> R' e e') \<Longrightarrow> K \<subseteq> K' \<Longrightarrow> obeys R' K' f"
  by (fastforce simp: obeys_def within_def)

section \<open>Effects\<close>

text \<open>
  A command on a database keeps the invariant of the engine and leaves every other database alone.
\<close>

definition same_outside :: "nat \<Rightarrow> storage_engine \<Rightarrow> storage_engine \<Rightarrow> bool" where
  "same_outside db e e' \<longleftrightarrow> engine_ok e' \<and> length (databases e') = length (databases e) \<and>
     (\<forall>db'. db' \<noteq> db \<longrightarrow> databases e' ! db' = databases e ! db')"

text \<open>
  A reading command moreover leaves every key with its deadline as it was, except that a key that has expired
  at one of the instants \<open>T\<close> may be dropped.
\<close>

definition only_expires :: "nat set \<Rightarrow> nat \<Rightarrow> storage_engine \<Rightarrow> storage_engine \<Rightarrow> bool" where
  "only_expires T db e e' \<longleftrightarrow> same_outside db e e' \<and>
     (\<forall>k. lookup e' db k = lookup e db k \<and> lookup_expiring e' db k = lookup_expiring e db k \<or>
          lookup e' db k = None \<and> (\<exists>sv. lookup e db k = Some sv \<and> (\<exists>t \<in> T. is_expired t sv)))"

interpretation writing: effect "same_outside db" for db
  by unfold_locales (auto simp: same_outside_def)

interpretation reading: effect "only_expires T db" for T db
proof unfold_locales
  fix e e' e'' assume a: "only_expires T db e e'" and b: "only_expires T db e' e''"
  have "same_outside db e e''" using a b writing.trans [of db e e' e''] by (simp add: only_expires_def)
  moreover have "lookup e'' db k = lookup e db k \<and> lookup_expiring e'' db k = lookup_expiring e db k \<or>
      lookup e'' db k = None \<and> (\<exists>sv. lookup e db k = Some sv \<and> (\<exists>t \<in> T. is_expired t sv))" for k
    using a b unfolding only_expires_def by (metis (no_types, lifting))
  ultimately show "only_expires T db e e''" by (simp add: only_expires_def)
qed (auto simp: only_expires_def same_outside_def)

definition any_database :: "storage_engine \<Rightarrow> storage_engine \<Rightarrow> bool" where
  "any_database e e' \<longleftrightarrow> engine_ok e' \<and> length (databases e') = length (databases e)"

interpretation flushing: effect any_database
  by unfold_locales (auto simp: any_database_def)

lemmas [contract_rules] = writing.rules reading.rules flushing.rules

lemma reading_is_writing: "obeys (only_expires T db) K f \<Longrightarrow> obeys (same_outside db) K f"
  by (erule obeys_mono) (simp_all add: only_expires_def)

lemma on_shard_databases [simp]: "length (databases (fst (on_shard db key op e))) = length (databases e)"
  by (simp add: on_shard_def Let_def split: prod.split)

lemma within_on_shard:
  assumes "shard_local key op"
  shows "within (same_outside db) (on_shard db key op)"
  using shard_local.engine_keeps [OF assms]
  by (auto simp: within_def same_outside_def on_shard_def Let_def split: prod.split)

lemma within_operation [contract_rules]:
  "shard_operation key op \<Longrightarrow> within (same_outside db) (on_shard db key op)"
  by (rule within_on_shard) (simp add: shard_operation_def)

lemma on_shard_unchanged:
  assumes "\<And>s. fst (op s) = s"
  shows "fst (on_shard db key op e) = e"
proof -
  obtain r where "op (databases e ! db ! get_shard_index key, memory e) = ((databases e ! db ! get_shard_index key, memory e), r)"
    using assms by (metis prod.collapse)
  then show ?thesis by (simp add: on_shard_def Let_def)
qed

lemma within_reader: "(\<And>s. fst (op s) = s) \<Longrightarrow> within (only_expires T db) (on_shard db key op)"
  by (rule reading.within_unchanged) (rule on_shard_unchanged)

lemma within_get [contract_rules]:
  assumes "now \<in> T"
  shows "within (only_expires T db) (on_shard db key (engine_get key now))"
    and "within (only_expires T db) (on_shard db key (get_string key now))"
proof -
  have "only_expires T db e (fst (on_shard db key (engine_get key now) e))" if e: "engine_ok e" for e
  proof -
    have "same_outside db e (fst (on_shard db key (engine_get key now) e))"
      using within_operation [OF engine_get.shard_operation_axioms, of db key now] e by (simp add: within_def)
    moreover have "lookup (fst (on_shard db key (engine_get key now) e)) db k = lookup e db k \<and>
        lookup_expiring (fst (on_shard db key (engine_get key now) e)) db k = lookup_expiring e db k \<or>
        lookup (fst (on_shard db key (engine_get key now) e)) db k = None \<and> (\<exists>sv. lookup e db k = Some sv \<and> (\<exists>t \<in> T. is_expired t sv))" for k
    proof (cases "k = key \<and> db < length (databases e)")
      case True
      then have db: "db < length (databases e)" and k: "k = key" by simp_all
      show ?thesis
      proof (cases "\<exists>sv. data_get key (shard_of e db key) = Some sv \<and> is_expired now sv")
        case True
        then show ?thesis using assms db
          by (auto simp: k lookup_def engine_get.engine_result [OF e db])
      next
        case False
        then have "engine_get key now (shard_of e db key, memory e) =
            ((shard_of e db key, memory e), snd (engine_get key now (shard_of e db key, memory e)))"
          by (auto split: option.split)
        from engine_get.engine_result (2,3) [OF e db this] db show ?thesis by (simp add: k lookup_def lookup_expiring_def)
      qed
    next
      case False
      then show ?thesis using engine_get.engine_frame [OF e, of db k db key now] on_shard_invalid [of db e key "engine_get key now"]
        by (cases "db < length (databases e)") auto
    qed
    ultimately show ?thesis by (simp add: only_expires_def)
  qed
  then show "within (only_expires T db) (on_shard db key (engine_get key now))" by (simp add: within_def)
  moreover have "fst (on_shard db key (get_string key now) e) = fst (on_shard db key (engine_get key now) e)" for e
    by (simp add: on_shard_def Let_def split: prod.split)
  ultimately show "within (only_expires T db) (on_shard db key (get_string key now))" by (simp add: within_def)
qed

section \<open>The operations of the engine\<close>

lemma within_rename [contract_rules]: "within (same_outside db) (rename_key db k k')"
  using rename_key_ok
  by (auto simp: within_def same_outside_def rename_key_def put_shard_def Let_def split: option.split)

lemma within_flush [contract_rules]: "within (same_outside db) (flush_db db)" "within any_database (flush_db db)"
  using flush_db_ok by (auto simp: within_def same_outside_def any_database_def flush_db_def)

lemmas [contract_rules] =
  set_string.shard_operation_axioms set_string_ex.shard_operation_axioms set_string_nx.shard_operation_axioms
  set_string_nx_ex.shard_operation_axioms engine_get.shard_operation_axioms get_string.shard_operation_axioms
  key_exists.shard_operation_axioms delete_key.shard_operation_axioms expire.shard_operation_axioms
  pexpire.shard_operation_axioms ttl.shard_operation_axioms pttl.shard_operation_axioms persist.shard_operation_axioms
  incr_by.shard_operation_axioms incr.shard_operation_axioms append_string.shard_operation_axioms setrange.shard_operation_axioms
  lpush_operation rpush_operation lpop.shard_operation_axioms rpop.shard_operation_axioms lset.shard_operation_axioms
  ltrim.shard_operation_axioms lrem.shard_operation_axioms sadd_operation srem.shard_operation_axioms
  spop.shard_operation_axioms hset_operation hdel.shard_operation_axioms hincrby.shard_operation_axioms
  zadd_operation zincrby_operation zrem.shard_operation_axioms xadd.shard_operation_axioms
  xadd_with_id.shard_operation_axioms xtrim.shard_operation_axioms xdel.shard_operation_axioms
  stream_create_consumer_group.shard_operation_axioms

lemma string_readers [reader_simps]:
  "fst (key_exists key now s) = s" "fst (ttl key now s) = s" "fst (strlen key s) = s" "fst (getrange key start stop s) = s"
  "fst (key_type key s) = s"
  by (cases s; simp split: option.split val.split)+

lemma pttl_reader [reader_simps]: "fst (pttl key now now2 s) = s"
  by (cases s) (simp split: option.split)

lemma llen_reader [reader_simps]: "fst (llen key s) = s"
  by (cases s) (simp split: option.split val.split)

lemma lrange_reader [reader_simps]: "fst (lrange key start stop s) = s"
  by (cases s) (simp add: Let_def split: option.split val.split)

lemma lindex_reader [reader_simps]: "fst (lindex key i s) = s"
  by (cases s) (simp add: Let_def split: option.split val.split)

lemma smembers_reader [reader_simps]: "fst (smembers key s) = s"
  by (cases s) (simp split: option.split val.split)

lemma sismember_reader [reader_simps]: "fst (sismember key x s) = s"
  by (cases s) (simp split: option.split val.split)

lemma scard_reader [reader_simps]: "fst (scard key s) = s"
  by (cases s) (simp split: option.split val.split)

lemma srandmember_reader [reader_simps]: "fst (srandmember shuf pck key c s) = s"
  by (cases s) (simp split: option.split val.split)

lemma hash_readers [reader_simps]:
  "fst (hget key f s) = s" "fst (hmget key fs s) = s" "fst (hgetall key s) = s" "fst (hlen key s) = s"
  "fst (hexists key f s) = s" "fst (hkeys key s) = s" "fst (hvals key s) = s"
  by (cases s; simp split: option.split val.split)+

lemma sorted_readers [reader_simps]:
  "fst (zscore key x s) = s" "fst (zrank key x reverse s) = s" "fst (zrange key start stop reverse s) = s"
  "fst (zrangebyscore key lo hi reverse s) = s" "fst (zcard key s) = s"
  by (cases s; simp split: option.split val.split)+

lemma zcount_reader [reader_simps]: "fst (zcount key lo hi s) = s"
  by (cases s) (simp add: Let_def split: option.split val.split prod.split)

lemma stream_readers [reader_simps]:
  "fst (xrange key a b c reverse s) = s" "fst (xlen key s) = s"
  by (cases s; simp split: option.split val.split)+

declare pttl.simps [simp del] zcount.simps [simp del]

end
