(* ===== verification/Commands_Strings.thy ===== *)
theory Commands_Strings
  imports Commands_Base
begin

text \<open>
  The handlers of the string commands and of the commands on keys: \<^verbatim>\<open>src/storage/commands/strings.rs\<close> and
  \<^verbatim>\<open>handle_echo\<close> to \<^verbatim>\<open>handle_renamenx\<close> of \<^verbatim>\<open>src/network/server.rs\<close>.  Each has its contract: which effect it has on
  the engine and which type of reply it gives.
\<close>

section \<open>Strings\<close>

primrec mget_loop :: "command_env \<Rightarrow> nat \<Rightarrow> nat \<Rightarrow> resp_frame list \<Rightarrow> resp_frame list \<Rightarrow> command" where
  "mget_loop env db i [] vs = answer (Array (Some vs))"
| "mget_loop env db i (p # ps) vs =
     (case bulk p of
        Some key \<Rightarrow> (\<lambda>s. and_then (on_shard db key (get_string key (clock env i)) s)
                       (\<lambda>s v. mget_loop env db (i + 1) ps (vs @ [bulk_or_null v]) s))
      | None \<Rightarrow> refuse invalid_key)"

definition handle_mget :: "command_env \<Rightarrow> nat \<Rightarrow> resp_frame list \<Rightarrow> command" where
  "handle_mget env db parts =
     (if length parts < 2 then answer (wrong_args ''mget'') else mget_loop env db 0 (drop 1 parts) [])"

fun mset_loop :: "command_env \<Rightarrow> nat \<Rightarrow> nat \<Rightarrow> resp_frame list \<Rightarrow> command" where
  "mset_loop env db i (k # v # ps) =
     (case bulk k of
        Some key \<Rightarrow>
          (case bulk v of
             Some b \<Rightarrow> (\<lambda>s. and_then (on_shard db key (set_string key b (clock env i)) s)
                          (\<lambda>s _. mset_loop env db (i + 1) ps s))
           | None \<Rightarrow> refuse ''ERR invalid value format'')
      | None \<Rightarrow> refuse invalid_key)"
| "mset_loop env db i [k] = (case bulk k of Some key \<Rightarrow> (\<lambda>s. (s, Panic)) | None \<Rightarrow> refuse invalid_key)"
| "mset_loop env db i [] = answer resp_ok"

definition handle_mset :: "command_env \<Rightarrow> nat \<Rightarrow> resp_frame list \<Rightarrow> command" where
  "handle_mset env db parts =
     (if length parts < 3 \<or> length parts mod 2 = 0 then answer (wrong_args ''mset'')
      else mset_loop env db 0 (drop 1 parts))"

definition handle_getset :: "command_env \<Rightarrow> nat \<Rightarrow> resp_frame list \<Rightarrow> command" where
  "handle_getset env db parts =
     (if length parts \<noteq> 3 then answer (wrong_args ''getset'')
      else bulk_arg parts 1 invalid_key (\<lambda>key.
           bulk_arg parts 2 ''ERR invalid value format'' (\<lambda>b s.
           and_then (on_shard db key (get_string key (clock env 0)) s) (\<lambda>s old.
           reply (\<lambda>_. bulk_or_null old) (on_shard db key (set_string key b (clock env 1)) s)))))"

definition handle_append :: "command_env \<Rightarrow> nat \<Rightarrow> resp_frame list \<Rightarrow> command" where
  "handle_append env db parts =
     (if length parts \<noteq> 3 then answer (wrong_args ''append'')
      else bulk_arg parts 1 invalid_key (\<lambda>key.
           bulk_arg parts 2 ''ERR invalid value format'' (\<lambda>b s.
           reply_or_error count_frame (on_shard db key (append_string key b (clock env 0)) s))))"

definition handle_strlen :: "command_env \<Rightarrow> nat \<Rightarrow> resp_frame list \<Rightarrow> command" where
  "handle_strlen env db parts =
     (if length parts \<noteq> 2 then answer (wrong_args ''strlen'')
      else bulk_arg parts 1 invalid_key (\<lambda>key s.
           reply_or_error count_frame (on_shard db key (strlen key) s)))"

definition handle_getrange :: "command_env \<Rightarrow> nat \<Rightarrow> resp_frame list \<Rightarrow> command" where
  "handle_getrange env db parts =
     (if length parts \<noteq> 4 then answer (wrong_args ''getrange'')
      else bulk_arg parts 1 invalid_key (\<lambda>key.
           parsed_arg parse_isize not_integer parts 2 ''ERR invalid start format'' (\<lambda>start.
           parsed_arg parse_isize not_integer parts 3 ''ERR invalid end format'' (\<lambda>stop s.
           reply_or_error from_bytes (on_shard db key (getrange key start stop) s)))))"

definition handle_setrange :: "command_env \<Rightarrow> nat \<Rightarrow> resp_frame list \<Rightarrow> command" where
  "handle_setrange env db parts =
     (if length parts \<noteq> 4 then answer (wrong_args ''setrange'')
      else bulk_arg parts 1 invalid_key (\<lambda>key.
           parsed_arg parse_usize not_integer parts 2 ''ERR invalid offset format'' (\<lambda>offset.
           bulk_arg parts 3 ''ERR invalid value format'' (\<lambda>b s.
           reply_or_error count_frame (on_shard db key (setrange key offset b (clock env 0)) s)))))"

section \<open>SET and its variants\<close>

text \<open>The options of \<^verbatim>\<open>SET\<close>: the expiration, \<^verbatim>\<open>NX\<close> and \<^verbatim>\<open>XX\<close>, or the text of the error.\<close>

fun set_options :: "nat option \<Rightarrow> bool \<Rightarrow> bool \<Rightarrow> resp_frame list \<Rightarrow> string + (nat option \<times> bool \<times> bool)" where
  "set_options ex nx xx [] = Inr (ex, nx, xx)"
| "set_options ex nx xx (p # ps) =
     (case bulk p of
        None \<Rightarrow> Inl ''ERR syntax error''
      | Some option \<Rightarrow>
          if upper_is option ''EX'' then
            (case ps of
               [] \<Rightarrow> Inl ''ERR syntax error''
             | q # qs \<Rightarrow> (case Option.bind (bulk q) parse_u64 of
                            Some n \<Rightarrow> set_options (Some (from_secs n)) nx xx qs
                          | None \<Rightarrow> Inl ''ERR invalid expire time''))
          else if upper_is option ''PX'' then
            (case ps of
               [] \<Rightarrow> Inl ''ERR syntax error''
             | q # qs \<Rightarrow> (case Option.bind (bulk q) parse_u64 of
                            Some n \<Rightarrow> set_options (Some (from_millis n)) nx xx qs
                          | None \<Rightarrow> Inl ''ERR invalid expire time''))
          else if upper_is option ''NX'' then set_options ex True xx ps
          else if upper_is option ''XX'' then set_options ex nx True ps
          else Inl ''ERR syntax error'')"

definition store_string :: "nat \<Rightarrow> bytes \<Rightarrow> bytes \<Rightarrow> nat option \<Rightarrow> nat \<Rightarrow> (storage_engine, unit) step" where
  "store_string db key b ex now =
     (case ex of Some d \<Rightarrow> on_shard db key (set_string_ex key b d now) | None \<Rightarrow> on_shard db key (set_string key b now))"

definition store_string_nx :: "nat \<Rightarrow> bytes \<Rightarrow> bytes \<Rightarrow> nat option \<Rightarrow> nat \<Rightarrow> nat \<Rightarrow> (storage_engine, bool) step" where
  "store_string_nx db key b ex now now2 =
     (case ex of Some d \<Rightarrow> on_shard db key (set_string_nx_ex key b d now now2) | None \<Rightarrow> on_shard db key (set_string_nx key b now))"

definition handle_set :: "command_env \<Rightarrow> nat \<Rightarrow> resp_frame list \<Rightarrow> command" where
  "handle_set env db parts =
     (if length parts < 3 then answer (wrong_args ''set'')
      else key_arg parts (\<lambda>key.
           bulk_arg parts 2 ''ERR invalid value format'' (\<lambda>b.
           case set_options None False False (drop 3 parts) of
             Inl msg \<Rightarrow> refuse msg
           | Inr (ex, nx, xx) \<Rightarrow>
               if nx then
                 (\<lambda>s. reply (\<lambda>stored. if stored then resp_ok else null_bulk) (store_string_nx db key b ex (clock env 0) (clock env 1) s))
               else if xx then
                 (\<lambda>s. and_then (on_shard db key (key_exists key (clock env 0)) s) (\<lambda>s found.
                        if \<not> found then answer null_bulk s else reply ok_frame (store_string db key b ex (clock env 1) s)))
               else (\<lambda>s. reply ok_frame (store_string db key b ex (clock env 0) s)))))"

definition handle_get :: "command_env \<Rightarrow> nat \<Rightarrow> resp_frame list \<Rightarrow> command" where
  "handle_get env db parts =
     (if length parts \<noteq> 2 then answer (wrong_args ''get'')
      else key_arg parts (\<lambda>key s. reply bulk_or_null (on_shard db key (get_string key (clock env 0)) s)))"

definition handle_setnx :: "command_env \<Rightarrow> nat \<Rightarrow> resp_frame list \<Rightarrow> command" where
  "handle_setnx env db parts =
     (if length parts \<noteq> 3 then answer (wrong_args ''setnx'')
      else bulk_arg parts 1 invalid_key (\<lambda>key.
           bulk_arg parts 2 ''ERR invalid value format'' (\<lambda>b s.
           and_then (on_shard db key (key_exists key (clock env 0)) s) (\<lambda>s found.
             if found then answer (Integer 0) s
             else reply (\<lambda>_. Integer 1) (on_shard db key (set_string key b (clock env 1)) s)))))"

definition handle_setex :: "command_env \<Rightarrow> nat \<Rightarrow> resp_frame list \<Rightarrow> command" where
  "handle_setex env db parts =
     (if length parts \<noteq> 4 then answer (wrong_args ''setex'')
      else bulk_arg parts 1 invalid_key (\<lambda>key.
           parsed_arg parse_u64 not_integer parts 2 ''ERR invalid expiration format'' (\<lambda>seconds.
           bulk_arg parts 3 ''ERR invalid value format'' (\<lambda>b s.
           reply ok_frame (on_shard db key (set_string_ex key b (from_secs seconds) (clock env 0)) s)))))"

definition handle_psetex :: "command_env \<Rightarrow> nat \<Rightarrow> resp_frame list \<Rightarrow> command" where
  "handle_psetex env db parts =
     (if length parts \<noteq> 4 then answer (wrong_args ''psetex'')
      else bulk_arg parts 1 invalid_key (\<lambda>key.
           parsed_arg parse_u64 not_integer parts 2 ''ERR invalid expiration format'' (\<lambda>ms.
           bulk_arg parts 3 ''ERR invalid value format'' (\<lambda>b s.
           reply ok_frame (on_shard db key (set_string_ex key b (from_millis ms) (clock env 0)) s)))))"

section \<open>Counters\<close>

definition handle_incr :: "command_env \<Rightarrow> nat \<Rightarrow> resp_frame list \<Rightarrow> command" where
  "handle_incr env db parts =
     (if length parts \<noteq> 2 then answer (wrong_args ''incr'')
      else key_arg parts (\<lambda>key s. reply_or_text Integer (on_shard db key (incr key (clock env 0)) s)))"

definition handle_decr :: "command_env \<Rightarrow> nat \<Rightarrow> resp_frame list \<Rightarrow> command" where
  "handle_decr env db parts =
     (if length parts \<noteq> 2 then answer (wrong_args ''decr'')
      else bulk_arg parts 1 invalid_key (\<lambda>key s. reply_or_text Integer (on_shard db key (incr_by key (- 1) (clock env 0)) s)))"

definition handle_incrby :: "command_env \<Rightarrow> nat \<Rightarrow> resp_frame list \<Rightarrow> command" where
  "handle_incrby env db parts =
     (if length parts \<noteq> 3 then answer (wrong_args ''incrby'')
      else key_arg parts (\<lambda>key.
           parsed_arg parse_i64 not_integer parts 2 ''ERR invalid increment format'' (\<lambda>n s.
           reply_or_text Integer (on_shard db key (incr_by key n (clock env 0)) s))))"

definition handle_decrby :: "command_env \<Rightarrow> nat \<Rightarrow> resp_frame list \<Rightarrow> command" where
  "handle_decrby env db parts =
     (if length parts \<noteq> 3 then answer (wrong_args ''decrby'')
      else bulk_arg parts 1 invalid_key (\<lambda>key.
           parsed_arg parse_i64 not_integer parts 2 ''ERR invalid decrement format'' (\<lambda>n s.
           reply_or_text Integer (on_shard db key (incr_by key (- n) (clock env 0)) s))))"

section \<open>Keys\<close>

definition handle_echo :: "resp_frame list \<Rightarrow> command" where
  "handle_echo parts = (if length parts \<noteq> 2 then answer (wrong_args ''echo'') else answer (parts ! 1))"

text \<open>\<^verbatim>\<open>DEL\<close> and \<^verbatim>\<open>EXISTS\<close> skip an argument that is not a bulk string.\<close>

fun count_loop :: "(nat \<Rightarrow> bytes \<Rightarrow> (storage_engine, bool) step) \<Rightarrow> nat \<Rightarrow> nat \<Rightarrow> resp_frame list \<Rightarrow> command" where
  "count_loop f i n [] = answer (count_frame n)"
| "count_loop f i n (p # ps) =
     (case bulk p of
        None \<Rightarrow> count_loop f i n ps
      | Some key \<Rightarrow> (\<lambda>s. and_then (f i key s) (\<lambda>s hit. count_loop f (i + 1) (if hit then n + 1 else n) ps s)))"

definition handle_del :: "command_env \<Rightarrow> nat \<Rightarrow> resp_frame list \<Rightarrow> command" where
  "handle_del env db parts =
     (if length parts < 2 then answer (wrong_args ''del'')
      else count_loop (\<lambda>i key. on_shard db key (delete_key key)) 0 0 (drop 1 parts))"

definition handle_exists :: "command_env \<Rightarrow> nat \<Rightarrow> resp_frame list \<Rightarrow> command" where
  "handle_exists env db parts =
     (if length parts < 2 then answer (wrong_args ''exists'')
      else count_loop (\<lambda>i key. on_shard db key (key_exists key (clock env i))) 0 0 (drop 1 parts))"

definition handle_expire :: "command_env \<Rightarrow> nat \<Rightarrow> resp_frame list \<Rightarrow> command" where
  "handle_expire env db parts =
     (if length parts \<noteq> 3 then answer (wrong_args ''expire'')
      else bulk_arg parts 1 invalid_key (\<lambda>key.
           parsed_arg parse_i64 not_integer parts 2 ''ERR invalid seconds format'' (\<lambda>seconds.
           if sint seconds \<le> 0 then (\<lambda>s. reply flag_frame (on_shard db key (delete_key key) s))
           else (\<lambda>s. reply flag_frame (on_shard db key (expire key (from_secs seconds) (clock env 0) (clock env 1)) s)))))"

definition handle_pexpire :: "command_env \<Rightarrow> nat \<Rightarrow> resp_frame list \<Rightarrow> command" where
  "handle_pexpire env db parts =
     (if length parts \<noteq> 3 then answer (wrong_args ''pexpire'')
      else bulk_arg parts 1 invalid_key (\<lambda>key.
           parsed_arg parse_u64 not_integer parts 2 ''ERR invalid milliseconds format'' (\<lambda>ms s.
           reply flag_frame (on_shard db key (pexpire key ms (clock env 0) (clock env 1)) s))))"

text \<open>The seconds that \<^verbatim>\<open>TTL\<close> reports for a remaining time in nanoseconds.\<close>

definition remaining_seconds :: "nat \<Rightarrow> i64" where
  "remaining_seconds d =
     (let secs = d div 1000000000; nanos = d mod 1000000000; subsec_millis = nanos div 1000000 in
      if secs = 0 \<and> subsec_millis = 0 then - 2
      else if secs = 0 \<and> subsec_millis > 0 then 1
      else if nanos > 0 then word_of_nat (secs + 1) else word_of_nat secs)"

definition handle_ttl :: "command_env \<Rightarrow> nat \<Rightarrow> resp_frame list \<Rightarrow> command" where
  "handle_ttl env db parts =
     (if length parts \<noteq> 2 then answer (wrong_args ''ttl'')
      else bulk_arg parts 1 invalid_key (\<lambda>key s.
           and_then (on_shard db key (ttl key (clock env 0)) s) (\<lambda>s left.
             case left of
               Some d \<Rightarrow> answer (Integer (remaining_seconds d)) s
             | None \<Rightarrow> reply (\<lambda>found. Integer (if found then - 1 else - 2)) (on_shard db key (key_exists key (clock env 1)) s))))"

definition handle_pttl :: "command_env \<Rightarrow> nat \<Rightarrow> resp_frame list \<Rightarrow> command" where
  "handle_pttl env db parts =
     (if length parts \<noteq> 2 then answer (wrong_args ''pttl'')
      else bulk_arg parts 1 invalid_key (\<lambda>key s. reply Integer (on_shard db key (pttl key (clock env 0) (clock env 1)) s)))"

definition handle_persist :: "command_env \<Rightarrow> nat \<Rightarrow> resp_frame list \<Rightarrow> command" where
  "handle_persist env db parts =
     (if length parts \<noteq> 2 then answer (wrong_args ''persist'')
      else bulk_arg parts 1 invalid_key (\<lambda>key s.
           reply_via (\<lambda>e. ''ERR '' @ display_ferrous_error e) flag_frame (on_shard db key (persist key) s)))"

definition handle_type :: "command_env \<Rightarrow> nat \<Rightarrow> resp_frame list \<Rightarrow> command" where
  "handle_type env db parts =
     (if length parts \<noteq> 2 then answer (wrong_args ''type'')
      else bulk_arg parts 1 invalid_key (\<lambda>key s. reply SimpleString (on_shard db key (key_type key) s)))"

definition handle_rename :: "command_env \<Rightarrow> nat \<Rightarrow> resp_frame list \<Rightarrow> command" where
  "handle_rename env db parts =
     (if length parts \<noteq> 3 then answer (wrong_args ''rename'')
      else bulk_arg parts 1 invalid_key (\<lambda>old_key.
           bulk_arg parts 2 invalid_key (\<lambda>new_key s. reply ok_frame (rename_key db old_key new_key s))))"

definition handle_renamenx :: "command_env \<Rightarrow> nat \<Rightarrow> resp_frame list \<Rightarrow> command" where
  "handle_renamenx env db parts =
     (if length parts \<noteq> 3 then answer (wrong_args ''renamenx'')
      else bulk_arg parts 1 ''ERR invalid old key format'' (\<lambda>old_key.
           bulk_arg parts 2 ''ERR invalid new key format'' (\<lambda>new_key s.
           and_then (on_shard db old_key (key_exists old_key (clock env 0)) s) (\<lambda>s found.
             if \<not> found then refuse ''ERR no such key'' s
             else and_then (on_shard db new_key (key_exists new_key (clock env 1)) s) (\<lambda>s taken.
                    if taken then answer (Integer 0) s
                    else reply_or_text (\<lambda>_. Integer 1) (rename_key db old_key new_key s))))))"

definition handle_keys :: "command_env \<Rightarrow> nat \<Rightarrow> resp_frame list \<Rightarrow> command" where
  "handle_keys env db parts =
     (if length parts \<noteq> 2 then answer (wrong_args ''keys'')
      else bulk_arg parts 1 ''ERR invalid pattern format'' (\<lambda>pattern s.
           reply bulk_array (query (\<lambda>e. keys e db pattern) s)))"

definition handle_randomkey :: "command_env \<Rightarrow> nat \<Rightarrow> resp_frame list \<Rightarrow> command" where
  "handle_randomkey env db parts =
     (if length parts \<noteq> 1 then answer (wrong_args ''randomkey'')
      else (\<lambda>s. reply (\<lambda>ks. if ks = [] then null_bulk else from_bytes (ks ! (random_usize env mod length ks)))
                  (query (\<lambda>e. get_all_keys e db) s)))"

definition handle_dbsize :: "command_env \<Rightarrow> nat \<Rightarrow> resp_frame list \<Rightarrow> command" where
  "handle_dbsize env db parts =
     (if length parts \<noteq> 1 then answer (wrong_args ''dbsize'')
      else (\<lambda>s. reply (\<lambda>ks. count_frame (length ks)) (query (\<lambda>e. get_all_keys e db) s)))"

definition handle_flushdb :: "command_env \<Rightarrow> nat \<Rightarrow> resp_frame list \<Rightarrow> command" where
  "handle_flushdb env db parts =
     (if length parts \<noteq> 1 then answer (wrong_args ''flushdb'')
      else (\<lambda>s. reply_via (\<lambda>e. ''ERR '' @ display_ferrous_error e) ok_frame (flush_db db s)))"

text \<open>\<^verbatim>\<open>FLUSHALL\<close> stops at the first database that cannot be flushed and reports its error.\<close>

definition handle_flushall :: "command_env \<Rightarrow> resp_frame list \<Rightarrow> command" where
  "handle_flushall env parts =
     (if length parts \<noteq> 1 then answer (wrong_args ''flushall'')
      else (\<lambda>s. reply_via (\<lambda>e. ''ERR '' @ display_ferrous_error e) ok_frame
                  (steps (map flush_db [0 ..< length (databases s)]) s)))"

section \<open>Contracts\<close>

lemma within_store_string [contract_rules]: "within (same_outside db) (store_string db key b ex now)"
  by (cases ex) (simp_all add: store_string_def within_operation set_string.shard_operation_axioms set_string_ex.shard_operation_axioms)

lemma within_store_string_nx [contract_rules]: "within (same_outside db) (store_string_nx db key b ex now now2)"
  by (cases ex) (simp_all add: store_string_nx_def within_operation set_string_nx.shard_operation_axioms set_string_nx_ex.shard_operation_axioms)

lemma mget_loop_obeys [contract_rules]:
  "obeys (only_expires (range (clock env)) db) {Array_Reply} (mget_loop env db i ps vs)"
  by (induction ps arbitrary: i vs) (simp_all add: reading.rules within_get)

lemma mset_loop_obeys [contract_rules]: "obeys (same_outside db) {Simple_Reply} (mset_loop env db i ps)"
  by (induction ps arbitrary: i rule: induct_list012)
    (simp_all add: writing.rules within_operation set_string.shard_operation_axioms split: option.split)

context effect
begin

lemma count_loop_obeys:
  "(\<And>i key. within R (f i key)) \<Longrightarrow> obeys R {Integer_Reply} (count_loop f i n ps)"
  by (induction ps arbitrary: i n) (simp_all add: rules split: option.split)

lemma within_steps: "(\<And>f. f \<in> set fs \<Longrightarrow> within R f) \<Longrightarrow> within R (steps fs)"
proof (induction fs)
  case (Cons f fs)
  have "steps (f # fs) = (\<lambda>s. and_then (f s) (\<lambda>s _. steps fs s))" by (rule ext) simp
  then show ?case using Cons within_and_then [of f "\<lambda>_. steps fs"] by simp
qed (simp add: within_unchanged)

end

lemmas [contract_rules] = writing.count_loop_obeys reading.count_loop_obeys

lemma string_writers:
  "obeys (same_outside db) {Simple_Reply} (handle_mset env db parts)"
  "obeys (same_outside db) {Bulk_Reply} (handle_getset env db parts)"
  "obeys (same_outside db) {Integer_Reply} (handle_append env db parts)"
  "obeys (same_outside db) {Integer_Reply} (handle_setrange env db parts)"
  "obeys (same_outside db) {Integer_Reply} (handle_setnx env db parts)"
  "obeys (same_outside db) {Simple_Reply} (handle_setex env db parts)"
  "obeys (same_outside db) {Simple_Reply} (handle_psetex env db parts)"
  "obeys (same_outside db) {Integer_Reply} (handle_incr env db parts)"
  "obeys (same_outside db) {Integer_Reply} (handle_decr env db parts)"
  "obeys (same_outside db) {Integer_Reply} (handle_incrby env db parts)"
  "obeys (same_outside db) {Integer_Reply} (handle_decrby env db parts)"
  unfolding handle_mset_def handle_getset_def handle_append_def handle_setrange_def handle_setnx_def handle_setex_def
    handle_psetex_def handle_incr_def handle_decr_def handle_incrby_def handle_decrby_def
  by (intro contract_rules; simp)+

lemma handle_set_obeys: "obeys (same_outside db) {Simple_Reply, Bulk_Reply} (handle_set env db parts)"
  unfolding handle_set_def by (intro contract_rules; simp)

lemma key_writers:
  "obeys (same_outside db) {Integer_Reply} (handle_del env db parts)"
  "obeys (same_outside db) {Integer_Reply} (handle_expire env db parts)"
  "obeys (same_outside db) {Integer_Reply} (handle_pexpire env db parts)"
  "obeys (same_outside db) {Integer_Reply} (handle_persist env db parts)"
  "obeys (same_outside db) {Simple_Reply} (handle_rename env db parts)"
  "obeys (same_outside db) {Integer_Reply} (handle_renamenx env db parts)"
  "obeys (same_outside db) {Simple_Reply} (handle_flushdb env db parts)"
  unfolding handle_del_def handle_expire_def handle_pexpire_def handle_persist_def handle_rename_def handle_renamenx_def
    handle_flushdb_def
  by (intro contract_rules; simp)+

lemma string_readers_obey:
  "obeys (only_expires (range (clock env)) db) {Array_Reply} (handle_mget env db parts)"
  "obeys (only_expires (range (clock env)) db) {Bulk_Reply} (handle_get env db parts)"
  "obeys (only_expires (range (clock env)) db) {Integer_Reply} (handle_strlen env db parts)"
  "obeys (only_expires (range (clock env)) db) {Bulk_Reply} (handle_getrange env db parts)"
  "obeys (only_expires (range (clock env)) db) {Integer_Reply} (handle_exists env db parts)"
  "obeys (only_expires (range (clock env)) db) {Integer_Reply} (handle_ttl env db parts)"
  "obeys (only_expires (range (clock env)) db) {Integer_Reply} (handle_pttl env db parts)"
  "obeys (only_expires (range (clock env)) db) {Simple_Reply} (handle_type env db parts)"
  "obeys (only_expires (range (clock env)) db) {Array_Reply} (handle_keys env db parts)"
  "obeys (only_expires (range (clock env)) db) {Bulk_Reply} (handle_randomkey env db parts)"
  "obeys (only_expires (range (clock env)) db) {Integer_Reply} (handle_dbsize env db parts)"
  unfolding handle_mget_def handle_get_def handle_strlen_def handle_getrange_def handle_exists_def handle_ttl_def
    handle_pttl_def handle_type_def handle_keys_def handle_randomkey_def handle_dbsize_def
  by (intro contract_rules within_reader; simp add: reader_simps)+

lemma handle_flushall_obeys: "obeys any_database {Simple_Reply} (handle_flushall env parts)"
proof -
  have "within any_database (\<lambda>s. steps (map flush_db [0 ..< length (databases s)]) s)"
    using flushing.within_steps [of "map flush_db [0 ..< n]" for n] within_flush(2) unfolding within_def by auto
  then show ?thesis unfolding handle_flushall_def by (intro contract_rules; simp)
qed

lemmas string_contracts = string_writers handle_set_obeys key_writers string_readers_obey handle_flushall_obeys

end
