(* ===== verification/Commands_Collections.thy ===== *)
theory Commands_Collections
  imports Commands_Base
begin

text \<open>
  The handlers of the list, set and hash commands: \<^verbatim>\<open>src/storage/commands/lists.rs\<close>, \<^verbatim>\<open>sets.rs\<close> and
  \<^verbatim>\<open>hashes.rs\<close>, with their contracts.
\<close>

section \<open>Lists\<close>

definition handle_lpush :: "command_env \<Rightarrow> nat \<Rightarrow> resp_frame list \<Rightarrow> command" where
  "handle_lpush env db parts =
     (if length parts < 3 then answer (wrong_args ''lpush'')
      else bulk_arg parts 1 invalid_key (\<lambda>key.
           bulk_args (drop 2 parts) ''ERR invalid element format'' (\<lambda>elements s.
           reply_or_error count_frame (on_shard db key (lpush key elements (clock env 0)) s))))"

definition handle_rpush :: "command_env \<Rightarrow> nat \<Rightarrow> resp_frame list \<Rightarrow> command" where
  "handle_rpush env db parts =
     (if length parts < 3 then answer (wrong_args ''rpush'')
      else bulk_arg parts 1 invalid_key (\<lambda>key.
           bulk_args (drop 2 parts) ''ERR invalid element format'' (\<lambda>elements s.
           reply_or_error count_frame (on_shard db key (rpush key elements (clock env 0)) s))))"

definition handle_lpop :: "command_env \<Rightarrow> nat \<Rightarrow> resp_frame list \<Rightarrow> command" where
  "handle_lpop env db parts =
     (if length parts \<noteq> 2 then answer (wrong_args ''lpop'')
      else bulk_arg parts 1 invalid_key (\<lambda>key s. reply_or_error bulk_or_null (on_shard db key (lpop key) s)))"

definition handle_rpop :: "command_env \<Rightarrow> nat \<Rightarrow> resp_frame list \<Rightarrow> command" where
  "handle_rpop env db parts =
     (if length parts \<noteq> 2 then answer (wrong_args ''rpop'')
      else bulk_arg parts 1 invalid_key (\<lambda>key s. reply_or_error bulk_or_null (on_shard db key (rpop key) s)))"

definition handle_llen :: "command_env \<Rightarrow> nat \<Rightarrow> resp_frame list \<Rightarrow> command" where
  "handle_llen env db parts =
     (if length parts \<noteq> 2 then answer (wrong_args ''llen'')
      else bulk_arg parts 1 invalid_key (\<lambda>key s. reply_or_error count_frame (on_shard db key (llen key) s)))"

definition handle_lrange :: "command_env \<Rightarrow> nat \<Rightarrow> resp_frame list \<Rightarrow> command" where
  "handle_lrange env db parts =
     (if length parts \<noteq> 4 then answer (wrong_args ''lrange'')
      else bulk_arg parts 1 invalid_key (\<lambda>key.
           parsed_arg parse_isize not_integer parts 2 ''ERR invalid start format'' (\<lambda>start.
           parsed_arg parse_isize not_integer parts 3 ''ERR invalid stop format'' (\<lambda>stop s.
           reply_or_error bulk_array (on_shard db key (lrange key start stop) s)))))"

definition handle_lindex :: "command_env \<Rightarrow> nat \<Rightarrow> resp_frame list \<Rightarrow> command" where
  "handle_lindex env db parts =
     (if length parts \<noteq> 3 then answer (wrong_args ''lindex'')
      else bulk_arg parts 1 invalid_key (\<lambda>key.
           parsed_arg parse_isize not_integer parts 2 ''ERR invalid index format'' (\<lambda>index s.
           reply_or_error bulk_or_null (on_shard db key (lindex key index) s))))"

definition handle_lset :: "command_env \<Rightarrow> nat \<Rightarrow> resp_frame list \<Rightarrow> command" where
  "handle_lset env db parts =
     (if length parts \<noteq> 4 then answer (wrong_args ''lset'')
      else bulk_arg parts 1 invalid_key (\<lambda>key.
           parsed_arg parse_isize not_integer parts 2 ''ERR invalid index format'' (\<lambda>index.
           bulk_arg parts 3 ''ERR invalid value format'' (\<lambda>b s.
           reply_or_error ok_frame (on_shard db key (lset key index b) s)))))"

definition handle_ltrim :: "command_env \<Rightarrow> nat \<Rightarrow> resp_frame list \<Rightarrow> command" where
  "handle_ltrim env db parts =
     (if length parts \<noteq> 4 then answer (wrong_args ''ltrim'')
      else bulk_arg parts 1 invalid_key (\<lambda>key.
           parsed_arg parse_isize not_integer parts 2 ''ERR invalid start format'' (\<lambda>start.
           parsed_arg parse_isize not_integer parts 3 ''ERR invalid stop format'' (\<lambda>stop s.
           reply_or_error ok_frame (on_shard db key (ltrim key start stop) s)))))"

definition handle_lrem :: "command_env \<Rightarrow> nat \<Rightarrow> resp_frame list \<Rightarrow> command" where
  "handle_lrem env db parts =
     (if length parts \<noteq> 4 then answer (wrong_args ''lrem'')
      else bulk_arg parts 1 invalid_key (\<lambda>key.
           parsed_arg parse_isize not_integer parts 2 ''ERR invalid count format'' (\<lambda>count.
           bulk_arg parts 3 ''ERR invalid element format'' (\<lambda>element s.
           reply_or_error count_frame (on_shard db key (lrem key count element) s)))))"

section \<open>Sets\<close>

definition handle_sadd :: "command_env \<Rightarrow> nat \<Rightarrow> resp_frame list \<Rightarrow> command" where
  "handle_sadd env db parts =
     (if length parts < 3 then answer (wrong_args ''sadd'')
      else bulk_arg parts 1 invalid_key (\<lambda>key.
           bulk_args (drop 2 parts) ''ERR invalid member format'' (\<lambda>members s.
           reply_or_error count_frame (on_shard db key (sadd key members (clock env 0)) s))))"

text \<open>\<^verbatim>\<open>SREM\<close> and \<^verbatim>\<open>HDEL\<close> skip the arguments that are not bulk strings.\<close>

definition handle_srem :: "command_env \<Rightarrow> nat \<Rightarrow> resp_frame list \<Rightarrow> command" where
  "handle_srem env db parts =
     (if length parts < 3 then answer (wrong_args ''srem'')
      else bulk_arg parts 1 invalid_key (\<lambda>key s.
           reply_or_error count_frame (on_shard db key (srem key (List.map_filter bulk (drop 2 parts))) s)))"

definition handle_smembers :: "command_env \<Rightarrow> nat \<Rightarrow> resp_frame list \<Rightarrow> command" where
  "handle_smembers env db parts =
     (if length parts \<noteq> 2 then answer (wrong_args ''smembers'')
      else bulk_arg parts 1 invalid_key (\<lambda>key s. reply_or_error bulk_array (on_shard db key (smembers key) s)))"

definition handle_sismember :: "command_env \<Rightarrow> nat \<Rightarrow> resp_frame list \<Rightarrow> command" where
  "handle_sismember env db parts =
     (if length parts \<noteq> 3 then answer (wrong_args ''sismember'')
      else bulk_arg parts 1 invalid_key (\<lambda>key.
           bulk_arg parts 2 ''ERR invalid member format'' (\<lambda>member s.
           reply_or_error flag_frame (on_shard db key (sismember key member) s))))"

definition handle_scard :: "command_env \<Rightarrow> nat \<Rightarrow> resp_frame list \<Rightarrow> command" where
  "handle_scard env db parts =
     (if length parts \<noteq> 2 then answer (wrong_args ''scard'')
      else bulk_arg parts 1 invalid_key (\<lambda>key s. reply_or_error count_frame (on_shard db key (scard key) s)))"

definition handle_sunion :: "command_env \<Rightarrow> nat \<Rightarrow> resp_frame list \<Rightarrow> command" where
  "handle_sunion env db parts =
     (if length parts < 2 then answer (wrong_args ''sunion'')
      else bulk_args (drop 1 parts) invalid_key (\<lambda>ks s. reply_or_error bulk_array (query (\<lambda>e. sunion e db ks) s)))"

definition handle_sinter :: "command_env \<Rightarrow> nat \<Rightarrow> resp_frame list \<Rightarrow> command" where
  "handle_sinter env db parts =
     (if length parts < 2 then answer (wrong_args ''sinter'')
      else bulk_args (drop 1 parts) invalid_key (\<lambda>ks s. reply_or_error bulk_array (query (\<lambda>e. sinter e db ks) s)))"

definition handle_sdiff :: "command_env \<Rightarrow> nat \<Rightarrow> resp_frame list \<Rightarrow> command" where
  "handle_sdiff env db parts =
     (if length parts < 2 then answer (wrong_args ''sdiff'')
      else bulk_args (drop 1 parts) invalid_key (\<lambda>ks s. reply_or_error bulk_array (query (\<lambda>e. sdiff e db ks) s)))"

definition handle_srandmember :: "command_env \<Rightarrow> nat \<Rightarrow> resp_frame list \<Rightarrow> command" where
  "handle_srandmember env db parts =
     (if length parts < 2 \<or> length parts > 3 then answer (wrong_args ''srandmember'')
      else bulk_arg parts 1 invalid_key (\<lambda>key.
           if length parts = 3 then
             parsed_arg parse_i64 not_integer parts 2 ''ERR invalid count format'' (\<lambda>n s.
               reply_or_error bulk_array (on_shard db key (srandmember (shuffle env) (pick env) key n) s))
           else (\<lambda>s. reply_or_error (\<lambda>members. if members = [] then null_bulk else from_bytes (last members))
                       (on_shard db key (srandmember (shuffle env) (pick env) key 1) s))))"

definition handle_spop :: "command_env \<Rightarrow> nat \<Rightarrow> resp_frame list \<Rightarrow> command" where
  "handle_spop env db parts =
     (if length parts < 2 \<or> length parts > 3 then answer (wrong_args ''spop'')
      else bulk_arg parts 1 invalid_key (\<lambda>key.
           if length parts = 3 then
             parsed_arg parse_usize not_integer parts 2 ''ERR invalid count format'' (\<lambda>count s.
               reply_or_error bulk_array (on_shard db key (spop (shuffle env) key count) s))
           else (\<lambda>s. reply_or_error (\<lambda>members. case members of [] \<Rightarrow> null_bulk | x # _ \<Rightarrow> from_bytes x)
                       (on_shard db key (spop (shuffle env) key 1) s))))"

section \<open>Hashes\<close>

fun field_values :: "resp_frame list \<Rightarrow> ((bytes \<times> bytes) list \<Rightarrow> command) \<Rightarrow> command" where
  "field_values (f # v # ps) k =
     (case bulk f of
        Some field \<Rightarrow>
          (case bulk v of
             Some b \<Rightarrow> field_values ps (\<lambda>fvs. k ((field, b) # fvs))
           | None \<Rightarrow> refuse ''ERR invalid value format'')
      | None \<Rightarrow> refuse ''ERR invalid field format'')"
| "field_values [f] k = (case bulk f of Some field \<Rightarrow> (\<lambda>s. (s, Panic)) | None \<Rightarrow> refuse ''ERR invalid field format'')"
| "field_values [] k = k []"

definition handle_hset :: "command_env \<Rightarrow> nat \<Rightarrow> resp_frame list \<Rightarrow> command" where
  "handle_hset env db parts =
     (if length parts < 4 \<or> (length parts - 2) mod 2 \<noteq> 0 then answer (wrong_args ''hset'')
      else bulk_arg parts 1 invalid_key (\<lambda>key.
           field_values (drop 2 parts) (\<lambda>fvs s.
           reply_or_error count_frame (on_shard db key (hset key fvs (clock env 0)) s))))"

definition handle_hget :: "command_env \<Rightarrow> nat \<Rightarrow> resp_frame list \<Rightarrow> command" where
  "handle_hget env db parts =
     (if length parts \<noteq> 3 then answer (wrong_args ''hget'')
      else bulk_arg parts 1 invalid_key (\<lambda>key.
           bulk_arg parts 2 ''ERR invalid field format'' (\<lambda>field s.
           reply_or_error bulk_or_null (on_shard db key (hget key field) s))))"

definition handle_hmset :: "command_env \<Rightarrow> nat \<Rightarrow> resp_frame list \<Rightarrow> command" where
  "handle_hmset env db parts =
     (if length parts < 4 \<or> (length parts - 2) mod 2 \<noteq> 0 then answer (wrong_args ''hmset'')
      else bulk_arg parts 1 invalid_key (\<lambda>key.
           field_values (drop 2 parts) (\<lambda>fvs s.
           reply_or_error ok_frame (on_shard db key (hset key fvs (clock env 0)) s))))"

definition handle_hmget :: "command_env \<Rightarrow> nat \<Rightarrow> resp_frame list \<Rightarrow> command" where
  "handle_hmget env db parts =
     (if length parts < 3 then answer (wrong_args ''hmget'')
      else bulk_arg parts 1 invalid_key (\<lambda>key.
           bulk_args (drop 2 parts) ''ERR invalid field format'' (\<lambda>fs s.
           reply_or_error (\<lambda>vs. Array (Some (map bulk_or_null vs))) (on_shard db key (hmget key fs) s))))"

definition handle_hgetall :: "command_env \<Rightarrow> nat \<Rightarrow> resp_frame list \<Rightarrow> command" where
  "handle_hgetall env db parts =
     (if length parts \<noteq> 2 then answer (wrong_args ''hgetall'')
      else bulk_arg parts 1 invalid_key (\<lambda>key s.
           reply_or_error (\<lambda>fvs. bulk_array (concat (map (\<lambda>(f, v). [f, v]) fvs))) (on_shard db key (hgetall key) s)))"

definition handle_hdel :: "command_env \<Rightarrow> nat \<Rightarrow> resp_frame list \<Rightarrow> command" where
  "handle_hdel env db parts =
     (if length parts < 3 then answer (wrong_args ''hdel'')
      else bulk_arg parts 1 invalid_key (\<lambda>key s.
           reply_or_error count_frame (on_shard db key (hdel key (List.map_filter bulk (drop 2 parts))) s)))"

definition handle_hlen :: "command_env \<Rightarrow> nat \<Rightarrow> resp_frame list \<Rightarrow> command" where
  "handle_hlen env db parts =
     (if length parts \<noteq> 2 then answer (wrong_args ''hlen'')
      else bulk_arg parts 1 invalid_key (\<lambda>key s. reply_or_error count_frame (on_shard db key (hlen key) s)))"

definition handle_hexists :: "command_env \<Rightarrow> nat \<Rightarrow> resp_frame list \<Rightarrow> command" where
  "handle_hexists env db parts =
     (if length parts \<noteq> 3 then answer (wrong_args ''hexists'')
      else bulk_arg parts 1 invalid_key (\<lambda>key.
           bulk_arg parts 2 ''ERR invalid field format'' (\<lambda>field s.
           reply_or_error flag_frame (on_shard db key (hexists key field) s))))"

definition handle_hkeys :: "command_env \<Rightarrow> nat \<Rightarrow> resp_frame list \<Rightarrow> command" where
  "handle_hkeys env db parts =
     (if length parts \<noteq> 2 then answer (wrong_args ''hkeys'')
      else bulk_arg parts 1 invalid_key (\<lambda>key s. reply_or_error bulk_array (on_shard db key (hkeys key) s)))"

definition handle_hvals :: "command_env \<Rightarrow> nat \<Rightarrow> resp_frame list \<Rightarrow> command" where
  "handle_hvals env db parts =
     (if length parts \<noteq> 2 then answer (wrong_args ''hvals'')
      else bulk_arg parts 1 invalid_key (\<lambda>key s. reply_or_error bulk_array (on_shard db key (hvals key) s)))"

definition handle_hincrby :: "command_env \<Rightarrow> nat \<Rightarrow> resp_frame list \<Rightarrow> command" where
  "handle_hincrby env db parts =
     (if length parts \<noteq> 4 then answer (wrong_args ''hincrby'')
      else bulk_arg parts 1 invalid_key (\<lambda>key.
           bulk_arg parts 2 ''ERR invalid field format'' (\<lambda>field.
           parsed_arg parse_i64 not_integer parts 3 ''ERR invalid increment format'' (\<lambda>n s.
           reply_or_error Integer (on_shard db key (hincrby key field n (clock env 0)) s)))))"

section \<open>Contracts\<close>

context effect
begin

lemma obeys_field_values:
  "(\<And>fvs. length ps \<noteq> 0 \<Longrightarrow> fvs \<noteq> [] \<Longrightarrow> obeys R K (k fvs)) \<Longrightarrow> (ps = [] \<Longrightarrow> obeys R K (k [])) \<Longrightarrow> obeys R K (field_values ps k)"
  by (induction ps k rule: field_values.induct) (simp_all add: rules split: option.split)

end

lemma list_writers:
  "obeys (same_outside db) {Integer_Reply} (handle_lpush env db parts)"
  "obeys (same_outside db) {Integer_Reply} (handle_rpush env db parts)"
  "obeys (same_outside db) {Bulk_Reply} (handle_lpop env db parts)"
  "obeys (same_outside db) {Bulk_Reply} (handle_rpop env db parts)"
  "obeys (same_outside db) {Simple_Reply} (handle_lset env db parts)"
  "obeys (same_outside db) {Simple_Reply} (handle_ltrim env db parts)"
  "obeys (same_outside db) {Integer_Reply} (handle_lrem env db parts)"
  unfolding handle_lpush_def handle_rpush_def handle_lpop_def handle_rpop_def handle_lset_def handle_ltrim_def handle_lrem_def
  by (intro contract_rules; force)+

lemma list_readers_obey:
  "obeys (only_expires (range (clock env)) db) {Integer_Reply} (handle_llen env db parts)"
  "obeys (only_expires (range (clock env)) db) {Array_Reply} (handle_lrange env db parts)"
  "obeys (only_expires (range (clock env)) db) {Bulk_Reply} (handle_lindex env db parts)"
  unfolding handle_llen_def handle_lrange_def handle_lindex_def
  by (intro contract_rules within_reader; simp add: reader_simps)+

lemma set_writers:
  "obeys (same_outside db) {Integer_Reply} (handle_sadd env db parts)"
  "obeys (same_outside db) {Integer_Reply} (handle_srem env db parts)"
  unfolding handle_sadd_def handle_srem_def
  by (intro contract_rules; force)+

lemma handle_spop_obeys: "obeys (same_outside db) {Bulk_Reply, Array_Reply} (handle_spop env db parts)"
  unfolding handle_spop_def by (intro contract_rules; simp split: list.split)

lemma set_readers_obey:
  "obeys (only_expires (range (clock env)) db) {Array_Reply} (handle_smembers env db parts)"
  "obeys (only_expires (range (clock env)) db) {Integer_Reply} (handle_sismember env db parts)"
  "obeys (only_expires (range (clock env)) db) {Integer_Reply} (handle_scard env db parts)"
  "obeys (only_expires (range (clock env)) db) {Array_Reply} (handle_sunion env db parts)"
  "obeys (only_expires (range (clock env)) db) {Array_Reply} (handle_sinter env db parts)"
  "obeys (only_expires (range (clock env)) db) {Array_Reply} (handle_sdiff env db parts)"
  "obeys (only_expires (range (clock env)) db) {Bulk_Reply, Array_Reply} (handle_srandmember env db parts)"
  unfolding handle_smembers_def handle_sismember_def handle_scard_def handle_sunion_def handle_sinter_def handle_sdiff_def
    handle_srandmember_def
  by (intro contract_rules within_reader; simp add: reader_simps)+

lemma hash_writers:
  "obeys (same_outside db) {Integer_Reply} (handle_hset env db parts)"
  "obeys (same_outside db) {Simple_Reply} (handle_hmset env db parts)"
  "obeys (same_outside db) {Integer_Reply} (handle_hdel env db parts)"
  "obeys (same_outside db) {Integer_Reply} (handle_hincrby env db parts)"
  unfolding handle_hset_def handle_hmset_def handle_hdel_def handle_hincrby_def
  by (intro contract_rules writing.obeys_field_values; force)+

lemma hash_readers_obey:
  "obeys (only_expires (range (clock env)) db) {Bulk_Reply} (handle_hget env db parts)"
  "obeys (only_expires (range (clock env)) db) {Array_Reply} (handle_hmget env db parts)"
  "obeys (only_expires (range (clock env)) db) {Array_Reply} (handle_hgetall env db parts)"
  "obeys (only_expires (range (clock env)) db) {Integer_Reply} (handle_hlen env db parts)"
  "obeys (only_expires (range (clock env)) db) {Integer_Reply} (handle_hexists env db parts)"
  "obeys (only_expires (range (clock env)) db) {Array_Reply} (handle_hkeys env db parts)"
  "obeys (only_expires (range (clock env)) db) {Array_Reply} (handle_hvals env db parts)"
  unfolding handle_hget_def handle_hmget_def handle_hgetall_def handle_hlen_def handle_hexists_def handle_hkeys_def handle_hvals_def
  by (intro contract_rules within_reader; simp add: reader_simps)+

lemmas collection_contracts = list_writers list_readers_obey set_writers handle_spop_obeys set_readers_obey hash_writers hash_readers_obey

end
