(* ===== verification/Commands_Sorted.thy ===== *)
theory Commands_Sorted
  imports Commands_Base
begin

text \<open>
  The handlers of the sorted-set commands (\<^verbatim>\<open>handle_zadd\<close> to \<^verbatim>\<open>handle_zpopmax\<close> of \<^verbatim>\<open>src/network/server.rs\<close>) and of
  the scans (\<^verbatim>\<open>src/storage/commands/scan.rs\<close>), with their contracts.
\<close>

abbreviation not_float :: string where "not_float \<equiv> ''ERR value is not a valid float''"
abbreviation bad_bound :: string where "bad_bound \<equiv> ''ERR min or max is not a float''"

section \<open>Changing sorted sets\<close>

text \<open>
  \<^verbatim>\<open>ZADD\<close> reads and adds one pair after the other; the \<open>i\<close>-th addition takes the \<open>i\<close>-th clock reading and level.
\<close>

fun zadd_loop :: "command_env \<Rightarrow> nat \<Rightarrow> bytes \<Rightarrow> nat \<Rightarrow> nat \<Rightarrow> resp_frame list \<Rightarrow> command" where
  "zadd_loop env db key i n (p # q # ps) =
     (case bulk p of
        Some b \<Rightarrow>
          (case read_f64 env b of
             Some score \<Rightarrow>
               (case bulk q of
                  Some member \<Rightarrow>
                    (\<lambda>s. and_then (on_shard db key (zadd (draw_level env i) key member score (clock env i)) s) (\<lambda>s is_new.
                           zadd_loop env db key (i + 1) (if is_new then n + 1 else n) ps s))
                | None \<Rightarrow> refuse ''ERR invalid member format'')
           | None \<Rightarrow> refuse not_float)
      | None \<Rightarrow> refuse ''ERR invalid score format'')"
| "zadd_loop env db key i n [p] =
     (case bulk p of
        Some b \<Rightarrow> (case read_f64 env b of Some score \<Rightarrow> (\<lambda>s. (s, Panic)) | None \<Rightarrow> refuse not_float)
      | None \<Rightarrow> refuse ''ERR invalid score format'')"
| "zadd_loop env db key i n [] = answer (count_frame n)"

definition handle_zadd :: "command_env \<Rightarrow> nat \<Rightarrow> resp_frame list \<Rightarrow> command" where
  "handle_zadd env db parts =
     (if length parts < 4 \<or> length parts mod 2 \<noteq> 0 then answer (wrong_args ''zadd'')
      else bulk_arg parts 1 invalid_key (\<lambda>key. zadd_loop env db key 0 0 (drop 2 parts)))"

fun zrem_loop :: "nat \<Rightarrow> bytes \<Rightarrow> nat \<Rightarrow> resp_frame list \<Rightarrow> command" where
  "zrem_loop db key n [] = answer (count_frame n)"
| "zrem_loop db key n (p # ps) =
     (case bulk p of
        None \<Rightarrow> zrem_loop db key n ps
      | Some member \<Rightarrow> (\<lambda>s. and_then (on_shard db key (zrem key member) s) (\<lambda>s hit. zrem_loop db key (if hit then n + 1 else n) ps s)))"

definition handle_zrem :: "command_env \<Rightarrow> nat \<Rightarrow> resp_frame list \<Rightarrow> command" where
  "handle_zrem env db parts =
     (if length parts < 3 then answer (wrong_args ''zrem'')
      else bulk_arg parts 1 invalid_key (\<lambda>key. zrem_loop db key 0 (drop 2 parts)))"

definition handle_zincrby :: "command_env \<Rightarrow> nat \<Rightarrow> resp_frame list \<Rightarrow> command" where
  "handle_zincrby env db parts =
     (if length parts \<noteq> 4 then answer (wrong_args ''zincrby'')
      else bulk_arg parts 1 invalid_key (\<lambda>key.
           parsed_arg (read_f64 env) not_float parts 2 ''ERR invalid increment format'' (\<lambda>n.
           bulk_arg parts 3 ''ERR invalid member format'' (\<lambda>member s.
           reply (\<lambda>score. from_bytes (show_f64 env score))
             (on_shard db key (zincrby (add_f64 env) (draw_level env 0) key member n (clock env 0)) s)))))"

text \<open>
  \<^verbatim>\<open>ZPOPMIN\<close> and \<^verbatim>\<open>ZPOPMAX\<close> pop one member per round: the first (or last) member is looked up and removed.
\<close>

definition score_pair :: "command_env \<Rightarrow> bytes \<times> f64 \<Rightarrow> resp_frame list" where
  "score_pair env p = [from_bytes (fst p), from_bytes (show_f64 env (snd p))]"

primrec zpop_loop :: "command_env \<Rightarrow> nat \<Rightarrow> bytes \<Rightarrow> int \<Rightarrow> nat \<Rightarrow> resp_frame list \<Rightarrow> command" where
  "zpop_loop env db key pos 0 results = answer (if results = [] then null_array else Array (Some results))"
| "zpop_loop env db key pos (Suc n) results = (\<lambda>s.
     and_then (on_shard db key (zrange key pos pos False) s) (\<lambda>s members.
       case members of
         [] \<Rightarrow> answer (if results = [] then null_array else Array (Some results)) s
       | p # _ \<Rightarrow> and_then (on_shard db key (zrem key (fst p)) s) (\<lambda>s removed.
           zpop_loop env db key pos n (if removed then results @ score_pair env p else results) s)))"

definition handle_zpop :: "string \<Rightarrow> int \<Rightarrow> command_env \<Rightarrow> nat \<Rightarrow> resp_frame list \<Rightarrow> command" where
  "handle_zpop cmd pos env db parts =
     (if length parts < 2 \<or> length parts > 3 then answer (wrong_args cmd)
      else bulk_arg parts 1 invalid_key (\<lambda>key.
           if length parts = 3 then
             parsed_arg parse_usize not_integer parts 2 ''ERR invalid count format'' (\<lambda>count. zpop_loop env db key pos count [])
           else zpop_loop env db key pos 1 []))"

definition handle_zpopmin :: "command_env \<Rightarrow> nat \<Rightarrow> resp_frame list \<Rightarrow> command" where
  "handle_zpopmin = handle_zpop ''zpopmin'' 0"

definition handle_zpopmax :: "command_env \<Rightarrow> nat \<Rightarrow> resp_frame list \<Rightarrow> command" where
  "handle_zpopmax = handle_zpop ''zpopmax'' (- 1)"

section \<open>Querying sorted sets\<close>

definition handle_zscore :: "command_env \<Rightarrow> nat \<Rightarrow> resp_frame list \<Rightarrow> command" where
  "handle_zscore env db parts =
     (if length parts \<noteq> 3 then answer (wrong_args ''zscore'')
      else bulk_arg parts 1 invalid_key (\<lambda>key.
           bulk_arg parts 2 ''ERR invalid member format'' (\<lambda>member s.
           reply (\<lambda>score. bulk_or_null (map_option (show_f64 env) score)) (on_shard db key (zscore key member) s))))"

definition handle_zcard :: "command_env \<Rightarrow> nat \<Rightarrow> resp_frame list \<Rightarrow> command" where
  "handle_zcard env db parts =
     (if length parts \<noteq> 2 then answer (wrong_args ''zcard'')
      else bulk_arg parts 1 invalid_key (\<lambda>key s. reply count_frame (on_shard db key (zcard key) s)))"

definition rank_frame :: "nat option \<Rightarrow> resp_frame" where
  "rank_frame r = (case r of Some n \<Rightarrow> count_frame n | None \<Rightarrow> null_bulk)"

definition handle_zrank :: "command_env \<Rightarrow> nat \<Rightarrow> resp_frame list \<Rightarrow> command" where
  "handle_zrank env db parts =
     (if length parts \<noteq> 3 then answer (wrong_args ''zrank'')
      else bulk_arg parts 1 invalid_key (\<lambda>key.
           bulk_arg parts 2 ''ERR invalid member format'' (\<lambda>member s.
           reply rank_frame (on_shard db key (zrank key member False) s))))"

definition handle_zrevrank :: "command_env \<Rightarrow> nat \<Rightarrow> resp_frame list \<Rightarrow> command" where
  "handle_zrevrank env db parts =
     (if length parts \<noteq> 3 then answer (wrong_args ''zrevrank'')
      else bulk_arg parts 1 invalid_key (\<lambda>key.
           bulk_arg parts 2 ''ERR invalid member format'' (\<lambda>member s.
           reply rank_frame (on_shard db key (zrank key member True) s))))"

text \<open>A fifth argument other than \<^verbatim>\<open>WITHSCORES\<close> is ignored.\<close>

definition with_scores :: "resp_frame list \<Rightarrow> bool" where
  "with_scores parts \<longleftrightarrow> length parts = 5 \<and> (case bulk (parts ! 4) of Some b \<Rightarrow> upper_is b ''WITHSCORES'' | None \<Rightarrow> False)"

definition members_frame :: "command_env \<Rightarrow> bool \<Rightarrow> (bytes \<times> f64) list \<Rightarrow> resp_frame" where
  "members_frame env scores ms =
     (if scores then Array (Some (concat (map (score_pair env) ms))) else bulk_array (map fst ms))"

definition handle_zrange_dir :: "string \<Rightarrow> bool \<Rightarrow> command_env \<Rightarrow> nat \<Rightarrow> resp_frame list \<Rightarrow> command" where
  "handle_zrange_dir cmd reverse env db parts =
     (if length parts < 4 \<or> length parts > 5 then answer (wrong_args cmd)
      else bulk_arg parts 1 invalid_key (\<lambda>key.
           parsed_arg parse_isize not_integer parts 2 ''ERR invalid start format'' (\<lambda>start.
           parsed_arg parse_isize not_integer parts 3 ''ERR invalid stop format'' (\<lambda>stop s.
           reply (members_frame env (with_scores parts)) (on_shard db key (zrange key start stop reverse) s)))))"

definition handle_zrange :: "command_env \<Rightarrow> nat \<Rightarrow> resp_frame list \<Rightarrow> command" where
  "handle_zrange = handle_zrange_dir ''zrange'' False"

definition handle_zrevrange :: "command_env \<Rightarrow> nat \<Rightarrow> resp_frame list \<Rightarrow> command" where
  "handle_zrevrange = handle_zrange_dir ''zrevrange'' True"

definition handle_zrangebyscore :: "command_env \<Rightarrow> nat \<Rightarrow> resp_frame list \<Rightarrow> command" where
  "handle_zrangebyscore env db parts =
     (if length parts < 4 \<or> length parts > 5 then answer (wrong_args ''zrangebyscore'')
      else bulk_arg parts 1 invalid_key (\<lambda>key.
           parsed_arg (read_f64 env) bad_bound parts 2 ''ERR invalid min score format'' (\<lambda>lo.
           parsed_arg (read_f64 env) bad_bound parts 3 ''ERR invalid max score format'' (\<lambda>hi s.
           reply (members_frame env (with_scores parts)) (on_shard db key (zrangebyscore key lo hi False) s)))))"

definition handle_zrevrangebyscore :: "command_env \<Rightarrow> nat \<Rightarrow> resp_frame list \<Rightarrow> command" where
  "handle_zrevrangebyscore env db parts =
     (if length parts < 4 \<or> length parts > 5 then answer (wrong_args ''zrevrangebyscore'')
      else bulk_arg parts 1 invalid_key (\<lambda>key.
           parsed_arg (read_f64 env) bad_bound parts 2 ''ERR invalid max score format'' (\<lambda>hi.
           parsed_arg (read_f64 env) bad_bound parts 3 ''ERR invalid min score format'' (\<lambda>lo s.
           reply (members_frame env (with_scores parts)) (on_shard db key (zrangebyscore key lo hi True) s)))))"

definition handle_zcount :: "command_env \<Rightarrow> nat \<Rightarrow> resp_frame list \<Rightarrow> command" where
  "handle_zcount env db parts =
     (if length parts \<noteq> 4 then answer (wrong_args ''zcount'')
      else bulk_arg parts 1 invalid_key (\<lambda>key.
           parsed_arg (read_f64 env) bad_bound parts 2 ''ERR invalid min score format'' (\<lambda>lo.
           parsed_arg (read_f64 env) bad_bound parts 3 ''ERR invalid max score format'' (\<lambda>hi s.
           reply count_frame (on_shard db key (zcount key lo hi) s)))))"

section \<open>Scans\<close>

record scan_args =
  match_pattern :: "bytes option"
  type_filter :: "string option"
  scan_count :: nat
  no_values :: bool

text \<open>
  The option loop of the four handlers; the flags say whether \<^verbatim>\<open>TYPE\<close> (only \<^verbatim>\<open>SCAN\<close>) and \<^verbatim>\<open>NOVALUES\<close> (only \<^verbatim>\<open>HSCAN\<close>)
  are options of the command.
\<close>

fun scan_options :: "bool \<Rightarrow> bool \<Rightarrow> scan_args \<Rightarrow> resp_frame list \<Rightarrow> string + scan_args" where
  "scan_options types novalues a [] = Inr a"
| "scan_options types novalues a (p # ps) =
     (case bulk p of
        None \<Rightarrow> Inl ''ERR syntax error''
      | Some option \<Rightarrow>
          if upper_is option ''MATCH'' then
            (case ps of
               q # qs \<Rightarrow> (case bulk q of Some b \<Rightarrow> scan_options types novalues (a\<lparr>match_pattern := Some b\<rparr>) qs | None \<Rightarrow> Inl ''ERR syntax error'')
             | [] \<Rightarrow> Inl ''ERR syntax error'')
          else if types \<and> upper_is option ''TYPE'' then
            (case ps of
               q # qs \<Rightarrow> (case bulk q of Some b \<Rightarrow> scan_options types novalues (a\<lparr>type_filter := Some b\<rparr>) qs | None \<Rightarrow> Inl ''ERR syntax error'')
             | [] \<Rightarrow> Inl ''ERR syntax error'')
          else if upper_is option ''COUNT'' then
            (case ps of
               q # qs \<Rightarrow>
                 (case bulk q of
                    Some b \<Rightarrow> (case parse_usize b of Some n \<Rightarrow> scan_options types novalues (a\<lparr>scan_count := n\<rparr>) qs | None \<Rightarrow> Inl not_integer)
                  | None \<Rightarrow> Inl ''ERR syntax error'')
             | [] \<Rightarrow> Inl ''ERR syntax error'')
          else if novalues \<and> upper_is option ''NOVALUES'' then scan_options types novalues (a\<lparr>no_values := True\<rparr>) ps
          else Inl ''ERR syntax error'')"

definition default_scan :: scan_args where
  "default_scan = \<lparr>match_pattern = None, type_filter = None, scan_count = 10, no_values = False\<rparr>"

definition scan_reply :: "nat \<times> bytes list \<Rightarrow> resp_frame" where
  "scan_reply r = Array (Some [from_bytes (nat_to_string (fst r)), bulk_array (snd r)])"

definition handle_scan :: "command_env \<Rightarrow> nat \<Rightarrow> resp_frame list \<Rightarrow> command" where
  "handle_scan env db parts =
     (if length parts < 2 then answer (wrong_args ''scan'')
      else parsed_arg parse_usize ''ERR invalid cursor'' parts 1 ''ERR invalid cursor format'' (\<lambda>cursor.
           case scan_options True False default_scan (drop 2 parts) of
             Inl msg \<Rightarrow> refuse msg
           | Inr a \<Rightarrow> (\<lambda>s. reply scan_reply
               (query (\<lambda>e. scan e db cursor (match_pattern a) (type_filter a) (scan_count a) (key_clock env)) s))))"

definition scan_of_key :: "string \<Rightarrow> bool \<Rightarrow> resp_frame list \<Rightarrow> (bytes \<Rightarrow> nat \<Rightarrow> scan_args \<Rightarrow> command) \<Rightarrow> command" where
  "scan_of_key cmd novalues parts k =
     (if length parts < 3 then answer (wrong_args cmd)
      else bulk_arg parts 1 invalid_key (\<lambda>key.
           parsed_arg parse_usize ''ERR invalid cursor'' parts 2 ''ERR invalid cursor format'' (\<lambda>cursor.
           case scan_options False novalues default_scan (drop 3 parts) of
             Inl msg \<Rightarrow> refuse msg
           | Inr a \<Rightarrow> k key cursor a)))"

definition handle_hscan :: "command_env \<Rightarrow> nat \<Rightarrow> resp_frame list \<Rightarrow> command" where
  "handle_hscan env db parts = scan_of_key ''hscan'' True parts (\<lambda>key cursor a s.
     reply scan_reply (on_shard db key (hscan key cursor (match_pattern a) (scan_count a) (no_values a) (clock env 0)) s))"

definition handle_sscan :: "command_env \<Rightarrow> nat \<Rightarrow> resp_frame list \<Rightarrow> command" where
  "handle_sscan env db parts = scan_of_key ''sscan'' False parts (\<lambda>key cursor a s.
     reply scan_reply (on_shard db key (sscan key cursor (match_pattern a) (scan_count a) (clock env 0)) s))"

definition handle_zscan :: "command_env \<Rightarrow> nat \<Rightarrow> resp_frame list \<Rightarrow> command" where
  "handle_zscan env db parts = scan_of_key ''zscan'' False parts (\<lambda>key cursor a s.
     reply (\<lambda>r. Array (Some [from_bytes (nat_to_string (fst r)), Array (Some (concat (map (score_pair env) (snd r))))]))
       (on_shard db key (zscan key cursor (match_pattern a) (scan_count a) (clock env 0)) s))"

section \<open>Contracts\<close>

text \<open>
  The sorted sets are only well formed without NaN scores, which \<^verbatim>\<open>parse::<f64>\<close> accepts as \<^verbatim>\<open>nan\<close> and the
  handlers do not refuse: \<open>proper_scores\<close> says that no argument of the request reads as NaN and that sums stay
  numbers.  The levels drawn are in range.
\<close>

definition proper_scores :: "command_env \<Rightarrow> resp_frame list \<Rightarrow> bool" where
  "proper_scores env parts \<longleftrightarrow> (\<forall>i. draw_level env i < MAX_LEVEL) \<and>
     (\<forall>p \<in> set parts. \<forall>b n. bulk p = Some b \<longrightarrow> read_f64 env b = Some n \<longrightarrow>
        \<not> is_nan_f64 n \<and> (\<forall>x. \<not> is_nan_f64 x \<longrightarrow> \<not> is_nan_f64 (add_f64 env x n)))"

lemma proper_scores_drop: "proper_scores env parts \<Longrightarrow> proper_scores env (drop n parts)"
  by (auto simp: proper_scores_def dest: in_set_dropD)

lemma zadd_loop_obeys:
  "proper_scores env ps \<Longrightarrow> obeys (same_outside db) {Integer_Reply} (zadd_loop env db key i n ps)"
proof (induction ps arbitrary: i n rule: induct_list012)
  case (3 p q ps)
  have "proper_scores env ps" using "3.prems" by (simp add: proper_scores_def)
  moreover have "shard_operation key (zadd (draw_level env i) key m x (clock env i))"
    if "bulk p = Some b" "read_f64 env b = Some x" for b x m
    using "3.prems" that by (intro zadd_operation) (auto simp: proper_scores_def)
  ultimately show ?case using "3.IH"(1)
    by (auto intro!: writing.rules within_operation split: option.split)
qed (auto intro!: writing.rules split: option.split)

lemma handle_zadd_obeys:
  "proper_scores env parts \<Longrightarrow> obeys (same_outside db) {Integer_Reply} (handle_zadd env db parts)"
  unfolding handle_zadd_def by (intro contract_rules zadd_loop_obeys proper_scores_drop; simp)

lemma handle_zincrby_obeys:
  assumes "proper_scores env parts"
  shows "obeys (same_outside db) {Bulk_Reply} (handle_zincrby env db parts)"
proof (cases "length parts = 4")
  case True
  have mem: "parts ! 2 \<in> set parts" using True by simp
  have "shard_operation key (zincrby (add_f64 env) (draw_level env 0) key m n (clock env 0))"
    if b: "bulk (parts ! 2) = Some b" "read_f64 env b = Some n" for b n m key
  proof -
    have "\<not> is_nan_f64 n \<and> (\<forall>x. \<not> is_nan_f64 x \<longrightarrow> \<not> is_nan_f64 (add_f64 env x n))" "draw_level env 0 < MAX_LEVEL"
      using assms mem b unfolding proper_scores_def by blast+
    then show ?thesis by (intro zincrby_operation) auto
  qed
  then show ?thesis using True
    by (auto simp: handle_zincrby_def bulk_arg_def parsed_arg_def intro!: writing.rules within_operation split: option.split)
next
  case False
  then show ?thesis by (simp add: handle_zincrby_def writing.obeys_answer)
qed

lemma zrem_loop_obeys [contract_rules]: "obeys (same_outside db) {Integer_Reply} (zrem_loop db key n ps)"
  by (induction ps arbitrary: n) (auto intro!: contract_rules split: option.split)

lemma zpop_loop_obeys [contract_rules]: "obeys (same_outside db) {Array_Reply} (zpop_loop env db key pos n rs)"
proof (induction n arbitrary: rs)
  case (Suc n)
  have "obeys (same_outside db) {Array_Reply} (\<lambda>s. case ms of
       [] \<Rightarrow> answer (if rs = [] then null_array else Array (Some rs)) s
     | p # _ \<Rightarrow> and_then (on_shard db key (zrem key (fst p)) s) (\<lambda>s removed.
         zpop_loop env db key pos n (if removed then rs @ score_pair env p else rs) s))" for ms
    using Suc.IH by (cases ms) (auto intro!: writing.rules within_operation zrem.shard_operation_axioms)
  then show ?case unfolding zpop_loop.simps
    by (intro writing.obeys_and_then within_operation zrange.shard_operation_axioms)
qed (auto intro!: writing.rules)

lemma sorted_writers:
  "obeys (same_outside db) {Integer_Reply} (handle_zrem env db parts)"
  "obeys (same_outside db) {Array_Reply} (handle_zpopmin env db parts)"
  "obeys (same_outside db) {Array_Reply} (handle_zpopmax env db parts)"
  unfolding handle_zrem_def handle_zpopmin_def handle_zpopmax_def handle_zpop_def
  by (intro contract_rules; simp)+

lemma sorted_kinds [simp]:
  "kind_of (members_frame env c ms) = Array_Reply" "kind_of (rank_frame r) \<in> {Integer_Reply, Bulk_Reply}"
  "kind_of (scan_reply r') = Array_Reply"
  by (simp_all add: members_frame_def rank_frame_def scan_reply_def split: option.split)

lemma sorted_readers_obey:
  "obeys (only_expires (range (clock env)) db) {Bulk_Reply} (handle_zscore env db parts)"
  "obeys (only_expires (range (clock env)) db) {Integer_Reply} (handle_zcard env db parts)"
  "obeys (only_expires (range (clock env)) db) {Integer_Reply, Bulk_Reply} (handle_zrank env db parts)"
  "obeys (only_expires (range (clock env)) db) {Integer_Reply, Bulk_Reply} (handle_zrevrank env db parts)"
  "obeys (only_expires (range (clock env)) db) {Array_Reply} (handle_zrange env db parts)"
  "obeys (only_expires (range (clock env)) db) {Array_Reply} (handle_zrevrange env db parts)"
  "obeys (only_expires (range (clock env)) db) {Array_Reply} (handle_zrangebyscore env db parts)"
  "obeys (only_expires (range (clock env)) db) {Array_Reply} (handle_zrevrangebyscore env db parts)"
  "obeys (only_expires (range (clock env)) db) {Integer_Reply} (handle_zcount env db parts)"
  unfolding handle_zscore_def handle_zcard_def handle_zrank_def handle_zrevrank_def handle_zrange_def handle_zrevrange_def
    handle_zrange_dir_def handle_zrangebyscore_def handle_zrevrangebyscore_def handle_zcount_def
  by (intro contract_rules within_reader sorted_kinds; simp add: reader_simps)+

lemma within_scans [contract_rules]:
  assumes "now \<in> T"
  shows "within (only_expires T db) (on_shard db key (sscan key c p n now))"
    and "within (only_expires T db) (on_shard db key (hscan key c p n nv now))"
    and "within (only_expires T db) (on_shard db key (zscan key c p n now))"
proof -
  have "fst (on_shard db key (sscan key c p n now) e) = fst (on_shard db key (engine_get key now) e)"
    "fst (on_shard db key (hscan key c p n nv now) e) = fst (on_shard db key (engine_get key now) e)"
    "fst (on_shard db key (zscan key c p n now) e) = fst (on_shard db key (engine_get key now) e)" for e
    by (simp_all add: on_shard_def Let_def del: engine_get.simps split: prod.split)
  then show "within (only_expires T db) (on_shard db key (sscan key c p n now))"
    "within (only_expires T db) (on_shard db key (hscan key c p n nv now))"
    "within (only_expires T db) (on_shard db key (zscan key c p n now))"
    using within_get(1) [OF assms, of db key] by (simp_all add: within_def)
qed

lemma scan_readers_obey:
  "obeys (only_expires (range (clock env)) db) {Array_Reply} (handle_scan env db parts)"
  "obeys (only_expires (range (clock env)) db) {Array_Reply} (handle_hscan env db parts)"
  "obeys (only_expires (range (clock env)) db) {Array_Reply} (handle_sscan env db parts)"
  "obeys (only_expires (range (clock env)) db) {Array_Reply} (handle_zscan env db parts)"
  unfolding handle_scan_def handle_hscan_def handle_sscan_def handle_zscan_def scan_of_key_def
  by (intro contract_rules; simp)+

lemmas sorted_contracts = handle_zadd_obeys handle_zincrby_obeys sorted_writers sorted_readers_obey scan_readers_obey

end
