(* ===== verification/Commands_Streams.thy ===== *)
theory Commands_Streams
  imports Commands_Base
begin

text \<open>
  The handlers of the stream commands (\<^verbatim>\<open>src/storage/commands/streams.rs\<close>) and of the consumer-group commands
  (\<^verbatim>\<open>src/storage/commands/consumer_groups.rs\<close>), with their contracts.

  The group handlers fetch the stream with \<^verbatim>\<open>storage.get\<close>, which clones it.  The clone shares the manager of the
  consumer groups (an \<^verbatim>\<open>Arc\<close>), so what a handler does to the groups happens to the stored stream;
  \<open>store_groups\<close> writes the changed groups back.  The key is not marked as modified by this.
\<close>

section \<open>Texts and identifiers\<close>

text \<open>The string of \<^verbatim>\<open>String::from_utf8_lossy\<close>.\<close>

definition utf8_encode :: "nat \<Rightarrow> bytes" where
  "utf8_encode n =
     (if n < 0x80 then [char_of n]
      else if n < 0x800 then [char_of (0xC0 + n div 64), char_of (0x80 + n mod 64)]
      else if n < 0x10000 then [char_of (0xE0 + n div 4096), char_of (0x80 + n div 64 mod 64), char_of (0x80 + n mod 64)]
      else [char_of (0xF0 + n div 262144), char_of (0x80 + n div 4096 mod 64), char_of (0x80 + n div 64 mod 64), char_of (0x80 + n mod 64)])"

definition lossy :: "bytes \<Rightarrow> string" where
  "lossy b = concat (map utf8_encode (from_utf8_lossy b))"

lemma lossy_ascii: "is_ascii b \<Longrightarrow> lossy b = b"
proof (induction b)
  case Nil
  then show ?case by (simp add: lossy_def from_utf8_lossy_ascii)
next
  case (Cons c b)
  then have "(of_char c :: nat) < 128" "is_ascii b" by (simp_all add: is_ascii_def)
  then show ?case using Cons.IH Cons.prems
    by (simp add: lossy_def from_utf8_lossy_ascii utf8_encode_def)
qed

fun text_contains :: "string \<Rightarrow> string \<Rightarrow> bool" where
  "text_contains needle hay \<longleftrightarrow>
     take (length needle) hay = needle \<or> (case hay of [] \<Rightarrow> False | _ # rest \<Rightarrow> text_contains needle rest)"

abbreviation invalid_id :: string where
  "invalid_id \<equiv> ''ERR Invalid stream ID specified as stream command argument''"

definition id_frame :: "stream_id \<Rightarrow> resp_frame" where
  "id_frame i = from_bytes (id_to_string i)"

definition entry_frame :: "stream_entry \<Rightarrow> resp_frame" where
  "entry_frame e = Array (Some [id_frame (entry_id e), bulk_array (concat (map (\<lambda>(f, v). [f, v]) (entry_fields e)))])"

definition entries_frame :: "stream_entry list \<Rightarrow> resp_frame" where
  "entries_frame es = Array (Some (map entry_frame es))"

definition id_arg :: "resp_frame list \<Rightarrow> nat \<Rightarrow> string \<Rightarrow> string \<Rightarrow> stream_id \<Rightarrow> (stream_id \<Rightarrow> command) \<Rightarrow> command" where
  "id_arg parts i msg word special k =
     bulk_arg parts i msg (\<lambda>b. if b = word then k special
       else case from_string (lossy b) of Some x \<Rightarrow> k x | None \<Rightarrow> refuse invalid_id)"

section \<open>Stream commands\<close>

fun stream_fields :: "resp_frame list \<Rightarrow> (bytes \<times> bytes) list \<Rightarrow> ((bytes \<times> bytes) list \<Rightarrow> command) \<Rightarrow> command" where
  "stream_fields (f # v # ps) fvs k =
     (case bulk f of
        Some field \<Rightarrow>
          (case bulk v of
             Some b \<Rightarrow> stream_fields ps (AList.update field b fvs) k
           | None \<Rightarrow> refuse ''ERR invalid value format'')
      | None \<Rightarrow> refuse ''ERR invalid field format'')"
| "stream_fields [f] fvs k = (case bulk f of Some field \<Rightarrow> (\<lambda>s. (s, Panic)) | None \<Rightarrow> refuse ''ERR invalid field format'')"
| "stream_fields [] fvs k = k fvs"

definition xadd_error :: "ferrous_error \<Rightarrow> string" where
  "xadd_error e =
     (let msg = display_ferrous_error e in
      if text_contains ''equal or smaller'' msg \<or> text_contains ''already exists'' msg
      then ''ERR The ID specified in XADD is equal or smaller than the target stream top item''
      else ''ERR '' @ msg)"

definition handle_xadd :: "command_env \<Rightarrow> nat \<Rightarrow> resp_frame list \<Rightarrow> command" where
  "handle_xadd env db parts =
     (if length parts < 4 \<or> (length parts - 3) mod 2 \<noteq> 0 then answer (wrong_args ''xadd'')
      else bulk_arg parts 1 invalid_key (\<lambda>key.
           bulk_arg parts 2 ''ERR invalid ID format'' (\<lambda>b.
           stream_fields (drop 3 parts) [] (\<lambda>fvs.
             if b = ''*'' then
               (\<lambda>s. reply id_frame (on_shard db key (xadd (stream_ms env) (cas_ok env) (cas_retry_ok env) key fvs (clock env 0)) s))
             else
               (case from_string b of
                  None \<Rightarrow> refuse invalid_id
                | Some i \<Rightarrow>
                    if millis i = 0 \<and> seq i = 0 then refuse ''ERR The ID specified in XADD must be greater than 0-0''
                    else (\<lambda>s. reply_via xadd_error id_frame (on_shard db key (xadd_with_id key i fvs (clock env 0)) s)))))))"

definition keyword :: "resp_frame list \<Rightarrow> nat \<Rightarrow> string \<Rightarrow> bool" where
  "keyword parts i word \<longleftrightarrow> (case bulk (parts ! i) of Some b \<Rightarrow> upper_is b word | None \<Rightarrow> False)"

definition count_arg :: "resp_frame list \<Rightarrow> nat \<Rightarrow> (nat option \<Rightarrow> command) \<Rightarrow> command" where
  "count_arg parts i k = parsed_arg parse_usize not_integer parts i ''ERR invalid count format'' (\<lambda>n. k (Some n))"

definition handle_xrange :: "command_env \<Rightarrow> nat \<Rightarrow> resp_frame list \<Rightarrow> command" where
  "handle_xrange env db parts =
     (if length parts < 4 then answer (wrong_args ''xrange'')
      else bulk_arg parts 1 invalid_key (\<lambda>key.
           id_arg parts 2 ''ERR invalid start ID format'' ''-'' min_id (\<lambda>start.
           id_arg parts 3 ''ERR invalid end ID format'' ''+'' max_id (\<lambda>stop.
           let k = (\<lambda>count s. reply entries_frame (on_shard db key (xrange key start stop count False) s)) in
           if length parts \<ge> 6 \<and> keyword parts 4 ''COUNT'' then count_arg parts 5 k else k None))))"

definition handle_xrevrange :: "command_env \<Rightarrow> nat \<Rightarrow> resp_frame list \<Rightarrow> command" where
  "handle_xrevrange env db parts =
     (if length parts < 4 then answer (wrong_args ''xrevrange'')
      else bulk_arg parts 1 invalid_key (\<lambda>key.
           id_arg parts 2 ''ERR invalid end ID format'' ''+'' max_id (\<lambda>stop.
           id_arg parts 3 ''ERR invalid start ID format'' ''-'' min_id (\<lambda>start.
           let k = (\<lambda>count s. reply entries_frame (on_shard db key (xrange key start stop count True) s)) in
           if length parts \<ge> 6 \<and> keyword parts 4 ''COUNT'' then count_arg parts 5 k
           else if length parts = 5 then k (Option.bind (bulk (parts ! 4)) parse_usize)
           else k None))))"

definition handle_xlen :: "command_env \<Rightarrow> nat \<Rightarrow> resp_frame list \<Rightarrow> command" where
  "handle_xlen env db parts =
     (if length parts \<noteq> 2 then answer (wrong_args ''xlen'')
      else bulk_arg parts 1 invalid_key (\<lambda>key s. reply Integer (on_shard db key (xlen key) s)))"

text \<open>The options of \<^verbatim>\<open>XREAD\<close> up to \<^verbatim>\<open>STREAMS\<close>: the count and the arguments after that word.\<close>

fun xread_options :: "nat option \<Rightarrow> resp_frame list \<Rightarrow> string + (nat option \<times> resp_frame list)" where
  "xread_options count [] = Inl ''ERR syntax error''"
| "xread_options count (p # ps) =
     (case bulk p of
        None \<Rightarrow> Inl ''ERR syntax error''
      | Some b \<Rightarrow>
          if upper_is b ''COUNT'' \<and> ps \<noteq> [] then
            (case bulk (hd ps) of
               Some c \<Rightarrow> (case parse_usize c of Some n \<Rightarrow> xread_options (Some n) (tl ps) | None \<Rightarrow> Inl not_integer)
             | None \<Rightarrow> Inl ''ERR invalid count value'')
          else if upper_is b ''BLOCK'' \<and> ps \<noteq> [] then
            (case bulk (hd ps) of
               Some c \<Rightarrow> (case parse_u64 c of
                            Some n \<Rightarrow> xread_options count (tl ps)
                          | None \<Rightarrow> Inl ''ERR timeout is not a float or out of range'')
             | None \<Rightarrow> Inl ''ERR invalid timeout value'')
          else if upper_is b ''STREAMS'' then Inr (count, ps)
          else Inl ''ERR syntax error'')"

fun xread_targets :: "nat \<Rightarrow> (resp_frame \<times> resp_frame) list \<Rightarrow> (bytes \<times> stream_id) list \<Rightarrow> ((bytes \<times> stream_id) list \<Rightarrow> command) \<Rightarrow> command" where
  "xread_targets db [] acc k = k acc"
| "xread_targets db ((p, q) # ps) acc k =
     (case bulk p of
        None \<Rightarrow> refuse invalid_key
      | Some key \<Rightarrow>
          (case bulk q of
             None \<Rightarrow> refuse ''ERR invalid ID format''
           | Some b \<Rightarrow>
               if b = ''$'' then
                 (\<lambda>s. and_then (on_shard db key (xrange key min_id max_id None False) s) (\<lambda>s es.
                    xread_targets db ps (acc @ [(key, if es = [] then new_id 0 0 else entry_id (last es))]) k s))
               else if b = ''0'' \<or> b = ''0-0'' then xread_targets db ps (acc @ [(key, new_id 0 0)]) k
               else (case from_string (lossy b) of
                       Some i \<Rightarrow> xread_targets db ps (acc @ [(key, i)]) k
                     | None \<Rightarrow> refuse invalid_id)))"

definition stream_result :: "bytes \<times> stream_entry list \<Rightarrow> resp_frame" where
  "stream_result r = Array (Some [from_bytes (fst r), entries_frame (snd r)])"

definition handle_xread :: "command_env \<Rightarrow> nat \<Rightarrow> resp_frame list \<Rightarrow> command" where
  "handle_xread env db parts =
     (if length parts < 4 then answer (wrong_args ''xread'')
      else case xread_options None (drop 1 parts) of
        Inl msg \<Rightarrow> refuse msg
      | Inr (count, rest) \<Rightarrow>
          if rest = [] then refuse ''ERR syntax error''
          else if length rest mod 2 \<noteq> 0 then
            refuse (''ERR Unbalanced XREAD list of streams: for each stream key an ID or '' @ [CHR 0x27] @ ''$'' @ [CHR 0x27] @ '' must be specified.'')
          else
            (let num_keys = length rest div 2 in
             xread_targets db (zip (take num_keys rest) (drop num_keys rest)) [] (\<lambda>targets s.
               reply (\<lambda>results. Array (Some (map stream_result (filter (\<lambda>r. snd r \<noteq> []) results))))
                 (query (\<lambda>e. xread e db targets count None) s))))"

definition handle_xtrim :: "command_env \<Rightarrow> nat \<Rightarrow> resp_frame list \<Rightarrow> command" where
  "handle_xtrim env db parts =
     (if length parts < 4 then answer (wrong_args ''xtrim'')
      else bulk_arg parts 1 invalid_key (\<lambda>key.
           bulk_arg parts 2 ''ERR invalid strategy format'' (\<lambda>strategy.
           let k = (\<lambda>max_len s. reply count_frame (on_shard db key (xtrim key max_len) s)) in
           if \<not> upper_is strategy ''MAXLEN'' then refuse ''ERR syntax error''
           else if length parts = 5 then
             bulk_arg parts 3 ''ERR syntax error'' (\<lambda>modifier.
               if modifier = ''~'' \<or> modifier = ''='' then parsed_arg parse_usize not_integer parts 4 not_integer k
               else (case parse_usize modifier of Some n \<Rightarrow> k n | None \<Rightarrow> refuse ''ERR syntax error''))
           else if length parts = 4 then
             bulk_arg parts 3 not_integer (\<lambda>arg.
               if arg = ''~'' \<or> arg = ''='' then refuse ''ERR syntax error''
               else (case parse_usize arg of Some n \<Rightarrow> k n | None \<Rightarrow> refuse not_integer))
           else answer (wrong_args ''xtrim''))))"

text \<open>The identifiers of \<^verbatim>\<open>XDEL\<close> and \<^verbatim>\<open>XACK\<close>, with the text for one that cannot be read.\<close>

fun id_args :: "string \<Rightarrow> resp_frame list \<Rightarrow> (stream_id list \<Rightarrow> command) \<Rightarrow> command" where
  "id_args bad [] k = k []"
| "id_args bad (p # ps) k =
     (case bulk p of
        None \<Rightarrow> refuse ''ERR invalid ID format''
      | Some b \<Rightarrow> (case from_string (lossy b) of Some i \<Rightarrow> id_args bad ps (\<lambda>is. k (i # is)) | None \<Rightarrow> refuse bad))"

definition handle_xdel :: "command_env \<Rightarrow> nat \<Rightarrow> resp_frame list \<Rightarrow> command" where
  "handle_xdel env db parts =
     (if length parts < 3 then answer (wrong_args ''xdel'')
      else bulk_arg parts 1 invalid_key (\<lambda>key.
           id_args invalid_id (drop 2 parts) (\<lambda>ids s. reply count_frame (on_shard db key (xdel key ids) s))))"

section \<open>The stored groups\<close>

fun store_groups :: "bytes \<Rightarrow> group_manager \<Rightarrow> unit shard_op" where
  "store_groups key m (sh, mem) =
     (case data_get key sh of
        Some sv \<Rightarrow>
          (case sv_value sv of
             VStream st \<Rightarrow> ((data_insert key (set_val (VStream (st\<lparr>consumer_groups := m\<rparr>)) sv) sh, mem), Ok ())
           | _ \<Rightarrow> ((sh, mem), Ok ()))
      | None \<Rightarrow> ((sh, mem), Ok ()))"

definition on_stream :: "command_env \<Rightarrow> nat \<Rightarrow> nat \<Rightarrow> bytes \<Rightarrow> command \<Rightarrow> (stream \<Rightarrow> command) \<Rightarrow> command" where
  "on_stream env i db key missing k = (\<lambda>s.
     and_then (on_shard db key (engine_get key (clock env i)) s) (\<lambda>s g.
       case g of
         Found v \<Rightarrow> (case v of VStream st \<Rightarrow> k st s | _ \<Rightarrow> refuse wrong_type_reply s)
       | _ \<Rightarrow> missing s))"

text \<open>Replying after a change of the groups: the groups of the changed clone are those of the stored stream.\<close>

definition keep_groups :: "nat \<Rightarrow> bytes \<Rightarrow> stream \<Rightarrow> resp_frame \<Rightarrow> command" where
  "keep_groups db key st f = (\<lambda>s. reply (\<lambda>_. f) (on_shard db key (store_groups key (consumer_groups st)) s))"

section \<open>XINFO\<close>

definition entry_or_null :: "stream_entry option \<Rightarrow> resp_frame" where
  "entry_or_null e = (case e of Some x \<Rightarrow> entry_frame x | None \<Rightarrow> null_array)"

definition handle_xinfo_stream :: "command_env \<Rightarrow> nat \<Rightarrow> resp_frame list \<Rightarrow> command" where
  "handle_xinfo_stream env db parts =
     (if length parts < 3 then answer (wrong_args ''xinfo stream'')
      else bulk_arg parts 2 invalid_key (\<lambda>key.
           on_stream env 0 db key (refuse ''ERR no such key'') (\<lambda>st. answer (Array (Some
             [from_bytes ''length'', Integer (stream_len st),
              from_bytes ''radix-tree-keys'', Integer 1,
              from_bytes ''radix-tree-nodes'', Integer 2,
              from_bytes ''last-generated-id'',
                (case last_entry st of Some e \<Rightarrow> id_frame (entry_id e) | None \<Rightarrow> from_bytes ''0-0''),
              from_bytes ''groups'', count_frame (length (list_groups (consumer_groups st))),
              from_bytes ''first-entry'', entry_or_null (first_entry st),
              from_bytes ''last-entry'', entry_or_null (last_entry st)])))))"

definition group_info :: "consumer_group \<Rightarrow> resp_frame" where
  "group_info g = Array (Some
     [from_bytes ''name'', from_bytes (group_name g),
      from_bytes ''consumers'', count_frame (consumer_count g),
      from_bytes ''pending'', count_frame (total_pending g),
      from_bytes ''last-delivered-id'', id_frame (last_delivered_id g)])"

definition handle_xinfo_groups :: "command_env \<Rightarrow> nat \<Rightarrow> resp_frame list \<Rightarrow> command" where
  "handle_xinfo_groups env db parts =
     (if length parts \<noteq> 3 then answer (wrong_args ''xinfo groups'')
      else bulk_arg parts 2 invalid_key (\<lambda>key.
           on_stream env 0 db key (answer (Array (Some []))) (\<lambda>st.
             answer (Array (Some (map group_info (list_groups (consumer_groups st))))))))"

definition consumer_info :: "nat \<Rightarrow> string \<times> consumer \<Rightarrow> resp_frame" where
  "consumer_info now c = Array (Some
     [from_bytes ''name'', from_bytes (fst c),
      from_bytes ''pending'', count_frame (pending_count (snd c)),
      from_bytes ''idle'', Integer (word_of_nat ((now - last_seen (snd c)) div 1000000))])"

definition on_group :: "string \<Rightarrow> stream \<Rightarrow> command \<Rightarrow> (consumer_group \<Rightarrow> command) \<Rightarrow> command" where
  "on_group name st missing k = (case get_group name (consumer_groups st) of Some g \<Rightarrow> k g | None \<Rightarrow> missing)"

definition handle_xinfo_consumers :: "command_env \<Rightarrow> nat \<Rightarrow> resp_frame list \<Rightarrow> command" where
  "handle_xinfo_consumers env db parts =
     (if length parts \<noteq> 4 then answer (wrong_args ''xinfo consumers'')
      else bulk_arg parts 2 invalid_key (\<lambda>key.
           bulk_arg parts 3 ''ERR invalid group name format'' (\<lambda>b.
           on_stream env 0 db key (answer (Array (Some []))) (\<lambda>st.
           on_group (lossy b) st (refuse (no_group (lossy b))) (\<lambda>g.
             answer (Array (Some (map (\<lambda>i. consumer_info (wall_clock env i) (consumers g ! i)) [0 ..< length (consumers g)]))))))))"

definition handle_xinfo_help :: command where
  "handle_xinfo_help = answer (bulk_array
     [''XINFO <subcommand> [<arg> [value] [opt] ...]. Subcommands are:'',
      ''STREAM <key>'', ''    Show information about a stream.'',
      ''GROUPS <key>'', ''    Show the consumer groups of a stream.'',
      ''CONSUMERS <key> <groupname>'', ''    Show consumers of a consumer group.'',
      ''HELP'', ''    Print this help.''])"

definition unknown_subcommand :: "command_env \<Rightarrow> bytes \<Rightarrow> command" where
  "unknown_subcommand env b = refuse (''ERR unknown subcommand '' @ [CHR 0x27] @ show_upper env b @ [CHR 0x27])"

definition handle_xinfo :: "command_env \<Rightarrow> nat \<Rightarrow> resp_frame list \<Rightarrow> command" where
  "handle_xinfo env db parts =
     (if length parts < 2 then answer (wrong_args ''xinfo'')
      else bulk_arg parts 1 ''ERR invalid subcommand format'' (\<lambda>b.
           if upper_is b ''STREAM'' then handle_xinfo_stream env db parts
           else if upper_is b ''GROUPS'' then handle_xinfo_groups env db parts
           else if upper_is b ''CONSUMERS'' then handle_xinfo_consumers env db parts
           else if upper_is b ''HELP'' then handle_xinfo_help
           else unknown_subcommand env b))"

end
