(* ===== verification/Commands_Groups.thy ===== *)
theory Commands_Groups
  imports Commands_Streams
begin

text \<open>
  The handlers of \<^verbatim>\<open>src/storage/commands/consumer_groups.rs\<close> that change consumer groups or list their pending
  entries, and the contracts of all stream commands.
\<close>

section \<open>XGROUP\<close>

text \<open>\<^verbatim>\<open>$\<close> stands for the identifier of the last entry, or 0-0 for an empty stream.\<close>

definition last_or_zero :: "stream \<Rightarrow> stream_id" where
  "last_or_zero st = (case last_entry st of Some e \<Rightarrow> entry_id e | None \<Rightarrow> new_id 0 0)"

definition create_group_in :: "command_env \<Rightarrow> nat \<Rightarrow> bytes \<Rightarrow> string \<Rightarrow> bytes \<Rightarrow> stream \<Rightarrow> command" where
  "create_group_in env db key name b st =
     (case (if b = ''$'' then Some (last_or_zero st)
            else if b = ''0'' \<or> b = ''0-0'' then Some (new_id 0 0)
            else from_string (lossy b)) of
        None \<Rightarrow> refuse invalid_id
      | Some start \<Rightarrow>
          (case create_consumer_group (wall_clock env 0) name start st of
             (st', Inr _) \<Rightarrow> keep_groups db key st' resp_ok
           | (st', Inl e) \<Rightarrow>
               refuse (if text_contains ''already exists'' e then ''BUSYGROUP Consumer Group name already exists'' else ''ERR '' @ e)))"

definition handle_xgroup_create :: "command_env \<Rightarrow> nat \<Rightarrow> resp_frame list \<Rightarrow> command" where
  "handle_xgroup_create env db parts =
     (if length parts < 5 then answer (wrong_args ''xgroup create'')
      else bulk_arg parts 2 invalid_key (\<lambda>key.
           bulk_arg parts 3 ''ERR invalid group name format'' (\<lambda>n.
           bulk_arg parts 4 ''ERR invalid ID format'' (\<lambda>b s.
           let mkstream = (length parts > 5 \<and> keyword parts 5 ''MKSTREAM'') in
           and_then (on_shard db key (engine_get key (clock env 0)) s) (\<lambda>s g.
             case g of
               Found v \<Rightarrow> (case v of VStream st \<Rightarrow> create_group_in env db key (lossy n) b st s | _ \<Rightarrow> refuse wrong_type_reply s)
             | GetWrongType \<Rightarrow> refuse wrong_type_reply s
             | _ \<Rightarrow>
                 if mkstream then
                   and_then (on_shard db key (set_value key (VStream new_stream) None (clock env 1)) s) (\<lambda>s _.
                     create_group_in env db key (lossy n) b new_stream s)
                 else refuse ''ERR The XGROUP subcommand requires the key to exist'' s)))))"

definition handle_xgroup_destroy :: "command_env \<Rightarrow> nat \<Rightarrow> resp_frame list \<Rightarrow> command" where
  "handle_xgroup_destroy env db parts =
     (if length parts \<noteq> 4 then answer (wrong_args ''xgroup destroy'')
      else bulk_arg parts 2 invalid_key (\<lambda>key.
           bulk_arg parts 3 ''ERR invalid group name format'' (\<lambda>n.
           on_stream env 0 db key (answer (Integer 0)) (\<lambda>st.
             case destroy_consumer_group (lossy n) st of (st', destroyed) \<Rightarrow> keep_groups db key st' (flag_frame destroyed)))))"

definition handle_xgroup_createconsumer :: "command_env \<Rightarrow> nat \<Rightarrow> resp_frame list \<Rightarrow> command" where
  "handle_xgroup_createconsumer env db parts =
     (if length parts \<noteq> 5 then answer (wrong_args ''xgroup createconsumer'')
      else bulk_arg parts 2 invalid_key (\<lambda>key.
           bulk_arg parts 3 ''ERR invalid group name format'' (\<lambda>n.
           bulk_arg parts 4 ''ERR invalid consumer name format'' (\<lambda>c.
           on_stream env 0 db key (refuse ''ERR no such key'') (\<lambda>st.
           on_group (lossy n) st (refuse (no_group (lossy n))) (\<lambda>g.
             case create_consumer (wall_clock env 0) (lossy c) g of (g', created) \<Rightarrow>
               keep_groups db key (put_group (lossy n) g' st) (flag_frame created)))))))"

definition handle_xgroup_delconsumer :: "command_env \<Rightarrow> nat \<Rightarrow> resp_frame list \<Rightarrow> command" where
  "handle_xgroup_delconsumer env db parts =
     (if length parts \<noteq> 5 then answer (wrong_args ''xgroup delconsumer'')
      else bulk_arg parts 2 invalid_key (\<lambda>key.
           bulk_arg parts 3 ''ERR invalid group name format'' (\<lambda>n.
           bulk_arg parts 4 ''ERR invalid consumer name format'' (\<lambda>c.
           on_stream env 0 db key (answer (Integer 0)) (\<lambda>st.
           on_group (lossy n) st (answer (Integer 0)) (\<lambda>g.
             case delete_consumer (lossy c) g of (g', removed) \<Rightarrow>
               keep_groups db key (put_group (lossy n) g' st) (count_frame removed)))))))"

definition handle_xgroup_setid :: "command_env \<Rightarrow> nat \<Rightarrow> resp_frame list \<Rightarrow> command" where
  "handle_xgroup_setid env db parts =
     (if length parts < 5 then answer (wrong_args ''xgroup setid'')
      else bulk_arg parts 2 invalid_key (\<lambda>key.
           bulk_arg parts 3 ''ERR invalid group name format'' (\<lambda>n.
           bulk_arg parts 4 ''ERR invalid ID format'' (\<lambda>b.
           on_stream env 0 db key (refuse ''ERR no such key'') (\<lambda>st.
             case (if b = ''$'' then Some (last_or_zero st) else from_string (lossy b)) of
               None \<Rightarrow> refuse invalid_id
             | Some i \<Rightarrow> on_group (lossy n) st (refuse (no_group (lossy n))) (\<lambda>g.
                 keep_groups db key (put_group (lossy n) (set_id i g) st) resp_ok))))))"

definition handle_xgroup_help :: command where
  "handle_xgroup_help = answer (bulk_array
     [''XGROUP <subcommand> [<arg> [value] [opt] ...]. Subcommands are:'',
      ''CREATE <key> <groupname> <id or $> [MKSTREAM]'', ''    Create a new consumer group.'',
      ''SETID <key> <groupname> <id or $>'', ''    Set the current group ID.'',
      ''DESTROY <key> <groupname>'', ''    Remove the consumer group.'',
      ''CREATECONSUMER <key> <groupname> <consumername>'', ''    Create a new consumer in the group.'',
      ''DELCONSUMER <key> <groupname> <consumername>'', ''    Remove the consumer from the group.'',
      ''HELP'', ''    Print this help.''])"

definition handle_xgroup :: "command_env \<Rightarrow> nat \<Rightarrow> resp_frame list \<Rightarrow> command" where
  "handle_xgroup env db parts =
     (if length parts < 2 then answer (wrong_args ''xgroup'')
      else bulk_arg parts 1 ''ERR invalid subcommand format'' (\<lambda>b.
           if upper_is b ''CREATE'' then handle_xgroup_create env db parts
           else if upper_is b ''DESTROY'' then handle_xgroup_destroy env db parts
           else if upper_is b ''CREATECONSUMER'' then handle_xgroup_createconsumer env db parts
           else if upper_is b ''DELCONSUMER'' then handle_xgroup_delconsumer env db parts
           else if upper_is b ''SETID'' then handle_xgroup_setid env db parts
           else if upper_is b ''HELP'' then handle_xgroup_help
           else unknown_subcommand env b))"

section \<open>XREADGROUP and XACK\<close>

record group_args =
  ga_count :: "nat option"
  ga_block :: "u64 option"
  ga_noack :: bool

text \<open>A count or timeout that cannot be read counts as absent.\<close>

fun xreadgroup_options :: "group_args \<Rightarrow> resp_frame list \<Rightarrow> string + (group_args \<times> resp_frame list)" where
  "xreadgroup_options a [] = Inl ''ERR syntax error''"
| "xreadgroup_options a (p # ps) =
     (case bulk p of
        None \<Rightarrow> Inl ''ERR syntax error''
      | Some b \<Rightarrow>
          if upper_is b ''COUNT'' \<and> ps \<noteq> [] then
            xreadgroup_options (a\<lparr>ga_count := Option.bind (bulk (hd ps)) parse_usize\<rparr>) (tl ps)
          else if upper_is b ''BLOCK'' \<and> ps \<noteq> [] then
            xreadgroup_options (a\<lparr>ga_block := Option.bind (bulk (hd ps)) parse_u64\<rparr>) (tl ps)
          else if upper_is b ''NOACK'' then xreadgroup_options (a\<lparr>ga_noack := True\<rparr>) ps
          else if upper_is b ''STREAMS'' then Inr (a, ps)
          else Inl ''ERR syntax error'')"

text \<open>
  The loop over the streams: the \<open>j\<close>-th one takes the \<open>j\<close>-th reading of the clock and its own two wall
  clock readings.  An error ends the command, whatever was delivered from the streams before.
\<close>

fun xreadgroup_loop :: "command_env \<Rightarrow> nat \<Rightarrow> string \<Rightarrow> string \<Rightarrow> group_args \<Rightarrow> nat \<Rightarrow> (resp_frame \<times> resp_frame) list \<Rightarrow> resp_frame list \<Rightarrow> command" where
  "xreadgroup_loop env db name consumer a j [] results =
     answer (if results = [] \<and> ga_block a \<noteq> None then null_array else Array (Some results))"
| "xreadgroup_loop env db name consumer a j ((p, q) # ps) results =
     (case bulk p of
        None \<Rightarrow> refuse invalid_key
      | Some key \<Rightarrow>
          (case bulk q of
             None \<Rightarrow> refuse ''ERR invalid ID format''
           | Some b \<Rightarrow>
               on_stream env j db key (xreadgroup_loop env db name consumer a (j + 1) ps results) (\<lambda>st.
                 case (if b = ''>'' then Some max_id else if b = ''0'' \<or> b = ''0-0'' then Some (new_id 0 0) else from_string (lossy b)) of
                   None \<Rightarrow> refuse ''ERR Invalid stream ID specified''
                 | Some after \<Rightarrow>
                     (case read_group (\<lambda>i. wall_clock env (2 * j + i)) name consumer after (ga_count a) (ga_noack a) st of
                        (st', Inr es) \<Rightarrow>
                          (\<lambda>s. and_then (on_shard db key (store_groups key (consumer_groups st')) s) (\<lambda>s _.
                            xreadgroup_loop env db name consumer a (j + 1) ps (if es \<noteq> [] then results @ [stream_result (key, es)] else results) s))
                      | (st', Inl e) \<Rightarrow>
                          if text_contains ''NOGROUP'' e then refuse e
                          else xreadgroup_loop env db name consumer a (j + 1) ps results))))"

definition handle_xreadgroup :: "command_env \<Rightarrow> nat \<Rightarrow> resp_frame list \<Rightarrow> command" where
  "handle_xreadgroup env db parts =
     (if length parts < 6 then answer (wrong_args ''xreadgroup'')
      else if \<not> keyword parts 1 ''GROUP'' then refuse ''ERR syntax error''
      else bulk_arg parts 2 ''ERR invalid group name'' (\<lambda>n.
           bulk_arg parts 3 ''ERR invalid consumer name'' (\<lambda>c.
           case xreadgroup_options \<lparr>ga_count = None, ga_block = None, ga_noack = False\<rparr> (drop 4 parts) of
             Inl msg \<Rightarrow> refuse msg
           | Inr (a, rest) \<Rightarrow>
               if rest = [] then refuse ''ERR syntax error''
               else if length rest mod 2 \<noteq> 0 then refuse ''ERR Unbalanced XREADGROUP list of streams''
               else
                 (let num_keys = length rest div 2 in
                  xreadgroup_loop env db (lossy n) (lossy c) a 0 (zip (take num_keys rest) (drop num_keys rest)) []))))"

definition handle_xack :: "command_env \<Rightarrow> nat \<Rightarrow> resp_frame list \<Rightarrow> command" where
  "handle_xack env db parts =
     (if length parts < 4 then answer (wrong_args ''xack'')
      else bulk_arg parts 1 invalid_key (\<lambda>key.
           bulk_arg parts 2 ''ERR invalid group name format'' (\<lambda>n.
           id_args ''ERR Invalid stream ID specified'' (drop 3 parts) (\<lambda>ids.
           on_stream env 0 db key (answer (Integer 0)) (\<lambda>st.
             case acknowledge_messages (lossy n) ids st of
               (st', Inr count) \<Rightarrow> keep_groups db key st' (count_frame count)
             | (st', Inl e) \<Rightarrow> if text_contains ''NOGROUP'' e then answer (Integer 0) else refuse e)))))"

section \<open>XPENDING\<close>

definition id_or_null :: "stream_id option \<Rightarrow> resp_frame" where
  "id_or_null i = (case i of Some x \<Rightarrow> id_frame x | None \<Rightarrow> null_bulk)"

definition pending_summary :: "pending_info \<Rightarrow> resp_frame" where
  "pending_summary p = Array (Some
     [count_frame (info_count p), id_or_null (info_min_id p), id_or_null (info_max_id p),
      Array (Some (map (\<lambda>(n, c). Array (Some [from_bytes n, count_frame c])) (info_consumers p)))])"

definition pending_entry_frame :: "pending_entry_info \<Rightarrow> resp_frame" where
  "pending_entry_frame e = Array (Some
     [id_frame (pei_id e), from_bytes (pei_consumer e), count_frame (pei_idle_time e), Integer (ucast (pei_delivery_count e))])"

definition handle_xpending :: "command_env \<Rightarrow> nat \<Rightarrow> resp_frame list \<Rightarrow> command" where
  "handle_xpending env db parts =
     (if length parts < 3 then answer (wrong_args ''xpending'')
      else bulk_arg parts 1 invalid_key (\<lambda>key.
           bulk_arg parts 2 ''ERR invalid group name format'' (\<lambda>n.
           on_stream env 0 db key (answer null_array) (\<lambda>st.
           on_group (lossy n) st (answer null_array) (\<lambda>g.
             if length parts = 3 then answer (pending_summary (get_pending_info g))
             else if length parts < 6 then refuse ''ERR syntax error''
             else
               bulk_arg parts 3 ''ERR invalid start ID'' (\<lambda>a.
               bulk_arg parts 4 ''ERR invalid end ID'' (\<lambda>b.
               parsed_arg parse_usize ''ERR value is not an integer'' parts 5 ''ERR invalid count'' (\<lambda>count.
               let c = (if length parts > 6 then map_option lossy (bulk (parts ! 6)) else None);
                   start = (if a = ''-'' then None else from_string (lossy a));
                   stop = (if b = ''+'' then None else from_string (lossy b))
               in answer (Array (Some (map pending_entry_frame
                    (get_pending_range (wall_clock env 0) start stop count c g))))))))))))"

section \<open>XCLAIM and XAUTOCLAIM\<close>

text \<open>\<^verbatim>\<open>IDLE\<close>, \<^verbatim>\<open>TIME\<close> and \<^verbatim>\<open>RETRYCOUNT\<close> are skipped with their argument.\<close>

fun xclaim_options :: "stream_id list \<Rightarrow> bool \<Rightarrow> bool \<Rightarrow> resp_frame list \<Rightarrow> string + (stream_id list \<times> bool \<times> bool)" where
  "xclaim_options ids force justid [] = Inr (ids, force, justid)"
| "xclaim_options ids force justid (p # ps) =
     (case bulk p of
        None \<Rightarrow> Inl ''ERR syntax error''
      | Some b \<Rightarrow>
          if upper_is b ''FORCE'' then xclaim_options ids True justid ps
          else if upper_is b ''JUSTID'' then xclaim_options ids force True ps
          else if upper_is b ''IDLE'' \<or> upper_is b ''TIME'' \<or> upper_is b ''RETRYCOUNT'' then xclaim_options ids force justid (drop 1 ps)
          else (case from_string (lossy b) of
                  Some i \<Rightarrow> xclaim_options (ids @ [i]) force justid ps
                | None \<Rightarrow> Inl ''ERR Invalid stream ID''))"

definition claimed_frame :: "bool \<Rightarrow> stream_entry list \<Rightarrow> resp_frame" where
  "claimed_frame justid es = (if justid then Array (Some (map (\<lambda>e. id_frame (entry_id e)) es)) else entries_frame es)"

definition handle_xclaim :: "command_env \<Rightarrow> nat \<Rightarrow> resp_frame list \<Rightarrow> command" where
  "handle_xclaim env db parts =
     (if length parts < 6 then answer (wrong_args ''xclaim'')
      else bulk_arg parts 1 invalid_key (\<lambda>key.
           bulk_arg parts 2 ''ERR invalid group name'' (\<lambda>n.
           bulk_arg parts 3 ''ERR invalid consumer name'' (\<lambda>c.
           parsed_arg parse_u64 ''ERR Invalid min-idle-time'' parts 4 ''ERR invalid min-idle-time'' (\<lambda>min_idle.
           case xclaim_options [] False False (drop 5 parts) of
             Inl msg \<Rightarrow> refuse msg
           | Inr (ids, force, justid) \<Rightarrow>
               if ids = [] then refuse ''ERR syntax error''
               else on_stream env 0 db key (answer (Array (Some []))) (\<lambda>st.
                 case claim_stream_messages (wall_clock env) (lossy n) (lossy c) (unat min_idle) ids force st of
                   (st', Inr es) \<Rightarrow> keep_groups db key st' (claimed_frame justid es)
                 | (st', Inl e) \<Rightarrow> refuse e))))))"

text \<open>The options of \<^verbatim>\<open>XAUTOCLAIM\<close> end at the first argument that is not a bulk string.\<close>

fun xautoclaim_options :: "nat \<Rightarrow> bool \<Rightarrow> resp_frame list \<Rightarrow> string + (nat \<times> bool)" where
  "xautoclaim_options count justid [] = Inr (count, justid)"
| "xautoclaim_options count justid (p # ps) =
     (case bulk p of
        None \<Rightarrow> Inr (count, justid)
      | Some b \<Rightarrow>
          if upper_is b ''COUNT'' \<and> ps \<noteq> [] then
            (case bulk (hd ps) of
               Some c \<Rightarrow> (case parse_usize c of Some n \<Rightarrow> xautoclaim_options n justid (tl ps) | None \<Rightarrow> Inl ''ERR value is not an integer'')
             | None \<Rightarrow> Inl ''ERR syntax error'')
          else if upper_is b ''JUSTID'' then xautoclaim_options count True ps
          else Inl ''ERR syntax error'')"

definition handle_xautoclaim :: "command_env \<Rightarrow> nat \<Rightarrow> resp_frame list \<Rightarrow> command" where
  "handle_xautoclaim env db parts =
     (if length parts < 6 then answer (wrong_args ''xautoclaim'')
      else bulk_arg parts 1 invalid_key (\<lambda>key.
           bulk_arg parts 2 ''ERR invalid group name'' (\<lambda>n.
           bulk_arg parts 3 ''ERR invalid consumer name'' (\<lambda>c.
           parsed_arg parse_u64 ''ERR Invalid min-idle-time'' parts 4 ''ERR invalid min-idle-time'' (\<lambda>min_idle.
           bulk_arg parts 5 ''ERR invalid start ID'' (\<lambda>b.
           case (if b = ''0'' \<or> b = ''0-0'' then Some (new_id 0 0) else from_string (lossy b)) of
             None \<Rightarrow> refuse ''ERR Invalid stream ID''
           | Some start \<Rightarrow>
               (case xautoclaim_options 100 False (drop 6 parts) of
                  Inl msg \<Rightarrow> refuse msg
                | Inr (count, justid) \<Rightarrow>
                    on_stream env 0 db key (answer (Array (Some [from_bytes ''0-0'', Array (Some [])]))) (\<lambda>st.
                      case auto_claim_messages (wall_clock env 0) (\<lambda>i. wall_clock env (i + 1)) (lossy n) (lossy c) (unat min_idle) start count st of
                        (st', Inr (es, next_start)) \<Rightarrow>
                          keep_groups db key st' (Array (Some [id_frame next_start, claimed_frame justid es]))
                      | (st', Inl e) \<Rightarrow> refuse e))))))))"

section \<open>Contracts\<close>

interpretation store_groups: shard_local key "store_groups key m" for key m
  by unfold_locales (auto dest: shard_ok_get split: option.split val.split)

lemma within_store_groups [contract_rules]: "within (same_outside db) (on_shard db key (store_groups key m))"
  by (rule within_on_shard) (rule store_groups.shard_local_axioms)

lemma within_new_stream [contract_rules]:
  "within (same_outside db) (on_shard db key (set_value key (VStream st) None now))"
  by (rule within_operation) (rule set_value_operation, simp)

context effect
begin

lemma obeys_id_arg: "(\<And>i. obeys R K (k i)) \<Longrightarrow> obeys R K (id_arg parts i msg w x k)"
  by (simp add: id_arg_def rules split: option.split)

lemma obeys_count_arg: "(\<And>n. obeys R K (k n)) \<Longrightarrow> obeys R K (count_arg parts i k)"
  by (simp add: count_arg_def rules)

lemma obeys_stream_fields: "(\<And>fvs. obeys R K (k fvs)) \<Longrightarrow> obeys R K (stream_fields ps fvs k)"
  by (induction ps fvs k rule: stream_fields.induct) (simp_all add: rules split: option.split)

lemma obeys_id_args: "(\<And>ids. obeys R K (k ids)) \<Longrightarrow> obeys R K (id_args bad ps k)"
  by (induction bad ps k rule: id_args.induct) (simp_all add: rules split: option.split)

lemma obeys_xread_targets:
  assumes "\<And>key. within R (on_shard db key (xrange key min_id max_id None False))" "\<And>ts. obeys R K (k ts)"
  shows "obeys R K (xread_targets db ps acc k)"
proof (induction ps arbitrary: acc)
  case (Cons p ps)
  then show ?case using assms(1)
    by (cases p) (auto intro!: obeys_and_then obeys_answer obeys_option obeys_if)
qed (simp add: assms(2))

lemma obeys_on_stream:
  assumes "within R (on_shard db key (engine_get key (clock env i)))" "\<And>st. obeys R K (k st)" "obeys R K missing"
  shows "obeys R K (on_stream env i db key missing k)"
proof -
  have "obeys R K (\<lambda>s. case g of
      Found v \<Rightarrow> (case v of VStream st \<Rightarrow> k st s | _ \<Rightarrow> refuse wrong_type_reply s) | _ \<Rightarrow> missing s)" for g
  proof (cases g)
    case (Found v)
    then show ?thesis using assms(2) obeys_answer [of "Error wrong_type_reply" K] by (cases v) simp_all
  qed (use assms(3) in simp_all)
  then show ?thesis unfolding on_stream_def by (intro obeys_and_then assms(1))
qed

lemma obeys_on_group: "(\<And>g. obeys R K (k g)) \<Longrightarrow> obeys R K missing \<Longrightarrow> obeys R K (on_group name st missing k)"
  by (simp add: on_group_def split: option.split)

lemmas stream_rules = obeys_id_arg obeys_count_arg obeys_stream_fields obeys_id_args obeys_xread_targets obeys_on_stream obeys_on_group

end

lemmas [contract_rules] = writing.stream_rules reading.stream_rules

lemma obeys_keep_groups [contract_rules]: "kind_of f \<in> K \<Longrightarrow> obeys (same_outside db) K (keep_groups db key st f)"
  unfolding keep_groups_def by (intro contract_rules)

lemma stream_kinds [simp]:
  "kind_of (id_frame i) = Bulk_Reply" "kind_of (entries_frame es) = Array_Reply" "kind_of (claimed_frame j es) = Array_Reply"
  "kind_of (pending_summary p) = Array_Reply"
  by (simp_all add: id_frame_def entries_frame_def claimed_frame_def pending_summary_def)

lemma stream_writers:
  "obeys (same_outside db) {Bulk_Reply} (handle_xadd env db parts)"
  "obeys (same_outside db) {Integer_Reply} (handle_xtrim env db parts)"
  "obeys (same_outside db) {Integer_Reply} (handle_xdel env db parts)"
  unfolding handle_xadd_def handle_xtrim_def handle_xdel_def Let_def
  by (intro contract_rules; simp)+

lemma stream_readers_obey:
  "obeys (only_expires (range (clock env)) db) {Array_Reply} (handle_xrange env db parts)"
  "obeys (only_expires (range (clock env)) db) {Array_Reply} (handle_xrevrange env db parts)"
  "obeys (only_expires (range (clock env)) db) {Integer_Reply} (handle_xlen env db parts)"
  "obeys (only_expires (range (clock env)) db) {Array_Reply} (handle_xread env db parts)"
  unfolding handle_xrange_def handle_xrevrange_def handle_xlen_def handle_xread_def Let_def
  by (intro contract_rules within_reader; simp add: reader_simps)+

lemma group_readers_obey:
  "obeys (only_expires (range (clock env)) db) {Array_Reply} (handle_xinfo env db parts)"
  "obeys (only_expires (range (clock env)) db) {Array_Reply} (handle_xpending env db parts)"
  unfolding handle_xinfo_def handle_xinfo_stream_def handle_xinfo_groups_def handle_xinfo_consumers_def handle_xinfo_help_def
    unknown_subcommand_def handle_xpending_def Let_def
  by (intro contract_rules within_reader; simp)+

lemma create_group_in_obeys [contract_rules]: "obeys (same_outside db) {Simple_Reply, Integer_Reply, Array_Reply} (create_group_in env db key name b st)"
  unfolding create_group_in_def by (auto intro!: contract_rules split: prod.split sum.split)

lemma within_get_writing [contract_rules]: "within (same_outside db) (on_shard db key (engine_get key now))"
  by (rule within_operation) (rule engine_get.shard_operation_axioms)

lemma handle_xgroup_create_obeys [contract_rules]:
  "obeys (same_outside db) {Simple_Reply, Integer_Reply, Array_Reply} (handle_xgroup_create env db parts)"
proof -
  have "obeys (same_outside db) {Simple_Reply, Integer_Reply, Array_Reply} (\<lambda>s. case g of
      Found v \<Rightarrow> (case v of VStream st \<Rightarrow> create_group_in env db key n b st s | _ \<Rightarrow> refuse wrong_type_reply s)
    | GetWrongType \<Rightarrow> refuse wrong_type_reply s
    | _ \<Rightarrow> if mk then and_then (on_shard db key (set_value key (VStream new_stream) None now) s) (\<lambda>s _.
               create_group_in env db key n b new_stream s)
           else refuse msg s)" for g key n b mk now msg
  proof (cases g)
    case (Found v)
    then show ?thesis using create_group_in_obeys writing.obeys_answer [of "Error wrong_type_reply"] by (cases v) simp_all
  qed (simp_all add: writing.rules within_new_stream create_group_in_obeys)
  then show ?thesis unfolding handle_xgroup_create_def Let_def by (intro contract_rules; simp)
qed

lemma xgroup_obey:
  "obeys (same_outside db) {Simple_Reply, Integer_Reply, Array_Reply} (handle_xgroup env db parts)"
  unfolding handle_xgroup_def handle_xgroup_destroy_def handle_xgroup_createconsumer_def handle_xgroup_delconsumer_def
    handle_xgroup_setid_def handle_xgroup_help_def unknown_subcommand_def
  by (intro contract_rules; simp)

lemma xreadgroup_loop_obeys [contract_rules]:
  "obeys (same_outside db) {Array_Reply} (xreadgroup_loop env db name consumer a j ps results)"
proof (induction ps arbitrary: j results)
  case Nil
  then show ?case by (simp add: writing.rules)
next
  case (Cons p ps)
  then show ?case by (cases p) (auto intro!: contract_rules split: prod.split sum.split)
qed

lemma group_writers:
  "obeys (same_outside db) {Array_Reply} (handle_xreadgroup env db parts)"
  "obeys (same_outside db) {Integer_Reply} (handle_xack env db parts)"
  "obeys (same_outside db) {Array_Reply} (handle_xclaim env db parts)"
  "obeys (same_outside db) {Array_Reply} (handle_xautoclaim env db parts)"
  unfolding handle_xreadgroup_def handle_xack_def handle_xclaim_def handle_xautoclaim_def Let_def
  by (intro contract_rules; simp)+

lemmas stream_contracts = stream_writers stream_readers_obey group_readers_obey xgroup_obey group_writers

end
