(* ===== verification/Dispatch.thy ===== *)
theory Dispatch
  imports Server Commands_Strings Commands_Collections Commands_Sorted Commands_Groups
begin

text \<open>
  The execution of one ordinary command (\<^verbatim>\<open>process_normal_command\<close> of \<^verbatim>\<open>src/network/server.rs\<close>): the write-ahead log, the
  table of handlers, the wake-up of blocked clients after a push, the counter of changes and the propagation
  to the replicas.  Monitoring is off, as in the default configuration.  The commands of administration and
  scripting, which are not modelled, are the argument \<open>other\<close>.
\<close>

section \<open>Environment\<close>

text \<open>
  What one command meets outside the server: the readings and random choices of its handler, the answers of the
  file system, the clocks of a snapshot, the wall clock, the monotonic clock of the server, the resolver of host names and the random
  numbers of a replication identifier.
\<close>

record server_env =
  handler_env :: command_env
  append_io :: append_answers
  save_io :: disk_answers
  snapshot_clock :: save_clock
  snapshot_wall :: "nat \<Rightarrow> bytes \<Rightarrow> nat"
  wall_now :: nat
  now_ns :: nat
  resolver :: "string \<Rightarrow> socket_addr list option"
  id_source :: "nat list"

type_synonym other_commands = "server_env \<Rightarrow> nat list \<Rightarrow> command_processor"

section \<open>The table of handlers on the storage engine\<close>

type_synonym handler = "command_env \<Rightarrow> nat \<Rightarrow> resp_frame list \<Rightarrow> command"

definition string_commands :: "(string \<times> handler) list" where
  "string_commands =
     [(''ECHO'', \<lambda>env db parts. handle_echo parts), (''SET'', handle_set), (''GET'', handle_get), (''INCR'', handle_incr), (''DECR'', handle_decr),
      (''INCRBY'', handle_incrby), (''DECRBY'', handle_decrby), (''DEL'', handle_del), (''EXISTS'', handle_exists),
      (''EXPIRE'', handle_expire), (''TTL'', handle_ttl), (''FLUSHDB'', handle_flushdb), (''FLUSHALL'', \<lambda>env db parts. handle_flushall env parts),
      (''DBSIZE'', handle_dbsize), (''SETNX'', handle_setnx), (''SETEX'', handle_setex), (''PSETEX'', handle_psetex),
      (''MGET'', handle_mget), (''MSET'', handle_mset), (''GETSET'', handle_getset), (''APPEND'', handle_append),
      (''STRLEN'', handle_strlen), (''GETRANGE'', handle_getrange), (''SETRANGE'', handle_setrange), (''TYPE'', handle_type),
      (''RENAME'', handle_rename), (''RENAMENX'', handle_renamenx), (''RANDOMKEY'', handle_randomkey), (''KEYS'', handle_keys),
      (''PEXPIRE'', handle_pexpire), (''PTTL'', handle_pttl), (''PERSIST'', handle_persist)]"

definition collection_commands :: "(string \<times> handler) list" where
  "collection_commands =
     [(''LPUSH'', handle_lpush), (''RPUSH'', handle_rpush), (''LPOP'', handle_lpop), (''RPOP'', handle_rpop), (''LLEN'', handle_llen),
      (''LRANGE'', handle_lrange), (''LINDEX'', handle_lindex), (''LSET'', handle_lset), (''LTRIM'', handle_ltrim), (''LREM'', handle_lrem),
      (''SADD'', handle_sadd), (''SREM'', handle_srem), (''SMEMBERS'', handle_smembers), (''SISMEMBER'', handle_sismember),
      (''SCARD'', handle_scard), (''SUNION'', handle_sunion), (''SINTER'', handle_sinter), (''SDIFF'', handle_sdiff),
      (''SRANDMEMBER'', handle_srandmember), (''SPOP'', handle_spop), (''HSET'', handle_hset), (''HGET'', handle_hget),
      (''HMSET'', handle_hmset), (''HMGET'', handle_hmget), (''HGETALL'', handle_hgetall), (''HDEL'', handle_hdel), (''HLEN'', handle_hlen),
      (''HEXISTS'', handle_hexists), (''HKEYS'', handle_hkeys), (''HVALS'', handle_hvals), (''HINCRBY'', handle_hincrby)]"

definition sorted_commands :: "(string \<times> handler) list" where
  "sorted_commands =
     [(''ZADD'', handle_zadd), (''ZREM'', handle_zrem), (''ZSCORE'', handle_zscore), (''ZCARD'', handle_zcard), (''ZRANK'', handle_zrank),
      (''ZREVRANK'', handle_zrevrank), (''ZRANGE'', handle_zrange), (''ZREVRANGE'', handle_zrevrange), (''ZRANGEBYSCORE'', handle_zrangebyscore),
      (''ZREVRANGEBYSCORE'', handle_zrevrangebyscore), (''ZCOUNT'', handle_zcount), (''ZINCRBY'', handle_zincrby),
      (''ZPOPMIN'', handle_zpopmin), (''ZPOPMAX'', handle_zpopmax)]"

definition stream_commands :: "(string \<times> handler) list" where
  "stream_commands =
     [(''XADD'', handle_xadd), (''XRANGE'', handle_xrange), (''XREVRANGE'', handle_xrevrange), (''XLEN'', handle_xlen), (''XREAD'', handle_xread),
      (''XTRIM'', handle_xtrim), (''XDEL'', handle_xdel), (''XGROUP'', handle_xgroup), (''XREADGROUP'', handle_xreadgroup), (''XACK'', handle_xack),
      (''XCLAIM'', handle_xclaim), (''XPENDING'', handle_xpending), (''XINFO'', handle_xinfo),
      (''SCAN'', handle_scan), (''HSCAN'', handle_hscan), (''SSCAN'', handle_sscan), (''ZSCAN'', handle_zscan)]"

definition storage_commands :: "(string \<times> handler) list" where
  "storage_commands = string_commands @ collection_commands @ sorted_commands @ stream_commands"

definition write_commands :: "string list" where
  "write_commands =
     [''SET'', ''DEL'', ''EXPIRE'', ''INCR'', ''DECR'', ''INCRBY'', ''DECRBY'', ''SETNX'', ''SETEX'', ''PSETEX'', ''FLUSHDB'', ''FLUSHALL'',
      ''LPUSH'', ''RPUSH'', ''LPOP'', ''RPOP'', ''LSET'', ''LREM'', ''LTRIM'', ''SADD'', ''SREM'', ''SPOP'', ''HSET'', ''HDEL'', ''HINCRBY'',
      ''ZADD'', ''ZREM'', ''ZINCRBY'', ''ZPOPMIN'', ''ZPOPMAX'', ''XADD'', ''XTRIM'', ''XDEL'', ''XGROUP'', ''XACK'', ''XCLAIM'',
      ''MSET'', ''APPEND'', ''SETRANGE'', ''RENAME'', ''RENAMENX'', ''PERSIST'', ''EVAL'', ''EVALSHA'']"

definition is_write_command :: "nat list \<Rightarrow> bool" where
  "is_write_command command \<longleftrightarrow> command \<in> set (map ascii write_commands)"

section \<open>The handlers of the server\<close>

definition handle_select :: "resp_frame list \<Rightarrow> u64 \<Rightarrow> server \<Rightarrow> server \<times> resp_frame result" where
  "handle_select parts i s =
     (if length parts \<noteq> 2 then (s, Ok (wrong_args ''select''))
      else (case bulk (parts ! 1) of
              None \<Rightarrow> (s, Ok (Error ''ERR invalid database index format''))
            | Some b \<Rightarrow>
                (case parse_usize b of
                   None \<Rightarrow> (s, Ok (Error not_integer))
                 | Some n \<Rightarrow>
                     if n \<ge> length (databases (storage s)) then (s, Ok (Error ''ERR DB index is out of range''))
                     else (fst (with_client i (\<lambda>c. (c\<lparr>db_index := n\<rparr>, ())) s), Ok resp_ok))))"

definition not_configured :: resp_frame where
  "not_configured = Error ''ERR RDB persistence not configured''"

definition handle_save :: "server_env \<Rightarrow> resp_frame list \<Rightarrow> server \<Rightarrow> server \<times> resp_frame result" where
  "handle_save env parts s =
     (if length parts \<noteq> 1 then (s, Ok (wrong_args ''save''))
      else (case rdb_state s of
              None \<Rightarrow> (s, Ok not_configured)
            | Some r \<Rightarrow>
                (let ((e, d), r', res) = save r (snapshot_clock env) (save_io env) (wall_now env) (storage s, files s);
                     s' = s\<lparr>storage := e, files := d, rdb_state := Some r'\<rparr>
                 in case res of
                      Ok _ \<Rightarrow> (s'\<lparr>storage_monitor := map_option reset_changes (storage_monitor s)\<rparr>, Ok resp_ok)
                    | Err x \<Rightarrow> (s', Ok (Error (''ERR '' @ display_ferrous_error x)))
                    | Panic \<Rightarrow> (s', Panic))))"

definition handle_bgsave :: "resp_frame list \<Rightarrow> server \<Rightarrow> server \<times> resp_frame result" where
  "handle_bgsave parts s =
     (if length parts \<noteq> 1 then (s, Ok (wrong_args ''bgsave''))
      else (case rdb_state s of
              None \<Rightarrow> (s, Ok not_configured)
            | Some r \<Rightarrow>
                (case bgsave r of
                   (r', Ok _) \<Rightarrow> (s\<lparr>rdb_state := Some r'\<rparr>, Ok (SimpleString ''Background saving started''))
                 | (r', Err x) \<Rightarrow> (s\<lparr>rdb_state := Some r'\<rparr>, Ok (Error (''ERR '' @ display_ferrous_error x)))
                 | (r', Panic) \<Rightarrow> (s, Panic))))"

text \<open>The last save in nanoseconds since the epoch, so that the conversion to seconds cannot fail.\<close>

definition handle_lastsave :: "resp_frame list \<Rightarrow> server \<Rightarrow> server \<times> resp_frame result" where
  "handle_lastsave parts s =
     (if length parts \<noteq> 1 then (s, Ok (wrong_args ''lastsave''))
      else (case rdb_state s of
              None \<Rightarrow> (s, Ok not_configured)
            | Some r \<Rightarrow> (case last_save_time r of
                            Some t \<Rightarrow> (s, Ok (Integer (word_of_nat (t div 10 ^ 9))))
                          | None \<Rightarrow> (s, Ok (Integer 0)))))"

definition handle_bgrewriteaof :: "server \<Rightarrow> server \<times> resp_frame result" where
  "handle_bgrewriteaof s =
     (case aof_state s of
        None \<Rightarrow> (s, Ok (Error ''ERR AOF is disabled''))
      | Some a \<Rightarrow>
          (case bgrewrite a of
             (a', Ok _) \<Rightarrow> (s\<lparr>aof_state := Some a'\<rparr>, Ok (SimpleString ''Background append only file rewriting started''))
           | (a', Err x) \<Rightarrow> (s\<lparr>aof_state := Some a'\<rparr>, Ok (Error (''ERR '' @ display_ferrous_error x)))
           | (a', Panic) \<Rightarrow> (s, Panic)))"

definition handle_sleep :: "resp_frame list \<Rightarrow> resp_frame" where
  "handle_sleep parts =
     (if length parts \<noteq> 2 then wrong_args ''sleep''
      else (case bulk (parts ! 1) of
              None \<Rightarrow> Error ''ERR invalid milliseconds format''
            | Some b \<Rightarrow> (case parse_u64 b of Some ms \<Rightarrow> resp_ok | None \<Rightarrow> Error not_integer)))"

definition on_replication :: "(replication_manager \<Rightarrow> replication_manager \<times> resp_frame result) \<Rightarrow> server \<Rightarrow> server \<times> resp_frame result" where
  "on_replication f s = (let (m, r) = f (replication s) in (s\<lparr>replication := m\<rparr>, r))"

definition snapshot_for_sync :: "server_env \<Rightarrow> server \<Rightarrow> server \<times> bytes result" where
  "snapshot_for_sync env s =
     (let (e, r) = generate_rdb_bytes (snapshot_clock env) (snapshot_wall env) (storage s) in (s\<lparr>storage := e\<rparr>, r))"

definition plain_sync :: "server_env \<Rightarrow> server \<Rightarrow> server \<times> resp_frame result" where
  "plain_sync env s =
     (if rdb_state s = None then (s, Panic)
      else if \<not> is_master (replication s) then (s, handle_sync (Ok []) (replication s))
      else (let (s', r) = snapshot_for_sync env s in (s', handle_sync r (replication s'))))"

definition plain_psync :: "resp_frame list \<Rightarrow> server \<Rightarrow> server \<times> resp_frame result" where
  "plain_psync parts s = (if rdb_state s = None then (s, Panic) else (s, handle_psync parts (replication s)))"

section \<open>One command\<close>

text \<open>The write-ahead log; an error is only printed.\<close>

definition log_command :: "server_env \<Rightarrow> nat list \<Rightarrow> resp_frame list \<Rightarrow> server \<Rightarrow> server" where
  "log_command env command parts s =
     (case aof_state s of
        Some a \<Rightarrow>
          if is_write_command command
          then (let (d, a') = fst (aof_append (show_f64 (handler_env env)) (append_io env) parts (files s, a)) in s\<lparr>files := d, aof_state := Some a'\<rparr>)
          else s
      | None \<Rightarrow> s)"

definition run_handler :: "handler \<Rightarrow> server_env \<Rightarrow> nat \<Rightarrow> resp_frame list \<Rightarrow> server \<Rightarrow> server \<times> resp_frame result" where
  "run_handler h env db parts s = (let (e, r) = h (handler_env env) db parts (storage s) in (s\<lparr>storage := e\<rparr>, r))"

definition notify_pushed :: "nat \<Rightarrow> resp_frame list \<Rightarrow> resp_frame result \<Rightarrow> server \<Rightarrow> server" where
  "notify_pushed db parts r s =
     (case r of
        Ok (Integer count) \<Rightarrow>
          (if 0 < sint count \<and> length parts \<ge> 3 then
             (case bulk (parts ! 1) of
                Some key \<Rightarrow> (if has_blocked_clients db key (blocking s) then s\<lparr>blocking := notify_key_ready db key (blocking s)\<rparr> else s)
              | None \<Rightarrow> s)
           else s)
      | _ \<Rightarrow> s)"

definition other_names :: "string list" where
  "other_names = [''CONFIG'', ''INFO'', ''SLOWLOG'', ''MEMORY'', ''CLIENT'', ''EVAL'', ''EVALSHA'', ''COMMAND'', ''SHUTDOWN'', ''SCRIPT'']"

definition route_command :: "other_commands \<Rightarrow> server_env \<Rightarrow> bytes \<Rightarrow> command_processor" where
  "route_command other env name parts db i s =
     (let command = to_uppercase (from_utf8_lossy name) in
      case map_of (map (\<lambda>(n, h). (ascii n, h)) storage_commands) command of
        Some h \<Rightarrow>
          (let (s', r) = run_handler h env db parts s
           in (if command = ascii ''LPUSH'' \<or> command = ascii ''RPUSH'' then notify_pushed db parts r s' else s', r))
      | None \<Rightarrow>
          if command = ascii ''PING'' then (s, Ok (handle_ping parts))
          else if command = ascii ''SELECT'' then handle_select parts i s
          else if command = ascii ''SLEEP'' then (s, Ok (handle_sleep parts))
          else if command = ascii ''BLPOP'' then handle_blpop (read_f64 (handler_env env)) (now_ns env) parts db i s
          else if command = ascii ''BRPOP'' then handle_brpop (read_f64 (handler_env env)) (now_ns env) parts db i s
          else if command = ascii ''SAVE'' then handle_save env parts s
          else if command = ascii ''BGSAVE'' then handle_bgsave parts s
          else if command = ascii ''LASTSAVE'' then handle_lastsave parts s
          else if command = ascii ''BGREWRITEAOF'' then handle_bgrewriteaof s
          else if command = ascii ''AUTH'' then okay (handle_auth parts 0 s)
          else if command = ascii ''REPLICAOF'' \<or> command = ascii ''SLAVEOF'' then on_replication (handle_replicaof (resolver env) (id_source env) parts) s
          else if command = ascii ''SYNC'' then plain_sync env s
          else if command = ascii ''PSYNC'' then plain_psync parts s
          else if command = ascii ''QUIT'' then (s, Ok resp_ok)
          else if command \<in> set (map ascii other_names) then other env command parts db i s
          else (s, Ok (Error (''ERR unknown command '' @ [CHR 0x27] @ show_upper (handler_env env) name @ [CHR 0x27]))))"

text \<open>A write command that did not end in an error counts as a change and goes to the replicas.\<close>

definition succeeded :: "resp_frame result \<Rightarrow> bool" where
  "succeeded r \<longleftrightarrow> (case r of Ok f \<Rightarrow> \<not> is_error f | _ \<Rightarrow> False)"

definition record_change :: "server \<Rightarrow> server" where
  "record_change s = s\<lparr>storage_monitor := map_option monitor_record_change (storage_monitor s)\<rparr>"

definition propagate :: "server_env \<Rightarrow> resp_frame list \<Rightarrow> server \<Rightarrow> server" where
  "propagate env parts s =
     (case propagate_command (show_f64 (handler_env env)) (Array (Some parts)) (replication s) of
        (m, Ok replica_ids) \<Rightarrow>
          fold (\<lambda>i s. fst (with_client i (send_frame (show_f64 (handler_env env)) (Array (Some parts))) s)) replica_ids (s\<lparr>replication := m\<rparr>)
      | (m, _) \<Rightarrow> s\<lparr>replication := m\<rparr>)"

definition process_normal_command :: "other_commands \<Rightarrow> (nat \<Rightarrow> server_env) \<Rightarrow> command_processor" where
  "process_normal_command other envs parts db i s =
     (let env = envs (executed s); s = s\<lparr>executed := executed s + 1\<rparr> in
      case parts of
        BulkString (Some name) # _ \<Rightarrow>
          (let command = to_uppercase (from_utf8_lossy name);
               (s', result) = route_command other env name parts db i (log_command env command parts s)
           in if is_write_command command \<and> succeeded result then (propagate env parts (record_change s'), result) else (s', result))
      | [] \<Rightarrow> (s, Panic)
      | _ \<Rightarrow> (s, Ok (Error ''ERR invalid command format'')))"

end
