(* ===== verification/Server_Correct.thy ===== *)
theory Server_Correct
  imports Server
begin

text \<open>
  What the routing layer of the server guarantees: the table of connections behaves as one map, nothing
  but authentication gets past the password check of \<^verbatim>\<open>process_frame\<close>, a transaction runs completely or
  not at all, a wake-up hands a list element to the client that waited for it, and a publication reaches
  the subscribers.
\<close>

section \<open>The table of connections\<close>

definition clients_ok :: "server \<Rightarrow> bool" where
  "clients_ok s \<longleftrightarrow> length (clients s) = CONNECTION_SHARDS"

lemma conn_shard_bound: "clients_ok s \<Longrightarrow> conn_shard i < length (clients s)"
  by (simp add: clients_ok_def conn_shard_def CONNECTION_SHARDS_def)

lemma with_client_frame [simp]:
  "storage (fst (with_client i f s)) = storage s" "pubsub (fst (with_client i f s)) = pubsub s"
  "replication (fst (with_client i f s)) = replication s" "blocking (fst (with_client i f s)) = blocking s"
  "password (fst (with_client i f s)) = password s" "monitor_subscribers (fst (with_client i f s)) = monitor_subscribers s"
  "length (clients (fst (with_client i f s))) = length (clients s)" "clients_ok (fst (with_client i f s)) = clients_ok s"
  by (simp_all add: with_client_def with_connection_def clients_ok_def Let_def split: prod.split option.split)

lemma with_client_result: "snd (with_client i f s) = map_option (\<lambda>c. snd (f c)) (client s i)"
  by (simp add: with_client_def with_connection_def client_def Let_def split: prod.split option.split)

lemma with_client_client:
  assumes "clients_ok s"
  shows "client (fst (with_client i f s)) j = (if j = i then map_option (\<lambda>c. fst (f c)) (client s i) else client s j)"
  using conn_shard_bound [OF assms, of i]
  by (auto simp: with_client_def with_connection_def client_def Let_def nth_list_update split: prod.split option.split)

lemma client_update [simp]:
  "client (s\<lparr>storage := e\<rparr>) j = client s j" "client (s\<lparr>pubsub := m\<rparr>) j = client s j" "client (s\<lparr>replication := r\<rparr>) j = client s j"
  "client (s\<lparr>blocking := b\<rparr>) j = client s j" "client (s\<lparr>auth_successes := n\<rparr>) j = client s j" "client (s\<lparr>auth_failures := n\<rparr>) j = client s j"
  "clients_ok (s\<lparr>storage := e\<rparr>) = clients_ok s" "clients_ok (s\<lparr>replication := r\<rparr>) = clients_ok s" "clients_ok (s\<lparr>auth_successes := n\<rparr>) = clients_ok s"
  "clients_ok (s\<lparr>blocking := b\<rparr>) = clients_ok s" "clients_ok (s\<lparr>pubsub := m\<rparr>) = clients_ok s"
  by (simp_all add: client_def clients_ok_def)

section \<open>Authentication\<close>

text \<open>
  C16: with a password set, a request on a connection that is not authenticated changes no stored data, no
  subscription, no replication or blocking state and no other connection; the only effect it can have is
  that \<^verbatim>\<open>AUTH\<close> with exactly the configured password authenticates its own connection.
\<close>

theorem authentication_required:
  assumes "clients_ok s" "client s i = Some c" "password s = Some pw" "state c \<noteq> Authenticated"
    "process_frame normal fp now frame i s = (s', r)"
  shows "storage s' = storage s \<and> pubsub s' = pubsub s \<and> replication s' = replication s \<and> blocking s' = blocking s \<and>
    (\<forall>j. client s' j = client s j \<or>
      j = i \<and> client s' i = Some (c\<lparr>state := Authenticated\<rparr>) \<and> (\<exists>cmd. frame = Array (Some [cmd, BulkString (Some pw)])))"
proof -
  have auth: "storage s1 = storage s \<and> pubsub s1 = pubsub s \<and> replication s1 = replication s \<and> blocking s1 = blocking s \<and>
      (\<forall>j. client s1 j = client s j \<or> j = i \<and> client s1 i = Some (c\<lparr>state := Authenticated\<rparr>) \<and> (\<exists>cmd. parts = [cmd, BulkString (Some pw)]))"
    if a: "handle_auth parts i s = (s1, r1)" for parts s1 r1
  proof (cases "length parts = 2 \<and> bulk (parts ! 1) = Some pw \<and> utf8_valid pw")
    case True
    then obtain x where "parts = [x, BulkString (Some pw)]"
      by (cases parts rule: remdups_adj.cases) (auto simp: bulk_Some)
    then show ?thesis
      using a True assms(1-3) with_client_client [of "s\<lparr>auth_successes := auth_successes s + 1\<rparr>" i "\<lambda>c. (c\<lparr>state := Authenticated\<rparr>, ())"]
      by (auto simp: handle_auth_def)
  next
    case False
    then show ?thesis using a assms(3) by (auto simp: handle_auth_def split: if_splits option.splits)
  qed
  have "s' = s \<or> (\<exists>parts r1. frame = Array (Some parts) \<and> handle_auth parts i s = (s', r1))"
    using assms(2-5)
    by (auto simp: process_frame_def unauthenticated_def okay_def Let_def prod_eq_iff
        split: resp_frame.splits option.splits list.splits if_splits)
  then show ?thesis using auth by blast
qed

definition sample_server :: "connection \<Rightarrow> storage_engine \<Rightarrow> server" where
  "sample_server c e =
     \<lparr>clients = insert_connection 1 c new_sharded, password = Some ''pw'', storage = e, pubsub = new_pubsub,
      replication = new_replication 99 [0], monitor_subscribers = [], clients_paused_until = 0, blocking = new_manager 1,
      auth_successes = 0, auth_failures = 0, pending_writes = [],
      rdb_state = None, storage_monitor = None, aof_state = None, files = (\<lambda>f. None), executed = 0\<rparr>"

lemma sample_server_ok [simp]: "clients_ok (sample_server c e)" "client (sample_server c e) 1 = Some c" "storage (sample_server c e) = e"
  "password (sample_server c e) = Some ''pw''" "replication (sample_server c e) = new_replication 99 [0]" "blocking (sample_server c e) = new_manager 1"
  by (simp_all add: sample_server_def clients_ok_def insert_connection_def new_sharded_def client_def conn_shard_def CONNECTION_SHARDS_def)

theorem authentication_required_witness:
  "storage (fst (process_frame (\<lambda>p db i s. (s\<lparr>storage := with_config 0 unlimited\<rparr>, Ok resp_ok)) (\<lambda>x. ''0'') 5
     (Array (Some [BulkString (Some ''GET''), BulkString (Some ''k'')])) 1 (sample_server (new_connection 1 (''h'', 1) 0 []) (with_config 1 unlimited))))
   = with_config 1 unlimited"
proof -
  let ?s = "sample_server (new_connection 1 (''h'', 1) 0 []) (with_config 1 unlimited)"
  let ?n = "\<lambda>p db i s. (s\<lparr>storage := with_config 0 unlimited\<rparr>, Ok resp_ok)"
  let ?p = "process_frame ?n (\<lambda>x. ''0'') 5 (Array (Some [BulkString (Some ''GET''), BulkString (Some ''k'')])) 1 ?s"
  have "?p = (fst ?p, snd ?p)" by simp
  from authentication_required [OF sample_server_ok(1,2,4) _ this] show ?thesis by (simp add: new_connection_def)
qed



section \<open>Transactions\<close>

lemma run_commands_all:
  assumes "\<And>cmd s. snd (normal cmd db 0 s) \<noteq> Panic"
  shows "\<exists>rs. run_commands normal db cmds s acc = (fold (\<lambda>cmd s. fst (normal cmd db 0 s)) cmds s, Ok (acc @ rs)) \<and> length rs = length cmds"
proof (induction cmds arbitrary: s acc)
  case (Cons cmd cmds)
  obtain s' r where n: "normal cmd db 0 s = (s', r)" by (metis prod.exhaust)
  then have "r \<noteq> Panic" using assms [of cmd s] by simp
  then obtain f where "run_commands normal db (cmd # cmds) s acc = run_commands normal db cmds s' (acc @ [f])"
    using n by (cases r) auto
  then show ?case using Cons.IH [of s' "acc @ [f]"] n by fastforce
qed simp

lemma on_client_known:
  "client s i = Some c \<Longrightarrow> on_client i f s = (fst (with_client i f s), Ok (snd (f c)))"
  using with_client_result [of i f s] by (cases "with_client i f s") (simp add: on_client_def)

lemma on_client_storage_known:
  assumes "clients_ok s" "client s i = Some c" "f c (storage s) = (c', e, r)" "on_client_storage i f s = (s', r')"
  shows "clients_ok s'" "client s' i = Some c'" "storage s' = e" "r' = Ok r"
proof -
  let ?f = "\<lambda>c. case f c (storage s) of (c', e, r) \<Rightarrow> (c', (e, r))"
  obtain x y where w: "with_client i ?f s = (x, y)" by (metis prod.exhaust)
  have "y = Some (e, r)" "client x i = Some c'" "clients_ok x"
    using w with_client_result [of i ?f s] with_client_client [OF assms(1), of i ?f i] with_client_frame(8) [of i ?f s] assms(1-3) by simp_all
  then show "clients_ok s'" "client s' i = Some c'" "storage s' = e" "r' = Ok r"
    using assms(4) w by (auto simp: on_client_storage_def)
qed

lemma queue_all:
  assumes "clients_ok s" "client s i = Some c"
  shows "clients_ok (fold (\<lambda>q s. fst (on_client i (queue_command q) s)) qs s)"
    "storage (fold (\<lambda>q s. fst (on_client i (queue_command q) s)) qs s) = storage s"
    "client (fold (\<lambda>q s. fst (on_client i (queue_command q) s)) qs s) i =
       Some (set_tx ((transaction c)\<lparr>queued_commands := queued_commands (transaction c) @ qs\<rparr>) c)"
proof -
  have "clients_ok (fold (\<lambda>q s. fst (on_client i (queue_command q) s)) qs s) \<and>
    storage (fold (\<lambda>q s. fst (on_client i (queue_command q) s)) qs s) = storage s \<and>
    client (fold (\<lambda>q s. fst (on_client i (queue_command q) s)) qs s) i =
       Some (set_tx ((transaction c)\<lparr>queued_commands := queued_commands (transaction c) @ qs\<rparr>) c)"
    using assms
  proof (induction qs arbitrary: s c)
    case Nil
    then show ?case by (simp add: set_tx_def)
  next
    case (Cons q qs)
    let ?s = "fst (with_client i (queue_command q) s)"
    have "client ?s i = Some (set_tx ((transaction c)\<lparr>queued_commands := queued_commands (transaction c) @ [q]\<rparr>) c)"
      using with_client_client [OF Cons.prems(1), of i "queue_command q" i] Cons.prems(2) by (simp add: queue_command_def)
    from Cons.IH [OF _ this] Cons.prems show ?case by (simp add: on_client_known set_tx_def)
  qed
  then show "clients_ok (fold (\<lambda>q s. fst (on_client i (queue_command q) s)) qs s)"
    "storage (fold (\<lambda>q s. fst (on_client i (queue_command q) s)) qs s) = storage s"
    "client (fold (\<lambda>q s. fst (on_client i (queue_command q) s)) qs s) i =
       Some (set_tx ((transaction c)\<lparr>queued_commands := queued_commands (transaction c) @ qs\<rparr>) c)" by blast+
qed

lemma watch_then_queue:
  assumes "clients_ok s" "client s i = Some c" "\<not> in_transaction (transaction c)" "watched_keys (transaction c) = []" "engine_ok (storage s)"
    "db = db_index c" "db < length (databases (storage s))" "ks \<noteq> []"
    "on_client_storage i (handle_watch (cmd # map (\<lambda>k. BulkString (Some k)) ks)) s = (s1, r1)"
    "on_client i handle_multi (s1\<lparr>storage := fold exec cs (storage s1)\<rparr>) = (s3, r3)"
    "s4 = fold (\<lambda>q s. fst (on_client i (queue_command q) s)) qs s3"
  obtains c4 where "clients_ok s4" "client s4 i = Some c4" "storage s4 = fold exec cs (storage s1)" "in_transaction (transaction c4)"
    "queued_commands (transaction c4) = qs" "\<not> aborted (transaction c4)" "db_index c4 = db"
    "\<And>key. map_of (watched_keys (transaction c4)) key = (if key \<in> set ks then Some (get_key_counter key (tracker_of (storage s1) db key)) else None)"
    "\<And>key. same_counters (tracker_of (storage s) db key) (tracker_of (storage s1) db key)" "\<And>key. lookup (storage s1) db key = lookup (storage s) db key"
    "engine_ok (storage s1)" "db < length (databases (storage s1))" "distinct (map fst (watched_keys (transaction c4)))"
proof -
  obtain c1 e1 r where w: "watch_loop (map (\<lambda>k. BulkString (Some k)) ks) c (storage s) = (c1, e1, r)" by (metis prod.exhaust)
  note wl = watch_loop_ok [OF assms(5) _ w]
  have d: "distinct (map fst (watched_keys (transaction c1)))"
    using watch_loop_distinct [of c "map (\<lambda>k. BulkString (Some k)) ks" "storage s"] w assms(4) by simp
  have s1: "storage s1 = e1" "clients_ok s1" "client s1 i = Some c1"
    using on_client_storage_known [OF assms(1,2) _ assms(9), of c1 e1 r] w assms(3,8) by (auto simp: handle_watch_def Suc_le_eq)
  let ?s2 = "s1\<lparr>storage := fold exec cs (storage s1)\<rparr>"
  let ?c3 = "set_tx ((transaction c1)\<lparr>in_transaction := True, queued_commands := [], aborted := False\<rparr>) c1"
  have t1: "\<not> in_transaction (transaction c1)" using wl assms(3,6,7) by (metis transaction_state.select_convs(1) transaction_state.surjective transaction_state.update_convs(3))
  have s3: "clients_ok s3" "client s3 i = Some ?c3" "storage s3 = fold exec cs e1"
    using assms(10) s1 t1 on_client_known [of ?s2 i c1 handle_multi] with_client_client [of ?s2 i handle_multi i]
    by (auto simp: handle_multi_def)
  show ?thesis
    using that [of "set_tx ((transaction ?c3)\<lparr>queued_commands := queued_commands (transaction ?c3) @ qs\<rparr>) ?c3"] queue_all [OF s3(1,2), of qs] s3(3) s1 wl d assms(4,6,7,11)
    by auto
qed

lemma exec_outcome:
  assumes "client s i = Some c" "in_transaction (transaction c)" "\<not> aborted (transaction c)" "handle_exec normal now i s = (s', r)"
    "\<And>q s. snd (normal q (db_index c) 0 s) \<noteq> Panic"
  defines "violated \<equiv> watch_violated (db_index c) now (storage s) (watched_keys (transaction c))"
  shows "violated \<Longrightarrow> r = Ok null_array \<and> storage s' = storage s"
    "\<not> violated \<Longrightarrow> (\<exists>rs. r = Ok (Array (Some rs)) \<and> length rs = length (queued_commands (transaction c))) \<and>
       s' = fold (\<lambda>q s. fst (normal q (db_index c) 0 s)) (queued_commands (transaction c)) (fst (with_client i (\<lambda>c. (clear_tx c, ())) s))"
  using assms(1-4) run_commands_all [of normal "db_index c" "queued_commands (transaction c)" "fst (with_client i (\<lambda>c. (clear_tx c, ())) s)" "[]", OF assms(5)]
  by (auto simp: handle_exec_def violated_def Let_def)



section \<open>Waking blocked clients\<close>

lemma pop_reply_sends: "snd (serialize_resp_frame fp (pop_reply key v) []) = Ok ()"
  by (simp add: pop_reply_def from_bytes_def)

lemma pop_for_list:
  assumes "engine_ok e" "db < length (databases e)" "lookup e db key = Some sv" "sv_value sv = VList l" "l \<noteq> []" "op \<in> {BLPop, BRPop}"
  defines "rest \<equiv> (if op = BLPop then tl l else butlast l)"
  shows "\<exists>e'. pop_for op db key e = (e', Ok (Some (if op = BLPop then hd l else last l))) \<and>
    value_of e' db key = (if rest = [] then None else Some (VList rest))"
proof -
  note at = lookup_on_shard(1) [OF assms(1,2), of key] lookup_shard [OF assms(2)] on_shard_valid [OF assms(2), of key]
  show ?thesis
  proof (cases "op = BLPop")
    case True
    then have "pop_for op db key e = (fst (on_shard db key (lpop key) e), Ok (Some (hd l)))"
      using assms(3-5) at(3) [of "lpop key"] by (cases l) (simp_all add: pop_for_def prod_eq_iff at(2) Let_def)
    then show ?thesis using True assms(3-5,7) at(1) [of "lpop key"] by (auto simp: at(2) Let_def store_or_remove_def)
  next
    case False
    then have "pop_for op db key e = (fst (on_shard db key (rpop key) e), Ok (Some (last l)))"
      using assms(3-6) at(3) [of "rpop key"] by (simp add: pop_for_def prod_eq_iff at(2) Let_def)
    then show ?thesis using False assms(3-5,7) at(1) [of "rpop key"] by (auto simp: at(2) Let_def store_or_remove_def)
  qed
qed

text \<open>
  C31: waking a client takes one element from the list, from the end its command asked for.  A connection
  that still waits is sent the key and the element and can send commands again.  A connection that is gone
  or no longer waits gets nothing, and the element is lost: it has left the list and is in no reply.
\<close>

theorem wake_client_exact:
  assumes "clients_ok s" "engine_ok (storage s)" "wake_db w < length (databases (storage s))" "wake_op w \<in> {BLPop, BRPop}"
    "lookup (storage s) (wake_db w) (wake_key w) = Some sv" "sv_value sv = VList l" "l \<noteq> []"
    "rest = (if wake_op w = BLPop then tl l else butlast l)" "v = (if wake_op w = BLPop then hd l else last l)"
    "list_all conn_ok (concat (map (map snd) (clients s)))" "wake_client fp w s = (s', r)"
  shows "r = Ok () \<and> value_of (storage s') (wake_db w) (wake_key w) = (if rest = [] then None else Some (VList rest)) \<and>
    (case client s (wake_conn w) of
       Some c \<Rightarrow> (\<exists>c'. client s' (wake_conn w) = Some c' \<and>
         (if is_blocked c then state c' = Authenticated \<and> queued c' = queued c @ fst (serialize_resp_frame fp (pop_reply (wake_key w) v) []) else c' = c))
     | None \<Rightarrow> client s' (wake_conn w) = None) \<and>
    (\<forall>j. j \<noteq> wake_conn w \<longrightarrow> client s' j = client s j)"
proof -
  let ?f = "answer_blocked fp (pop_reply (wake_key w) v)"
  obtain e where e: "pop_for (wake_op w) (wake_db w) (wake_key w) (storage s) = (e, Ok (Some v))"
    "value_of e (wake_db w) (wake_key w) = (if rest = [] then None else Some (VList rest))"
    using pop_for_list [OF assms(2,3,5-7,4), folded assms(8,9)] by blast
  have s': "s' = fst (with_client (wake_conn w) ?f (s\<lparr>storage := e\<rparr>))" "r = Ok ()" using assms(11) e(1) by (auto simp: wake_client_def)
  have cl: "client s' j = (if j = wake_conn w then map_option (\<lambda>c. fst (?f c)) (client s j) else client s j)" for j
    using with_client_client [of "s\<lparr>storage := e\<rparr>" "wake_conn w" ?f j] assms(1) s'(1) by simp
  have ans: "state (fst (?f c)) = Authenticated \<and> queued (fst (?f c)) = queued c @ fst (serialize_resp_frame fp (pop_reply (wake_key w) v) [])"
    if "conn_ok c" "is_blocked c" for c
    using send_frame_queues [OF that(1), of fp "pop_reply (wake_key w) v"] pop_reply_sends that(2)
    by (cases "send_frame fp (pop_reply (wake_key w) v) c") (auto simp: answer_blocked_def queued_def unsent_def)
  have "conn_ok c" if "client s (wake_conn w) = Some c" for c
    using assms(10) map_of_SomeD [OF that [unfolded client_def]] nth_mem [OF conn_shard_bound [OF assms(1), of "wake_conn w"]]
    by (force simp: list_all_iff)
  moreover have "fst (?f c) = c" if "\<not> is_blocked c" for c using that by (simp add: answer_blocked_def)
  ultimately show ?thesis using cl ans e(2) s' by (cases "client s (wake_conn w)") auto
qed

theorem wake_client_exact_witness:
  "\<exists>s' c'. wake_client (\<lambda>x. ''0'') \<lparr>wake_conn = 1, wake_db = 0, wake_key = ''k'', wake_op = BLPop\<rparr>
       (sample_server (block_connection 0 [''k''] BLPop None (new_connection 1 (''h'', 1) 0 [])) (exec (RPush 0 ''k'' [''a'', ''b''] 1) (with_config 1 unlimited))) = (s', Ok ()) \<and>
     client s' 1 = Some c' \<and> state c' = Authenticated \<and> queued c' = fst (serialize_resp_frame (\<lambda>x. ''0'') (pop_reply ''k'' ''a'') []) \<and>
     value_of (storage s') 0 ''k'' = Some (VList [''b''])"
proof -
  let ?c = "block_connection 0 [''k''] BLPop None (new_connection 1 (''h'', 1) 0 [])" and ?e = "exec (RPush 0 ''k'' [''a'', ''b''] 1) (with_config 1 unlimited)"
  let ?s = "sample_server ?c ?e" and ?w = "\<lparr>wake_conn = 1, wake_db = 0, wake_key = ''k'', wake_op = BLPop\<rparr>"
  have "engine_ok ?e" by (intro reachable_ok reachable.intros) simp
  then have e: "engine_ok (storage ?s)" by (simp del: exec.simps)
  have l: "lookup ?e 0 ''k'' = Some (new_value 1 (VList [''a'', ''b'']))"
    by (rule create_list [OF with_config_ok]) (simp_all add: with_config_length)
  have d: "0 < length (databases (storage ?s))" unfolding sample_server_ok exec_length by (simp add: with_config_def)
  have c: "conn_ok ?c" "queued ?c = []" "is_blocked ?c"
    by (simp_all add: block_connection_def new_connection_def conn_ok_def queued_def unsent_def is_blocked_def)
  have "list_all conn_ok (concat (map (map snd) (insert_connection 1 ?c new_sharded)))" by code_simp
  then have k: "list_all conn_ok (concat (map (map snd) (clients ?s)))" by (simp add: sample_server_def del: exec.simps)
  obtain s' r where p: "wake_client (\<lambda>x. ''0'') ?w ?s = (s', r)" by (metis prod.exhaust)
  have d': "wake_db ?w < length (databases (storage ?s))" "wake_op ?w \<in> {BLPop, BRPop}" using d by simp_all
  have l': "lookup (storage ?s) (wake_db ?w) (wake_key ?w) = Some (new_value 1 (VList [''a'', ''b'']))" using l by (simp del: exec.simps)
  have v: "sv_value (new_value 1 (VList [''a'', ''b''])) = VList [''a'', ''b'']" by simp
  from wake_client_exact [OF sample_server_ok(1) e d' l' v _ refl refl k p] c
  have "r = Ok ()" "value_of (storage s') 0 ''k'' = Some (VList [''b''])"
    "\<exists>c'. client s' 1 = Some c' \<and> state c' = Authenticated \<and> queued c' = fst (serialize_resp_frame (\<lambda>x. ''0'') (pop_reply ''k'' ''a'') [])"
    by (simp_all del: exec.simps)
  with p show ?thesis by blast
qed

section \<open>Publications\<close>

definition message_for :: "(u64 \<times> bytes option) list \<Rightarrow> bytes \<Rightarrow> bytes \<Rightarrow> u64 \<Rightarrow> resp_frame option" where
  "message_for rs ch msg j = map_option (\<lambda>pat. case pat of Some p \<Rightarrow> format_pmessage p ch msg | None \<Rightarrow> format_message ch msg) (map_of rs j)"

definition gets :: "(f64 \<Rightarrow> string) \<Rightarrow> resp_frame option \<Rightarrow> connection \<Rightarrow> connection" where
  "gets fp f c = (case f of None \<Rightarrow> c | Some f \<Rightarrow> fst (send_frame fp f c))"

lemma deliver_exact:
  "clients_ok s \<Longrightarrow> distinct (map fst rs) \<Longrightarrow> clients_ok (deliver fp ch msg rs s) \<and> storage (deliver fp ch msg rs s) = storage s \<and>
     client (deliver fp ch msg rs s) j = map_option (gets fp (message_for rs ch msg j)) (client s j)"
proof (induction rs arbitrary: s)
  case Nil
  then show ?case by (simp add: message_for_def gets_def option.map_ident)
next
  case (Cons r rs)
  obtain i pat where r: "r = (i, pat)" by (cases r)
  let ?f = "send_frame fp (case pat of Some p \<Rightarrow> format_pmessage p ch msg | None \<Rightarrow> format_message ch msg)"
  have "map_of rs i = None" using Cons.prems(2) r by (force simp: map_of_eq_None_iff)
  then show ?case
    using Cons.IH [of "fst (with_client i ?f s)"] Cons.prems r with_client_client [OF Cons.prems(1), of i ?f j]
    by (auto simp: message_for_def gets_def option.map_comp comp_def split: option.split)
qed

text \<open>
  C32: a publication sends one message to every connection with a matching subscription, in the form of the
  subscription it is sent for, and not a byte to any other connection; the reply is the number of
  receivers.
\<close>

theorem publish_delivers:
  assumes "clients_ok s" "handle_publish fp [cmd, BulkString (Some ch), BulkString (Some msg)] s = (s', r)" "client s j = Some c" "conn_ok c"
  shows "r = Integer (of_nat (length (publish ch (pubsub s)))) \<and> storage s' = storage s \<and>
    (\<exists>c'. client s' j = Some c' \<and> state c' = state c \<and>
      queued c' = queued c @ (case message_for (publish ch (pubsub s)) ch msg j of None \<Rightarrow> [] | Some f \<Rightarrow> fst (serialize_resp_frame fp f [])))"
proof -
  have "distinct (map fst (publish ch (pubsub s)))"
    unfolding publish_def by (intro publish_patterns_distinct push_receivers_distinct) simp
  note d = deliver_exact [OF assms(1) this, of fp ch msg j]
  have s': "s' = deliver fp ch msg (publish ch (pubsub s)) s" "r = Integer (of_nat (length (publish ch (pubsub s))))"
    using assms(2) by (simp_all add: handle_publish_def Let_def)
  have "queued (fst (send_frame fp f c)) = queued c @ fst (serialize_resp_frame fp f []) \<and> state (fst (send_frame fp f c)) = state c" for f
    using send_frame_queues(2) [OF assms(4), of fp f] by (cases "send_frame fp f c") (auto simp: send_frame_def split: prod.splits)
  then show ?thesis using d s' assms(3) by (simp add: gets_def split: option.split)
qed

theorem publish_delivers_witness:
  "\<exists>s' c'. handle_publish (\<lambda>x. ''0'') [BulkString (Some ''PUBLISH''), BulkString (Some ''news''), BulkString (Some ''hi'')]
      ((sample_server (new_connection 1 (''h'', 1) 0 []) (with_config 1 unlimited))\<lparr>pubsub := fst (subscribe 1 [''news''] new_pubsub)\<rparr>) = (s', Integer 1) \<and>
    client s' 1 = Some c' \<and> queued c' = fst (serialize_resp_frame (\<lambda>x. ''0'') (format_message ''news'' ''hi'') [])"
proof -
  let ?s = "(sample_server (new_connection 1 (''h'', 1) 0 []) (with_config 1 unlimited))\<lparr>pubsub := fst (subscribe 1 [''news''] new_pubsub)\<rparr>"
  have p: "publish ''news'' (pubsub ?s) = [(1, None)]" by (simp, code_simp)
  obtain s' r where h: "handle_publish (\<lambda>x. ''0'') [BulkString (Some ''PUBLISH''), BulkString (Some ''news''), BulkString (Some ''hi'')] ?s = (s', r)"
    by (metis prod.exhaust)
  have s: "clients_ok ?s" "client ?s 1 = Some (new_connection 1 (''h'', 1) 0 [])" by simp_all
  from publish_delivers [OF s(1) h s(2) new_connection_ok(1)] h show ?thesis unfolding p by (auto simp: message_for_def)
qed

end
