(* ===== verification/Aof_Correct.thy ===== *)
theory Aof_Correct
  imports Aof Conn
begin

text \<open>
  What the append-only file guarantees: the log and the buffer together hold the serialized commands in the
  order of the appends, whatever the file system answers; and what loading does with such a log.
\<close>

section \<open>Appending\<close>

definition log_bytes :: "(f64 \<Rightarrow> string) \<Rightarrow> resp_frame list \<Rightarrow> bytes" where
  "log_bytes fp command = fst (serialize_resp_frame fp (Array (Some command)) [])"

definition serializable :: "(f64 \<Rightarrow> string) \<Rightarrow> resp_frame list \<Rightarrow> bool" where
  "serializable fp command \<longleftrightarrow> snd (serialize_resp_frame fp (Array (Some command)) []) = Ok ()"

lemma serialize_log:
  "serializable fp command \<Longrightarrow> serialize_resp_frame fp (Array (Some command)) w = (w @ log_bytes fp command, Ok ())"
  using serialize_appends(1) [of fp "Array (Some command)" w "[]"]
  by (simp add: log_bytes_def serializable_def prod_eq_iff del: serialize_resp_frame.simps)

definition keeps_rest :: "append_answers \<Rightarrow> bool" where
  "keeps_rest ans \<longleftrightarrow> (case short_write ans of Some (n, k, msg) \<Rightarrow> k = None | None \<Rightarrow> True)"

definition answers_ok :: "append_answers \<Rightarrow> bool" where
  "answers_ok ans \<longleftrightarrow> short_write ans = None \<and> sync_error ans = None"

text \<open>An open log: the path names the file of the writer, and its durable part is a prefix of it.\<close>

definition log_open :: "aof_state \<Rightarrow> log_writer \<Rightarrow> bool" where
  "log_open s w \<longleftrightarrow> enabled (settings (snd s)) \<and> writer (snd s) = Some w \<and> linked w \<and>
     fst s (log_path (snd s)) = Some (log_file w) \<and> (\<exists>r. log_file w = durable w @ r)"

lemma apply_policy_open:
  assumes "log_open s w"
  shows "\<exists>w'. log_open (fst (apply_policy ans s)) w' \<and> log_file w' = log_file w \<and> unwritten w' = unwritten w \<and>
    settings (snd (fst (apply_policy ans s))) = settings (snd s) \<and> log_path (snd (fst (apply_policy ans s))) = log_path (snd s) \<and>
    (sync_error ans = None \<longrightarrow> snd (apply_policy ans s) = Ok () \<and>
      (fsync_policy (settings (snd s)) = Always \<longrightarrow> durable w' = log_file w))"
  using assms
  by (cases s) (auto simp: apply_policy_def sync_all_def log_open_def and_then_def split: fsync_policy.split option.split)

lemma aof_append_open:
  assumes "log_open s w" "serializable fp command" "keeps_rest ans"
  shows "\<exists>w'. log_open (fst (aof_append fp ans command s)) w' \<and>
    log_file w' @ unwritten w' = log_file w @ unwritten w @ log_bytes fp command \<and>
    settings (snd (fst (aof_append fp ans command s))) = settings (snd s) \<and>
    log_path (snd (fst (aof_append fp ans command s))) = log_path (snd s) \<and>
    (answers_ok ans \<longrightarrow> snd (aof_append fp ans command s) = Ok () \<and> unwritten w' = [] \<and>
      (fsync_policy (settings (snd s)) = Always \<longrightarrow> durable w' = log_file w'))"
proof -
  let ?p = "unwritten w @ log_bytes fp command"
  have append: "aof_append fp ans command s = and_then (flush_log ans ?p w s) (\<lambda>s _. apply_policy ans s)"
    using assms(1,2) by (simp add: aof_append_def log_open_def serialize_log del: serialize_resp_frame.simps)
  have put: "\<exists>w'. log_open (put_log bs r w s) w' \<and> log_file w' = log_file w @ bs \<and> unwritten w' = r \<and>
      settings (snd (put_log bs r w s)) = settings (snd s) \<and> log_path (snd (put_log bs r w s)) = log_path (snd s)" for bs r
    using assms(1) by (cases s) (auto simp: put_log_def log_open_def)
  show ?thesis
  proof (cases "short_write ans")
    case None
    from put [of ?p "[]"] obtain w' where w': "log_open (put_log ?p [] w s) w'" "log_file w' = log_file w @ ?p" "unwritten w' = []"
      "settings (snd (put_log ?p [] w s)) = settings (snd s)" "log_path (snd (put_log ?p [] w s)) = log_path (snd s)" by blast
    with apply_policy_open [OF w'(1), of ans] None show ?thesis
      by (force simp: append flush_log_def answers_ok_def)
  next
    case (Some f)
    then obtain n msg where f: "short_write ans = Some (n, None, msg)" using assms(3) by (cases f) (auto simp: keeps_rest_def)
    define p where "p = ?p"
    from put [of "take n p" "drop n p"] obtain w' where "log_open (put_log (take n p) (drop n p) w s) w'"
      "log_file w' = log_file w @ take n p" "unwritten w' = drop n p" "settings (snd (put_log (take n p) (drop n p) w s)) = settings (snd s)"
      "log_path (snd (put_log (take n p) (drop n p) w s)) = log_path (snd s)" by blast
    then show ?thesis using append
      by (intro exI [of _ w']) (simp add: flush_log_def answers_ok_def f flip: p_def)
  qed
qed

definition run_appends :: "(f64 \<Rightarrow> string) \<Rightarrow> (append_answers \<times> resp_frame list) list \<Rightarrow> aof_state \<Rightarrow> aof_state" where
  "run_appends fp = fold (\<lambda>(ans, command) s. fst (aof_append fp ans command s))"

lemma run_appends_open:
  assumes "log_open s w" "\<forall>(ans, command) \<in> set calls. serializable fp command \<and> keeps_rest ans"
  shows "\<exists>w'. log_open (run_appends fp calls s) w' \<and> settings (snd (run_appends fp calls s)) = settings (snd s) \<and>
    log_path (snd (run_appends fp calls s)) = log_path (snd s) \<and>
    log_file w' @ unwritten w' = log_file w @ unwritten w @ concat (map (\<lambda>(ans, command). log_bytes fp command) calls) \<and>
    (calls \<noteq> [] \<longrightarrow> answers_ok (fst (last calls)) \<longrightarrow>
      unwritten w' = [] \<and> (fsync_policy (settings (snd s)) = Always \<longrightarrow> durable w' = log_file w'))"
  using assms
proof (induction calls arbitrary: s w)
  case (Cons c calls)
  obtain ans command where c: "c = (ans, command)" by (cases c)
  let ?s = "fst (aof_append fp ans command s)"
  from aof_append_open [of s w fp command ans] Cons.prems c
  obtain w1 where w1: "log_open ?s w1" "log_file w1 @ unwritten w1 = log_file w @ unwritten w @ log_bytes fp command"
    "settings (snd ?s) = settings (snd s)" "log_path (snd ?s) = log_path (snd s)"
    "answers_ok ans \<longrightarrow> unwritten w1 = [] \<and> (fsync_policy (settings (snd s)) = Always \<longrightarrow> durable w1 = log_file w1)" by auto
  have rest: "\<forall>(ans, command) \<in> set calls. serializable fp command \<and> keeps_rest ans" using Cons.prems by simp
  from Cons.IH [OF w1(1) rest] w1 show ?case
    by (cases "calls = []") (auto simp: c run_appends_def)
qed (auto simp: run_appends_def)


definition sample_log :: log_writer where
  "sample_log = \<lparr>unwritten = [], log_file = [], linked = True, durable = []\<rparr>"

definition sample_aof :: aof_engine where
  "sample_aof = (new_aof_engine (default_aof_config\<lparr>enabled := True, fsync_policy := Always\<rparr>) 0)\<lparr>writer := Some sample_log\<rparr>"

definition cut_answers :: append_answers where
  "cut_answers = \<lparr>short_write = Some (3, None, ''full''), sync_error = None, elapsed_at = 0, synced_at = 0\<rparr>"

definition good_answers :: append_answers where
  "good_answers = \<lparr>short_write = None, sync_error = None, elapsed_at = 0, synced_at = 0\<rparr>"


section \<open>Loading\<close>

lemma replay_command_nothing: "replay_command parts e = (e, Ok ())"
  by (simp add: replay_command_def split: option.split)

lemma replay_parsed_store: "snd (fst (replay_parsed fq s)) = snd s"
proof (induction fq s rule: replay_parsed.induct)
  case (1 fq s)
  show ?case
    by (subst replay_parsed.simps)
      (use 1 in \<open>force simp: replay_command_nothing split: prod.splits result.splits option.splits resp_frame.splits list.splits\<close>)
qed

lemma replay_lines_store: "snd (fst (replay_lines fq lines s)) = snd s"
proof (induction lines arbitrary: s)
  case (Cons line lines)
  then show ?case
    using replay_parsed_store [of fq "(feed [LF] (feed line (fst s)), snd s)"]
    by (auto simp: and_then_def split: result.split)
qed simp

lemma find_crlf_array_header: "CR \<notin> set r \<Longrightarrow> parse_frame fq (CHR ''*'' # r) = Ok None"
  by (simp add: parse_frame.simps parse_array.simps parse_number_line_def parse_line_def find_crlf_no_CR)

lemma replay_stuck:
  assumes "CR \<notin> set r"
  shows "replay_parsed fq (\<lparr>buffer = CHR ''*'' # r, position = 0\<rparr>, e) = ((\<lparr>buffer = CHR ''*'' # r, position = 0\<rparr>, e), Ok ())"
proof -
  have "skip_bytes leading_space (CHR ''*'' # r) 0 = 0" by (subst skip_bytes.simps) (simp add: leading_space_def)
  then have "parse fq \<lparr>buffer = CHR ''*'' # r, position = 0\<rparr> = (\<lparr>buffer = CHR ''*'' # r, position = 0\<rparr>, Ok None)"
    using assms by (simp add: parse_def find_crlf_array_header)
  then show ?thesis by (subst replay_parsed.simps) simp
qed

definition unlines :: "bytes list \<Rightarrow> bytes" where
  "unlines ls = concat (map (\<lambda>l. l @ [LF]) ls)"

lemma unlines_simps [simp]: "unlines [] = []" "unlines (l # ls) = l @ LF # unlines ls"
  by (simp_all add: unlines_def)

lemma replay_lines_stuck:
  assumes "CR \<notin> set (b @ unlines ls)" "take 1 (b @ unlines ls) = ''*'' \<or> ls = []" "\<forall>l \<in> set ls. utf8_valid l"
  shows "replay_lines fq ls (\<lparr>buffer = b, position = 0\<rparr>, e) = ((\<lparr>buffer = b @ unlines ls, position = 0\<rparr>, e), Ok ())"
  using assms
proof (induction ls arbitrary: b)
  case (Cons l ls)
  then obtain r where r: "b @ l @ [LF] = CHR ''*'' # r" by (cases b; cases l) auto
  then have "CR \<notin> set r" using Cons.prems(1) by (metis Un_iff append.assoc append_Cons append_Nil list.set_intros(2) set_append unlines_simps(2))
  from replay_stuck [OF this] have "replay_parsed fq (\<lparr>buffer = b @ l @ [LF], position = 0\<rparr>, e) = ((\<lparr>buffer = b @ l @ [LF], position = 0\<rparr>, e), Ok ())"
    by (simp add: r)
  moreover have "b @ l @ LF # unlines ls = CHR ''*'' # r @ unlines ls" using r by (metis append.assoc append_Cons append_Nil)
  ultimately show ?case using Cons.IH [of "b @ l @ [LF]"] Cons.prems \<open>CR \<notin> set r\<close> by (simp add: feed_def r)
qed simp

lemma split_lines_piece:
  assumes "CR \<notin> set u"
  shows "unlines (split_lines (u @ CR # LF # r)) = u @ LF # unlines (split_lines r)"
  using assms
proof (induction u rule: length_induct)
  case (1 u)
  show ?case
  proof (cases "LF \<in> set u")
    case True
    then obtain x y where u: "u = x @ LF # y" "LF \<notin> set x" by (meson split_list_first)
    then have "CR \<notin> set x" using 1(2) by simp
    then have "strip_cr x = x" by (metis last_in_set strip_cr_def)
    moreover have "takeWhile (\<lambda>c. c \<noteq> LF) (u @ CR # LF # r) = x" "dropWhile (\<lambda>c. c \<noteq> LF) (u @ CR # LF # r) = LF # y @ CR # LF # r"
      using u by (auto simp: takeWhile_append dropWhile_append)
    ultimately show ?thesis using 1 u by (subst split_lines.simps) auto
  next
    case False
    then have "takeWhile (\<lambda>c. c \<noteq> LF) (u @ CR # LF # r) = u @ [CR]" "dropWhile (\<lambda>c. c \<noteq> LF) (u @ CR # LF # r) = LF # r"
      by (auto simp: takeWhile_append dropWhile_append)
    then show ?thesis by (subst split_lines.simps) (simp add: strip_cr_def)
  qed
qed

lemma split_lines_pieces:
  "\<forall>u \<in> set us. CR \<notin> set u \<Longrightarrow> unlines (split_lines (concat (map (\<lambda>u. u @ [CR, LF]) us) @ r)) = concat (map (\<lambda>u. u @ [LF]) us) @ unlines (split_lines r)"
  by (induction us) (simp_all add: split_lines_piece)

lemma pieces_without_cr:
  "\<forall>u \<in> set us. CR \<notin> set u \<Longrightarrow> filter (\<lambda>c. c \<noteq> CR) (concat (map (\<lambda>u. u @ [CR, LF]) us)) = concat (map (\<lambda>u. u @ [LF]) us)"
  by (induction us) (auto simp: filter_id_conv)

lemma split_lines_Nil [simp]: "split_lines [] = []"
  by (simp add: split_lines.simps)

text \<open>The pieces between the line ends of a logged command of plain arguments.\<close>

definition plain :: "bytes list \<Rightarrow> resp_frame list" where
  "plain bs = map (\<lambda>b. BulkString (Some b)) bs"

definition log_pieces :: "bytes list \<Rightarrow> bytes list" where
  "log_pieces bs = (CHR ''*'' # nat_to_string (length bs)) # concat (map (\<lambda>b. [CHR ''$'' # nat_to_string (length b), b]) bs)"

lemma serialize_plain:
  "serialize_frames fp (plain bs) w = (w @ concat (map (\<lambda>u. u @ [CR, LF]) (concat (map (\<lambda>b. [CHR ''$'' # nat_to_string (length b), b]) bs))), Ok ())"
  by (induction bs arbitrary: w) (simp_all add: plain_def)

lemma log_plain:
  "serializable fp (plain bs)" "log_bytes fp (plain bs) = concat (map (\<lambda>u. u @ [CR, LF]) (log_pieces bs))"
proof -
  have "length (plain bs) = length bs" by (simp add: plain_def)
  then show "serializable fp (plain bs)" "log_bytes fp (plain bs) = concat (map (\<lambda>u. u @ [CR, LF]) (log_pieces bs))"
    by (simp_all add: serializable_def log_bytes_def serialize_plain log_pieces_def)
qed

lemma log_of_pieces:
  "concat (map (\<lambda>bs. log_bytes fp (plain bs)) commands) = concat (map (\<lambda>u. u @ [CR, LF]) (concat (map log_pieces commands)))"
  by (induction commands) (simp_all add: log_plain)

lemma log_pieces_ascii:
  assumes "\<forall>b \<in> set bs. is_ascii b \<and> CR \<notin> set b" "u \<in> set (log_pieces bs)"
  shows "is_ascii u \<and> CR \<notin> set u"
proof -
  have "CR \<notin> set (nat_to_string n)" for n using nat_to_string_digits [of n] not_digit(3) by blast
  then show ?thesis using assms nat_to_string_ascii by (auto simp: log_pieces_def is_ascii_def)
qed

text \<open>
  C14: a log of commands with plain arguments is read in vain.  The reader of lines drops the carriage returns,
  so the parser never sees the end of the first header: loading answers \<^verbatim>\<open>Ok\<close>, changes nothing, and the
  parser is left with the whole log, less its carriage returns, unread.
\<close>

theorem aof_load_inert:
  assumes "\<forall>bs \<in> set commands. \<forall>b \<in> set bs. is_ascii b \<and> CR \<notin> set b"
    "d (log_path a) = Some (concat (map (\<lambda>bs. log_bytes fp (plain bs)) commands))"
  shows "load_log fq d a e = (e, Ok ()) \<and>
    (\<exists>p. replay_lines fq (split_lines (concat (map (\<lambda>bs. log_bytes fp (plain bs)) commands))) (new_parser, e) = ((p, e), Ok ()) \<and>
      unread p = filter (\<lambda>c. c \<noteq> CR) (concat (map (\<lambda>bs. log_bytes fp (plain bs)) commands)))"
proof -
  define us where "us = concat (map log_pieces commands)"
  have us: "is_ascii u \<and> CR \<notin> set u" if "u \<in> set us" for u
  proof -
    from that obtain bs where "bs \<in> set commands" "u \<in> set (log_pieces bs)" unfolding us_def set_concat set_map by blast
    then show ?thesis using assms(1) log_pieces_ascii by blast
  qed
  have log: "concat (map (\<lambda>bs. log_bytes fp (plain bs)) commands) = concat (map (\<lambda>u. u @ [CR, LF]) us)" (is "?log = _")
    unfolding us_def by (rule log_of_pieces)
  have fed: "unlines (split_lines ?log) = concat (map (\<lambda>u. u @ [LF]) us)"
    using split_lines_pieces [of us "[]"] us by (simp add: log)
  have "filter (\<lambda>c. c \<noteq> CR) ?log = concat (map (\<lambda>u. u @ [LF]) us)"
    unfolding log using pieces_without_cr us by simp
  moreover have "CR \<notin> set (unlines (split_lines ?log))" unfolding fed using us by auto
  moreover have "take 1 (unlines (split_lines ?log)) = ''*'' \<or> split_lines ?log = []"
    unfolding fed us_def by (cases commands) (simp_all add: log_pieces_def)
  moreover have "utf8_valid l" if "l \<in> set (split_lines ?log)" for l
  proof (rule utf8_valid_ascii)
    have "set l \<subseteq> set (unlines (split_lines ?log))" using that by (auto simp: unlines_def)
    moreover have "(of_char c :: nat) < 128" if "c \<in> set (concat (map (\<lambda>u. u @ [LF]) us))" for c
      using that us by (auto simp: is_ascii_def split: if_splits)
    ultimately show "is_ascii l" unfolding fed is_ascii_def by blast
  qed
  ultimately have "replay_lines fq (split_lines ?log) (new_parser, e) = ((\<lparr>buffer = filter (\<lambda>c. c \<noteq> CR) ?log, position = 0\<rparr>, e), Ok ())"
    using replay_lines_stuck [of "[]" "split_lines ?log" fq e] fed by (simp add: new_parser_def)
  then show ?thesis using assms(2) by (simp add: load_log_def unread_def)
qed

theorem aof_load_inert_witness:
  "load_log (\<lambda>x. None) (\<lambda>x. Some (log_bytes (\<lambda>x. []) (plain [''SET'', ''k'', ''v''])))
     (new_aof_engine default_aof_config 0) (7 :: nat) = (7, Ok ())"
  using aof_load_inert [of "[[''SET'', ''k'', ''v'']]" "\<lambda>x. Some (log_bytes (\<lambda>x. []) (plain [''SET'', ''k'', ''v'']))"
      "new_aof_engine default_aof_config 0" "\<lambda>x. []" "\<lambda>x. None" "7 :: nat"]
  by (simp add: is_ascii_def)

end
