(* ===== verification/Dispatch_Correct.thy ===== *)
theory Dispatch_Correct
  imports Dispatch Server_Correct Aof_Correct
begin

text \<open>
  What every command guarantees at the level of the server: the type of its reply, the invariant of the storage
  engine, which commands only read, and what reaches the append-only file, the change counter and the
  replicas.
\<close>

section \<open>The contract of the table\<close>

definition reply_kinds :: "string \<Rightarrow> reply_kind set" where
  "reply_kinds n =
     (if n = ''ECHO'' then UNIV
      else if n = ''SET'' then {Simple_Reply, Bulk_Reply}
      else if n \<in> set [''SPOP'', ''SRANDMEMBER''] then {Bulk_Reply, Array_Reply}
      else if n \<in> set [''ZRANK'', ''ZREVRANK''] then {Integer_Reply, Bulk_Reply}
      else if n = ''XGROUP'' then {Simple_Reply, Integer_Reply, Array_Reply}
      else if n \<in> set [''MSET'', ''SETEX'', ''PSETEX'', ''RENAME'', ''FLUSHDB'', ''FLUSHALL'', ''TYPE'', ''LSET'', ''LTRIM'', ''HMSET'']
      then {Simple_Reply}
      else if n \<in> set [''GET'', ''GETSET'', ''GETRANGE'', ''RANDOMKEY'', ''LPOP'', ''RPOP'', ''LINDEX'', ''HGET'', ''ZSCORE'', ''ZINCRBY'', ''XADD'']
      then {Bulk_Reply}
      else if n \<in> set [''MGET'', ''KEYS'', ''LRANGE'', ''SMEMBERS'', ''SUNION'', ''SINTER'', ''SDIFF'', ''HMGET'', ''HGETALL'', ''HKEYS'', ''HVALS'',
          ''ZRANGE'', ''ZREVRANGE'', ''ZRANGEBYSCORE'', ''ZREVRANGEBYSCORE'', ''ZPOPMIN'', ''ZPOPMAX'', ''XRANGE'', ''XREVRANGE'', ''XREAD'',
          ''XREADGROUP'', ''XCLAIM'', ''XPENDING'', ''XINFO'', ''SCAN'', ''HSCAN'', ''SSCAN'', ''ZSCAN'']
      then {Array_Reply}
      else {Integer_Reply})"

text \<open>The commands that change data and are not in the list of write commands.\<close>

definition unlisted_writes :: "string list" where
  "unlisted_writes = [''HMSET'', ''GETSET'', ''PEXPIRE'', ''XREADGROUP'']"

definition reads_only :: "string \<Rightarrow> bool" where
  "reads_only n \<longleftrightarrow> n \<notin> set (write_commands @ unlisted_writes)"

definition row_ok :: "string \<times> handler \<Rightarrow> bool" where
  "row_ok row \<longleftrightarrow> (case row of (n, h) \<Rightarrow> \<forall>env db parts. proper_scores env parts \<longrightarrow>
     (n \<noteq> ''FLUSHALL'' \<longrightarrow> obeys (same_outside db) (reply_kinds n) (h env db parts)) \<and>
     (n = ''FLUSHALL'' \<longrightarrow> obeys any_database (reply_kinds n) (h env db parts)) \<and>
     (reads_only n \<longrightarrow> obeys (only_expires (range (clock env)) db) (reply_kinds n) (h env db parts)))"

lemma row_writer:
  assumes "\<And>env db parts. proper_scores env parts \<Longrightarrow> obeys (same_outside db) (reply_kinds n) (h env db parts)" "\<not> reads_only n" "n \<noteq> ''FLUSHALL''"
  shows "row_ok (n, h)"
  using assms by (simp add: row_ok_def)

lemma row_reader:
  assumes "\<And>env db parts. obeys (only_expires (range (clock env)) db) (reply_kinds n) (h env db parts)" "n \<noteq> ''FLUSHALL''"
  shows "row_ok (n, h)"
  using assms reading_is_writing [OF assms(1)] by (simp add: row_ok_def)

lemma handle_echo_obeys: "obeys (only_expires T db) UNIV (handle_echo parts)"
  unfolding handle_echo_def by (intro contract_rules; simp)

lemmas row_defs = reply_kinds_def reads_only_def write_commands_def unlisted_writes_def

lemma string_rows: "list_all row_ok string_commands"
  unfolding string_commands_def list.pred_inject(2)
  by (intro conjI list.pred_inject(1); (rule row_reader; simp add: row_defs string_contracts handle_echo_obeys; fail | rule row_writer; simp add: row_defs string_contracts; fail
    | simp add: row_ok_def row_defs string_contracts))

lemma collection_rows: "list_all row_ok collection_commands"
  unfolding collection_commands_def list.pred_inject(2)
  by (intro conjI list.pred_inject(1); (rule row_reader; simp add: row_defs collection_contracts; fail | rule row_writer; simp add: row_defs collection_contracts))

lemma sorted_rows: "list_all row_ok sorted_commands"
  unfolding sorted_commands_def list.pred_inject(2)
  by (intro conjI list.pred_inject(1); (rule row_reader; simp add: row_defs sorted_contracts; fail | rule row_writer; simp add: row_defs sorted_contracts))

lemma stream_rows: "list_all row_ok stream_commands"
  unfolding stream_commands_def list.pred_inject(2)
  by (intro conjI list.pred_inject(1); (rule row_reader; simp add: row_defs stream_contracts sorted_contracts; fail | rule row_writer; simp add: row_defs stream_contracts))

lemma row_effects:
  assumes "(n, h) \<in> set storage_commands" "proper_scores env parts" "engine_ok e"
  shows "n \<noteq> ''FLUSHALL'' \<Longrightarrow> same_outside db e (fst (h env db parts e))"
    and "any_database e (fst (h env db parts e))"
    and "reads_only n \<Longrightarrow> only_expires (range (clock env)) db e (fst (h env db parts e))"
    and "snd (h env db parts e) = Ok r \<Longrightarrow> is_error r \<or> kind_of r \<in> reply_kinds n"
proof -
  have row: "row_ok (n, h)"
    using assms(1) string_rows collection_rows sorted_rows stream_rows by (auto simp: storage_commands_def list_all_iff)
  show same: "n \<noteq> ''FLUSHALL'' \<Longrightarrow> same_outside db e (fst (h env db parts e))"
    using row assms(2,3) by (simp add: row_ok_def obeys_def within_def)
  show "any_database e (fst (h env db parts e))"
  proof (cases "n = ''FLUSHALL''")
    case False
    then show ?thesis using same by (simp add: same_outside_def any_database_def)
  qed (use row assms(2,3) in \<open>simp add: row_ok_def obeys_def within_def\<close>)
  show "reads_only n \<Longrightarrow> only_expires (range (clock env)) db e (fst (h env db parts e))"
    using row assms(2,3) by (simp add: row_ok_def obeys_def within_def)
  show "snd (h env db parts e) = Ok r \<Longrightarrow> is_error r \<or> kind_of r \<in> reply_kinds n"
    using row assms(2,3) by (cases "n = ''FLUSHALL''") (auto simp: row_ok_def obeys_def)
qed

section \<open>The execution of a table command\<close>

lemma ascii_eq [simp]: "ascii m = ascii n \<longleftrightarrow> m = n"
  by (simp add: inj_map_eq_map inj_def)

lemma is_write_ascii [simp]: "is_write_command (ascii n) \<longleftrightarrow> n \<in> set write_commands"
  by (auto simp: is_write_command_def)

lemma storage_commands_distinct: "distinct (map fst storage_commands)"
  unfolding storage_commands_def string_commands_def collection_commands_def sorted_commands_def stream_commands_def
  by simp

lemma storage_command_found:
  assumes "(n, h) \<in> set storage_commands"
  shows "map_of (map (\<lambda>(n, h). (ascii n, h)) storage_commands) (ascii n) = Some h"
proof (rule map_of_is_SomeI)
  have "map fst (map (\<lambda>(n, h). (ascii n, h)) storage_commands) = map ascii (map fst storage_commands)" by auto
  then show "distinct (map fst (map (\<lambda>(n, h). (ascii n, h)) storage_commands))"
    using storage_commands_distinct by (metis distinct_map inj_on_def ascii_eq)
qed (use assms in auto)

definition requests :: "string \<Rightarrow> resp_frame list \<Rightarrow> bool" where
  "requests n parts \<longleftrightarrow> (\<exists>name args. parts = BulkString (Some name) # args \<and> to_uppercase (from_utf8_lossy name) = ascii n)"

lemma log_command_frame [simp]:
  "storage (log_command env c parts s) = storage s" "clients (log_command env c parts s) = clients s"
  "replication (log_command env c parts s) = replication s" "blocking (log_command env c parts s) = blocking s"
  "storage_monitor (log_command env c parts s) = storage_monitor s" "pubsub (log_command env c parts s) = pubsub s"
  by (simp_all add: log_command_def Let_def split: option.split prod.split)

lemma log_command_read: "\<not> is_write_command c \<Longrightarrow> log_command env c parts s = s"
  by (simp add: log_command_def split: option.split)

definition after_push :: "string \<Rightarrow> nat \<Rightarrow> resp_frame list \<Rightarrow> resp_frame result \<Rightarrow> server \<Rightarrow> server" where
  "after_push n db parts r s = (if n = ''LPUSH'' \<or> n = ''RPUSH'' then notify_pushed db parts r s else s)"

lemma process_storage_command:
  assumes "requests n parts" "(n, h) \<in> set storage_commands"
  shows "process_normal_command other envs parts db i s =
    (let env = envs (executed s); (e, r) = h (handler_env env) db parts (storage s);
         s' = after_push n db parts r (log_command env (ascii n) parts (s\<lparr>executed := executed s + 1\<rparr>)\<lparr>storage := e\<rparr>)
     in (if n \<in> set write_commands \<and> succeeded r then propagate env parts (record_change s') else s', r))"
proof -
  from assms(1) obtain name args where p: "parts = BulkString (Some name) # args" and c: "to_uppercase (from_utf8_lossy name) = ascii n"
    by (auto simp: requests_def)
  have "route_command other env name parts db i s1 =
      (case h (handler_env env) db parts (storage s1) of (e, r) \<Rightarrow> (after_push n db parts r (s1\<lparr>storage := e\<rparr>), r))" for env s1
    unfolding route_command_def Let_def c storage_command_found [OF assms(2)] option.case run_handler_def after_push_def ascii_eq
    by (simp split: prod.split)
  then show ?thesis
    by (simp add: process_normal_command_def p c Let_def split: prod.split)
qed

lemma after_push_frame [simp]:
  "storage (after_push n db parts r s) = storage s" "clients (after_push n db parts r s) = clients s"
  "replication (after_push n db parts r s) = replication s" "storage_monitor (after_push n db parts r s) = storage_monitor s"
  "files (after_push n db parts r s) = files s" "aof_state (after_push n db parts r s) = aof_state s"
  by (simp_all add: after_push_def notify_pushed_def split: result.split resp_frame.split option.split)

lemma sends_frame [simp]:
  "storage (fold (\<lambda>i s. fst (with_client i (f i) s)) is s) = storage s" "storage_monitor (fold (\<lambda>i s. fst (with_client i (f i) s)) is s) = storage_monitor s"
  "files (fold (\<lambda>i s. fst (with_client i (f i) s)) is s) = files s" "aof_state (fold (\<lambda>i s. fst (with_client i (f i) s)) is s) = aof_state s"
  "replication (fold (\<lambda>i s. fst (with_client i (f i) s)) is s) = replication s"
  by (induction "is" arbitrary: s) (simp_all add: with_client_def Let_def split: prod.split)

lemma propagate_frame [simp]:
  "storage (propagate env parts s) = storage s" "files (propagate env parts s) = files s" "aof_state (propagate env parts s) = aof_state s"
  "storage_monitor (propagate env parts s) = storage_monitor s"
  by (simp_all add: propagate_def split: prod.split result.split)

lemma record_change_frame [simp]:
  "storage (record_change s) = storage s" "files (record_change s) = files s" "aof_state (record_change s) = aof_state s"
  "replication (record_change s) = replication s" "clients (record_change s) = clients s"
  by (simp_all add: record_change_def)

lemma process_storage_result:
  assumes "requests n parts" "(n, h) \<in> set storage_commands" "process_normal_command other envs parts db i s = (s', r)"
  shows "(storage s', r) = h (handler_env (envs (executed s))) db parts (storage s)"
  using assms(3) by (auto simp: process_storage_command [OF assms(1,2)] Let_def split: prod.splits)

section \<open>A sample environment\<close>

definition sample_env :: command_env where
  "sample_env = \<lparr>clock = (\<lambda>i. 5), draw_level = (\<lambda>i. 0), add_f64 = (\<lambda>x y. x), read_f64 = (\<lambda>b. None), show_f64 = (\<lambda>x. ''0''),
     shuffle = (\<lambda>bs. bs), pick = (\<lambda>n bs. hd bs), random_usize = 0, key_clock = (\<lambda>k. 5), wall_clock = (\<lambda>i. 0), show_upper = (\<lambda>b. b),
     stream_ms = 0, cas_ok = True, cas_retry_ok = True\<rparr>"

definition sample_envs :: "nat \<Rightarrow> server_env" where
  "sample_envs n = \<lparr>handler_env = sample_env, append_io = good_answers, save_io = \<lparr>open_error = None, file_capacity = None, write_error = [], rename_error = None\<rparr>,
     snapshot_clock = \<lparr>get_at = (\<lambda>db k. 5), ttl_at = (\<lambda>db k. 5), wall_ms_at = (\<lambda>db k. 0), started_secs = 0\<rparr>, snapshot_wall = (\<lambda>db k. 0),
     wall_now = 0, now_ns = 5, resolver = (\<lambda>h. None), id_source = []\<rparr>"

definition no_other :: other_commands where
  "no_other env command parts db i s = (s, Panic)"

definition sample :: server where
  "sample = sample_server (new_connection 1 (''h'', 1) 0 []) (with_config 1 unlimited)"

lemma sample_simps [simp]:
  "engine_ok (storage sample)" "handler_env (sample_envs n) = sample_env" "proper_scores sample_env parts" "executed sample = 0"
  "storage sample = with_config 1 unlimited" "clients_ok sample"
  by (simp_all add: sample_def sample_server_def with_config_ok sample_envs_def sample_env_def proper_scores_def MAX_LEVEL_def
      clients_ok_def insert_connection_def new_sharded_def conn_shard_def CONNECTION_SHARDS_def)

lemma sample_names: "to_uppercase (from_utf8_lossy ''dbsize'') = ascii ''DBSIZE''" "to_uppercase (from_utf8_lossy ''FLUSHDB'') = ascii ''FLUSHDB''"
  by (simp_all add: to_uppercase_def from_utf8_lossy_ascii is_ascii_def)

lemma sample_requests: "requests ''DBSIZE'' [BulkString (Some ''dbsize'')]" "requests ''FLUSHDB'' [BulkString (Some ''FLUSHDB'')]"
  unfolding requests_def using sample_names by blast+

lemma sample_table: "''DBSIZE'' \<in> fst ` set storage_commands" "''FLUSHDB'' \<in> fst ` set storage_commands" "(''DBSIZE'', handle_dbsize) \<in> set storage_commands"
    "(''FLUSHDB'', handle_flushdb) \<in> set storage_commands"
  by (simp_all add: storage_commands_def string_commands_def)

lemma sample_dbsize: "snd (handle_dbsize sample_env 0 [BulkString (Some ''dbsize'')] (with_config 1 unlimited)) = Ok (Integer 0)"
  by (simp add: handle_dbsize_def query_def reply_def reply_via_def count_frame_def with_config_def new_database_def new_shard_def
      get_all_keys_def)

section \<open>Properties\<close>

text \<open>
  C11: the reply of every command of the table is an error or of one of the types declared for the command.
\<close>

theorem command_reply_type:
  assumes "requests n parts" "n \<in> fst ` set storage_commands" "engine_ok (storage s)"
    "proper_scores (handler_env (envs (executed s))) parts" "process_normal_command other envs parts db i s = (s', Ok r)"
  shows "is_error r \<or> kind_of r \<in> reply_kinds n"
proof -
  from assms(2) obtain h where h: "(n, h) \<in> set storage_commands" by auto
  have "snd (h (handler_env (envs (executed s))) db parts (storage s)) = Ok r"
    using process_storage_result [OF assms(1) h assms(5)] by (metis snd_conv)
  then show ?thesis by (rule row_effects(4) [OF h assms(4,3)])
qed

theorem command_reply_type_witness:
  "snd (process_normal_command no_other sample_envs [BulkString (Some ''dbsize'')] 0 1 sample) = Ok (Integer 0) \<and> kind_of (Integer 0) \<in> reply_kinds ''DBSIZE''"
proof -
  let ?p = "process_normal_command no_other sample_envs [BulkString (Some ''dbsize'')] 0 1 sample"
  have r: "snd ?p = Ok (Integer 0)"
    using process_storage_result [OF sample_requests(1) sample_table(3), of no_other sample_envs 0 1 sample "fst ?p" "snd ?p"] sample_dbsize
    by (metis prod.collapse sample_simps(2,5) snd_conv)
  then have "?p = (fst ?p, Ok (Integer 0))" by (metis prod.collapse)
  from command_reply_type [OF sample_requests(1) sample_table(1) sample_simps(1) _ this] r show ?thesis by (simp add: is_error_def)
qed





section \<open>Write commands\<close>

lemma sends_clients:
  assumes "clients_ok s" "distinct is"
  shows "client (fold (\<lambda>i s. fst (with_client i f s)) is s) j =
    (if j \<in> set is then map_option (\<lambda>c. fst (f c)) (client s j) else client s j)"
  using assms
proof (induction "is" arbitrary: s)
  case (Cons i "is")
  then show ?case using with_client_client [OF Cons.prems(1), of i f] by auto
qed simp

lemma propagates:
  assumes "is_master m" "serializable fp parts"
  shows "\<exists>m'. propagate_command fp (Array (Some parts)) m = (m', Ok (map fst (replicas m)))"
  using assms serialize_log [OF assms(2), of "[]"]
  by (auto simp: propagate_command_def append_command_def is_master_def simp del: serialize_resp_frame.simps split: replication_role.splits)

text \<open>
  C9: a write command is appended to the open log before it runs, whatever becomes of it.  If it succeeds, the
  change counter goes up by one and every replica's connection has the command, as it was received, queued
  behind what it had; if it fails, replicas and counter are left alone.  No other connection is touched.
\<close>

theorem write_commands_logged_and_propagated:
  assumes "requests n parts" "n \<in> fst ` set storage_commands" "n \<in> set write_commands"
    "clients_ok s" "is_master (replication s)" "distinct (map fst (replicas (replication s)))"
    "\<forall>i c. client s i = Some c \<longrightarrow> conn_ok c" "serializable (show_f64 (handler_env (envs (executed s)))) parts"
    "process_normal_command other envs parts db i s = (s', r)"
  shows "(case aof_state s of None \<Rightarrow> files s' = files s \<and> aof_state s' = None
      | Some a \<Rightarrow> (\<exists>a'. aof_state s' = Some a' \<and>
          fst (aof_append (show_f64 (handler_env (envs (executed s)))) (append_io (envs (executed s))) parts (files s, a)) = (files s', a'))) \<and>
    storage_monitor s' = (if succeeded r then map_option monitor_record_change (storage_monitor s) else storage_monitor s) \<and>
    (\<forall>j. if succeeded r \<and> j \<in> fst ` set (replicas (replication s))
         then (\<forall>c. client s j = Some c \<longrightarrow> (\<exists>c'. client s' j = Some c' \<and> conn_ok c' \<and>
                 queued c' = queued c @ log_bytes (show_f64 (handler_env (envs (executed s)))) parts))
         else client s' j = client s j)"
proof -
  let ?env = "envs (executed s)" and ?fp = "show_f64 (handler_env (envs (executed s)))"
  from assms(2) obtain h where h: "(n, h) \<in> set storage_commands" by auto
  obtain e r1 where hr: "h (handler_env ?env) db parts (storage s) = (e, r1)" by (meson surj_pair)
  define s1 where "s1 = after_push n db parts r (log_command ?env (ascii n) parts (s\<lparr>executed := executed s + 1\<rparr>)\<lparr>storage := e\<rparr>)"
  have s': "s' = (if succeeded r then propagate ?env parts (record_change s1) else s1)" and "r1 = r"
    using assms(3,9) by (auto simp: process_storage_command [OF assms(1) h] hr s1_def Let_def)
  have s1: "clients s1 = clients s" "replication s1 = replication s" "storage_monitor s1 = storage_monitor s"
    by (simp_all add: s1_def)
  have log: "files s' = files s1" "aof_state s' = aof_state s1" unfolding s' by simp_all
  have "case aof_state s of None \<Rightarrow> files s1 = files s \<and> aof_state s1 = None
      | Some a \<Rightarrow> (\<exists>a'. aof_state s1 = Some a' \<and> fst (aof_append ?fp (append_io ?env) parts (files s, a)) = (files s1, a'))"
    using assms(3) by (auto simp: s1_def log_command_def Let_def split: option.split prod.split)
  moreover have "storage_monitor s' = (if succeeded r then map_option monitor_record_change (storage_monitor s) else storage_monitor s)"
    unfolding s' using s1 by (simp add: record_change_def)
  moreover have "if succeeded r \<and> j \<in> fst ` set (replicas (replication s))
         then (\<forall>c. client s j = Some c \<longrightarrow> (\<exists>c'. client s' j = Some c' \<and> conn_ok c' \<and> queued c' = queued c @ log_bytes ?fp parts))
         else client s' j = client s j" for j
  proof (cases "succeeded r")
    case True
    obtain m' where m: "propagate_command ?fp (Array (Some parts)) (replication s) = (m', Ok (map fst (replicas (replication s))))"
      using propagates [OF assms(5,8)] by blast
    have same: "client ((record_change s1)\<lparr>replication := m'\<rparr>) = client s" "clients_ok ((record_change s1)\<lparr>replication := m'\<rparr>)"
      using s1 assms(4) by (simp_all add: client_def clients_ok_def fun_eq_iff)
    have sent: "conn_ok (fst (send_frame ?fp (Array (Some parts)) c)) \<and> queued (fst (send_frame ?fp (Array (Some parts)) c)) = queued c @ log_bytes ?fp parts"
      if "client s j = Some c" for c
      using send_frame_queues(1,2) [of c ?fp "Array (Some parts)"] assms(7) that by (metis log_bytes_def prod.collapse)
    have "client s' j = (if j \<in> set (map fst (replicas (replication s))) then map_option (\<lambda>c. fst (send_frame ?fp (Array (Some parts)) c)) (client s j) else client s j)"
      unfolding s' using True m s1 same assms(6) by (simp add: propagate_def sends_clients)
    then show ?thesis using True sent by auto
  next
    case False
    then show ?thesis unfolding s' using s1 by (simp add: client_def)
  qed
  ultimately show ?thesis unfolding log by blast
qed

definition sample_master :: server where
  "sample_master = sample\<lparr>replication := (new_replication 99 [0])\<lparr>replicas := [(1, new_replica 1 (''h'', 1) 0)]\<rparr>\<rparr>"

lemma sample_master_simps [simp]:
  "clients_ok sample_master" "executed sample_master = 0" "storage sample_master = with_config 1 unlimited" "is_master (replication sample_master)"
  "client sample_master 1 = Some (new_connection 1 (''h'', 1) 0 [])" "replicas (replication sample_master) = [(1, new_replica 1 (''h'', 1) 0)]"
  using sample_server_ok(2) [of "new_connection 1 (''h'', 1) 0 []" "with_config 1 unlimited"]
  by (simp_all add: sample_master_def is_master_def new_replication_def) (simp add: sample_def)

lemma sample_master_clients: "client sample_master i = Some c \<Longrightarrow> conn_ok c"
  by (auto simp: sample_master_def sample_def sample_server_def client_def insert_connection_def new_sharded_def conn_shard_def
      CONNECTION_SHARDS_def nth_list_update split: if_splits)

theorem write_commands_logged_and_propagated_witness:
  "\<exists>c'. client (fst (process_normal_command no_other sample_envs [BulkString (Some ''FLUSHDB'')] 0 1 sample_master)) 1 = Some c' \<and>
     queued c' = log_bytes (\<lambda>x. ''0'') [BulkString (Some ''FLUSHDB'')]"
proof -
  let ?parts = "[BulkString (Some ''FLUSHDB'')]" and ?fp = "show_f64 sample_env"
  let ?p = "process_normal_command no_other sample_envs ?parts 0 1 sample_master"
  have p: "?p = (fst ?p, snd ?p)" by simp
  have "snd (handle_flushdb sample_env 0 ?parts (with_config 1 unlimited)) = Ok resp_ok"
    by (simp add: handle_flushdb_def flush_db_def with_config_def reply_via_def ok_frame_def resp_ok_def)
  then have "snd ?p = Ok resp_ok"
    using process_storage_result [OF sample_requests(2) sample_table(4) p] unfolding sample_master_simps(2,3) sample_simps(2) by (metis snd_conv)
  then have ok: "succeeded (snd ?p)" by (simp add: succeeded_def is_error_def resp_ok_def)
  have conns: "\<forall>i c. client sample_master i = Some c \<longrightarrow> conn_ok c" using sample_master_clients by blast
  have fp: "show_f64 (handler_env (sample_envs (executed sample_master))) = (\<lambda>x. ''0'')" by (simp add: sample_env_def)
  have ser: "serializable (show_f64 (handler_env (sample_envs (executed sample_master)))) ?parts" by (simp add: serializable_def)
  have names: "''FLUSHDB'' \<in> set write_commands" "distinct (map fst (replicas (replication sample_master)))" by (simp_all add: write_commands_def)
  note effect = write_commands_logged_and_propagated [OF sample_requests(2) sample_table(2) names(1) sample_master_simps(1,4) names(2) conns ser p]
  from conjunct2 [OF conjunct2 [OF effect], THEN spec, of 1] ok show ?thesis unfolding fp by simp blast
qed

end
