(* ===== verification/Event_Loop.thy ===== *)
theory Event_Loop
  imports Dispatch
begin

text \<open>
  The event loop of the server (\<^verbatim>\<open>run\<close>, \<^verbatim>\<open>accept_single_connection\<close>, \<^verbatim>\<open>process_connections\<close>, \<^verbatim>\<open>process_connection\<close> and
  \<^verbatim>\<open>process_pending_writes\<close> of \<^verbatim>\<open>src/network/server.rs\<close>): a connection is flushed, read and parsed, its frames are
  executed in order, and the replies are sent.  The answers of the sockets and the clock are arguments; the
  processor of ordinary commands is the argument \<open>normal\<close>, as in the routing functions.
\<close>

section \<open>What the loop meets\<close>

text \<open>
  \<open>reads\<close> are the answers of the sockets to the reads of one pass, \<open>shut\<close> their answers to \<^verbatim>\<open>shutdown\<close>; \<open>loop_now\<close> is the clock,
  \<open>idle_timeout\<close> and \<open>max_clients\<close> are settings; \<open>snapshot_of\<close> is the snapshot sent to a replica; \<open>fq\<close> and \<open>fp\<close> parse and print floats.
\<close>

record loop_env =
  reads :: "u64 \<Rightarrow> read_answer"
  shut :: "u64 \<Rightarrow> string option"
  loop_now :: nat
  idle_timeout :: nat
  max_clients :: nat
  snapshot_of :: "server \<Rightarrow> bytes result"
  parse_f64 :: "string \<Rightarrow> f64 option"
  print_f64 :: "f64 \<Rightarrow> string"

definition hard_error :: "ferrous_error \<Rightarrow> bool" where
  "hard_error e \<longleftrightarrow> (case e of Connection msg \<Rightarrow> text_contains ''Broken pipe'' msg \<or> text_contains ''Connection reset'' msg | _ \<Rightarrow> False)"

definition connection_error :: "ferrous_error \<Rightarrow> bool" where
  "connection_error e \<longleftrightarrow> (case e of Connection msg \<Rightarrow> True | _ \<Rightarrow> False)"

section \<open>One connection\<close>

text \<open>First phase: what is pending is flushed, then the socket is read and the complete frames are taken out.\<close>

definition idle :: "loop_env \<Rightarrow> connection \<Rightarrow> bool" where
  "idle env c \<longleftrightarrow> idle_timeout env > 0 \<and> loop_now env - last_activity c > idle_timeout env * 10 ^ 9"

definition parse_available :: "loop_env \<Rightarrow> connection \<Rightarrow> connection \<times> (resp_frame list \<times> bool) result" where
  "parse_available env c =
     (case drain_frames (parse_f64 env) (parser c) [] of
        Ok (p, frames) \<Rightarrow> (let c = c\<lparr>parser := p\<rparr> in (c, Ok (frames, idle env c)))
      | Err e \<Rightarrow> (c, Err e)
      | Panic \<Rightarrow> (c, Panic))"

definition read_available :: "loop_env \<Rightarrow> u64 \<Rightarrow> connection \<Rightarrow> connection \<times> (resp_frame list \<times> bool) result" where
  "read_available env i c =
     (case read_conn (reads env i) (loop_now env) c of
        (c, Ok True) \<Rightarrow> parse_available env c
      | (c, Ok False) \<Rightarrow> (c, Ok ([], idle env c))
      | (c, Err e) \<Rightarrow>
          (if hard_error e
           then (case close_conn (loop_now env) (shut env i) c of (c, Ok _) \<Rightarrow> (c, Err e) | (c, Err e') \<Rightarrow> (c, Err e') | (c, Panic) \<Rightarrow> (c, Panic))
           else (c, Ok ([], False)))
      | (c, Panic) \<Rightarrow> (c, Panic))"

definition read_phase :: "loop_env \<Rightarrow> u64 \<Rightarrow> connection \<Rightarrow> connection \<times> (resp_frame list \<times> bool) result" where
  "read_phase env i c =
     (if has_pending_writes c then
        (case flush (loop_now env) c of
           (c, Ok _) \<Rightarrow> read_available env i c
         | (c, Err e) \<Rightarrow> (if connection_error e \<and> \<not> hard_error e then (c, Ok ([], False)) else (c, Err e))
         | (c, Panic) \<Rightarrow> (c, Panic))
      else read_available env i c)"

text \<open>Second phase: the frames are executed in order; an error that is not a reply ends the processing of the connection.\<close>

fun run_frames :: "command_processor \<Rightarrow> loop_env \<Rightarrow> u64 \<Rightarrow> resp_frame list \<Rightarrow> resp_frame list \<Rightarrow> server \<Rightarrow> server \<times> resp_frame list result" where
  "run_frames normal env i [] responses s = (s, Ok responses)"
| "run_frames normal env i (frame # frames) responses s =
     (case process_one normal (print_f64 env) (snapshot_of env s) (loop_now env) frame i s of
        (s, Ok r) \<Rightarrow> run_frames normal env i frames (responses @ [r]) s
      | (s, Err e) \<Rightarrow> (s, Err e)
      | (s, Panic) \<Rightarrow> (s, Panic))"

definition frame_command :: "resp_frame \<Rightarrow> nat list" where
  "frame_command f = (case f of Array (Some (BulkString (Some b) # _)) \<Rightarrow> to_uppercase (from_utf8_lossy b) | _ \<Rightarrow> [])"

definition immediate_names :: "string list" where
  "immediate_names = [''EXEC'', ''MULTI'', ''DISCARD'', ''WATCH'', ''UNWATCH'', ''AUTH'', ''SELECT'', ''QUIT'', ''MONITOR'', ''SAVE'', ''BGSAVE'', ''SHUTDOWN'',
     ''SUBSCRIBE'', ''UNSUBSCRIBE'', ''PSUBSCRIBE'', ''PUNSUBSCRIBE'']"

definition needs_immediate_flush :: "resp_frame list \<Rightarrow> bool" where
  "needs_immediate_flush frames \<longleftrightarrow> list_ex (\<lambda>f. frame_command f \<in> set (map ascii immediate_names)) frames"

definition should_close :: "resp_frame list \<Rightarrow> bool" where
  "should_close frames \<longleftrightarrow> list_ex (\<lambda>f. frame_command f = ascii ''QUIT'') frames"

text \<open>Third phase: the replies are sent, each followed by a flush when a command asks for it, else with one flush at the end.\<close>

definition flush_replies :: "nat \<Rightarrow> connection \<Rightarrow> connection \<times> unit result" where
  "flush_replies now c =
     (case flush now c of
        (c, Err e) \<Rightarrow> (if hard_error e then (c\<lparr>state := Closing\<rparr>, Err e) else (c, Ok ()))
      | (c, r) \<Rightarrow> (c, r))"

fun send_immediately :: "(f64 \<Rightarrow> string) \<Rightarrow> nat \<Rightarrow> resp_frame list \<Rightarrow> connection \<Rightarrow> connection \<times> unit result" where
  "send_immediately fp now [] c = (c, Ok ())"
| "send_immediately fp now (r # rs) c =
     (if r = NoResponse then send_immediately fp now rs c
      else (case send_frame fp r c of
              (c, Ok _) \<Rightarrow> (case flush_replies now c of
                              (c, Ok _) \<Rightarrow> send_immediately fp now rs c | (c, Err e) \<Rightarrow> (c, Err e) | (c, Panic) \<Rightarrow> (c, Panic))
            | (c, Err e) \<Rightarrow> send_immediately fp now rs c
            | (c, Panic) \<Rightarrow> (c, Panic)))"

fun send_batch :: "(f64 \<Rightarrow> string) \<Rightarrow> resp_frame list \<Rightarrow> connection \<Rightarrow> connection" where
  "send_batch fp [] c = c"
| "send_batch fp (r # rs) c = (if r = NoResponse then send_batch fp rs c else send_batch fp rs (fst (send_frame fp r c)))"

definition send_replies :: "loop_env \<Rightarrow> bool \<Rightarrow> resp_frame list \<Rightarrow> connection \<Rightarrow> connection \<times> unit result" where
  "send_replies env immediate responses c =
     (if immediate then send_immediately (print_f64 env) (loop_now env) responses c
      else flush_replies (loop_now env) (send_batch (print_f64 env) responses c))"

definition finish_connection :: "loop_env \<Rightarrow> u64 \<Rightarrow> pubsub_manager \<Rightarrow> resp_frame list \<Rightarrow> bool \<Rightarrow> nat \<Rightarrow> connection \<Rightarrow> connection \<times> bool result" where
  "finish_connection env i ps frames timeout_check count c =
     (let c = (if should_close frames then c\<lparr>state := Closing\<rparr> else c) in
      if timeout_check \<and> \<not> has_pending_writes c \<and> count = 0 \<and> \<not> is_subscribed i ps
      then (case close_conn (loop_now env) (shut env i) c of
              (c, Ok _) \<Rightarrow> (c, Err (Connection ''Connection timed out'')) | (c, Err e) \<Rightarrow> (c, Err e) | (c, Panic) \<Rightarrow> (c, Panic))
      else (c, Ok (has_pending_writes c)))"

definition send_phase :: "loop_env \<Rightarrow> u64 \<Rightarrow> pubsub_manager \<Rightarrow> resp_frame list \<Rightarrow> bool \<Rightarrow> resp_frame list \<Rightarrow> connection \<Rightarrow> connection \<times> bool result" where
  "send_phase env i ps frames timeout_check responses c =
     (case send_replies env (needs_immediate_flush frames) responses c of
        (c, Ok _) \<Rightarrow> finish_connection env i ps frames timeout_check (length responses) c
      | (c, Err e) \<Rightarrow> (c, Err e)
      | (c, Panic) \<Rightarrow> (c, Panic))"

definition process_connection :: "command_processor \<Rightarrow> loop_env \<Rightarrow> u64 \<Rightarrow> server \<Rightarrow> server \<times> bool result" where
  "process_connection normal env i s =
     (case with_client i (read_phase env i) s of
        (s, Some (Err e)) \<Rightarrow> (s, Err e)
      | (s, Some Panic) \<Rightarrow> (s, Panic)
      | (s, r) \<Rightarrow>
          (let (frames, timeout_check) = (case r of Some (Ok p) \<Rightarrow> p | _ \<Rightarrow> ([], False))
           in case run_frames normal env i frames [] s of
                (s, Ok responses) \<Rightarrow>
                  (case with_client i (send_phase env i (pubsub s) frames timeout_check responses) s of
                     (s, Some r) \<Rightarrow> (s, r)
                   | (s, None) \<Rightarrow> (s, Ok False))
              | (s, Err e) \<Rightarrow> (s, Err e)
              | (s, Panic) \<Rightarrow> (s, Panic)))"

section \<open>All connections\<close>

definition is_connection_blocked :: "server \<Rightarrow> u64 \<Rightarrow> bool" where
  "is_connection_blocked s i \<longleftrightarrow> (case client s i of Some c \<Rightarrow> is_blocked c | None \<Rightarrow> False)"

text \<open>The connections with pending writes and the failed ones are collected; a panic ends the loop.\<close>

fun visit_connections :: "command_processor \<Rightarrow> loop_env \<Rightarrow> u64 list \<Rightarrow> u64 list \<Rightarrow> u64 list \<Rightarrow> server \<Rightarrow> server \<times> (u64 list \<times> u64 list) result" where
  "visit_connections normal env [] writes failed s = (s, Ok (writes, failed))"
| "visit_connections normal env (i # is) writes failed s =
     (case process_connection normal env i s of
        (s, Ok has_writes) \<Rightarrow> visit_connections normal env is (if has_writes then writes @ [i] else writes) failed s
      | (s, Err e) \<Rightarrow> visit_connections normal env is writes (failed @ [i]) s
      | (s, Panic) \<Rightarrow> (s, Panic))"

definition drop_failed :: "u64 \<Rightarrow> server \<Rightarrow> server" where
  "drop_failed i s =
     (case remove_connection i (clients s) of
        (cs, Some c) \<Rightarrow> s\<lparr>clients := cs, pubsub := unsubscribe_all i (pubsub s)\<rparr>
      | (cs, None) \<Rightarrow> s\<lparr>clients := cs\<rparr>)"

definition process_connections :: "command_processor \<Rightarrow> loop_env \<Rightarrow> server \<Rightarrow> server \<times> unit result" where
  "process_connections normal env s =
     (case visit_connections normal env (filter (\<lambda>i. \<not> is_connection_blocked s i) (all_connection_ids (clients s))) [] [] s of
        (s, Ok (writes, failed)) \<Rightarrow> (fold drop_failed failed (s\<lparr>pending_writes := pending_writes s @ writes\<rparr>), Ok ())
      | (s, Err e) \<Rightarrow> (s, Err e)
      | (s, Panic) \<Rightarrow> (s, Panic))"

definition flush_pending :: "nat \<Rightarrow> connection \<Rightarrow> connection \<times> bool result" where
  "flush_pending now c =
     (case flush now c of
        (c, Ok _) \<Rightarrow> (c, Ok (has_pending_writes c))
      | (c, Err e) \<Rightarrow> (if connection_error e then c\<lparr>state := Closing\<rparr> else c, Err e)
      | (c, Panic) \<Rightarrow> (c, Panic))"

fun flush_ids :: "nat \<Rightarrow> u64 list \<Rightarrow> u64 list \<Rightarrow> server \<Rightarrow> server \<times> u64 list" where
  "flush_ids now [] still s = (s, still)"
| "flush_ids now (i # is) still s =
     (case with_client i (flush_pending now) s of
        (s, r) \<Rightarrow> flush_ids now is (if r = Some (Ok True) then still @ [i] else still) s)"

definition process_pending_writes :: "nat \<Rightarrow> server \<Rightarrow> server" where
  "process_pending_writes now s =
     (let ids = pending_writes s; (s, still) = flush_ids now ids [] (s\<lparr>pending_writes := []\<rparr>)
      in s\<lparr>pending_writes := pending_writes s @ still\<rparr>)"

text \<open>
  Accepting: the listener answers with a new connection under the next identifier, with nothing, or with an error,
  which ends the server.
\<close>

datatype accept_answer = Incoming u64 "string \<times> nat" "string option" | No_Connection | Accept_Failed string

definition accept_single_connection :: "loop_env \<Rightarrow> accept_answer \<Rightarrow> server \<Rightarrow> server \<times> bool result" where
  "accept_single_connection env ans s =
     (case ans of
        Incoming i a setup_error \<Rightarrow>
          (if length (all_connection_ids (clients s)) \<ge> max_clients env then (s, Ok True)
           else (case setup_error of
                   None \<Rightarrow>
                     (let c = new_connection i a (loop_now env) [] in
                      (s\<lparr>clients := insert_connection i (c\<lparr>state := (if password s \<noteq> None then Connected else Authenticated)\<rparr>) (clients s)\<rparr>, Ok True))
                 | Some e \<Rightarrow> (s, Ok True)))
      | No_Connection \<Rightarrow> (s, Ok False)
      | Accept_Failed e \<Rightarrow> (s, Err (Io e)))"

fun accept_some :: "loop_env \<Rightarrow> accept_answer list \<Rightarrow> (server, unit) step" where
  "accept_some env [] s = (s, Ok ())"
| "accept_some env (a # as) s =
     (case accept_single_connection env a s of
        (s, Ok True) \<Rightarrow> accept_some env as s | (s, Ok False) \<Rightarrow> (s, Ok ()) | (s, Err e) \<Rightarrow> (s, Err e) | (s, Panic) \<Rightarrow> (s, Panic))"

text \<open>One turn of the loop of \<^verbatim>\<open>run\<close>; an error of a step ends the server.\<close>

definition loop_turn :: "command_processor \<Rightarrow> loop_env \<Rightarrow> accept_answer list \<Rightarrow> (server, unit) step" where
  "loop_turn normal env incoming s =
     and_then (server_wakeups (print_f64 env) s) (\<lambda>s _.
     and_then (accept_some env (take 10 incoming) s) (\<lambda>s _.
     and_then (process_connections normal env s) (\<lambda>s _.
       (cleanup_connections (process_pending_writes (loop_now env) (fst (process_blocked_timeouts (print_f64 env) (loop_now env) s))), Ok ()))))"

end
