(* ===== verification/Connection_Table.thy ===== *)
theory Connection_Table
  imports Dispatch_Correct Event_Loop
begin

text \<open>
  The table of connections through the handlers: no handler closes or invents a connection, and every write buffer
  stays consistent.  \<open>keeps_table\<close> states this of one handler; the rules follow the structure of the routing functions.
\<close>

definition table_ok :: "server \<Rightarrow> bool" where
  "table_ok s \<longleftrightarrow> clients_ok s \<and> (\<forall>i c. client s i = Some c \<longrightarrow> conn_ok c)"

definition keeps_table :: "server \<Rightarrow> server \<Rightarrow> bool" where
  "keeps_table s s' \<longleftrightarrow> (table_ok s \<longrightarrow> table_ok s' \<and> (\<forall>i. client s' i = None \<longleftrightarrow> client s i = None))"

named_theorems table_rules \<open>handlers that keep the table of connections\<close>

lemma keeps_refl [table_rules]: "keeps_table s s"
  by (simp add: keeps_table_def)

lemma keeps_trans [trans]: "keeps_table s s' \<Longrightarrow> keeps_table s' s'' \<Longrightarrow> keeps_table s s''"
  by (simp add: keeps_table_def)

lemma keeps_same_clients: "clients s' = clients s \<Longrightarrow> keeps_table s s'"
  by (simp add: keeps_table_def table_ok_def clients_ok_def client_def)

lemma keeps_with_client:
  assumes "\<And>c. conn_ok c \<Longrightarrow> conn_ok (fst (f c))"
  shows "keeps_table s (fst (with_client i f s))"
  unfolding keeps_table_def table_ok_def
proof (intro impI conjI allI)
  assume ok: "clients_ok s \<and> (\<forall>i c. client s i = Some c \<longrightarrow> conn_ok c)"
  then show "clients_ok (fst (with_client i f s))" by simp
  show "conn_ok c" if "client (fst (with_client i f s)) j = Some c" for j c
    using that ok assms with_client_client [of s i f j] by (auto split: if_splits)
  show "client (fst (with_client i f s)) j = None \<longleftrightarrow> client s j = None" for j
    using ok with_client_client [of s i f j] by auto
qed

lemma keeps_updated:
  "keeps_table s t \<Longrightarrow> clients t' = clients t \<Longrightarrow> keeps_table s t'"
  using keeps_same_clients [of t' t] keeps_trans [of s t t'] by blast

section \<open>Changes of one connection\<close>

lemma conn_ok_updates [simp]:
  "conn_ok (c\<lparr>transaction := t\<rparr>) = conn_ok c" "conn_ok (c\<lparr>is_monitoring := b\<rparr>) = conn_ok c" "conn_ok (c\<lparr>db_index := n\<rparr>) = conn_ok c"
  "conn_ok (c\<lparr>state := st\<rparr>) = conn_ok c" "conn_ok (set_tx t c) = conn_ok c" "conn_ok (watch_key key k c) = conn_ok c"
  by (simp_all add: conn_ok_def set_tx_def watch_key_def)

lemma conn_ok_sends [simp]: "conn_ok c \<Longrightarrow> conn_ok (fst (send_frame fp f c))" "conn_ok c \<Longrightarrow> conn_ok (fst (flush now c))"
  "conn_ok c \<Longrightarrow> conn_ok (send_raw d c)"
  using send_frame_queues(1) [of c fp f] flush_keeps [of c now] send_raw_queues [of c d] by (metis prod.collapse)+

lemma conn_ok_confirm: "conn_ok c \<Longrightarrow> conn_ok (fst (confirm fp now fs c))"
proof (induction fs arbitrary: c)
  case (Cons f fs)
  obtain d q where d: "send_frame fp f c = (d, q)" by (meson surj_pair)
  then have "conn_ok d" using conn_ok_sends(1) [OF Cons.prems, of fp f] by simp
  then show ?case using Cons.IH d by (cases q) simp_all
qed simp

lemma conn_ok_watch: "conn_ok c \<Longrightarrow> conn_ok (fst (watch_loop parts c e))"
  by (induction parts c e rule: watch_loop.induct) (auto split: prod.split result.split)

lemma conn_ok_transaction:
  "conn_ok c \<Longrightarrow> conn_ok (fst (handle_multi c))" "conn_ok c \<Longrightarrow> conn_ok (fst (handle_discard c))" "conn_ok c \<Longrightarrow> conn_ok (fst (queue_command parts c))"
  "conn_ok c \<Longrightarrow> conn_ok (fst (handle_watch parts c e))" "conn_ok c \<Longrightarrow> conn_ok (fst (handle_unwatch c e))" "conn_ok c \<Longrightarrow> conn_ok (clear_tx c)"
  by (simp_all add: handle_multi_def handle_discard_def queue_command_def handle_watch_def handle_unwatch_def clear_tx_def conn_ok_watch)

lemma conn_ok_answer_blocked: "conn_ok c \<Longrightarrow> conn_ok (fst (answer_blocked fp f c))"
  using conn_ok_sends(1) [of c fp f]
  by (cases "send_frame fp f c"; cases "snd (send_frame fp f c)") (auto simp: answer_blocked_def)

lemma conn_ok_send_rdb: "conn_ok c \<Longrightarrow> conn_ok (fst (send_rdb_to_replica rdb now c))"
  by (auto simp: send_rdb_to_replica_def split: result.split)

section \<open>The routing functions\<close>

lemma keeps_on_client [table_rules]: "(\<And>c. conn_ok c \<Longrightarrow> conn_ok (fst (f c))) \<Longrightarrow> keeps_table s (fst (on_client i f s))"
  using keeps_with_client [of f s i] by (auto simp: on_client_def split: prod.split option.split)

lemma keeps_on_client_storage [table_rules]:
  assumes "\<And>c e. conn_ok c \<Longrightarrow> conn_ok (fst (f c e))"
  shows "keeps_table s (fst (on_client_storage i f s))"
proof -
  have "keeps_table s (fst (with_client i (\<lambda>c. case f c (storage s) of (c', e, r) \<Rightarrow> (c', (e, r))) s))"
    by (rule keeps_with_client) (use assms in \<open>auto split: prod.split dest: assms\<close>)
  then show ?thesis by (auto simp: on_client_storage_def split: prod.split option.split intro: keeps_updated)
qed

lemma keeps_sends: "(\<And>i c. conn_ok c \<Longrightarrow> conn_ok (fst (f i c))) \<Longrightarrow> keeps_table s (fold (\<lambda>i s. fst (with_client i (f i) s)) is s)"
proof (induction "is" arbitrary: s)
  case (Cons i "is")
  have "keeps_table s (fst (with_client i (f i) s))" using Cons.prems by (intro keeps_with_client)
  also have "keeps_table \<dots> (fold (\<lambda>i s. fst (with_client i (f i) s)) is (fst (with_client i (f i) s)))" using Cons by blast
  finally show ?case by simp
qed (simp add: keeps_refl)

lemma keeps_deliver: "keeps_table s (deliver fp ch m rs s)"
proof (induction rs arbitrary: s)
  case (Cons r rs)
  obtain i pat where r: "r = (i, pat)" by (cases r)
  let ?f = "case pat of Some p \<Rightarrow> format_pmessage p ch m | None \<Rightarrow> format_message ch m"
  have "keeps_table s (fst (with_client i (send_frame fp ?f) s))" by (intro keeps_with_client) simp
  also note Cons
  finally show ?case by (simp add: r Let_def)
qed (simp add: keeps_refl)

lemma keeps_auth [table_rules]: "keeps_table s (fst (handle_auth parts i s))"
  using keeps_with_client [of "\<lambda>c. (c\<lparr>state := Authenticated\<rparr>, ())" "s\<lparr>auth_successes := auth_successes s + 1\<rparr>" i]
    keeps_same_clients [of "s\<lparr>auth_successes := auth_successes s + 1\<rparr>" s] keeps_same_clients [of "s\<lparr>auth_failures := auth_failures s + 1\<rparr>" s]
  by (auto simp: handle_auth_def keeps_refl split: option.split intro: keeps_trans)

lemma keeps_publish [table_rules]: "keeps_table s (fst (handle_publish fp parts s))"
  by (auto simp: handle_publish_def keeps_refl keeps_deliver Let_def split: option.split)

lemma keeps_confirm: "keeps_table s (fst (with_client i (confirm fp now fs) (s\<lparr>pubsub := m\<rparr>)))"
  by (rule keeps_trans [OF keeps_same_clients keeps_with_client]) (simp_all add: conn_ok_confirm)

lemma keeps_subscriptions [table_rules]:
  "keeps_table s (fst (handle_subscribe fp now parts i s))" "keeps_table s (fst (handle_psubscribe fp now parts i s))"
  "keeps_table s (fst (handle_unsubscribe fp now parts i s))" "keeps_table s (fst (handle_punsubscribe fp now parts i s))"
  by (auto simp: handle_subscribe_def handle_psubscribe_def handle_unsubscribe_def handle_punsubscribe_def keeps_refl keeps_confirm Let_def
      split: option.split prod.split)

lemma keeps_okay [table_rules]: "keeps_table s (fst p) \<Longrightarrow> keeps_table s (fst (okay p))"
  by (simp add: okay_def)

lemma keeps_monitor [table_rules]: "keeps_table s (fst (handle_monitor parts i s))"
proof -
  define t where "t = s\<lparr>monitor_subscribers := (if i \<in> set (monitor_subscribers s) then monitor_subscribers s else monitor_subscribers s @ [i])\<rparr>"
  have "keeps_table s t" by (rule keeps_same_clients) (simp add: t_def)
  also have "keeps_table t (fst (with_client i (\<lambda>c. (c\<lparr>is_monitoring := True\<rparr>, ())) t))" by (intro keeps_with_client) simp
  finally show ?thesis by (simp add: handle_monitor_def keeps_refl t_def)
qed

lemma keeps_sync [table_rules]: "keeps_table s (fst (handle_sync_command rdb now p parts i s))"
proof -
  have "keeps_table s (fst (with_client i (send_rdb_to_replica rdb now) (s\<lparr>replication := m\<rparr>)))" for m
    by (rule keeps_trans [OF keeps_same_clients keeps_with_client]) (simp_all add: conn_ok_send_rdb)
  then have "keeps_table s t" if "with_client i (send_rdb_to_replica rdb now) (s\<lparr>replication := m\<rparr>) = (t, r)" for m t r
    using that by (metis fst_conv)
  then have "keeps_table s (fst (add_and_send rdb now i reply s))" for reply
    by (auto simp: add_and_send_def keeps_refl split: option.split prod.split result.split)
  then show ?thesis by (auto simp: handle_sync_command_def keeps_refl split: result.split resp_frame.split)
qed

text \<open>What a processor of ordinary commands owes the table, and what follows for the routing functions.\<close>

definition processor_ok :: "command_processor \<Rightarrow> bool" where
  "processor_ok normal \<longleftrightarrow> (\<forall>parts db i s. keeps_table s (fst (normal parts db i s)))"

lemma keeps_run_commands: "processor_ok normal \<Longrightarrow> keeps_table s (fst (run_commands normal db cmds s acc))"
proof (induction cmds arbitrary: s acc)
  case (Cons cmd cmds)
  have "keeps_table s (fst (normal cmd db 0 s))" using Cons.prems by (simp add: processor_ok_def)
  moreover have "keeps_table (fst (normal cmd db 0 s)) (fst (run_commands normal db cmds (fst (normal cmd db 0 s)) acc'))" for acc'
    using Cons by blast
  ultimately show ?case by (cases "normal cmd db 0 s"; cases "snd (normal cmd db 0 s)") (auto intro: keeps_trans)
qed (simp add: keeps_refl)

lemma keeps_exec: "processor_ok normal \<Longrightarrow> keeps_table s (fst (handle_exec normal now i s))"
proof -
  assume n: "processor_ok normal"
  have c: "keeps_table s (fst (with_client i (\<lambda>c. (clear_tx c, ())) s))" by (intro keeps_with_client) (simp add: conn_ok_transaction)
  have "keeps_table s (fst (run_commands normal db cmds (fst (with_client i (\<lambda>c. (clear_tx c, ())) s)) []))" for db cmds
    using c keeps_run_commands [OF n] keeps_trans by blast
  then have "keeps_table s t" if "run_commands normal db cmds (fst (with_client i (\<lambda>c. (clear_tx c, ())) s)) [] = (t, r)" for db cmds t r
    using that by (metis fst_conv)
  then show ?thesis using c by (auto simp: handle_exec_def keeps_refl Let_def split: option.split prod.split result.split)
qed

lemma keeps_process_frame:
  assumes "processor_ok normal"
  shows "keeps_table s (fst (process_frame normal fp now frame i s))"
proof -
  have un: "keeps_table s (fst (unauthenticated command parts i s))" for command parts
    by (auto simp: unauthenticated_def intro: table_rules)
  have repl: "keeps_table s (fst (let (m, r) = handle_replconf parts j now (replication s) in (s\<lparr>replication := m\<rparr>, r)))" for parts j
    by (auto simp: Let_def split: prod.split intro: keeps_same_clients)
  have n: "keeps_table s (fst (normal parts db j s))" for parts db j using assms by (simp add: processor_ok_def)
  show ?thesis
    unfolding process_frame_def Let_def
    by (auto split: resp_frame.split option.split list.split intro!: un repl [unfolded Let_def] n keeps_exec assms table_rules conn_ok_transaction)
qed

lemma keeps_process_one:
  "processor_ok normal \<Longrightarrow> keeps_table s (fst (process_one normal fp rdb now frame i s))"
  by (auto simp: process_one_def keeps_process_frame keeps_sync split: resp_frame.split option.split list.split)

lemma keeps_run_frames:
  "processor_ok normal \<Longrightarrow> keeps_table s (fst (run_frames normal env i frames acc s))"
proof (induction frames arbitrary: s acc)
  case (Cons f fs)
  let ?p = "process_one normal (print_f64 env) (snapshot_of env s) (loop_now env) f i s"
  have "keeps_table s (fst ?p)" using Cons.prems by (rule keeps_process_one)
  moreover have "keeps_table (fst ?p) (fst (run_frames normal env i fs acc' (fst ?p)))" for acc' using Cons by blast
  ultimately show ?case by (cases ?p; cases "snd ?p") (auto intro: keeps_trans)
qed (simp add: keeps_refl)

section \<open>The dispatcher\<close>

lemma keeps_bpop: "keeps_table s (fst (handle_bpop op cmd fq now parts db i s))"
proof -
  have reg: "keeps_table s (fst (register_and_block op db ks dl now i (s\<lparr>storage := e\<rparr>)))" for ks dl e
  proof -
    have "keeps_table s (fst (with_client i (\<lambda>c. (block_connection db ks op dl c, ())) (s\<lparr>storage := e, blocking := m\<rparr>)))" for m
      using keeps_same_clients [of "s\<lparr>storage := e, blocking := m\<rparr>" s] keeps_trans
        keeps_with_client [of "\<lambda>c. (block_connection db ks op dl c, ())" "s\<lparr>storage := e, blocking := m\<rparr>" i]
      by (simp add: block_connection_def)
    then show ?thesis by (auto simp: register_and_block_def keeps_same_clients split: prod.split result.split)
  qed
  show ?thesis
    by (auto simp: handle_bpop_def keeps_refl keeps_same_clients reg Let_def split: timeout.split option.split prod.split result.split)
qed

lemma keeps_save: "keeps_table s (fst (handle_save env parts s))"
  by (rule keeps_same_clients) (simp add: handle_save_def Let_def split: option.split prod.split result.split)

lemma keeps_propagate: "keeps_table s (propagate env parts s)"
proof -
  have "keeps_table s (fold (\<lambda>i s. fst (with_client i (send_frame fp f) s)) is (s\<lparr>replication := m\<rparr>))" for fp f "is" m
    using keeps_same_clients [of "s\<lparr>replication := m\<rparr>" s] keeps_sends [of "\<lambda>i. send_frame fp f" "s\<lparr>replication := m\<rparr>" "is"] keeps_trans by simp
  then show ?thesis by (auto simp: propagate_def keeps_same_clients split: prod.split result.split)
qed

lemma keeps_small:
  "keeps_table s (fst (handle_bgsave parts s))" "keeps_table s (fst (handle_lastsave parts s))" "keeps_table s (fst (handle_bgrewriteaof s))"
  "keeps_table s (fst (on_replication f s))" "keeps_table s (fst (plain_sync env s))" "keeps_table s (fst (plain_psync parts s))"
  "keeps_table s (fst (run_handler h env db parts s))"
  by (rule keeps_same_clients, simp add: handle_bgsave_def handle_lastsave_def handle_bgrewriteaof_def on_replication_def plain_sync_def
      plain_psync_def run_handler_def snapshot_for_sync_def Let_def split: option.split prod.split result.split)+

lemma keeps_select: "keeps_table s (fst (handle_select parts i s))"
proof -
  have "keeps_table s (fst (with_client i (\<lambda>c. (c\<lparr>db_index := n\<rparr>, ())) s))" for n by (intro keeps_with_client) simp
  then show ?thesis by (auto simp: handle_select_def keeps_refl split: option.split)
qed

definition others_ok :: "other_commands \<Rightarrow> bool" where
  "others_ok other \<longleftrightarrow> (\<forall>env command. processor_ok (other env command))"

lemma keeps_if: "keeps_table s (fst p) \<Longrightarrow> keeps_table s (fst q) \<Longrightarrow> keeps_table s (fst (if b then p else q))"
  by simp

lemma keeps_lookup: "(\<And>h. keeps_table s (fst (f h))) \<Longrightarrow> keeps_table s (fst p) \<Longrightarrow> keeps_table s (fst (case x of Some h \<Rightarrow> f h | None \<Rightarrow> p))"
  by (cases x) simp_all

lemma keeps_here: "keeps_table s (fst (s, r))"
  by (simp add: keeps_refl)

lemma keeps_blocking: "keeps_table s (fst (handle_blpop fq now parts db i s))" "keeps_table s (fst (handle_brpop fq now parts db i s))"
  by (simp_all add: handle_blpop_def handle_brpop_def keeps_bpop)

lemma keeps_route:
  assumes "others_ok other"
  shows "keeps_table s (fst (route_command other env name parts db i s))"
proof -
  have other: "keeps_table s (fst (other env command parts db i s))" for command
    using assms by (simp add: others_ok_def processor_ok_def)
  have handler: "keeps_table s (fst (let (s', r) = run_handler h env db parts s in (if P then notify_pushed db parts r s' else s', r)))" for h P
    using keeps_small(7) [of s h env db parts]
    by (auto simp: Let_def notify_pushed_def split: prod.split result.split resp_frame.split option.split intro: keeps_updated)
  show ?thesis
    unfolding route_command_def Let_def [of "to_uppercase (from_utf8_lossy name)"]
  proof (rule keeps_lookup)
    fix h show "keeps_table s (fst (let (s', r) = run_handler h env db parts s
      in (if to_uppercase (from_utf8_lossy name) = ascii ''LPUSH'' \<or> to_uppercase (from_utf8_lossy name) = ascii ''RPUSH'' then notify_pushed db parts r s' else s', r)))"
      by (rule handler)
  qed (intro keeps_if keeps_here keeps_select keeps_save keeps_small keeps_okay keeps_auth other keeps_blocking)
qed

lemma process_normal_command_ok: "others_ok other \<Longrightarrow> processor_ok (process_normal_command other envs)"
  unfolding processor_ok_def
proof (intro allI)
  fix parts db i and s :: server assume other: "others_ok other"
  let ?env = "envs (executed s)"
  have log: "keeps_table s (log_command ?env command cmd (s\<lparr>executed := executed s + 1\<rparr>))" for command cmd
    by (rule keeps_same_clients) simp
  have one: "keeps_table s t" if "route_command other ?env name cmd db i (log_command ?env command cmd (s\<lparr>executed := executed s + 1\<rparr>)) = (t, r)" for name command cmd t r
    using keeps_trans [OF log keeps_route [OF other]] that by (metis fst_conv)
  have "keeps_table t (propagate ?env cmd (record_change t))" for t cmd
    by (rule keeps_trans [OF keeps_same_clients keeps_propagate]) simp
  then have two: "keeps_table s t \<Longrightarrow> keeps_table s (propagate ?env cmd (record_change t))" for t cmd using keeps_trans by blast
  show "keeps_table s (fst (process_normal_command other envs parts db i s))"
    unfolding process_normal_command_def Let_def
    by (auto split: list.split resp_frame.split option.split prod.split intro: two one [simplified] keeps_same_clients)
qed

end
