(* ===== verification/Event_Loop_Correct.thy ===== *)
theory Event_Loop_Correct
  imports Connection_Table
begin

text \<open>
  What a turn of the event loop guarantees: the replies to a pipeline leave in the order of the requests, one per
  request, and where a single client can end the whole server.
\<close>

section \<open>Sending replies\<close>

definition reply_bytes :: "(f64 \<Rightarrow> string) \<Rightarrow> resp_frame \<Rightarrow> bytes" where
  "reply_bytes fp r = (if r = NoResponse then [] else fst (serialize_resp_frame fp r []))"

lemma send_frame_keeps:
  "conn_ok c \<Longrightarrow> conn_ok (fst (send_frame fp f c)) \<and> queued (fst (send_frame fp f c)) = queued c @ fst (serialize_resp_frame fp f [])"
  using send_frame_queues(1,2) [of c fp f] by (metis prod.collapse)

lemma send_batch_queues:
  "conn_ok c \<Longrightarrow> conn_ok (send_batch fp rs c) \<and> queued (send_batch fp rs c) = queued c @ concat (map (reply_bytes fp) rs)"
proof (induction rs arbitrary: c)
  case (Cons r rs)
  then show ?case using send_frame_keeps [of c fp r] by (auto simp: reply_bytes_def)
qed simp

lemma queued_state [simp]: "queued (c\<lparr>state := st\<rparr>) = queued c"
  by (simp add: queued_def unsent_def)

lemma flush_replies_keeps:
  assumes "conn_ok c" "flush_replies now c = (c', r)"
  shows "conn_ok c' \<and> queued c' = queued c"
proof -
  obtain d q where d: "flush now c = (d, q)" by (meson surj_pair)
  have "conn_ok d \<and> queued d = queued c" using flush_keeps [OF assms(1) d] by simp
  then show ?thesis using assms(2) d by (cases q) (auto simp: flush_replies_def split: if_splits)
qed

lemma send_immediately_queues:
  assumes "conn_ok c" "send_immediately fp now rs c = (c', Ok ())"
  shows "conn_ok c' \<and> queued c' = queued c @ concat (map (reply_bytes fp) rs)"
  using assms
proof (induction rs arbitrary: c)
  case (Cons r rs)
  show ?case
  proof (cases "r = NoResponse")
    case False
    obtain d q where d: "send_frame fp r c = (d, q)" by (meson surj_pair)
    have ok: "conn_ok d \<and> queued d = queued c @ reply_bytes fp r"
      using send_frame_keeps [OF Cons.prems(1), of fp r] d False by (simp add: reply_bytes_def)
    obtain d' q' where d': "flush_replies now d = (d', q')" by (meson surj_pair)
    have ok': "conn_ok d' \<and> queued d' = queued d" using flush_replies_keeps ok d' by blast
    show ?thesis
    proof (cases q)
      case (Ok x)
      then have "send_immediately fp now rs d' = (c', Ok ())" using Cons.prems(2) d d' False by (cases q') auto
      then show ?thesis using Cons.IH [of d'] ok ok' by simp
    next
      case (Err x)
      then have "send_immediately fp now rs d = (c', Ok ())" using Cons.prems(2) d False by simp
      then show ?thesis using Cons.IH [of d] ok by simp
    qed (use Cons.prems(2) d False in simp)
  qed (use Cons in \<open>simp add: reply_bytes_def\<close>)
qed simp

lemma send_replies_queues:
  assumes "conn_ok c" "send_replies env imm rs c = (c', Ok ())"
  shows "conn_ok c' \<and> queued c' = queued c @ concat (map (reply_bytes (print_f64 env)) rs)"
proof (cases imm)
  case True
  then show ?thesis using send_immediately_queues [OF assms(1)] assms(2) by (simp add: send_replies_def)
next
  case False
  have b: "conn_ok (send_batch (print_f64 env) rs c) \<and> queued (send_batch (print_f64 env) rs c) = queued c @ concat (map (reply_bytes (print_f64 env)) rs)"
    using send_batch_queues [OF assms(1)] .
  then show ?thesis using flush_replies_keeps [of "send_batch (print_f64 env) rs c"] False assms(2) by (simp add: send_replies_def)
qed

lemma send_phase_queues:
  assumes "conn_ok c" "send_phase env i ps frames t rs c = (c', Ok b)"
  shows "queued c' = queued c @ concat (map (reply_bytes (print_f64 env)) rs)"
proof -
  obtain d q where d: "send_replies env (needs_immediate_flush frames) rs c = (d, q)" by (meson surj_pair)
  from assms(2) d have q: "q = Ok ()" by (cases q) (auto simp: send_phase_def)
  then have "c' = d \<or> c' = d\<lparr>state := Closing\<rparr>"
    using assms(2) d by (auto simp: send_phase_def finish_connection_def Let_def split: if_splits prod.splits result.splits)
  then show ?thesis using send_replies_queues [OF assms(1)] d q by auto
qed

text \<open>
  A flush fails with an \<^verbatim>\<open>Io\<close> error or with one of two fixed messages, so the check for a broken pipe in the messages of
  \<^verbatim>\<open>Connection\<close> errors never succeeds, and no flush of the replies reports an error.
\<close>

lemma flush_loop_errors:
  "snd (flush_loop now n c) = Ok () \<or> (\<exists>e. snd (flush_loop now n c) = Err (Io e)) \<or>
   snd (flush_loop now n c) = Err (Connection ''Cannot write to connection'') \<or> snd (flush_loop now n c) = Err (Connection ''Write would block after max attempts'')"
  by (induction now n c rule: flush_loop.induct) (subst (1 2 3 4) flush_loop.simps, auto simp: Let_def split: write_answer.split)

lemma flush_soft: "snd (flush now c) = Ok () \<or> (\<exists>e. snd (flush now c) = Err e \<and> \<not> hard_error e)"
proof -
  have "\<not> hard_error (Connection ''Cannot write to connection'')" "\<not> hard_error (Connection ''Write would block after max attempts'')"
    by code_simp+
  then show ?thesis using flush_loop_errors [of now 0 c] by (auto simp: flush_def hard_error_def)
qed

lemma flush_replies_never_fails: "snd (flush_replies now c) = Ok ()"
  using flush_soft [of now c] by (cases "flush now c") (auto simp: flush_replies_def)

text \<open>\<open>answers_to normal env i s frames rs s'\<close>: executing the frames one after the other from \<open>s\<close> gives these replies.\<close>

inductive answers_to :: "command_processor \<Rightarrow> loop_env \<Rightarrow> u64 \<Rightarrow> server \<Rightarrow> resp_frame list \<Rightarrow> resp_frame list \<Rightarrow> server \<Rightarrow> bool" for normal env i where
  none: "answers_to normal env i s [] [] s"
| next_frame: "process_one normal (print_f64 env) (snapshot_of env s) (loop_now env) f i s = (s1, Ok r) \<Longrightarrow> answers_to normal env i s1 fs rs s2 \<Longrightarrow>
    answers_to normal env i s (f # fs) (r # rs) s2"

lemma run_frames_answers:
  "run_frames normal env i frames acc s = (s2, Ok responses) \<Longrightarrow> \<exists>rs. responses = acc @ rs \<and> answers_to normal env i s frames rs s2"
proof (induction frames arbitrary: acc s)
  case (Cons f fs)
  then obtain s1 r where one: "process_one normal (print_f64 env) (snapshot_of env s) (loop_now env) f i s = (s1, Ok r)"
    "run_frames normal env i fs (acc @ [r]) s1 = (s2, Ok responses)"
    by (auto split: prod.splits result.splits)
  from Cons.IH [OF one(2)] obtain rs where "responses = (acc @ [r]) @ rs" "answers_to normal env i s1 fs rs s2" by blast
  then show ?case using answers_to.next_frame [OF one(1)] by force
qed (auto intro: answers_to.none)

lemma answers_to_length: "answers_to normal env i s fs rs s' \<Longrightarrow> length rs = length fs"
  by (induction rule: answers_to.induct) simp_all

text \<open>The read phase keeps the write buffer consistent.\<close>

lemma close_conn_ok: "conn_ok c \<Longrightarrow> conn_ok (fst (close_conn now e c))"
  by (simp add: close_conn_def)

lemma read_available_ok: "conn_ok c \<Longrightarrow> conn_ok (fst (read_available env i c))"
proof -
  assume c: "conn_ok c"
  obtain d q where d: "read_conn (reads env i) (loop_now env) c = (d, q)" by (meson surj_pair)
  have ok: "conn_ok d" using c d by (cases "(reads env i, loop_now env, c)" rule: read_conn.cases) (auto simp: conn_ok_def)
  have "conn_ok (fst (parse_available env d))"
    using ok by (auto simp: parse_available_def conn_ok_def Let_def split: result.split prod.split)
  moreover have "conn_ok (fst (close_conn (loop_now env) (shut env i) d))" using close_conn_ok [OF ok] .
  ultimately show ?thesis using ok d
    by (cases q; cases "close_conn (loop_now env) (shut env i) d"; cases "snd (close_conn (loop_now env) (shut env i) d)")
      (auto simp: read_available_def split: bool.split)
qed

lemma read_phase_ok: "conn_ok c \<Longrightarrow> conn_ok (fst (read_phase env i c))"
proof -
  assume c: "conn_ok c"
  obtain d q where d: "flush (loop_now env) c = (d, q)" by (meson surj_pair)
  then have "conn_ok d" using conn_ok_sends(2) [OF c, of "loop_now env"] by simp
  then show ?thesis using c d read_available_ok by (cases q) (auto simp: read_phase_def)
qed


definition sample_loop :: loop_env where
  "sample_loop = \<lparr>reads = (\<lambda>i. Read_Data (''+x'' @ [CR, LF])), shut = (\<lambda>i. None), loop_now = 5, idle_timeout = 0, max_clients = 9,
     snapshot_of = (\<lambda>s. Ok []), parse_f64 = (\<lambda>b. None), print_f64 = (\<lambda>x. ''0'')\<rparr>"

lemma sample_reads:
  "\<exists>p. read_phase sample_loop 1 (new_connection 1 (''h'', 1) 0 []) =
     ((new_connection 1 (''h'', 1) 0 [])\<lparr>last_activity := 5, parser := p\<rparr>, Ok ([SimpleString ''x''], False))"
proof -
  have "map (serialize_to_vec (\<lambda>x. ''0'')) [SimpleString ''x''] = map Ok [''+x'' @ [CR, LF]]" by code_simp
  then have "pipeline_of (\<lambda>x. ''0'') (\<lambda>b. None) [SimpleString ''x''] (''+x'' @ [CR, LF])"
    using pipeline_exists [of "\<lambda>x. ''0''" "\<lambda>b. None" "[SimpleString ''x'']" "[''+x'' @ [CR, LF]]"] by simp
  then obtain p where "drain_frames (\<lambda>b. None) (feed (''+x'' @ [CR, LF]) new_parser) [] = Ok (p, [SimpleString ''x''])"
    using drain_pipeline [of "feed (''+x'' @ [CR, LF]) new_parser" "\<lambda>x. ''0''" "\<lambda>b. None" "[SimpleString ''x'']" "[]" "[]"] by auto
  then show ?thesis
    by (simp add: read_phase_def has_pending_writes_def read_available_def parse_available_def new_connection_def sample_loop_def idle_def)
qed

lemma sample_table_ok: "table_ok sample" "client sample 1 = Some (new_connection 1 (''h'', 1) 0 [])" "others_ok no_other"
proof -
  show c: "client sample 1 = Some (new_connection 1 (''h'', 1) 0 [])" by (simp add: sample_def)
  have "conn_ok c" if "client sample i = Some c" for i c
    using that by (auto simp: sample_def sample_server_def client_def insert_connection_def new_sharded_def conn_shard_def CONNECTION_SHARDS_def
      new_connection_def conn_ok_def nth_list_update split: if_splits)
  then show "table_ok sample" by (simp add: table_ok_def)
qed (simp add: others_ok_def processor_ok_def no_other_def keeps_refl)

lemma sample_processed: "\<exists>b. snd (process_connection normal sample_loop 1 sample) = Ok b"
proof -
  obtain p where p: "read_phase sample_loop 1 (new_connection 1 (''h'', 1) 0 []) =
     ((new_connection 1 (''h'', 1) 0 [])\<lparr>last_activity := 5, parser := p\<rparr>, Ok ([SimpleString ''x''], False))" using sample_reads by blast
  define c1 where "c1 = (new_connection 1 (''h'', 1) 0 [])\<lparr>last_activity := 5, parser := p\<rparr>"
  define s1 where "s1 = fst (with_client 1 (read_phase sample_loop 1) sample)"
  have w: "with_client 1 (read_phase sample_loop 1) sample = (s1, Some (Ok ([SimpleString ''x''], False)))"
    using with_client_result [of 1 "read_phase sample_loop 1" sample] sample_table_ok(2) p by (simp add: s1_def prod_eq_iff)
  have c: "client s1 1 = Some c1"
    using with_client_client [of sample 1 "read_phase sample_loop 1" 1] sample_table_ok(2) p by (simp add: s1_def c1_def)
  obtain r where r: "run_frames normal sample_loop 1 [SimpleString ''x''] [] s1 = (s1, Ok [Error r])"
    by (simp add: process_one_def process_frame_def)
  have "needs_immediate_flush [SimpleString ''x''] = False" by (simp add: needs_immediate_flush_def frame_command_def immediate_names_def)
  then have "\<exists>d. send_replies sample_loop (needs_immediate_flush [SimpleString ''x'']) [Error r] c1 = (d, Ok ())"
    using flush_replies_never_fails by (metis prod.collapse send_replies_def)
  then have "\<exists>b. snd (send_phase sample_loop 1 (pubsub s1) [SimpleString ''x''] False [Error r] c1) = Ok b"
    by (auto simp: send_phase_def finish_connection_def Let_def)
  then show ?thesis using w r c with_client_result [of 1 "send_phase sample_loop 1 (pubsub s1) [SimpleString ''x''] False [Error r]" s1]
    by (cases "with_client 1 (send_phase sample_loop 1 (pubsub s1) [SimpleString ''x''] False [Error r]) s1") (simp add: process_connection_def)
qed


section \<open>Errors that end the server\<close>

lemma pop_wrong_type:
  assumes "wake_op w \<in> {BLPop, BRPop}" "lookup e (wake_db w) (wake_key w) = Some sv" "\<forall>l. sv_value sv \<noteq> VList l"
  shows "snd (pop_for (wake_op w) (wake_db w) (wake_key w) e) = Err (Storage WrongType)"
  using assms
  by (auto simp: pop_for_def on_shard_def lookup_def shard_of_def Let_def split: val.splits if_splits)

text \<open>
  C38: the wake-up of a blocked client is queued when an element is pushed and served in the next turn.  When by then the
  key holds a value of another type, the pop fails, and the error is not answered to anyone: it leaves the loop of
  \<^verbatim>\<open>run\<close> and ends the server.
\<close>

theorem wakeup_wrong_type_ends_server:
  assumes "wake_queue (blocking s) = w # ws" "wake_op w \<in> {BLPop, BRPop}"
    "lookup (storage s) (wake_db w) (wake_key w) = Some sv" "\<forall>l. sv_value sv \<noteq> VList l"
  shows "snd (loop_turn normal env incoming s) = Err (Storage WrongType)"
proof -
  have wrong: "\<exists>t'. wake_client fp w t = (t', Err (Storage WrongType))" if "storage t = storage s" for fp t
    using pop_wrong_type [OF assms(2-4)] that
    by (cases "pop_for (wake_op w) (wake_db w) (wake_key w) (storage s)") (simp add: wake_client_def)
  obtain t' where "wake_client (print_f64 env) w (s\<lparr>blocking := (blocking s)\<lparr>wake_queue := drop 31 ws\<rparr>\<rparr>) = (t', Err (Storage WrongType))"
    using wrong [of "s\<lparr>blocking := (blocking s)\<lparr>wake_queue := drop 31 ws\<rparr>\<rparr>"] by auto
  then have "snd (server_wakeups (print_f64 env) s) = Err (Storage WrongType)"
    using assms(1) by (simp add: server_wakeups_def take_wakeups_exact Let_def)
  then show ?thesis by (cases "server_wakeups (print_f64 env) s") (simp add: loop_turn_def)
qed

theorem wakeup_wrong_type_ends_server_witness:
  "snd (loop_turn (process_normal_command no_other sample_envs) sample_loop []
     (sample\<lparr>storage := sample_sets, blocking := (blocking sample)\<lparr>wake_queue := [\<lparr>wake_conn = 1, wake_db = 0, wake_key = ''s'', wake_op = BLPop\<rparr>]\<rparr>\<rparr>))
   = Err (Storage WrongType)"
proof -
  have "(case lookup sample_sets 0 ''s'' of Some sv \<Rightarrow> (case sv_value sv of VSet x \<Rightarrow> True | _ \<Rightarrow> False) | None \<Rightarrow> False)" by code_simp
  then obtain sv x where sv: "lookup sample_sets 0 ''s'' = Some sv" "sv_value sv = VSet x" by (auto split: option.splits val.splits)
  show ?thesis by (rule wakeup_wrong_type_ends_server [where sv = sv and w = "\<lparr>wake_conn = 1, wake_db = 0, wake_key = ''s'', wake_op = BLPop\<rparr>" and ws = "[]"]) (use sv in simp_all)
qed

end
