(* ===== verification/Replica.thy ===== *)
theory Replica
  imports Dispatch
begin

text \<open>
  The replica's side of replication (\<^verbatim>\<open>src/replication/client.rs\<close>): the handshake with the master, the initial
  synchronization, and the loop that applies the commands of the master to database 0.

  The connection to the master is a record of the answers its socket gives: \<open>incoming\<close> to reads, \<open>write_answers\<close>
  to writes.  After the last recorded answer the master has closed the connection.  The thread shares the
  replication manager and the storage with the server; it is modelled by itself.
\<close>

section \<open>Applying the commands of the master\<close>

text \<open>\<^verbatim>\<open>let _ = call\<close> and \<^verbatim>\<open>call?;\<close> on the engine.\<close>

definition ignoring :: "'s \<times> 'a result \<Rightarrow> 's \<times> unit result" where
  "ignoring p = (fst p, case snd p of Panic \<Rightarrow> Panic | _ \<Rightarrow> Ok ())"

definition checked :: "'s \<times> 'a result \<Rightarrow> 's \<times> unit result" where
  "checked p = and_then p (\<lambda>s _. (s, Ok ()))"

definition skipped :: "('s, unit) step" where
  "skipped s = (s, Ok ())"

fun replicated_options :: "nat option \<Rightarrow> resp_frame list \<Rightarrow> nat option" where
  "replicated_options ex [] = ex"
| "replicated_options ex [p] = ex"
| "replicated_options ex (p # q # ps) =
     (case bulk p of
        None \<Rightarrow> replicated_options ex (q # ps)
      | Some opt \<Rightarrow>
          if upper_is opt ''EX'' then replicated_options (case Option.bind (bulk q) parse_u64 of Some n \<Rightarrow> Some (from_secs n) | None \<Rightarrow> ex) ps
          else if upper_is opt ''PX'' then replicated_options (case Option.bind (bulk q) parse_u64 of Some n \<Rightarrow> Some (from_millis n) | None \<Rightarrow> ex) ps
          else replicated_options ex (q # ps))"

definition handle_replicated_set :: "command_env \<Rightarrow> resp_frame list \<Rightarrow> (storage_engine, unit) step" where
  "handle_replicated_set env parts =
     (if length parts < 3 then skipped
      else case (bulk (parts ! 1), bulk (parts ! 2)) of
             (Some key, Some b) \<Rightarrow> (\<lambda>s. checked (store_string 0 key b (replicated_options None (drop 3 parts)) (clock env 0) s))
           | _ \<Rightarrow> skipped)"

fun delete_all :: "resp_frame list \<Rightarrow> (storage_engine, unit) step" where
  "delete_all [] = skipped"
| "delete_all (p # ps) =
     (case bulk p of
        Some key \<Rightarrow> (\<lambda>s. and_then (ignoring (on_shard 0 key (delete_key key) s)) (\<lambda>s _. delete_all ps s))
      | None \<Rightarrow> delete_all ps)"

definition handle_replicated_del :: "resp_frame list \<Rightarrow> (storage_engine, unit) step" where
  "handle_replicated_del parts = delete_all (drop 1 parts)"

definition handle_replicated_expire :: "command_env \<Rightarrow> resp_frame list \<Rightarrow> (storage_engine, unit) step" where
  "handle_replicated_expire env parts =
     (if length parts \<noteq> 3 then skipped
      else case (bulk (parts ! 1), Option.bind (bulk (parts ! 2)) parse_u64) of
             (Some key, Some seconds) \<Rightarrow> (\<lambda>s. ignoring (on_shard 0 key (expire key (from_secs seconds) (clock env 0) (clock env 1)) s))
           | _ \<Rightarrow> skipped)"

definition handle_replicated_incr :: "command_env \<Rightarrow> resp_frame list \<Rightarrow> (storage_engine, unit) step" where
  "handle_replicated_incr env parts =
     (if length parts < 2 then skipped
      else case (bulk (parts ! 0), bulk (parts ! 1)) of
             (Some command, Some key) \<Rightarrow>
               if upper_is command ''INCR'' then (\<lambda>s. ignoring (on_shard 0 key (incr key (clock env 0)) s))
               else if upper_is command ''DECR'' then (\<lambda>s. ignoring (on_shard 0 key (incr_by key (- 1) (clock env 0)) s))
               else if upper_is command ''INCRBY'' \<and> length parts = 3 then
                 (case Option.bind (bulk (parts ! 2)) parse_i64 of
                    Some n \<Rightarrow> (\<lambda>s. ignoring (on_shard 0 key (incr_by key n (clock env 0)) s))
                  | None \<Rightarrow> skipped)
               else skipped
           | _ \<Rightarrow> skipped)"

text \<open>\<^verbatim>\<open>LPUSH\<close>, \<^verbatim>\<open>RPUSH\<close> and \<^verbatim>\<open>SADD\<close> have the same shape.\<close>

definition replicated_elements :: "(bytes \<Rightarrow> bytes list \<Rightarrow> (storage_engine, 'a) step) \<Rightarrow> resp_frame list \<Rightarrow> (storage_engine, unit) step" where
  "replicated_elements call parts =
     (if length parts < 3 then skipped
      else case bulk (parts ! 1) of
             None \<Rightarrow> skipped
           | Some key \<Rightarrow> (let elements = List.map_filter bulk (drop 2 parts) in if elements = [] then skipped else (\<lambda>s. checked (call key elements s))))"

definition handle_replicated_lpush :: "command_env \<Rightarrow> resp_frame list \<Rightarrow> (storage_engine, unit) step" where
  "handle_replicated_lpush env = replicated_elements (\<lambda>key vs. on_shard 0 key (lpush key vs (clock env 0)))"

definition handle_replicated_rpush :: "command_env \<Rightarrow> resp_frame list \<Rightarrow> (storage_engine, unit) step" where
  "handle_replicated_rpush env = replicated_elements (\<lambda>key vs. on_shard 0 key (rpush key vs (clock env 0)))"

definition handle_replicated_sadd :: "command_env \<Rightarrow> resp_frame list \<Rightarrow> (storage_engine, unit) step" where
  "handle_replicated_sadd env = replicated_elements (\<lambda>key vs. on_shard 0 key (sadd key vs (clock env 0)))"

fun replicated_fields :: "resp_frame list \<Rightarrow> (bytes \<times> bytes) list" where
  "replicated_fields (f # v # ps) =
     (case (bulk f, bulk v) of (Some field, Some b) \<Rightarrow> (field, b) # replicated_fields ps | _ \<Rightarrow> replicated_fields ps)"
| "replicated_fields ps = []"

definition handle_replicated_hset :: "command_env \<Rightarrow> resp_frame list \<Rightarrow> (storage_engine, unit) step" where
  "handle_replicated_hset env parts =
     (if length parts < 4 \<or> length parts mod 2 \<noteq> 0 then skipped
      else case bulk (parts ! 1) of
             None \<Rightarrow> skipped
           | Some key \<Rightarrow> (let fvs = replicated_fields (drop 2 parts) in if fvs = [] then skipped else (\<lambda>s. checked (on_shard 0 key (hset key fvs (clock env 0)) s))))"

fun replicated_scores :: "command_env \<Rightarrow> bytes \<Rightarrow> nat \<Rightarrow> resp_frame list \<Rightarrow> (storage_engine, unit) step" where
  "replicated_scores env key i (p # q # ps) =
     (case (bulk p, bulk q) of
        (Some b, Some member) \<Rightarrow>
          (case read_f64 env b of
             Some score \<Rightarrow>
               (\<lambda>s. and_then (ignoring (on_shard 0 key (zadd (draw_level env i) key member score (clock env i)) s)) (\<lambda>s _. replicated_scores env key (i + 1) ps s))
           | None \<Rightarrow> replicated_scores env key i ps)
      | _ \<Rightarrow> replicated_scores env key i ps)"
| "replicated_scores env key i ps = skipped"

definition handle_replicated_zadd :: "command_env \<Rightarrow> resp_frame list \<Rightarrow> (storage_engine, unit) step" where
  "handle_replicated_zadd env parts =
     (if length parts < 4 \<or> length parts mod 2 \<noteq> 0 then skipped
      else case bulk (parts ! 1) of None \<Rightarrow> skipped | Some key \<Rightarrow> replicated_scores env key 0 (drop 2 parts))"

section \<open>The replica\<close>

text \<open>
  \<open>Got []\<close> is the end of the stream; the other answers carry the text of the error.  A failed write says how many bytes got out.
\<close>

datatype link_read = Got bytes | Timed_Out string | Was_Interrupted string | Broke string

datatype link_write = All_Written | Write_Broke nat string

record master_link =
  incoming :: "link_read list"
  outgoing :: bytes
  write_answers :: "link_write list"

record replica_node =
  store :: storage_engine
  manager :: replication_manager
  link :: master_link
  applied :: nat

text \<open>
  \<open>replica_envs n\<close> is what the \<open>n\<close>-th applied command meets, \<open>stop_requested n\<close> the stop flag at the \<open>n\<close>-th turn of the loop, \<open>debug_frame\<close> the
  \<^verbatim>\<open>Debug\<close> text of a frame and \<open>master_password\<close> the text that \<^verbatim>\<open>get_master_password\<close> returns.
\<close>

record replica_env =
  replica_envs :: "nat \<Rightarrow> command_env"
  stop_requested :: "nat \<Rightarrow> bool"
  debug_frame :: "resp_frame \<Rightarrow> string"
  link_read_f64 :: "string \<Rightarrow> f64 option"
  link_show_f64 :: "f64 \<Rightarrow> string"
  listening_port :: nat

definition get_master_password :: "string option" where
  "get_master_password = Some ''mysecretpassword''"

definition eq_ignore_ascii_case :: "nat list \<Rightarrow> string \<Rightarrow> bool" where
  "eq_ignore_ascii_case ps word \<longleftrightarrow>
     map (\<lambda>n. if 97 \<le> n \<and> n \<le> 122 then n - 32 else n) ps = map (\<lambda>n. if 97 \<le> n \<and> n \<le> 122 then n - 32 else n) (ascii word)"

definition apply_command :: "command_env \<Rightarrow> bytes \<Rightarrow> resp_frame list \<Rightarrow> (storage_engine, unit) step" where
  "apply_command env b parts =
     (let command = to_uppercase (from_utf8_lossy b) in
      if command = ascii ''SET'' then handle_replicated_set env parts
      else if command = ascii ''DEL'' then handle_replicated_del parts
      else if command = ascii ''EXPIRE'' then handle_replicated_expire env parts
      else if command = ascii ''INCR'' \<or> command = ascii ''DECR'' \<or> command = ascii ''INCRBY'' then handle_replicated_incr env parts
      else if command = ascii ''LPUSH'' then handle_replicated_lpush env parts
      else if command = ascii ''RPUSH'' then handle_replicated_rpush env parts
      else if command = ascii ''SADD'' then handle_replicated_sadd env parts
      else if command = ascii ''HSET'' then handle_replicated_hset env parts
      else if command = ascii ''ZADD'' then handle_replicated_zadd env parts
      else skipped)"

definition process_replication_command :: "replica_env \<Rightarrow> resp_frame \<Rightarrow> (replica_node, unit) step" where
  "process_replication_command renv frame s =
     (case frame of
        Array (Some (BulkString (Some b) # args)) \<Rightarrow>
          if eq_ignore_ascii_case (from_utf8_lossy b) ''PING'' then (s, Ok ())
          else
            (let (e, r) = apply_command (replica_envs renv (applied s)) b (BulkString (Some b) # args) (store s); s = s\<lparr>store := e, applied := applied s + 1\<rparr> in
             and_then (s, r) (\<lambda>s _. (s\<lparr>manager := fst (update_replica_offset (get_repl_offset (manager s) + 1) None (manager s))\<rparr>, Ok ())))
      | _ \<Rightarrow> (s, Ok ()))"

section \<open>The connection to the master\<close>

definition take_read :: "nat \<Rightarrow> master_link \<Rightarrow> master_link \<times> link_read" where
  "take_read n l =
     (case incoming l of
        [] \<Rightarrow> (l, Got [])
      | Got bs # rest \<Rightarrow> (l\<lparr>incoming := (if length bs \<le> n then rest else Got (drop n bs) # rest)\<rparr>, Got (take n bs))
      | a # rest \<Rightarrow> (l\<lparr>incoming := rest\<rparr>, a))"

fun answer_size :: "link_read \<Rightarrow> nat" where
  "answer_size (Got bs) = length bs + 1"
| "answer_size _ = 1"

definition remaining :: "master_link \<Rightarrow> nat" where
  "remaining l = sum_list (map answer_size (incoming l))"

lemma take_read_decreases:
  "take_read n l = (l', a) \<Longrightarrow> 0 < n \<Longrightarrow> a \<noteq> Got [] \<Longrightarrow> remaining l' < remaining l"
  by (auto simp: take_read_def remaining_def split: list.splits link_read.splits if_splits)

lemma take_read_got: "(l', Got bs) = take_read n l \<Longrightarrow> bs \<noteq> [] \<Longrightarrow> 0 < n \<Longrightarrow> remaining l' < remaining l"
  using take_read_decreases [of n l l' "Got bs"] by simp

definition write_all :: "bytes \<Rightarrow> master_link \<Rightarrow> master_link \<times> unit result" where
  "write_all bs l =
     (case write_answers l of
        Write_Broke n e # rest \<Rightarrow> (l\<lparr>outgoing := outgoing l @ take n bs, write_answers := rest\<rparr>, Err (Connection (''Write error: '' @ e)))
      | ws \<Rightarrow> (l\<lparr>outgoing := outgoing l @ bs, write_answers := tl ws\<rparr>, Ok ()))"

definition send_command :: "replica_env \<Rightarrow> string list \<Rightarrow> master_link \<Rightarrow> master_link \<times> unit result" where
  "send_command renv args l =
     (case serialize_to_vec (link_show_f64 renv) (Array (Some (map (\<lambda>a. BulkString (Some a)) args))) of
        Ok bs \<Rightarrow> write_all bs l
      | Err e \<Rightarrow> (l, Err e)
      | Panic \<Rightarrow> (l, Panic))"

text \<open>The parser of \<^verbatim>\<open>read_response\<close> lives until the first frame: bytes read after that frame are dropped with it.\<close>

function read_frame :: "replica_env \<Rightarrow> resp_parser \<Rightarrow> master_link \<Rightarrow> master_link \<times> resp_frame result" where
  "read_frame renv p l =
     (case take_read 4096 l of
        (l', Got bs) \<Rightarrow>
          if bs = [] then (l', Err (Connection ''Master closed connection''))
          else (case parse (link_read_f64 renv) (feed bs p) of
                  (p', Ok (Some frame)) \<Rightarrow> (l', Ok frame)
                | (p', Ok None) \<Rightarrow> read_frame renv p' l'
                | (p', Err e) \<Rightarrow> (l', Err e)
                | (p', Panic) \<Rightarrow> (l', Panic))
      | (l', Timed_Out e) \<Rightarrow> (l', Err (Connection (''Read error: '' @ e)))
      | (l', Was_Interrupted e) \<Rightarrow> (l', Err (Connection (''Read error: '' @ e)))
      | (l', Broke e) \<Rightarrow> (l', Err (Connection (''Read error: '' @ e))))"
  by pat_completeness auto
termination
  by (relation "measure (\<lambda>(renv, p, l). remaining l)") (auto intro: take_read_decreases [OF sym])

declare read_frame.simps [simp del]

definition read_response :: "replica_env \<Rightarrow> master_link \<Rightarrow> master_link \<times> resp_frame result" where
  "read_response renv = read_frame renv new_parser"

definition utf8_point :: "nat \<Rightarrow> string" where
  "utf8_point n =
     map char_of
      (if n < 0x80 then [n]
       else if n < 0x800 then [0xC0 + n div 64, 0x80 + n mod 64]
       else if n < 0x10000 then [0xE0 + n div 4096, 0x80 + n div 64 mod 64, 0x80 + n mod 64]
       else [0xF0 + n div 262144, 0x80 + n div 4096 mod 64, 0x80 + n div 64 mod 64, 0x80 + n mod 64])"

definition text_of :: "nat list \<Rightarrow> string" where
  "text_of ps = concat (map utf8_point ps)"

definition expect_response :: "replica_env \<Rightarrow> string \<Rightarrow> resp_frame \<Rightarrow> unit result" where
  "expect_response renv expected response =
     (let compare = (\<lambda>b. if from_utf8_lossy b = ascii expected then Ok ()
        else Err (Protocol (''Expected '' @ [CHR 0x27] @ expected @ [CHR 0x27] @ '', got '' @ [CHR 0x27] @ text_of (from_utf8_lossy b) @ [CHR 0x27]))) in
      case response of
        SimpleString b \<Rightarrow> compare b
      | BulkString (Some b) \<Rightarrow> compare b
      | _ \<Rightarrow> Err (Protocol (''Unexpected response type: '' @ debug_frame renv response)))"

definition expect_ok :: "replica_env \<Rightarrow> resp_frame \<Rightarrow> unit result" where
  "expect_ok renv = expect_response renv ''OK''"

definition authenticated :: "resp_frame \<Rightarrow> unit result" where
  "authenticated response =
     (case response of
        SimpleString b \<Rightarrow> if from_utf8_lossy b = ascii ''OK'' then Ok () else Err (Protocol ''Unexpected AUTH response'')
      | Error b \<Rightarrow> Err (Protocol ''Authentication failed'')
      | _ \<Rightarrow> Err (Protocol ''Unexpected AUTH response''))"

definition exchange :: "replica_env \<Rightarrow> string list \<Rightarrow> (resp_frame \<Rightarrow> unit result) \<Rightarrow> (master_link, unit) step" where
  "exchange renv args check l =
     and_then (send_command renv args l) (\<lambda>l _. and_then (read_response renv l) (\<lambda>l response. (l, check response)))"

definition perform_handshake :: "replica_env \<Rightarrow> (master_link, unit) step" where
  "perform_handshake renv l =
     and_then (case get_master_password of Some pw \<Rightarrow> exchange renv [''AUTH'', pw] authenticated l | None \<Rightarrow> (l, Ok ())) (\<lambda>l _.
     and_then (exchange renv [''PING''] (expect_response renv ''PONG'') l) (\<lambda>l _.
     and_then (exchange renv [''REPLCONF'', ''listening-port'', nat_to_string (listening_port renv)] (expect_ok renv) l) (\<lambda>l _.
       exchange renv [''REPLCONF'', ''capa'', ''eof'', ''capa'', ''psync2''] (expect_ok renv) l)))"

section \<open>The initial synchronization\<close>

text \<open>\<^verbatim>\<open>Read::read_exact\<close>: interrupted reads are retried, the end of the stream is an error.\<close>

function read_exactly :: "nat \<Rightarrow> bytes \<Rightarrow> master_link \<Rightarrow> master_link \<times> (string + bytes)" where
  "read_exactly n acc l =
     (if n = 0 then (l, Inr acc)
      else (case take_read n l of
              (l', Got bs) \<Rightarrow> if bs = [] then (l', Inl ''failed to fill whole buffer'') else read_exactly (n - length bs) (acc @ bs) l'
            | (l', Was_Interrupted e) \<Rightarrow> read_exactly n acc l'
            | (l', Timed_Out e) \<Rightarrow> (l', Inl e)
            | (l', Broke e) \<Rightarrow> (l', Inl e)))"
  by pat_completeness auto
termination
  by (relation "measure (\<lambda>(n, acc, l). remaining l)") (auto intro: take_read_decreases [OF sym])

declare read_exactly.simps [simp del]

lemma read_exactly_decreases: "read_exactly n acc l = (l', Inr bs) \<Longrightarrow> 0 < n \<Longrightarrow> remaining l' < remaining l"
proof (induction n acc l arbitrary: l' rule: read_exactly.induct)
  case (1 n acc l)
  obtain k a where t: "take_read n l = (k, a)" by (meson surj_pair)
  show ?case
  proof (cases a)
    case (Got cs)
    with 1 t have cs: "cs \<noteq> []" "read_exactly (n - length cs) (acc @ cs) k = (l', Inr bs)"
      by (auto simp: read_exactly.simps [of n acc l] split: if_splits)
    have less: "remaining k < remaining l" using take_read_decreases [OF t] "1.prems"(2) cs Got by simp
    show ?thesis
    proof (cases "n - length cs = 0")
      case True
      then show ?thesis using cs less by (simp add: read_exactly.simps)
    next
      case False
      then show ?thesis using "1.IH"(1) [OF _ t [symmetric] Got cs(1,2)] "1.prems"(2) less by simp
    qed
  next
    case (Was_Interrupted e)
    with 1 t have "read_exactly n acc k = (l', Inr bs)" by (simp add: read_exactly.simps [of n acc l])
    then show ?thesis using "1.IH"(2) [OF _ t [symmetric] Was_Interrupted] "1.prems"(2) take_read_decreases [OF t] Was_Interrupted by fastforce
  qed (use 1 t in \<open>auto simp: read_exactly.simps [of n acc l]\<close>)
qed

text \<open>The length prefix: bytes up to the first CR LF; a CR before another byte belongs to the prefix.\<close>

function read_prefix :: "bytes \<Rightarrow> master_link \<Rightarrow> master_link \<times> bytes result" where
  "read_prefix acc l =
     (case read_exactly 1 [] l of
        (l', Inl e) \<Rightarrow> (l', Err (Protocol (''Failed to read RDB length prefix: '' @ e)))
      | (l', Inr bs) \<Rightarrow>
          if bs = [CR] then
            (case read_exactly 1 [] l' of
               (l'', Inl e) \<Rightarrow> (l'', Err (Protocol ''Failed to read delimiter''))
             | (l'', Inr cs) \<Rightarrow> if cs = [LF] then (l'', Ok acc) else read_prefix (acc @ [CR] @ cs) l'')
          else read_prefix (acc @ bs) l')"
  by pat_completeness auto
termination
  by (relation "measure (\<lambda>(acc, l). remaining l)")
    (auto dest!: read_exactly_decreases [OF sym])

declare read_prefix.simps [simp del]

function read_body :: "nat \<Rightarrow> master_link \<Rightarrow> master_link \<times> unit result" where
  "read_body n l =
     (if n = 0 then (l, Ok ())
      else (case take_read n l of
              (l', Got bs) \<Rightarrow> if bs = [] then (l', Err (Protocol ''Unexpected EOF during RDB transfer'')) else read_body (n - length bs) l'
            | (l', Timed_Out e) \<Rightarrow> read_body n l'
            | (l', Was_Interrupted e) \<Rightarrow> read_body n l'
            | (l', Broke e) \<Rightarrow> (l', Err (Protocol (''Failed to read RDB data: '' @ e)))))"
  by pat_completeness auto
termination
  by (relation "measure (\<lambda>(n, l). remaining l)") (auto intro: take_read_decreases [OF sym])

declare read_body.simps [simp del]

definition read_trailer :: "(master_link, unit) step" where
  "read_trailer l =
     (case read_exactly 2 [] l of
        (l', Inl e) \<Rightarrow> (l', Err (Protocol (''Failed to read RDB trailing bytes: '' @ e)))
      | (l', Inr bs) \<Rightarrow> if bs = [CR, LF] then (l', Ok ()) else (l', Err (Protocol ''Missing CRLF after RDB data'')))"

text \<open>The errors of \<^verbatim>\<open>str::parse::<usize>\<close>.\<close>

definition usize_error :: "string \<Rightarrow> string" where
  "usize_error t =
     (let ds = (case t of c # cs \<Rightarrow> if c = CHR ''+'' \<and> cs \<noteq> [] then cs else t | [] \<Rightarrow> t) in
      if t = [] then ''cannot parse integer from empty string''
      else if parse_nat ds = None then ''invalid digit found in string''
      else ''number too large to fit in target type'')"

definition receive_rdb :: "(master_link, unit) step" where
  "receive_rdb l =
     and_then (read_prefix [] l) (\<lambda>l prefix.
       (case from_utf8_lossy prefix of
          c # ps \<Rightarrow>
            if c = of_char (CHR ''$'') then
              (case parse_usize (text_of ps) of
                 Some n \<Rightarrow> and_then (read_body n l) (\<lambda>l _. read_trailer l)
               | None \<Rightarrow> (l, Err (Protocol (''Invalid RDB length: '' @ usize_error (text_of ps)))))
            else (l, Err (Protocol ''Expected bulk string for RDB''))
        | [] \<Rightarrow> (l, Err (Protocol ''Expected bulk string for RDB''))))"

function split_whitespace :: "nat list \<Rightarrow> nat list list" where
  "split_whitespace ps =
     (let rest = dropWhile white_space ps in
      if rest = [] then [] else takeWhile (\<lambda>c. \<not> white_space c) rest # split_whitespace (dropWhile (\<lambda>c. \<not> white_space c) rest))"
  by pat_completeness auto
termination
proof (relation "measure length")
  fix ps rest assume r: "rest = dropWhile white_space ps" "rest \<noteq> []"
  then have "\<not> white_space (hd rest)" using hd_dropWhile [of white_space ps] by simp
  then have "length (dropWhile (\<lambda>c. \<not> white_space c) rest) < length rest"
    using r(2) length_dropWhile_le [of "\<lambda>c. \<not> white_space c" "tl rest"] by (cases rest) auto
  then show "(dropWhile (\<lambda>c. \<not> white_space c) rest, ps) \<in> measure length" using r(1) length_dropWhile_le [of white_space ps] by simp
qed simp

declare split_whitespace.simps [simp del]

definition parse_fullresync :: "nat list \<Rightarrow> (string \<times> u64) result" where
  "parse_fullresync ps =
     (if take 11 ps \<noteq> ascii ''FULLRESYNC '' then Err (Protocol ''Expected FULLRESYNC response'')
      else (case split_whitespace (drop 11 ps) of
              [i, off] \<Rightarrow> (case parse_u64 (text_of off) of Some n \<Rightarrow> Ok (text_of i, n) | None \<Rightarrow> Err (Protocol ''Invalid offset in FULLRESYNC''))
            | _ \<Rightarrow> Err (Protocol ''Invalid FULLRESYNC response format'')))"

definition perform_initial_sync :: "replica_env \<Rightarrow> master_link \<Rightarrow> master_link \<times> (string \<times> u64) result" where
  "perform_initial_sync renv l =
     and_then (send_command renv [''PSYNC'', ''?'', ''-1''] l) (\<lambda>l _.
     and_then (read_response renv l) (\<lambda>l response.
       (case response of
          SimpleString b \<Rightarrow>
            (case parse_fullresync (from_utf8_lossy b) of
               Ok p \<Rightarrow> and_then (receive_rdb l) (\<lambda>l _. (l, Ok p))
             | Err e \<Rightarrow> (l, Err e)
             | Panic \<Rightarrow> (l, Panic))
        | BulkString (Some d) \<Rightarrow> (l, Ok (''ferrous-repl-id'', 0))
        | _ \<Rightarrow> (l, Err (Protocol (''Invalid PSYNC response type: '' @ debug_frame renv response))))))"

section \<open>The loop of the replica\<close>

text \<open>The frames in the parser are applied one by one; an error of a command is only printed.\<close>

function apply_frames :: "replica_env \<Rightarrow> resp_parser \<Rightarrow> replica_node \<Rightarrow> replica_node \<times> resp_parser result" where
  "apply_frames renv p s =
     (if \<not> parser_ok p then (s, Ok p)
      else case parse (link_read_f64 renv) p of
             (p', Ok (Some frame)) \<Rightarrow>
               (case process_replication_command renv frame s of
                  (s', Panic) \<Rightarrow> (s', Panic)
                | (s', _) \<Rightarrow> apply_frames renv p' s')
           | (p', Ok None) \<Rightarrow> (s, Ok p')
           | (p', Err e) \<Rightarrow> (s, Err e)
           | (p', Panic) \<Rightarrow> (s, Panic))"
  by pat_completeness auto
termination
  by (relation "measure (\<lambda>(renv, p, s). length (unread p))") (auto simp: parse_decreases [OF _ sym])

declare apply_frames.simps [simp del]

definition send_ack :: "replica_env \<Rightarrow> replica_node \<Rightarrow> replica_node" where
  "send_ack renv s = s\<lparr>link := fst (send_command renv [''REPLCONF'', ''ACK'', u64_to_string (get_repl_offset (manager s))] (link s))\<rparr>"

lemma send_ack_remaining [simp]: "remaining (link (send_ack renv s)) = remaining (link s)"
  by (auto simp: send_ack_def send_command_def write_all_def remaining_def split: result.split list.split link_write.split)

lemma process_replication_command_link [simp]: "link (fst (process_replication_command renv f s)) = link s"
  by (auto simp: process_replication_command_def and_then_def Let_def split: resp_frame.split option.split list.split prod.split result.split)

lemma apply_frames_link [simp]: "link (fst (apply_frames renv p s)) = link s"
proof (induction renv p s rule: apply_frames.induct)
  case (1 renv p s)
  obtain p' r where p: "parse (link_read_f64 renv) p = (p', r)" by (meson surj_pair)
  show ?case
  proof (cases "parser_ok p \<and> (\<exists>f. r = Ok (Some f))")
    case True
    then obtain f where f: "parser_ok p" "r = Ok (Some f)" by blast
    obtain s' q where q: "process_replication_command renv f s = (s', q)" by (meson surj_pair)
    have "link s' = link s" using process_replication_command_link [of renv f s] q by simp
    then show ?thesis using 1 f p q by (cases q) (simp_all add: apply_frames.simps [of renv p s])
  qed (use p in \<open>auto simp: apply_frames.simps [of renv p s] split: result.split option.split\<close>)
qed

lemma apply_frames_remaining: "apply_frames renv p s = (s', r) \<Longrightarrow> remaining (link s') = remaining (link s)"
  using apply_frames_link [of renv p s] by simp

function continuous_replication :: "replica_env \<Rightarrow> nat \<Rightarrow> resp_parser \<Rightarrow> (replica_node, unit) step" where
  "continuous_replication renv n p s =
     (if stop_requested renv n then (s, Ok ())
      else (case take_read 4096 (link s) of
              (l, Got bs) \<Rightarrow>
                if bs = [] then (s\<lparr>link := l\<rparr>, Err (Protocol ''Master closed connection''))
                else (case apply_frames renv (feed bs p) (s\<lparr>link := l\<rparr>) of
                        (s', Ok p') \<Rightarrow> continuous_replication renv (n + 1) p' s'
                      | (s', Err e) \<Rightarrow> (s', Err e)
                      | (s', Panic) \<Rightarrow> (s', Panic))
            | (l, Timed_Out e) \<Rightarrow> continuous_replication renv (n + 1) p (send_ack renv (s\<lparr>link := l\<rparr>))
            | (l, Was_Interrupted e) \<Rightarrow> continuous_replication renv (n + 1) p (s\<lparr>link := l\<rparr>)
            | (l, Broke e) \<Rightarrow> (s\<lparr>link := l\<rparr>, Err (Protocol (''Read error: '' @ e)))))"
  by pat_completeness auto
termination
  by (relation "measure (\<lambda>(renv, n, p, s). remaining (link s))")
    (auto dest!: apply_frames_remaining [OF sym] dest: take_read_got [where n = 4096, simplified] intro: take_read_decreases [OF sym])

declare continuous_replication.simps [simp del]

definition on_link :: "(master_link \<Rightarrow> master_link \<times> 'a result) \<Rightarrow> (replica_node, 'a) step" where
  "on_link f s = (let (l, r) = f (link s) in (s\<lparr>link := l\<rparr>, r))"

definition on_manager :: "(replication_manager \<Rightarrow> replication_manager \<times> 'a result) \<Rightarrow> (replica_node, 'a) step" where
  "on_manager f s = (let (m, r) = f (manager s) in (s\<lparr>manager := m\<rparr>, r))"

text \<open>The answer to \<^verbatim>\<open>TcpStream::connect\<close>: a connection, an error, or an error when its options are set.\<close>

datatype connect_answer = Connected_To master_link | Connect_Failed string | Setup_Failed string

definition connect_to_master :: "connect_answer \<Rightarrow> (replica_node, unit) step" where
  "connect_to_master ans s =
     (case ans of
        Connected_To l \<Rightarrow> (s\<lparr>link := l\<rparr>, Ok ())
      | Connect_Failed e \<Rightarrow> (s, Err (Connection (''Failed to connect to master: '' @ e)))
      | Setup_Failed e \<Rightarrow> (s, Err (Io e)))"

definition connect_and_replicate :: "replica_env \<Rightarrow> connect_answer \<Rightarrow> (replica_node, unit) step" where
  "connect_and_replicate renv ans s =
     and_then (on_manager (update_master_link_status Connecting) s) (\<lambda>s _.
     and_then (connect_to_master ans s) (\<lambda>s _.
     and_then (on_link (perform_handshake renv) s) (\<lambda>s _.
     and_then (on_manager (update_master_link_status Synchronizing) s) (\<lambda>s _.
     and_then (on_link (perform_initial_sync renv) s) (\<lambda>s (i, off).
     and_then (on_manager (update_replica_offset off (Some i)) s) (\<lambda>s _.
     and_then (on_manager (update_master_link_status Up) s) (\<lambda>s _.
       continuous_replication renv 0 new_parser s)))))))"

text \<open>
  The retries: an attempt that ends in an error is followed by a pause that doubles up to the configured maximum.
  The model runs over the recorded attempts and returns the pauses; the stop flag is read before each attempt.
\<close>

record client_config =
  min_retry_delay :: nat
  max_retry_delay :: nat
  max_retries :: nat

fun run_client :: "client_config \<Rightarrow> (bool \<times> replica_env \<times> connect_answer) list \<Rightarrow> nat \<Rightarrow> nat \<Rightarrow> nat list \<Rightarrow> (replica_node, nat list) step" where
  "run_client cfg [] delay attempts pauses s = (s, Ok pauses)"
| "run_client cfg ((stop, renv, ans) # rest) delay attempts pauses s =
     (if stop then (s, Ok pauses)
      else (case connect_and_replicate renv ans s of
              (s, Ok _) \<Rightarrow> run_client cfg rest (min_retry_delay cfg) 0 pauses s
            | (s, Err e) \<Rightarrow>
                (let s = fst (on_manager (update_master_link_status Down) s); attempts = (attempts + 1) mod 2 ^ 32 in
                 if max_retries cfg > 0 \<and> attempts \<ge> max_retries cfg then (s, Ok pauses)
                 else run_client cfg rest (min (2 * delay) (max_retry_delay cfg)) attempts (pauses @ [delay]) s)
            | (s, Panic) \<Rightarrow> (s, Panic)))"

end
