(* ===== verification/Replica_Correct.thy ===== *)
theory Replica_Correct
  imports Replica Dispatch_Correct
begin

text \<open>
  What a replica guarantees.  \<open>follows h f\<close> states that the replica's handler \<open>f\<close> reproduces every successful execution of the
  master's handler \<open>h\<close>; its rules go through the argument readers of the master.
\<close>

section \<open>Handlers that follow the master\<close>

definition follows :: "('s, resp_frame) step \<Rightarrow> ('s, unit) step \<Rightarrow> bool" where
  "follows h f \<longleftrightarrow> (\<forall>s s' r. h s = (s', Ok r) \<longrightarrow> \<not> is_error r \<longrightarrow> f s = (s', Ok ()))"

lemma followsD: "follows h f \<Longrightarrow> h s = (s', Ok r) \<Longrightarrow> \<not> is_error r \<Longrightarrow> f s = (s', Ok ())"
  by (simp add: follows_def)

lemma follows_refuse [simp]: "follows (answer (Error msg)) f"
  by (simp add: follows_def answer_def is_error_def)

lemma follows_wrong_args [simp]: "follows (answer (wrong_args cmd)) f"
  by (simp add: wrong_args_def)

lemma follows_reply [simp]: "follows (\<lambda>s. reply F (p s)) (\<lambda>s. checked (p s))"
proof -
  have "checked (p s) = (s', Ok ())" if "reply F (p s) = (s', Ok r)" for s s' r
    using that by (cases "snd (p s)") (auto simp: reply_def checked_def and_then_def)
  then show ?thesis by (simp add: follows_def)
qed

lemma follows_reply_via [simp]:
  "follows (\<lambda>s. reply_via txt F (p s)) (\<lambda>s. checked (p s))" "follows (\<lambda>s. reply_via txt F (p s)) (\<lambda>s. ignoring (p s))"
proof -
  have "checked (p s) = (s', Ok ()) \<and> ignoring (p s) = (s', Ok ())" if "reply_via txt F (p s) = (s', Ok r)" "\<not> is_error r" for s s' r
    using that by (cases "snd (p s)") (auto simp: reply_via_def checked_def ignoring_def and_then_def is_error_def)
  then show "follows (\<lambda>s. reply_via txt F (p s)) (\<lambda>s. checked (p s))" "follows (\<lambda>s. reply_via txt F (p s)) (\<lambda>s. ignoring (p s))"
    by (simp_all add: follows_def)
qed

lemma follows_bulk_arg: "(\<And>b. bulk (parts ! i) = Some b \<Longrightarrow> follows (k b) f) \<Longrightarrow> follows (bulk_arg parts i msg k) f"
  by (cases "bulk (parts ! i)") (simp_all add: bulk_arg_def)

lemma follows_parsed_arg:
  "(\<And>b n. bulk (parts ! i) = Some b \<Longrightarrow> pf b = Some n \<Longrightarrow> follows (k n) f) \<Longrightarrow> follows (parsed_arg pf bad parts i msg k) f"
  by (auto simp: parsed_arg_def intro!: follows_bulk_arg split: option.split)

lemma follows_key_arg: "(\<And>b. bulk (parts ! 1) = Some b \<Longrightarrow> follows (k b) f) \<Longrightarrow> follows (key_arg parts k) f"
  unfolding key_arg_def by (rule follows_bulk_arg) simp

lemma follows_bulk_args:
  "(list_all (\<lambda>p. bulk p \<noteq> None) ps \<Longrightarrow> follows (k (List.map_filter bulk ps)) f) \<Longrightarrow> follows (bulk_args ps msg k) f"
proof (induction ps arbitrary: k)
  case (Cons p ps)
  show ?case
  proof (cases "bulk p")
    case (Some b)
    then show ?thesis using Cons.IH [of "\<lambda>bs. k (b # bs)"] Cons.prems by (simp add: List.map_filter_simps)
  qed simp
qed (simp add: List.map_filter_simps)

lemma follows_field_values:
  "even (length ps) \<Longrightarrow> (list_all (\<lambda>p. bulk p \<noteq> None) ps \<Longrightarrow> follows (k (replicated_fields ps)) f) \<Longrightarrow> follows (field_values ps k) f"
  by (induction ps k rule: field_values.induct) (auto split: option.split)

lemma all_bulk_nonempty: "list_all (\<lambda>p. bulk p \<noteq> None) ps \<Longrightarrow> ps \<noteq> [] \<Longrightarrow> List.map_filter bulk ps \<noteq> []"
  by (cases ps) (auto simp: List.map_filter_simps)

lemma all_fields_nonempty: "list_all (\<lambda>p. bulk p \<noteq> None) ps \<Longrightarrow> even (length ps) \<Longrightarrow> ps \<noteq> [] \<Longrightarrow> replicated_fields ps \<noteq> []"
  by (cases ps rule: replicated_fields.cases) auto

lemma follows_if: "(\<not> c \<Longrightarrow> follows h f) \<Longrightarrow> follows (if c then answer (wrong_args cmd) else h) f"
  by simp

section \<open>The handlers\<close>

lemma set_options_flags: "set_options ex nx xx ps = Inr (ex', nx', xx') \<Longrightarrow> (nx \<longrightarrow> nx') \<and> (xx \<longrightarrow> xx')"
  by (induction ex nx xx ps rule: set_options.induct) (fastforce split: option.splits if_splits list.splits)+

lemma set_options_replicated: "set_options ex nx xx ps = Inr (ex', False, False) \<Longrightarrow> replicated_options ex ps = ex'"
proof (induction ex nx xx ps rule: set_options.induct)
  case (2 ex nx xx p ps)
  from "2.prems" obtain opt where opt: "bulk p = Some opt" by (auto split: option.splits)
  have no: "\<not> (upper_is opt ''NX'' \<and> \<not> upper_is opt ''EX'' \<and> \<not> upper_is opt ''PX'')" "\<not> (upper_is opt ''XX'' \<and> \<not> upper_is opt ''EX'' \<and> \<not> upper_is opt ''PX'')"
    using "2.prems" opt set_options_flags [of ex True xx ps ex' False False] set_options_flags [of ex nx True ps ex' False False] by (auto split: if_splits)
  show ?case
  proof (cases "upper_is opt ''EX''")
    case True
    then obtain q qs n where q: "ps = q # qs" "Option.bind (bulk q) parse_u64 = Some n" "set_options (Some (from_secs n)) nx xx qs = Inr (ex', False, False)"
      using "2.prems" opt by (auto split: list.splits option.splits)
    then show ?thesis using "2.IH"(1) [OF opt True q(1,2)] opt True by simp
  next
    case False
    then have px: "upper_is opt ''PX''" using "2.prems" opt no by (auto split: if_splits)
    then obtain q qs n where q: "ps = q # qs" "Option.bind (bulk q) parse_u64 = Some n" "set_options (Some (from_millis n)) nx xx qs = Inr (ex', False, False)"
      using "2.prems" opt False by (auto split: list.splits option.splits)
    then show ?thesis using "2.IH"(2) [OF opt False px q(1,2)] opt False px by simp
  qed
qed simp

lemma follows_set:
  assumes "set_options None False False (drop 3 parts) = Inr (ex, False, False)"
  shows "follows (handle_set env 0 parts) (handle_replicated_set env parts)"
  unfolding handle_set_def
  by (rule follows_if, rule follows_key_arg, rule follows_bulk_arg)
    (use assms set_options_replicated [OF assms] in \<open>simp add: handle_replicated_set_def\<close>)

lemma follows_del: "follows (handle_del env 0 parts) (handle_replicated_del parts)"
proof -
  have loop: "count_loop (\<lambda>i key. on_shard 0 key (delete_key key)) i n ps s = (s', Ok r) \<Longrightarrow> delete_all ps s = (s', Ok ())" for ps i n s s' r
  proof (induction ps arbitrary: i n s)
    case (Cons p ps)
    show ?case
    proof (cases "bulk p")
      case (Some key)
      obtain t q where t: "on_shard 0 key (delete_key key) s = (t, q)" by (meson surj_pair)
      then show ?thesis using Cons Some by (cases q) (auto simp: ignoring_def)
    qed (use Cons in simp)
  qed (simp add: answer_def skipped_def)
  show ?thesis unfolding handle_del_def handle_replicated_del_def
    by (rule follows_if) (use loop in \<open>force simp: follows_def\<close>)
qed

lemma follows_counters:
  assumes "bulk (parts ! 0) = Some b" "upper_is b n"
  shows "n = ''INCR'' \<Longrightarrow> follows (handle_incr env 0 parts) (handle_replicated_incr env parts)"
    "n = ''DECR'' \<Longrightarrow> follows (handle_decr env 0 parts) (handle_replicated_incr env parts)"
    "n = ''INCRBY'' \<Longrightarrow> follows (handle_incrby env 0 parts) (handle_replicated_incr env parts)"
  unfolding handle_incr_def handle_decr_def handle_incrby_def
  by (rule follows_if, intro follows_key_arg follows_bulk_arg follows_parsed_arg, use assms in \<open>simp add: handle_replicated_incr_def upper_is_def\<close>)+

lemma follows_elements:
  "follows (handle_lpush env 0 parts) (handle_replicated_lpush env parts)"
  "follows (handle_rpush env 0 parts) (handle_replicated_rpush env parts)"
  "follows (handle_sadd env 0 parts) (handle_replicated_sadd env parts)"
  unfolding handle_lpush_def handle_rpush_def handle_sadd_def
  by (rule follows_if, intro follows_bulk_arg follows_bulk_args,
      use all_bulk_nonempty [of "drop 2 parts"] in
      \<open>simp add: handle_replicated_lpush_def handle_replicated_rpush_def handle_replicated_sadd_def replicated_elements_def Let_def\<close>)+

lemma follows_hset: "follows (handle_hset env 0 parts) (handle_replicated_hset env parts)"
  unfolding handle_hset_def
proof (rule follows_if, rule follows_bulk_arg, rule follows_field_values)
  fix key assume a: "\<not> (length parts < 4 \<or> (length parts - 2) mod 2 \<noteq> 0)" "bulk (parts ! 1) = Some key"
  show e: "even (length (drop 2 parts))" using a by auto
  then have "length parts mod 2 = 0" using a by (cases parts; cases "tl parts") auto
  moreover assume "list_all (\<lambda>p. bulk p \<noteq> None) (drop 2 parts)"
  then have "replicated_fields (drop 2 parts) \<noteq> []" using all_fields_nonempty e a by auto
  ultimately show "follows (\<lambda>s. reply_via storage_error_reply count_frame (on_shard 0 key (hset key (replicated_fields (drop 2 parts)) (clock env 0)) s))
      (handle_replicated_hset env parts)" using a by (simp add: handle_replicated_hset_def Let_def)
qed

lemma follows_zadd: "follows (handle_zadd env 0 parts) (handle_replicated_zadd env parts)"
proof -
  have loop: "zadd_loop env 0 key i n ps s = (s', Ok r) \<Longrightarrow> \<not> is_error r \<Longrightarrow> replicated_scores env key i ps s = (s', Ok ())" for key ps i n s s' r
  proof (induction ps arbitrary: i n s rule: induct_list012)
    case (3 p q ps)
    then obtain b x m where a: "bulk p = Some b" "read_f64 env b = Some x" "bulk q = Some m"
      by (auto simp: answer_def is_error_def split: option.splits)
    obtain t z where t: "on_shard 0 key (zadd (draw_level env i) key m x (clock env i)) s = (t, z)" by (meson surj_pair)
    then show ?case using 3 a by (cases z) (auto simp: ignoring_def)
  qed (auto simp: answer_def skipped_def is_error_def split: option.splits)
  show ?thesis unfolding handle_zadd_def
    by (rule follows_if, rule follows_bulk_arg) (use loop in \<open>simp add: follows_def handle_replicated_zadd_def\<close>)
qed

section \<open>Following the stream of commands\<close>

definition replicated_names :: "string list" where
  "replicated_names = [''SET'', ''DEL'', ''INCR'', ''DECR'', ''INCRBY'', ''LPUSH'', ''RPUSH'', ''SADD'', ''HSET'', ''ZADD'']"

text \<open>The requests a replica reproduces: those of these names, where \<^verbatim>\<open>SET\<close> has none of the options \<^verbatim>\<open>NX\<close> and \<^verbatim>\<open>XX\<close>.\<close>

definition replicable :: "resp_frame list \<Rightarrow> bool" where
  "replicable parts \<longleftrightarrow> (\<exists>n \<in> set replicated_names. requests n parts \<and>
     (n = ''SET'' \<longrightarrow> (\<exists>ex. set_options None False False (drop 3 parts) = Inr (ex, False, False))))"

lemma uppercase_letter: "(if 97 \<le> n \<and> n \<le> 122 then n - 32 else n) = c \<Longrightarrow> 65 \<le> c \<Longrightarrow> c \<le> 90 \<Longrightarrow> uppercase_point n = [c]"
  by (cases "97 \<le> n \<and> n \<le> 122") simp_all

lemma uppercase_letters:
  "map (\<lambda>n. if 97 \<le> n \<and> n \<le> 122 then n - 32 else n) ps = cs \<Longrightarrow> list_all (\<lambda>c. 65 \<le> c \<and> c \<le> 90) cs \<Longrightarrow> to_uppercase ps = cs"
proof (induction ps arbitrary: cs)
  case (Cons p ps)
  then have "uppercase_point p = [hd cs]" "to_uppercase ps = tl cs" using uppercase_letter [of p "hd cs"] by (auto simp: list_all_iff)
  then show ?case using Cons.prems(1) by (auto simp: to_uppercase_def)
qed (simp add: to_uppercase_def)

declare uppercase_point.simps [simp del]

lemma ping_uppercase: "eq_ignore_ascii_case ps ''PING'' \<Longrightarrow> to_uppercase ps = ascii ''PING''"
  by (rule uppercase_letters) (simp_all add: eq_ignore_ascii_case_def)

lemma replicated_handlers:
  "(''SET'', handle_set) \<in> set storage_commands" "(''DEL'', handle_del) \<in> set storage_commands" "(''INCR'', handle_incr) \<in> set storage_commands"
  "(''DECR'', handle_decr) \<in> set storage_commands" "(''INCRBY'', handle_incrby) \<in> set storage_commands" "(''LPUSH'', handle_lpush) \<in> set storage_commands"
  "(''RPUSH'', handle_rpush) \<in> set storage_commands" "(''SADD'', handle_sadd) \<in> set storage_commands" "(''HSET'', handle_hset) \<in> set storage_commands"
  "(''ZADD'', handle_zadd) \<in> set storage_commands"
  unfolding storage_commands_def string_commands_def collection_commands_def sorted_commands_def by simp_all

lemma apply_command_names:
  "to_uppercase (from_utf8_lossy b) = ascii ''SET'' \<Longrightarrow> apply_command env b parts = handle_replicated_set env parts"
  "to_uppercase (from_utf8_lossy b) = ascii ''DEL'' \<Longrightarrow> apply_command env b parts = handle_replicated_del parts"
  "to_uppercase (from_utf8_lossy b) = ascii ''INCR'' \<Longrightarrow> apply_command env b parts = handle_replicated_incr env parts"
  "to_uppercase (from_utf8_lossy b) = ascii ''DECR'' \<Longrightarrow> apply_command env b parts = handle_replicated_incr env parts"
  "to_uppercase (from_utf8_lossy b) = ascii ''INCRBY'' \<Longrightarrow> apply_command env b parts = handle_replicated_incr env parts"
  "to_uppercase (from_utf8_lossy b) = ascii ''LPUSH'' \<Longrightarrow> apply_command env b parts = handle_replicated_lpush env parts"
  "to_uppercase (from_utf8_lossy b) = ascii ''RPUSH'' \<Longrightarrow> apply_command env b parts = handle_replicated_rpush env parts"
  "to_uppercase (from_utf8_lossy b) = ascii ''SADD'' \<Longrightarrow> apply_command env b parts = handle_replicated_sadd env parts"
  "to_uppercase (from_utf8_lossy b) = ascii ''HSET'' \<Longrightarrow> apply_command env b parts = handle_replicated_hset env parts"
  "to_uppercase (from_utf8_lossy b) = ascii ''ZADD'' \<Longrightarrow> apply_command env b parts = handle_replicated_zadd env parts"
  by (simp_all add: apply_command_def)

lemma replicable_handler:
  assumes "replicable parts"
  obtains n h b args where "requests n parts" "(n, h) \<in> set storage_commands" "parts = BulkString (Some b) # args"
    "\<not> eq_ignore_ascii_case (from_utf8_lossy b) ''PING''" "\<And>env. follows (h env 0 parts) (apply_command env b parts)"
proof -
  from assms obtain n where n: "n \<in> set replicated_names" "requests n parts"
    "n = ''SET'' \<longrightarrow> (\<exists>ex. set_options None False False (drop 3 parts) = Inr (ex, False, False))" by (auto simp: replicable_def)
  then obtain b args where b: "parts = BulkString (Some b) # args" "to_uppercase (from_utf8_lossy b) = ascii n" by (auto simp: requests_def)
  have up: "bulk (parts ! 0) = Some b" "upper_is b n" using b by (simp_all add: upper_is_def)
  have ping: "\<not> eq_ignore_ascii_case (from_utf8_lossy b) ''PING''" using ping_uppercase b(2) n(1) by (auto simp: replicated_names_def)
  have cases: "\<exists>h. (n, h) \<in> set storage_commands \<and> (\<forall>env. follows (h env 0 parts) (apply_command env b parts))"
  proof -
    note app = apply_command_names [of b _ parts]
    from n(1) consider "n = ''SET''" | "n = ''DEL''" | "n = ''INCR''" | "n = ''DECR''" | "n = ''INCRBY''" | "n = ''LPUSH''" | "n = ''RPUSH''" | "n = ''SADD''"
      | "n = ''HSET''" | "n = ''ZADD''" unfolding replicated_names_def list.set by (elim insertE emptyE) iprover+
    then show ?thesis
    proof cases
      case 1 then show ?thesis using n(3) follows_set [of parts] replicated_handlers(1) app(1) b(2) by (intro exI [of _ handle_set]) auto
    next
      case 2 then show ?thesis using follows_del [of _ parts] replicated_handlers(2) app(2) b(2) by (intro exI [of _ handle_del]) auto
    next
      case 3 then show ?thesis using follows_counters(1) [OF up] replicated_handlers(3) app(3) b(2) by (intro exI [of _ handle_incr]) auto
    next
      case 4 then show ?thesis using follows_counters(2) [OF up] replicated_handlers(4) app(4) b(2) by (intro exI [of _ handle_decr]) auto
    next
      case 5 then show ?thesis using follows_counters(3) [OF up] replicated_handlers(5) app(5) b(2) by (intro exI [of _ handle_incrby]) auto
    next
      case 6 then show ?thesis using follows_elements(1) [of _ parts] replicated_handlers(6) app(6) b(2) by (intro exI [of _ handle_lpush]) auto
    next
      case 7 then show ?thesis using follows_elements(2) [of _ parts] replicated_handlers(7) app(7) b(2) by (intro exI [of _ handle_rpush]) auto
    next
      case 8 then show ?thesis using follows_elements(3) [of _ parts] replicated_handlers(8) app(8) b(2) by (intro exI [of _ handle_sadd]) auto
    next
      case 9 then show ?thesis using follows_hset [of _ parts] replicated_handlers(9) app(9) b(2) by (intro exI [of _ handle_hset]) auto
    next
      case 10 then show ?thesis using follows_zadd [of _ parts] replicated_handlers(10) app(10) b(2) by (intro exI [of _ handle_zadd]) auto
    qed
  qed
  then show thesis using that n b ping by blast
qed

text \<open>One command: the replica ends with the data of the master and counts the command.\<close>

definition counted :: "replica_node \<Rightarrow> storage_engine \<Rightarrow> replica_node" where
  "counted s e = s\<lparr>store := e, applied := applied s + 1, manager := fst (update_replica_offset (get_repl_offset (manager s) + 1) None (manager s))\<rparr>"

lemma replica_applies:
  assumes "replicable parts" "process_normal_command other envs parts 0 i m = (m', Ok r)" "\<not> is_error r" "storage m = store s"
    "handler_env (envs (executed m)) = replica_envs renv (applied s)"
  shows "process_replication_command renv (Array (Some parts)) s = (counted s (storage m'), Ok ())"
proof -
  obtain n h b args where h: "requests n parts" "(n, h) \<in> set storage_commands" "parts = BulkString (Some b) # args"
    "\<not> eq_ignore_ascii_case (from_utf8_lossy b) ''PING''" "\<And>env. follows (h env 0 parts) (apply_command env b parts)"
    using replicable_handler [OF assms(1)] by blast
  have "h (handler_env (envs (executed m))) 0 parts (storage m) = (storage m', Ok r)"
    using process_storage_result [OF h(1,2) assms(2)] by simp
  then have "apply_command (replica_envs renv (applied s)) b parts (store s) = (storage m', Ok ())"
    using followsD [OF h(5)] assms(3-5) by simp
  then show ?thesis using h(3,4) by (simp add: process_replication_command_def counted_def)
qed

lemma executed_frames [simp]:
  "executed (log_command env c parts s) = executed s" "executed (after_push n db parts r s) = executed s" "executed (record_change s) = executed s"
  "executed (fold (\<lambda>i s. fst (with_client i (f i) s)) is s) = executed s" "executed (propagate env parts s) = executed s"
proof -
  show "executed (log_command env c parts s) = executed s" by (simp add: log_command_def Let_def split: option.split prod.split)
  show "executed (after_push n db parts r s) = executed s" by (simp add: after_push_def notify_pushed_def split: result.split resp_frame.split option.split)
  show sends: "executed (fold (\<lambda>i s. fst (with_client i (f i) s)) is s) = executed s" for f "is" and s :: server
    by (induction "is" arbitrary: s) (simp_all add: with_client_def Let_def split: prod.split)
  show "executed (propagate env parts s) = executed s" by (simp add: propagate_def sends split: prod.split result.split)
qed (simp add: record_change_def)

lemma master_counts:
  assumes "replicable parts" "process_normal_command other envs parts 0 i m = (m', r)"
  shows "executed m' = executed m + 1"
proof -
  obtain n h where h: "requests n parts" "(n, h) \<in> set storage_commands" using replicable_handler [OF assms(1)] by metis
  show ?thesis using assms(2) by (auto simp: process_storage_command [OF h] Let_def split: prod.splits)
qed

text \<open>\<open>master_runs other envs i m cmds m'\<close>: the master executes these commands on database 0 one after the other, each with success.\<close>

inductive master_runs :: "other_commands \<Rightarrow> (nat \<Rightarrow> server_env) \<Rightarrow> u64 \<Rightarrow> server \<Rightarrow> resp_frame list list \<Rightarrow> server \<Rightarrow> bool" for other envs i where
  no_command: "master_runs other envs i m [] m"
| command: "replicable parts \<Longrightarrow> process_normal_command other envs parts 0 i m = (m1, Ok r) \<Longrightarrow> \<not> is_error r \<Longrightarrow> master_runs other envs i m1 cmds m2 \<Longrightarrow>
    master_runs other envs i m (parts # cmds) m2"

inductive_cases master_runs_ConsE: "master_runs other envs i m (parts # cmds) m'"
inductive_cases master_runs_NilE: "master_runs other envs i m [] m'"

lemma counted_simps [simp]: "store (counted s e) = e" "applied (counted s e) = applied s + 1" "link (counted s e) = link s"
  "is_replica (manager s) \<Longrightarrow> is_replica (manager (counted s e)) \<and> get_repl_offset (manager (counted s e)) = get_repl_offset (manager s) + 1"
  by (auto simp: counted_def update_replica_offset_def is_replica_def get_repl_offset_def split: replication_role.splits)

lemma replica_applies_stream:
  assumes "master_runs other envs i m cmds m'" "storage m = store s" "\<And>k. handler_env (envs (executed m + k)) = replica_envs renv (applied s + k)"
    "pipeline_of fp (link_read_f64 renv) (map (\<lambda>parts. Array (Some parts)) cmds) (unread p)" "parser_ok p" "is_replica (manager s)"
  shows "\<exists>s' p'. apply_frames renv p s = (s', Ok p') \<and> unread p' = [] \<and> store s' = storage m' \<and>
    get_repl_offset (manager s') = get_repl_offset (manager s) + of_nat (length cmds)"
  using assms
proof (induction cmds arbitrary: m s p)
  case Nil
  then have u: "unread p = []" "m' = m" by (auto elim: pipeline_NilE master_runs_NilE)
  then obtain p' where "parse (link_read_f64 renv) p = (p', Ok None)" "unread p' = []"
    using parse_refined [OF Nil.prems(5), of "link_read_f64 renv"] by (auto simp: parse_unread_def)
  then show ?case using Nil.prems u by (simp add: apply_frames.simps [of renv p])
next
  case (Cons parts cmds)
  from Cons.prems(1) obtain m1 r where run: "replicable parts" "process_normal_command other envs parts 0 i m = (m1, Ok r)" "\<not> is_error r"
    "master_runs other envs i m1 cmds m'" by (rule master_runs_ConsE) blast
  have one: "process_replication_command renv (Array (Some parts)) s = (counted s (storage m1), Ok ())"
    using replica_applies [OF run(1-3) Cons.prems(2)] Cons.prems(3) [of 0] by simp
  from parse_unread_pipeline_step [of fp "link_read_f64 renv" "Array (Some parts)" _ "unread p" "[]"] Cons.prems(4)
  obtain u' where "parse_unread (link_read_f64 renv) (unread p) = (u', Ok (Some (Array (Some parts))))"
    "pipeline_of fp (link_read_f64 renv) (map (\<lambda>parts. Array (Some parts)) cmds) u'" by auto
  then obtain p1 where p1: "parse (link_read_f64 renv) p = (p1, Ok (Some (Array (Some parts))))" "parser_ok p1"
    "pipeline_of fp (link_read_f64 renv) (map (\<lambda>parts. Array (Some parts)) cmds) (unread p1)"
    using parse_refined [OF Cons.prems(5)] by blast
  have envs: "handler_env (envs (executed m1 + k)) = replica_envs renv (applied (counted s (storage m1)) + k)" for k
    using Cons.prems(3) [of "k + 1"] master_counts [OF run(1,2)] by (simp add: add.assoc add.commute [of 1])
  have "is_replica (manager (counted s (storage m1)))" using counted_simps(4) [OF Cons.prems(6)] by blast
  from Cons.IH [OF run(4) _ envs p1(3,2) this] obtain s' p' where
    "apply_frames renv p1 (counted s (storage m1)) = (s', Ok p')" "unread p' = []" "store s' = storage m'"
    "get_repl_offset (manager s') = get_repl_offset (manager (counted s (storage m1))) + of_nat (length cmds)" by auto
  then show ?case using one p1 Cons.prems(5) counted_simps(4) [OF Cons.prems(6)] by (simp add: apply_frames.simps [of renv p] add.assoc)
qed


definition sample_replica_env :: replica_env where
  "sample_replica_env = \<lparr>replica_envs = (\<lambda>n. sample_env), stop_requested = (\<lambda>n. False), debug_frame = (\<lambda>f. []), link_read_f64 = (\<lambda>b. None),
     link_show_f64 = (\<lambda>x. ''0''), listening_port = 6379\<rparr>"

definition sample_replica :: replica_node where
  "sample_replica = \<lparr>store = with_config 1 unlimited, manager = set_master (Some (''h'', 1)) [] (new_replication 99 [0]),
     link = \<lparr>incoming = [], outgoing = [], write_answers = []\<rparr>, applied = 0\<rparr>"

abbreviation sample_del :: "resp_frame list" where
  "sample_del \<equiv> [BulkString (Some ''DEL''), BulkString (Some ''k'')]"

lemma sample_del_runs: "\<exists>m. master_runs no_other sample_envs 1 sample [sample_del] m"
proof -
  have req: "requests ''DEL'' sample_del" by (simp add: requests_def to_uppercase_def from_utf8_lossy_ascii is_ascii_def uppercase_point.simps)
  then have rep: "replicable sample_del" by (auto simp: replicable_def replicated_names_def)
  have "\<exists>n. snd (handle_del sample_env 0 sample_del (with_config 1 unlimited)) = Ok (count_frame n)"
    using with_config_length [of 1 unlimited]
    by (auto simp: handle_del_def on_shard_def answer_def and_then_def Let_def split: prod.split option.split result.split)
  then obtain n where "snd (handle_del sample_env 0 sample_del (with_config 1 unlimited)) = Ok (count_frame n)" by blast
  moreover define q where "q = process_normal_command no_other sample_envs sample_del 0 1 sample"
  ultimately have "snd q = Ok (count_frame n)"
    using process_storage_result [OF req replicated_handlers(2), of no_other sample_envs 0 1 sample "fst q" "snd q"] by (simp flip: q_def) (metis snd_conv)
  then have "process_normal_command no_other sample_envs sample_del 0 1 sample = (fst q, Ok (count_frame n))" by (simp flip: q_def add: prod_eq_iff)
  moreover have "\<not> is_error (count_frame n)" by (simp add: is_error_def count_frame_def)
  ultimately show ?thesis using master_runs.command [OF rep _ _ master_runs.no_command] by blast
qed




section \<open>The initial synchronization\<close>

lemma read_frame_pipeline:
  assumes "parser_ok p" "pipeline_of fp (link_read_f64 renv) [f] (unread p @ concat chunks)" "list_all (\<lambda>c. c \<noteq> [] \<and> length c \<le> 4096) chunks"
    "chunks \<noteq> []" "incoming l = map Got chunks @ rest"
  shows "\<exists>l'. read_frame renv p l = (l', Ok f)"
  using assms
proof (induction chunks arbitrary: p l)
  case (Cons c cs)
  define l1 where "l1 = l\<lparr>incoming := map Got cs @ rest\<rparr>"
  have t: "take_read 4096 l = (l1, Got c)" using Cons.prems(3,5) by (simp add: take_read_def l1_def)
  have "pipeline_of fp (link_read_f64 renv) (f # []) (unread (feed c p) @ concat cs)" using Cons.prems(1,2) by simp
  from parse_unread_pipeline_step [OF this] show ?case
  proof
    assume "\<exists>u'. parse_unread (link_read_f64 renv) (unread (feed c p)) = (u', Ok (Some f)) \<and> pipeline_of fp (link_read_f64 renv) [] (u' @ concat cs)"
    then obtain p' where "parse (link_read_f64 renv) (feed c p) = (p', Ok (Some f))" using parse_refined [of "feed c p" "link_read_f64 renv"] Cons.prems(1) by auto
    then show ?case using t Cons.prems(3) by (simp add: read_frame.simps [of renv p l])
  next
    assume n: "parse_unread (link_read_f64 renv) (unread (feed c p)) = (unread (feed c p), Ok None) \<and> concat cs \<noteq> []"
    then obtain p' where p': "parse (link_read_f64 renv) (feed c p) = (p', Ok None)" "unread p' = unread (feed c p)" "parser_ok p'"
      using parse_refined [of "feed c p" "link_read_f64 renv"] Cons.prems(1) by auto
    have "\<exists>l'. read_frame renv p' l1 = (l', Ok f)" using Cons p' n by (intro Cons.IH) (auto simp: l1_def)
    then show ?case using t p' Cons.prems(3) by (simp add: read_frame.simps [of renv p l])
  qed
qed simp

text \<open>
  C36: the master sends its snapshot as a bulk string before the line \<^verbatim>\<open>+FULLRESYNC\<close>.  However the socket cuts these bytes,
  the replica takes the snapshot for the reply to \<^verbatim>\<open>PSYNC\<close>, drops it, and goes on with a made-up replication
  identifier and offset 0: its data stay as they were.
\<close>

theorem initial_sync_discards_snapshot:
  assumes "int (length rdb) \<le> isize_max" "concat chunks = ''$'' @ nat_to_string (length rdb) @ [CR, LF] @ rdb @ [CR, LF]"
    "list_all (\<lambda>c. c \<noteq> [] \<and> length c \<le> 4096) chunks" "incoming (link s) = map Got chunks @ rest" "write_answers (link s) = []"
  shows "\<exists>l. on_link (perform_initial_sync renv) s = (s\<lparr>link := l\<rparr>, Ok (''ferrous-repl-id'', 0))"
proof -
  have "\<exists>b. serialize_to_vec (link_show_f64 renv) (Array (Some (map (\<lambda>a. BulkString (Some a)) [''PSYNC'', ''?'', ''-1'']))) = Ok b" by (simp add: serialize_to_vec_def)
  then obtain l1 where l1: "send_command renv [''PSYNC'', ''?'', ''-1''] (link s) = (l1, Ok ())" "incoming l1 = incoming (link s)"
    using assms(5) by (auto simp: send_command_def write_all_def)
  have "map (serialize_to_vec (link_show_f64 renv)) [BulkString (Some rdb)] = map Ok [concat chunks]" using assms(2) by (simp add: serialize_to_vec_def)
  then have "pipeline_of (link_show_f64 renv) (link_read_f64 renv) [BulkString (Some rdb)] (concat chunks)"
    using pipeline_exists [of "link_show_f64 renv" "link_read_f64 renv" "[BulkString (Some rdb)]" "[concat chunks]"] assms(1) by simp
  moreover have "chunks \<noteq> []" using assms(2) by auto
  ultimately obtain l2 where "read_response renv l1 = (l2, Ok (BulkString (Some rdb)))"
    using read_frame_pipeline [of new_parser "link_show_f64 renv" renv "BulkString (Some rdb)" chunks l1 rest] assms(3,4) l1(2)
    unfolding read_response_def by auto
  then show ?thesis using l1(1) by (intro exI [of _ l2]) (simp add: on_link_def perform_initial_sync_def)
qed

theorem initial_sync_discards_snapshot_witness:
  "\<exists>l. on_link (perform_initial_sync sample_replica_env) (sample_replica\<lparr>link := \<lparr>incoming = [Got (''$4'' @ [CR]), Got ([LF] @ ''DU''), Got (''MP'' @ [CR, LF])], outgoing = [], write_answers = []\<rparr>\<rparr>)
     = (sample_replica\<lparr>link := l\<rparr>, Ok (''ferrous-repl-id'', 0))"
proof -
  have "nat_to_string (length ''DUMP'') = ''4''" by code_simp
  then show ?thesis
    using initial_sync_discards_snapshot [of "''DUMP''" "[''$4'' @ [CR], [LF] @ ''DU'', ''MP'' @ [CR, LF]]"
        "sample_replica\<lparr>link := \<lparr>incoming = [Got (''$4'' @ [CR]), Got ([LF] @ ''DU''), Got (''MP'' @ [CR, LF])], outgoing = [], write_answers = []\<rparr>\<rparr>" "[]" sample_replica_env]
    by (simp add: sample_replica_def)
qed

section \<open>Retries\<close>

text \<open>No pause between two attempts is longer than the configured maximum, or than the first delay if that is longer.\<close>

lemma run_client_pauses:
  assumes "run_client cfg attempts delay n pauses s = (s', Ok ps)" "delay \<le> bound" "list_all (\<lambda>d. d \<le> bound) pauses"
    "min_retry_delay cfg \<le> bound" "max_retry_delay cfg \<le> bound"
  shows "list_all (\<lambda>d. d \<le> bound) ps"
  using assms
proof (induction attempts arbitrary: delay n pauses s)
  case (Cons a attempts)
  obtain stop renv ans where a: "a = (stop, renv, ans)" by (cases a)
  obtain t q where t: "connect_and_replicate renv ans s = (t, q)" by (meson surj_pair)
  show ?case
  proof (cases stop)
    case False
    then show ?thesis using Cons a t by (cases q) (auto simp: Let_def split: if_splits)
  qed (use Cons.prems a in simp)
qed simp

end
