(* ===== verification/Executor_Parse.thy ===== *)
theory Executor_Parse
  imports Commands_Strings Commands_Collections Commands_Sorted Commands_Groups
begin

text \<open>
  The typed commands of \<^verbatim>\<open>src/storage/commands/executor.rs\<close> and its \<^verbatim>\<open>CommandParser\<close>, which scripts go through.
  A Rust \<^verbatim>\<open>String\<close> is the sequence of its UTF-8 bytes.  Each parser checks the number of arguments, then reads them in
  the order of the code; the first argument that cannot be read decides the error.
\<close>

section \<open>Typed commands\<close>

record set_options_record =
  nx :: bool
  xx :: bool
  get_old :: bool
  expiration :: "nat option"
  keepttl :: bool

datatype string_command =
    Set_cmd bytes bytes set_options_record
  | Get_cmd bytes
  | MGet_cmd "bytes list"
  | MSet_cmd "(bytes \<times> bytes) list"
  | Incr_cmd bytes
  | IncrBy_cmd bytes i64
  | Decr_cmd bytes
  | DecrBy_cmd bytes i64
  | SetNx_cmd bytes bytes
  | SetEx_cmd bytes bytes u64
  | PSetEx_cmd bytes bytes u64
  | Append_cmd bytes bytes
  | StrLen_cmd bytes
  | GetSet_cmd bytes bytes
  | GetRange_cmd bytes int int
  | SetRange_cmd bytes nat bytes
  | Del_cmd "bytes list"

datatype list_command =
    LPush_cmd bytes "bytes list"
  | RPush_cmd bytes "bytes list"
  | LPop_cmd bytes
  | RPop_cmd bytes
  | LLen_cmd bytes
  | LIndex_cmd bytes int
  | LSet_cmd bytes int bytes
  | LRange_cmd bytes int int
  | LTrim_cmd bytes int int
  | LRem_cmd bytes int bytes

datatype set_command =
    SAdd_cmd bytes "bytes list"
  | SRem_cmd bytes "bytes list"
  | SMembers_cmd bytes
  | SCard_cmd bytes
  | SIsMember_cmd bytes bytes
  | SUnion_cmd "bytes list"
  | SInter_cmd "bytes list"
  | SDiff_cmd "bytes list"
  | SRandMember_cmd bytes "i64 option"
  | SPop_cmd bytes "nat option"

datatype hash_command =
    HSet_cmd bytes "(bytes \<times> bytes) list"
  | HGet_cmd bytes bytes
  | HMSet_cmd bytes "(bytes \<times> bytes) list"
  | HMGet_cmd bytes "bytes list"
  | HGetAll_cmd bytes
  | HDel_cmd bytes "bytes list"
  | HLen_cmd bytes
  | HExists_cmd bytes bytes
  | HKeys_cmd bytes
  | HVals_cmd bytes
  | HIncrBy_cmd bytes bytes i64

datatype sorted_set_command =
    ZAdd_cmd bytes "(f64 \<times> bytes) list"
  | ZRem_cmd bytes "bytes list"
  | ZScore_cmd bytes bytes
  | ZCard_cmd bytes
  | ZRank_cmd bytes bytes
  | ZRevRank_cmd bytes bytes
  | ZRange_cmd bytes int int bool
  | ZRevRange_cmd bytes int int bool
  | ZRangeByScore_cmd bytes f64 f64 bool
  | ZCount_cmd bytes f64 f64
  | ZIncrBy_cmd bytes f64 bytes
  | ZRevRangeByScore_cmd bytes f64 f64 bool
  | ZPopMin_cmd bytes "nat option"
  | ZPopMax_cmd bytes "nat option"
  | ZRemRangeByRank_cmd bytes int int
  | ZRemRangeByScore_cmd bytes f64 f64
  | ZRemRangeByLex_cmd bytes string string

datatype key_command =
    Exists_cmd "bytes list"
  | Expire_cmd bytes u64
  | PExpire_cmd bytes u64
  | Ttl_cmd bytes
  | Pttl_cmd bytes
  | Persist_cmd bytes
  | Type_cmd bytes
  | Rename_cmd bytes bytes
  | RenameNx_cmd bytes bytes
  | RandomKey_cmd

datatype stream_command =
    XAdd_cmd bytes "string option" "(bytes \<times> bytes) list"
  | XLen_cmd bytes
  | XRange_cmd bytes string string "nat option"
  | XRevRange_cmd bytes string string "nat option"
  | XRead_cmd "(bytes \<times> string) list" "nat option" "u64 option"
  | XTrim_cmd bytes string nat
  | XDel_cmd bytes "string list"

datatype scan_command =
    Scan_cmd u64 "bytes option" "nat option" "string option"
  | HScan_cmd bytes u64 "bytes option" "nat option"
  | SScan_cmd bytes u64 "bytes option" "nat option"
  | ZScan_cmd bytes u64 "bytes option" "nat option"

datatype database_command = FlushDb_cmd | FlushAll_cmd | DbSize_cmd | Keys_cmd bytes

datatype consumer_group_command =
    XGroup_cmd string bytes string "string list"
  | XReadGroup_cmd string string "(bytes \<times> string) list" "nat option" "u64 option" bool
  | XAck_cmd bytes string "string list"
  | XPending_cmd bytes string "(string \<times> string \<times> nat) option" "string option"
  | XClaim_cmd bytes string string u64 "string list" bool bool
  | XInfo_cmd string bytes "string option"

datatype persistence_command = Save_cmd | BgSave_cmd | LastSave_cmd | BgRewriteAof_cmd

datatype bit_command = GetBit_cmd bytes nat | SetBit_cmd bytes nat bool | BitCount_cmd bytes "int option" "int option"

datatype config_command = ConfigGet_cmd string | ConfigSet_cmd string string

datatype server_command = Ping_cmd "bytes option" | Echo_cmd bytes | Time_cmd | Info_cmd "string option"

datatype typed_command =
    String_Command string_command
  | List_Command list_command
  | Set_Command set_command
  | Hash_Command hash_command
  | SortedSet_Command sorted_set_command
  | Key_Command key_command
  | Server_Command server_command
  | Stream_Command stream_command
  | Scan_Command scan_command
  | Database_Command database_command
  | ConsumerGroup_Command consumer_group_command
  | Persistence_Command persistence_command
  | Bit_Command bit_command
  | Config_Command config_command

section \<open>Reading arguments\<close>

definition extract_bytes :: "resp_frame \<Rightarrow> bytes result" where
  "extract_bytes f = (case bulk f of Some b \<Rightarrow> Ok b | None \<Rightarrow> Err (Command InvalidArgumentType))"

definition extract_string :: "resp_frame \<Rightarrow> string result" where
  "extract_string f =
     (case bulk f of
        Some b \<Rightarrow> if utf8_valid b then Ok b else Err (Command InvalidUtf8)
      | None \<Rightarrow> Err (Command InvalidArgumentType))"

fun extract_all :: "resp_frame list \<Rightarrow> bytes list result" where
  "extract_all [] = Ok []"
| "extract_all (f # fs) = bind_result (extract_bytes f) (\<lambda>b. bind_result (extract_all fs) (\<lambda>bs. Ok (b # bs)))"

fun extract_strings :: "resp_frame list \<Rightarrow> string list result" where
  "extract_strings [] = Ok []"
| "extract_strings (f # fs) = bind_result (extract_string f) (\<lambda>b. bind_result (extract_strings fs) (\<lambda>bs. Ok (b # bs)))"

fun extract_pairs :: "resp_frame list \<Rightarrow> (bytes \<times> bytes) list result" where
  "extract_pairs (f # v # ps) =
     bind_result (extract_bytes f) (\<lambda>a. bind_result (extract_bytes v) (\<lambda>b. bind_result (extract_pairs ps) (\<lambda>r. Ok ((a, b) # r))))"
| "extract_pairs [f] = bind_result (extract_bytes f) (\<lambda>a. Panic)"
| "extract_pairs [] = Ok []"

text \<open>\<^verbatim>\<open>extract_string(frame)?.parse::<T>().map_err(..)\<close>.\<close>

definition parsed_as :: "(string \<Rightarrow> 'n option) \<Rightarrow> command_error \<Rightarrow> resp_frame \<Rightarrow> 'n result" where
  "parsed_as pf e f = bind_result (extract_string f) (\<lambda>t. case pf t of Some n \<Rightarrow> Ok n | None \<Rightarrow> Err (Command e))"

abbreviation read_i64 :: "resp_frame \<Rightarrow> i64 result" where "read_i64 \<equiv> parsed_as parse_i64 InvalidIntegerValue"
abbreviation read_u64 :: "resp_frame \<Rightarrow> u64 result" where "read_u64 \<equiv> parsed_as parse_u64 InvalidIntegerValue"
abbreviation read_isize :: "resp_frame \<Rightarrow> int result" where "read_isize \<equiv> parsed_as parse_isize InvalidIntegerValue"
abbreviation read_usize :: "resp_frame \<Rightarrow> nat result" where "read_usize \<equiv> parsed_as parse_usize InvalidIntegerValue"
abbreviation read_float :: "command_env \<Rightarrow> resp_frame \<Rightarrow> f64 result" where "read_float env \<equiv> parsed_as (read_f64 env) InvalidFloatValue"

definition arity :: "bool \<Rightarrow> string \<Rightarrow> 'a result \<Rightarrow> 'a result" where
  "arity good name k = (if good then k else Err (Command (WrongNumberOfArguments name)))"

abbreviation missing :: "string \<Rightarrow> 'a result" where
  "missing msg \<equiv> Err (Command (SyntaxError msg))"

text \<open>The shapes that most parsers have.\<close>

definition parse_key :: "string \<Rightarrow> (bytes \<Rightarrow> 'a) \<Rightarrow> resp_frame list \<Rightarrow> 'a result" where
  "parse_key name c frames = arity (length frames = 2) name (bind_result (extract_bytes (frames ! 1)) (\<lambda>key. Ok (c key)))"

definition parse_key_bytes :: "string \<Rightarrow> (bytes \<Rightarrow> bytes \<Rightarrow> 'a) \<Rightarrow> resp_frame list \<Rightarrow> 'a result" where
  "parse_key_bytes name c frames =
     arity (length frames = 3) name (bind_result (extract_bytes (frames ! 1)) (\<lambda>key. bind_result (extract_bytes (frames ! 2)) (\<lambda>b. Ok (c key b))))"

definition parse_key_many :: "string \<Rightarrow> (bytes \<Rightarrow> bytes list \<Rightarrow> 'a) \<Rightarrow> resp_frame list \<Rightarrow> 'a result" where
  "parse_key_many name c frames =
     arity (length frames \<ge> 3) name (bind_result (extract_bytes (frames ! 1)) (\<lambda>key. bind_result (extract_all (drop 2 frames)) (\<lambda>bs. Ok (c key bs))))"

definition parse_many :: "string \<Rightarrow> (bytes list \<Rightarrow> 'a) \<Rightarrow> resp_frame list \<Rightarrow> 'a result" where
  "parse_many name c frames = arity (length frames \<ge> 2) name (bind_result (extract_all (drop 1 frames)) (\<lambda>bs. Ok (c bs)))"

definition parse_key_number :: "string \<Rightarrow> (resp_frame \<Rightarrow> 'n result) \<Rightarrow> (bytes \<Rightarrow> 'n \<Rightarrow> 'a) \<Rightarrow> resp_frame list \<Rightarrow> 'a result" where
  "parse_key_number name num c frames =
     arity (length frames = 3) name (bind_result (num (frames ! 2)) (\<lambda>n. bind_result (extract_bytes (frames ! 1)) (\<lambda>key. Ok (c key n))))"

definition parse_key_then_number :: "string \<Rightarrow> (resp_frame \<Rightarrow> 'n result) \<Rightarrow> (bytes \<Rightarrow> 'n \<Rightarrow> 'a) \<Rightarrow> resp_frame list \<Rightarrow> 'a result" where
  "parse_key_then_number name num c frames =
     arity (length frames = 3) name (bind_result (extract_bytes (frames ! 1)) (\<lambda>key. bind_result (num (frames ! 2)) (\<lambda>n. Ok (c key n))))"

definition parse_number_bytes :: "string \<Rightarrow> (resp_frame \<Rightarrow> 'n result) \<Rightarrow> (bytes \<Rightarrow> 'n \<Rightarrow> bytes \<Rightarrow> 'a) \<Rightarrow> resp_frame list \<Rightarrow> 'a result" where
  "parse_number_bytes name num c frames =
     arity (length frames = 4) name (bind_result (num (frames ! 2)) (\<lambda>n.
       bind_result (extract_bytes (frames ! 1)) (\<lambda>key. bind_result (extract_bytes (frames ! 3)) (\<lambda>b. Ok (c key n b)))))"

definition parse_range :: "string \<Rightarrow> (resp_frame \<Rightarrow> 'n result) \<Rightarrow> (bytes \<Rightarrow> 'n \<Rightarrow> 'n \<Rightarrow> 'a) \<Rightarrow> resp_frame list \<Rightarrow> 'a result" where
  "parse_range name num c frames =
     arity (length frames = 4) name (bind_result (num (frames ! 2)) (\<lambda>m. bind_result (num (frames ! 3)) (\<lambda>n.
       bind_result (extract_bytes (frames ! 1)) (\<lambda>key. Ok (c key m n)))))"

definition parse_scored_range :: "string \<Rightarrow> (resp_frame \<Rightarrow> 'n result) \<Rightarrow> (bytes \<Rightarrow> 'n \<Rightarrow> 'n \<Rightarrow> bool \<Rightarrow> 'a) \<Rightarrow> resp_frame list \<Rightarrow> 'a result" where
  "parse_scored_range name num c frames =
     arity (length frames = 4 \<or> length frames = 5) name (bind_result (num (frames ! 2)) (\<lambda>m. bind_result (num (frames ! 3)) (\<lambda>n.
       bind_result (if length frames = 5 then bind_result (extract_string (frames ! 4)) (\<lambda>t. Ok (upper_is t ''WITHSCORES'')) else Ok False) (\<lambda>w.
       bind_result (extract_bytes (frames ! 1)) (\<lambda>key. Ok (c key m n w))))))"

definition parse_optional_count :: "string \<Rightarrow> (resp_frame \<Rightarrow> 'n result) \<Rightarrow> (bytes \<Rightarrow> 'n option \<Rightarrow> 'a) \<Rightarrow> resp_frame list \<Rightarrow> 'a result" where
  "parse_optional_count name num c frames =
     arity (length frames = 2 \<or> length frames = 3) name
       (bind_result (if length frames = 3 then bind_result (num (frames ! 2)) (\<lambda>n. Ok (Some n)) else Ok None) (\<lambda>n.
        bind_result (extract_bytes (frames ! 1)) (\<lambda>key. Ok (c key n))))"

definition parse_field_values :: "string \<Rightarrow> (bytes \<Rightarrow> (bytes \<times> bytes) list \<Rightarrow> 'a) \<Rightarrow> resp_frame list \<Rightarrow> 'a result" where
  "parse_field_values name c frames =
     arity (length frames \<ge> 4 \<and> length frames mod 2 = 0) name
       (bind_result (extract_bytes (frames ! 1)) (\<lambda>key. bind_result (extract_pairs (drop 2 frames)) (\<lambda>fvs. Ok (c key fvs))))"

section \<open>Strings, lists, sets and hashes\<close>

definition no_options :: set_options_record where
  "no_options = \<lparr>nx = False, xx = False, get_old = False, expiration = None, keepttl = False\<rparr>"

fun parse_set_options :: "set_options_record \<Rightarrow> resp_frame list \<Rightarrow> set_options_record result" where
  "parse_set_options opts [] = Ok opts"
| "parse_set_options opts (p # ps) =
     bind_result (extract_string p) (\<lambda>opt.
       if upper_is opt ''NX'' then parse_set_options (opts\<lparr>nx := True\<rparr>) ps
       else if upper_is opt ''XX'' then parse_set_options (opts\<lparr>xx := True\<rparr>) ps
       else if upper_is opt ''GET'' then parse_set_options (opts\<lparr>get_old := True\<rparr>) ps
       else if upper_is opt ''EX'' then
         (case ps of
            [] \<Rightarrow> missing ''Missing EX value''
          | q # qs \<Rightarrow> bind_result (read_u64 q) (\<lambda>n. parse_set_options (opts\<lparr>expiration := Some (from_secs n)\<rparr>) qs))
       else if upper_is opt ''PX'' then
         (case ps of
            [] \<Rightarrow> missing ''Missing PX value''
          | q # qs \<Rightarrow> bind_result (read_u64 q) (\<lambda>n. parse_set_options (opts\<lparr>expiration := Some (from_millis n)\<rparr>) qs))
       else if upper_is opt ''KEEPTTL'' then parse_set_options (opts\<lparr>keepttl := True\<rparr>) ps
       else missing ''Unknown SET option'')"

definition parse_set :: "resp_frame list \<Rightarrow> string_command result" where
  "parse_set frames =
     arity (length frames \<ge> 3) ''SET'' (bind_result (extract_bytes (frames ! 1)) (\<lambda>key. bind_result (extract_bytes (frames ! 2)) (\<lambda>b.
       bind_result (parse_set_options no_options (drop 3 frames)) (\<lambda>opts. Ok (Set_cmd key b opts)))))"

definition parse_mset :: "resp_frame list \<Rightarrow> string_command result" where
  "parse_mset frames =
     arity (length frames \<ge> 3 \<and> length frames mod 2 \<noteq> 0) ''MSET'' (bind_result (extract_pairs (drop 1 frames)) (\<lambda>ps. Ok (MSet_cmd ps)))"

definition parse_setex :: "string \<Rightarrow> (bytes \<Rightarrow> bytes \<Rightarrow> u64 \<Rightarrow> string_command) \<Rightarrow> resp_frame list \<Rightarrow> string_command result" where
  "parse_setex name c = parse_number_bytes name read_u64 (\<lambda>key n b. c key b n)"

definition parse_hincrby :: "resp_frame list \<Rightarrow> hash_command result" where
  "parse_hincrby frames =
     arity (length frames = 4) ''HINCRBY'' (bind_result (read_i64 (frames ! 3)) (\<lambda>n.
       bind_result (extract_bytes (frames ! 1)) (\<lambda>key. bind_result (extract_bytes (frames ! 2)) (\<lambda>field. Ok (HIncrBy_cmd key field n)))))"

definition string_parsers :: "(string \<times> (resp_frame list \<Rightarrow> string_command result)) list" where
  "string_parsers =
     [(''SET'', parse_set), (''GET'', parse_key ''GET'' Get_cmd), (''MGET'', parse_many ''MGET'' MGet_cmd), (''MSET'', parse_mset),
      (''INCR'', parse_key ''INCR'' Incr_cmd), (''INCRBY'', parse_key_number ''INCRBY'' read_i64 IncrBy_cmd),
      (''DECR'', parse_key ''DECR'' Decr_cmd), (''DECRBY'', parse_key_number ''DECRBY'' read_i64 DecrBy_cmd),
      (''SETNX'', parse_key_bytes ''SETNX'' SetNx_cmd), (''SETEX'', parse_setex ''SETEX'' SetEx_cmd), (''PSETEX'', parse_setex ''PSETEX'' PSetEx_cmd),
      (''APPEND'', parse_key_bytes ''APPEND'' Append_cmd), (''STRLEN'', parse_key ''STRLEN'' StrLen_cmd), (''GETSET'', parse_key_bytes ''GETSET'' GetSet_cmd),
      (''GETRANGE'', parse_range ''GETRANGE'' read_isize GetRange_cmd), (''SETRANGE'', parse_number_bytes ''SETRANGE'' read_usize SetRange_cmd),
      (''DEL'', parse_many ''DEL'' Del_cmd)]"

definition list_parsers :: "(string \<times> (resp_frame list \<Rightarrow> list_command result)) list" where
  "list_parsers =
     [(''LPUSH'', parse_key_many ''LPUSH'' LPush_cmd), (''RPUSH'', parse_key_many ''RPUSH'' RPush_cmd), (''LPOP'', parse_key ''LPOP'' LPop_cmd),
      (''RPOP'', parse_key ''RPOP'' RPop_cmd), (''LLEN'', parse_key ''LLEN'' LLen_cmd), (''LINDEX'', parse_key_number ''LINDEX'' read_isize LIndex_cmd),
      (''LSET'', parse_number_bytes ''LSET'' read_isize LSet_cmd), (''LRANGE'', parse_range ''LRANGE'' read_isize LRange_cmd),
      (''LTRIM'', parse_range ''LTRIM'' read_isize LTrim_cmd), (''LREM'', parse_number_bytes ''LREM'' read_isize LRem_cmd)]"

definition set_parsers :: "(string \<times> (resp_frame list \<Rightarrow> set_command result)) list" where
  "set_parsers =
     [(''SADD'', parse_key_many ''SADD'' SAdd_cmd), (''SREM'', parse_key_many ''SREM'' SRem_cmd), (''SMEMBERS'', parse_key ''SMEMBERS'' SMembers_cmd),
      (''SCARD'', parse_key ''SCARD'' SCard_cmd), (''SISMEMBER'', parse_key_bytes ''SISMEMBER'' SIsMember_cmd), (''SUNION'', parse_many ''SUNION'' SUnion_cmd),
      (''SINTER'', parse_many ''SINTER'' SInter_cmd), (''SDIFF'', parse_many ''SDIFF'' SDiff_cmd),
      (''SRANDMEMBER'', parse_optional_count ''SRANDMEMBER'' read_i64 SRandMember_cmd), (''SPOP'', parse_optional_count ''SPOP'' read_usize SPop_cmd)]"

definition hash_parsers :: "(string \<times> (resp_frame list \<Rightarrow> hash_command result)) list" where
  "hash_parsers =
     [(''HSET'', parse_field_values ''HSET'' HSet_cmd), (''HGET'', parse_key_bytes ''HGET'' HGet_cmd), (''HMSET'', parse_field_values ''HMSET'' HMSet_cmd),
      (''HMGET'', parse_key_many ''HMGET'' HMGet_cmd), (''HGETALL'', parse_key ''HGETALL'' HGetAll_cmd), (''HDEL'', parse_key_many ''HDEL'' HDel_cmd),
      (''HLEN'', parse_key ''HLEN'' HLen_cmd), (''HEXISTS'', parse_key_bytes ''HEXISTS'' HExists_cmd), (''HKEYS'', parse_key ''HKEYS'' HKeys_cmd),
      (''HVALS'', parse_key ''HVALS'' HVals_cmd), (''HINCRBY'', parse_hincrby)]"

section \<open>Sorted sets and keys\<close>

fun extract_scores :: "command_env \<Rightarrow> resp_frame list \<Rightarrow> (f64 \<times> bytes) list result" where
  "extract_scores env (p # q # ps) =
     bind_result (read_float env p) (\<lambda>x. bind_result (extract_bytes q) (\<lambda>m. bind_result (extract_scores env ps) (\<lambda>r. Ok ((x, m) # r))))"
| "extract_scores env [p] = bind_result (read_float env p) (\<lambda>x. Panic)"
| "extract_scores env [] = Ok []"

definition parse_zadd :: "command_env \<Rightarrow> resp_frame list \<Rightarrow> sorted_set_command result" where
  "parse_zadd env frames =
     arity (length frames \<ge> 4 \<and> length frames mod 2 = 0) ''ZADD''
       (bind_result (extract_bytes (frames ! 1)) (\<lambda>key. bind_result (extract_scores env (drop 2 frames)) (\<lambda>ms. Ok (ZAdd_cmd key ms))))"

definition parse_zremrangebylex :: "resp_frame list \<Rightarrow> sorted_set_command result" where
  "parse_zremrangebylex = parse_range ''ZREMRANGEBYLEX'' extract_string ZRemRangeByLex_cmd"

definition sorted_parsers :: "command_env \<Rightarrow> (string \<times> (resp_frame list \<Rightarrow> sorted_set_command result)) list" where
  "sorted_parsers env =
     [(''ZADD'', parse_zadd env), (''ZREM'', parse_key_many ''ZREM'' ZRem_cmd), (''ZSCORE'', parse_key_bytes ''ZSCORE'' ZScore_cmd),
      (''ZCARD'', parse_key ''ZCARD'' ZCard_cmd), (''ZRANK'', parse_key_bytes ''ZRANK'' ZRank_cmd), (''ZREVRANK'', parse_key_bytes ''ZREVRANK'' ZRevRank_cmd),
      (''ZRANGE'', parse_scored_range ''ZRANGE'' read_isize ZRange_cmd), (''ZREVRANGE'', parse_scored_range ''ZREVRANGE'' read_isize ZRevRange_cmd),
      (''ZRANGEBYSCORE'', parse_scored_range ''ZRANGEBYSCORE'' (read_float env) ZRangeByScore_cmd),
      (''ZCOUNT'', parse_range ''ZCOUNT'' (read_float env) ZCount_cmd), (''ZINCRBY'', parse_number_bytes ''ZINCRBY'' (read_float env) ZIncrBy_cmd),
      (''ZREVRANGEBYSCORE'', parse_scored_range ''ZREVRANGEBYSCORE'' (read_float env) ZRevRangeByScore_cmd),
      (''ZPOPMIN'', parse_optional_count ''ZPOPMIN'' read_usize ZPopMin_cmd), (''ZPOPMAX'', parse_optional_count ''ZPOPMAX'' read_usize ZPopMax_cmd),
      (''ZREMRANGEBYRANK'', parse_range ''ZREMRANGEBYRANK'' read_isize ZRemRangeByRank_cmd),
      (''ZREMRANGEBYSCORE'', parse_range ''ZREMRANGEBYSCORE'' (read_float env) ZRemRangeByScore_cmd), (''ZREMRANGEBYLEX'', parse_zremrangebylex)]"

definition key_parsers :: "(string \<times> (resp_frame list \<Rightarrow> key_command result)) list" where
  "key_parsers =
     [(''EXISTS'', parse_many ''EXISTS'' Exists_cmd), (''EXPIRE'', parse_key_then_number ''EXPIRE'' read_u64 Expire_cmd),
      (''PEXPIRE'', parse_key_then_number ''PEXPIRE'' read_u64 PExpire_cmd), (''TTL'', parse_key ''TTL'' Ttl_cmd), (''PTTL'', parse_key ''PTTL'' Pttl_cmd),
      (''PERSIST'', parse_key ''PERSIST'' Persist_cmd), (''TYPE'', parse_key ''TYPE'' Type_cmd), (''RENAME'', parse_key_bytes ''RENAME'' Rename_cmd),
      (''RENAMENX'', parse_key_bytes ''RENAMENX'' RenameNx_cmd), (''RANDOMKEY'', \<lambda>frames. Ok RandomKey_cmd)]"

section \<open>Server, streams and scans\<close>

definition parse_ping :: "resp_frame list \<Rightarrow> server_command result" where
  "parse_ping frames =
     (if length frames = 2 then bind_result (extract_bytes (frames ! 1)) (\<lambda>b. Ok (Ping_cmd (Some b)))
      else arity (length frames = 1) ''PING'' (Ok (Ping_cmd None)))"

definition parse_info :: "resp_frame list \<Rightarrow> server_command result" where
  "parse_info frames =
     (if length frames = 2 then bind_result (extract_string (frames ! 1)) (\<lambda>b. Ok (Info_cmd (Some b)))
      else arity (length frames = 1) ''INFO'' (Ok (Info_cmd None)))"

definition parse_xadd :: "resp_frame list \<Rightarrow> stream_command result" where
  "parse_xadd frames =
     arity (length frames \<ge> 5 \<and> length frames mod 2 = 1) ''XADD''
       (bind_result (extract_bytes (frames ! 1)) (\<lambda>key. bind_result (extract_string (frames ! 2)) (\<lambda>i.
        bind_result (extract_pairs (drop 3 frames)) (\<lambda>fvs. Ok (XAdd_cmd key (if i = ''*'' then None else Some i) fvs)))))"

definition parse_xrange :: "string \<Rightarrow> (bytes \<Rightarrow> string \<Rightarrow> string \<Rightarrow> nat option \<Rightarrow> stream_command) \<Rightarrow> resp_frame list \<Rightarrow> stream_command result" where
  "parse_xrange name c frames =
     arity (length frames \<ge> 4) name
       (bind_result (extract_bytes (frames ! 1)) (\<lambda>key. bind_result (extract_string (frames ! 2)) (\<lambda>a. bind_result (extract_string (frames ! 3)) (\<lambda>b.
        bind_result (if length frames = 6 then bind_result (extract_string (frames ! 4)) (\<lambda>t. Ok (upper_is t ''COUNT'')) else Ok False) (\<lambda>counted.
        bind_result (if counted then bind_result (read_usize (frames ! 5)) (\<lambda>n. Ok (Some n)) else Ok None) (\<lambda>n. Ok (c key a b n)))))))"

text \<open>The options of \<^verbatim>\<open>XREAD\<close> and \<^verbatim>\<open>XREADGROUP\<close> (the latter with \<^verbatim>\<open>NOACK\<close>); the frames after them are keys and identifiers.\<close>

fun parse_read_options :: "bool \<Rightarrow> nat option \<times> u64 option \<times> bool \<Rightarrow> resp_frame list \<Rightarrow> ((nat option \<times> u64 option \<times> bool) \<times> resp_frame list) result" where
  "parse_read_options grouped opts [] = Ok (opts, [])"
| "parse_read_options grouped (count, block, noack) (p # ps) =
     bind_result (extract_string p) (\<lambda>opt.
       if upper_is opt ''COUNT'' then
         (case ps of
            [] \<Rightarrow> missing ''Missing COUNT value''
          | q # qs \<Rightarrow> bind_result (read_usize q) (\<lambda>n. parse_read_options grouped (Some n, block, noack) qs))
       else if upper_is opt ''BLOCK'' then
         (case ps of
            [] \<Rightarrow> missing ''Missing BLOCK value''
          | q # qs \<Rightarrow> bind_result (read_u64 q) (\<lambda>n. parse_read_options grouped (count, Some n, noack) qs))
       else if grouped \<and> upper_is opt ''NOACK'' then parse_read_options grouped (count, block, True) ps
       else if upper_is opt ''STREAMS'' then Ok ((count, block, noack), ps)
       else Ok ((count, block, noack), p # ps))"

fun pair_up :: "resp_frame list \<Rightarrow> resp_frame list \<Rightarrow> (bytes \<times> string) list result" where
  "pair_up (k # ks) (i # is) =
     bind_result (extract_bytes k) (\<lambda>key. bind_result (extract_string i) (\<lambda>t. bind_result (pair_up ks is) (\<lambda>r. Ok ((key, t) # r))))"
| "pair_up _ _ = Ok []"

definition keys_and_ids :: "resp_frame list \<Rightarrow> (bytes \<times> string) list result" where
  "keys_and_ids ps =
     (if length ps mod 2 \<noteq> 0 then missing ''Uneven number of keys and stream IDs''
      else pair_up (take (length ps div 2) ps) (drop (length ps div 2) ps))"

definition parse_xread :: "resp_frame list \<Rightarrow> stream_command result" where
  "parse_xread frames =
     arity (length frames \<ge> 4) ''XREAD''
       (bind_result (parse_read_options False (None, None, False) (drop 1 frames)) (\<lambda>((count, block, _), rest).
        bind_result (keys_and_ids rest) (\<lambda>kis. Ok (XRead_cmd kis count block))))"

definition parse_xtrim :: "resp_frame list \<Rightarrow> stream_command result" where
  "parse_xtrim frames =
     arity (length frames \<ge> 4) ''XTRIM''
       (bind_result (extract_bytes (frames ! 1)) (\<lambda>key. bind_result (extract_string (frames ! 2)) (\<lambda>st. bind_result (read_usize (frames ! 3)) (\<lambda>n. Ok (XTrim_cmd key st n)))))"

definition parse_xdel :: "resp_frame list \<Rightarrow> stream_command result" where
  "parse_xdel frames =
     arity (length frames \<ge> 3) ''XDEL''
       (bind_result (extract_bytes (frames ! 1)) (\<lambda>key. bind_result (extract_strings (drop 2 frames)) (\<lambda>ids. Ok (XDel_cmd key ids))))"

definition stream_parsers :: "(string \<times> (resp_frame list \<Rightarrow> stream_command result)) list" where
  "stream_parsers =
     [(''XADD'', parse_xadd), (''XLEN'', parse_key ''XLEN'' XLen_cmd), (''XRANGE'', parse_xrange ''XRANGE'' XRange_cmd),
      (''XREVRANGE'', parse_xrange ''XREVRANGE'' XRevRange_cmd), (''XREAD'', parse_xread), (''XTRIM'', parse_xtrim), (''XDEL'', parse_xdel)]"

text \<open>An option that is none of those of a scan ends the loop: it and what follows is ignored.\<close>

fun parse_scan_options :: "bool \<Rightarrow> bytes option \<times> nat option \<times> string option \<Rightarrow> resp_frame list \<Rightarrow> (bytes option \<times> nat option \<times> string option) result" where
  "parse_scan_options typed opts [] = Ok opts"
| "parse_scan_options typed (pat, count, ty) (p # ps) =
     bind_result (extract_string p) (\<lambda>opt.
       if upper_is opt ''MATCH'' then
         (case ps of
            [] \<Rightarrow> missing ''Missing MATCH pattern''
          | q # qs \<Rightarrow> bind_result (extract_bytes q) (\<lambda>b. parse_scan_options typed (Some b, count, ty) qs))
       else if upper_is opt ''COUNT'' then
         (case ps of
            [] \<Rightarrow> missing ''Missing COUNT value''
          | q # qs \<Rightarrow> bind_result (read_usize q) (\<lambda>n. parse_scan_options typed (pat, Some n, ty) qs))
       else if typed \<and> upper_is opt ''TYPE'' then
         (case ps of
            [] \<Rightarrow> missing ''Missing TYPE value''
          | q # qs \<Rightarrow> bind_result (extract_string q) (\<lambda>t. parse_scan_options typed (pat, count, Some t) qs))
       else Ok (pat, count, ty))"

definition parse_scan_cmd :: "resp_frame list \<Rightarrow> scan_command result" where
  "parse_scan_cmd frames =
     arity (length frames \<ge> 2) ''SCAN''
       (bind_result (read_u64 (frames ! 1)) (\<lambda>cursor.
        bind_result (parse_scan_options True (None, None, None) (drop 2 frames)) (\<lambda>(pat, count, ty). Ok (Scan_cmd cursor pat count ty))))"

definition parse_key_scan :: "string \<Rightarrow> (bytes \<Rightarrow> u64 \<Rightarrow> bytes option \<Rightarrow> nat option \<Rightarrow> scan_command) \<Rightarrow> resp_frame list \<Rightarrow> scan_command result" where
  "parse_key_scan name c frames =
     arity (length frames \<ge> 3) name
       (bind_result (extract_bytes (frames ! 1)) (\<lambda>key. bind_result (read_u64 (frames ! 2)) (\<lambda>cursor.
        bind_result (parse_scan_options False (None, None, None) (drop 3 frames)) (\<lambda>(pat, count, ty). Ok (c key cursor pat count)))))"

section \<open>Consumer groups, bits and configuration\<close>

definition parse_xgroup :: "resp_frame list \<Rightarrow> consumer_group_command result" where
  "parse_xgroup frames =
     arity (length frames \<ge> 4) ''XGROUP''
       (bind_result (extract_string (frames ! 1)) (\<lambda>sub. bind_result (extract_bytes (frames ! 2)) (\<lambda>key. bind_result (extract_string (frames ! 3)) (\<lambda>g.
        bind_result (extract_strings (drop 4 frames)) (\<lambda>args. Ok (XGroup_cmd sub key g args))))))"

definition parse_xreadgroup :: "resp_frame list \<Rightarrow> consumer_group_command result" where
  "parse_xreadgroup frames =
     arity (length frames \<ge> 6) ''XREADGROUP''
       (bind_result (extract_string (frames ! 1)) (\<lambda>w.
        if \<not> upper_is w ''GROUP'' then missing ''Expected GROUP keyword''
        else bind_result (extract_string (frames ! 2)) (\<lambda>g. bind_result (extract_string (frames ! 3)) (\<lambda>c.
             bind_result (parse_read_options True (None, None, False) (drop 4 frames)) (\<lambda>((count, block, noack), rest).
             bind_result (keys_and_ids rest) (\<lambda>kis. Ok (XReadGroup_cmd g c kis count block noack)))))))"

definition parse_xack :: "resp_frame list \<Rightarrow> consumer_group_command result" where
  "parse_xack frames =
     arity (length frames \<ge> 4) ''XACK''
       (bind_result (extract_bytes (frames ! 1)) (\<lambda>key. bind_result (extract_string (frames ! 2)) (\<lambda>g. bind_result (extract_strings (drop 3 frames)) (\<lambda>ids. Ok (XAck_cmd key g ids)))))"

definition parse_xpending :: "resp_frame list \<Rightarrow> consumer_group_command result" where
  "parse_xpending frames =
     arity (length frames \<ge> 3) ''XPENDING''
       (bind_result (extract_bytes (frames ! 1)) (\<lambda>key. bind_result (extract_string (frames ! 2)) (\<lambda>g.
        bind_result
          (if length frames \<ge> 6 then
             bind_result (extract_string (frames ! 3)) (\<lambda>a. bind_result (extract_string (frames ! 4)) (\<lambda>b. bind_result (read_usize (frames ! 5)) (\<lambda>n. Ok (Some (a, b, n)))))
           else Ok None) (\<lambda>rng.
        bind_result (if length frames \<ge> 7 then bind_result (extract_string (frames ! 6)) (\<lambda>c. Ok (Some c)) else Ok None) (\<lambda>c.
        Ok (XPending_cmd key g rng c))))))"

fun parse_claim_args :: "string list \<Rightarrow> bool \<Rightarrow> bool \<Rightarrow> resp_frame list \<Rightarrow> (string list \<times> bool \<times> bool) result" where
  "parse_claim_args ids force justid [] = Ok (ids, force, justid)"
| "parse_claim_args ids force justid (p # ps) =
     bind_result (extract_string p) (\<lambda>arg.
       if upper_is arg ''FORCE'' then parse_claim_args ids True justid ps
       else if upper_is arg ''JUSTID'' then parse_claim_args ids force True ps
       else parse_claim_args (ids @ [arg]) force justid ps)"

definition parse_xclaim :: "resp_frame list \<Rightarrow> consumer_group_command result" where
  "parse_xclaim frames =
     arity (length frames \<ge> 6) ''XCLAIM''
       (bind_result (extract_bytes (frames ! 1)) (\<lambda>key. bind_result (extract_string (frames ! 2)) (\<lambda>g. bind_result (extract_string (frames ! 3)) (\<lambda>c.
        bind_result (read_u64 (frames ! 4)) (\<lambda>ms. bind_result (parse_claim_args [] False False (drop 5 frames)) (\<lambda>(ids, force, justid).
        Ok (XClaim_cmd key g c ms ids force justid)))))))"

definition parse_xinfo :: "resp_frame list \<Rightarrow> consumer_group_command result" where
  "parse_xinfo frames =
     arity (length frames \<ge> 3) ''XINFO''
       (bind_result (extract_string (frames ! 1)) (\<lambda>sub. bind_result (extract_bytes (frames ! 2)) (\<lambda>key.
        bind_result (if length frames \<ge> 4 then bind_result (extract_string (frames ! 3)) (\<lambda>g. Ok (Some g)) else Ok None) (\<lambda>g. Ok (XInfo_cmd sub key g)))))"

definition group_parsers :: "(string \<times> (resp_frame list \<Rightarrow> consumer_group_command result)) list" where
  "group_parsers =
     [(''XGROUP'', parse_xgroup), (''XREADGROUP'', parse_xreadgroup), (''XACK'', parse_xack), (''XPENDING'', parse_xpending), (''XCLAIM'', parse_xclaim),
      (''XINFO'', parse_xinfo)]"

definition parse_setbit :: "resp_frame list \<Rightarrow> bit_command result" where
  "parse_setbit frames =
     arity (length frames = 4) ''SETBIT''
       (bind_result (extract_bytes (frames ! 1)) (\<lambda>key. bind_result (read_usize (frames ! 2)) (\<lambda>offset. bind_result (extract_string (frames ! 3)) (\<lambda>t.
        if t = ''0'' then Ok (SetBit_cmd key offset False)
        else if t = ''1'' then Ok (SetBit_cmd key offset True)
        else Err (Command (InvalidArgument ''bit value must be 0 or 1''))))))"

definition parse_bitcount :: "resp_frame list \<Rightarrow> bit_command result" where
  "parse_bitcount frames =
     arity (length frames \<ge> 2 \<and> length frames \<le> 4) ''BITCOUNT''
       (bind_result (extract_bytes (frames ! 1)) (\<lambda>key.
        if length frames = 4
        then bind_result (read_isize (frames ! 2)) (\<lambda>a. bind_result (read_isize (frames ! 3)) (\<lambda>b. Ok (BitCount_cmd key (Some a) (Some b))))
        else Ok (BitCount_cmd key None None)))"

definition parse_config :: "command_env \<Rightarrow> resp_frame list \<Rightarrow> config_command result" where
  "parse_config env frames =
     arity (length frames \<ge> 3) ''CONFIG''
       (bind_result (extract_string (frames ! 1)) (\<lambda>sub.
        if upper_is sub ''GET'' then arity (length frames = 3) ''CONFIG GET'' (bind_result (extract_string (frames ! 2)) (\<lambda>p. Ok (ConfigGet_cmd p)))
        else if upper_is sub ''SET'' then
          arity (length frames = 4) ''CONFIG SET'' (bind_result (extract_string (frames ! 2)) (\<lambda>p. bind_result (extract_string (frames ! 3)) (\<lambda>v. Ok (ConfigSet_cmd p v))))
        else missing (''Unknown CONFIG subcommand: '' @ show_upper env sub)))"

section \<open>The parser\<close>

definition tagged :: "('a \<Rightarrow> typed_command) \<Rightarrow> (string \<times> (resp_frame list \<Rightarrow> 'a result)) list \<Rightarrow> (string \<times> (resp_frame list \<Rightarrow> typed_command result)) list" where
  "tagged c ps = map (\<lambda>(n, p). (n, \<lambda>frames. bind_result (p frames) (\<lambda>x. Ok (c x)))) ps"

definition command_parsers :: "command_env \<Rightarrow> (string \<times> (resp_frame list \<Rightarrow> typed_command result)) list" where
  "command_parsers env =
     tagged String_Command string_parsers @ tagged List_Command list_parsers @ tagged Set_Command set_parsers @ tagged Hash_Command hash_parsers @
     tagged SortedSet_Command (sorted_parsers env) @ tagged Key_Command key_parsers @
     tagged Server_Command [(''PING'', parse_ping), (''ECHO'', parse_key ''ECHO'' Echo_cmd), (''TIME'', \<lambda>frames. Ok Time_cmd), (''INFO'', parse_info)] @
     tagged Stream_Command stream_parsers @
     tagged Scan_Command [(''SCAN'', parse_scan_cmd), (''HSCAN'', parse_key_scan ''HSCAN'' HScan_cmd), (''SSCAN'', parse_key_scan ''SSCAN'' SScan_cmd),
       (''ZSCAN'', parse_key_scan ''ZSCAN'' ZScan_cmd)] @
     tagged Database_Command [(''FLUSHDB'', \<lambda>frames. Ok FlushDb_cmd), (''FLUSHALL'', \<lambda>frames. Ok FlushAll_cmd), (''DBSIZE'', \<lambda>frames. Ok DbSize_cmd),
       (''KEYS'', parse_key ''KEYS'' Keys_cmd)] @
     tagged ConsumerGroup_Command group_parsers @
     tagged Persistence_Command [(''SAVE'', \<lambda>frames. Ok Save_cmd), (''BGSAVE'', \<lambda>frames. Ok BgSave_cmd), (''LASTSAVE'', \<lambda>frames. Ok LastSave_cmd),
       (''BGREWRITEAOF'', \<lambda>frames. Ok BgRewriteAof_cmd)] @
     tagged Bit_Command [(''GETBIT'', parse_key_then_number ''GETBIT'' read_usize GetBit_cmd), (''SETBIT'', parse_setbit), (''BITCOUNT'', parse_bitcount)] @
     tagged Config_Command [(''CONFIG'', parse_config env)]"

definition parse_command :: "command_env \<Rightarrow> resp_frame list \<Rightarrow> typed_command result" where
  "parse_command env frames =
     (if frames = [] then Err (Command EmptyCommand)
      else bind_result (extract_string (frames ! 0)) (\<lambda>name.
             case map_of (map (\<lambda>(n, p). (map of_char n, p)) (command_parsers env)) (to_uppercase (from_utf8_lossy name)) of
               Some p \<Rightarrow> p frames
             | None \<Rightarrow> Err (Command (UnknownCommand (show_upper env name)))))"

end
