(* ===== verification/Executor.thy ===== *)
theory Executor
  imports Executor_Parse
begin

text \<open>
  \<^verbatim>\<open>UnifiedCommandExecutor\<close> of \<^verbatim>\<open>src/storage/commands/executor.rs\<close> and its two adapters: typed commands are executed on the storage
  engine, several of them by building the frames of a handler of \<^verbatim>\<open>src/storage/commands/\<close> and calling it.
\<close>

section \<open>Strings, lists, sets and hashes\<close>

abbreviation text_frame :: "string \<Rightarrow> resp_frame" where
  "text_frame \<equiv> from_bytes"

definition pair_frames :: "(bytes \<times> bytes) list \<Rightarrow> resp_frame list" where
  "pair_frames ps = concat (map (\<lambda>(a, b). [from_bytes a, from_bytes b]) ps)"

fun count_hits :: "(nat \<Rightarrow> bytes \<Rightarrow> (storage_engine, bool) step) \<Rightarrow> nat \<Rightarrow> nat \<Rightarrow> bytes list \<Rightarrow> command" where
  "count_hits f i n [] = answer (count_frame n)"
| "count_hits f i n (key # ks) = (\<lambda>s. and_then (f i key s) (\<lambda>s hit. count_hits f (i + 1) (if hit then n + 1 else n) ks s))"

definition execute_set_string :: "command_env \<Rightarrow> nat \<Rightarrow> bytes \<Rightarrow> bytes \<Rightarrow> set_options_record \<Rightarrow> command" where
  "execute_set_string env db key b opts =
     (if nx opts \<and> xx opts then refuse ''ERR NX and XX options are mutually exclusive''
      else (let k = (if get_old opts then 1 else 0) in (\<lambda>s.
        and_then (if get_old opts then on_shard db key (get_string key (clock env 0)) s else (s, Ok None)) (\<lambda>s old.
        and_then
          (if nx opts then store_string_nx db key b (expiration opts) (clock env k) (clock env (k + 1)) s
           else if xx opts then
             and_then (on_shard db key (key_exists key (clock env k)) s) (\<lambda>s found.
               if \<not> found then (s, Ok False)
               else and_then (store_string db key b (expiration opts) (clock env (k + 1)) s) (\<lambda>s _. (s, Ok True)))
           else and_then (store_string db key b (expiration opts) (clock env k) s) (\<lambda>s _. (s, Ok True))) (\<lambda>s success.
        answer (if get_old opts then bulk_or_null old else if (nx opts \<or> xx opts) \<and> \<not> success then null_bulk else resp_ok) s)))))"

fun execute_string :: "command_env \<Rightarrow> nat \<Rightarrow> string_command \<Rightarrow> command" where
  "execute_string env db (Set_cmd key b opts) = execute_set_string env db key b opts"
| "execute_string env db (Get_cmd key) = (\<lambda>s. reply bulk_or_null (on_shard db key (get_string key (clock env 0)) s))"
| "execute_string env db (MGet_cmd ks) = handle_mget env db (text_frame ''MGET'' # map from_bytes ks)"
| "execute_string env db (MSet_cmd ps) = handle_mset env db (text_frame ''MSET'' # pair_frames ps)"
| "execute_string env db (Incr_cmd key) = (\<lambda>s. reply Integer (on_shard db key (incr key (clock env 0)) s))"
| "execute_string env db (IncrBy_cmd key n) = (\<lambda>s. reply Integer (on_shard db key (incr_by key n (clock env 0)) s))"
| "execute_string env db (Decr_cmd key) = (\<lambda>s. reply Integer (on_shard db key (incr_by key (- 1) (clock env 0)) s))"
| "execute_string env db (DecrBy_cmd key n) = (\<lambda>s. reply Integer (on_shard db key (incr_by key (- n) (clock env 0)) s))"
| "execute_string env db (SetNx_cmd key b) = (\<lambda>s. reply flag_frame (on_shard db key (set_string_nx key b (clock env 0)) s))"
| "execute_string env db (SetEx_cmd key b n) = (\<lambda>s. reply ok_frame (on_shard db key (set_string_ex key b (from_secs n) (clock env 0)) s))"
| "execute_string env db (PSetEx_cmd key b n) = (\<lambda>s. reply ok_frame (on_shard db key (set_string_ex key b (from_millis n) (clock env 0)) s))"
| "execute_string env db (Append_cmd key b) = (\<lambda>s. reply count_frame (on_shard db key (append_string key b (clock env 0)) s))"
| "execute_string env db (StrLen_cmd key) = (\<lambda>s. reply count_frame (on_shard db key (strlen key) s))"
| "execute_string env db (GetSet_cmd key b) = handle_getset env db [text_frame ''GETSET'', from_bytes key, from_bytes b]"
| "execute_string env db (GetRange_cmd key a b) = (\<lambda>s. reply from_bytes (on_shard db key (getrange key a b) s))"
| "execute_string env db (SetRange_cmd key n b) = (\<lambda>s. reply count_frame (on_shard db key (setrange key n b (clock env 0)) s))"
| "execute_string env db (Del_cmd ks) = count_hits (\<lambda>i key. on_shard db key (delete_key key)) 0 0 ks"

fun execute_list :: "command_env \<Rightarrow> nat \<Rightarrow> list_command \<Rightarrow> command" where
  "execute_list env db (LPush_cmd key vs) = (\<lambda>s. reply count_frame (on_shard db key (lpush key vs (clock env 0)) s))"
| "execute_list env db (RPush_cmd key vs) = (\<lambda>s. reply count_frame (on_shard db key (rpush key vs (clock env 0)) s))"
| "execute_list env db (LPop_cmd key) = (\<lambda>s. reply bulk_or_null (on_shard db key (lpop key) s))"
| "execute_list env db (RPop_cmd key) = (\<lambda>s. reply bulk_or_null (on_shard db key (rpop key) s))"
| "execute_list env db (LLen_cmd key) = (\<lambda>s. reply count_frame (on_shard db key (llen key) s))"
| "execute_list env db (LIndex_cmd key i) = (\<lambda>s. reply bulk_or_null (on_shard db key (lindex key i) s))"
| "execute_list env db (LSet_cmd key i b) = (\<lambda>s. reply ok_frame (on_shard db key (lset key i b) s))"
| "execute_list env db (LRange_cmd key a b) = (\<lambda>s. reply bulk_array (on_shard db key (lrange key a b) s))"
| "execute_list env db (LTrim_cmd key a b) = (\<lambda>s. reply ok_frame (on_shard db key (ltrim key a b) s))"
| "execute_list env db (LRem_cmd key n b) = (\<lambda>s. reply count_frame (on_shard db key (lrem key n b) s))"

definition single_or_array :: "bool \<Rightarrow> bytes list \<Rightarrow> resp_frame" where
  "single_or_array one ms = (if one \<and> ms \<noteq> [] then from_bytes (hd ms) else bulk_array ms)"

fun execute_set :: "command_env \<Rightarrow> nat \<Rightarrow> set_command \<Rightarrow> command" where
  "execute_set env db (SAdd_cmd key ms) = (\<lambda>s. reply count_frame (on_shard db key (sadd key ms (clock env 0)) s))"
| "execute_set env db (SRem_cmd key ms) = (\<lambda>s. reply count_frame (on_shard db key (srem key ms) s))"
| "execute_set env db (SMembers_cmd key) = (\<lambda>s. reply bulk_array (on_shard db key (smembers key) s))"
| "execute_set env db (SCard_cmd key) = (\<lambda>s. reply count_frame (on_shard db key (scard key) s))"
| "execute_set env db (SIsMember_cmd key m) = (\<lambda>s. reply flag_frame (on_shard db key (sismember key m) s))"
| "execute_set env db (SUnion_cmd ks) = (\<lambda>s. reply bulk_array (query (\<lambda>e. sunion e db ks) s))"
| "execute_set env db (SInter_cmd ks) = (\<lambda>s. reply bulk_array (query (\<lambda>e. sinter e db ks) s))"
| "execute_set env db (SDiff_cmd ks) = (\<lambda>s. reply bulk_array (query (\<lambda>e. sdiff e db ks) s))"
| "execute_set env db (SRandMember_cmd key count) =
     (let n = (case count of Some n \<Rightarrow> n | None \<Rightarrow> 1) in
      (\<lambda>s. reply (single_or_array (n = 1)) (on_shard db key (srandmember (shuffle env) (pick env) key n) s)))"
| "execute_set env db (SPop_cmd key count) =
     (let n = (case count of Some n \<Rightarrow> n | None \<Rightarrow> 1) in (\<lambda>s. reply (single_or_array (n = 1)) (on_shard db key (spop (shuffle env) key n) s)))"

fun execute_hash :: "command_env \<Rightarrow> nat \<Rightarrow> hash_command \<Rightarrow> command" where
  "execute_hash env db (HSet_cmd key fvs) = (\<lambda>s. reply count_frame (on_shard db key (hset key fvs (clock env 0)) s))"
| "execute_hash env db (HGet_cmd key f) = (\<lambda>s. reply bulk_or_null (on_shard db key (hget key f) s))"
| "execute_hash env db (HMSet_cmd key fvs) = (\<lambda>s. reply ok_frame (on_shard db key (hset key fvs (clock env 0)) s))"
| "execute_hash env db (HMGet_cmd key fs) = (\<lambda>s. reply (\<lambda>vs. Array (Some (map bulk_or_null vs))) (on_shard db key (hmget key fs) s))"
| "execute_hash env db (HGetAll_cmd key) = (\<lambda>s. reply (\<lambda>fvs. bulk_array (concat (map (\<lambda>(f, v). [f, v]) fvs))) (on_shard db key (hgetall key) s))"
| "execute_hash env db (HDel_cmd key fs) = (\<lambda>s. reply count_frame (on_shard db key (hdel key fs) s))"
| "execute_hash env db (HLen_cmd key) = (\<lambda>s. reply count_frame (on_shard db key (hlen key) s))"
| "execute_hash env db (HExists_cmd key f) = (\<lambda>s. reply flag_frame (on_shard db key (hexists key f) s))"
| "execute_hash env db (HKeys_cmd key) = (\<lambda>s. reply bulk_array (on_shard db key (hkeys key) s))"
| "execute_hash env db (HVals_cmd key) = (\<lambda>s. reply bulk_array (on_shard db key (hvals key) s))"
| "execute_hash env db (HIncrBy_cmd key f n) = (\<lambda>s. reply Integer (on_shard db key (hincrby key f n (clock env 0)) s))"

section \<open>Sorted sets and keys\<close>

fun add_scores :: "command_env \<Rightarrow> nat \<Rightarrow> bytes \<Rightarrow> nat \<Rightarrow> nat \<Rightarrow> (f64 \<times> bytes) list \<Rightarrow> command" where
  "add_scores env db key i n [] = answer (count_frame n)"
| "add_scores env db key i n ((x, m) # ms) = (\<lambda>s.
     and_then (on_shard db key (zadd (draw_level env i) key m x (clock env i)) s) (\<lambda>s is_new. add_scores env db key (i + 1) (if is_new then n + 1 else n) ms s))"

primrec pop_members :: "command_env \<Rightarrow> nat \<Rightarrow> bytes \<Rightarrow> int \<Rightarrow> nat \<Rightarrow> resp_frame list \<Rightarrow> command" where
  "pop_members env db key pos 0 popped = answer (Array (Some popped))"
| "pop_members env db key pos (Suc n) popped = (\<lambda>s.
     and_then (on_shard db key (zrange key pos pos False) s) (\<lambda>s members.
       case members of
         [] \<Rightarrow> answer (Array (Some popped)) s
       | p # _ \<Rightarrow> and_then (on_shard db key (zrem key (fst p)) s) (\<lambda>s removed.
           if removed then pop_members env db key pos n (popped @ score_pair env p) s else answer (Array (Some popped)) s)))"

definition remove_members_of :: "nat \<Rightarrow> bytes \<Rightarrow> (bytes \<times> f64) list shard_op \<Rightarrow> command" where
  "remove_members_of db key found s =
     and_then (on_shard db key found s) (\<lambda>s ms. count_hits (\<lambda>i m. on_shard db key (zrem key m)) 0 0 (map fst ms) s)"

fun execute_sorted_set :: "command_env \<Rightarrow> nat \<Rightarrow> sorted_set_command \<Rightarrow> command" where
  "execute_sorted_set env db (ZAdd_cmd key ms) = add_scores env db key 0 0 ms"
| "execute_sorted_set env db (ZRem_cmd key ms) = count_hits (\<lambda>i m. on_shard db key (zrem key m)) 0 0 ms"
| "execute_sorted_set env db (ZScore_cmd key m) = (\<lambda>s. reply (\<lambda>x. bulk_or_null (map_option (show_f64 env) x)) (on_shard db key (zscore key m) s))"
| "execute_sorted_set env db (ZCard_cmd key) = (\<lambda>s. reply count_frame (on_shard db key (zcard key) s))"
| "execute_sorted_set env db (ZRank_cmd key m) = (\<lambda>s. reply rank_frame (on_shard db key (zrank key m False) s))"
| "execute_sorted_set env db (ZRevRank_cmd key m) = (\<lambda>s. reply rank_frame (on_shard db key (zrank key m True) s))"
| "execute_sorted_set env db (ZRange_cmd key a b w) = (\<lambda>s. reply (members_frame env w) (on_shard db key (zrange key a b False) s))"
| "execute_sorted_set env db (ZRevRange_cmd key a b w) = (\<lambda>s. reply (members_frame env w) (on_shard db key (zrange key a b True) s))"
| "execute_sorted_set env db (ZRangeByScore_cmd key lo hi w) = (\<lambda>s. reply (members_frame env w) (on_shard db key (zrangebyscore key lo hi False) s))"
| "execute_sorted_set env db (ZCount_cmd key lo hi) = (\<lambda>s. reply count_frame (on_shard db key (zcount key lo hi) s))"
| "execute_sorted_set env db (ZIncrBy_cmd key x m) =
     (\<lambda>s. reply (\<lambda>y. from_bytes (show_f64 env y)) (on_shard db key (zincrby (add_f64 env) (draw_level env 0) key m x (clock env 0)) s))"
| "execute_sorted_set env db (ZRevRangeByScore_cmd key hi lo w) = (\<lambda>s. reply (members_frame env w) (on_shard db key (zrangebyscore key lo hi True) s))"
| "execute_sorted_set env db (ZPopMin_cmd key count) = pop_members env db key 0 (case count of Some n \<Rightarrow> n | None \<Rightarrow> 1) []"
| "execute_sorted_set env db (ZPopMax_cmd key count) = pop_members env db key (- 1) (case count of Some n \<Rightarrow> n | None \<Rightarrow> 1) []"
| "execute_sorted_set env db (ZRemRangeByRank_cmd key a b) = remove_members_of db key (zrange key a b False)"
| "execute_sorted_set env db (ZRemRangeByScore_cmd key lo hi) = remove_members_of db key (zrangebyscore key lo hi False)"
| "execute_sorted_set env db (ZRemRangeByLex_cmd key a b) = answer (Integer 0)"

definition whole_seconds :: "nat \<Rightarrow> i64" where
  "whole_seconds d = (let secs = d div 1000000000 in if secs = 0 \<and> d mod 1000000000 div 1000000 > 0 then 1 else word_of_nat secs)"

fun execute_key :: "command_env \<Rightarrow> nat \<Rightarrow> key_command \<Rightarrow> command" where
  "execute_key env db (Exists_cmd ks) = count_hits (\<lambda>i key. on_shard db key (key_exists key (clock env i))) 0 0 ks"
| "execute_key env db (Expire_cmd key n) = (\<lambda>s. reply flag_frame (on_shard db key (expire key (from_secs n) (clock env 0) (clock env 1)) s))"
| "execute_key env db (PExpire_cmd key n) = (\<lambda>s. reply flag_frame (on_shard db key (pexpire key n (clock env 0) (clock env 1)) s))"
| "execute_key env db (Ttl_cmd key) = (\<lambda>s.
     and_then (on_shard db key (ttl key (clock env 0)) s) (\<lambda>s d.
       case d of
         Some d \<Rightarrow> answer (Integer (whole_seconds d)) s
       | None \<Rightarrow> reply (\<lambda>found. Integer (if found then - 1 else - 2)) (on_shard db key (key_exists key (clock env 1)) s)))"
| "execute_key env db (Pttl_cmd key) = (\<lambda>s. reply Integer (on_shard db key (pttl key (clock env 0) (clock env 1)) s))"
| "execute_key env db (Persist_cmd key) = (\<lambda>s. reply flag_frame (on_shard db key (persist key) s))"
| "execute_key env db (Type_cmd key) = (\<lambda>s. reply from_bytes (on_shard db key (key_type key) s))"
| "execute_key env db (Rename_cmd a b) = (\<lambda>s. reply ok_frame (rename_key db a b s))"
| "execute_key env db (RenameNx_cmd a b) = handle_rename env db [text_frame ''RENAMENX'', from_bytes a, from_bytes b]"
| "execute_key env db RandomKey_cmd =
     (\<lambda>s. reply (\<lambda>ks. if ks = [] then null_bulk else from_bytes (ks ! (random_usize env mod length ks))) (query (\<lambda>e. get_all_keys e db) s))"

section \<open>Server, streams and scans\<close>

fun execute_server :: "command_env \<Rightarrow> server_command \<Rightarrow> command" where
  "execute_server env (Ping_cmd m) = answer (case m of Some b \<Rightarrow> from_bytes b | None \<Rightarrow> text_frame ''PONG'')"
| "execute_server env (Echo_cmd b) = answer (from_bytes b)"
| "execute_server env Time_cmd =
     answer (Array (Some [text_frame (nat_to_string (wall_clock env 0 div 1000000000)), text_frame (nat_to_string (wall_clock env 0 mod 1000000000 div 1000))]))"
| "execute_server env (Info_cmd section) = answer (text_frame (''# Server'' @ [LF] @ ''redis_version:7.0.0'' @ [LF]))"

definition option_frames :: "string \<Rightarrow> string option \<Rightarrow> resp_frame list" where
  "option_frames name v = (case v of Some t \<Rightarrow> [text_frame name, text_frame t] | None \<Rightarrow> [])"

abbreviation count_frames :: "nat option \<Rightarrow> resp_frame list" where
  "count_frames n \<equiv> option_frames ''COUNT'' (map_option nat_to_string n)"

fun execute_stream :: "command_env \<Rightarrow> nat \<Rightarrow> stream_command \<Rightarrow> command" where
  "execute_stream env db (XAdd_cmd key i fvs) =
     handle_xadd env db ([text_frame ''XADD'', from_bytes key, text_frame (case i of Some t \<Rightarrow> t | None \<Rightarrow> ''*'')] @ pair_frames fvs)"
| "execute_stream env db (XLen_cmd key) = handle_xlen env db [text_frame ''XLEN'', from_bytes key]"
| "execute_stream env db (XRange_cmd key a b n) = handle_xrange env db ([text_frame ''XRANGE'', from_bytes key, text_frame a, text_frame b] @ count_frames n)"
| "execute_stream env db (XRevRange_cmd key a b n) = handle_xrevrange env db ([text_frame ''XREVRANGE'', from_bytes key, text_frame a, text_frame b] @ count_frames n)"
| "execute_stream env db (XRead_cmd kis n block) =
     handle_xread env db ([text_frame ''XREAD''] @ count_frames n @ [text_frame ''STREAMS''] @ map (\<lambda>p. from_bytes (fst p)) kis @ map (\<lambda>p. text_frame (snd p)) kis)"
| "execute_stream env db (XTrim_cmd key st n) = handle_xtrim env db [text_frame ''XTRIM'', from_bytes key, text_frame st, text_frame (nat_to_string n)]"
| "execute_stream env db (XDel_cmd key ids) = handle_xdel env db ([text_frame ''XDEL'', from_bytes key] @ map text_frame ids)"

definition scan_frames :: "bytes option \<Rightarrow> nat option \<Rightarrow> resp_frame list" where
  "scan_frames pat n = option_frames ''MATCH'' pat @ count_frames n"

fun execute_scan :: "command_env \<Rightarrow> nat \<Rightarrow> scan_command \<Rightarrow> command" where
  "execute_scan env db (Scan_cmd cursor pat n ty) =
     handle_scan env db ([text_frame ''SCAN'', text_frame (u64_to_string cursor)] @ scan_frames pat n @ option_frames ''TYPE'' ty)"
| "execute_scan env db (HScan_cmd key cursor pat n) = handle_hscan env db ([text_frame ''HSCAN'', from_bytes key, text_frame (u64_to_string cursor)] @ scan_frames pat n)"
| "execute_scan env db (SScan_cmd key cursor pat n) = handle_sscan env db ([text_frame ''SSCAN'', from_bytes key, text_frame (u64_to_string cursor)] @ scan_frames pat n)"
| "execute_scan env db (ZScan_cmd key cursor pat n) = handle_zscan env db ([text_frame ''ZSCAN'', from_bytes key, text_frame (u64_to_string cursor)] @ scan_frames pat n)"

section \<open>Databases, groups, bits and configuration\<close>

text \<open>The database of these commands is the one of the connection, or the first when there is none.\<close>

record connection_context =
  ctx_conn :: u64
  ctx_db :: nat
  ctx_replica :: bool
  ctx_transaction :: bool

definition context_db :: "connection_context option \<Rightarrow> nat" where
  "context_db ctx = (case ctx of Some c \<Rightarrow> ctx_db c | None \<Rightarrow> 0)"

fun execute_database :: "command_env \<Rightarrow> connection_context option \<Rightarrow> database_command \<Rightarrow> command" where
  "execute_database env ctx FlushDb_cmd = (\<lambda>s. reply ok_frame (flush_db (context_db ctx) s))"
| "execute_database env ctx FlushAll_cmd = (\<lambda>s. reply ok_frame (steps (map flush_db [0 ..< length (databases s)]) s))"
| "execute_database env ctx DbSize_cmd = (\<lambda>s. reply (\<lambda>ks. count_frame (length ks)) (query (\<lambda>e. get_all_keys e (context_db ctx)) s))"
| "execute_database env ctx (Keys_cmd pat) = handle_keys env (context_db ctx) [text_frame ''KEYS'', from_bytes pat]"

fun execute_consumer_group :: "command_env \<Rightarrow> nat \<Rightarrow> consumer_group_command \<Rightarrow> command" where
  "execute_consumer_group env db (XGroup_cmd sub key g args) =
     handle_xgroup env db ([text_frame ''XGROUP'', text_frame sub, from_bytes key, text_frame g] @ map text_frame args)"
| "execute_consumer_group env db (XReadGroup_cmd g c kis n block noack) =
     handle_xreadgroup env db ([text_frame ''XREADGROUP'', text_frame ''GROUP'', text_frame g, text_frame c] @ count_frames n @ [text_frame ''STREAMS''] @ pair_frames kis)"
| "execute_consumer_group env db (XAck_cmd key g ids) = handle_xack env db ([text_frame ''XACK'', from_bytes key, text_frame g] @ map text_frame ids)"
| "execute_consumer_group env db (XPending_cmd key g rng c) =
     handle_xpending env db ([text_frame ''XPENDING'', from_bytes key, text_frame g] @
       (case rng of Some (a, b, n) \<Rightarrow> [text_frame a, text_frame b, text_frame (nat_to_string n)] | None \<Rightarrow> []))"
| "execute_consumer_group env db (XClaim_cmd key g c ms ids force justid) =
     handle_xclaim env db ([text_frame ''XCLAIM'', from_bytes key, text_frame g, text_frame c, text_frame (u64_to_string ms)] @ map text_frame ids)"
| "execute_consumer_group env db (XInfo_cmd sub key g) =
     handle_xinfo env db ([text_frame ''XINFO'', text_frame sub, from_bytes key] @ (case g of Some t \<Rightarrow> [text_frame t] | None \<Rightarrow> []))"

fun execute_persistence :: "command_env \<Rightarrow> persistence_command \<Rightarrow> command" where
  "execute_persistence env Save_cmd = answer resp_ok"
| "execute_persistence env BgSave_cmd = answer (text_frame ''Background saving started'')"
| "execute_persistence env LastSave_cmd = answer (Integer (word_of_nat (wall_clock env 0 div 1000000000)))"
| "execute_persistence env BgRewriteAof_cmd = answer (text_frame ''Background append only file rewriting started'')"

definition bit_of :: "bytes \<Rightarrow> nat \<Rightarrow> nat" where
  "bit_of b offset =
     (if offset div 8 < length b then of_char (b ! (offset div 8)) div 2 ^ (7 - offset mod 8) mod 2 else 0)"

definition put_bit :: "bytes \<Rightarrow> nat \<Rightarrow> bool \<Rightarrow> bytes" where
  "put_bit b offset v =
     (let k = offset div 8; p = 7 - offset mod 8; d = b @ replicate (k + 1 - length b) (CHR 0x00); n = of_char (d ! k) :: nat
      in d[k := char_of (if v then set_bit p n else unset_bit p n)])"

definition count_ones :: "char \<Rightarrow> nat" where
  "count_ones c = length (filter (\<lambda>k. (of_char c :: nat) div 2 ^ k mod 2 = 1) [0 ..< 8])"

text \<open>The byte positions of \<^verbatim>\<open>BITCOUNT\<close>: a position is clamped as a signed number and then read as \<^verbatim>\<open>usize\<close>.\<close>

definition clamp_byte :: "int \<Rightarrow> int \<Rightarrow> nat" where
  "clamp_byte len i = nat ((if i < 0 then max (len + i) 0 else min i (len - 1)) mod 2 ^ 64)"

definition bit_range :: "bytes \<Rightarrow> int option \<Rightarrow> int option \<Rightarrow> nat \<times> nat" where
  "bit_range b a z =
     (case (a, z) of
        (Some i, Some j) \<Rightarrow> (clamp_byte (int (length b)) i, clamp_byte (int (length b)) j)
      | _ \<Rightarrow> (0, length b - 1))"

definition bit_count :: "bytes \<Rightarrow> int option \<Rightarrow> int option \<Rightarrow> nat result" where
  "bit_count b a z =
     (let (i, j) = bit_range b a z; j = min j (length b - 1) in
      if i > j + 1 \<or> j + 1 > length b then Panic else Ok (sum_list (map count_ones (take (j + 1 - i) (drop i b)))))"

fun execute_bit :: "command_env \<Rightarrow> nat \<Rightarrow> bit_command \<Rightarrow> command" where
  "execute_bit env db (GetBit_cmd key offset) = (\<lambda>s.
     reply (\<lambda>v. count_frame (case v of Some b \<Rightarrow> bit_of b offset | None \<Rightarrow> 0)) (on_shard db key (get_string key (clock env 0)) s))"
| "execute_bit env db (SetBit_cmd key offset v) = (\<lambda>s.
     and_then (on_shard db key (get_string key (clock env 0)) s) (\<lambda>s old.
       let b = (case old of Some b \<Rightarrow> b | None \<Rightarrow> []) in
       reply (\<lambda>_. count_frame (bit_of b offset)) (on_shard db key (set_string key (put_bit b offset v) (clock env 1)) s)))"
| "execute_bit env db (BitCount_cmd key a z) = (\<lambda>s.
     and_then (on_shard db key (get_string key (clock env 0)) s) (\<lambda>s v.
       case v of
         Some b \<Rightarrow> reply count_frame (s, bit_count b a z)
       | None \<Rightarrow> answer (Integer 0) s))"

definition lower_is :: "string \<Rightarrow> string \<Rightarrow> bool" where
  "lower_is t word \<longleftrightarrow> map (\<lambda>n. if 65 \<le> n \<and> n \<le> 90 then n + 32 else n) (from_utf8_lossy t) = map of_char word"

fun execute_config :: "config_command \<Rightarrow> command" where
  "execute_config (ConfigGet_cmd p) =
     answer (Array (Some
       (if lower_is p ''maxmemory'' then [text_frame ''maxmemory'', text_frame ''0'']
        else if lower_is p ''timeout'' then [text_frame ''timeout'', text_frame ''0'']
        else [text_frame p, text_frame []])))"
| "execute_config (ConfigSet_cmd p v) = answer resp_ok"

section \<open>The executor and its adapters\<close>

fun execute :: "command_env \<Rightarrow> connection_context option \<Rightarrow> nat option \<Rightarrow> typed_command \<Rightarrow> command" where
  "execute env ctx db_override c =
     (let db = (case db_override of Some d \<Rightarrow> d | None \<Rightarrow> context_db ctx) in
      case c of
        String_Command x \<Rightarrow> execute_string env db x
      | List_Command x \<Rightarrow> execute_list env db x
      | Set_Command x \<Rightarrow> execute_set env db x
      | Hash_Command x \<Rightarrow> execute_hash env db x
      | SortedSet_Command x \<Rightarrow> execute_sorted_set env db x
      | Key_Command x \<Rightarrow> execute_key env db x
      | Server_Command x \<Rightarrow> execute_server env x
      | Stream_Command x \<Rightarrow> execute_stream env db x
      | Scan_Command x \<Rightarrow> execute_scan env db x
      | Database_Command x \<Rightarrow> execute_database env ctx x
      | ConsumerGroup_Command x \<Rightarrow> execute_consumer_group env db x
      | Persistence_Command x \<Rightarrow> execute_persistence env x
      | Bit_Command x \<Rightarrow> execute_bit env db x
      | Config_Command x \<Rightarrow> execute_config x)"

definition parse_and_execute :: "command_env \<Rightarrow> connection_context option \<Rightarrow> nat option \<Rightarrow> resp_frame list \<Rightarrow> command" where
  "parse_and_execute env ctx db_override frames s =
     (case parse_command env frames of Ok c \<Rightarrow> execute env ctx db_override c s | Err e \<Rightarrow> (s, Err e) | Panic \<Rightarrow> (s, Panic))"

definition execute_with_context :: "command_env \<Rightarrow> u64 \<Rightarrow> nat \<Rightarrow> resp_frame list \<Rightarrow> command" where
  "execute_with_context env i db frames =
     parse_and_execute env (Some \<lparr>ctx_conn = i, ctx_db = db, ctx_replica = False, ctx_transaction = False\<rparr>) None frames"

definition execute_lua_command :: "command_env \<Rightarrow> nat \<Rightarrow> string list \<Rightarrow> command" where
  "execute_lua_command env db args = parse_and_execute env None (Some db) (map (\<lambda>a. BulkString (Some a)) args)"

end
