(* ===== verification/Executor_Correct.thy ===== *)
theory Executor_Correct
  imports Executor Dispatch_Correct
begin

text \<open>
  Scripts and clients go through different code: a client's command is parsed and executed by its handler, a command
  of a script by \<^verbatim>\<open>CommandParser\<close> and \<^verbatim>\<open>UnifiedCommandExecutor\<close>.  \<open>mirrors h f\<close> states that \<open>f\<close> reproduces every successful
  execution of \<open>h\<close> with its reply; its rules go through the argument readers of the handlers.
\<close>

section \<open>Requests of bulk strings\<close>

definition frames :: "string list \<Rightarrow> resp_frame list" where
  "frames args = map (\<lambda>a. BulkString (Some a)) args"

lemma frames_simps [simp]: "length (frames args) = length args" "drop k (frames args) = frames (drop k args)" "frames [] = []"
  "frames (a # args) = BulkString (Some a) # frames args" "i < length args \<Longrightarrow> frames args ! i = BulkString (Some (args ! i))" "frames args = [] \<longleftrightarrow> args = []"
  by (simp_all add: frames_def drop_map)

lemma bulk_arg_frames [simp]: "i < length args \<Longrightarrow> bulk_arg (frames args) i msg k = k (args ! i)"
  by (simp add: bulk_arg_def)

lemma parsed_arg_frames [simp]:
  "i < length args \<Longrightarrow> parsed_arg pf bad (frames args) i msg k = (case pf (args ! i) of Some n \<Rightarrow> k n | None \<Rightarrow> refuse bad)"
  by (simp add: parsed_arg_def)

lemma bulk_args_frames [simp]: "bulk_args (frames bs) msg k = k bs"
  by (induction bs arbitrary: k) simp_all

lemma map_filter_frames [simp]: "List.map_filter bulk (frames bs) = bs"
  by (induction bs) (simp_all add: List.map_filter_simps)

lemma extract_frames [simp]: "extract_bytes (BulkString (Some b)) = Ok b" "extract_all (frames bs) = Ok bs"
  "extract_string (BulkString (Some b)) = (if utf8_valid b then Ok b else Err (Command InvalidUtf8))"
  by (induction bs) (simp_all add: extract_bytes_def extract_string_def)

fun pairs :: "'a list \<Rightarrow> ('a \<times> 'a) list" where
  "pairs (a # b # xs) = (a, b) # pairs xs"
| "pairs _ = []"

lemma pairs_frames: "even (length bs) \<Longrightarrow> extract_pairs (frames bs) = Ok (pairs bs) \<and> field_values (frames bs) k = k (pairs bs) \<and> concat (map (\<lambda>(a, b). [a, b]) (pairs bs)) = bs"
  by (induction bs arbitrary: k rule: pairs.induct) simp_all

lemma pair_frames_pairs: "even (length bs) \<Longrightarrow> pair_frames (pairs bs) = frames bs"
  by (induction bs rule: pairs.induct) (simp_all add: pair_frames_def from_bytes_def)

lemma from_bytes_frames: "map from_bytes bs = frames bs"
  by (simp add: frames_def from_bytes_def)

section \<open>Numbers are valid texts\<close>

definition text_parser :: "(string \<Rightarrow> 'n option) \<Rightarrow> bool" where
  "text_parser pf \<longleftrightarrow> (\<forall>b n. pf b = Some n \<longrightarrow> utf8_valid b)"

lemma parse_digits_ascii: "parse_digits acc b = Some n \<Longrightarrow> is_ascii b"
  by (induction b arbitrary: acc) (auto simp: is_ascii_def is_digit_def split: if_splits)

lemma is_ascii_Cons: "is_digit c \<or> c = CHR ''+'' \<or> c = CHR ''-'' \<Longrightarrow> is_ascii (c # b) = is_ascii b"
  by (auto simp: is_ascii_def is_digit_def)

lemma parse_usize_ascii: "parse_usize b = Some n \<Longrightarrow> is_ascii b"
  by (auto simp: parse_usize_def parse_nat_def Let_def is_ascii_Cons dest!: parse_digits_ascii split: list.splits option.splits if_splits)

lemma parse_int_ascii: "parse_int b = Some n \<Longrightarrow> is_ascii b"
  by (auto simp: parse_int_def parse_nat_def is_ascii_Cons dest!: parse_digits_ascii split: list.splits option.splits if_splits)

lemma text_parser_usize [simp]: "text_parser parse_usize"
  using parse_usize_ascii utf8_valid_ascii by (auto simp: text_parser_def)

lemma text_parser_int: "(\<And>b n. pf b = Some n \<Longrightarrow> parse_int b \<noteq> None) \<Longrightarrow> text_parser pf"
  using parse_int_ascii utf8_valid_ascii by (fastforce simp: text_parser_def)

lemma text_parsers [simp]: "text_parser parse_u64" "text_parser parse_isize" "text_parser parse_i64"
proof -
  show "text_parser parse_u64" using text_parser_usize by (auto simp: text_parser_def parse_u64_def)
  show "text_parser parse_isize" "text_parser parse_i64"
    by (rule text_parser_int; auto simp: parse_i64_def parse_isize_def split: option.splits)+
qed

lemma replacement_is_no_char: "(0xFFFD :: nat) \<noteq> of_char c"
proof
  assume a: "(0xFFFD :: nat) = of_char c"
  have "(of_char c :: nat) < 256" using nat_of_char_less_256 by simp
  then show False unfolding a [symmetric] by simp
qed

lemma uppercase_valid: "to_uppercase (from_utf8_lossy b) = map of_char w \<Longrightarrow> utf8_valid b"
proof (rule ccontr)
  assume u: "to_uppercase (from_utf8_lossy b) = map of_char w" and n: "\<not> utf8_valid b"
  from n have "0xFFFD \<in> set (from_utf8_lossy b)" by (force simp: utf8_valid_def from_utf8_lossy_def)
  then have "0xFFFD \<in> set (to_uppercase (from_utf8_lossy b))" by (force simp: to_uppercase_def)
  then show False using u replacement_is_no_char by (metis imageE list.set_map)
qed

lemma upper_is_valid: "upper_is b w \<Longrightarrow> utf8_valid b"
  using uppercase_valid by (simp add: upper_is_def)

section \<open>Rules\<close>

definition mirrors :: "('s, resp_frame) step \<Rightarrow> ('s, resp_frame) step \<Rightarrow> bool" where
  "mirrors h f \<longleftrightarrow> (\<forall>s s' r. h s = (s', Ok r) \<longrightarrow> \<not> is_error r \<longrightarrow> f s = (s', Ok r))"

lemma mirrors_refl [simp]: "mirrors h h"
  by (simp add: mirrors_def)

lemma mirrors_refuse [simp]: "mirrors (refuse msg) f"
  by (simp add: mirrors_def answer_def is_error_def)

lemma mirrors_wrong_args [simp]: "mirrors (answer (wrong_args cmd)) f"
  by (simp add: wrong_args_def)

lemma mirrors_if: "(\<not> c \<Longrightarrow> mirrors h f) \<Longrightarrow> mirrors (if c then answer (wrong_args cmd) else h) f"
  by (simp add: wrong_args_def)

lemma mirrors_reply_via [simp]: "mirrors (\<lambda>s. reply_via txt F (p s)) (\<lambda>s. reply F (p s))"
proof -
  have "reply F (p s) = (s', Ok r)" if "reply_via txt F (p s) = (s', Ok r)" "\<not> is_error r" for s s' r
    using that by (cases "snd (p s)") (auto simp: reply_via_def reply_def and_then_def is_error_def)
  then show ?thesis by (simp add: mirrors_def)
qed

definition run_parsed :: "'c result \<Rightarrow> ('c \<Rightarrow> command) \<Rightarrow> command" where
  "run_parsed r f s = (case r of Ok c \<Rightarrow> f c s | Err e \<Rightarrow> (s, Err e) | Panic \<Rightarrow> (s, Panic))"

lemma run_parsed_Ok [simp]: "run_parsed (Ok c) f = f c"
  by (rule ext) (simp add: run_parsed_def)

definition float_texts :: "command_env \<Rightarrow> bool" where
  "float_texts env \<longleftrightarrow> text_parser (command_env.read_f64 env)"

definition agrees :: "string \<Rightarrow> bool" where
  "agrees n \<longleftrightarrow> (\<forall>env db args h. float_texts env \<longrightarrow> requests n (frames args) \<longrightarrow> (n, h) \<in> set storage_commands \<longrightarrow>
     mirrors (h env db (frames args)) (execute_lua_command env db args))"

lemma command_parsers_distinct: "distinct (map fst (command_parsers env))"
  unfolding command_parsers_def tagged_def string_parsers_def list_parsers_def set_parsers_def hash_parsers_def sorted_parsers_def key_parsers_def stream_parsers_def
    group_parsers_def
  by simp

lemma parser_found: "(n, p) \<in> set (command_parsers env) \<Longrightarrow> map_of (map (\<lambda>(n, p). (ascii n, p)) (command_parsers env)) (ascii n) = Some p"
proof (rule map_of_is_SomeI)
  have "map fst (map (\<lambda>(n, p). (ascii n, p)) (command_parsers env)) = map ascii (map fst (command_parsers env))" by auto
  then show "distinct (map fst (map (\<lambda>(n, p). (ascii n, p)) (command_parsers env)))"
    using command_parsers_distinct by (metis distinct_map inj_on_def ascii_eq)
qed auto

lemma lua_command:
  assumes "requests n (frames args)" "(n, p) \<in> set (command_parsers env)"
  shows "execute_lua_command env db args = run_parsed (p (frames args)) (execute env None (Some db))"
proof -
  from assms(1) obtain a as where a: "args = a # as" "to_uppercase (from_utf8_lossy a) = ascii n" by (cases args) (auto simp: requests_def)
  then have "parse_command env (frames args) = p (frames args)"
    using uppercase_valid [OF a(2)] parser_found [OF assms(2)] by (simp add: parse_command_def)
  then show ?thesis unfolding execute_lua_command_def parse_and_execute_def run_parsed_def frames_def by simp
qed

lemma unique_handler: "(n, h) \<in> set storage_commands \<Longrightarrow> (n, h') \<in> set storage_commands \<Longrightarrow> h = h'"
  using storage_command_found by (metis option.inject)

lemma number_texts [simp]: "parse_i64 b = Some i \<Longrightarrow> utf8_valid b" "parse_u64 b = Some u \<Longrightarrow> utf8_valid b"
  "parse_isize b = Some z \<Longrightarrow> utf8_valid b" "parse_usize b = Some n \<Longrightarrow> utf8_valid b"
  using text_parsers text_parser_usize by (auto simp: text_parser_def)

lemma float_text [simp]: "float_texts env \<Longrightarrow> command_env.read_f64 env b = Some x \<Longrightarrow> utf8_valid b"
  by (auto simp: float_texts_def text_parser_def)

lemmas parser_shapes = parse_key_def parse_key_bytes_def parse_key_many_def parse_many_def parse_key_number_def parse_key_then_number_def parse_number_bytes_def
  parse_range_def parse_setex_def parse_hincrby_def arity_def parsed_as_def key_arg_def mirrors_if

text \<open>A name of both tables, whose client's handler is mirrored by its parser and the executor.\<close>

definition matches :: "(string \<times> handler) list \<Rightarrow> (command_env \<Rightarrow> (string \<times> (resp_frame list \<Rightarrow> 'c result)) list) \<Rightarrow> (command_env \<Rightarrow> nat \<Rightarrow> 'c \<Rightarrow> command) \<Rightarrow> string \<Rightarrow> bool" where
  "matches hs ps run n \<longleftrightarrow>
     (\<exists>h. map_of hs n = Some h \<and> (\<forall>env. \<exists>q. map_of (ps env) n = Some q \<and>
        (float_texts env \<longrightarrow> (\<forall>db args. mirrors (h env db (frames args)) (run_parsed (q (frames args)) (run env db))))))"

lemma script_mirrors:
  assumes "requests n (frames args)" "(n, h') \<in> set storage_commands" "(n, h) \<in> set storage_commands" "(n, q) \<in> set ps"
    and ps: "set (tagged c ps) \<subseteq> set (command_parsers env)" and run: "\<And>x. execute env None (Some db) (c x) = run x"
    and m: "mirrors (h env db (frames args)) (run_parsed (q (frames args)) run)"
  shows "mirrors (h' env db (frames args)) (execute_lua_command env db args)"
proof -
  have "(n, \<lambda>fs. bind_result (q fs) (\<lambda>x. Ok (c x))) \<in> set (tagged c ps)" using assms(4) by (force simp: tagged_def)
  then have "execute_lua_command env db args = run_parsed (bind_result (q (frames args)) (\<lambda>x. Ok (c x))) (execute env None (Some db))"
    using lua_command [OF assms(1)] ps by blast
  moreover have "\<dots> = run_parsed (q (frames args)) run"
    by (rule ext, cases "q (frames args)") (simp_all add: run_parsed_def run del: execute.simps)
  ultimately show ?thesis using m unique_handler [OF assms(2,3)] by simp
qed

lemma matches_agrees:
  assumes m: "matches hs ps run n" and hs: "set hs \<subseteq> set storage_commands" and ps: "\<And>env. set (tagged c (ps env)) \<subseteq> set (command_parsers env)"
    and run: "\<And>env db x. execute env None (Some db) (c x) = run env db x"
  shows "agrees n"
  unfolding agrees_def
proof (intro allI impI)
  fix env db args h' assume a: "float_texts env" "requests n (frames args)" "(n, h') \<in> set storage_commands"
  from m obtain h q where h: "map_of hs n = Some h" and q: "map_of (ps env) n = Some q"
    and eq: "mirrors (h env db (frames args)) (run_parsed (q (frames args)) (run env db))" using a(1) by (force simp: matches_def)
  show "mirrors (h' env db (frames args)) (execute_lua_command env db args)"
    by (rule script_mirrors [where h = h and q = q and ps = "ps env" and c = c and run = "run env db", OF a(2,3) subsetD [OF hs map_of_SomeD [OF h]] map_of_SomeD [OF q] ps run eq])
qed

section \<open>Strings and keys\<close>

definition shared_strings :: "string list" where
  "shared_strings = [''GET'', ''INCR'', ''INCRBY'', ''DECR'', ''DECRBY'', ''SETEX'', ''PSETEX'', ''APPEND'', ''STRLEN'', ''GETSET'', ''GETRANGE'', ''SETRANGE'',
     ''DEL'', ''MGET'', ''MSET'']"

definition shared_keys :: "string list" where
  "shared_keys = [''EXISTS'', ''PEXPIRE'', ''PTTL'', ''PERSIST'', ''RENAME'']"

lemma count_loop_frames [simp]: "count_loop f i n (frames ks) = count_hits f i n ks"
  by (induction ks arbitrary: i n) simp_all

lemma rebuilt_mset:
  "odd (length args) \<Longrightarrow> 3 \<le> length args \<Longrightarrow> parse_mset (frames args) = Ok (MSet_cmd (pairs (drop 1 args))) \<and>
     handle_mset env db (text_frame ''MSET'' # pair_frames (pairs (drop 1 args))) = mset_loop env db 0 (frames (drop 1 args))"
  by (simp add: parse_mset_def arity_def handle_mset_def pairs_frames pair_frames_pairs odd_iff_mod_2_eq_one)

lemma mset_mirrors: "mirrors (handle_mset env db (frames args)) (run_parsed (parse_mset (frames args)) (execute_string env db))"
proof (cases "length args < 3 \<or> even (length args)")
  case False
  then show ?thesis using rebuilt_mset [of args env db] by (simp add: handle_mset_def odd_iff_mod_2_eq_one)
qed (auto simp: handle_mset_def even_iff_mod_2_eq_zero wrong_args_def)

lemma shared_strings_match: "n \<in> set shared_strings \<Longrightarrow> matches string_commands (\<lambda>_. string_parsers) execute_string n"
  unfolding shared_strings_def list.set
  by (elim insertE emptyE; simp add: matches_def string_commands_def string_parsers_def mset_mirrors;
      simp add: parser_shapes handle_get_def handle_incr_def handle_incrby_def handle_decr_def handle_decrby_def handle_setex_def handle_psetex_def handle_append_def
        handle_strlen_def handle_getset_def handle_getrange_def handle_setrange_def handle_del_def handle_mget_def bulk_arg_def from_bytes_frames from_bytes_def split: option.split)

lemma shared_keys_match: "n \<in> set shared_keys \<Longrightarrow> matches string_commands (\<lambda>_. key_parsers) execute_key n"
  unfolding shared_keys_def list.set
  by (elim insertE emptyE; simp add: matches_def string_commands_def key_parsers_def;
      simp add: parser_shapes handle_exists_def handle_pexpire_def handle_pttl_def handle_persist_def handle_rename_def split: option.split)

section \<open>Lists, sets, hashes and sorted sets\<close>

definition shared_lists :: "string list" where
  "shared_lists = [''LPUSH'', ''RPUSH'', ''LPOP'', ''RPOP'', ''LLEN'', ''LINDEX'', ''LSET'', ''LRANGE'', ''LTRIM'', ''LREM'']"

definition shared_sets :: "string list" where
  "shared_sets = [''SADD'', ''SREM'', ''SMEMBERS'', ''SCARD'', ''SISMEMBER'', ''SUNION'', ''SINTER'', ''SDIFF'']"

definition shared_hashes :: "string list" where
  "shared_hashes = [''HSET'', ''HGET'', ''HMSET'', ''HMGET'', ''HGETALL'', ''HDEL'', ''HLEN'', ''HEXISTS'', ''HKEYS'', ''HVALS'', ''HINCRBY'']"

definition shared_sorted :: "string list" where
  "shared_sorted = [''ZADD'', ''ZREM'', ''ZSCORE'', ''ZCARD'', ''ZRANK'', ''ZREVRANK'', ''ZCOUNT'', ''ZINCRBY'']"

lemma shared_lists_match: "n \<in> set shared_lists \<Longrightarrow> matches collection_commands (\<lambda>_. list_parsers) execute_list n"
  unfolding shared_lists_def list.set
  by (elim insertE emptyE; simp add: matches_def collection_commands_def list_parsers_def;
      simp add: parser_shapes handle_lpush_def handle_rpush_def handle_lpop_def handle_rpop_def handle_llen_def handle_lindex_def handle_lset_def handle_lrange_def
        handle_ltrim_def handle_lrem_def split: option.split)

lemma shared_sets_match: "n \<in> set shared_sets \<Longrightarrow> matches collection_commands (\<lambda>_. set_parsers) execute_set n"
  unfolding shared_sets_def list.set
  by (elim insertE emptyE; simp add: matches_def collection_commands_def set_parsers_def;
      simp add: parser_shapes handle_sadd_def handle_srem_def handle_smembers_def handle_scard_def handle_sismember_def handle_sunion_def handle_sinter_def handle_sdiff_def)

lemma field_values_mirror:
  assumes a: "\<not> (length args < 4 \<or> (length args - 2) mod 2 \<noteq> 0)" and run: "\<And>fvs. mirrors (k fvs) (run (c (args ! 1) fvs))"
  shows "mirrors (field_values (frames (drop 2 args)) k) (run_parsed (parse_field_values name c (frames args)) run)"
proof -
  from a have "even (length (drop 2 args))" "length args mod 2 = 0" by (simp, presburger)+
  then show ?thesis using a run by (simp add: parse_field_values_def arity_def pairs_frames)
qed

lemma hset_mirrors: "mirrors (handle_hset env db (frames args)) (run_parsed (parse_field_values name HSet_cmd (frames args)) (execute_hash env db))"
  "mirrors (handle_hmset env db (frames args)) (run_parsed (parse_field_values name HMSet_cmd (frames args)) (execute_hash env db))"
  unfolding handle_hset_def handle_hmset_def by (rule mirrors_if; simp add: field_values_mirror)+

lemma shared_hashes_match: "n \<in> set shared_hashes \<Longrightarrow> matches collection_commands (\<lambda>_. hash_parsers) execute_hash n"
  unfolding shared_hashes_def list.set
  by (elim insertE emptyE; simp add: matches_def collection_commands_def hash_parsers_def hset_mirrors;
      simp add: parser_shapes handle_hget_def handle_hmget_def handle_hgetall_def handle_hdel_def handle_hlen_def handle_hexists_def handle_hkeys_def handle_hvals_def
        handle_hincrby_def split: option.split)

lemma zrem_loop_frames: "zrem_loop db key n (frames ms) = count_hits (\<lambda>i m. on_shard db key (zrem key m)) i n ms"
  by (induction ms arbitrary: i n) simp_all

lemma zadd_loop_scores:
  assumes "float_texts env"
  shows "case extract_scores env (frames bs :: resp_frame list) of Ok ms \<Rightarrow> zadd_loop env db key i n (frames bs) = add_scores env db key i n ms
    | _ \<Rightarrow> (\<forall>s s' r. zadd_loop env db key i n (frames bs) s = (s', Ok r) \<longrightarrow> is_error r)"
  using assms
proof (induction bs arbitrary: i n rule: pairs.induct)
  case (1 a b xs)
  show ?case
  proof (cases "command_env.read_f64 env a")
    case None
    then show ?thesis by (simp add: parsed_as_def answer_def is_error_def)
  next
    case (Some x)
    then have v: "utf8_valid a" using 1(2) by simp
    show ?thesis using "1.IH" [OF 1(2)] Some v
      by (cases "extract_scores env (frames xs)") (auto simp: parsed_as_def and_then_def split: prod.splits result.splits)
  qed
qed (auto simp: parsed_as_def answer_def is_error_def split: option.splits)

lemma zadd_loop_mirrors:
  "float_texts env \<Longrightarrow> mirrors (zadd_loop env db key 0 0 (frames bs)) (run_parsed (bind_result (extract_scores env (frames bs)) (\<lambda>ms. Ok (ZAdd_cmd key ms))) (execute_sorted_set env db))"
  using zadd_loop_scores [of env db key 0 0 bs] by (cases "extract_scores env (frames bs)") (auto simp: mirrors_def)

lemma shared_sorted_match: "n \<in> set shared_sorted \<Longrightarrow> matches sorted_commands sorted_parsers execute_sorted_set n"
  unfolding shared_sorted_def list.set
  by (elim insertE emptyE; simp add: matches_def sorted_commands_def sorted_parsers_def;
      simp add: parser_shapes handle_zadd_def parse_zadd_def zadd_loop_mirrors zrem_loop_frames [where i = 0] handle_zrem_def handle_zscore_def handle_zcard_def handle_zrank_def handle_zrevrank_def
        handle_zcount_def handle_zincrby_def split: option.split)

section \<open>SET\<close>

text \<open>A client's \<^verbatim>\<open>SET\<close> with both \<^verbatim>\<open>NX\<close> and \<^verbatim>\<open>XX\<close> is executed as \<^verbatim>\<open>NX\<close>; a script's is refused.\<close>

definition both_options :: "bytes list \<Rightarrow> bool" where
  "both_options bs = (case set_options None False False (frames bs) of Inr (ex, n, x) \<Rightarrow> n \<and> x | Inl _ \<Rightarrow> False)"

lemma upper_is_unique: "upper_is b v \<Longrightarrow> upper_is b w \<longleftrightarrow> v = w"
  by (auto simp: upper_is_def inj_map_eq_map [OF inj_of_char])

abbreviation client_options :: "nat option \<Rightarrow> bool \<Rightarrow> bool \<Rightarrow> set_options_record" where
  "client_options ex n x \<equiv> \<lparr>nx = n, xx = x, get_old = False, expiration = ex, keepttl = False\<rparr>"

lemma set_options_frames:
  "set_options ex n x (frames bs) = Inr (ex', n', x') \<Longrightarrow> parse_set_options (client_options ex n x) (frames bs) = Ok (client_options ex' n' x')"
proof (induction bs arbitrary: ex n x rule: length_induct)
  case (1 bs)
  show ?case
  proof (cases bs)
    case Nil
    then show ?thesis using 1(2) by simp
  next
    case (Cons b cs)
    from 1(2) Cons consider (EX) "upper_is b ''EX''" | (PX) "upper_is b ''PX''" | (NX) "upper_is b ''NX''" | (XX) "upper_is b ''XX''"
      by (auto split: if_splits)
    then show ?thesis
    proof cases
      case EX
      with 1 Cons show ?thesis by (cases cs) (auto simp: upper_is_valid upper_is_unique [OF EX] parsed_as_def split: option.splits)
    next
      case PX
      with 1 Cons show ?thesis by (cases cs) (auto simp: upper_is_valid upper_is_unique [OF PX] parsed_as_def split: option.splits)
    next
      case NX
      with 1 Cons show ?thesis by (auto simp: upper_is_valid upper_is_unique [OF NX])
    next
      case XX
      with 1 Cons show ?thesis by (auto simp: upper_is_valid upper_is_unique [OF XX])
    qed
  qed
qed

lemma set_mirrors:
  assumes "\<not> both_options (drop 3 args)"
  shows "mirrors (handle_set env db (frames args)) (run_parsed (parse_set (frames args)) (execute_string env db))"
proof (cases "set_options None False False (frames (drop 3 args))")
  case (Inl msg)
  then show ?thesis by (simp add: handle_set_def key_arg_def)
next
  case (Inr o')
  obtain ex n x where o': "o' = (ex, n, x)" by (cases o')
  with Inr assms have nx: "\<not> (n \<and> x)" by (simp add: both_options_def)
  have p: "parse_set_options no_options (frames (drop 3 args)) = Ok (client_options ex n x)"
    using set_options_frames Inr o' by (simp add: no_options_def)
  have e: "mirrors (if n then (\<lambda>s. reply (\<lambda>stored. if stored then resp_ok else null_bulk) (store_string_nx db key b ex (clock env 0) (clock env 1) s))
      else if x then (\<lambda>s. and_then (on_shard db key (key_exists key (clock env 0)) s) (\<lambda>s found.
        if \<not> found then answer null_bulk s else reply ok_frame (store_string db key b ex (clock env 1) s)))
      else (\<lambda>s. reply ok_frame (store_string db key b ex (clock env 0) s))) (execute_set_string env db key b (client_options ex n x))" for key b
    using nx by (auto simp: mirrors_def execute_set_string_def reply_def and_then_def ok_frame_def answer_def split: prod.splits result.splits if_splits)
  show ?thesis using e Inr o' p by (simp add: handle_set_def key_arg_def parse_set_def arity_def)
qed

section \<open>Scripts and clients\<close>

definition shared_names :: "string list" where
  "shared_names = shared_strings @ shared_keys @ shared_lists @ shared_sets @ shared_hashes @ shared_sorted"

lemma tagged_parsers:
  "set (tagged String_Command string_parsers) \<subseteq> set (command_parsers env)" "set (tagged Key_Command key_parsers) \<subseteq> set (command_parsers env)"
  "set (tagged List_Command list_parsers) \<subseteq> set (command_parsers env)" "set (tagged Set_Command set_parsers) \<subseteq> set (command_parsers env)"
  "set (tagged Hash_Command hash_parsers) \<subseteq> set (command_parsers env)" "set (tagged SortedSet_Command (sorted_parsers env)) \<subseteq> set (command_parsers env)"
  by (auto simp: command_parsers_def)

lemma handler_tables: "set string_commands \<subseteq> set storage_commands" "set collection_commands \<subseteq> set storage_commands" "set sorted_commands \<subseteq> set storage_commands"
  by (auto simp: storage_commands_def)

lemma shared_agree: "n \<in> set shared_names \<Longrightarrow> agrees n"
  unfolding shared_names_def set_append Un_iff
  by (elim disjE;
      (rule matches_agrees [OF shared_strings_match _ tagged_parsers(1)] matches_agrees [OF shared_keys_match _ tagged_parsers(2)]
        matches_agrees [OF shared_lists_match _ tagged_parsers(3)] matches_agrees [OF shared_sets_match _ tagged_parsers(4)]
        matches_agrees [OF shared_hashes_match _ tagged_parsers(5)] matches_agrees [OF shared_sorted_match _ tagged_parsers(6)], assumption);
      simp add: handler_tables)

text \<open>
  The commands that scripts and clients share: one of the names above, or \<^verbatim>\<open>SET\<close> unless both its options are given.
\<close>

definition shared_command :: "string \<Rightarrow> bytes list \<Rightarrow> bool" where
  "shared_command n args \<longleftrightarrow> n \<in> set shared_names \<or> n = ''SET'' \<and> \<not> both_options (drop 3 args)"

text \<open>
  C8: a shared command of a script gives the reply and the effect that the client's handler gives for the same
  arguments, whenever the latter succeeds.
\<close>

theorem scripts_agree_with_clients:
  assumes "shared_command n args" "float_texts env" "requests n (frames args)" "(n, h) \<in> set storage_commands"
    "h env db (frames args) s = (s', Ok r)" "\<not> is_error r"
  shows "execute_lua_command env db args s = (s', Ok r)"
proof -
  have "mirrors (h env db (frames args)) (execute_lua_command env db args)"
  proof (cases "n \<in> set shared_names")
    case True
    then show ?thesis using shared_agree assms(2-4) unfolding agrees_def by blast
  next
    case False
    with assms(1) have n: "n = ''SET''" "\<not> both_options (drop 3 args)" by (simp_all add: shared_command_def)
    have "(''SET'', handle_set) \<in> set storage_commands" "(''SET'', parse_set) \<in> set string_parsers"
      by (simp_all add: storage_commands_def string_commands_def string_parsers_def)
    from script_mirrors [where c = String_Command and run = "execute_string env db", OF assms(3,4) this [folded n(1)] tagged_parsers(1) _ set_mirrors [OF n(2)]]
    show ?thesis by simp
  qed
  then show ?thesis using assms(5,6) unfolding mirrors_def by blast
qed

theorem scripts_agree_with_clients_witness:
  "snd (execute_lua_command sample_env 0 [''STRLEN'', ''k''] (with_config 1 unlimited)) = Ok (Integer 0)"
proof -
  let ?e = "with_config 1 unlimited" and ?args = "[''STRLEN'', ''k'']"
  have d: "0 < length (databases ?e)" by (simp add: with_config_def)
  have "data_get ''k'' (shard_of ?e 0 ''k'') = None" using lookup_shard [OF d] by simp
  then have "snd (handle_strlen sample_env 0 (frames ?args) ?e) = Ok (Integer 0)"
    using on_shard_valid [OF d, of "''k''" "strlen ''k''"] by (simp add: handle_strlen_def bulk_arg_def reply_via_def count_frame_def)
  then have "handle_strlen sample_env 0 (frames ?args) ?e = (fst (handle_strlen sample_env 0 (frames ?args) ?e), Ok (Integer 0))" by (metis prod.collapse)
  moreover have "requests ''STRLEN'' (frames ?args)"
    by (simp add: requests_def to_uppercase_def from_utf8_lossy_ascii is_ascii_def)
  moreover have "shared_command ''STRLEN'' ?args" by (simp add: shared_command_def shared_names_def shared_strings_def)
  moreover have "(''STRLEN'', handle_strlen) \<in> set storage_commands" by (simp add: storage_commands_def string_commands_def)
  moreover have "float_texts sample_env" by (simp add: float_texts_def text_parser_def sample_env_def del: float_text)
  moreover have "\<not> is_error (Integer 0)" by (simp add: is_error_def)
  ultimately have "execute_lua_command sample_env 0 ?args ?e = (fst (handle_strlen sample_env 0 (frames ?args) ?e), Ok (Integer 0))"
    using scripts_agree_with_clients [where n = "''STRLEN''" and args = ?args and h = handle_strlen and env = sample_env and db = 0 and s = ?e] by blast
  then show ?thesis by simp
qed

text \<open>
  \<^verbatim>\<open>RENAMENX\<close> in a script renames although the new name exists: its value is lost.
\<close>

theorem script_renamenx_overwrites:
  assumes "engine_ok s" "db < length (databases s)" "lookup s db a = Some va" "lookup s db b \<noteq> None" "a \<noteq> b"
    "execute_lua_command env db [''RENAMENX'', a, b] s = (s', r)"
  shows "r = Ok resp_ok \<and> lookup s' db b = Some va \<and> lookup s' db a = None"
proof -
  let ?q = "\<lambda>fs. bind_result (parse_key_bytes ''RENAMENX'' RenameNx_cmd fs) (\<lambda>x. Ok (Key_Command x))"
  have "(''RENAMENX'', ?q) \<in> set (command_parsers env)"
    using tagged_parsers(2) [of env] by (auto simp: tagged_def key_parsers_def)
  moreover have "requests ''RENAMENX'' (frames [''RENAMENX'', a, b])"
    by (simp add: requests_def to_uppercase_def from_utf8_lossy_ascii is_ascii_def)
  ultimately have "execute_lua_command env db [''RENAMENX'', a, b] s = run_parsed (?q (frames [''RENAMENX'', a, b])) (execute env None (Some db)) s"
    using lua_command by metis
  also have "\<dots> = reply ok_frame (rename_key db a b s)"
    by (simp add: parse_key_bytes_def arity_def handle_rename_def bulk_arg_def from_bytes_def)
  finally have e: "reply ok_frame (rename_key db a b s) = (s', r)" using assms(6) by simp
  have ok: "snd (rename_key db a b s) = Ok ()" unfolding rename_key_eq [OF assms(1-3)] by simp
  then have "s' = fst (rename_key db a b s)" "r = Ok resp_ok"
    using e by (auto simp: reply_def and_then_def ok_frame_def split: prod.splits)
  then show ?thesis using rename_lookup [OF assms(1-3), of b] assms(5) by auto
qed

lemma stored_string:
  fixes e db key b now
  assumes "engine_ok e" "db < length (databases e)" "max_memory (memory e) = 0"
  defines "e' \<equiv> fst (on_shard db key (set_string key b now) e)"
  shows "engine_ok e' \<and> db < length (databases e') \<and> (\<exists>sv. lookup e' db key = Some sv \<and> sv_value sv = VString b) \<and>
    (\<forall>k. k \<noteq> key \<longrightarrow> lookup e' db k = lookup e db k) \<and> max_memory (memory e') = 0"
proof (intro conjI)
  show "engine_ok e'" unfolding e'_def by (rule set_string.engine_keeps [OF assms(1)])
  show "db < length (databases e')" unfolding e'_def using assms(2) by (simp add: on_shard_length)
  show "\<exists>sv. lookup e' db key = Some sv \<and> sv_value sv = VString b" "\<forall>k. k \<noteq> key \<longrightarrow> lookup e' db k = lookup e db k"
    using set_string.engine_frame [OF assms(1)] lookup_on_shard(1) [OF assms(1,2), of key "set_string key b now"] assms(3) unfolding e'_def by (auto simp: set_string_def Let_def)
  show "max_memory (memory e') = 0" unfolding e'_def using assms(2,3) by (simp add: on_shard_def set_string_def Let_def)
qed

theorem script_renamenx_overwrites_witness:
  "\<exists>s sv. lookup s 0 ''b'' \<noteq> None \<and> lookup (fst (execute_lua_command sample_env 0 [''RENAMENX'', ''a'', ''b''] s)) 0 ''b'' = Some sv \<and> sv_value sv = VString ''1''"
proof -
  define e where "e = with_config 1 unlimited"
  define s where "s = fst (on_shard 0 ''b'' (set_string ''b'' ''2'' 0) (fst (on_shard 0 ''a'' (set_string ''a'' ''1'' 0) e)))"
  have "engine_ok e" "0 < length (databases e)" "max_memory (memory e) = 0"
    unfolding e_def by (rule with_config_ok, simp_all add: with_config_def unlimited_def)
  note 1 = stored_string [OF this, of "''a''" "''1''" 0]
  note 2 = stored_string [of "fst (on_shard 0 ''a'' (set_string ''a'' ''1'' 0) e)" 0 "''b''" "''2''" 0, folded s_def]
  from 1 2 have ok: "engine_ok s" "0 < length (databases s)" "lookup s 0 ''b'' \<noteq> None" by blast+
  from 1 2 have "lookup s 0 ''a'' = lookup (fst (on_shard 0 ''a'' (set_string ''a'' ''1'' 0) e)) 0 ''a''" by simp
  with 1 obtain sv where sv: "lookup s 0 ''a'' = Some sv" "sv_value sv = VString ''1''" by auto
  obtain s' r where "execute_lua_command sample_env 0 [''RENAMENX'', ''a'', ''b''] s = (s', r)" by (metis prod.exhaust)
  with script_renamenx_overwrites [OF ok(1,2) sv(1) ok(3) _ this] sv(2) ok(3) show ?thesis by auto
qed

end
