(* ===== verification/Rdb_Load.thy ===== *)
theory Rdb_Load
  imports Rdb Engine_Spec
begin

text \<open>
  What loading one record of a snapshot does to an engine that does not hold the key yet: the loader
  takes exactly the bytes of the record and the engine then holds the value the record encodes, with
  every other key unchanged.
\<close>

section \<open>Engines a snapshot is loaded into\<close>

definition target_ok :: "storage_engine \<Rightarrow> bool" where
  "target_ok e \<longleftrightarrow> engine_ok e \<and> max_memory (memory e) = 0"

text \<open>One key of the engine changed, nothing else.\<close>

definition only_key :: "nat \<Rightarrow> bytes \<Rightarrow> storage_engine \<Rightarrow> storage_engine \<Rightarrow> bool" where
  "only_key db key e e' \<longleftrightarrow> target_ok e' \<and> length (databases e') = length (databases e) \<and>
     (\<forall>db' k. (db', k) \<noteq> (db, key) \<longrightarrow> lookup e' db' k = lookup e db' k)"

definition stored :: "storage_engine \<Rightarrow> nat \<Rightarrow> bytes \<Rightarrow> val \<Rightarrow> nat option \<Rightarrow> bool" where
  "stored e db key v t \<longleftrightarrow> (\<exists>sv. lookup e db key = Some sv \<and> sv_value sv = v \<and> expires_at (metadata sv) = t)"

lemma only_key_trans: "only_key db key e e1 \<Longrightarrow> only_key db key e1 e2 \<Longrightarrow> only_key db key e e2"
  by (simp add: only_key_def)

lemma only_key_refl: "target_ok e \<Longrightarrow> only_key db key e e"
  by (simp add: only_key_def)

lemma only_keyD: "only_key db key e e' \<Longrightarrow> target_ok e'" "only_key db key e e' \<Longrightarrow> length (databases e') = length (databases e)"
  by (simp_all add: only_key_def)

lemma only_key_other: "only_key db key e e' \<Longrightarrow> (db', k) \<noteq> (db, key) \<Longrightarrow> lookup e' db' k = lookup e db' k"
  by (simp add: only_key_def)

text \<open>
  An operation that, on every shard whose entry for the key is as given, succeeds and stores a value.
\<close>

lemma on_key:
  assumes "shard_operation key op" "target_ok e" "db < length (databases e)"
    and "\<And>sh m. data_get key sh = lookup e db key \<Longrightarrow> max_memory m = 0 \<Longrightarrow>
      \<exists>sh' m' x sv. op (sh, m) = ((sh', m'), Ok x) \<and> data_get key sh' = Some sv \<and> sv_value sv = v \<and>
        expires_at (metadata sv) = t \<and> max_memory m' = 0"
  obtains e' x where "on_shard db key op e = (e', Ok x)" "only_key db key e e'" "stored e' db key v t"
proof -
  note l = shard_operation.axioms(1) [OF assms(1)]
  have ok: "engine_ok e" "max_memory (memory e) = 0" using assms(2) by (simp_all add: target_ok_def)
  have "data_get key (shard_of e db key) = lookup e db key" using assms(3) by (rule lookup_shard)
  from assms(4) [OF this ok(2)] obtain sh m x sv where op: "op (shard_of e db key, memory e) = ((sh, m), Ok x)"
    and sv: "data_get key sh = Some sv" "sv_value sv = v" "expires_at (metadata sv) = t" "max_memory m = 0" by blast
  note r = shard_local.engine_result [OF l ok(1) assms(3) op]
  show thesis
  proof (rule that)
    show "on_shard db key op e = (fst (on_shard db key op e), Ok x)" by (metis r(1) prod.collapse)
    show "only_key db key e (fst (on_shard db key op e))"
      using shard_local.engine_keeps [OF l ok(1)] shard_local.engine_frame(1) [OF l ok(1)] r(5) sv(4)
      by (auto simp: only_key_def target_ok_def on_shard_length)
    show "stored (fst (on_shard db key op e)) db key v t" using r(2) sv by (simp add: stored_def)
  qed
qed

section \<open>The engine calls of the loader\<close>

lemma store_string:
  assumes "target_ok e" "db < length (databases e)"
    and "case d of Some d \<Rightarrow> instant_add now d \<noteq> None | None \<Rightarrow> True"
  obtains e' where "on_shard db key (case d of Some d \<Rightarrow> set_string_ex key b d now | None \<Rightarrow> set_string key b now) e = (e', Ok ())"
    "only_key db key e e'" "stored e' db key (VString b) (map_option (\<lambda>d. now + d) d)"
proof -
  have op: "(case d of Some d \<Rightarrow> set_string_ex key b d now | None \<Rightarrow> set_string key b now) = set_value key (VString b) d now"
    by (cases d) (simp_all add: set_string_def set_string_ex_def)
  have "shard_operation key (set_value key (VString b) d now)" by (rule set_value_operation) simp
  then obtain e' x where "on_shard db key (set_value key (VString b) d now) e = (e', Ok x)" "only_key db key e e'"
    "stored e' db key (VString b) (map_option (\<lambda>d. now + d) d)"
  proof (rule on_key [OF _ assms(1,2)])
    fix sh and m :: memory_manager assume m: "max_memory m = 0"
    show "\<exists>sh' m' x sv. set_value key (VString b) d now (sh, m) = ((sh', m'), Ok x) \<and> data_get key sh' = Some sv \<and>
        sv_value sv = VString b \<and> expires_at (metadata sv) = map_option (\<lambda>d. now + d) d \<and> max_memory m' = 0"
    proof (cases d)
      case None
      then show ?thesis using m by simp
    next
      case (Some d')
      then obtain t where "instant_add now d' = Some t" using assms(3) by auto
      then have "value_with_expiration now (VString b) d' \<noteq> None" unfolding value_with_expiration_def by simp
      then obtain sv where "value_with_expiration now (VString b) d' = Some sv" by blast
      moreover from value_with_expiration_Some [OF this] have "sv_value sv = VString b" "expires_at (metadata sv) = Some (now + d')"
        by blast+
      ultimately show ?thesis using m Some by simp
    qed
  qed
  then show thesis using that [of e'] unfolding op by simp
qed

text \<open>
  The other calls create the value when the key is absent, and extend it otherwise; \<open>holds\<close> covers both.
\<close>

definition holds :: "storage_engine \<Rightarrow> nat \<Rightarrow> bytes \<Rightarrow> val \<Rightarrow> val \<Rightarrow> bool" where
  "holds e db key empty_value v \<longleftrightarrow> (lookup e db key = None \<and> v = empty_value) \<or> stored e db key v None"

lemma holds_cases:
  assumes "holds e db key empty_value v"
  obtains "lookup e db key = None" "v = empty_value"
  | sv where "lookup e db key = Some sv" "sv_value sv = v" "expires_at (metadata sv) = None"
  using assms by (auto simp: holds_def stored_def)

lemma store_zadd:
  assumes "target_ok e" "db < length (databases e)" "\<not> is_nan_f64 score" "new_level < MAX_LEVEL"
    and z: "holds e db key (VSortedSet new_skip_list) (VSortedSet z)" "sl_ok z"
  obtains e' x z' where "on_shard db key (zadd new_level key member score now) e = (e', Ok x)"
    "only_key db key e e'" "stored e' db key (VSortedSet z') None" "sl_ok z'" "sl_items z' = z_insert member score (sl_items z)"
proof -
  obtain z' where z': "sl_insert new_level member score z = Some (z', map_of (sl_items z) member)" "sl_ok z'"
    "sl_items z' = z_insert member score (sl_items z)"
    using sl.insert_ok [OF z(2) assms(4,3)] by blast
  obtain e' x where "on_shard db key (zadd new_level key member score now) e = (e', Ok x)" "only_key db key e e'"
    "stored e' db key (VSortedSet z') None"
  proof (rule on_key [OF zadd_operation [OF assms(3,4)] assms(1,2), where v = "VSortedSet z'" and t = None])
    fix sh and m :: memory_manager assume "data_get key sh = lookup e db key" "max_memory m = 0"
    with z'(1) show "\<exists>sh' m' x sv. zadd new_level key member score now (sh, m) = ((sh', m'), Ok x) \<and> data_get key sh' = Some sv \<and>
        sv_value sv = VSortedSet z' \<and> expires_at (metadata sv) = None \<and> max_memory m' = 0"
      by (cases rule: holds_cases [OF z(1)]) (auto simp: Let_def)
  qed
  then show thesis using that z'(2,3) by blast
qed

lemma store_rpush:
  assumes "target_ok e" "db < length (databases e)" "holds e db key (VList []) (VList l)"
  obtains e' x where "on_shard db key (rpush key [element] now) e = (e', Ok x)"
    "only_key db key e e'" "stored e' db key (VList (l @ [element])) None"
proof (rule on_key [OF rpush_operation assms(1,2)])
  fix sh and m :: memory_manager assume "data_get key sh = lookup e db key" "max_memory m = 0"
  then show "\<exists>sh' m' x sv. rpush key [element] now (sh, m) = ((sh', m'), Ok x) \<and> data_get key sh' = Some sv \<and>
      sv_value sv = VList (l @ [element]) \<and> expires_at (metadata sv) = None \<and> max_memory m' = 0"
    by (cases rule: holds_cases [OF assms(3)]) auto
qed auto

lemma store_sadd:
  assumes "target_ok e" "db < length (databases e)" "lookup e db key = None" "members \<noteq> []"
  obtains e' x where "on_shard db key (sadd key members now) e = (e', Ok x)"
    "only_key db key e e'" "stored e' db key (VSet (fst (insert_members members [] 0))) None"
proof (rule on_key [OF sadd_operation [OF assms(4)] assms(1,2)])
  fix sh and m :: memory_manager assume "data_get key sh = lookup e db key" "max_memory m = 0"
  then show "\<exists>sh' m' x sv. sadd key members now (sh, m) = ((sh', m'), Ok x) \<and> data_get key sh' = Some sv \<and>
      sv_value sv = VSet (fst (insert_members members [] 0)) \<and> expires_at (metadata sv) = None \<and> max_memory m' = 0"
    using assms(3) by (auto split: prod.split)
qed auto

lemma store_hset:
  assumes "target_ok e" "db < length (databases e)" "lookup e db key = None" "fvs \<noteq> []"
  obtains e' x where "on_shard db key (hset key fvs now) e = (e', Ok x)"
    "only_key db key e e'" "stored e' db key (VHash (hash_map_of fvs)) None"
proof (rule on_key [OF hset_operation [OF assms(4)] assms(1,2)])
  fix sh and m :: memory_manager assume "data_get key sh = lookup e db key" "max_memory m = 0"
  then show "\<exists>sh' m' x sv. hset key fvs now (sh, m) = ((sh', m'), Ok x) \<and> data_get key sh' = Some sv \<and>
      sv_value sv = VHash (hash_map_of fvs) \<and> expires_at (metadata sv) = None \<and> max_memory m' = 0"
    using assms(3) by (auto simp: hash_map_of_def split: prod.split)
qed auto

lemma store_xadd:
  assumes "target_ok e" "db < length (databases e)" "holds e db key (VStream new_stream) (VStream st)"
    and "stream_ok st" "last_id (data st) < i"
  obtains e' x st' where "on_shard db key (xadd_with_id key i fvs now) e = (e', Ok x)"
    "only_key db key e e'" "stored e' db key (VStream st') None" "stream_ok st'" "last_id (data st') = i"
    "entries (data st') = entries (data st) @ [\<lparr>entry_id = i, entry_fields = fvs\<rparr>]"
proof -
  obtain idx where "binary_search entry_id (entries (data st)) i = search_result.NotFound idx"
    using add_with_id_not_found [OF assms(4,5)] .
  then obtain st' where st': "add_with_id i fvs st = (st', Inr ())" "last_id (data st') = i"
      "entries (data st') = entries (data st) @ [\<lparr>entry_id = i, entry_fields = fvs\<rparr>]"
    using assms(5) by (simp add: add_with_id_def Let_def not_le)
  obtain e' x where "on_shard db key (xadd_with_id key i fvs now) e = (e', Ok x)" "only_key db key e e'"
    "stored e' db key (VStream st') None"
  proof (rule on_key [OF xadd_with_id.shard_operation_axioms assms(1,2), where v = "VStream st'" and t = None])
    fix sh and m :: memory_manager assume "data_get key sh = lookup e db key" "max_memory m = 0"
    then show "\<exists>sh' m' x sv. xadd_with_id key i fvs now (sh, m) = ((sh', m'), Ok x) \<and> data_get key sh' = Some sv \<and>
        sv_value sv = VStream st' \<and> expires_at (metadata sv) = None \<and> max_memory m' = 0"
      by (cases rule: holds_cases [OF assms(3)]) (use st'(1) in \<open>simp_all add: Let_def split: unit.split\<close>)
  qed
  moreover have "stream_ok st'" using add_with_id_ok [OF assms(4), of i fvs] st'(1) by simp
  ultimately show thesis using that st'(2,3) by blast
qed

lemma store_expire:
  assumes "target_ok e" "db < length (databases e)" "stored e db key v t" "instant_add now d \<noteq> None" "instant_add now2 d \<noteq> None"
  obtains e' x where "on_shard db key (expire key d now now2) e = (e', Ok x)"
    "only_key db key e e'" "stored e' db key v (Some (now + d))"
proof (rule on_key [OF expire.shard_operation_axioms assms(1,2)])
  fix sh and m :: memory_manager assume "data_get key sh = lookup e db key" "max_memory m = 0"
  then show "\<exists>sh' m' x sv. expire key d now now2 (sh, m) = ((sh', m'), Ok x) \<and> data_get key sh' = Some sv \<and>
      sv_value sv = v \<and> expires_at (metadata sv) = Some (now + d) \<and> max_memory m' = 0"
    using assms(3-5) by (auto simp: stored_def instant_add_def split: if_splits)
qed auto

section \<open>Records\<close>

definition small :: "'a list \<Rightarrow> bool" where
  "small xs \<longleftrightarrow> length xs < 4294967296"

definition env_ok :: "load_env \<Rightarrow> bool" where
  "env_ok env \<longleftrightarrow> (\<forall>p. level_at env p < MAX_LEVEL \<and> now_at env p \<le> 9000000000000000000000000000 \<and>
     now2_at env p \<le> 9000000000000000000000000000)"

text \<open>Every deadline a file can hold stays within the range of an instant.\<close>

lemma env_okD:
  assumes "env_ok env"
  shows "level_at env p < MAX_LEVEL" "instant_add (now_at env p) (unat (ms :: u64) * 1000000) \<noteq> None"
    "instant_add (now2_at env p) (unat ms * 1000000) \<noteq> None"
proof -
  have n: "level_at env p < MAX_LEVEL" "now_at env p \<le> 9000000000000000000000000000" "now2_at env p \<le> 9000000000000000000000000000"
    using assms by (simp_all add: env_ok_def)
  then show "level_at env p < MAX_LEVEL" by simp
  have "unat ms < 18446744073709551616" by (rule unat_lt2p_64)
  then have "(now_at env p + unat ms * 1000000) div 1000000000 \<le> 9223372036854775807"
    "(now2_at env p + unat ms * 1000000) div 1000000000 \<le> 9223372036854775807"
    using n(2,3) by (simp_all add: div_le_mono)
  then show "instant_add (now_at env p) (unat ms * 1000000) \<noteq> None" "instant_add (now2_at env p) (unat ms * 1000000) \<noteq> None"
    by (simp_all add: instant_add_def)
qed

lemma buffer_item_string: "buffer_item b = string_bytes b"
  by (simp add: buffer_item_def string_bytes_def)

lemma read_item: "unread s = buffer_item b @ rest \<Longrightarrow> small b \<Longrightarrow> read_string s = (take_input (buffer_item b) rest s, Ok b)"
  unfolding buffer_item_string small_def by (rule decodesD [OF decodes_string])

lemma read_size: "unread s = length_bytes n @ rest \<Longrightarrow> n < 4294967296 \<Longrightarrow> read_length s = (take_input (length_bytes n) rest s, Ok n)"
  by (rule decodesD [OF decodes_length])

lemma read_score: "unread s = u64_to_le_bytes x @ rest \<Longrightarrow> read_f64 s = (take_input (u64_to_le_bytes x) rest s, Ok x)"
  by (rule decodesD [OF decodes_fixed(3)])

lemma select_target: "target (s\<lparr>target := e\<rparr>) = e" for s :: loader
  by simp

lemmas read_simps = read_item read_size read_score

lemma load_list_spec:
  assumes "unread s = concat (map buffer_item xs) @ rest" "target_ok (target s)" "db < length (databases (target s))"
    and "holds (target s) db key (VList []) (VList l)" "\<forall>x \<in> set xs. small x"
  shows "\<exists>s'. load_list env db key (length xs) s = (s', Ok ()) \<and> unread s' = rest \<and> only_key db key (target s) (target s') \<and>
    holds (target s') db key (VList []) (VList (l @ xs))"
  using assms
proof (induction xs arbitrary: s l)
  case Nil
  then show ?case by (simp add: only_key_refl)
next
  case (Cons x xs)
  let ?s1 = "take_input (buffer_item x) (concat (map buffer_item xs) @ rest) s"
  have r: "read_string s = (?s1, Ok x)" using Cons.prems by (intro read_item) simp_all
  obtain e' y where e': "on_shard db key (rpush key [x] (now_at env (position s + length (buffer_item x)))) (target s) = (e', Ok y)"
      "only_key db key (target s) e'" "stored e' db key (VList (l @ [x])) None"
    using store_rpush [OF Cons.prems(2-4)] .
  let ?s2 = "?s1\<lparr>target := e'\<rparr>"
  have p: "load_rpush env db key x ?s1 = (?s2, Ok ())"
    by (simp add: load_rpush_def storing_def e'(1))
  have "\<exists>s'. load_list env db key (length xs) ?s2 = (s', Ok ()) \<and> unread s' = rest \<and> only_key db key (target ?s2) (target s') \<and>
      holds (target s') db key (VList []) (VList ((l @ [x]) @ xs))"
    using e'(2,3) Cons.prems by (intro Cons.IH) (auto simp: only_key_def holds_def take_input_def)
  then show ?case using r p e'(2) only_key_trans by fastforce
qed

lemma z_insert_snoc:
  assumes "sorted_wrt (<) (map member_ord (acc @ (m, v) # xs))" "distinct (map fst (acc @ (m, v) # xs))"
  shows "z_insert m v acc = acc @ [(m, v)]"
proof -
  have "z_remove m acc = acc" using assms(2) by (auto simp: z_remove_def filter_id_conv)
  moreover have "filter (\<lambda>x. member_ord x < member_ord (m, v)) acc = acc" "filter (\<lambda>x. \<not> member_ord x < member_ord (m, v)) acc = []"
    using assms(1) by (auto simp: sorted_wrt_append filter_id_conv filter_empty_conv)
  ultimately show ?thesis by (simp add: z_insert_def)
qed

definition zset_item :: "bytes \<times> f64 \<Rightarrow> bytes" where
  "zset_item = (\<lambda>(member, score). buffer_item member @ u64_to_le_bytes score)"

lemma load_zset_spec:
  assumes "unread s = concat (map zset_item xs) @ rest" "target_ok (target s)" "db < length (databases (target s))" "env_ok env"
    and "holds (target s) db key (VSortedSet new_skip_list) (VSortedSet z)" "sl_ok z" "\<forall>x \<in> set xs. small (fst x) \<and> \<not> is_nan_f64 (snd x)"
    and "sorted_wrt (<) (map member_ord (sl_items z @ xs))" "distinct (map fst (sl_items z @ xs))"
  shows "\<exists>s' z'. load_zset env db key (length xs) s = (s', Ok ()) \<and> unread s' = rest \<and> only_key db key (target s) (target s') \<and>
    holds (target s') db key (VSortedSet new_skip_list) (VSortedSet z') \<and> sl_items z' = sl_items z @ xs"
  using assms
proof (induction xs arbitrary: s z)
  case Nil
  then show ?case by (auto simp: only_key_refl)
next
  case (Cons x xs)
  obtain m v where x: "x = (m, v)" by (cases x)
  let ?r1 = "u64_to_le_bytes v @ concat (map zset_item xs) @ rest" and ?r2 = "concat (map zset_item xs) @ rest"
  let ?s1 = "take_input (zset_item x) ?r2 s"
  have r: "read_string s = (take_input (buffer_item m) ?r1 s, Ok m)" using Cons.prems(1,7) x
    by (intro read_item) (simp_all add: zset_item_def)
  have f: "read_f64 (take_input (buffer_item m) ?r1 s) = (?s1, Ok v)"
    by (subst read_score [of _ v ?r2]) (simp_all add: zset_item_def x)
  have nan: "\<not> is_nan_f64 v" using Cons.prems(7) x by simp
  let ?p = "position s + length (zset_item x)"
  obtain e' y z' where e': "on_shard db key (zadd (level_at env ?p) key m v (now_at env ?p)) (target s) = (e', Ok y)"
      "only_key db key (target s) e'" "stored e' db key (VSortedSet z') None" "sl_ok z'" "sl_items z' = z_insert m v (sl_items z)"
    using store_zadd [OF Cons.prems(2,3) nan env_okD(1) [OF Cons.prems(4)] Cons.prems(5,6)] .
  have z': "sl_items z' = sl_items z @ [x]" unfolding e'(5) x
    using Cons.prems(8,9) z_insert_snoc [of "sl_items z" m v xs] x by simp
  let ?s2 = "?s1\<lparr>target := e'\<rparr>"
  have "\<exists>s' z''. load_zset env db key (length xs) ?s2 = (s', Ok ()) \<and> unread s' = rest \<and> only_key db key (target ?s2) (target s') \<and>
      holds (target s') db key (VSortedSet new_skip_list) (VSortedSet z'') \<and> sl_items z'' = sl_items z' @ xs"
    using e'(2,3,4) Cons.prems z' by (intro Cons.IH) (auto simp: only_key_def holds_def take_input_def)
  moreover have "load_zset env db key (length (x # xs)) s = load_zset env db key (length xs) ?s2"
    using r f e'(1) by (simp add: storing_def)
  ultimately show ?case using e'(2) z' only_key_trans by (metis append.assoc append_Cons append_Nil select_target)
qed

lemma read_strings_spec:
  "unread s = concat (map buffer_item xs) @ rest \<Longrightarrow> \<forall>x \<in> set xs. small x \<Longrightarrow>
   read_strings (length xs) s = (take_input (concat (map buffer_item xs)) rest s, Ok xs)"
proof (induction xs arbitrary: s)
  case (Cons x xs)
  then have "read_string s = (take_input (buffer_item x) (concat (map buffer_item xs) @ rest) s, Ok x)"
    by (intro read_item) simp_all
  then show ?case using Cons by simp
qed (simp add: take_input_def)

definition pair_item :: "bytes \<times> bytes \<Rightarrow> bytes" where
  "pair_item = (\<lambda>(f, x). buffer_item f @ buffer_item x)"

lemma read_pairs_spec:
  "unread s = concat (map pair_item fvs) @ rest \<Longrightarrow> \<forall>x \<in> set fvs. small (fst x) \<and> small (snd x) \<Longrightarrow>
   read_pairs (length fvs) s = (take_input (concat (map pair_item fvs)) rest s, Ok fvs)"
proof (induction fvs arbitrary: s)
  case (Cons p fvs)
  obtain f x where p: "p = (f, x)" by (cases p)
  let ?r = "concat (map pair_item fvs) @ rest"
  have "read_string s = (take_input (buffer_item f) (buffer_item x @ ?r) s, Ok f)"
    using Cons.prems p by (intro read_item) (simp_all add: pair_item_def)
  moreover have "read_string (take_input (buffer_item f) (buffer_item x @ ?r) s) = (take_input (pair_item p) ?r s, Ok x)"
    using Cons.prems(2) p by (subst read_item [of _ x ?r]) (simp_all add: pair_item_def)
  ultimately show ?case using Cons p by simp
qed (simp add: take_input_def)

lemma update_new: "k \<notin> fst ` set al \<Longrightarrow> AList.update k v al = al @ [(k, v)]"
  by (induction al) auto

lemma insert_fields_same: "distinct (map fst (h @ fvs)) \<Longrightarrow> fst (insert_fields fvs h a) = h @ fvs"
proof (induction fvs h a rule: insert_fields.induct)
  case (2 f v fvs h a)
  have "AList.update f v h = h @ [(f, v)]" using 2(2) by (intro update_new) auto
  then show ?case using 2 by simp
qed simp

lemma hash_map_of_same: "distinct (map fst fvs) \<Longrightarrow> hash_map_of fvs = fvs"
  by (simp add: hash_map_of_def insert_fields_same)

lemma insert_members_same: "distinct (s @ xs) \<Longrightarrow> fst (insert_members xs s a) = s @ xs"
  by (induction xs s a rule: insert_members.induct) (auto simp: hash_set_insert_def)

definition entry_item :: "stream_entry \<Rightarrow> bytes" where
  "entry_item e = buffer_item (id_to_string (entry_id e)) @ buffer_item (nat_to_string (length (entry_fields e))) @
     concat (map pair_item (entry_fields e))"

definition entry_strings :: "stream_entry \<Rightarrow> nat" where
  "entry_strings e = 2 + 2 * length (entry_fields e)"

lemma total_items_sum: "total_items es = 1 + sum_list (map entry_strings es)"
proof -
  have "fold (\<lambda>e n. n + 2 + length (entry_fields e) * 2) es n = n + sum_list (map entry_strings es)" for n
    by (induction es arbitrary: n) (auto simp: entry_strings_def)
  then show ?thesis by (simp add: total_items_def)
qed

lemma nat_to_string_length: "n < 10 ^ Suc k \<Longrightarrow> length (nat_to_string n) \<le> Suc k"
proof (induction k arbitrary: n)
  case 0
  then show ?case by (subst nat_to_string.simps) simp
next
  case (Suc k)
  then have "n div 10 < 10 ^ Suc k" by (simp add: less_mult_imp_div_less mult.commute)
  then show ?case using Suc.IH [of "n div 10"] by (subst nat_to_string.simps) simp
qed

lemma small_numbers: "small (id_to_string i)" "n < 4294967296 \<Longrightarrow> small (nat_to_string n)"
proof -
  have "length (u64_to_string x) \<le> 20" for x
    using nat_to_string_length [of "unat x" 19] unat_lt2p_64 [of x] by (simp add: u64_to_string_def)
  from this [of "millis i"] this [of "seq i"] show "small (id_to_string i)" by (simp add: small_def id_to_string_def)
  assume "n < 4294967296"
  then show "small (nat_to_string n)" using nat_to_string_length [of n 9] by (simp add: small_def)
qed

lemma id_text: "from_string (if utf8_valid (id_to_string i) then id_to_string i else []) = Some i"
proof -
  have "is_ascii (id_to_string i)"
    using nat_to_string_ascii by (auto simp: id_to_string_def u64_to_string_def is_ascii_def)
  then show ?thesis by (simp add: utf8_valid_ascii from_string_to_string)
qed

lemma field_count_text: "n < 4294967296 \<Longrightarrow> field_count (nat_to_string n) = n"
  by (simp add: field_count_def utf8_valid_ascii nat_to_string_ascii parse_usize_nat_to_string)

definition entry_ok :: "stream_entry \<Rightarrow> bool" where
  "entry_ok e \<longleftrightarrow> entry_fields e \<noteq> [] \<and> distinct (map fst (entry_fields e)) \<and>
     (\<forall>x \<in> set (entry_fields e). small (fst x) \<and> small (snd x))"

lemma load_stream_spec:
  assumes "unread s = concat (map entry_item es) @ rest" "target_ok (target s)" "db < length (databases (target s))"
    and "holds (target s) db key (VStream new_stream) (VStream st)" "stream_ok st" "\<forall>e \<in> set es. entry_ok e"
    and "sorted_by entry_id es" "\<forall>e \<in> set es. last_id (data st) < entry_id e"
    and "remaining = idx + sum_list (map entry_strings es)" "remaining < 4294967296"
  shows "\<exists>s' st'. load_stream env db key remaining idx s = (s', Ok ()) \<and> unread s' = rest \<and> only_key db key (target s) (target s') \<and>
    holds (target s') db key (VStream new_stream) (VStream st') \<and> entries (data st') = entries (data st) @ es"
  using assms
proof (induction es arbitrary: s st idx)
  case Nil
  then show ?case by (auto simp: load_stream.simps only_key_refl)
next
  case (Cons e es)
  let ?i = "entry_id e" and ?n = "length (entry_fields e)"
  let ?r2 = "concat (map entry_item es) @ rest"
  let ?r1 = "concat (map pair_item (entry_fields e)) @ ?r2"
  let ?r0 = "buffer_item (nat_to_string ?n) @ ?r1"
  let ?a = "take_input (buffer_item (id_to_string ?i)) ?r0 s"
  let ?b = "take_input (buffer_item (nat_to_string ?n)) ?r1 ?a"
  let ?c = "take_input (entry_item e) ?r2 s"
  have n: "?n > 0" "entry_ok e" "idx + 2 < remaining" "idx + 2 + ?n * 2 \<le> remaining" "?n < 4294967296"
    using Cons.prems(6,9,10) by (auto simp: entry_ok_def entry_strings_def)
  have a: "read_string s = (?a, Ok (id_to_string ?i))"
    using Cons.prems(1) n(5) by (intro read_item small_numbers(1)) (simp_all add: entry_item_def [of e])
  have b: "read_string ?a = (?b, Ok (nat_to_string ?n))"
    using n(5) by (intro read_item small_numbers(2)) simp_all
  have c: "read_pairs ?n ?b = (?c, Ok (entry_fields e))"
    using n(2) by (subst read_pairs_spec [of _ _ ?r2]) (simp_all add: entry_ok_def entry_item_def)
  obtain e' y st' where e': "on_shard db key (xadd_with_id key ?i (entry_fields e) (now_at env (position s + length (entry_item e)))) (target s) = (e', Ok y)"
      "only_key db key (target s) e'" "stored e' db key (VStream st') None" "stream_ok st'" "last_id (data st') = ?i"
      "entries (data st') = entries (data st) @ [\<lparr>entry_id = ?i, entry_fields = entry_fields e\<rparr>]"
    using store_xadd [OF Cons.prems(2-5)] Cons.prems(8) by (metis list.set_intros(1))
  let ?s2 = "?c\<lparr>target := e'\<rparr>"
  have d: "load_entry env db key (id_to_string ?i) (entry_fields e) ?c = ?s2"
    using e'(1) n(2) id_text [of ?i] by (simp add: load_entry_def storing_def entry_ok_def hash_map_of_same)
  have "\<exists>s' st''. load_stream env db key remaining (idx + 2 + ?n * 2) ?s2 = (s', Ok ()) \<and> unread s' = rest \<and>
      only_key db key (target ?s2) (target s') \<and> holds (target s') db key (VStream new_stream) (VStream st'') \<and>
      entries (data st'') = entries (data st') @ es"
    using e'(2-5) Cons.prems
    by (intro Cons.IH) (auto simp: only_key_def holds_def take_input_def entry_strings_def)
  moreover have "load_stream env db key remaining idx s = load_stream env db key remaining (idx + 2 + ?n * 2) ?s2"
    using n(3,4) Cons.prems(10) by (subst load_stream.simps) (simp add: a b c d field_count_text [OF n(5)] del: take_input_simps(4))
  moreover have "entries (data st') @ es = entries (data st) @ e # es" using e'(6) by simp
  ultimately show ?case using only_key_trans [OF e'(2)] by (metis select_target)
qed

lemma load_expire_spec:
  assumes "target_ok (target s)" "db < length (databases (target s))" "env_ok env" "stored (target s) db key v None"
    and "\<And>d'. d = Some d' \<Longrightarrow> \<exists>ms :: u64. d' = unat ms * 1000000"
  shows "\<exists>s'. load_expire env db key d s = (s', Ok ()) \<and> unread s' = unread s \<and> only_key db key (target s) (target s') \<and>
    stored (target s') db key v (map_option (\<lambda>d. now_at env (position s) + d) d)"
proof (cases d)
  case None
  then show ?thesis using assms by (simp add: load_expire_def only_key_refl)
next
  case (Some d')
  then obtain ms :: u64 where "d' = unat ms * 1000000" using assms(5) by blast
  then have "instant_add (now_at env (position s)) d' \<noteq> None" "instant_add (now2_at env (position s)) d' \<noteq> None"
    using env_okD [OF assms(3)] by simp_all
  from store_expire [OF assms(1,2,4) this] obtain e' x where
    "on_shard db key (expire key d' (now_at env (position s)) (now2_at env (position s))) (target s) = (e', Ok x)"
    "only_key db key (target s) e'" "stored e' db key v (Some (now_at env (position s) + d'))" .
  then show ?thesis by (simp add: load_expire_def Some storing_def)
qed

section \<open>Values that survive a snapshot\<close>

text \<open>
  Two values are the same to a client: strings and lists are equal, sets and hashes have the same
  members and fields, sorted sets the same members in the same order, streams the same entries.
\<close>

fun same_value :: "val \<Rightarrow> val \<Rightarrow> bool" where
  "same_value (VString a) (VString b) = (a = b)"
| "same_value (VList a) (VList b) = (a = b)"
| "same_value (VSet a) (VSet b) = (set a = set b)"
| "same_value (VHash a) (VHash b) = (map_of a = map_of b)"
| "same_value (VSortedSet a) (VSortedSet b) = (sl_items a = sl_items b)"
| "same_value (VStream a) (VStream b) = (entries (data a) = entries (data b))"
| "same_value _ _ = False"

text \<open>
  A snapshot can hold the value: lengths fit into 32 bits, a list does not start with the marker that
  introduces a stream, a stream has entries and every entry has fields.
\<close>

definition storable :: "val \<Rightarrow> bool" where
  "storable v \<longleftrightarrow> value_ok v \<and>
     (case v of
        VString b \<Rightarrow> small b
      | VList l \<Rightarrow> small l \<and> hd l \<noteq> stream_marker \<and> list_all small l
      | VSet s \<Rightarrow> small s \<and> list_all small s
      | VHash h \<Rightarrow> small h \<and> list_all (\<lambda>x. small (fst x) \<and> small (snd x)) h
      | VSortedSet z \<Rightarrow> small (sl_items z) \<and> list_all (\<lambda>x. small (fst x)) (sl_items z)
      | VStream st \<Rightarrow> stream_ok st \<and> entries (data st) \<noteq> [] \<and> new_id 0 0 < entry_id (hd (entries (data st))) \<and>
          list_all entry_ok (entries (data st)) \<and> total_items (entries (data st)) < 4294967296)"

lemma all_entries:
  assumes "stream_ok st"
  shows "stream_range min_id max_id None False st = entries (data st)"
proof -
  have "\<not> max_id < entry_id (hd (entries (data st)))" by (simp add: not_less)
  then show ?thesis
    using range_data_spec [OF stream_okD(1) [OF assms], of min_id max_id None False]
    by (simp add: stream_range_def range_spec_def limit_def)
qed

lemma all_items: "sl_ok z \<Longrightarrow> sl_items z \<noteq> [] \<Longrightarrow> range_by_rank 0 (pred_usize (sl_len z)) z = Some (sl_items z)"
  by (simp add: range_by_rank_spec pred_usize_def sl_lengths)

definition value_bytes :: "val \<Rightarrow> bytes" where
  "value_bytes v =
     (case v of
        VString b \<Rightarrow> buffer_item b
      | VList l \<Rightarrow> length_bytes (length l) @ concat (map buffer_item l)
      | VSet s \<Rightarrow> length_bytes (length s) @ concat (map buffer_item s)
      | VHash h \<Rightarrow> length_bytes (length h) @ concat (map pair_item h)
      | VSortedSet z \<Rightarrow> length_bytes (length (sl_items z)) @ concat (map zset_item (sl_items z))
      | VStream st \<Rightarrow> length_bytes (total_items (entries (data st))) @ buffer_item stream_marker @ concat (map entry_item (entries (data st))))"

lemma buffer_value_bytes: "storable v \<Longrightarrow> buffer_value v = Ok (value_bytes v)"
  by (cases v) (simp_all add: storable_def buffer_value_def value_bytes_def all_items all_entries Let_def
      zset_item_def pair_item_def entry_item_def [abs_def])

text \<open>The time left that a loader computes from a deadline is a number of milliseconds.\<close>

definition whole_millis :: "nat option \<Rightarrow> bool" where
  "whole_millis d \<longleftrightarrow> (\<forall>d'. d = Some d' \<longrightarrow> (\<exists>ms :: u64. d' = unat ms * 1000000))"

definition restores :: "load_env \<Rightarrow> nat \<Rightarrow> bytes \<Rightarrow> val \<Rightarrow> nat option \<Rightarrow> loader \<Rightarrow> bytes \<Rightarrow> loader \<times> unit result \<Rightarrow> bool" where
  "restores env db key v d s rest res \<longleftrightarrow> (\<exists>s' v' p. res = (s', Ok ()) \<and> unread s' = rest \<and> only_key db key (target s) (target s') \<and>
     same_value v v' \<and> stored (target s') db key v' (map_option (\<lambda>d. now_at env p + d) d))"

lemma restores_expire:
  assumes "only_key db key (target s) (target s1)" "db < length (databases (target s))" "env_ok env" "whole_millis d"
    and "stored (target s1) db key v' None" "same_value v v'" "unread s1 = rest"
  shows "restores env db key v d s rest (load_expire env db key d s1)"
proof -
  have d: "\<exists>ms :: u64. d' = unat ms * 1000000" if "d = Some d'" for d' using assms(4) that by (simp add: whole_millis_def)
  have "target_ok (target s1)" "db < length (databases (target s1))" using assms(1,2) by (simp_all add: only_keyD)
  from load_expire_spec [OF this assms(3,5), of d, OF d] show ?thesis
    using only_key_trans [OF assms(1)] assms(6,7) unfolding restores_def by blast
qed

text \<open>The head of a container record: its key and its length.\<close>

lemma read_container:
  assumes "unread s = buffer_item key @ length_bytes n @ rest" "small key" "n < 4294967296"
  shows "and_then (read_string s) (\<lambda>s k. and_then (read_length s) (\<lambda>s c. f k c s)) = f key n (take_input (buffer_item key @ length_bytes n) rest s)"
proof -
  have "read_length (take_input (buffer_item key) (length_bytes n @ rest) s) = (take_input (buffer_item key @ length_bytes n) rest s, Ok n)"
    using assms(3) by (subst read_size [of _ n rest]) simp_all
  then show ?thesis by (simp add: read_item [OF assms(1,2)])
qed

lemma opcode_simps [simp]: "opcode a = opcode b \<longleftrightarrow> a = b"
  by (cases a; cases b) simp_all

lemma read_value_list:
  assumes "unread s = buffer_item key @ value_bytes (VList l) @ rest" "small key" "storable (VList l)"
    and "target_ok (target s)" "db < length (databases (target s))" "lookup (target s) db key = None" "env_ok env" "whole_millis d"
  shows "restores env db key (VList l) d s rest (read_key_value_with_type env db (opcode OpList) d s)"
proof -
  obtain x xs where l: "l = x # xs" using assms(3) by (cases l) (auto simp: storable_def)
  have sm: "small x" "\<forall>x \<in> set xs. small x" "x \<noteq> stream_marker" "length l < 4294967296"
    using assms(3) l by (auto simp: storable_def list_all_iff small_def)
  let ?r = "concat (map buffer_item l) @ rest"
  let ?s1 = "take_input (buffer_item key @ length_bytes (length l)) ?r s"
  let ?s2 = "take_input (buffer_item x) (concat (map buffer_item xs) @ rest) ?s1"
  have x: "read_string ?s1 = (?s2, Ok x)" by (rule read_item) (use sm l in simp_all)
  obtain e' y where e': "on_shard db key (rpush key [x] (now_at env (position ?s2))) (target s) = (e', Ok y)"
      "only_key db key (target s) e'" "stored e' db key (VList ([] @ [x])) None"
    using store_rpush [OF assms(4,5)] assms(6) by (metis holds_def)
  let ?s3 = "?s2\<lparr>target := e'\<rparr>"
  have push: "load_rpush env db key x ?s2 = (?s3, Ok ())"
    using e'(1) by (simp add: load_rpush_def storing_def del: take_input_simps(3,4))
  obtain s4 where s4: "load_list env db key (length xs) ?s3 = (s4, Ok ())" "unread s4 = rest" "only_key db key e' (target s4)"
      "holds (target s4) db key (VList []) (VList l)"
    using load_list_spec [of ?s3 xs rest db key "[x]"] e'(2,3) assms(5) sm(2) l
    by (auto simp: only_keyD holds_def take_input_def)
  have "stored (target s4) db key (VList l) None" using s4(4) l by (auto simp: holds_def)
  then have "restores env db key (VList l) d s rest (load_expire env db key d s4)"
    using only_key_trans [OF e'(2) s4(3)] assms(5,7,8) s4(2) by (intro restores_expire [where v' = "VList l"]) simp_all
  moreover have "read_key_value_with_type env db (opcode OpList) d s = load_expire env db key d s4"
    using assms(1) sm(3,4) s4(1) x push l
    by (simp add: read_key_value_with_type_def value_bytes_def read_container [of s key "length l" ?r] assms(2) del: opcode.simps take_input_simps(4))
  ultimately show ?thesis by simp
qed

lemma read_value_zset:
  assumes "unread s = buffer_item key @ value_bytes (VSortedSet z) @ rest" "small key" "storable (VSortedSet z)"
    and "target_ok (target s)" "db < length (databases (target s))" "lookup (target s) db key = None" "env_ok env" "whole_millis d"
  shows "restores env db key (VSortedSet z) d s rest (read_key_value_with_type env db (opcode OpZSet) d s)"
proof -
  let ?xs = "sl_items z"
  have z: "sl_ok z" "?xs \<noteq> []" "\<forall>x \<in> set ?xs. small (fst x)" "length ?xs < 4294967296"
    using assms(3) by (auto simp: storable_def list_all_iff small_def)
  have nan: "\<forall>x \<in> set ?xs. \<not> is_nan_f64 (snd x)" using sl_ok_items [OF z(1)] by (metis nodes_ok_def)
  let ?r = "concat (map zset_item ?xs) @ rest"
  let ?s1 = "take_input (buffer_item key @ length_bytes (length ?xs)) ?r s"
  obtain s2 z' where s2: "load_zset env db key (length ?xs) ?s1 = (s2, Ok ())" "unread s2 = rest" "only_key db key (target s) (target s2)"
      "holds (target s2) db key (VSortedSet new_skip_list) (VSortedSet z')" "sl_items z' = ?xs"
    using load_zset_spec [of ?s1 ?xs rest db env key new_skip_list] assms(4-7) z(3) nan sl.sorted_ok [OF z(1)] new_skip_list_sl_ok
    by (auto simp: holds_def)
  have "stored (target s2) db key (VSortedSet z') None" using s2(4,5) z(2) new_skip_list_sl_ok(2) by (auto simp: holds_def)
  then have "restores env db key (VSortedSet z) d s rest (load_expire env db key d s2)"
    using s2(2,3,5) assms(5,7,8) by (intro restores_expire [where v' = "VSortedSet z'"]) simp_all
  moreover have "read_key_value_with_type env db (opcode OpZSet) d s = load_expire env db key d s2"
    using assms(1) s2(1) z(4)
    by (simp add: read_key_value_with_type_def value_bytes_def read_container [of s key "length ?xs" ?r] assms(2) del: opcode.simps take_input_simps(4))
  ultimately show ?thesis by simp
qed

lemma read_value_stream:
  assumes "unread s = buffer_item key @ value_bytes (VStream st) @ rest" "small key" "storable (VStream st)"
    and "target_ok (target s)" "db < length (databases (target s))" "lookup (target s) db key = None" "env_ok env" "whole_millis d"
  shows "restores env db key (VStream st) d s rest (read_key_value_with_type env db (opcode OpList) d s)"
proof -
  let ?es = "entries (data st)"
  have st: "stream_ok st" "?es \<noteq> []" "new_id 0 0 < entry_id (hd ?es)" "\<forall>e \<in> set ?es. entry_ok e" "total_items ?es < 4294967296"
    using assms(3) by (auto simp: storable_def list_all_iff)
  let ?n = "sum_list (map entry_strings ?es)"
  have n: "total_items ?es - 1 = 0 + ?n" "?n < 4294967296" "1 \<le> total_items ?es" using st(5) total_items_sum [of ?es] by simp_all
  have first: "\<forall>e \<in> set ?es. new_id 0 0 < entry_id e"
    using st(1,2,3) by (cases ?es) (auto simp: stream_ok_def)
  let ?r1 = "concat (map entry_item ?es) @ rest"
  let ?r0 = "buffer_item stream_marker @ ?r1"
  let ?s1 = "take_input (buffer_item key @ length_bytes (total_items ?es)) ?r0 s"
  let ?s2 = "take_input (buffer_item stream_marker) ?r1 ?s1"
  have m: "read_string ?s1 = (?s2, Ok stream_marker)" by (rule read_item) (simp_all add: stream_marker_def small_def)
  obtain s3 st' where s3: "load_stream env db key (total_items ?es - 1) 0 ?s2 = (s3, Ok ())" "unread s3 = rest"
      "only_key db key (target s) (target s3)" "holds (target s3) db key (VStream new_stream) (VStream st')"
      "entries (data st') = ?es"
    using load_stream_spec [of ?s2 ?es rest db key new_stream "total_items ?es - 1" 0 env] assms(4-6) st(4) n(1,2)
      new_stream_ok stream_okD(1) [OF st(1)] first
    by (auto simp: holds_def new_stream_def new_stream_data_def)
  have "st' \<noteq> new_stream" using s3(5) st(2) by (auto simp: new_stream_def new_stream_data_def)
  then have "stored (target s3) db key (VStream st') None" using s3(4) by (auto simp: holds_def)
  then have "restores env db key (VStream st) d s rest (load_expire env db key d s3)"
    using s3(2,3,5) assms(5,7,8) by (intro restores_expire [where v' = "VStream st'"]) simp_all
  moreover have "read_key_value_with_type env db (opcode OpList) d s = load_expire env db key d s3"
    using assms(1) s3(1) m st(5) n(3)
    by (simp add: read_key_value_with_type_def value_bytes_def read_container [of s key "total_items ?es" ?r0] assms(2)
        del: opcode.simps take_input_simps(4))
  ultimately show ?thesis by simp
qed

lemma read_value_set:
  assumes "unread s = buffer_item key @ value_bytes (VSet xs) @ rest" "small key" "storable (VSet xs)"
    and "target_ok (target s)" "db < length (databases (target s))" "lookup (target s) db key = None" "env_ok env" "whole_millis d"
  shows "restores env db key (VSet xs) d s rest (read_key_value_with_type env db (opcode OpSet) d s)"
proof -
  have xs: "xs \<noteq> []" "distinct xs" "\<forall>x \<in> set xs. small x" "length xs < 4294967296"
    using assms(3) by (auto simp: storable_def list_all_iff small_def)
  let ?r = "concat (map buffer_item xs) @ rest"
  let ?s1 = "take_input (buffer_item key @ length_bytes (length xs)) ?r s"
  let ?s2 = "take_input (concat (map buffer_item xs)) rest ?s1"
  have r: "read_strings (length xs) ?s1 = (?s2, Ok xs)" by (rule read_strings_spec) (use xs in simp_all)
  obtain e' y where e': "on_shard db key (sadd key xs (now_at env (position ?s2))) (target s) = (e', Ok y)"
      "only_key db key (target s) e'" "stored e' db key (VSet (fst (insert_members xs [] 0))) None"
    using store_sadd [OF assms(4-6) xs(1)] .
  have "restores env db key (VSet xs) d s rest (load_expire env db key d (?s2\<lparr>target := e'\<rparr>))"
    using e'(2,3) assms(5,7,8) xs(2) insert_members_same [of "[]" xs 0]
    by (intro restores_expire [where v' = "VSet xs"]) (simp_all add: take_input_def)
  moreover have "read_key_value_with_type env db (opcode OpSet) d s = load_expire env db key d (?s2\<lparr>target := e'\<rparr>)"
    using assms(1) xs(4) r e'(1)
    by (simp add: read_key_value_with_type_def value_bytes_def read_container [of s key "length xs" ?r] assms(2) storing_def
        del: opcode.simps take_input_simps(3,4))
  ultimately show ?thesis by simp
qed

lemma read_value_hash:
  assumes "unread s = buffer_item key @ value_bytes (VHash h) @ rest" "small key" "storable (VHash h)"
    and "target_ok (target s)" "db < length (databases (target s))" "lookup (target s) db key = None" "env_ok env" "whole_millis d"
  shows "restores env db key (VHash h) d s rest (read_key_value_with_type env db (opcode OpHash) d s)"
proof -
  have h: "h \<noteq> []" "distinct (map fst h)" "\<forall>x \<in> set h. small (fst x) \<and> small (snd x)" "length h < 4294967296"
    using assms(3) by (auto simp: storable_def list_all_iff small_def)
  let ?r = "concat (map pair_item h) @ rest"
  let ?s1 = "take_input (buffer_item key @ length_bytes (length h)) ?r s"
  let ?s2 = "take_input (concat (map pair_item h)) rest ?s1"
  have r: "read_pairs (length h) ?s1 = (?s2, Ok h)" by (rule read_pairs_spec) (use h in simp_all)
  obtain e' y where e': "on_shard db key (hset key h (now_at env (position ?s2))) (target s) = (e', Ok y)"
      "only_key db key (target s) e'" "stored e' db key (VHash (hash_map_of h)) None"
    using store_hset [OF assms(4-6) h(1)] .
  have "restores env db key (VHash h) d s rest (load_expire env db key d (?s2\<lparr>target := e'\<rparr>))"
    using e'(2,3) assms(5,7,8) hash_map_of_same [OF h(2)]
    by (intro restores_expire [where v' = "VHash h"]) (simp_all add: take_input_def)
  moreover have "read_key_value_with_type env db (opcode OpHash) d s = load_expire env db key d (?s2\<lparr>target := e'\<rparr>)"
    using assms(1) h(4) r e'(1)
    by (simp add: read_key_value_with_type_def value_bytes_def read_container [of s key "length h" ?r] assms(2) storing_def
        del: opcode.simps take_input_simps(3,4))
  ultimately show ?thesis by simp
qed

lemma read_value_string:
  assumes "unread s = buffer_item key @ value_bytes (VString b) @ rest" "small key" "storable (VString b)"
    and "target_ok (target s)" "db < length (databases (target s))" "env_ok env" "whole_millis d"
  shows "restores env db key (VString b) d s rest (read_key_value_with_type env db (opcode OpString) d s)"
proof -
  let ?s1 = "take_input (buffer_item key) (buffer_item b @ rest) s"
  let ?s2 = "take_input (buffer_item b) rest ?s1"
  have k: "read_string s = (?s1, Ok key)" using assms(1,2) by (intro read_item) (simp_all add: value_bytes_def)
  have b: "read_string ?s1 = (?s2, Ok b)" using assms(3) by (intro read_item) (simp_all add: storable_def)
  have "case d of Some d \<Rightarrow> instant_add (now_at env (position ?s2)) d \<noteq> None | None \<Rightarrow> True"
    using assms(7) env_okD(2) [OF assms(6)] by (auto simp: whole_millis_def split: option.split simp del: take_input_simps)
  then obtain e' where e': "on_shard db key (case d of Some d \<Rightarrow> set_string_ex key b d (now_at env (position ?s2))
       | None \<Rightarrow> set_string key b (now_at env (position ?s2))) (target s) = (e', Ok ())"
      "only_key db key (target s) e'" "stored e' db key (VString b) (map_option (\<lambda>d. now_at env (position ?s2) + d) d)"
    using store_string [OF assms(4,5)] by metis
  have "read_key_value_with_type env db (opcode OpString) d s = (?s2\<lparr>target := e'\<rparr>, Ok ())"
    using k b e'(1) by (simp add: read_key_value_with_type_def storing_def del: opcode.simps take_input_simps(3,4))
  then show ?thesis using e'(2,3) unfolding restores_def by (intro exI conjI) (auto simp: take_input_def)
qed

lemma read_value:
  assumes "unread s = buffer_item key @ value_bytes v @ rest" "small key" "storable v"
    and "target_ok (target s)" "db < length (databases (target s))" "lookup (target s) db key = None" "env_ok env" "whole_millis d"
  shows "restores env db key v d s rest (read_key_value_with_type env db (buffer_type v) d s)"
  using assms unfolding buffer_type_def
  by (cases v) (simp_all only: val.case read_value_string read_value_list read_value_set read_value_hash read_value_zset read_value_stream)

end
