(* ===== verification/Rdb_Correct.thy ===== *)
theory Rdb_Correct
  imports Rdb_Load
begin

text \<open>
  Snapshots are complete and correct: what a save writes is loaded back as the same keys with the
  same values; a file that was cut off is never accepted; a save that fails leaves the previous dump
  file as it was; the bytes sent to a replica encode the same records as the file.
\<close>

section \<open>What a save writes\<close>

definition time_left :: "nat \<Rightarrow> stored_value \<Rightarrow> nat option" where
  "time_left now sv = map_option (\<lambda>t. if t > now then t - now else 0) (expires_at (metadata sv))"

text \<open>
  A record of the file: the deadline in milliseconds, if any, the type, the key and the value.  The
  two writers compute the deadline differently, so it is a parameter; so is the second size hint.
\<close>

type_synonym deadline = "nat \<Rightarrow> bytes \<Rightarrow> stored_value \<Rightarrow> u64 option"

definition file_deadline :: "save_clock \<Rightarrow> deadline" where
  "file_deadline clk db key sv = map_option (expiry_ms (wall_ms_at clk db key)) (time_left (ttl_at clk db key) sv)"

definition key_bytes :: "u64 option \<Rightarrow> bytes \<Rightarrow> val \<Rightarrow> bytes" where
  "key_bytes ms key v =
     (case ms of Some ms \<Rightarrow> opcode OpExpireTimeMs # u64_to_le_bytes ms | None \<Rightarrow> []) @
     [buffer_type v] @ buffer_item key @ value_bytes v"

definition record_bytes :: "save_clock \<Rightarrow> deadline \<Rightarrow> nat \<Rightarrow> bytes \<Rightarrow> stored_value \<Rightarrow> bytes" where
  "record_bytes clk dl db key sv =
     (if is_expired (get_at clk db key) sv then [] else key_bytes (dl db key sv) key (sv_value sv))"

lemma appends_value:
  assumes "storable v"
  shows "appends (write_value key v) ([buffer_type v] @ buffer_item key @ value_bytes v)"
proof -
  have head: "appends (steps (write_byte c # write_string key # write_length n # fs)) ([c] @ buffer_item key @ length_bytes n @ bs)"
    if "appends (steps fs) bs" for c n fs bs
    unfolding buffer_item_string by (intro appends_Cons appends_primitive appends_string appends_length that)
  have items: "appends (steps (map write_string xs)) (concat (map buffer_item xs))" for xs
    unfolding buffer_item_string by (intro appends_map appends_string)
  have two: "appends (steps [write_string f, write_string x]) (buffer_item f @ buffer_item x)" for f x
    using appends_Cons [OF appends_string appends_Cons [OF appends_string appends_nothing], of f x] by (simp add: buffer_item_string)
  have pairs: "appends (steps (map (\<lambda>(f, x). steps [write_string f, write_string x]) h)) (concat (map pair_item h))" for h
    using two by (intro appends_map) (auto simp: pair_item_def)
  have score: "appends (steps [write_string m, write_f64 x]) (buffer_item m @ u64_to_le_bytes x)" for m x
    using appends_Cons [OF appends_string appends_Cons [OF appends_primitive(3) appends_nothing], of m x] by (simp add: buffer_item_string)
  have scores: "appends (steps (map (\<lambda>(m, x). steps [write_string m, write_f64 x]) zs)) (concat (map zset_item zs))" for zs
    using score by (intro appends_map) (auto simp: zset_item_def)
  have entry: "appends (write_entry e) (entry_item e)" for e
    unfolding write_entry_def entry_item_def buffer_item_string
    by (intro appends_Cons appends_string pairs [unfolded pair_item_def, folded pair_item_def])
  show ?thesis
  proof (cases v)
    case (VString b)
    have "appends (steps [write_byte (opcode OpString), write_string key, write_string b]) ([opcode OpString] @ string_bytes key @ string_bytes b @ [])"
      by (intro appends_Cons appends_primitive appends_string appends_nothing)
    then show ?thesis by (simp add: appends_def write_value_def VString buffer_type_def value_bytes_def buffer_item_string)
  next
    case (VList l)
    then show ?thesis using head [OF items [of l]] by (simp add: appends_def write_value_def buffer_type_def value_bytes_def)
  next
    case (VSet l)
    then show ?thesis using head [OF items [of l]] by (simp add: appends_def write_value_def buffer_type_def value_bytes_def)
  next
    case (VHash h)
    then show ?thesis using head [OF pairs [of h]] by (simp add: appends_def write_value_def buffer_type_def value_bytes_def)
  next
    case (VSortedSet z)
    then have z: "sl_ok z" "sl_items z \<noteq> []" using assms by (auto simp: storable_def)
    show ?thesis using head [OF appends_nothing, of "opcode OpZSet" "sl_len z"] scores [of "sl_items z"]
      by (simp add: write_value_def VSortedSet buffer_type_def value_bytes_def all_items [OF z, unfolded sl_lengths [OF z(1)]] sl_lengths [OF z(1)] appends_def)
  next
    case (VStream st)
    then have st: "stream_ok st" using assms by (simp add: storable_def)
    have "appends (steps (write_string stream_marker # map write_entry (entries (data st))))
        (buffer_item stream_marker @ concat (map entry_item (entries (data st))))"
      unfolding buffer_item_string by (intro appends_Cons appends_string appends_map entry)
    from head [OF this, of "opcode OpList" "total_items (entries (data st))"] show ?thesis
      by (simp add: appends_def write_value_def VStream buffer_type_def value_bytes_def all_entries [OF st] Let_def)
  qed
qed

lemma appends_key_value:
  assumes "storable v"
  shows "appends (write_key_value wall_ms key v d) (key_bytes (map_option (expiry_ms wall_ms) d) key v)"
proof -
  have "appends (\<lambda>w. case d of Some d \<Rightarrow> steps [write_byte (opcode OpExpireTimeMs), write_u64_le (expiry_ms wall_ms d)] w | None \<Rightarrow> (w, Ok ()))
     (case map_option (expiry_ms wall_ms) d of Some ms \<Rightarrow> opcode OpExpireTimeMs # u64_to_le_bytes ms | None \<Rightarrow> [])"
    using appends_Cons [OF appends_primitive(1) appends_Cons [OF appends_primitive(2) appends_nothing], of "opcode OpExpireTimeMs"]
    by (cases d) (auto simp: appends_def)
  with appends_value [OF assms, of key] show ?thesis
    unfolding appends_def write_key_value_def key_bytes_def by simp
qed

text \<open>The databases other than one, and the keys of that one other than some.\<close>

definition get_key :: "save_clock \<Rightarrow> nat \<Rightarrow> bytes \<Rightarrow> storage_engine \<Rightarrow> storage_engine" where
  "get_key clk db key e = fst (on_shard db key (engine_get key (get_at clk db key)) e)"

lemma get_key_simps:
  assumes "engine_ok e"
  shows "engine_ok (get_key clk db key e)" "length (databases (get_key clk db key e)) = length (databases e)"
    "db' \<noteq> db \<Longrightarrow> databases (get_key clk db key e) ! db' = databases e ! db'"
    "k \<noteq> key \<Longrightarrow> lookup (get_key clk db key e) db k = lookup e db k"
  using assms engine_get.engine_keeps [OF assms] engine_get.engine_frame(1) [OF assms, of db k db key]
  by (auto simp: get_key_def on_shard_length) (simp add: on_shard_def Let_def split: prod.split)

lemma get_key_outcome:
  assumes "db < length (databases e)" "lookup e db key = Some sv"
  shows "on_shard db key (engine_get key (get_at clk db key)) e =
      (get_key clk db key e, Ok (if is_expired (get_at clk db key) sv then Expired else Found (sv_value sv)))"
    and "\<not> is_expired (get_at clk db key) sv \<Longrightarrow> get_key clk db key e = e"
    and "on_shard db key (ttl key t) e = (e, Ok (time_left t sv))"
proof -
  have d: "data_get key (shard_of e db key) = Some sv" using lookup_shard [OF assms(1)] assms(2) by simp
  have "snd (on_shard db key (engine_get key (get_at clk db key)) e) =
      Ok (if is_expired (get_at clk db key) sv then Expired else Found (sv_value sv))"
    unfolding on_shard_valid [OF assms(1)] using d by simp
  then show "on_shard db key (engine_get key (get_at clk db key)) e =
      (get_key clk db key e, Ok (if is_expired (get_at clk db key) sv then Expired else Found (sv_value sv)))"
    unfolding get_key_def by (metis prod.collapse)
  show "\<not> is_expired (get_at clk db key) sv \<Longrightarrow> get_key clk db key e = e"
    using d assms(1) by (simp add: get_key_def on_shard_def shard_of_def Let_def)
  show "on_shard db key (ttl key t) e = (e, Ok (time_left t sv))"
    using d assms(1) by (auto simp: on_shard_def shard_of_def Let_def time_left_def split: option.split)
qed

lemma snapshot_key_spec:
  assumes "engine_ok e" "db < length (databases e)" "lookup e db key = Some sv" "storable (sv_value sv)" "capacity w = None"
  shows "snapshot_key clk db key (e, w) = ((get_key clk db key e, emit (record_bytes clk (file_deadline clk) db key sv) w), Ok ())"
proof (cases "is_expired (get_at clk db key) sv")
  case True
  then show ?thesis using get_key_outcome [OF assms(2,3)] by (simp add: snapshot_key_def on_storage_def record_bytes_def)
next
  case False
  have "write_key_value ms key (sv_value sv) tl w = (emit (key_bytes (map_option (expiry_ms ms) tl) key (sv_value sv)) w, Ok ())" for ms tl
    using appends_key_value [OF assms(4)] assms(5) by (simp add: appends_def)
  then show ?thesis using False get_key_outcome [OF assms(2,3)]
    by (simp add: snapshot_key_def on_storage_def on_file_def record_bytes_def file_deadline_def)
qed

definition keys_bytes :: "save_clock \<Rightarrow> deadline \<Rightarrow> storage_engine \<Rightarrow> nat \<Rightarrow> bytes list \<Rightarrow> bytes" where
  "keys_bytes clk dl e db ks = concat (map (\<lambda>k. record_bytes clk dl db k (the (lookup e db k))) ks)"

definition storable_keys :: "storage_engine \<Rightarrow> nat \<Rightarrow> bytes list \<Rightarrow> bool" where
  "storable_keys e db ks \<longleftrightarrow> distinct ks \<and> (\<forall>k \<in> set ks. small k \<and> (\<exists>sv. lookup e db k = Some sv \<and> storable (sv_value sv)))"

definition db_keys :: "storage_engine \<Rightarrow> nat \<Rightarrow> bytes list" where
  "db_keys e db = concat (map (\<lambda>sh. map fst (shard_data sh)) (databases e ! db))"

definition db_head :: "(nat \<Rightarrow> nat) \<Rightarrow> nat \<Rightarrow> nat \<Rightarrow> bytes" where
  "db_head hint db n = opcode OpSelectDb # length_bytes db @ opcode OpResizeDb # length_bytes n @ length_bytes (hint n)"

definition db_bytes :: "save_clock \<Rightarrow> deadline \<Rightarrow> (nat \<Rightarrow> nat) \<Rightarrow> storage_engine \<Rightarrow> nat \<Rightarrow> bytes" where
  "db_bytes clk dl hint e db =
     (if db_keys e db = [] then []
      else db_head hint db (length (db_keys e db)) @ keys_bytes clk dl e db (db_keys e db))"

lemma db_keys_spec:
  assumes "engine_ok e" "db < length (databases e)"
  shows "distinct (db_keys e db)" "k \<in> set (db_keys e db) \<longleftrightarrow> lookup e db k \<noteq> None"
proof -
  have "db_keys e db = concat (map (\<lambda>sh. map fst (filter (\<lambda>_. True) (shard_data sh))) (databases e ! db))" by (simp add: db_keys_def)
  note f = filtered_keys [OF engine_ok_nth [OF assms] this]
  show "distinct (db_keys e db)" by (rule f(1))
  show "k \<in> set (db_keys e db) \<longleftrightarrow> lookup e db k \<noteq> None"
    using f(2) [of k] assms(2) by (auto simp: lookup_def shard_of_def)
qed

text \<open>An engine whose content fits into a snapshot.\<close>

definition storable_engine :: "storage_engine \<Rightarrow> bool" where
  "storable_engine e \<longleftrightarrow> engine_ok e \<and> small (databases e) \<and>
     (\<forall>db < length (databases e). small (db_keys e db) \<and> list_all small (db_keys e db)) \<and>
     (\<forall>db k sv. lookup e db k = Some sv \<longrightarrow> storable (sv_value sv))"

lemma storable_engine_keys:
  assumes "storable_engine e" "db < length (databases e)"
  shows "storable_keys e db (db_keys e db)"
  using assms db_keys_spec [of e db] by (auto simp: storable_engine_def storable_keys_def list_all_iff)

section \<open>Writing all records\<close>

text \<open>
  What the loops over databases and keys rely on, for the file and for the replication buffer alike:
  writing one key appends its record, and a database with keys starts with its header.  \<open>good\<close> says
  that the output can still be written to, \<open>fits\<close> that the deadline of a key can be represented.
\<close>

locale snapshot_writer =
  fixes clk :: save_clock and dl :: deadline and hint :: "nat \<Rightarrow> nat"
    and good :: "'w \<Rightarrow> bool" and put :: "bytes \<Rightarrow> 'w \<Rightarrow> 'w" and fits :: "nat \<Rightarrow> bytes \<Rightarrow> stored_value \<Rightarrow> bool"
    and key_step :: "nat \<Rightarrow> bytes \<Rightarrow> (storage_engine \<times> 'w, unit) step"
    and db_step :: "nat \<Rightarrow> (storage_engine \<times> 'w, unit) step"
  assumes good_put: "good w \<Longrightarrow> good (put bs w)"
    and put_put: "put cs (put bs w) = put (bs @ cs) w"
    and put_nil: "put [] w = w"
    and key_step: "engine_ok e \<Longrightarrow> db < length (databases e) \<Longrightarrow> lookup e db key = Some sv \<Longrightarrow> storable (sv_value sv) \<Longrightarrow>
      fits db key sv \<Longrightarrow> good w \<Longrightarrow> key_step db key (e, w) = ((get_key clk db key e, put (record_bytes clk dl db key sv) w), Ok ())"
    and db_step: "db < length (databases e) \<Longrightarrow> good w \<Longrightarrow> db_step db (e, w) =
      (if db_keys e db = [] then ((e, w), Ok ())
       else steps (map (key_step db) (db_keys e db)) (e, put (db_head hint db (length (db_keys e db))) w))"
begin

definition fitting :: "storage_engine \<Rightarrow> nat \<Rightarrow> bool" where
  "fitting e db \<longleftrightarrow> (\<forall>k sv. lookup e db k = Some sv \<longrightarrow> fits db k sv)"

lemma keys_spec:
  assumes "engine_ok e" "db < length (databases e)" "storable_keys e db ks" "good w" "\<forall>k \<in> set ks. \<forall>sv. lookup e db k = Some sv \<longrightarrow> fits db k sv"
  shows "\<exists>e'. steps (map (key_step db) ks) (e, w) = ((e', put (keys_bytes clk dl e db ks) w), Ok ()) \<and> engine_ok e' \<and>
    length (databases e') = length (databases e) \<and> (\<forall>db'. db' \<noteq> db \<longrightarrow> databases e' ! db' = databases e ! db')"
  using assms
proof (induction ks arbitrary: e w)
  case Nil
  then show ?case by (simp add: keys_bytes_def put_nil)
next
  case (Cons k ks)
  obtain sv where sv: "lookup e db k = Some sv" "storable (sv_value sv)" using Cons.prems(3) by (auto simp: storable_keys_def)
  let ?e1 = "get_key clk db k e"
  have same: "lookup ?e1 db k' = lookup e db k'" if "k' \<in> set ks" for k'
    using that Cons.prems(3) by (intro get_key_simps(4) [OF Cons.prems(1)]) (auto simp: storable_keys_def)
  have "keys_bytes clk dl ?e1 db ks = keys_bytes clk dl e db ks"
    using same by (auto simp: keys_bytes_def intro!: arg_cong [of _ _ concat])
  moreover have "storable_keys ?e1 db ks" using Cons.prems(3) same by (auto simp: storable_keys_def)
  moreover have "\<forall>k' \<in> set ks. \<forall>sv. lookup ?e1 db k' = Some sv \<longrightarrow> fits db k' sv" using Cons.prems(5) same by auto
  moreover have "key_step db k (e, w) = ((?e1, put (record_bytes clk dl db k sv) w), Ok ())"
    using Cons.prems(5) sv(1) by (intro key_step [OF Cons.prems(1,2) sv _ Cons.prems(4)]) auto
  ultimately show ?case
    using Cons.IH [of ?e1 "put (record_bytes clk dl db k sv) w"] Cons.prems get_key_simps [OF Cons.prems(1), where db = db and clk = clk and key = k]
      good_put [OF Cons.prems(4)] sv(1) by (auto simp: keys_bytes_def put_put)
qed

lemma db_spec:
  assumes "engine_ok e" "db < length (databases e)" "storable_keys e db (db_keys e db)" "good w" "fitting e db"
  shows "\<exists>e'. db_step db (e, w) = ((e', put (db_bytes clk dl hint e db) w), Ok ()) \<and> engine_ok e' \<and>
    length (databases e') = length (databases e) \<and> (\<forall>db'. db' \<noteq> db \<longrightarrow> databases e' ! db' = databases e ! db')"
proof (cases "db_keys e db = []")
  case True
  then show ?thesis using assms(1) db_step [OF assms(2,4)] by (simp add: db_bytes_def put_nil)
next
  case False
  then show ?thesis using keys_spec [OF assms(1-3) good_put [OF assms(4), of "db_head hint db (length (db_keys e db))"]] assms(5)
    by (simp add: db_step [OF assms(2,4)] db_bytes_def put_put fitting_def)
qed

lemma dbs_spec:
  assumes "engine_ok e'" "length (databases e') = length (databases e)" "storable_engine e" "good w"
    and "distinct dbs" "\<forall>db \<in> set dbs. db < length (databases e) \<and> databases e' ! db = databases e ! db" "\<forall>db \<in> set dbs. fitting e db"
  shows "\<exists>e''. steps (map db_step dbs) (e', w) = ((e'', put (concat (map (db_bytes clk dl hint e) dbs)) w), Ok ())"
  using assms
proof (induction dbs arbitrary: e' w)
  case Nil
  then show ?case by (simp add: put_nil)
next
  case (Cons db dbs)
  have db: "db < length (databases e)" "databases e' ! db = databases e ! db" using Cons.prems(6) by auto
  then have look: "lookup e' db k = lookup e db k" for k using Cons.prems(2) by (simp add: lookup_def shard_of_def)
  have keys: "db_keys e' db = db_keys e db" using db(2) by (simp add: db_keys_def)
  have same: "db_bytes clk dl hint e' db = db_bytes clk dl hint e db" by (simp add: db_bytes_def keys keys_bytes_def look)
  have sk: "storable_keys e' db (db_keys e' db)"
    using storable_engine_keys [OF Cons.prems(3) db(1)] by (simp add: storable_keys_def keys look)
  have "fitting e' db" using Cons.prems(7) look by (simp add: fitting_def)
  from db_spec [OF Cons.prems(1) _ sk Cons.prems(4) this] db(1) Cons.prems(2) obtain e1 where
    e1: "db_step db (e', w) = ((e1, put (db_bytes clk dl hint e db) w), Ok ())" "engine_ok e1"
      "length (databases e1) = length (databases e')" "\<forall>db'. db' \<noteq> db \<longrightarrow> databases e1 ! db' = databases e' ! db'"
    unfolding same by auto
  have "\<forall>db \<in> set dbs. db < length (databases e) \<and> databases e1 ! db = databases e ! db"
    using Cons.prems(5,6) e1(4) by (metis distinct.simps(2) list.set_intros(2))
  then show ?case using Cons.IH [OF e1(2), of "put (db_bytes clk dl hint e db) w"] e1(1,3) Cons.prems
    by (auto simp: put_put good_put)
qed

end

interpretation dump: snapshot_writer clk "file_deadline clk" "\<lambda>n. n" "\<lambda>w. capacity w = None" emit "\<lambda>_ _ _. True" "snapshot_key clk" "snapshot_db clk"
  for clk
proof
  fix e :: storage_engine and db and w :: rdb_writer assume db: "db < length (databases e)" and w: "capacity w = None"
  let ?n = "length (db_keys e db)"
  have "appends (write_db_selector db) ([opcode OpSelectDb] @ length_bytes db @ [])"
    unfolding write_db_selector_def by (intro appends_Cons appends_primitive appends_length appends_nothing)
  moreover have "appends (write_resize_db ?n ?n) ([opcode OpResizeDb] @ length_bytes ?n @ length_bytes ?n @ [])"
    unfolding write_resize_db_def by (intro appends_Cons appends_primitive appends_length appends_nothing)
  ultimately have head: "steps (on_file (write_db_selector db) # on_file (write_resize_db ?n ?n) # fs) (e, w) =
      steps fs (e, emit (db_head (\<lambda>n. n) db ?n) w)" for fs
    using w by (simp add: appends_def on_file_def db_head_def)
  have "get_all_keys e db = Ok (db_keys e db)" using db by (simp add: get_all_keys_def db_keys_def)
  then show "snapshot_db clk db (e, w) = (if db_keys e db = [] then ((e, w), Ok ())
       else steps (map (snapshot_key clk db) (db_keys e db)) (e, emit (db_head (\<lambda>n. n) db ?n) w))"
    using head by (simp add: snapshot_db_def del: steps.simps)
qed (auto simp: snapshot_key_spec)

text \<open>The deadline the replication buffer carries, and when it can be computed.\<close>

definition replica_deadline :: "save_clock \<Rightarrow> (nat \<Rightarrow> bytes \<Rightarrow> nat) \<Rightarrow> deadline" where
  "replica_deadline clk wall_ns db key sv =
     map_option (\<lambda>d. word_of_nat ((wall_ns db key + d) div 1000000)) (time_left (ttl_at clk db key) sv)"

definition deadline_fits :: "save_clock \<Rightarrow> (nat \<Rightarrow> bytes \<Rightarrow> nat) \<Rightarrow> nat \<Rightarrow> bytes \<Rightarrow> stored_value \<Rightarrow> bool" where
  "deadline_fits clk wall_ns db key sv =
     (case time_left (ttl_at clk db key) sv of Some d \<Rightarrow> instant_add (wall_ns db key) d \<noteq> None | None \<Rightarrow> True)"

lemma buffer_key_spec:
  assumes "engine_ok e" "db < length (databases e)" "lookup e db key = Some sv" "storable (sv_value sv)" "deadline_fits clk wall_ns db key sv"
  shows "buffer_key clk wall_ns db key (e, w) = ((get_key clk db key e, w @ record_bytes clk (replica_deadline clk wall_ns) db key sv), Ok ())"
proof (cases "is_expired (get_at clk db key) sv")
  case True
  then show ?thesis using get_key_outcome [OF assms(2,3)]
    by (simp add: buffer_key_def on_storage_def record_bytes_def)
next
  case False
  have "buffer_deadline (wall_ns db key) (time_left (ttl_at clk db key) sv) =
      Ok (case replica_deadline clk wall_ns db key sv of Some ms \<Rightarrow> opcode OpExpireTimeMs # u64_to_le_bytes ms | None \<Rightarrow> [])"
    using assms(5)
    by (auto simp: buffer_deadline_def replica_deadline_def deadline_fits_def instant_add_def split: option.split if_splits)
  then show ?thesis using False get_key_outcome [OF assms(2,3)]
    by (simp add: buffer_key_def on_storage_def record_bytes_def key_bytes_def buffer_value_bytes [OF assms(4)])
qed

interpretation replica: snapshot_writer clk "replica_deadline clk wall_ns" "\<lambda>_. 0" "\<lambda>_. True" "\<lambda>bs w. w @ bs" "deadline_fits clk wall_ns"
    "buffer_key clk wall_ns" "buffer_db clk wall_ns"
  for clk wall_ns
proof
  fix e :: storage_engine and db w assume "db < length (databases e)"
  then have "get_all_keys e db = Ok (db_keys e db)" by (simp add: get_all_keys_def db_keys_def)
  then show "buffer_db clk wall_ns db (e, w) = (if db_keys e db = [] then ((e, w), Ok ())
       else steps (map (buffer_key clk wall_ns db) (db_keys e db)) (e, w @ db_head (\<lambda>_. 0) db (length (db_keys e db))))"
    by (simp add: buffer_db_def db_head_def)
qed (auto simp: buffer_key_spec)

section \<open>What loading the file restores\<close>

text \<open>
  The deadline of a restored key: with \<open>ms\<close> the absolute deadline in the file, the key gets what is
  left of it when it is read, or no deadline at all when none is left.
\<close>

definition restored_deadline :: "load_env \<Rightarrow> u64 option \<Rightarrow> nat option \<Rightarrow> bool" where
  "restored_deadline env ms t \<longleftrightarrow>
     (case ms of
        None \<Rightarrow> t = None
      | Some ms \<Rightarrow> \<exists>p q. t = (if load_wall_ms env q < ms then Some (now_at env p + unat (ms - load_wall_ms env q) * 1000000) else None))"

definition restored_key :: "load_env \<Rightarrow> save_clock \<Rightarrow> deadline \<Rightarrow> nat \<Rightarrow> bytes \<Rightarrow> stored_value option \<Rightarrow> stored_value option \<Rightarrow> bool" where
  "restored_key env clk dl db k old new \<longleftrightarrow>
     (case old of
        Some sv \<Rightarrow>
          if is_expired (get_at clk db k) sv then new = None
          else (\<exists>sv'. new = Some sv' \<and> same_value (sv_value sv) (sv_value sv') \<and>
            restored_deadline env (dl db k sv) (expires_at (metadata sv')))
      | None \<Rightarrow> new = None)"

lemma load_record:
  assumes "unread s = record_bytes clk dl db k sv @ rest" "small k" "storable (sv_value sv)" "env_ok env"
    and "target_ok (target s)" "db < length (databases (target s))" "lookup (target s) db k = None"
  shows "\<exists>s'. load_loop env db s = load_loop env db s' \<and> unread s' = rest \<and> only_key db k (target s) (target s') \<and>
    restored_key env clk dl db k (Some sv) (lookup (target s') db k)"
proof (cases "is_expired (get_at clk db k) sv")
  case True
  then show ?thesis using assms by (intro exI [of _ s]) (simp add: record_bytes_def restored_key_def only_key_refl)
next
  case False
  let ?v = "sv_value sv" and ?l = "dl db k sv"
  let ?body = "buffer_item k @ value_bytes ?v @ rest"
  have ty: "buffer_type ?v \<notin> opcode ` {OpEof, OpSelectDb, OpResizeDb, OpAux, OpExpireTimeMs, OpExpireTimeS}"
    by (cases ?v) (simp_all add: buffer_type_def image_iff)
  have "\<exists>s' d. load_loop env db s = and_then (read_key_value_with_type env db (buffer_type ?v) d s') (\<lambda>s _. load_loop env db s) \<and>
      unread s' = ?body \<and> target s' = target s \<and> whole_millis d \<and>
      (\<forall>p. restored_deadline env ?l (map_option (\<lambda>d. now_at env p + d) d))"
  proof (cases ?l)
    case None
    let ?s1 = "take_input [buffer_type ?v] ?body s"
    have "read_byte s = (?s1, Ok (buffer_type ?v))"
      using assms(1) False None by (intro decodesD [OF decodes_byte]) (simp add: record_bytes_def key_bytes_def)
    then have "load_loop env db s = and_then (read_key_value_with_type env db (buffer_type ?v) None ?s1) (\<lambda>s _. load_loop env db s)"
      using ty by (subst load_loop.simps) (simp del: opcode.simps)
    then show ?thesis
      by (intro exI [of _ ?s1] exI [of _ None]) (simp add: whole_millis_def restored_deadline_def None)
  next
    case (Some x)
    let ?s1 = "take_input [opcode OpExpireTimeMs] (u64_to_le_bytes x @ buffer_type ?v # ?body) s"
    let ?s2 = "take_input (u64_to_le_bytes x) (buffer_type ?v # ?body) ?s1"
    let ?s3 = "take_input [buffer_type ?v] ?body ?s2"
    let ?now = "load_wall_ms env (position ?s3)"
    let ?d = "if ?now < x then Some (unat (x - ?now) * 1000000) else None"
    have r: "read_byte s = (?s1, Ok (opcode OpExpireTimeMs))" "read_u64_le ?s1 = (?s2, Ok x)" "read_byte ?s2 = (?s3, Ok (buffer_type ?v))"
      using assms(1) False Some
      by (intro decodesD [OF decodes_byte] decodesD [OF decodes_fixed(2)]; simp add: record_bytes_def key_bytes_def)+
    have "load_loop env db s = and_then (read_key_value_with_expiry env db x ?s2) (\<lambda>s _. load_loop env db s)"
      using r(1,2) by (subst load_loop.simps) (simp del: opcode.simps)
    also have "read_key_value_with_expiry env db x ?s2 = read_key_value_with_type env db (buffer_type ?v) ?d ?s3"
      using r(3) by (simp add: read_key_value_with_expiry_def Let_def del: take_input_simps)
    finally have "load_loop env db s = and_then (read_key_value_with_type env db (buffer_type ?v) ?d ?s3) (\<lambda>s _. load_loop env db s)" .
    then show ?thesis
      by (intro exI [of _ ?s3] exI [of _ ?d]) (auto simp: whole_millis_def restored_deadline_def Some)
  qed
  then obtain s1 d where s1: "load_loop env db s = and_then (read_key_value_with_type env db (buffer_type ?v) d s1) (\<lambda>s _. load_loop env db s)"
    "unread s1 = ?body" "target s1 = target s" "whole_millis d" "\<And>p. restored_deadline env ?l (map_option (\<lambda>d. now_at env p + d) d)"
    by blast
  have "restores env db k ?v d s1 rest (read_key_value_with_type env db (buffer_type ?v) d s1)"
    using s1(2-4) assms by (intro read_value) simp_all
  then show ?thesis unfolding s1(1) using s1(3,5) False by (auto simp: restores_def restored_key_def stored_def)
qed

lemma load_keys:
  assumes "unread s = keys_bytes clk dl e db ks @ rest" "storable_keys e db ks" "env_ok env"
    and "target_ok (target s)" "db < length (databases (target s))" "\<forall>k \<in> set ks. lookup (target s) db k = None"
  shows "\<exists>s'. load_loop env db s = load_loop env db s' \<and> unread s' = rest \<and> target_ok (target s') \<and>
    length (databases (target s')) = length (databases (target s)) \<and>
    (\<forall>db' k. lookup (target s') db' k = lookup (target s) db' k \<or> (db' = db \<and> k \<in> set ks)) \<and>
    (\<forall>k \<in> set ks. restored_key env clk dl db k (lookup e db k) (lookup (target s') db k))"
  using assms
proof (induction ks arbitrary: s)
  case Nil
  then show ?case by (auto simp: keys_bytes_def)
next
  case (Cons k ks)
  obtain sv where sv: "lookup e db k = Some sv" "storable (sv_value sv)" "small k" using Cons.prems(2) by (auto simp: storable_keys_def)
  have "unread s = record_bytes clk dl db k sv @ keys_bytes clk dl e db ks @ rest" using Cons.prems(1) sv(1) by (simp add: keys_bytes_def)
  from load_record [OF this sv(3,2) Cons.prems(3,4,5)] Cons.prems(6) obtain s1 where
    s1: "load_loop env db s = load_loop env db s1" "unread s1 = keys_bytes clk dl e db ks @ rest" "only_key db k (target s) (target s1)"
      "restored_key env clk dl db k (Some sv) (lookup (target s1) db k)" by auto
  have ks: "k \<notin> set ks" "storable_keys e db ks" using Cons.prems(2) by (auto simp: storable_keys_def)
  have "\<forall>k' \<in> set ks. lookup (target s1) db k' = None" using only_key_other [OF s1(3), of db] ks(1) Cons.prems(6) by (metis list.set_intros(2) prod.inject)
  from Cons.IH [OF s1(2) ks(2) Cons.prems(3) _ _ this] s1(3) Cons.prems(5) obtain s2 where
    s2: "load_loop env db s1 = load_loop env db s2" "unread s2 = rest" "target_ok (target s2)"
      "length (databases (target s2)) = length (databases (target s1))"
      "\<forall>db' k. lookup (target s2) db' k = lookup (target s1) db' k \<or> (db' = db \<and> k \<in> set ks)"
      "\<forall>k \<in> set ks. restored_key env clk dl db k (lookup e db k) (lookup (target s2) db k)"
    by (auto simp: only_keyD)
  have "lookup (target s2) db k = lookup (target s1) db k" using s2(5) ks(1) by auto
  then have "\<forall>k \<in> set (k # ks). restored_key env clk dl db k (lookup e db k) (lookup (target s2) db k)" using s1(4) s2(6) sv(1) by simp
  moreover have "lookup (target s2) db' k' = lookup (target s) db' k' \<or> db' = db \<and> k' \<in> set (k # ks)" for db' k'
    using s2(5) s1(3) unfolding only_key_def by (metis list.set_intros prod.inject)
  ultimately show ?case using s1(1,3) s2(1-4) by (intro exI [of _ s2]) (simp add: only_keyD)
qed

lemma load_db:
  assumes "unread s = db_bytes clk dl hint e db @ rest" "storable_engine e" "db < length (databases e)" "env_ok env"
    and "target_ok (target s)" "db < length (databases (target s))" "\<forall>k. lookup (target s) db k = None" and hint: "\<And>n. hint n \<le> n"
  shows "\<exists>s' db'. load_loop env cur s = load_loop env db' s' \<and> unread s' = rest \<and> target_ok (target s') \<and>
    length (databases (target s')) = length (databases (target s)) \<and>
    (\<forall>j k. j \<noteq> db \<longrightarrow> lookup (target s') j k = lookup (target s) j k) \<and>
    (\<forall>k. restored_key env clk dl db k (lookup e db k) (lookup (target s') db k))"
proof (cases "db_keys e db = []")
  case True
  then have "lookup e db k = None" for k using db_keys_spec(2) [of e db k] assms(2,3) by (simp add: storable_engine_def)
  then show ?thesis using assms(1,5,7) True by (intro exI [of _ s] exI [of _ cur]) (simp add: db_bytes_def restored_key_def)
next
  case False
  let ?n = "length (db_keys e db)"
  have sm: "db < 4294967296" "?n < 4294967296" "hint ?n < 4294967296"
    using assms(2,3) hint [of ?n] by (auto simp: storable_engine_def small_def)
  let ?r3 = "keys_bytes clk dl e db (db_keys e db) @ rest"
  let ?r2 = "length_bytes ?n @ length_bytes (hint ?n) @ ?r3"
  let ?s1 = "take_input [opcode OpSelectDb] (length_bytes db @ opcode OpResizeDb # ?r2) s"
  let ?s2 = "take_input (length_bytes db) (opcode OpResizeDb # ?r2) ?s1"
  let ?s3 = "take_input [opcode OpResizeDb] ?r2 ?s2"
  let ?s4 = "take_input (length_bytes ?n) (length_bytes (hint ?n) @ ?r3) ?s3"
  let ?s5 = "take_input (length_bytes (hint ?n)) ?r3 ?s4"
  have r: "read_byte s = (?s1, Ok (opcode OpSelectDb))" "read_length ?s1 = (?s2, Ok db)" "read_byte ?s2 = (?s3, Ok (opcode OpResizeDb))"
    "read_length ?s3 = (?s4, Ok ?n)" "read_length ?s4 = (?s5, Ok (hint ?n))"
    using assms(1) False sm
    by (intro decodesD [OF decodes_byte] decodesD [OF decodes_length]; simp add: db_bytes_def db_head_def)+
  have "load_loop env cur s = load_loop env db ?s2" using r(1,2) by (subst load_loop.simps) (simp del: opcode.simps take_input_simps)
  also have "\<dots> = load_loop env db ?s5" using r(3-5) by (subst load_loop.simps) (simp del: opcode.simps take_input_simps)
  finally have l: "load_loop env cur s = load_loop env db ?s5" .
  from load_keys [of ?s5 clk dl e db "db_keys e db" rest env, OF _ storable_engine_keys [OF assms(2,3)] assms(4)] assms(5-7) obtain s' where
    s': "load_loop env db ?s5 = load_loop env db s'" "unread s' = rest" "target_ok (target s')"
      "length (databases (target s')) = length (databases (target s))"
      "\<forall>db' k. lookup (target s') db' k = lookup (target s) db' k \<or> (db' = db \<and> k \<in> set (db_keys e db))"
      "\<forall>k \<in> set (db_keys e db). restored_key env clk dl db k (lookup e db k) (lookup (target s') db k)" by auto
  have "restored_key env clk dl db k (lookup e db k) (lookup (target s') db k)" for k
  proof (cases "k \<in> set (db_keys e db)")
    case False
    then have "lookup e db k = None" using db_keys_spec(2) [of e db k] assms(2,3) by (auto simp: storable_engine_def)
    moreover have "lookup (target s') db k = None" using False assms(7) s'(5) by metis
    ultimately show ?thesis by (simp add: restored_key_def)
  qed (use s'(6) in blast)
  then show ?thesis using l s' by (metis (full_types))
qed

lemma load_dbs:
  assumes "unread s = concat (map (db_bytes clk dl hint e) dbs) @ rest" "storable_engine e" "distinct dbs" "env_ok env" "target_ok (target s)"
    and "\<forall>db \<in> set dbs. db < length (databases e) \<and> db < length (databases (target s)) \<and> (\<forall>k. lookup (target s) db k = None)" and hint: "\<And>n. hint n \<le> n"
  shows "\<exists>s' db'. load_loop env cur s = load_loop env db' s' \<and> unread s' = rest \<and>
    (\<forall>j k. j \<notin> set dbs \<longrightarrow> lookup (target s') j k = lookup (target s) j k) \<and>
    (\<forall>db \<in> set dbs. \<forall>k. restored_key env clk dl db k (lookup e db k) (lookup (target s') db k))"
  using assms(1-6)
proof (induction dbs arbitrary: s cur)
  case Nil
  then show ?case by auto
next
  case (Cons db dbs)
  have "unread s = db_bytes clk dl hint e db @ concat (map (db_bytes clk dl hint e) dbs) @ rest" using Cons.prems(1) by simp
  from load_db [OF this Cons.prems(2) _ Cons.prems(4,5) _ _ hint, of cur] Cons.prems(6) obtain s1 c1 where
    s1: "load_loop env cur s = load_loop env c1 s1" "unread s1 = concat (map (db_bytes clk dl hint e) dbs) @ rest" "target_ok (target s1)"
      "length (databases (target s1)) = length (databases (target s))"
      "\<forall>j k. j \<noteq> db \<longrightarrow> lookup (target s1) j k = lookup (target s) j k"
      "\<forall>k. restored_key env clk dl db k (lookup e db k) (lookup (target s1) db k)" by auto
  have "\<forall>db' \<in> set dbs. db' < length (databases e) \<and> db' < length (databases (target s1)) \<and> (\<forall>k. lookup (target s1) db' k = None)"
    using Cons.prems(3,6) s1(4,5) by auto
  from Cons.IH [OF s1(2) Cons.prems(2) _ Cons.prems(4) s1(3) this, of c1] Cons.prems(3) obtain s2 c2 where
    s2: "load_loop env c1 s1 = load_loop env c2 s2" "unread s2 = rest"
      "\<forall>j k. j \<notin> set dbs \<longrightarrow> lookup (target s2) j k = lookup (target s1) j k"
      "\<forall>db \<in> set dbs. \<forall>k. restored_key env clk dl db k (lookup e db k) (lookup (target s2) db k)" by auto
  have "\<forall>k. restored_key env clk dl db k (lookup e db k) (lookup (target s2) db k)" using s1(6) s2(3) Cons.prems(3) by auto
  then show ?case using s1(1,5) s2 by (intro exI [of _ s2] exI [of _ c2]) auto
qed

lemma load_aux:
  assumes "unread s = opcode OpAux # string_bytes a @ string_bytes b @ rest" "small a" "small b"
  shows "\<exists>s'. load_loop env cur s = load_loop env cur s' \<and> unread s' = rest \<and> target s' = target s"
proof -
  let ?s1 = "take_input [opcode OpAux] (string_bytes a @ string_bytes b @ rest) s"
  let ?s2 = "take_input (string_bytes a) (string_bytes b @ rest) ?s1"
  let ?s3 = "take_input (string_bytes b) rest ?s2"
  have "read_byte s = (?s1, Ok (opcode OpAux))" "read_string ?s1 = (?s2, Ok a)" "read_string ?s2 = (?s3, Ok b)"
    using assms by (intro decodesD [OF decodes_byte] decodesD [OF decodes_string]; simp add: small_def)+
  then have "load_loop env cur s = load_loop env cur ?s3" by (subst load_loop.simps) (simp del: opcode.simps take_input_simps)
  then show ?thesis by (intro exI [of _ ?s3]) simp
qed

section \<open>Whole files\<close>

definition aux_bytes :: "string \<times> string \<Rightarrow> bytes" where
  "aux_bytes = (\<lambda>(key, v). opcode OpAux # string_bytes key @ string_bytes v)"

definition file_bytes :: "(string \<times> string) list \<Rightarrow> bytes \<Rightarrow> u64 \<Rightarrow> bytes" where
  "file_bytes auxs body checksum =
     RDB_MAGIC @ version_text @ concat (map aux_bytes auxs) @ body @ opcode OpEof # u64_to_le_bytes checksum"

lemma version_text_simps: "length version_text = 4" "parse_usize version_text = Some 9"
proof -
  have "nat_to_string 9 = ''9''" by code_simp
  then have v: "version_text = ''0009''" by (simp add: version_text_def RDB_VERSION_def numeral_3_eq_3)
  show "length version_text = 4" "parse_usize version_text = Some 9"
    unfolding v by (simp_all add: parse_usize_def parse_nat_def is_digit_def digit_val_def)
qed

lemma load_auxs:
  assumes "unread s = concat (map aux_bytes auxs) @ rest" "\<forall>a \<in> set auxs. small (fst a) \<and> small (snd a)"
  shows "\<exists>s'. load_loop env cur s = load_loop env cur s' \<and> unread s' = rest \<and> target s' = target s"
  using assms
proof (induction auxs arbitrary: s)
  case Nil
  then show ?case by auto
next
  case (Cons a auxs)
  obtain k v where a: "a = (k, v)" by (cases a)
  have "unread s = opcode OpAux # string_bytes k @ string_bytes v @ concat (map aux_bytes auxs) @ rest"
    using Cons.prems(1) by (simp add: a aux_bytes_def)
  from load_aux [OF this, of env cur] Cons.prems(2) a obtain s1 where
    "load_loop env cur s = load_loop env cur s1" "unread s1 = concat (map aux_bytes auxs) @ rest" "target s1 = target s" by auto
  then show ?case using Cons.IH [of s1] Cons.prems(2) by auto
qed

lemma load_file:
  assumes "unread s = file_bytes auxs (concat (map (db_bytes clk dl hint e) [0..<length (databases e)])) checksum"
    and "\<forall>a \<in> set auxs. small (fst a) \<and> small (snd a)" "storable_engine e" "env_ok env" "\<And>n. hint n \<le> n"
    and "target s = with_config n unlimited" "length (databases e) \<le> n"
  shows "\<exists>s'. load_into env s = (s', Ok ()) \<and> unread s' = [] \<and>
    (\<forall>db k. restored_key env clk dl db k (lookup e db k) (lookup (target s') db k))"
proof -
  let ?dbs = "[0..<length (databases e)]"
  let ?eof = "opcode OpEof # u64_to_le_bytes checksum"
  let ?r2 = "concat (map (db_bytes clk dl hint e) ?dbs) @ ?eof"
  let ?r1 = "concat (map aux_bytes auxs) @ ?r2"
  let ?s1 = "take_input RDB_MAGIC (version_text @ ?r1) s"
  let ?s2 = "take_input version_text ?r1 ?s1"
  have "read_exact 5 s = (?s1, Ok RDB_MAGIC)" "read_exact 4 ?s1 = (?s2, Ok version_text)"
    using assms(1) version_text_simps(1)
    by (intro decodesD [OF decodes_exact]; simp add: file_bytes_def RDB_MAGIC_def)+
  then have h: "read_header s = (?s2, Ok ())" by (simp add: read_header_def version_text_simps(2) del: take_input_simps)
  from load_auxs [of ?s2 auxs ?r2 env 0] assms(2) obtain s3 where
    s3: "load_loop env 0 ?s2 = load_loop env 0 s3" "unread s3 = ?r2" "target s3 = with_config n unlimited" by (auto simp: assms(6))
  have t: "target_ok (target s3)" "\<forall>db \<in> set ?dbs. db < length (databases e) \<and> db < length (databases (target s3)) \<and> (\<forall>k. lookup (target s3) db k = None)"
    using assms(7) with_config_ok by (auto simp: s3(3) target_ok_def with_config_length) (simp_all add: with_config_def unlimited_def)
  from load_dbs [OF s3(2) assms(3) distinct_upt assms(4) t assms(5), of 0] obtain s4 cur where
    s4: "load_loop env 0 s3 = load_loop env cur s4" "unread s4 = ?eof"
      "\<forall>j k. j \<notin> set ?dbs \<longrightarrow> lookup (target s4) j k = lookup (target s3) j k"
      "\<forall>db \<in> set ?dbs. \<forall>k. restored_key env clk dl db k (lookup e db k) (lookup (target s4) db k)" by blast
  let ?s5 = "take_input [opcode OpEof] (u64_to_le_bytes checksum) s4"
  let ?s6 = "take_input (u64_to_le_bytes checksum) [] ?s5"
  have r: "read_byte s4 = (?s5, Ok (opcode OpEof))" "read_u64_le ?s5 = (?s6, Ok checksum)"
    using s4(2) by (intro decodesD [OF decodes_byte] decodesD [OF decodes_fixed(2)]; simp)+
  have "load_loop env cur s4 = (?s6, Ok ())" using r by (subst load_loop.simps) (simp del: opcode.simps take_input_simps)
  then have "load_into env s = (?s6, Ok ())" using h s3(1) s4(1) by (simp add: load_into_def)
  moreover have "restored_key env clk dl db k (lookup e db k) (lookup (target s4) db k)" for db k
  proof (cases "db < length (databases e)")
    case False
    then have "lookup e db k = None" "lookup (target s4) db k = None" using s4(3) s3(3) by (auto simp: lookup_def [of e])
    then show ?thesis by (simp add: restored_key_def)
  qed (use s4(4) in auto)
  ultimately show ?thesis by (intro exI [of _ ?s6]) simp
qed

lemma snapshot_bytes:
  assumes "storable_engine e" "capacity w = None" "written w = []"
  shows "\<exists>e' w' checksum. write_snapshot clk (e, w) = ((e', w'), Ok ()) \<and>
    written w' = file_bytes [(''redis-ver'', CARGO_PKG_VERSION), (''ctime'', u64_to_string (started_secs clk))]
      (concat (map (db_bytes clk (file_deadline clk) (\<lambda>n. n) e) [0..<length (databases e)])) checksum"
proof -
  let ?dbs = "concat (map (db_bytes clk (file_deadline clk) (\<lambda>n. n) e) [0..<length (databases e)])"
  have aux: "appends (write_aux k v) (aux_bytes (k, v))" for k v
    using appends_Cons [OF appends_primitive(1) appends_Cons [OF appends_string appends_Cons [OF appends_string appends_nothing]], of "opcode OpAux" k v]
    by (simp add: write_aux_def aux_bytes_def)
  let ?a = "aux_bytes (''redis-ver'', CARGO_PKG_VERSION) @ aux_bytes (''ctime'', u64_to_string (started_secs clk))"
  have m: "appends (write_metadata (started_secs clk)) ?a"
    using appends_Cons [OF aux appends_Cons [OF aux appends_nothing]] by (simp add: write_metadata_def)
  have h: "appends write_header (RDB_MAGIC @ version_text)"
    using appends_Cons [OF appends_raw appends_Cons [OF appends_raw appends_nothing]] by (simp add: write_header_def)
  let ?w1 = "emit (RDB_MAGIC @ version_text @ ?a) w"
  have head: "steps (on_file write_header # on_file (write_metadata (started_secs clk)) # fs) (e, w) = steps fs (e, ?w1)" for fs
    using m h assms(2) by (simp add: appends_def on_file_def)
  obtain e' where e': "steps (map (snapshot_db clk) [0..<length (databases e)]) (e, ?w1) = ((e', emit ?dbs ?w1), Ok ())"
    using dump.dbs_spec [of e e ?w1 "[0..<length (databases e)]" clk] assms(1,2)
    by (auto simp: storable_engine_def dump.fitting_def)
  let ?w2 = "emit [opcode OpEof] (emit ?dbs ?w1)"
  have "steps [on_file write_eof, on_file write_checksum] (e', emit ?dbs ?w1) = ((e', emit (u64_to_le_bytes (crc ?w2)) ?w2), Ok ())"
    using assms(2) by (simp add: on_file_def write_eof_def write_checksum_def write_byte_def write_u64_le_def write_raw_def del: emit_simps(4))
  then have "write_snapshot clk (e, w) = ((e', emit (u64_to_le_bytes (crc ?w2)) ?w2), Ok ())"
    unfolding write_snapshot_def fst_conv append_Cons head steps_append e' by simp
  then show ?thesis using assms(3)
    by (intro exI [of _ e'] exI [of _ "emit (u64_to_le_bytes (crc ?w2)) ?w2"] exI [of _ "crc ?w2"])
       (simp add: file_bytes_def aux_bytes_def)
qed

section \<open>A write that succeeds on a bounded file\<close>

text \<open>A successful call does not depend on how much more the file would have taken.\<close>

definition lift_limit :: "rdb_writer \<Rightarrow> rdb_writer" where
  "lift_limit w = w\<lparr>capacity := None\<rparr>"

definition limit_free :: "(rdb_writer, unit) step \<Rightarrow> bool" where
  "limit_free f \<longleftrightarrow> (\<forall>w w'. f w = (w', Ok ()) \<longrightarrow> f (lift_limit w) = (lift_limit w', Ok ()))"

definition limit_free_pair :: "(storage_engine \<times> rdb_writer, unit) step \<Rightarrow> bool" where
  "limit_free_pair f \<longleftrightarrow> (\<forall>e w e' w'. f (e, w) = ((e', w'), Ok ()) \<longrightarrow> f (e, lift_limit w) = ((e', lift_limit w'), Ok ()))"

lemma limit_free_raw: "limit_free (write_raw bs)"
  by (auto simp: limit_free_def write_raw_def lift_limit_def emit_def split: option.splits if_splits)

lemma limit_free_return: "limit_free (\<lambda>w. (w, Ok ()))" "limit_free (\<lambda>w. (w, Panic))"
  by (simp_all add: limit_free_def)

lemma limit_free_then: "limit_free f \<Longrightarrow> limit_free g \<Longrightarrow> limit_free (\<lambda>w. and_then (f w) (\<lambda>w _. g w))"
  by (auto simp: limit_free_def and_then_Ok)

lemma limit_free_steps: "(\<And>f. f \<in> set fs \<Longrightarrow> limit_free f) \<Longrightarrow> limit_free (steps fs)"
  by (induction fs) (auto simp: limit_free_def and_then_Ok, blast)

lemma limit_free_simple: "limit_free (write_byte b)" "limit_free (write_u64_le n)" "limit_free (write_f64 x)" "limit_free (write_length l)"
    "limit_free (write_string s)"
  unfolding write_byte_def write_u64_le_def write_f64_def write_length_def write_string_def write_u32_be_def
  by (auto intro!: limit_free_steps limit_free_raw)

lemma limit_free_value: "limit_free (write_value key v)"
proof -
  have e: "limit_free (write_entry x)" for x unfolding write_entry_def by (auto intro!: limit_free_steps limit_free_simple)
  have z: "limit_free (\<lambda>w. case r of Some items \<Rightarrow> steps (map (\<lambda>(member, score). steps [write_string member, write_f64 score]) items) w
      | None \<Rightarrow> (w, Panic))" for r
    by (cases r) (auto simp del: steps.simps intro!: limit_free_steps limit_free_simple limit_free_return)
  have "limit_free (\<lambda>w. write_value key v w)" unfolding write_value_def
    by (cases v) (auto simp: Let_def simp del: steps.simps intro!: limit_free_then limit_free_steps limit_free_simple e z)
  then show ?thesis by simp
qed

lemma limit_free_key_value: "limit_free (write_key_value ms key v d)"
proof -
  have "limit_free (\<lambda>w. write_key_value ms key v d w)" unfolding write_key_value_def
    by (cases d) (auto simp del: steps.simps intro!: limit_free_then limit_free_steps limit_free_simple limit_free_return limit_free_value)
  then show ?thesis by simp
qed

lemma limit_free_checksum: "limit_free write_checksum"
  using limit_free_simple(2) by (simp add: limit_free_def write_checksum_def lift_limit_def)

lemma limit_free_on_file: "limit_free f \<Longrightarrow> limit_free_pair (on_file f)"
  by (auto simp: limit_free_pair_def limit_free_def on_file_def split: prod.splits)

lemma limit_free_pair_steps: "(\<And>f. f \<in> set fs \<Longrightarrow> limit_free_pair f) \<Longrightarrow> limit_free_pair (steps fs)"
  by (induction fs) (auto simp: limit_free_pair_def and_then_Ok, blast)

lemma limit_free_key: "limit_free_pair (snapshot_key clk db k)"
proof -
  have f: "limit_free_pair (on_file (write_key_value ms k v d))" for ms v d by (rule limit_free_on_file [OF limit_free_key_value])
  show ?thesis unfolding limit_free_pair_def
  proof (intro allI impI)
    fix e w e' w' assume s: "snapshot_key clk db k (e, w) = ((e', w'), Ok ())"
    obtain e1 g where g: "on_shard db k (engine_get k (get_at clk db k)) e = (e1, g)" by (metis prod.exhaust)
    obtain e2 d where d: "on_shard db k (ttl k (ttl_at clk db k)) e1 = (e2, d)" by (metis prod.exhaust)
    show "snapshot_key clk db k (e, lift_limit w) = ((e', lift_limit w'), Ok ())"
      using s f unfolding snapshot_key_def on_storage_def limit_free_pair_def
      by (cases g; cases d) (auto simp: g d split: get_result.splits)
  qed
qed

lemma limit_free_snapshot: "limit_free_pair (write_snapshot clk)"
proof -
  have "limit_free write_header" "limit_free (write_db_selector db)" "limit_free (write_resize_db m n)" "limit_free write_eof" for db m n
    unfolding write_header_def write_db_selector_def write_resize_db_def write_eof_def
    by (auto intro!: limit_free_steps limit_free_simple limit_free_raw)
  moreover have "limit_free (write_metadata secs)" for secs
    unfolding write_metadata_def write_aux_def by (auto intro!: limit_free_steps limit_free_simple simp del: steps.simps)
  ultimately have f: "limit_free_pair (on_file write_header)" "limit_free_pair (on_file (write_db_selector db))"
    "limit_free_pair (on_file (write_resize_db m n))" "limit_free_pair (on_file write_eof)"
    "limit_free_pair (on_file (write_metadata secs))" "limit_free_pair (on_file write_checksum)" for db m n secs
    by (auto intro: limit_free_on_file limit_free_checksum)
  have "limit_free_pair (steps (on_file (write_db_selector db) # on_file (write_resize_db n n) # map (snapshot_key clk db) ks))" for db n ks
    using f limit_free_key by (intro limit_free_pair_steps) auto
  then have db: "limit_free_pair (snapshot_db clk db)" for db
    unfolding limit_free_pair_def snapshot_db_def by (auto simp: and_then_Ok simp del: steps.simps split: if_splits)
  have "limit_free_pair (steps (on_file write_header # on_file (write_metadata (started_secs clk)) #
       map (snapshot_db clk) [0..<n] @ [on_file write_eof, on_file write_checksum]))" for n
    using f db by (intro limit_free_pair_steps) auto
  then show ?thesis unfolding write_snapshot_def limit_free_pair_def by (simp del: steps.simps)
qed

lemma save_succeeds:
  assumes "storable_engine e" "ans = \<lparr>open_error = None, file_capacity = None, write_error = [], rename_error = None\<rparr>"
  shows "\<exists>e' d' r'. save r clk ans wall (e, d) = ((e', d'), r', Ok ())"
  using snapshot_bytes [OF assms(1), of "new_writer None []" clk] assms(2) by (auto simp: save_def new_writer_def)

text \<open>A sample: one string under one key.\<close>

lemma sample_engine:
  obtains e sv where "storable_engine e" "length (databases e) = 1" "lookup e 0 ''k'' = Some sv" "sv_value sv = VString ''v''"
    "expires_at (metadata sv) = None" "\<forall>db k. (db, k) \<noteq> (0, ''k'') \<longrightarrow> lookup e db k = None"
proof -
  let ?e0 = "with_config 1 unlimited"
  have e0: "target_ok ?e0" "0 < length (databases ?e0)"
    using with_config_ok by (simp_all add: target_ok_def with_config_length) (simp add: with_config_def unlimited_def)
  obtain e where e: "only_key 0 ''k'' ?e0 e" "stored e 0 ''k'' (VString ''v'') None"
    using store_string [OF e0, where d = None and now = 0 and key = "''k''" and b = "''v''"] by auto
  have len: "length (databases e) = 1" using only_keyD(2) [OF e(1)] by (simp add: with_config_length)
  have ok: "engine_ok e" using only_keyD(1) [OF e(1)] by (simp add: target_ok_def)
  have other: "lookup e db k = None" if "(db, k) \<noteq> (0, ''k'')" for db k using only_key_other [OF e(1) that] by simp
  have "k = ''k''" if "k \<in> set (db_keys e 0)" for k
    using that db_keys_spec(2) [OF ok, of 0 k] len other [of 0 k] by (metis less_numeral_extra(1) prod.inject)
  then have "set (db_keys e 0) \<subseteq> {''k''}" by blast
  moreover from this have "length (db_keys e 0) \<le> 1"
    using db_keys_spec(1) [OF ok, of 0] len card_mono [of "{''k''}" "set (db_keys e 0)"] by (simp add: distinct_card)
  ultimately have "small (db_keys e 0)" "list_all small (db_keys e 0)" by (auto simp: small_def list_all_iff)
  moreover have "storable (sv_value sv)" if "lookup e db k = Some sv" for db k sv
    using that e(2) other by (cases "(db, k) = (0, ''k'')") (auto simp: stored_def storable_def small_def)
  ultimately have "storable_engine e" using ok len by (auto simp: storable_engine_def small_def)
  then show thesis using that len e(2) other unfolding stored_def by blast
qed

definition still_clock :: save_clock where
  "still_clock = \<lparr>get_at = \<lambda>_ _. 0, ttl_at = \<lambda>_ _. 0, wall_ms_at = \<lambda>_ _. 0, started_secs = 0\<rparr>"

definition still_env :: load_env where
  "still_env = \<lparr>now_at = \<lambda>_. 0, now2_at = \<lambda>_. 0, load_wall_ms = \<lambda>_. 0, level_at = \<lambda>_. 0\<rparr>"

lemma still_env_ok: "env_ok still_env"
  by (simp add: env_ok_def still_env_def MAX_LEVEL_def)

section \<open>Longer and shorter files\<close>

lemma load_loop_longer: "load_loop env db s = (s', Ok x) \<Longrightarrow> load_loop env db (longer bs s) = (longer bs s', Ok x)"
proof (induction env db s arbitrary: s' rule: load_loop.induct)
  case (1 env db s)
  let ?g = "longer bs"
  from "1.prems" obtain s1 op where b: "read_byte s = (s1, Ok op)" by (subst (asm) load_loop.simps) (auto simp: and_then_Ok)
  note ih = "1.IH" [OF b]
  note inc = incrementalD(2) [OF incremental_byte b] incrementalD(2) [OF incremental_length] incrementalD(2) [OF incremental_string]
    incrementalD(2) [OF incremental_fixed(3)] incrementalD(2) [OF incremental_fixed(2)]
    incrementalD(2) [OF incremental_value] incrementalD(2) [OF incremental_expiring_value]
  consider "op = opcode OpEof" | "op = opcode OpSelectDb" | "op = opcode OpResizeDb" | "op = opcode OpAux"
    | "op = opcode OpExpireTimeMs" | "op = opcode OpExpireTimeS"
    | "op \<notin> opcode ` {OpEof, OpSelectDb, OpResizeDb, OpAux, OpExpireTimeMs, OpExpireTimeS}" by blast
  then show ?case
  proof cases
    case 1
    then show ?thesis using "1.prems" b by (subst load_loop.simps, subst (asm) load_loop.simps) (auto simp: inc and_then_Ok simp del: opcode.simps)
  next
    case 2
    then obtain s2 d where "read_length s1 = (s2, Ok d)" "load_loop env d s2 = (s', Ok x)"
      using "1.prems" b by (subst (asm) load_loop.simps) (auto simp: and_then_Ok simp del: opcode.simps)
    then show ?thesis using 2 ih(1) by (subst load_loop.simps) (simp add: inc del: opcode.simps)
  next
    case 3
    then obtain s2 m s3 n where "read_length s1 = (s2, Ok m)" "read_length s2 = (s3, Ok n)" "load_loop env db s3 = (s', Ok x)"
      using "1.prems" b by (subst (asm) load_loop.simps) (auto simp: and_then_Ok simp del: opcode.simps)
    then show ?thesis using 3 ih(2) by (subst load_loop.simps) (simp add: inc del: opcode.simps)
  next
    case 4
    then obtain s2 m s3 n where "read_string s1 = (s2, Ok m)" "read_string s2 = (s3, Ok n)" "load_loop env db s3 = (s', Ok x)"
      using "1.prems" b by (subst (asm) load_loop.simps) (auto simp: and_then_Ok simp del: opcode.simps)
    then show ?thesis using 4 ih(3) by (subst load_loop.simps) (simp add: inc del: opcode.simps)
  next
    case 5
    then obtain s2 m s3 n where "read_u64_le s1 = (s2, Ok m)" "read_key_value_with_expiry env db m s2 = (s3, Ok n)"
        "load_loop env db s3 = (s', Ok x)"
      using "1.prems" b by (subst (asm) load_loop.simps) (auto simp: and_then_Ok simp del: opcode.simps)
    then show ?thesis using 5 ih(4) by (subst load_loop.simps) (simp add: inc del: opcode.simps)
  next
    case 6
    then obtain s2 m s3 n where "read_u32_le s1 = (s2, Ok m)" "read_key_value_with_expiry env db (word_of_nat m * 1000) s2 = (s3, Ok n)"
        "load_loop env db s3 = (s', Ok x)"
      using "1.prems" b by (subst (asm) load_loop.simps) (auto simp: and_then_Ok simp del: opcode.simps)
    then show ?thesis using 6 ih(5) by (subst load_loop.simps) (simp add: inc del: opcode.simps)
  next
    case 7
    then obtain s2 n where "read_key_value_with_type env db op None s1 = (s2, Ok n)" "load_loop env db s2 = (s', Ok x)"
      using "1.prems" b by (subst (asm) load_loop.simps) (auto simp: and_then_Ok simp del: opcode.simps)
    then show ?thesis using 7 ih(6) by (subst load_loop.simps) (simp add: inc del: opcode.simps)
  qed
qed

lemma load_into_longer: "load_into env s = (s', Ok ()) \<Longrightarrow> load_into env (longer bs s) = (longer bs s', Ok ())"
proof -
  have v: "incremental (\<lambda>s. case r of Some n \<Rightarrow> if n \<le> 65535 then (s, Ok ()) else (s, Err (Io ''Invalid RDB version''))
      | None \<Rightarrow> (s, Err (Io ''Invalid RDB version'')))" for r :: "nat option"
    by (cases r) (auto intro: incremental_return incremental_if)
  have "incremental read_header" unfolding read_header_def
    by (intro incremental_then incremental_reads v)
  then show "load_into env s = (s', Ok ()) \<Longrightarrow> load_into env (longer bs s) = (longer bs s', Ok ())"
    by (auto simp: load_into_def and_then_Ok dest: load_loop_longer incrementalD(2))
qed

lemma whole_file_read:
  assumes "storable_engine e" "write_snapshot clk (e, new_writer None err) = ((e', w), Ok ())" "env_ok env" "length (databases e) \<le> n"
    and "unread s = written w" "target s = with_config n unlimited"
  shows "\<exists>s'. load_into env s = (s', Ok ()) \<and> unread s' = [] \<and>
    (\<forall>db k. restored_key env clk (file_deadline clk) db k (lookup e db k) (lookup (target s') db k))"
proof -
  from snapshot_bytes [OF assms(1), of "new_writer None err" clk] assms(2) obtain checksum where
    b: "written w = file_bytes [(''redis-ver'', CARGO_PKG_VERSION), (''ctime'', u64_to_string (started_secs clk))]
      (concat (map (db_bytes clk (file_deadline clk) (\<lambda>n. n) e) [0..<length (databases e)])) checksum"
    by (auto simp: new_writer_def)
  have "length (u64_to_string (started_secs clk)) \<le> 20"
    using nat_to_string_length [of "unat (started_secs clk)" 19] unat_lt2p_64 [of "started_secs clk"] by (simp add: u64_to_string_def)
  then show ?thesis
    by (intro load_file [OF _ _ assms(1,3)]) (auto simp: assms(4,5,6) b small_def CARGO_PKG_VERSION_def)
qed

section \<open>Properties\<close>

text \<open>
  C5: a dump file written by a successful save restores the data: loading it into a new engine with
  as many databases succeeds, and every key that had not expired when it was saved is there with the
  same value, and no other key is.  A deadline is restored as the wall-clock time that is left of it;
  a key whose deadline passes between the save and the load comes back without any deadline.
\<close>

theorem save_load_roundtrip:
  assumes "storable_engine e" "save r clk ans wall (e, d) = ((e', d'), r', Ok ())"
    and "env_ok env" "length (databases e) \<le> n"
  shows "\<exists>e2. load r' env d' (with_config n unlimited) = (e2, Ok ()) \<and>
    (\<forall>db k. restored_key env clk (file_deadline clk) db k (lookup e db k) (lookup e2 db k))"
proof -
  let ?w = "new_writer (file_capacity ans) (write_error ans)"
  obtain w where w: "write_snapshot clk (e, ?w) = ((e', w), Ok ())" "d' (file_path r) = Some (written w)" "file_path r' = file_path r"
    using assms(2) by (auto simp: save_def Let_def split: option.splits prod.splits result.splits)
  then have "write_snapshot clk (e, lift_limit ?w) = ((e', lift_limit w), Ok ())"
    using limit_free_snapshot [of clk] by (simp add: limit_free_pair_def)
  then have "write_snapshot clk (e, new_writer None (write_error ans)) = ((e', lift_limit w), Ok ())"
    by (simp add: lift_limit_def new_writer_def)
  from whole_file_read [OF assms(1) this assms(3,4), of "\<lparr>unread = written w, position = 0, target = with_config n unlimited\<rparr>"]
  obtain s' where "load_into env \<lparr>unread = written w, position = 0, target = with_config n unlimited\<rparr> = (s', Ok ())"
    "\<forall>db k. restored_key env clk (file_deadline clk) db k (lookup e db k) (lookup (target s') db k)"
    by (auto simp: lift_limit_def)
  then show ?thesis using w(2,3) by (auto simp: load_def)
qed

theorem save_load_roundtrip_witness:
  "\<exists>e e' d' r' e2 sv sv'. save (new_rdb_engine default_rdb_config) still_clock
      \<lparr>open_error = None, file_capacity = None, write_error = [], rename_error = None\<rparr> 0 (e, \<lambda>_. None) = ((e', d'), r', Ok ()) \<and>
     load r' still_env d' (with_config 1 unlimited) = (e2, Ok ()) \<and>
     lookup e 0 ''k'' = Some sv \<and> sv_value sv = VString ''v'' \<and>
     lookup e2 0 ''k'' = Some sv' \<and> sv_value sv' = VString ''v''"
proof -
  let ?ans = "\<lparr>open_error = None, file_capacity = None, write_error = [], rename_error = None\<rparr> :: disk_answers"
  obtain e sv where e: "storable_engine e" "length (databases e) = 1" "lookup e 0 ''k'' = Some sv" "sv_value sv = VString ''v''"
    "expires_at (metadata sv) = None" by (rule sample_engine)
  obtain e' d' r' where s: "save (new_rdb_engine default_rdb_config) still_clock ?ans 0 (e, \<lambda>_. None) = ((e', d'), r', Ok ())"
    using save_succeeds [OF e(1) refl] by blast
  obtain e2 where l: "load r' still_env d' (with_config 1 unlimited) = (e2, Ok ())"
    and k: "restored_key still_env still_clock (file_deadline still_clock) 0 ''k'' (lookup e 0 ''k'') (lookup e2 0 ''k'')"
    using save_load_roundtrip [OF e(1) s still_env_ok, of 1] e(2) by auto
  have "\<not> is_expired (get_at still_clock 0 ''k'') sv" using e(5) by (simp add: is_expired_def)
  then obtain sv' where "lookup e2 0 ''k'' = Some sv'" "same_value (VString ''v'') (sv_value sv')"
    using k e(3,4) by (auto simp: restored_key_def)
  then have "lookup e2 0 ''k'' = Some sv' \<and> sv_value sv' = VString ''v''" by (cases "sv_value sv'") auto
  then show ?thesis using s l e(3,4) by blast
qed



text \<open>
  C25: a save replaces the dump file only as a whole.  When anything fails (opening, writing at any
  byte, renaming, or a panic while the data is read) the previous dump file and the time of the last
  save stay as they were; when it succeeds the file holds the complete snapshot.  No other file but
  the temporary one is touched.
\<close>

theorem save_is_atomic:
  assumes "save r clk ans wall (e, d) = ((e', d'), r', res)" "with_extension (file_path r) ''tmp'' \<noteq> file_path r"
  shows "(if res = Ok () then \<exists>w. write_snapshot clk (e, new_writer (file_capacity ans) (write_error ans)) = ((e', w), Ok ()) \<and>
      d' (file_path r) = Some (written w) \<and> last_save_time r' = Some wall
    else d' (file_path r) = d (file_path r) \<and> r' = r) \<and>
    (\<forall>p. p \<noteq> file_path r \<longrightarrow> p \<noteq> with_extension (file_path r) ''tmp'' \<longrightarrow> d' p = d p)"
  using assms by (auto simp: save_def Let_def split: option.splits prod.splits result.splits if_splits)

theorem save_is_atomic_witness:
  "\<exists>s d' r' msg. save (new_rdb_engine default_rdb_config) still_clock
      \<lparr>open_error = None, file_capacity = Some 7, write_error = ''no space'', rename_error = None\<rparr> 0
      (with_config 1 unlimited, \<lambda>_. Some ''old'') = ((s, d'), r', Err msg) \<and> d' ''./dump.rdb'' = Some ''old''"
proof -
  let ?r = "new_rdb_engine default_rdb_config"
  let ?ans = "\<lparr>open_error = None, file_capacity = Some 7, write_error = ''no space'', rename_error = None\<rparr> :: disk_answers"
  have p: "file_path ?r = ''./dump.rdb''" "with_extension (file_path ?r) ''tmp'' = ''./dump.tmp''"
    by (simp_all add: new_rdb_engine_def default_rdb_config_def path_push_def with_extension_def)
  have "\<exists>s w. write_snapshot still_clock (with_config 1 unlimited, new_writer (Some 7) ''no space'') = ((s, w), Err (Io ''no space''))"
    by (simp add: write_snapshot_def on_file_def write_header_def write_raw_def new_writer_def RDB_MAGIC_def version_text_simps(1))
  then obtain s d' where s: "save ?r still_clock ?ans 0 (with_config 1 unlimited, \<lambda>_. Some ''old'') = ((s, d'), ?r, Err (Io ''no space''))"
    by (auto simp: save_def)
  from save_is_atomic [OF this] p have "d' ''./dump.rdb'' = Some ''old''" by simp
  then show ?thesis using s by blast
qed

text \<open>
  C27: the snapshot a master sends to a replica restores the same data as a dump file: generating it
  succeeds, and loading it gives every key that had not expired with its value, and no other key.
  The deadline it carries is the wall clock plus the time left, cut to milliseconds.
\<close>

theorem replica_snapshot_restores:
  assumes "storable_engine e" "\<forall>db k sv. lookup e db k = Some sv \<longrightarrow> deadline_fits clk wall_ns db k sv"
    and "env_ok env" "length (databases e) \<le> n"
  shows "\<exists>e' bs s. generate_rdb_bytes clk wall_ns e = (e', Ok bs) \<and>
    load_into env \<lparr>unread = bs, position = 0, target = with_config n unlimited\<rparr> = (s, Ok ()) \<and> unread s = [] \<and>
    (\<forall>db k. restored_key env clk (replica_deadline clk wall_ns) db k (lookup e db k) (lookup (target s) db k))"
proof -
  let ?auxs = "[(''redis-ver'', CARGO_PKG_VERSION), (''redis-bits'', ''64''), (''ctime'', u64_to_string (started_secs clk)),
    (''used-mem'', u64_to_string (used_memory (memory e)))]"
  let ?body = "concat (map (db_bytes clk (replica_deadline clk wall_ns) (\<lambda>_. 0) e) [0..<length (databases e)])"
  have aux: "buffer_aux k v = aux_bytes (k, v)" for k v by (simp add: buffer_aux_def aux_bytes_def string_bytes_def)
  obtain e' where "steps (map (buffer_db clk wall_ns) [0..<length (databases e)]) (e, RDB_MAGIC @ version_text @ concat (map aux_bytes ?auxs)) =
      ((e', (RDB_MAGIC @ version_text @ concat (map aux_bytes ?auxs)) @ ?body), Ok ())"
    using replica.dbs_spec [where e = e and e' = e and dbs = "[0..<length (databases e)]" and clk = clk and wall_ns = wall_ns
        and w = "RDB_MAGIC @ version_text @ concat (map aux_bytes ?auxs)"] assms(1,2)
    by (auto simp: storable_engine_def replica.fitting_def)
  then have g: "generate_rdb_bytes clk wall_ns e = (e', Ok (file_bytes ?auxs ?body 0))"
    by (simp add: generate_rdb_bytes_def aux file_bytes_def)
  have "length (u64_to_string x) \<le> 20" for x
    using nat_to_string_length [of "unat x" 19] unat_lt2p_64 [of x] by (simp add: u64_to_string_def)
  from this [of "started_secs clk"] this [of "used_memory (memory e)"]
  have "\<forall>a \<in> set ?auxs. small (fst a) \<and> small (snd a)" by (simp add: small_def CARGO_PKG_VERSION_def)
  then have "\<exists>s. load_into env \<lparr>unread = file_bytes ?auxs ?body 0, position = 0, target = with_config n unlimited\<rparr> = (s, Ok ()) \<and>
      unread s = [] \<and> (\<forall>db k. restored_key env clk (replica_deadline clk wall_ns) db k (lookup e db k) (lookup (target s) db k))"
    using assms(1,3,4) by (intro load_file [where auxs = ?auxs and hint = "\<lambda>_. 0" and checksum = 0 and n = n]) simp_all
  then show ?thesis using g by blast
qed

theorem replica_snapshot_restores_witness:
  "\<exists>e e' bs s sv. generate_rdb_bytes still_clock (\<lambda>_ _. 0) e = (e', Ok bs) \<and>
     load_into still_env \<lparr>unread = bs, position = 0, target = with_config 1 unlimited\<rparr> = (s, Ok ()) \<and>
     lookup (target s) 0 ''k'' = Some sv \<and> sv_value sv = VString ''v''"
proof -
  obtain e sv where e: "storable_engine e" "length (databases e) = 1" "lookup e 0 ''k'' = Some sv" "sv_value sv = VString ''v''"
    "expires_at (metadata sv) = None" "\<forall>db k. (db, k) \<noteq> (0, ''k'') \<longrightarrow> lookup e db k = None" by (rule sample_engine)
  have f: "\<forall>db k sv. lookup e db k = Some sv \<longrightarrow> deadline_fits still_clock (\<lambda>_ _. 0) db k sv"
  proof (intro allI impI)
    fix db k sv' assume l: "lookup e db k = Some sv'"
    then have "(db, k) = (0, ''k'')" using e(6) by (metis option.distinct(1))
    then show "deadline_fits still_clock (\<lambda>_ _. 0) db k sv'" using l e(3,5) by (simp add: deadline_fits_def time_left_def)
  qed
  obtain e' bs s where g: "generate_rdb_bytes still_clock (\<lambda>_ _. 0) e = (e', Ok bs)"
    "load_into still_env \<lparr>unread = bs, position = 0, target = with_config 1 unlimited\<rparr> = (s, Ok ())"
    "restored_key still_env still_clock (replica_deadline still_clock (\<lambda>_ _. 0)) 0 ''k'' (lookup e 0 ''k'') (lookup (target s) 0 ''k'')"
    using replica_snapshot_restores [OF e(1) f still_env_ok, of 1] e(2) by auto
  have "\<not> is_expired (get_at still_clock 0 ''k'') sv" using e(5) by (simp add: is_expired_def)
  then obtain sv' where "lookup (target s) 0 ''k'' = Some sv'" "same_value (VString ''v'') (sv_value sv')"
    using g(3) e(3,4) by (auto simp: restored_key_def)
  then have "lookup (target s) 0 ''k'' = Some sv' \<and> sv_value sv' = VString ''v''" by (cases "sv_value sv'") auto
  then show ?thesis using g(1,2) by blast
qed

end
