(* ===== verification/Spec2Isabelle.thy ===== *)
theory Spec2Isabelle
  imports Event_Loop_Correct Replica_Correct Executor_Correct Aof_Correct Rdb_Correct
begin

text \<open>
  A verification library for Ferrous, the Redis-compatible in-memory data store under \<^verbatim>\<open>src/\<close>.

  \<^bold>\<open>The program.\<close>  A server thread (\<^verbatim>\<open>src/network/server.rs\<close>) reads bytes from client connections
  (\<^verbatim>\<open>network/connection.rs\<close>), parses them into RESP frames (\<^verbatim>\<open>protocol/\<close>), routes each frame to a handler, and
  appends the serialized replies to the connection's write buffer.  Handlers work on the storage engine
  (\<^verbatim>\<open>storage/engine.rs\<close>): 16 databases of 16 shards, each a hash map from keys to typed values
  (\<^verbatim>\<open>storage/value.rs\<close>) with an index of deadlines and the modification counters behind \<^verbatim>\<open>WATCH\<close>.  Sorted sets
  are pointer-based skip lists (\<^verbatim>\<open>storage/skiplist.rs\<close>), streams are sorted vectors with consumer groups
  (\<^verbatim>\<open>storage/stream.rs\<close>, \<^verbatim>\<open>storage/consumer_groups.rs\<close>).  Around them are publish/subscribe (\<^verbatim>\<open>pubsub.rs\<close>),
  transactions (\<^verbatim>\<open>storage/commands/transactions.rs\<close>), blocking list commands (\<^verbatim>\<open>network/blocking.rs\<close>),
  snapshots and a log on disk (\<^verbatim>\<open>storage/rdb.rs\<close>, \<^verbatim>\<open>aof.rs\<close>) and replication (\<^verbatim>\<open>replication/\<close>).

  \<^bold>\<open>Theories and what they model.\<close>
  \<^item> \<open>Prelude\<close>: machine types, hash maps as association lists, B-tree maps as sorted lists.  \<open>Text\<close>: decimal
    texts, UTF-8.  \<open>Args\<close>: arguments of commands.  \<open>Ferrous_Error\<close>: \<^verbatim>\<open>error.rs\<close> and the outcome type.
  \<^item> \<open>Resp\<close>, \<open>Resp_Roundtrip\<close>, \<open>Resp_Parser\<close>: \<^verbatim>\<open>protocol/resp.rs\<close>, \<^verbatim>\<open>serializer.rs\<close>, \<^verbatim>\<open>parser.rs\<close> and the drain loop of a
    connection.  Shown: frames read back exactly, in any cut of the bytes; answers never change with more input;
    the parser object refines a function of its unread bytes; a protocol error silences a connection for good.
  \<^item> \<open>Stream_Id\<close>, \<open>Binary_Search\<close>, \<open>Consumer_Groups\<close>, \<open>Streams\<close>: streams and groups.  Shown: the sortedness and counter
    invariants in every reachable state, exact ranges and removals, monotonic identifiers, exact group reads,
    acknowledgements and claims.
  \<^item> \<open>Floats\<close>, \<open>Skip_List\<close>, \<open>Skip_List_Correct\<close>: the skip list over an explicit heap.  Shown: insertion and removal
    refine those of a sorted list, no pointer dangles, every loop ends, the queries agree with the list.
  \<^item> \<open>Values\<close>, \<open>Engine\<close>, \<open>Engine_Strings\<close>, \<open>Engine_Lists\<close>, \<open>Engine_Sets\<close>, \<open>Engine_Hashes\<close>, \<open>Engine_Sorted\<close>, \<open>Glob\<close>, \<open>Engine_Keys\<close>: the
    values and every operation of the engine.  The locales \<open>shard_local\<close> and \<open>shard_operation\<close> state what an operation
    owes its shard, and every operation interprets them.  \<open>Engine_Calls\<close> collects the operations into one call
    type with its reachable states; \<open>Engine_Spec\<close>, \<open>Engine_Watch\<close> and \<open>Engine_Slices\<close> prove the invariant, the independence of
    keys, reading after writing, expiry, counters, \<^verbatim>\<open>WATCH\<close> and the positional queries.
  \<^item> \<open>Pubsub\<close>: \<^verbatim>\<open>pubsub.rs\<close>, refining one relation between connections and subscriptions (locale
    \<open>subscription_store\<close>, interpreted for channels and for patterns).
  \<^item> \<open>Conn\<close>: \<^verbatim>\<open>network/connection.rs\<close>; whatever the socket answers, replies reach the wire complete and in order.
  \<^item> \<open>Blocking\<close>: \<^verbatim>\<open>network/blocking.rs\<close>, refining a family of queues (locale \<open>waiting_line\<close>): first come, first served.
  \<^item> \<open>Transactions\<close>: \<^verbatim>\<open>storage/commands/transactions.rs\<close>.
  \<^item> \<open>Backlog\<close>, \<open>Replication\<close>: \<^verbatim>\<open>replication/backlog.rs\<close>, \<^verbatim>\<open>manager.rs\<close>, \<^verbatim>\<open>sync.rs\<close>, \<^verbatim>\<open>commands.rs\<close>, \<^verbatim>\<open>mod.rs\<close>.  Shown: the
    backlog is a window on the stream of bytes, and the offsets of \<^verbatim>\<open>PSYNC\<close> do not fit it.
  \<^item> \<open>Server\<close>, \<open>Server_Correct\<close>: the table of connections, authentication, routing, \<^verbatim>\<open>EXEC\<close>, publish/subscribe and
    synchronization commands, service of blocked clients and clean-up of \<^verbatim>\<open>network/server.rs\<close>.  Shown: the
    authentication check of \<^verbatim>\<open>process_frame\<close> and the commands that skip it, transactions are all or nothing,
    a wake-up hands over one element, a publication reaches its receivers.
  \<^item> \<open>Steps\<close>, \<open>Disk\<close>, \<open>Rdb_Format\<close>, \<open>Rdb\<close>, \<open>Rdb_Load\<close>, \<open>Rdb_Correct\<close>: \<^verbatim>\<open>storage/rdb.rs\<close> over a disk whose answers are arbitrary.
    Shown: a saved file loads back to the same data, saving replaces the file at once or leaves it, a cut-off
    file is rejected, the snapshot for a replica restores the data.
  \<^item> \<open>Aof\<close>, \<open>Aof_Correct\<close>: \<^verbatim>\<open>storage/aof.rs\<close>.  Shown: the log holds the commands in order however writes are cut off; loading a
    log recognises no command.  \<open>Autosave\<close>: the save rules of \<^verbatim>\<open>storage/monitor.rs\<close>.
  \<^item> \<open>Commands_Base\<close>, \<open>Commands_Strings\<close>, \<open>Commands_Collections\<close>, \<open>Commands_Sorted\<close>, \<open>Commands_Streams\<close>, \<open>Commands_Groups\<close>: the handlers of
    \<^verbatim>\<open>storage/commands/\<close> and of \<^verbatim>\<open>network/server.rs\<close>, with their argument parsing, error replies and reply frames.
  \<^item> \<open>Dispatch\<close>, \<open>Dispatch_Correct\<close>: \<^verbatim>\<open>process_normal_command\<close>.  Shown: every command keeps the engine invariant, answers with a
    frame of its declared type, a read command only drops expired keys, a write command is logged, counted and
    propagated.
  \<^item> \<open>Event_Loop\<close>, \<open>Connection_Table\<close>, \<open>Event_Loop_Correct\<close>: \<^verbatim>\<open>run\<close>, accepting, reading, executing, sending and clean-up.  Shown: no
    handler loses a connection, the replies of a pipeline are queued in order, one per request, and one wake-up
    can end the server.
  \<^item> \<open>Replica\<close>, \<open>Replica_Correct\<close>: \<^verbatim>\<open>replication/client.rs\<close>, from the handshake to the application of commands.  Shown: a replica
    follows the commands it knows exactly, skips the other writes, and discards the initial snapshot.
  \<^item> \<open>Executor_Parse\<close>, \<open>Executor\<close>, \<open>Executor_Correct\<close>: \<^verbatim>\<open>storage/commands/executor.rs\<close>, the typed commands, the parser and the executor that
    scripts call.  Shown: the commands that scripts and clients share agree whenever the client's succeeds; a
    script's \<^verbatim>\<open>RENAMENX\<close> overwrites.  \<open>float_texts\<close> is the one assumption on \<^verbatim>\<open>parse::<f64>\<close>: it accepts only valid UTF-8.

  \<^bold>\<open>Modelling decisions.\<close>  A byte is a \<^typ>\<open>char\<close>, a \<^verbatim>\<open>Vec<u8>\<close> a \<^typ>\<open>string\<close>.  \<^verbatim>\<open>i64\<close>, \<^verbatim>\<open>u64\<close> and atomic
  counters are 64-bit words and wrap as the release build does; sizes of containers are natural numbers.
  \<^verbatim>\<open>f64\<close> values are bit patterns with exact comparison; their arithmetic and text form are parameters.
  \<^verbatim>\<open>HashMap\<close> and \<^verbatim>\<open>HashSet\<close> are duplicate-free lists whose order stands for the unspecified iteration order.  Instants are
  natural numbers of nanoseconds; clock readings, random numbers, socket answers and resolver answers are arguments.
  A call returns, returns an error or panics (\<open>result\<close>); allocation limits of \<^verbatim>\<open>Vec\<close> are modelled where the code reserves
  memory from untrusted sizes.  Handlers run one after the other, as in the server's single loop; the locks between
  its threads, and their poisoning, are not modelled, except that the background sweep is an operation of its own.

  \<^bold>\<open>Loops and termination.\<close>  Every recursion is structural or has a termination proof; no fuel is used.  The walks of the skip
  list are partial functions on the heap whose answers are proved to exist on consistent lists, and the two
  glob matchers and the scan iteration have termination theorems of their own.

  \<^bold>\<open>Not modelled.\<close>  Lua scripting above \<^verbatim>\<open>executor.rs\<close> (a binding to an interpreter outside the repository); the administration
  commands (\<^verbatim>\<open>INFO\<close>, \<^verbatim>\<open>CONFIG\<close>, \<^verbatim>\<open>CLIENT\<close>, \<^verbatim>\<open>SLOWLOG\<close>, \<^verbatim>\<open>MEMORY\<close> and their like), which are the argument \<open>other\<close> of the dispatcher;
  configuration, start-up and sockets; performance monitoring, which is taken as switched off.  The answers of clock, disk
  and random source for the \<open>n\<close>-th executed command are the environment \<open>envs n\<close>, counted by the field \<open>executed\<close>.
\<close>

end
